(* ===== verification/Prelude.thy ===== *)
theory Prelude
  imports Main "HOL-Library.Word"
begin

text \<open>
  Shared material of the development: the names of the C integer types, C strings,
  little-endian byte images of integers, the outcome of memory allocations, and the
  list lemmas the component theories use.
\<close>

section \<open>Collections\<close>

named_theorems c_simps \<open>equations of the C-level helpers\<close>

named_theorems frame_simps \<open>which parts of a state an operation leaves alone\<close>

section \<open>C types\<close>

type_synonym u8 = "8 word"
type_synonym u16 = "16 word"
type_synonym u32 = "32 word"
type_synonym u64 = "64 word"

text \<open>
  The conversion of a \<^verbatim>\<open>size_t\<close> to \<^verbatim>\<open>int\<close> on the supported LP64
  platforms: the low 32 bits, read in two's complement.
\<close>

definition int_of_size :: "nat \<Rightarrow> int" where
  "int_of_size n = sint (word_of_nat n :: u32)"

lemma int_of_size_small: "n < 2 ^ 31 \<Longrightarrow> int_of_size n = int n"
  by (simp add: int_of_size_def signed_of_nat signed_take_bit_int_eq_self)

section \<open>Allocation\<close>

text \<open>
  Every call of \<^verbatim>\<open>malloc\<close>, \<^verbatim>\<open>calloc\<close>,
  \<^verbatim>\<open>realloc\<close> and \<^verbatim>\<open>strdup\<close> may fail. A schedule says, for the
  coming calls in order, whether they succeed; past its end they all succeed. A theorem
  over an arbitrary schedule covers every pattern of failures.
\<close>

type_synonym schedule = "bool list"

fun alloc :: "schedule \<Rightarrow> bool \<times> schedule" where
  "alloc [] = (True, [])"
| "alloc (b # bs) = (b, bs)"

section \<open>C strings\<close>

text \<open>The C string that starts a byte array: everything before the first NUL.\<close>

definition c_str :: "'a::zero list \<Rightarrow> 'a list" where
  "c_str bs = takeWhile (\<lambda>b. b \<noteq> 0) bs"

lemma c_str_simps [c_simps]:
  "c_str [] = []"
  "c_str (b # bs) = (if b = 0 then [] else b # c_str bs)"
  by (auto simp: c_str_def)

lemma c_str_length: "length (c_str bs) \<le> length bs"
  by (simp add: c_str_def length_takeWhile_le)

lemma c_str_no_nul: "0 \<notin> set bs \<Longrightarrow> c_str bs = bs"
  by (auto simp: c_str_def takeWhile_eq_all_conv)

lemma c_str_append_nul: "0 \<notin> set bs \<Longrightarrow> c_str (bs @ 0 # cs) = bs"
  by (induction bs) (auto simp: c_str_def)

lemma c_str_snoc_nul [simp]: "c_str (bs @ [0]) = c_str bs"
  by (induction bs) (auto simp: c_str_def)

text \<open>
  Strings in the sources' comparisons are kept as HOL strings; \<open>bytes_of\<close> gives
  their bytes.
\<close>

definition bytes_of :: "string \<Rightarrow> u8 list" where
  "bytes_of s = map of_char s"

section \<open>Byte images of integers\<close>

text \<open>\<open>to_le n x\<close> is the \<open>n\<close>-byte little-endian image of \<open>x\<close>.\<close>

fun to_le :: "nat \<Rightarrow> nat \<Rightarrow> u8 list" where
  "to_le 0 x = []"
| "to_le (Suc n) x = word_of_nat (x mod 256) # to_le n (x div 256)"

fun of_le :: "u8 list \<Rightarrow> nat" where
  "of_le [] = 0"
| "of_le (b # bs) = unat b + 256 * of_le bs"

lemma length_to_le [simp]: "length (to_le n x) = n"
  by (induction n arbitrary: x) auto

lemma take_to_le: "take m (to_le n x) = to_le (min m n) x"
  by (induction n arbitrary: m x) (auto simp: take_Cons split: nat.splits)

lemma word_of_nat_unat_eq: "word_of_nat (unat w) = w"
  by simp

lemma unat_u8_less: "unat (b :: u8) < 256"
  using unsigned_less [of b, where ?'a = nat] by simp

lemma unat_u8_of_mod: "unat (word_of_nat (x mod 256) :: u8) = x mod 256"
  by (simp add: unat_of_nat take_bit_eq_mod)

lemma of_le_to_le: "of_le (to_le n x) = x mod 256 ^ n"
proof (induction n arbitrary: x)
  case 0
  then show ?case by simp
next
  case (Suc n)
  have "of_le (to_le (Suc n) x) = x mod 256 + 256 * (x div 256 mod 256 ^ n)"
    using Suc.IH by (simp add: unat_u8_of_mod)
  also have "\<dots> = x mod 256 ^ Suc n"
    by (simp add: mod_mult2_eq)
  finally show ?case .
qed

lemma of_le_bound: "of_le bs < 256 ^ length bs"
proof (induction bs)
  case Nil
  then show ?case by simp
next
  case (Cons b bs)
  have "unat b < 256" by (rule unat_u8_less)
  with Cons show ?case by simp
qed

lemma to_le_of_le: "length bs = n \<Longrightarrow> to_le n (of_le bs) = bs"
proof (induction bs arbitrary: n)
  case Nil
  then show ?case by simp
next
  case (Cons b bs)
  have lt: "unat b < 256" by (rule unat_u8_less)
  from Cons.prems obtain m where n: "n = Suc m" and m: "length bs = m" by (cases n) auto
  from lt have "(unat b + 256 * of_le bs) mod 256 = unat b" by simp
  moreover from lt have "(unat b + 256 * of_le bs) div 256 = of_le bs" by simp
  ultimately show ?case using n Cons.IH [OF m] by simp
qed

text \<open>The images of the integer types, with the two round trips they need.\<close>

definition u32_bytes :: "u32 \<Rightarrow> u8 list" where
  "u32_bytes w = to_le 4 (unat w)"

definition u64_bytes :: "u64 \<Rightarrow> u8 list" where
  "u64_bytes w = to_le 8 (unat w)"

definition bytes_u32 :: "u8 list \<Rightarrow> u32" where
  "bytes_u32 bs = word_of_nat (of_le bs)"

definition bytes_u64 :: "u8 list \<Rightarrow> u64" where
  "bytes_u64 bs = word_of_nat (of_le bs)"

lemma length_u32_bytes [simp]: "length (u32_bytes w) = 4"
  by (simp add: u32_bytes_def)

lemma length_u64_bytes [simp]: "length (u64_bytes w) = 8"
  by (simp add: u64_bytes_def)

lemma bytes_u32_inverse [simp]: "bytes_u32 (u32_bytes w) = w"
proof -
  have "unat w mod 256 ^ 4 = unat w"
    using unsigned_less [of w, where ?'a = nat] by simp
  then show ?thesis
    by (simp only: bytes_u32_def u32_bytes_def of_le_to_le word_of_nat_unat_eq)
qed

lemma bytes_u64_inverse [simp]: "bytes_u64 (u64_bytes w) = w"
proof -
  have "unat w mod 256 ^ 8 = unat w"
    using unsigned_less [of w, where ?'a = nat] by simp
  then show ?thesis
    by (simp only: bytes_u64_def u64_bytes_def of_le_to_le word_of_nat_unat_eq)
qed

lemma u32_bytes_inverse: "length bs = 4 \<Longrightarrow> u32_bytes (bytes_u32 bs) = bs"
  using of_le_bound [of bs]
  by (simp add: bytes_u32_def u32_bytes_def unat_of_nat take_bit_eq_mod to_le_of_le)

lemma u64_bytes_inverse: "length bs = 8 \<Longrightarrow> u64_bytes (bytes_u64 bs) = bs"
  using of_le_bound [of bs]
  by (simp add: bytes_u64_def u64_bytes_def unat_of_nat take_bit_eq_mod to_le_of_le)

text \<open>An \<^verbatim>\<open>int\<close> object as its four bytes.\<close>

definition int_bytes :: "int \<Rightarrow> u8 list" where
  "int_bytes i = u32_bytes (word_of_int i)"

definition bytes_int :: "u8 list \<Rightarrow> int" where
  "bytes_int bs = sint (bytes_u32 (take 4 bs))"

lemma length_int_bytes [simp]: "length (int_bytes i) = 4"
  by (simp add: int_bytes_def)

lemma bytes_int_inverse:
  assumes "- (2 ^ 31) \<le> i" and "i < 2 ^ 31"
  shows "bytes_int (int_bytes i @ rest) = i"
  using assms by (simp add: bytes_int_def int_bytes_def sint_sbintrunc' signed_take_bit_int_eq_self)

section \<open>Writing into an array\<close>

text \<open>
  \<^verbatim>\<open>memcpy(dst + at, src, length src)\<close> as a list update; callers are
  responsible for the range being inside the array.
\<close>

definition put_at :: "'a list \<Rightarrow> nat \<Rightarrow> 'a list \<Rightarrow> 'a list" where
  "put_at dst at src = take at dst @ src @ drop (at + length src) dst"

lemma length_put_at [simp]: "at + length src \<le> length dst \<Longrightarrow> length (put_at dst at src) = length dst"
  by (simp add: put_at_def)

lemma put_at_0: "put_at dst 0 src = src @ drop (length src) dst"
  by (simp add: put_at_def)

lemma take_put_at_0 [simp]: "take (length src) (put_at dst 0 src) = src"
  by (simp add: put_at_def)

lemma put_at_append:
  "at + length src + length src' \<le> length dst \<Longrightarrow>
   put_at (put_at dst at src) (at + length src) src' = put_at dst at (src @ src')"
  by (simp add: put_at_def ac_simps)

end
