(* ===== verification/Bound.thy ===== *)
theory Bound
  imports Prelude
begin

text \<open>
  The packet framing of \<^verbatim>\<open>custom_include/bound.c\<close>: a message is cut into
  packets of \<open>BUF_SIZE\<close> bytes of payload, each written to the socket as the memory image
  of one \<^verbatim>\<open>struct pkt\<close>; the reader collects one image per call. The socket is
  modelled with the freedom the operating system has: reads and writes may fail and may
  transfer fewer bytes than asked for.
\<close>

section \<open>The packet\<close>

definition BUF_SIZE :: nat where
  "BUF_SIZE = 1024"

text \<open>
  \<^verbatim>\<open>struct pkt\<close> with its layout on LP64: \<^verbatim>\<open>int end\<close>, four bytes of
  padding, two \<^verbatim>\<open>size_t\<close> and the payload array. The padding is kept, because the
  image that goes over the socket contains it.
\<close>

record pkt =
  pend :: u32
  ppad :: "u8 list"
  psize :: u64
  ptotal_size :: u64
  pbuf :: "u8 list"

definition sizeof_pkt :: nat where
  "sizeof_pkt = 24 + BUF_SIZE"

definition wf_pkt :: "pkt \<Rightarrow> bool" where
  "wf_pkt p \<longleftrightarrow> length (ppad p) = 4 \<and> length (pbuf p) = BUF_SIZE"

definition pkt_bytes :: "pkt \<Rightarrow> u8 list" where
  "pkt_bytes p = u32_bytes (pend p) @ ppad p @ u64_bytes (psize p) @
     u64_bytes (ptotal_size p) @ pbuf p"

definition pkt_of_bytes :: "u8 list \<Rightarrow> pkt" where
  "pkt_of_bytes bs = \<lparr>pend = bytes_u32 (take 4 bs), ppad = take 4 (drop 4 bs),
     psize = bytes_u64 (take 8 (drop 8 bs)), ptotal_size = bytes_u64 (take 8 (drop 16 bs)),
     pbuf = drop 24 bs\<rparr>"

lemma length_pkt_bytes: "wf_pkt p \<Longrightarrow> length (pkt_bytes p) = sizeof_pkt"
  by (simp add: wf_pkt_def pkt_bytes_def sizeof_pkt_def)

lemma pkt_bytes_inverse: "wf_pkt p \<Longrightarrow> pkt_of_bytes (pkt_bytes p) = p"
  by (simp add: wf_pkt_def pkt_bytes_def pkt_of_bytes_def)

lemma wf_pkt_of_bytes: "length bs = sizeof_pkt \<Longrightarrow> wf_pkt (pkt_of_bytes bs)"
  by (simp add: wf_pkt_def pkt_of_bytes_def sizeof_pkt_def)

section \<open>The socket\<close>

text \<open>
  \<open>tx\<close> is what the kernel has accepted from this side, \<open>rx\<close> everything the peer will
  ever send and this side has not read yet. The schedules fix the outcome of the coming
  calls: \<open>None\<close> is a call that fails with \<open>-1\<close>; \<open>Some n\<close> bounds the number of bytes a
  call transfers. A read transfers at least one byte while there are any, and returns 0
  once the stream has ended. Past the end of a schedule every call transfers all it can.
\<close>

record sock =
  tx :: "u8 list"
  wsched :: "nat option list"
  rx :: "u8 list"
  rsched :: "nat option list"

definition sock_write :: "sock \<Rightarrow> u8 list \<Rightarrow> int \<times> sock" where
  "sock_write s bs =
     (case wsched s of
        [] \<Rightarrow> (int (length bs), s\<lparr>tx := tx s @ bs\<rparr>)
      | None # ws \<Rightarrow> (-1, s\<lparr>wsched := ws\<rparr>)
      | Some n # ws \<Rightarrow>
          (int (min n (length bs)), s\<lparr>tx := tx s @ take n bs, wsched := ws\<rparr>))"

definition sock_read :: "sock \<Rightarrow> nat \<Rightarrow> int \<times> u8 list \<times> sock" where
  "sock_read s n =
     (case rsched s of
        [] \<Rightarrow> (int (min n (length (rx s))), take n (rx s), s\<lparr>rx := drop n (rx s)\<rparr>)
      | None # rs \<Rightarrow> (-1, [], s\<lparr>rsched := rs\<rparr>)
      | Some k # rs \<Rightarrow>
          (let m = min n (Suc k)
           in (int (min m (length (rx s))), take m (rx s), s\<lparr>rx := drop m (rx s), rsched := rs\<rparr>)))"

lemma sock_read_bounds:
  "sock_read s n = (cnt, bs, s') \<Longrightarrow> 0 < cnt \<Longrightarrow> cnt = int (length bs) \<and> length bs \<le> n"
  by (auto simp: sock_read_def Let_def split: list.splits option.splits)

section \<open>bound_read\<close>

text \<open>
  The loop of \<^verbatim>\<open>bound_read\<close>: \<open>read_sz\<close> bytes are missing, \<open>got\<close> is the part
  of the image read so far. The first component of the result is 1 when the image is
  complete and the failing count otherwise.
\<close>

function bound_read_loop :: "nat \<Rightarrow> u8 list \<Rightarrow> sock \<Rightarrow> int \<times> u8 list \<times> sock" where
  "bound_read_loop read_sz got s =
     (if read_sz = 0 then (1, got, s)
      else case sock_read s read_sz of (read_cnt, bs, s') \<Rightarrow>
        if read_cnt \<le> 0 then (read_cnt, got, s')
        else bound_read_loop (read_sz - nat read_cnt) (got @ bs) s')"
  by pat_completeness auto
termination
  by (relation "measure (\<lambda>(read_sz, got, s). read_sz)") auto

declare bound_read_loop.simps [simp del]

definition bound_read :: "sock \<Rightarrow> pkt \<Rightarrow> int \<times> pkt \<times> sock" where
  "bound_read s p =
     (case bound_read_loop sizeof_pkt [] s of (r, got, s') \<Rightarrow>
        let p' = pkt_of_bytes (got @ drop (length got) (pkt_bytes p))
        in if r \<le> 0 then (r, p', s') else (int_of_size (unat (psize p')), p', s'))"

section \<open>bound_send\<close>

text \<open>
  The loop of \<^verbatim>\<open>bound_send\<close>. Only the first \<open>send_size\<close> bytes of the payload
  array are overwritten: the image on the wire still carries what the array held before.
  The count that \<^verbatim>\<open>write\<close> returns is compared with \<open>-1\<close> and nothing else.
\<close>

function bound_send_loop ::
  "nat \<Rightarrow> u8 list \<Rightarrow> nat \<Rightarrow> nat \<Rightarrow> pkt \<Rightarrow> sock \<Rightarrow> int \<times> pkt \<times> sock" where
  "bound_send_loop data_size data remain_len loc p s =
     (if remain_len = 0 then (int_of_size data_size, p, s)
      else
        let send_size = (if remain_len > BUF_SIZE then BUF_SIZE else remain_len);
            p' = p\<lparr>pbuf := put_at (pbuf p) 0 (take send_size (drop loc data)),
                   psize := word_of_nat send_size,
                   pend := (if remain_len \<le> BUF_SIZE then 1 else 0),
                   ptotal_size := word_of_nat data_size\<rparr>
        in case sock_write s (pkt_bytes p') of (write_cnt, s') \<Rightarrow>
             if write_cnt = -1 then (write_cnt, p', s')
             else bound_send_loop data_size data (remain_len - send_size) (loc + send_size) p' s')"
  by pat_completeness auto
termination
  by (relation "measure (\<lambda>(n, data, remain_len, loc, p, s). remain_len)")
     (auto simp: BUF_SIZE_def)

declare bound_send_loop.simps [simp del]

definition bound_send :: "sock \<Rightarrow> pkt \<Rightarrow> u8 list \<Rightarrow> nat \<Rightarrow> int \<times> pkt \<times> sock" where
  "bound_send s p data data_size = bound_send_loop data_size data data_size 0 p s"


section \<open>Framing as an interface\<close>

text \<open>
  What the two sides of the connection rely on: a message is cut into packets whose payloads
  concatenate to it, and exactly the last packet is marked. A receiver that collects payloads
  up to the first marked packet then has the message and leaves the rest of the stream alone.
\<close>

fun collect :: "('p \<Rightarrow> bool) \<Rightarrow> ('p \<Rightarrow> 'd list) \<Rightarrow> 'p list \<Rightarrow> ('d list \<times> 'p list) option" where
  "collect fin pl [] = None"
| "collect fin pl (p # ps) =
     (if fin p then Some (pl p, ps)
      else map_option (\<lambda>(d, r). (pl p @ d, r)) (collect fin pl ps))"

locale framing =
  fixes cut :: "'c \<Rightarrow> 'd list \<Rightarrow> 'p list"
    and payload :: "'p \<Rightarrow> 'd list"
    and fin :: "'p \<Rightarrow> bool"
  assumes cut_payload: "concat (map payload (cut c d)) = d"
    and cut_ends: "d \<noteq> [] \<Longrightarrow> \<exists>ps p. cut c d = ps @ [p] \<and> fin p \<and> (\<forall>q\<in>set ps. \<not> fin q)"
begin

lemma collect_unmarked:
  "\<forall>q\<in>set ps. \<not> fin q \<Longrightarrow> fin p \<Longrightarrow>
   collect fin payload (ps @ p # rest) = Some (concat (map payload (ps @ [p])), rest)"
  by (induction ps) auto

lemma collect_cut: "d \<noteq> [] \<Longrightarrow> collect fin payload (cut c d @ rest) = Some (d, rest)"
proof -
  assume "d \<noteq> []"
  then obtain ps p where c: "cut c d = ps @ [p]" and f: "fin p" "\<forall>q\<in>set ps. \<not> fin q"
    using cut_ends by blast
  have "concat (map payload (ps @ [p])) = d"
    using cut_payload [of c d] c by simp
  with collect_unmarked [OF f(2) f(1), of rest] c show ?thesis by simp
qed

lemma collect_two:
  "d \<noteq> [] \<Longrightarrow> d' \<noteq> [] \<Longrightarrow>
   (case collect fin payload (cut c d @ cut c' d' @ rest) of
      None \<Rightarrow> None | Some (x, r) \<Rightarrow> map_option (\<lambda>(y, r'). (x, y, r')) (collect fin payload r))
   = Some (d, d', rest)"
  by (simp add: collect_cut)

end

section \<open>What bound_send writes\<close>

text \<open>
  The packets of a message, starting from the packet \<open>p\<close> the caller passes as scratch
  space, and the packet left behind in it.
\<close>

definition fill_pkt :: "nat \<Rightarrow> u8 list \<Rightarrow> pkt \<Rightarrow> pkt" where
  "fill_pkt n d p = p\<lparr>pbuf := put_at (pbuf p) 0 (take BUF_SIZE d),
     psize := word_of_nat (min BUF_SIZE (length d)),
     pend := (if length d \<le> BUF_SIZE then 1 else 0), ptotal_size := word_of_nat n\<rparr>"

function packets :: "nat \<times> pkt \<Rightarrow> u8 list \<Rightarrow> pkt list" where
  "packets (n, p) d =
     (if d = [] then [] else fill_pkt n d p # packets (n, fill_pkt n d p) (drop BUF_SIZE d))"
  by pat_completeness auto
termination
  by (relation "measure (\<lambda>(np, d). length d)") (auto simp: BUF_SIZE_def)

declare packets.simps [simp del]

lemma packets_Nil [simp]: "packets np [] = []"
  by (cases np) (simp add: packets.simps)

lemma packets_step:
  "d \<noteq> [] \<Longrightarrow> packets (n, p) d = fill_pkt n d p # packets (n, fill_pkt n d p) (drop BUF_SIZE d)"
  by (simp add: packets.simps)

definition payload :: "pkt \<Rightarrow> u8 list" where
  "payload p = take (unat (psize p)) (pbuf p)"

lemma unat_size_small: "n \<le> BUF_SIZE \<Longrightarrow> unat (word_of_nat n :: u64) = n"
  by (simp add: BUF_SIZE_def unat_of_nat)

lemma payload_fill: "payload (fill_pkt n d p) = take BUF_SIZE d"
proof -
  have "min (length d) BUF_SIZE = length (take BUF_SIZE d)" by simp
  then show ?thesis
    by (simp add: payload_def fill_pkt_def unat_size_small put_at_0 min_def)
qed

lemma wf_fill_pkt [simp]: "wf_pkt p \<Longrightarrow> wf_pkt (fill_pkt n d p)"
  by (simp add: wf_pkt_def fill_pkt_def)

lemma packets_payload: "concat (map payload (packets np d)) = d"
proof (induction np d rule: packets.induct)
  case (1 n p d)
  show ?case
  proof (cases "d = []")
    case False
    with 1 show ?thesis by (simp add: packets_step payload_fill)
  qed simp
qed

lemma packets_ends:
  "d \<noteq> [] \<Longrightarrow> \<exists>ps p. packets np d = ps @ [p] \<and> pend p = 1 \<and> (\<forall>q\<in>set ps. pend q \<noteq> 1)"
proof (induction np d rule: packets.induct)
  case (1 n p d)
  show ?case
  proof (cases "length d \<le> BUF_SIZE")
    case True
    with 1 have "packets (n, p) d = [] @ [fill_pkt n d p]" by (simp add: packets_step)
    with True show ?thesis by (fastforce simp: fill_pkt_def)
  next
    case False
    then have ne: "drop BUF_SIZE d \<noteq> []" by simp
    from "1.IH" [OF "1.prems" ne] obtain ps l where
      "packets (n, fill_pkt n d p) (drop BUF_SIZE d) = ps @ [l]" "pend l = 1"
      "\<forall>q\<in>set ps. pend q \<noteq> 1" by blast
    moreover from False have "pend (fill_pkt n d p) \<noteq> 1" by (simp add: fill_pkt_def)
    ultimately have "packets (n, p) d = (fill_pkt n d p # ps) @ [l]"
      "\<forall>q\<in>set (fill_pkt n d p # ps). pend q \<noteq> 1"
      using "1.prems" by (auto simp: packets_step)
    with \<open>pend l = 1\<close> show ?thesis by blast
  qed
qed

lemma packets_wf: "wf_pkt p \<Longrightarrow> q \<in> set (packets (n, p) d) \<Longrightarrow> wf_pkt q"
proof (induction "(n, p)" d arbitrary: p rule: packets.induct)
  case (1 p d)
  then show ?case by (cases "d = []") (auto simp: packets_step)
qed

interpretation bound: framing packets payload "\<lambda>p. pend p = 1"
  by unfold_locales (simp_all add: packets_payload packets_ends)

text \<open>On a socket that accepts every write, \<^verbatim>\<open>bound_send\<close> writes exactly these images.\<close>

definition wire :: "nat \<times> pkt \<Rightarrow> u8 list \<Rightarrow> u8 list" where
  "wire np d = concat (map pkt_bytes (packets np d))"

lemma bound_send_loop_wire:
  assumes "wsched s = []" and "remain = length data - loc"
  shows "bound_send_loop n data remain loc p s =
    (int_of_size n, last (p # packets (n, p) (drop loc data)),
     s\<lparr>tx := tx s @ wire (n, p) (drop loc data)\<rparr>)"
  using assms
proof (induction n data remain loc p s rule: bound_send_loop.induct)
  case (1 n data remain loc p s)
  show ?case
  proof (cases "remain = 0")
    case True
    with "1.prems" show ?thesis by (simp add: bound_send_loop.simps wire_def)
  next
    case False
    let ?d = "drop loc data"
    let ?k = "if remain > BUF_SIZE then BUF_SIZE else remain"
    from False "1.prems" have ne: "?d \<noteq> []" and rem: "remain = length ?d" by auto
    have q: "p\<lparr>pbuf := put_at (pbuf p) 0 (take ?k ?d), psize := word_of_nat ?k,
               pend := (if remain \<le> BUF_SIZE then 1 else 0), ptotal_size := word_of_nat n\<rparr>
             = fill_pkt n ?d p"
      unfolding fill_pkt_def rem by (simp add: min_def)
    have wr: "sock_write s bs = (int (length bs), s\<lparr>tx := tx s @ bs\<rparr>)" for bs
      using "1.prems" by (simp add: sock_write_def)
    have dr: "drop (loc + ?k) data = drop BUF_SIZE ?d" using rem by (auto simp: add.commute)
    have "bound_send_loop n data remain loc p s =
      bound_send_loop n data (remain - ?k) (loc + ?k) (fill_pkt n ?d p)
        (s\<lparr>tx := tx s @ pkt_bytes (fill_pkt n ?d p)\<rparr>)"
      using False by (subst bound_send_loop.simps) (simp only: Let_def q wr, simp)
    also have "\<dots> = (int_of_size n, last (fill_pkt n ?d p # packets (n, fill_pkt n ?d p) (drop BUF_SIZE ?d)),
      s\<lparr>tx := tx s @ pkt_bytes (fill_pkt n ?d p) @ wire (n, fill_pkt n ?d p) (drop BUF_SIZE ?d)\<rparr>)"
      using "1.IH" [OF False refl, of "fill_pkt n ?d p"] "1.prems" wr q dr by simp
    finally show ?thesis using ne by (simp add: packets_step wire_def)
  qed
qed

lemma bound_send_wire:
  assumes "wsched s = []"
  shows "bound_send s p data (length data) =
    (int_of_size (length data), last (p # packets (length data, p) data),
     s\<lparr>tx := tx s @ wire (length data, p) data\<rparr>)"
  using bound_send_loop_wire [OF assms, of "length data" data 0 "length data" p]
  by (simp add: bound_send_def)

section \<open>What bound_read returns\<close>

text \<open>
  Reads that never fail, however the bytes are fragmented; and a socket \<open>s'\<close> that has come
  from \<open>s\<close> by such reads with \<open>rest\<close> still unread.
\<close>

definition no_read_error :: "sock \<Rightarrow> bool" where
  "no_read_error s \<longleftrightarrow> None \<notin> set (rsched s)"

definition after_read :: "sock \<Rightarrow> u8 list \<Rightarrow> sock \<Rightarrow> bool" where
  "after_read s rest s' \<longleftrightarrow>
     rx s' = rest \<and> tx s' = tx s \<and> wsched s' = wsched s \<and> no_read_error s'"

lemma after_read_trans: "after_read s r s' \<Longrightarrow> after_read s' r' s'' \<Longrightarrow> after_read s r' s''"
  by (simp add: after_read_def)

lemma sock_read_ok:
  assumes "no_read_error s"
  obtains m s' where "sock_read s n = (int (min m (length (rx s))), take m (rx s), s')"
    and "m \<le> n" and "0 < n \<Longrightarrow> 0 < m" and "rx s' = drop m (rx s)" and "tx s' = tx s"
    and "wsched s' = wsched s" and "no_read_error s'"
proof (cases "rsched s")
  case Nil
  with assms that [of n "s\<lparr>rx := drop n (rx s)\<rparr>"] show thesis
    by (simp add: sock_read_def no_read_error_def)
next
  case (Cons r rs)
  with assms obtain k where "r = Some k" by (cases r) (auto simp: no_read_error_def)
  with Cons assms that [of "min n (Suc k)" "s\<lparr>rx := drop (min n (Suc k)) (rx s), rsched := rs\<rparr>"]
  show thesis by (simp add: sock_read_def no_read_error_def Let_def)
qed

lemma bound_read_loop_complete:
  assumes "no_read_error s" and "n \<le> length (rx s)"
  shows "\<exists>s'. bound_read_loop n got s = (1, got @ take n (rx s), s') \<and> rx s' = drop n (rx s) \<and>
    tx s' = tx s \<and> wsched s' = wsched s \<and> no_read_error s'"
  using assms
proof (induction n arbitrary: got s rule: less_induct)
  case (less n)
  show ?case
  proof (cases "n = 0")
    case True
    with less.prems show ?thesis by (simp add: bound_read_loop.simps)
  next
    case False
    obtain m s1 where
      rd: "sock_read s n = (int (min m (length (rx s))), take m (rx s), s1)"
      and m: "m \<le> n" "0 < n \<Longrightarrow> 0 < m" and s1: "rx s1 = drop m (rx s)" "tx s1 = tx s"
        "wsched s1 = wsched s" "no_read_error s1"
      using sock_read_ok [OF less.prems(1), of n] by metis
    from m less.prems have mm: "min m (length (rx s)) = m" by simp
    have "n - m < n" and "n - m \<le> length (rx s1)" using m False s1 less.prems by auto
    from less.IH [OF this(1) s1(4) this(2), of "got @ take m (rx s)"] obtain s' where
      "bound_read_loop (n - m) (got @ take m (rx s)) s1 =
        (1, got @ take m (rx s) @ take (n - m) (drop m (rx s)), s')"
      "rx s' = drop n (rx s)" "tx s' = tx s" "wsched s' = wsched s" "no_read_error s'"
      using s1 m by auto
    moreover have "take m (rx s) @ take (n - m) (drop m (rx s)) = take n (rx s)"
      using m by (metis le_add_diff_inverse take_add)
    ultimately show ?thesis
      using False m rd mm by (simp add: bound_read_loop.simps [of n got s])
  qed
qed

lemma bound_read_loop_truncated:
  assumes "no_read_error s" and "length (rx s) < n"
  shows "fst (bound_read_loop n got s) = 0"
  using assms
proof (induction n arbitrary: got s rule: less_induct)
  case (less n)
  then have n: "n \<noteq> 0" by auto
  obtain m s1 where
    rd: "sock_read s n = (int (min m (length (rx s))), take m (rx s), s1)"
    and m: "m \<le> n" "0 < n \<Longrightarrow> 0 < m" and s1: "rx s1 = drop m (rx s)" "no_read_error s1"
    using sock_read_ok [OF less.prems(1), of n] by metis
  let ?k = "min m (length (rx s))"
  show ?case
  proof (cases "?k = 0")
    case True
    then have "int ?k \<le> 0" by simp
    with rd n True show ?thesis by (simp add: bound_read_loop.simps [of n got s])
  next
    case False
    have "n - ?k < n" and "length (rx s1) < n - ?k" using False n less.prems s1 by auto
    from less.IH [OF this(1) s1(2) this(2), of "got @ take m (rx s)"] rd n False
    show ?thesis by (simp add: bound_read_loop.simps [of n got s])
  qed
qed

lemma bound_read_packet:
  assumes "no_read_error s" and "wf_pkt q" and "rx s = pkt_bytes q @ rest" and "wf_pkt p"
  shows "\<exists>s'. bound_read s p = (int_of_size (unat (psize q)), q, s') \<and> after_read s rest s'"
proof -
  have len: "length (pkt_bytes q) = sizeof_pkt" using assms(2) by (rule length_pkt_bytes)
  then have "sizeof_pkt \<le> length (rx s)" using assms(3) by simp
  from bound_read_loop_complete [OF assms(1) this, of "[]"] len assms(3) obtain s' where
    "bound_read_loop sizeof_pkt [] s = (1, pkt_bytes q, s')" "rx s' = rest" "tx s' = tx s"
    "wsched s' = wsched s" "no_read_error s'" by auto
  moreover have "drop (length (pkt_bytes q)) (pkt_bytes p) = []"
    using len length_pkt_bytes [OF assms(4)] by simp
  ultimately show ?thesis
    using assms(2) by (simp add: bound_read_def Let_def pkt_bytes_inverse after_read_def)
qed

text \<open>The next packet of a message, read from the stream.\<close>

lemma bound_read_message:
  assumes "no_read_error s" and "wf_pkt p" and "wf_pkt q" and "d \<noteq> []"
    and "rx s = wire (n, p) d @ rest"
  shows "\<exists>s'. bound_read s q = (int_of_size (min BUF_SIZE (length d)), fill_pkt n d p, s') \<and>
    after_read s (wire (n, fill_pkt n d p) (drop BUF_SIZE d) @ rest) s'"
proof -
  have "rx s = pkt_bytes (fill_pkt n d p) @ wire (n, fill_pkt n d p) (drop BUF_SIZE d) @ rest"
    using assms(4,5) by (simp add: wire_def packets_step)
  moreover have "unat (psize (fill_pkt n d p)) = min BUF_SIZE (length d)"
    by (simp add: fill_pkt_def unat_size_small)
  ultimately show ?thesis
    using bound_read_packet [OF assms(1) wf_fill_pkt [OF assms(2)] _ assms(3)] by metis
qed

text \<open>A message of at most \<open>BUF_SIZE\<close> bytes is one packet, which starts with the message.\<close>

lemma bound_read_short_message:
  assumes "no_read_error s" and "wf_pkt p" and "wf_pkt q" and "d \<noteq> []" and "length d \<le> BUF_SIZE"
    and "rx s = wire (n, p) d @ rest"
  shows "\<exists>s' q' tail. bound_read s q = (int (length d), q', s') \<and> wf_pkt q' \<and> pbuf q' = d @ tail \<and>
    psize q' = word_of_nat (length d) \<and> after_read s rest s'"
proof -
  have "int_of_size (length d) = int (length d)"
    using assms(5) by (simp add: int_of_size_small BUF_SIZE_def)
  moreover have "min BUF_SIZE (length d) = length d" using assms(5) by simp
  ultimately obtain s' where "bound_read s q = (int (length d), fill_pkt n d p, s')"
    "after_read s rest s'"
    using bound_read_message [OF assms(1-4,6)] assms(5) by (auto simp: wire_def)
  moreover have "pbuf (fill_pkt n d p) = d @ drop (length d) (pbuf p)"
    "psize (fill_pkt n d p) = word_of_nat (length d)"
    using assms(5) by (simp_all add: fill_pkt_def put_at_0)
  ultimately show ?thesis using wf_fill_pkt [OF assms(2)] by blast
qed

lemma wf_last_packet: "wf_pkt p \<Longrightarrow> wf_pkt (last (p # packets (n, p) d))"
  using packets_wf [of p _ n d] last_in_set [of "packets (n, p) d"] by auto

end
