(* ===== verification/Dirent.thy ===== *)
theory Dirent
  imports Prelude
begin

text \<open>
  File attributes (\<^verbatim>\<open>struct stat\<close>) with their memory image, and the directory
  entry records that the library packs into a reply
  (\<^verbatim>\<open>fuse_add_direntry\<close> of \<^verbatim>\<open>lib/fuse_lowlevel.c\<close>), with the reader
  that \<^verbatim>\<open>FUSE_DIRENT_SIZE\<close> describes for the other end.
\<close>

unbundle bit_operations_syntax

section \<open>File attributes\<close>

text \<open>The fields of \<^verbatim>\<open>struct stat\<close> and its 144-byte image on x86-64.\<close>

record stat =
  st_dev :: u64
  st_ino :: u64
  st_nlink :: u64
  st_mode :: u32
  st_uid :: u32
  st_gid :: u32
  st_rdev :: u64
  st_size :: u64
  st_blksize :: u64
  st_blocks :: u64
  st_atime :: u64
  st_atimensec :: u64
  st_mtime :: u64
  st_mtimensec :: u64
  st_ctime :: u64
  st_ctimensec :: u64

definition zero_stat :: stat where
  "zero_stat = \<lparr>st_dev = 0, st_ino = 0, st_nlink = 0, st_mode = 0, st_uid = 0, st_gid = 0,
     st_rdev = 0, st_size = 0, st_blksize = 0, st_blocks = 0, st_atime = 0, st_atimensec = 0,
     st_mtime = 0, st_mtimensec = 0, st_ctime = 0, st_ctimensec = 0\<rparr>"

definition sizeof_stat :: nat where
  "sizeof_stat = 144"

definition stat_bytes :: "stat \<Rightarrow> u8 list" where
  "stat_bytes st = u64_bytes (st_dev st) @ u64_bytes (st_ino st) @ u64_bytes (st_nlink st) @
     u32_bytes (st_mode st) @ u32_bytes (st_uid st) @ u32_bytes (st_gid st) @ replicate 4 0 @
     u64_bytes (st_rdev st) @ u64_bytes (st_size st) @ u64_bytes (st_blksize st) @
     u64_bytes (st_blocks st) @ u64_bytes (st_atime st) @ u64_bytes (st_atimensec st) @
     u64_bytes (st_mtime st) @ u64_bytes (st_mtimensec st) @ u64_bytes (st_ctime st) @
     u64_bytes (st_ctimensec st) @ replicate 24 0"

definition u32_at :: "nat \<Rightarrow> u8 list \<Rightarrow> u32" where
  "u32_at k bs = bytes_u32 (take 4 (drop k bs))"

definition u64_at :: "nat \<Rightarrow> u8 list \<Rightarrow> u64" where
  "u64_at k bs = bytes_u64 (take 8 (drop k bs))"

definition stat_of_bytes :: "u8 list \<Rightarrow> stat" where
  "stat_of_bytes bs = \<lparr>st_dev = u64_at 0 bs, st_ino = u64_at 8 bs, st_nlink = u64_at 16 bs,
     st_mode = u32_at 24 bs, st_uid = u32_at 28 bs, st_gid = u32_at 32 bs, st_rdev = u64_at 40 bs,
     st_size = u64_at 48 bs, st_blksize = u64_at 56 bs, st_blocks = u64_at 64 bs,
     st_atime = u64_at 72 bs, st_atimensec = u64_at 80 bs, st_mtime = u64_at 88 bs,
     st_mtimensec = u64_at 96 bs, st_ctime = u64_at 104 bs, st_ctimensec = u64_at 112 bs\<rparr>"

lemma length_stat_bytes [simp]: "length (stat_bytes st) = sizeof_stat"
  by (simp add: stat_bytes_def sizeof_stat_def)

lemma u64_at_append: "k < length xs \<Longrightarrow> k + 8 \<le> length xs \<Longrightarrow> u64_at k (xs @ ys) = u64_at k xs"
  by (simp add: u64_at_def)

lemma stat_bytes_inverse: "stat_of_bytes (stat_bytes st @ rest) = st"
  by (simp add: stat_of_bytes_def stat_bytes_def u64_at_def u32_at_def)

section \<open>Directory entries\<close>

definition FUSE_NAME_OFFSET :: nat where
  "FUSE_NAME_OFFSET = 24"

definition FUSE_DIRENT_ALIGN :: "nat \<Rightarrow> nat" where
  "FUSE_DIRENT_ALIGN x = (x + 7) div 8 * 8"

definition S_IFMT :: u32 where
  "S_IFMT = 0xF000"

text \<open>
  \<^verbatim>\<open>fuse_add_direntry\<close>: \<open>buf\<close> is the array the pointer refers to, from the
  pointer on, or \<open>None\<close> for a null pointer. The result is the size the entry needs, and the
  array afterwards; the array is written only when the entry fits into \<open>bufsize\<close>.
\<close>

definition fuse_add_direntry ::
  "u8 list option \<Rightarrow> nat \<Rightarrow> u8 list \<Rightarrow> stat \<Rightarrow> u64 \<Rightarrow> nat \<times> u8 list option" where
  "fuse_add_direntry buf bufsize name stbuf off =
     (let namelen = length name;
          entlen = FUSE_NAME_OFFSET + namelen;
          entlen_padded = FUSE_DIRENT_ALIGN entlen
      in case buf of
           None \<Rightarrow> (entlen_padded, None)
         | Some mem \<Rightarrow>
             if entlen_padded > bufsize then (entlen_padded, Some mem)
             else (entlen_padded,
               Some (put_at mem 0
                 (u64_bytes (st_ino stbuf) @ u64_bytes off @
                  u32_bytes (word_of_nat namelen) @
                  u32_bytes (drop_bit 12 (st_mode stbuf AND S_IFMT)) @
                  name @ replicate (entlen_padded - entlen) 0))))"

lemma FUSE_DIRENT_ALIGN_ge: "x \<le> FUSE_DIRENT_ALIGN x"
  by (simp add: FUSE_DIRENT_ALIGN_def)

lemma FUSE_DIRENT_ALIGN_less: "FUSE_DIRENT_ALIGN x < x + 8"
  by (simp add: FUSE_DIRENT_ALIGN_def)

lemma FUSE_DIRENT_ALIGN_dvd: "8 dvd FUSE_DIRENT_ALIGN x"
  by (simp add: FUSE_DIRENT_ALIGN_def)

text \<open>
  The image of one entry, and what a reader that steps by \<^verbatim>\<open>FUSE_DIRENT_SIZE\<close> sees.
\<close>

type_synonym dirent = "u64 \<times> u64 \<times> u32 \<times> u8 list"

definition dirent_image :: "u8 list \<Rightarrow> stat \<Rightarrow> u64 \<Rightarrow> u8 list" where
  "dirent_image name st off =
     u64_bytes (st_ino st) @ u64_bytes off @ u32_bytes (word_of_nat (length name)) @
     u32_bytes (drop_bit 12 (st_mode st AND S_IFMT)) @ name @
     replicate (FUSE_DIRENT_ALIGN (FUSE_NAME_OFFSET + length name) - (FUSE_NAME_OFFSET + length name)) 0"

definition dirent_of :: "u8 list \<Rightarrow> stat \<Rightarrow> u64 \<Rightarrow> dirent" where
  "dirent_of name st off = (st_ino st, off, drop_bit 12 (st_mode st AND S_IFMT), name)"

function read_dirents :: "u8 list \<Rightarrow> dirent list" where
  "read_dirents bs =
     (let len = unat (u32_at 16 bs) in
      if length bs < FUSE_NAME_OFFSET then []
      else if length bs < FUSE_DIRENT_ALIGN (FUSE_NAME_OFFSET + len) then []
      else (u64_at 0 bs, u64_at 8 bs, u32_at 20 bs, take len (drop FUSE_NAME_OFFSET bs)) #
             read_dirents (drop (FUSE_DIRENT_ALIGN (FUSE_NAME_OFFSET + len)) bs))"
  by pat_completeness auto
termination
  by (relation "measure length") (auto simp: FUSE_NAME_OFFSET_def FUSE_DIRENT_ALIGN_def)

declare read_dirents.simps [simp del]

lemma length_dirent_image:
  "length (dirent_image name st off) = FUSE_DIRENT_ALIGN (FUSE_NAME_OFFSET + length name)"
  using FUSE_DIRENT_ALIGN_ge [of "FUSE_NAME_OFFSET + length name"]
  by (simp add: dirent_image_def FUSE_NAME_OFFSET_def)

lemma read_dirents_Nil [simp]: "read_dirents [] = []"
  by (simp add: read_dirents.simps [of "[]"] FUSE_NAME_OFFSET_def)

lemma read_dirents_image:
  assumes "length name < 2 ^ 32"
  shows "read_dirents (dirent_image name st off @ rest) = dirent_of name st off # read_dirents rest"
proof -
  let ?bs = "dirent_image name st off @ rest"
  have len: "unat (u32_at 16 ?bs) = length name"
    using assms by (simp add: u32_at_def dirent_image_def unat_of_nat)
  have ge: "FUSE_NAME_OFFSET \<le> length (dirent_image name st off)"
    using FUSE_DIRENT_ALIGN_ge [of "FUSE_NAME_OFFSET + length name"] by (simp add: length_dirent_image)
  have hd: "(u64_at 0 ?bs, u64_at 8 ?bs, u32_at 20 ?bs, take (length name) (drop FUSE_NAME_OFFSET ?bs))
      = dirent_of name st off"
    by (simp add: dirent_image_def dirent_of_def u64_at_def u32_at_def FUSE_NAME_OFFSET_def)
  have tl: "drop (FUSE_DIRENT_ALIGN (FUSE_NAME_OFFSET + length name)) ?bs = rest"
    by (simp add: length_dirent_image)
  show ?thesis
    using ge by (subst read_dirents.simps) (simp only: Let_def len hd tl, simp add: length_dirent_image)
qed

lemma fuse_add_direntry_fits:
  assumes "FUSE_DIRENT_ALIGN (FUSE_NAME_OFFSET + length name) \<le> n"
  shows "fuse_add_direntry (Some mem) n name st off =
    (FUSE_DIRENT_ALIGN (FUSE_NAME_OFFSET + length name),
     Some (dirent_image name st off @ drop (FUSE_DIRENT_ALIGN (FUSE_NAME_OFFSET + length name)) mem))"
proof -
  have "put_at mem 0 (dirent_image name st off) =
      dirent_image name st off @ drop (FUSE_DIRENT_ALIGN (FUSE_NAME_OFFSET + length name)) mem"
    by (simp add: put_at_0 length_dirent_image)
  with assms show ?thesis
    by (simp add: fuse_add_direntry_def Let_def dirent_image_def)
qed

lemma fuse_add_direntry_full:
  assumes "n < FUSE_DIRENT_ALIGN (FUSE_NAME_OFFSET + length name)"
  shows "fuse_add_direntry (Some mem) n name st off =
    (FUSE_DIRENT_ALIGN (FUSE_NAME_OFFSET + length name), Some mem)"
  using assms by (simp add: fuse_add_direntry_def Let_def)

end
