(* ===== verification/StudyClient.thy ===== *)
theory StudyClient
  imports Bound Dirent
begin

text \<open>
  The file system daemon of \<^verbatim>\<open>source/fuse_study.c\<close>: every low-level callback turns
  the kernel's request into packets for the server and the server's packets into a reply.
  The state is the global \<open>_path\<close> (the name of the last lookup), the server socket and the
  allocation schedule. A handler returns the replies it makes, or the memory fault it commits;
  \<open>None\<close> stands for a handler that does not return.
\<close>

unbundle bit_operations_syntax

section \<open>State, replies and faults\<close>

datatype fault = Null_Deref | Out_Of_Bounds

record client =
  cl_path :: "u8 list option"
  cl_sock :: sock
  cl_mem :: schedule

record file_info =
  fi_flags :: int
  fi_fh :: u64

record entry_param =
  e_ino :: u64
  e_attr :: stat
  e_attr_timeout :: nat
  e_entry_timeout :: nat

datatype reply =
    Reply_Err int
  | Reply_Buf "u8 list"
  | Reply_Attr stat nat
  | Reply_Entry entry_param
  | Reply_Open "file_info option"
  | Reply_Create entry_param file_info

type_synonym outcome = "fault + client \<times> reply list"

text \<open>The user, the group and the clock the daemon reads when it fills attributes itself.\<close>

record ident =
  id_uid :: u32
  id_gid :: u32
  id_now :: u64

definition ENOENT :: int where "ENOENT = 2"
definition EIO :: int where "EIO = 5"
definition ENOMEM :: int where "ENOMEM = 12"

definition FUSE_ROOT_ID :: u64 where "FUSE_ROOT_ID = 1"

definition LOOKUP :: u16 where "LOOKUP = 0x00"
definition GETATTR :: u16 where "GETATTR = 0x01"
definition READDIR :: u16 where "READDIR = 0x02"
definition OPEN :: u16 where "OPEN = 0x03"
definition READ :: u16 where "READ = 0x04"
definition CREATE :: u16 where "CREATE = 0x05"
definition MKDIR :: u16 where "MKDIR = 0x06"
definition WRITE :: u16 where "WRITE = 0x07"
definition UNLINK :: u16 where "UNLINK = 0x08"
definition RMDIR :: u16 where "RMDIR = 0x09"

lemmas opcode_defs = LOOKUP_def GETATTR_def READDIR_def OPEN_def READ_def CREATE_def MKDIR_def
  WRITE_def UNLINK_def RMDIR_def

text \<open>The memory images of the \<^verbatim>\<open>unsigned short\<close> and \<^verbatim>\<open>int\<close> opcodes.\<close>

definition short_bytes :: "u16 \<Rightarrow> u8 list" where
  "short_bytes w = to_le 2 (unat w)"

lemma length_short_bytes [simp]: "length (short_bytes w) = 2"
  by (simp add: short_bytes_def)

section \<open>Sending\<close>

text \<open>
  One call of \<^verbatim>\<open>bound_send\<close> on the daemon's socket; its result is never looked at by
  the handlers, so only the scratch packet and the socket go on.
\<close>

definition send_msg :: "u8 list \<Rightarrow> pkt \<times> sock \<Rightarrow> pkt \<times> sock" where
  "send_msg data ps = (case ps of (p, s) \<Rightarrow> case bound_send s p data (length data) of (_, p', s') \<Rightarrow> (p', s'))"

section \<open>Reading a file\<close>

text \<open>
  The receive loop of \<^verbatim>\<open>fuse_study_read\<close>. \<open>data\<close> is \<open>None\<close> while the pointer is
  null, and otherwise the bytes stored so far with the size the first packet announced. The
  result of \<^verbatim>\<open>bound_read\<close> is not looked at.
\<close>

partial_function (option) read_loop ::
  "sock \<Rightarrow> schedule \<Rightarrow> pkt \<Rightarrow> (u8 list \<times> nat) option \<Rightarrow> (fault + u8 list \<times> sock \<times> schedule) option" where
  "read_loop s mem q data =
     (case bound_read s q of (_, q', s') \<Rightarrow>
      case (case data of
              None \<Rightarrow> (case alloc mem of (ok, mem') \<Rightarrow>
                        (if ok then Some ([], unat (ptotal_size q')) else None, mem'))
            | Some d \<Rightarrow> (Some d, mem)) of
        (None, mem') \<Rightarrow> Some (Inl Null_Deref)
      | (Some (stored, capacity), mem') \<Rightarrow>
          if unat (psize q') > BUF_SIZE \<or> length stored + unat (psize q') > capacity
          then Some (Inl Out_Of_Bounds)
          else
            let stored' = stored @ take (unat (psize q')) (pbuf q')
            in if pend q' = 1 then Some (Inr (stored', s', mem'))
               else read_loop s' mem' q' (Some (stored', capacity)))"

text \<open>
  The handler looks at neither the size nor the offset of the request. It prints the data as a string, which runs past the
  end of the buffer unless one of its bytes is null.
\<close>

definition fuse_study_read :: "pkt \<Rightarrow> pkt \<Rightarrow> u64 \<Rightarrow> nat \<Rightarrow> int \<Rightarrow> client \<Rightarrow> outcome option" where
  "fuse_study_read send_buf read_buf ino sz off c =
     (case cl_path c of
        None \<Rightarrow> Some (Inl Null_Deref)
      | Some path \<Rightarrow>
          (case (send_msg path \<circ> send_msg (short_bytes READ)) (send_buf, cl_sock c) of (_, s) \<Rightarrow>
           case read_loop s (cl_mem c) read_buf None of
             None \<Rightarrow> None
           | Some (Inl f) \<Rightarrow> Some (Inl f)
           | Some (Inr (data, s', mem')) \<Rightarrow>
               if 0 \<notin> set data then Some (Inl Out_Of_Bounds)
               else Some (Inr (c\<lparr>cl_sock := s', cl_mem := mem'\<rparr>, [Reply_Buf data]))))"

section \<open>Writing a file\<close>

text \<open>
  \<^verbatim>\<open>strlen\<close> runs past the end of a buffer without a NUL: \<open>None\<close>. The handler
  sends \<open>READ\<close> as its opcode, and it makes no reply.
\<close>

definition strlen_in :: "u8 list \<Rightarrow> nat option" where
  "strlen_in buf = (if 0 \<in> set buf then Some (length (c_str buf)) else None)"

definition fuse_study_write :: "pkt \<Rightarrow> u8 list \<Rightarrow> client \<Rightarrow> outcome" where
  "fuse_study_write send_buf buf c =
     (case strlen_in buf of
        None \<Rightarrow> Inl Out_Of_Bounds
      | Some n \<Rightarrow>
          (case alloc (cl_mem c) of (ok, mem') \<Rightarrow>
           if \<not> ok \<and> 0 < n then Inl Null_Deref
           else case cl_path c of
             None \<Rightarrow> Inl Null_Deref
           | Some path \<Rightarrow>
               (case (send_msg (take n buf) \<circ> send_msg path \<circ> send_msg (short_bytes READ))
                       (send_buf, cl_sock c) of
                  (_, s) \<Rightarrow> Inr (c\<lparr>cl_sock := s, cl_mem := mem'\<rparr>, []))))"

section \<open>Opening a file and reading attributes\<close>

definition O_RDONLY :: int where "O_RDONLY = 0"

definition fuse_study_open :: "pkt \<Rightarrow> pkt \<Rightarrow> file_info option \<Rightarrow> client \<Rightarrow> outcome" where
  "fuse_study_open send_pkt recv_pkt fi c =
     (case cl_path c of
        None \<Rightarrow> Inr (c, [Reply_Err ENOENT])
      | Some path \<Rightarrow>
          let flags = (case fi of None \<Rightarrow> O_RDONLY | Some f \<Rightarrow> fi_flags f) in
          (case (send_msg (int_bytes flags) \<circ> send_msg (path @ [0]) \<circ> send_msg (short_bytes OPEN))
                  (send_pkt, cl_sock c) of
             (_, s) \<Rightarrow>
           case bound_read s recv_pkt of (r, q, s') \<Rightarrow>
             if r \<le> 0 then Inr (c\<lparr>cl_sock := s'\<rparr>, [Reply_Err EIO])
             else
               let result = bytes_int (pbuf q)
               in if result \<noteq> 0 then Inr (c\<lparr>cl_sock := s'\<rparr>, [Reply_Err (- result)])
                  else Inr (c\<lparr>cl_sock := s'\<rparr>, [Reply_Open fi])))"

definition S_IFDIR :: u32 where "S_IFDIR = 0x4000"

definition root_attr :: "ident \<Rightarrow> stat" where
  "root_attr i = zero_stat\<lparr>st_ino := FUSE_ROOT_ID, st_mode := S_IFDIR OR 0x1ED, st_nlink := 2,
     st_uid := id_uid i, st_gid := id_gid i, st_atime := id_now i, st_mtime := id_now i,
     st_ctime := id_now i\<rparr>"

definition fuse_study_getattr :: "ident \<Rightarrow> pkt \<Rightarrow> pkt \<Rightarrow> u64 \<Rightarrow> client \<Rightarrow> outcome" where
  "fuse_study_getattr i send_pkt recv_pkt ino c =
     (if ino = FUSE_ROOT_ID then Inr (c, [Reply_Attr (root_attr i) 1])
      else case cl_path c of
        None \<Rightarrow> Inr (c, [Reply_Err ENOENT])
      | Some path \<Rightarrow>
          (case (send_msg (path @ [0]) \<circ> send_msg (short_bytes GETATTR)) (send_pkt, cl_sock c) of
             (_, s) \<Rightarrow>
           case bound_read s recv_pkt of (r, q, s1) \<Rightarrow>
             if r \<le> 0 then Inr (c\<lparr>cl_sock := s1\<rparr>, [Reply_Err EIO])
             else if bytes_int (pbuf q) \<noteq> 0
             then Inr (c\<lparr>cl_sock := s1\<rparr>, [Reply_Err (- bytes_int (pbuf q))])
             else case bound_read s1 q of (r', q', s2) \<Rightarrow>
               if r' \<le> 0 then Inr (c\<lparr>cl_sock := s2\<rparr>, [Reply_Err EIO])
               else if unat (psize q') < sizeof_stat then Inr (c\<lparr>cl_sock := s2\<rparr>, [Reply_Err EIO])
               else Inr (c\<lparr>cl_sock := s2\<rparr>, [Reply_Attr (stat_of_bytes (pbuf q')) 1])))"

section \<open>Names: unlink, create, lookup\<close>

definition fuse_study_unlink :: "pkt \<Rightarrow> u8 list \<Rightarrow> client \<Rightarrow> outcome" where
  "fuse_study_unlink send_buf path c =
     (case alloc (cl_mem c) of (ok, mem') \<Rightarrow>
        if \<not> ok then Inl Null_Deref
        else case (send_msg path \<circ> send_msg (short_bytes UNLINK)) (send_buf, cl_sock c) of
          (_, s) \<Rightarrow> Inr (c\<lparr>cl_sock := s, cl_mem := mem'\<rparr>, [Reply_Err 0]))"

definition S_IFREG :: u32 where "S_IFREG = 0x8000"

definition fuse_study_create ::
  "pkt \<Rightarrow> pkt \<Rightarrow> u8 list \<Rightarrow> file_info \<Rightarrow> client \<Rightarrow> outcome" where
  "fuse_study_create send_buf recv_buf path fi c =
     (case alloc (cl_mem c) of (ok, mem') \<Rightarrow>
        if \<not> ok then Inl Null_Deref
        else case (send_msg path \<circ> send_msg (short_bytes CREATE)) (send_buf, cl_sock c) of (_, s) \<Rightarrow>
          (case bound_read s recv_buf of (_, q, s') \<Rightarrow>
             let st = stat_of_bytes (pbuf q);
                 attr = zero_stat\<lparr>st_mode := S_IFREG OR st_mode st, st_nlink := st_nlink st,
                          st_uid := st_uid st, st_gid := st_gid st, st_size := st_size st\<rparr>;
                 e = \<lparr>e_ino = st_ino st, e_attr = attr, e_attr_timeout = 1, e_entry_timeout = 1\<rparr>
             in Inr (c\<lparr>cl_sock := s', cl_mem := mem'\<rparr>, [Reply_Create e (fi\<lparr>fi_fh := e_ino e\<rparr>)])))"

text \<open>\<^verbatim>\<open>fuse_study_setattr\<close> does not ask the server: it always reports success.\<close>

definition fuse_study_setattr :: "ident \<Rightarrow> u64 \<Rightarrow> client \<Rightarrow> outcome" where
  "fuse_study_setattr i ino c =
     Inr (c, [Reply_Attr (zero_stat\<lparr>st_ino := ino, st_mode := S_IFREG OR 0x1A4, st_nlink := 1,
       st_uid := id_uid i, st_gid := id_gid i, st_size := 0, st_atime := id_now i,
       st_mtime := id_now i, st_ctime := id_now i\<rparr>) 1])"

definition entry_of_stat :: "stat \<Rightarrow> entry_param" where
  "entry_of_stat st = \<lparr>e_ino = st_ino st, e_attr = st, e_attr_timeout = 1, e_entry_timeout = 1\<rparr>"

definition fuse_study_lookup :: "pkt \<Rightarrow> pkt \<Rightarrow> u8 list \<Rightarrow> client \<Rightarrow> outcome" where
  "fuse_study_lookup send_buf recv_buf path c =
     (case alloc (cl_mem c) of (ok, mem') \<Rightarrow>
        if \<not> ok then Inl Null_Deref
        else
          let new_path = (if path = [] then bytes_of ''./'' else path);
              c1 = c\<lparr>cl_path := Some new_path, cl_mem := mem'\<rparr>
          in case (send_msg new_path \<circ> send_msg (short_bytes LOOKUP)) (send_buf, cl_sock c) of (_, s) \<Rightarrow>
             case bound_read s recv_buf of (_, q, s1) \<Rightarrow>
               if bytes_int (pbuf q) = 1
               then case bound_read s1 q of (_, q', s2) \<Rightarrow>
                 Inr (c1\<lparr>cl_sock := s2\<rparr>, [Reply_Entry (entry_of_stat (stat_of_bytes (pbuf q')))])
               else Inr (c1\<lparr>cl_sock := s1\<rparr>, [Reply_Err ENOENT]))"

section \<open>Directories\<close>

text \<open>A packet from \<^verbatim>\<open>calloc\<close>.\<close>

definition zero_pkt :: pkt where
  "zero_pkt = \<lparr>pend = 0, ppad = replicate 4 0, psize = 0, ptotal_size = 0, pbuf = replicate BUF_SIZE 0\<rparr>"

lemma wf_zero_pkt [simp]: "wf_pkt zero_pkt"
  by (simp add: wf_pkt_def zero_pkt_def)

text \<open>
  The loop of \<^verbatim>\<open>fuse_study_readdir\<close>: per entry a flag packet, a name packet and an
  attribute packet. It stops at a zero flag, or when an entry does not fit, in which case the
  packets the server still sends stay in the stream.
\<close>

partial_function (option) readdir_loop ::
  "nat \<Rightarrow> int \<Rightarrow> sock \<Rightarrow> schedule \<Rightarrow> pkt \<Rightarrow> u8 list \<Rightarrow> nat \<Rightarrow> int \<Rightarrow>
   (fault + u8 list \<times> nat \<times> sock \<times> schedule) option" where
  "readdir_loop sz off s mem pkt_data buffer bufsize current_offset =
     (case bound_read s pkt_data of (_, q1, s1) \<Rightarrow>
        if bytes_int (pbuf q1) = 0 then Some (Inr (buffer, bufsize, s1, mem))
        else case bound_read s1 q1 of (_, q2, s2) \<Rightarrow>
          case alloc mem of (ok, mem') \<Rightarrow>
            if \<not> ok then Some (Inl Null_Deref)
            else case bound_read s2 zero_pkt of (_, st_pkt, s3) \<Rightarrow>
              let st = stat_of_bytes (pbuf st_pkt) in
              if current_offset \<ge> off then
                (case strlen_in (pbuf q2) of
                   None \<Rightarrow> Some (Inl Out_Of_Bounds)
                 | Some _ \<Rightarrow>
                     (case fuse_add_direntry (Some (drop bufsize buffer)) (sz - bufsize)
                             (c_str (pbuf q2)) st (word_of_int (current_offset + 1)) of
                        (entry_size, region) \<Rightarrow>
                          if entry_size > sz - bufsize
                          then Some (Inr (buffer, bufsize, s3, mem'))
                          else readdir_loop sz off s3 mem' q2
                                 (take bufsize buffer @ the region) (bufsize + entry_size)
                                 (current_offset + 1)))
              else readdir_loop sz off s3 mem' q2 buffer bufsize (current_offset + 1))"

text \<open>The directory that is listed: the last name looked up, whatever directory the kernel asks about, unless that is the root.\<close>

definition path_to_send :: "u64 \<Rightarrow> client \<Rightarrow> u8 list" where
  "path_to_send ino c =
     (if ino = FUSE_ROOT_ID then bytes_of ''./''
      else case cl_path c of
        Some path \<Rightarrow> if path \<noteq> [] then path else bytes_of ''./''
      | None \<Rightarrow> bytes_of ''./'')"

definition fuse_study_readdir ::
  "u8 list \<Rightarrow> u64 \<Rightarrow> nat \<Rightarrow> int \<Rightarrow> client \<Rightarrow> outcome option" where
  "fuse_study_readdir junk ino sz off c =
     (case alloc (cl_mem c) of (ok, mem1) \<Rightarrow>
        if \<not> ok then Some (Inr (c\<lparr>cl_mem := mem1\<rparr>, [Reply_Err ENOMEM]))
        else
          case (send_msg (path_to_send ino c @ [0]) \<circ> send_msg (int_bytes (uint READDIR)))
                    (zero_pkt, cl_sock c) of (pkt_data, s) \<Rightarrow>
             case alloc mem1 of (ok2, mem2) \<Rightarrow>
               if \<not> ok2 then Some (Inr (c\<lparr>cl_sock := s, cl_mem := mem2\<rparr>, [Reply_Err ENOMEM]))
               else case readdir_loop sz off s mem2 pkt_data (take sz (junk @ replicate sz 0)) 0 0 of
                 None \<Rightarrow> None
               | Some (Inl f) \<Rightarrow> Some (Inl f)
               | Some (Inr (buffer, bufsize, s', mem3)) \<Rightarrow>
                   Some (Inr (c\<lparr>cl_sock := s', cl_mem := mem3\<rparr>, [Reply_Buf (take bufsize buffer)])))"

definition fuse_study_mkdir :: "pkt \<Rightarrow> pkt \<Rightarrow> u32 \<Rightarrow> client \<Rightarrow> outcome" where
  "fuse_study_mkdir send_buf recv_buf mode c =
     (case cl_path c of
        None \<Rightarrow> Inl Null_Deref
      | Some path \<Rightarrow>
          (case (send_msg (u32_bytes mode) \<circ> send_msg path \<circ> send_msg (short_bytes MKDIR))
                  (send_buf, cl_sock c) of (_, s) \<Rightarrow>
           case bound_read s recv_buf of (_, q, s1) \<Rightarrow>
             if bytes_int (pbuf q) = 0
             then case bound_read s1 q of (_, q', s2) \<Rightarrow>
               Inr (c\<lparr>cl_sock := s2\<rparr>, [Reply_Entry (entry_of_stat (stat_of_bytes (pbuf q')))])
             else Inr (c\<lparr>cl_sock := s1\<rparr>, [Reply_Err (- bytes_int (pbuf q))])))"

definition fuse_study_rmdir :: "client \<Rightarrow> outcome" where
  "fuse_study_rmdir c =
     (case alloc (cl_mem c) of (ok, mem') \<Rightarrow>
        if \<not> ok then Inr (c\<lparr>cl_mem := mem'\<rparr>, [Reply_Err ENOMEM])
        else case cl_path c of
          None \<Rightarrow> Inl Null_Deref
        | Some path \<Rightarrow>
            (case (send_msg path \<circ> send_msg (int_bytes (uint RMDIR))) (zero_pkt, cl_sock c) of (pkt_data, s) \<Rightarrow>
             case bound_read s pkt_data of (_, q, s') \<Rightarrow>
               let result = bytes_int (pbuf q);
                   c' = c\<lparr>cl_sock := s', cl_mem := mem'\<rparr>
               in if result = 0 then Inr (c', [Reply_Err 0]) else Inr (c', [Reply_Err (- result)])))"

definition fuse_study_opendir :: "file_info option \<Rightarrow> client \<Rightarrow> outcome" where
  "fuse_study_opendir fi c = Inr (c, [Reply_Open fi])"

section \<open>The operation table\<close>

text \<open>
  The callbacks of the table \<^verbatim>\<open>fs_oper\<close>. \<open>stack\<close> stands for what the automatic
  packet variables and the uninitialised heap buffer happen to hold.
\<close>

datatype request =
    Req_Unlink "u8 list"
  | Req_Create "u8 list" file_info
  | Req_Setattr u64
  | Req_Lookup "u8 list"
  | Req_Readdir u64 nat int
  | Req_Mkdir u32
  | Req_Rmdir
  | Req_Read u64 nat int
  | Req_Write "u8 list"
  | Req_Open "file_info option"
  | Req_Getattr u64
  | Req_Opendir "file_info option"

record stack =
  sk_send :: pkt
  sk_recv :: pkt
  sk_heap :: "u8 list"

fun fs_oper :: "ident \<Rightarrow> stack \<Rightarrow> request \<Rightarrow> client \<Rightarrow> outcome option" where
  "fs_oper i k (Req_Unlink n) c = Some (fuse_study_unlink (sk_send k) n c)"
| "fs_oper i k (Req_Create n fi) c = Some (fuse_study_create (sk_send k) (sk_recv k) n fi c)"
| "fs_oper i k (Req_Setattr ino) c = Some (fuse_study_setattr i ino c)"
| "fs_oper i k (Req_Lookup n) c = Some (fuse_study_lookup (sk_send k) (sk_recv k) n c)"
| "fs_oper i k (Req_Readdir ino sz off) c = fuse_study_readdir (sk_heap k) ino sz off c"
| "fs_oper i k (Req_Mkdir m) c = Some (fuse_study_mkdir (sk_send k) (sk_recv k) m c)"
| "fs_oper i k Req_Rmdir c = Some (fuse_study_rmdir c)"
| "fs_oper i k (Req_Read ino sz off) c = fuse_study_read (sk_send k) (sk_recv k) ino sz off c"
| "fs_oper i k (Req_Write b) c = Some (fuse_study_write (sk_send k) b c)"
| "fs_oper i k (Req_Open fi) c = Some (fuse_study_open (sk_send k) (sk_recv k) fi c)"
| "fs_oper i k (Req_Getattr ino) c = Some (fuse_study_getattr i (sk_send k) (sk_recv k) ino c)"
| "fs_oper i k (Req_Opendir fi) c = Some (fuse_study_opendir fi c)"

end
