(* ===== verification/StudyServer.thy ===== *)
theory StudyServer
  imports StudyClient
begin

text \<open>
  The server of \<^verbatim>\<open>server/server.c\<close>: the loop that receives an opcode and a path, and
  the handlers that answer over the same socket. The system calls of the machine it runs on are
  the operations of a record over an arbitrary file system state \<open>'w\<close>.
\<close>

unbundle bit_operations_syntax

section \<open>The operating system\<close>

text \<open>
  A failing call returns its \<^verbatim>\<open>errno\<close>. \<open>os_opendir\<close> gives the listing that the
  following \<^verbatim>\<open>readdir\<close> calls go through: name, inode number and type of each entry.
\<close>

record 'w os =
  os_access :: "'w \<Rightarrow> u8 list \<Rightarrow> bool"
  os_lstat :: "'w \<Rightarrow> u8 list \<Rightarrow> int + stat"
  os_stat :: "'w \<Rightarrow> u8 list \<Rightarrow> int + stat"
  os_opendir :: "'w \<Rightarrow> u8 list \<Rightarrow> int + (u8 list \<times> u64 \<times> u8) list"
  os_open :: "'w \<Rightarrow> u8 list \<Rightarrow> u32 \<Rightarrow> u32 \<Rightarrow> int option \<times> 'w"
  os_mkdir :: "'w \<Rightarrow> u8 list \<Rightarrow> u32 \<Rightarrow> int option \<times> 'w"
  os_rmdir :: "'w \<Rightarrow> u8 list \<Rightarrow> int option \<times> 'w"
  os_unlink :: "'w \<Rightarrow> u8 list \<Rightarrow> int option \<times> 'w"
  os_contents :: "'w \<Rightarrow> u8 list \<Rightarrow> u8 list option"

record 'w server =
  sv_sock :: sock
  sv_fs :: 'w
  sv_mem :: schedule

definition sv_send :: "u8 list \<Rightarrow> pkt \<Rightarrow> 'w server \<Rightarrow> pkt \<times> 'w server" where
  "sv_send data p sv =
     (case send_msg data (p, sv_sock sv) of (p', s') \<Rightarrow> (p', sv\<lparr>sv_sock := s'\<rparr>))"

section \<open>Handlers\<close>

text \<open>\<^verbatim>\<open>fuse_study_readdir\<close> of the server, one flag, name and attribute message per entry.\<close>

fun readdir_entries :: "(u8 list \<times> u64 \<times> u8) list \<Rightarrow> pkt \<Rightarrow> 'w server \<Rightarrow> pkt \<times> 'w server" where
  "readdir_entries [] p sv = (p, sv)"
| "readdir_entries ((d_name, d_ino, d_type) # des) p sv =
     (case sv_send (int_bytes 1) p sv of (_, sv1) \<Rightarrow>
      case sv_send (d_name @ [0]) zero_pkt sv1 of (p2, sv2) \<Rightarrow>
      let st = zero_stat\<lparr>st_ino := d_ino, st_mode := push_bit 12 (ucast d_type)\<rparr> in
      case sv_send (stat_bytes st) p2 sv2 of (p3, sv3) \<Rightarrow> readdir_entries des p3 sv3)"

definition server_readdir :: "'w os \<Rightarrow> u8 list \<Rightarrow> 'w server \<Rightarrow> fault + 'w server" where
  "server_readdir os path sv =
     (case alloc (sv_mem sv) of (ok, mem') \<Rightarrow>
        let sv0 = sv\<lparr>sv_mem := mem'\<rparr> in
        if \<not> ok then Inl Null_Deref
        else case os_opendir os (sv_fs sv) path of
          Inl errno \<Rightarrow> Inr (snd (sv_send (int_bytes 0) zero_pkt sv0))
        | Inr des \<Rightarrow>
            (case readdir_entries des zero_pkt sv0 of (p, sv1) \<Rightarrow> Inr (snd (sv_send (int_bytes 0) p sv1))))"

definition O_CREAT :: u32 where "O_CREAT = 0x40"
definition O_EXCL :: u32 where "O_EXCL = 0x80"
definition O_WRONLY :: u32 where "O_WRONLY = 1"

definition server_open :: "'w os \<Rightarrow> pkt \<Rightarrow> pkt \<Rightarrow> u8 list \<Rightarrow> 'w server \<Rightarrow> 'w server" where
  "server_open os pkt0 recv_pkt path sv =
     (case bound_read (sv_sock sv) recv_pkt of (r, q, s') \<Rightarrow>
        let sv1 = sv\<lparr>sv_sock := s'\<rparr> in
        if r \<le> 0 \<or> unat (psize q) < 4 then snd (sv_send (int_bytes (- EIO)) pkt0 sv1)
        else
          let oflags = bytes_u32 (take 4 (pbuf q)) AND NOT (O_CREAT OR O_EXCL)
          in case os_open os (sv_fs sv1) path oflags 0 of
               (Some errno, w) \<Rightarrow> snd (sv_send (int_bytes (- errno)) pkt0 (sv1\<lparr>sv_fs := w\<rparr>))
             | (None, w) \<Rightarrow> snd (sv_send (int_bytes 0) pkt0 (sv1\<lparr>sv_fs := w\<rparr>)))"

definition server_getattr :: "'w os \<Rightarrow> u8 list \<Rightarrow> 'w server \<Rightarrow> fault + 'w server" where
  "server_getattr os path sv =
     (case alloc (sv_mem sv) of (ok, mem1) \<Rightarrow>
        let sv0 = sv\<lparr>sv_mem := mem1\<rparr> in
        if \<not> ok then Inr sv0
        else case os_lstat os (sv_fs sv) path of
          Inl errno \<Rightarrow> Inr (snd (sv_send (int_bytes (- errno)) zero_pkt sv0))
        | Inr st \<Rightarrow>
            (case sv_send (int_bytes 0) zero_pkt sv0 of (_, sv1) \<Rightarrow>
             case alloc mem1 of (ok2, mem2) \<Rightarrow>
               if \<not> ok2 then Inl Null_Deref
               else Inr (snd (sv_send (stat_bytes st)
                      (zero_pkt\<lparr>pbuf := put_at (pbuf zero_pkt) 0 (stat_bytes st),
                                ptotal_size := word_of_nat sizeof_stat\<rparr>)
                      (sv1\<lparr>sv_mem := mem2\<rparr>)))))"

text \<open>
  \<^verbatim>\<open>fuse_study_mkdir\<close> of the server: the result of \<^verbatim>\<open>mkdir\<close> is written to the
  socket as four bare bytes, not as a packet.
\<close>

definition server_mkdir :: "'w os \<Rightarrow> pkt \<Rightarrow> u8 list \<Rightarrow> 'w server \<Rightarrow> fault + 'w server" where
  "server_mkdir os recv_buf path sv =
     (case bound_read (sv_sock sv) recv_buf of (_, q, s1) \<Rightarrow>
      case os_mkdir os (sv_fs sv) path (bytes_u32 (take 4 (pbuf q))) of (err, w) \<Rightarrow>
        let res = (if err = None then 0 else -1);
            sv1 = sv\<lparr>sv_sock := snd (sock_write s1 (int_bytes res)), sv_fs := w\<rparr>
        in if res = 0 then
             (case os_stat os w path of
                Inl _ \<Rightarrow> Inr sv1
              | Inr st \<Rightarrow>
                  (case alloc (sv_mem sv1) of (ok, mem') \<Rightarrow>
                     if \<not> ok then Inl Null_Deref
                     else Inr (snd (sv_send (stat_bytes st)
                            (zero_pkt\<lparr>pbuf := put_at (pbuf zero_pkt) 0 (stat_bytes st),
                                      ptotal_size := word_of_nat sizeof_stat\<rparr>)
                            (sv1\<lparr>sv_mem := mem'\<rparr>)))))
           else Inr sv1)"

definition server_rmdir :: "'w os \<Rightarrow> u8 list \<Rightarrow> 'w server \<Rightarrow> fault + 'w server" where
  "server_rmdir os path sv =
     (case alloc (sv_mem sv) of (ok, mem') \<Rightarrow>
      case os_rmdir os (sv_fs sv) path of (err, w) \<Rightarrow>
        let res = (if err = None then 0 else -1) in
        if \<not> ok then Inl Null_Deref
        else Inr (snd (sv_send (int_bytes res) zero_pkt (sv\<lparr>sv_fs := w, sv_mem := mem'\<rparr>))))"

text \<open>
  \<^verbatim>\<open>fuse_study_create\<close>: nothing is sent when the file cannot be opened. \<open>junk\<close> is
  what the attribute variable holds when \<^verbatim>\<open>lstat\<close> fails.
\<close>

definition server_create :: "'w os \<Rightarrow> pkt \<Rightarrow> stat \<Rightarrow> u8 list \<Rightarrow> 'w server \<Rightarrow> 'w server" where
  "server_create os send_buf junk path sv =
     (case os_open os (sv_fs sv) path (O_WRONLY OR O_CREAT) 0x1A4 of
        (Some errno, w) \<Rightarrow> sv\<lparr>sv_fs := w\<rparr>
      | (None, w) \<Rightarrow>
          let st = (case os_lstat os w path of Inl _ \<Rightarrow> junk | Inr st \<Rightarrow> st)
          in snd (sv_send (stat_bytes st) send_buf (sv\<lparr>sv_fs := w\<rparr>)))"

text \<open>
  \<^verbatim>\<open>fuse_study_read\<close>, and \<^verbatim>\<open>fuse_study_write\<close>, which has the same body:
  both send the contents of the file. A file that cannot be opened is a null
  \<^verbatim>\<open>FILE\<close> pointer.
\<close>

definition server_read :: "'w os \<Rightarrow> pkt \<Rightarrow> u8 list \<Rightarrow> 'w server \<Rightarrow> fault + 'w server" where
  "server_read os send_buf path sv =
     (case os_contents os (sv_fs sv) path of
        None \<Rightarrow> Inl Null_Deref
      | Some data \<Rightarrow>
          (case alloc (sv_mem sv) of (ok, mem') \<Rightarrow>
             if \<not> ok \<and> data \<noteq> [] then Inl Null_Deref
             else Inr (snd (sv_send data send_buf (sv\<lparr>sv_mem := mem'\<rparr>)))))"

definition server_write :: "'w os \<Rightarrow> pkt \<Rightarrow> u8 list \<Rightarrow> 'w server \<Rightarrow> fault + 'w server" where
  "server_write os send_buf path sv =
     (case os_contents os (sv_fs sv) path of
        None \<Rightarrow> Inl Null_Deref
      | Some data \<Rightarrow>
          (case alloc (sv_mem sv) of (ok, mem') \<Rightarrow>
             if \<not> ok \<and> data \<noteq> [] then Inl Null_Deref
             else Inr (snd (sv_send data send_buf (sv\<lparr>sv_mem := mem'\<rparr>)))))"

text \<open>
  The lookup branch of \<^verbatim>\<open>thread_handler\<close> sends the attributes whether the file
  exists or not.
\<close>

definition server_lookup :: "'w os \<Rightarrow> pkt \<Rightarrow> stat \<Rightarrow> u8 list \<Rightarrow> 'w server \<Rightarrow> 'w server" where
  "server_lookup os send_buf junk path sv =
     (let flag = (if os_access os (sv_fs sv) path then 1 else 0) in
      case sv_send (int_bytes flag) send_buf sv of (p, sv1) \<Rightarrow>
        let st = (case os_lstat os (sv_fs sv1) path of Inl _ \<Rightarrow> junk | Inr st \<Rightarrow> st)
        in snd (sv_send (stat_bytes st) p sv1))"

record sv_stack =
  sk_pkt :: pkt
  sk_pkt2 :: pkt
  sk_stat :: stat

definition thread_handler :: "'w os \<Rightarrow> sv_stack \<Rightarrow> u16 \<Rightarrow> u8 list \<Rightarrow> 'w server \<Rightarrow> fault + 'w server" where
  "thread_handler os k opcode path sv =
     (if opcode = 0x00 then Inr (server_lookup os (sk_pkt k) (sk_stat k) path sv)
      else if opcode = 0x01 then server_getattr os path sv
      else if opcode = 0x02 then server_readdir os path sv
      else if opcode = 0x03 then Inr (server_open os (sk_pkt k) (sk_pkt2 k) path sv)
      else if opcode = 0x04 then server_read os (sk_pkt k) path sv
      else if opcode = 0x05 then Inr (server_create os (sk_pkt k) (sk_stat k) path sv)
      else if opcode = 0x06 then server_mkdir os (sk_pkt2 k) path sv
      else if opcode = 0x07 then server_write os (sk_pkt k) path sv
      else if opcode = 0x08 then Inr (sv\<lparr>sv_fs := snd (os_unlink os (sv_fs sv) path)\<rparr>)
      else if opcode = 0x09 then server_rmdir os path sv
      else Inr sv)"

section \<open>Receiving a request\<close>

text \<open>
  \<^verbatim>\<open>strncpy(dst, src, n)\<close> as the \<open>n\<close> bytes it stores: the string, padded with NUL.
  Without a NUL among the first \<open>n\<close> bytes it reads \<open>n\<close> bytes of \<open>src\<close>.
\<close>

definition strncpy_bytes :: "nat \<Rightarrow> u8 list \<Rightarrow> u8 list" where
  "strncpy_bytes n src =
     (let t = c_str (take n src) in t @ replicate (n - length t) 0)"

lemma length_strncpy_bytes [simp]: "length (strncpy_bytes n src) = n"
proof -
  have "length (c_str (take n src)) \<le> n"
    using c_str_length [of "take n src"] by simp
  then show ?thesis by (simp add: strncpy_bytes_def Let_def)
qed

text \<open>
  The loop that receives the path. \<open>path\<close> is \<open>None\<close> while the pointer is null and the
  allocated array otherwise; \<open>junk\<close> is what fresh heap memory holds.
\<close>

partial_function (option) path_loop ::
  "u8 list \<Rightarrow> sock \<Rightarrow> schedule \<Rightarrow> pkt \<Rightarrow> u8 list option \<Rightarrow> nat \<Rightarrow>
   (fault + u8 list \<times> pkt \<times> sock \<times> schedule) option" where
  "path_loop junk s mem p path received_byte =
     (case bound_read s p of (_, q, s') \<Rightarrow>
      case (case path of
              None \<Rightarrow> (case alloc mem of (ok, mem') \<Rightarrow>
                 (if ok then Some (take (unat (ptotal_size q) + 1) (junk @ replicate (unat (ptotal_size q) + 1) 0))
                  else None, mem'))
            | Some arr \<Rightarrow> (Some arr, mem)) of
        (None, mem') \<Rightarrow> Some (Inl Null_Deref)
      | (Some arr, mem') \<Rightarrow>
          let n = unat (psize q) in
          if (n > BUF_SIZE \<and> 0 \<notin> set (pbuf q)) \<or> received_byte + n > length arr
          then Some (Inl Out_Of_Bounds)
          else
            let arr' = put_at arr received_byte (strncpy_bytes n (pbuf q))
            in if pend q = 1 then Some (Inr (arr', q, s', mem'))
               else path_loop junk s' mem' q (Some arr') (received_byte + n))"

text \<open>
  One turn of the server's main loop for a readable client socket: the opcode packet, the path,
  and the handler. \<open>None\<close> inside the result is a closed connection. \<open>thread_arg\<close> is a
  40-byte structure with the two bytes of the opcode first.
\<close>

definition sizeof_thread_arg :: nat where "sizeof_thread_arg = 40"

definition server_request ::
  "'w os \<Rightarrow> sv_stack \<Rightarrow> u16 \<Rightarrow> u8 list \<Rightarrow> 'w server \<Rightarrow> (fault + 'w server option) option" where
  "server_request os k opcode0 junk sv =
     (case bound_read (sv_sock sv) (sk_pkt k) of (read_byte, p, s1) \<Rightarrow>
        if read_byte = 0 then Some (Inr None)
        else if unat (psize p) > sizeof_thread_arg then Some (Inl Out_Of_Bounds)
        else
          let img = take (unat (psize p)) (pbuf p) @ drop (unat (psize p)) (short_bytes opcode0);
              opcode = word_of_nat (of_le (take 2 img))
          in case path_loop junk s1 (sv_mem sv) p None 0 of
               None \<Rightarrow> None
             | Some (Inl f) \<Rightarrow> Some (Inl f)
             | Some (Inr (arr, q, s2, mem')) \<Rightarrow>
                 if unat (ptotal_size q) \<ge> length arr then Some (Inl Out_Of_Bounds)
                 else
                   let path = c_str (arr[unat (ptotal_size q) := 0])
                   in case thread_handler os k opcode path (sv\<lparr>sv_sock := s2, sv_mem := mem'\<rparr>) of
                        Inl f \<Rightarrow> Some (Inl f)
                      | Inr sv' \<Rightarrow> Some (Inr (Some sv')))"

end
