(* ===== verification/StudyProtocol.thy ===== *)
theory StudyProtocol
  imports StudyServer
begin

text \<open>
  The daemon and the server together: what each message of \<^verbatim>\<open>fuse_study.c\<close> means to
  \<^verbatim>\<open>server.c\<close> and back. Sockets accept every write and fail no read, but reads may be
  fragmented in any way.
\<close>

section \<open>Messages on good sockets\<close>

definition good_sock :: "sock \<Rightarrow> bool" where
  "good_sock s \<longleftrightarrow> wsched s = [] \<and> no_read_error s"

lemma good_after_read: "good_sock s \<Longrightarrow> after_read s r s' \<Longrightarrow> good_sock s'"
  by (simp add: good_sock_def after_read_def)

lemma good_set_tx [simp]: "good_sock (s\<lparr>tx := t\<rparr>) = good_sock s"
  by (simp add: good_sock_def no_read_error_def)

text \<open>The scratch packet after a message has been sent through it.\<close>

definition left_pkt :: "u8 list \<Rightarrow> pkt \<Rightarrow> pkt" where
  "left_pkt d p = last (p # packets (length d, p) d)"

lemma wf_left_pkt [simp]: "wf_pkt p \<Longrightarrow> wf_pkt (left_pkt d p)"
  unfolding left_pkt_def by (rule wf_last_packet)

lemma send_msg_good [simp]:
  "good_sock s \<Longrightarrow> send_msg d (p, s) = (left_pkt d p, s\<lparr>tx := tx s @ wire (length d, p) d\<rparr>)"
  by (simp add: send_msg_def good_sock_def bound_send_wire left_pkt_def)

lemma sv_send_good [simp]:
  "good_sock (sv_sock sv) \<Longrightarrow> sv_send d p sv =
     (left_pkt d p, sv\<lparr>sv_sock := (sv_sock sv)\<lparr>tx := tx (sv_sock sv) @ wire (length d, p) d\<rparr>\<rparr>)"
  by (simp add: sv_send_def)

lemma unat_total: "n < 2 ^ 64 \<Longrightarrow> unat (word_of_nat n :: u64) = n"
  by (simp add: unat_of_nat take_bit_nat_eq_self)

section \<open>The receive loop of the daemon\<close>

lemma read_loop_message:
  assumes "no_read_error s" and "wf_pkt p" and "wf_pkt q" and "d \<noteq> []"
    and "rx s = wire (n, p) d @ rest" and "length stored + length d \<le> capacity"
  shows "\<exists>s'. read_loop s mem q (Some (stored, capacity)) = Some (Inr (stored @ d, s', mem)) \<and>
    after_read s rest s'"
  using assms
proof (induction "(n, p)" d arbitrary: p q s stored rule: packets.induct)
  case (1 p d)
  let ?p' = "fill_pkt n d p"
  from bound_read_message [OF "1.prems"(1-5)] obtain s1 where
    rd: "bound_read s q = (int_of_size (min BUF_SIZE (length d)), ?p', s1)"
    and s1: "after_read s (wire (n, ?p') (drop BUF_SIZE d) @ rest) s1" by blast
  have pl: "take (unat (psize ?p')) (pbuf ?p') = take BUF_SIZE d"
    using payload_fill [of n d p] by (simp add: payload_def)
  have sz: "unat (psize ?p') = min BUF_SIZE (length d)"
    by (simp add: fill_pkt_def unat_size_small)
  show ?case
  proof (cases "length d \<le> BUF_SIZE")
    case True
    then have "pend ?p' = 1" and "drop BUF_SIZE d = []" by (simp_all add: fill_pkt_def)
    with True rd s1 pl sz "1.prems"(6) show ?thesis
      by (auto simp: read_loop.simps [of s] Let_def wire_def)
  next
    case False
    then have e: "pend ?p' \<noteq> 1" and ne: "drop BUF_SIZE d \<noteq> []" by (simp_all add: fill_pkt_def)
    let ?st = "stored @ take BUF_SIZE d"
    have "no_read_error s1" and "rx s1 = wire (n, ?p') (drop BUF_SIZE d) @ rest"
      using s1 by (simp_all add: after_read_def)
    moreover have "length ?st + length (drop BUF_SIZE d) \<le> capacity"
      using False "1.prems"(6) by simp
    ultimately obtain s' where
      "read_loop s1 mem ?p' (Some (?st, capacity)) = Some (Inr (?st @ drop BUF_SIZE d, s', mem))"
      "after_read s1 rest s'"
      using "1.hyps" [OF "1.prems"(4), of s1 ?p' ?st] ne "1.prems"(2) by auto
    with False e rd pl sz s1 "1.prems"(6) show ?thesis
      by (auto simp: read_loop.simps [of s] Let_def intro: after_read_trans)
  qed
qed

lemma read_loop_first:
  assumes "no_read_error s" and "wf_pkt p" and "wf_pkt q" and "d \<noteq> []" and "n < 2 ^ 64"
    and "rx s = wire (n, p) d @ rest" and "alloc mem = (True, mem')"
  shows "read_loop s mem q None = read_loop s mem' q (Some ([], n))"
proof -
  from bound_read_message [OF assms(1-4,6)] obtain s1 where
    "bound_read s q = (int_of_size (min BUF_SIZE (length d)), fill_pkt n d p, s1)" by blast
  moreover have "unat (ptotal_size (fill_pkt n d p)) = n"
    using assms(5) by (simp add: fill_pkt_def unat_total)
  ultimately show ?thesis
    using assms(7) by (simp add: read_loop.simps [of s] Let_def)
qed

lemma read_loop_whole:
  assumes "no_read_error s" and "wf_pkt p" and "wf_pkt q" and "d \<noteq> []" and "length d < 2 ^ 64"
    and "rx s = wire (length d, p) d @ rest" and "alloc mem = (True, mem')"
  shows "\<exists>s'. read_loop s mem q None = Some (Inr (d, s', mem')) \<and> after_read s rest s'"
  using read_loop_first [OF assms] read_loop_message [OF assms(1-4,6), of "[]" "length d" mem'] by simp

section \<open>The path of a request\<close>

text \<open>
  The server copies packets with \<^verbatim>\<open>strncpy\<close>: bytes come through unchanged as long as
  a NUL, if there is one, is the last byte of the message.
\<close>

lemma strncpy_bytes_take:
  assumes "take n src = x" and "length x = n" and "0 \<notin> set (butlast x)"
  shows "strncpy_bytes n src = x"
proof (cases "0 \<in> set x")
  case True
  then obtain y where x: "x = y @ [0]" using assms(3)
    by (cases x rule: rev_cases) auto
  then have "c_str x = y" using assms(3) c_str_append_nul [of y "[]"] by simp
  moreover have "n = Suc (length y)" using assms(2) x by simp
  ultimately show ?thesis using assms(1) x by (simp add: strncpy_bytes_def Let_def)
next
  case False
  then show ?thesis using assms by (simp add: strncpy_bytes_def Let_def c_str_no_nul)
qed

lemma butlast_take_drop:
  assumes "0 \<notin> set (butlast d)"
  shows "0 \<notin> set (butlast (take k d))" and "0 \<notin> set (butlast (drop k d))"
proof -
  have "set (butlast (take k d)) \<subseteq> set (butlast d)"
    unfolding butlast_conv_take by (auto simp: min_def intro: set_take_subset_set_take [THEN subsetD, rotated])
  with assms show "0 \<notin> set (butlast (take k d))" by blast
  show "0 \<notin> set (butlast (drop k d))"
    using assms by (auto simp: butlast_drop dest: in_set_dropD)
qed

lemma path_loop_message:
  assumes "no_read_error s" and "wf_pkt p" and "wf_pkt q" and "d \<noteq> []" and "0 \<notin> set (butlast d)"
    and "rx s = wire (n, p) d @ rest" and "k + length d \<le> length arr"
  shows "\<exists>s' q'. path_loop junk s mem q (Some arr) k = Some (Inr (put_at arr k d, q', s', mem)) \<and>
    ptotal_size q' = word_of_nat n \<and> wf_pkt q' \<and> after_read s rest s'"
  using assms
proof (induction "(n, p)" d arbitrary: p q s k arr rule: packets.induct)
  case (1 p d)
  let ?p' = "fill_pkt n d p"
  from bound_read_message [OF "1.prems"(1-4,6)] obtain s1 where
    rd: "bound_read s q = (int_of_size (min BUF_SIZE (length d)), ?p', s1)"
    and s1: "after_read s (wire (n, ?p') (drop BUF_SIZE d) @ rest) s1" by blast
  have sz: "unat (psize ?p') = min BUF_SIZE (length d)"
    by (simp add: fill_pkt_def unat_size_small)
  have "take (unat (psize ?p')) (pbuf ?p') = take BUF_SIZE d"
    using payload_fill [of n d p] by (simp add: payload_def)
  then have cp: "strncpy_bytes (unat (psize ?p')) (pbuf ?p') = take BUF_SIZE d"
    using sz "1.prems"(5) by (intro strncpy_bytes_take) (auto simp: butlast_take_drop)
  have tot: "ptotal_size ?p' = word_of_nat n" by (simp add: fill_pkt_def)
  show ?case
  proof (cases "length d \<le> BUF_SIZE")
    case True
    then have "pend ?p' = 1" and "drop BUF_SIZE d = []" by (simp_all add: fill_pkt_def)
    with True rd s1 cp sz tot "1.prems"(2,7) show ?thesis
      by (auto simp: path_loop.simps [of junk s] Let_def wire_def)
  next
    case False
    then have e: "pend ?p' \<noteq> 1" and ne: "drop BUF_SIZE d \<noteq> []" by (simp_all add: fill_pkt_def)
    let ?arr = "put_at arr k (take BUF_SIZE d)"
    have "no_read_error s1" and "rx s1 = wire (n, ?p') (drop BUF_SIZE d) @ rest"
      using s1 by (simp_all add: after_read_def)
    moreover have "k + BUF_SIZE + length (drop BUF_SIZE d) \<le> length ?arr"
      using False "1.prems"(7) by simp
    moreover have "put_at ?arr (k + BUF_SIZE) (drop BUF_SIZE d) = put_at arr k d"
      using put_at_append [of k "take BUF_SIZE d" "drop BUF_SIZE d" arr] False "1.prems"(7)
      by (simp add: min_def)
    ultimately obtain s' q' where
      "path_loop junk s1 mem ?p' (Some ?arr) (k + BUF_SIZE) = Some (Inr (put_at arr k d, q', s', mem))"
      "ptotal_size q' = word_of_nat n" "wf_pkt q'" "after_read s1 rest s'"
      using "1.hyps" [OF "1.prems"(4), of s1 ?p' "k + BUF_SIZE" ?arr] ne "1.prems"(2,5)
      by (auto simp: butlast_take_drop)
    with False e rd cp sz s1 "1.prems"(7) show ?thesis
      by (auto simp: path_loop.simps [of junk s] Let_def min_def intro: after_read_trans)
  qed
qed

lemma path_loop_first:
  assumes "no_read_error s" and "wf_pkt p" and "wf_pkt q" and "d \<noteq> []" and "n < 2 ^ 64"
    and "rx s = wire (n, p) d @ rest" and "alloc mem = (True, mem')"
  shows "path_loop junk s mem q None 0 =
    path_loop junk s mem' q (Some (take (n + 1) (junk @ replicate (n + 1) 0))) 0"
proof -
  from bound_read_message [OF assms(1-4,6)] obtain s1 where
    "bound_read s q = (int_of_size (min BUF_SIZE (length d)), fill_pkt n d p, s1)" by blast
  moreover have "unat (ptotal_size (fill_pkt n d p)) = n"
    using assms(5) by (simp add: fill_pkt_def unat_total)
  ultimately show ?thesis
    using assms(7) by (simp add: path_loop.simps [of junk s] Let_def)
qed

text \<open>
  A whole request: an opcode of two bytes (or of four, as two handlers of the daemon send it)
  and a path reach \<^verbatim>\<open>thread_handler\<close> as they were sent.
\<close>

lemma server_request_decodes:
  assumes "good_sock (sv_sock sv)" and "wf_pkt p1" and "wf_pkt p2" and "wf_pkt (sk_pkt k)"
    and "opb \<noteq> []" and "length opb \<in> {2, 4}" and "d \<noteq> []" and "length d < 2 ^ 64"
    and "0 \<notin> set (butlast d)" and "sv_mem sv = True # mem \<or> sv_mem sv = [] \<and> mem = []"
    and "rx (sv_sock sv) = wire (length opb, p1) opb @ wire (length d, p2) d @ rest"
  shows "\<exists>s'. after_read (sv_sock sv) rest s' \<and>
    server_request os k op0 junk sv =
      (case thread_handler os k (word_of_nat (of_le (take 2 opb))) (c_str d)
              (sv\<lparr>sv_sock := s', sv_mem := mem\<rparr>) of
         Inl f \<Rightarrow> Some (Inl f) | Inr sv' \<Rightarrow> Some (Inr (Some sv')))"
proof -
  let ?s = "sv_sock sv"
  have len: "length opb \<le> BUF_SIZE" using assms(6) by (auto simp: BUF_SIZE_def)
  have nr: "no_read_error ?s" using assms(1) by (simp add: good_sock_def)
  from bound_read_short_message [OF nr assms(2,4,5) len assms(11)] obtain s1 q t where
    rd: "bound_read ?s (sk_pkt k) = (int (length opb), q, s1)" and q: "wf_pkt q" "pbuf q = opb @ t"
      "psize q = word_of_nat (length opb)"
    and s1: "after_read ?s (wire (length d, p2) d @ rest) s1" by blast
  have sz: "unat (psize q) = length opb" using q(3) len by (simp add: unat_size_small)
  have nr1: "no_read_error s1" and rx1: "rx s1 = wire (length d, p2) d @ rest"
    using s1 by (simp_all add: after_read_def)
  have al: "alloc (sv_mem sv) = (True, mem)" using assms(10) by auto
  let ?arr = "take (length d + 1) (junk @ replicate (length d + 1) 0)"
  have la: "length ?arr = length d + 1" by simp
  from path_loop_message [OF nr1 assms(3) q(1) assms(7,9) rx1, of 0 ?arr junk mem] la
    path_loop_first [OF nr1 assms(3) q(1) assms(7,8) rx1 al, of junk]
  obtain s2 q' where pl: "path_loop junk s1 (sv_mem sv) q None 0 = Some (Inr (put_at ?arr 0 d, q', s2, mem))"
    and q': "ptotal_size q' = word_of_nat (length d)" and s2: "after_read s1 rest s2"
    by auto
  have tot: "unat (ptotal_size q') = length d" using q' assms(8) by (simp add: unat_total)
  have "drop (length d) ?arr = [?arr ! length d]"
    using la by (metis Cons_nth_drop_Suc add.commute drop_all le_refl lessI plus_1_eq_Suc)
  then have "(put_at ?arr 0 d)[length d := 0] = d @ [0]"
    by (simp only: put_at_0 list_update_length)
  moreover have "take 2 (take (length opb) (pbuf q) @ drop (length opb) (short_bytes op0)) = take 2 opb"
    using q(2) assms(6) by auto
  ultimately have "server_request os k op0 junk sv =
      (case thread_handler os k (word_of_nat (of_le (take 2 opb))) (c_str d)
              (sv\<lparr>sv_sock := s2, sv_mem := mem\<rparr>) of
         Inl f \<Rightarrow> Some (Inl f) | Inr sv' \<Rightarrow> Some (Inr (Some sv')))"
    using rd sz pl tot la assms(5,6)
    by (auto simp: server_request_def Let_def sizeof_thread_arg_def)
  with after_read_trans [OF s1 s2] show ?thesis by blast
qed

section \<open>Request and answer\<close>

text \<open>
  A daemon and a server that have just been connected, and one exchange between them: the daemon
  runs its handler while reading exactly what the server writes, and the server handles one
  request while reading exactly what the daemon writes.
\<close>

definition connected :: "client \<Rightarrow> 'w server \<Rightarrow> stack \<Rightarrow> sv_stack \<Rightarrow> bool" where
  "connected c sv ck k \<longleftrightarrow>
     good_sock (cl_sock c) \<and> good_sock (sv_sock sv) \<and> tx (cl_sock c) = [] \<and> tx (sv_sock sv) = [] \<and>
     cl_mem c = [] \<and> sv_mem sv = [] \<and> wf_pkt (sk_send ck) \<and> wf_pkt (sk_recv ck) \<and>
     wf_pkt (sk_pkt k) \<and> wf_pkt (sk_pkt2 k)"

definition client_hears :: "client \<Rightarrow> u8 list \<Rightarrow> client" where
  "client_hears c bs = c\<lparr>cl_sock := (cl_sock c)\<lparr>rx := bs\<rparr>\<rparr>"

definition server_hears :: "'w server \<Rightarrow> u8 list \<Rightarrow> 'w server" where
  "server_hears sv bs = sv\<lparr>sv_sock := (sv_sock sv)\<lparr>rx := bs\<rparr>\<rparr>"

definition exchange ::
  "ident \<Rightarrow> stack \<Rightarrow> request \<Rightarrow> 'w os \<Rightarrow> sv_stack \<Rightarrow> u16 \<Rightarrow> u8 list \<Rightarrow>
   client \<Rightarrow> 'w server \<Rightarrow> reply list \<Rightarrow> client \<Rightarrow> 'w server \<Rightarrow> bool" where
  "exchange i ck req os k op0 junk c sv replies c' sv' \<longleftrightarrow>
     fs_oper i ck req (client_hears c (tx (sv_sock sv'))) = Some (Inr (c', replies)) \<and>
     server_request os k op0 junk (server_hears sv (tx (cl_sock c'))) = Some (Inr (Some sv'))"

lemma good_set_rx [simp]: "good_sock (s\<lparr>rx := r\<rparr>) = good_sock s"
  by (simp add: good_sock_def no_read_error_def)

text \<open>
  The two messages of an answer: a result code, and for some operations the attributes.
\<close>

lemma read_int_message:
  assumes "no_read_error s" and "wf_pkt p" and "wf_pkt q" and "- (2 ^ 31) \<le> r" and "r < 2 ^ 31"
    and "rx s = wire (n, p) (int_bytes r) @ rest"
  shows "\<exists>s' q'. bound_read s q = (4, q', s') \<and> wf_pkt q' \<and> bytes_int (pbuf q') = r \<and>
    psize q' = 4 \<and> after_read s rest s'"
  using bound_read_short_message [OF assms(1-3) _ _ assms(6)] bytes_int_inverse [OF assms(4,5)]
  by (fastforce simp: BUF_SIZE_def simp flip: length_0_conv)

lemma read_stat_message:
  assumes "no_read_error s" and "wf_pkt p" and "wf_pkt q" and "rx s = wire (n, p) (stat_bytes st) @ rest"
  shows "\<exists>s' q'. bound_read s q = (int sizeof_stat, q', s') \<and> wf_pkt q' \<and> stat_of_bytes (pbuf q') = st \<and>
    unat (psize q') = sizeof_stat \<and> after_read s rest s'"
proof -
  have "stat_bytes st \<noteq> []" and "length (stat_bytes st) \<le> BUF_SIZE"
    by (auto simp: BUF_SIZE_def sizeof_stat_def simp flip: length_0_conv)
  from bound_read_short_message [OF assms(1-3) this assms(4)] this(2) show ?thesis
    by (auto simp: stat_bytes_inverse unat_size_small)
qed

text \<open>The packet in which the server passes attributes on.\<close>

definition stat_pkt :: "stat \<Rightarrow> pkt" where
  "stat_pkt st = zero_pkt\<lparr>pbuf := put_at (pbuf zero_pkt) 0 (stat_bytes st),
     ptotal_size := word_of_nat sizeof_stat\<rparr>"

lemma wf_stat_pkt [simp]: "wf_pkt (stat_pkt st)"
  by (simp add: stat_pkt_def wf_pkt_def zero_pkt_def BUF_SIZE_def sizeof_stat_def)

section \<open>A concrete connection\<close>

text \<open>
  A daemon and a server with clean buffers, and a server file system of one file \<open>f\<close> with
  the contents \<open>1, 2, 3\<close> in one directory \<open>d\<close>: the exchanges below are carried out on it.
\<close>

definition demo_sock :: sock where
  "demo_sock = \<lparr>tx = [], wsched = [], rx = [], rsched = []\<rparr>"

definition demo_client :: "u8 list \<Rightarrow> client" where
  "demo_client path = \<lparr>cl_path = Some path, cl_sock = demo_sock, cl_mem = []\<rparr>"

definition demo_server :: "unit server" where
  "demo_server = \<lparr>sv_sock = demo_sock, sv_fs = (), sv_mem = []\<rparr>"

definition demo_stack :: stack where
  "demo_stack = \<lparr>sk_send = zero_pkt, sk_recv = zero_pkt, sk_heap = []\<rparr>"

definition demo_sv_stack :: sv_stack where
  "demo_sv_stack = \<lparr>sk_pkt = zero_pkt, sk_pkt2 = zero_pkt, sk_stat = zero_stat\<rparr>"

definition demo_listing :: "(u8 list \<times> u64 \<times> u8) list" where
  "demo_listing = [([46], 7, 4), ([102], 8, 8)]"

definition demo_os :: "unit os" where
  "demo_os = \<lparr>
     os_access = (\<lambda>_ p. p \<in> {[100], [102]}),
     os_lstat = (\<lambda>_ p. if p = [102] then Inr (zero_stat\<lparr>st_ino := 8\<rparr>) else Inl 2),
     os_stat = (\<lambda>_ p. if p = [102] then Inr (zero_stat\<lparr>st_ino := 8\<rparr>) else Inl 2),
     os_opendir = (\<lambda>_ p. if p = [100] then Inr demo_listing else Inl 2),
     os_open = (\<lambda>w _ _ _. (Some 3, w)), os_mkdir = (\<lambda>w _ _. (None, w)),
     os_rmdir = (\<lambda>w _. (None, w)), os_unlink = (\<lambda>w _. (None, w)),
     os_contents = (\<lambda>_ p. if p = [102] then Some [1, 0, 3] else if p = [103] then Some [1, 2] else if p = [101] then Some [] else None)\<rparr>"

lemma demo_connected [simp]: "connected (demo_client path) demo_server demo_stack demo_sv_stack"
  by (simp add: connected_def demo_client_def demo_server_def demo_stack_def demo_sv_stack_def demo_sock_def
      good_sock_def no_read_error_def)

lemma demo_path [simp]: "cl_path (demo_client path) = Some path"
  by (simp add: demo_client_def)

section \<open>Attributes\<close>

lemma short_bytes_opcode [simp]: "word_of_nat (of_le (short_bytes w)) = w"
proof -
  have "unat w mod 256 ^ 2 = unat w" using unsigned_less [of w, where ?'a = nat] by simp
  then show ?thesis by (simp add: short_bytes_def of_le_to_le)
qed

lemma short_bytes_nonempty [simp]: "short_bytes w \<noteq> []"
  by (simp flip: length_0_conv)

text \<open>The opcode as two handlers send it: the four bytes of an \<^verbatim>\<open>int\<close>.\<close>

lemma int_bytes_opcode [simp]: "word_of_nat (of_le (take 2 (int_bytes (uint (w :: u16))))) = w"
proof -
  have w: "unat w < 65536" using unsigned_less [of w, where ?'a = nat] by simp
  have "take 2 (to_le 4 (unat w)) = to_le 2 (unat w)"
    by (simp add: take_to_le)
  moreover have "(word_of_int (uint w) :: u32) = word_of_nat (unat w)"
    by (metis of_int_of_nat_eq of_nat_unat)
  then have "unat (word_of_int (uint w) :: u32) = unat w mod 2 ^ 32"
    by (simp add: unat_of_nat del: of_nat_unat)
  then have "unat (word_of_int (uint w) :: u32) = unat w" using w by simp
  ultimately show ?thesis
    using w by (simp add: int_bytes_def u32_bytes_def of_le_to_le)
qed

text \<open>The server's side of a request: the handler runs on the state after the two messages.\<close>

lemma server_request_two:
  assumes "connected c sv ck k" and "wf_pkt p1" and "wf_pkt p2"
    and "opb \<noteq> []" and "length opb \<in> {2, 4}" and "word_of_nat (of_le (take 2 opb)) = opcode"
    and "d \<noteq> []" and "length d < 2 ^ 64" and "0 \<notin> set (butlast d)"
    and "thread_handler os k opcode (c_str d) = handler"
  shows "\<exists>s'. after_read (sv_sock sv) rest s' \<and> good_sock s' \<and> tx s' = [] \<and>
    server_request os k op0 junk
      (server_hears sv (wire (length opb, p1) opb @ wire (length d, p2) d @ rest)) =
      (case handler (sv\<lparr>sv_sock := s'\<rparr>) of Inl f \<Rightarrow> Some (Inl f) | Inr sv' \<Rightarrow> Some (Inr (Some sv')))"
proof -
  let ?sv = "server_hears sv (wire (length opb, p1) opb @ wire (length d, p2) d @ rest)"
  have sv: "good_sock (sv_sock ?sv)" "wf_pkt (sk_pkt k)" "sv_mem ?sv = []" "tx (sv_sock sv) = []"
    using assms(1) by (simp_all add: connected_def server_hears_def)
  have rx: "rx (sv_sock ?sv) = wire (length opb, p1) opb @ wire (length d, p2) d @ rest"
    by (simp add: server_hears_def)
  from server_request_decodes [OF sv(1) assms(2,3) sv(2) assms(4,5,7-9) _ rx,
      where mem = "[]" and os = os and junk = junk and ?op0.0 = op0] sv(3)
  obtain s' where s': "after_read (sv_sock ?sv) rest s'"
    and req: "server_request os k op0 junk ?sv =
      (case thread_handler os k opcode (c_str d) (?sv\<lparr>sv_sock := s', sv_mem := []\<rparr>) of
         Inl f \<Rightarrow> Some (Inl f) | Inr sv' \<Rightarrow> Some (Inr (Some sv')))"
    using assms(6) by auto
  have "?sv\<lparr>sv_sock := s', sv_mem := []\<rparr> = sv\<lparr>sv_sock := s'\<rparr>"
    using sv(3) by (simp add: server_hears_def)
  moreover have "after_read (sv_sock sv) rest s'" "good_sock s'" "tx s' = []"
    using s' good_after_read [OF sv(1) s'] sv(4) by (simp_all add: after_read_def server_hears_def)
  ultimately show ?thesis using req assms(10) by auto
qed

text \<open>
  An exchange put together from its two sides: the answer \<open>ans\<close> the server's handler gives,
  and what the daemon's handler makes of that answer.
\<close>

lemma exchange_two:
  assumes "connected c sv ck k" and "wf_pkt p1" and "wf_pkt p2"
    and "opb \<noteq> []" and "length opb \<in> {2, 4}" and "word_of_nat (of_le (take 2 opb)) = opcode"
    and "d \<noteq> []" and "length d < 2 ^ 64" and "0 \<notin> set (butlast d)"
    and "thread_handler os k opcode (c_str d) = handler"
    and server: "\<And>s'. good_sock s' \<Longrightarrow> tx s' = [] \<Longrightarrow> rx s' = rest \<Longrightarrow>
      \<exists>sv'. handler (sv\<lparr>sv_sock := s'\<rparr>) = Inr sv' \<and> tx (sv_sock sv') = ans \<and> P sv'"
    and client: "\<exists>c'. fs_oper i ck rq (client_hears c ans) = Some (Inr (c', replies)) \<and>
      tx (cl_sock c') = wire (length opb, p1) opb @ wire (length d, p2) d @ rest \<and> Q c'"
  shows "\<exists>c' sv'. exchange i ck rq os k op0 junk c sv replies c' sv' \<and> Q c' \<and> P sv'"
proof -
  let ?req = "wire (length opb, p1) opb @ wire (length d, p2) d @ rest"
  from server_request_two [OF assms(1-10), of rest op0 junk] server
  obtain sv' where "server_request os k op0 junk (server_hears sv ?req) = Some (Inr (Some sv'))"
    "tx (sv_sock sv') = ans" "P sv'" by (fastforce simp: after_read_def)
  moreover from client obtain c' where
    "fs_oper i ck rq (client_hears c ans) = Some (Inr (c', replies))" "tx (cl_sock c') = ?req" "Q c'"
    by blast
  ultimately show ?thesis unfolding exchange_def by metis
qed

lemma client_hears_simps [simp]:
  "cl_path (client_hears c bs) = cl_path c" "cl_mem (client_hears c bs) = cl_mem c"
  "rx (cl_sock (client_hears c bs)) = bs" "tx (cl_sock (client_hears c bs)) = tx (cl_sock c)"
  "good_sock (cl_sock (client_hears c bs)) = good_sock (cl_sock c)" "path_to_send ino (client_hears c bs) = path_to_send ino c"
  by (simp_all add: client_hears_def path_to_send_def)

definition getattr_wire :: "int + stat \<Rightarrow> u8 list" where
  "getattr_wire r = (case r of
     Inl e \<Rightarrow> wire (4, zero_pkt) (int_bytes (- e))
   | Inr st \<Rightarrow> wire (4, zero_pkt) (int_bytes 0) @ wire (sizeof_stat, stat_pkt st) (stat_bytes st))"

lemma server_getattr_answer:
  assumes "good_sock (sv_sock sv)" and "sv_mem sv = []" and "tx (sv_sock sv) = []"
  shows "\<exists>sv'. server_getattr os path sv = Inr sv' \<and> sv_fs sv' = sv_fs sv \<and>
    rx (sv_sock sv') = rx (sv_sock sv) \<and> tx (sv_sock sv') = getattr_wire (os_lstat os (sv_fs sv) path)"
  using assms
  by (cases "os_lstat os (sv_fs sv) path")
    (auto simp: server_getattr_def getattr_wire_def simp flip: stat_pkt_def)

lemma client_getattr_answer:
  assumes "good_sock (cl_sock c)" and "tx (cl_sock c) = []" and "wf_pkt rp"
    and "cl_path c = Some path" and "ino \<noteq> FUSE_ROOT_ID"
    and "\<And>e. r = Inl e \<Longrightarrow> 0 < e \<and> e < 2 ^ 31" and "rx (cl_sock c) = getattr_wire r"
  shows "\<exists>c'. fuse_study_getattr i sp rp ino c =
      Inr (c', [case r of Inl e \<Rightarrow> Reply_Err e | Inr st \<Rightarrow> Reply_Attr st 1]) \<and> rx (cl_sock c') = [] \<and>
    tx (cl_sock c') = wire (2, sp) (short_bytes GETATTR) @
      wire (length path + 1, left_pkt (short_bytes GETATTR) sp) (path @ [0])"
proof -
  let ?req = "wire (2, sp) (short_bytes GETATTR) @
    wire (length path + 1, left_pkt (short_bytes GETATTR) sp) (path @ [0])"
  let ?s = "(cl_sock c)\<lparr>tx := ?req\<rparr>"
  have snd: "(send_msg (path @ [0]) \<circ> send_msg (short_bytes GETATTR)) (sp, cl_sock c) =
      (left_pkt (path @ [0]) (left_pkt (short_bytes GETATTR) sp), ?s)"
    using assms(1,2) by simp
  have nr: "no_read_error ?s" using assms(1) by (simp add: good_sock_def no_read_error_def)
  show ?thesis
  proof (cases r)
    case (Inl e)
    then have "rx ?s = wire (4, zero_pkt) (int_bytes (- e)) @ []" using assms(7) by (simp add: getattr_wire_def)
    from read_int_message [OF nr wf_zero_pkt assms(3) _ _ this] assms(6) Inl
    obtain s1 q where "bound_read ?s rp = (4, q, s1)" "bytes_int (pbuf q) = - e" "after_read ?s [] s1"
      by force
    with snd Inl assms(4-6) show ?thesis
      by (auto simp: fuse_study_getattr_def after_read_def simp del: o_apply)
  next
    case (Inr st)
    then have "rx ?s = wire (4, zero_pkt) (int_bytes 0) @ wire (sizeof_stat, stat_pkt st) (stat_bytes st)"
      using assms(7) by (simp add: getattr_wire_def)
    from read_int_message [OF nr wf_zero_pkt assms(3) _ _ this]
    obtain s1 q where rd: "bound_read ?s rp = (4, q, s1)" "bytes_int (pbuf q) = 0" "wf_pkt q"
      and s1: "after_read ?s (wire (sizeof_stat, stat_pkt st) (stat_bytes st)) s1" by auto
    then have "no_read_error s1" and "rx s1 = wire (sizeof_stat, stat_pkt st) (stat_bytes st) @ []"
      by (simp_all add: after_read_def)
    from read_stat_message [OF this(1) wf_stat_pkt rd(3) this(2)]
    obtain s2 q2 where "bound_read s1 q = (int sizeof_stat, q2, s2)" "stat_of_bytes (pbuf q2) = st"
      "unat (psize q2) = sizeof_stat" "after_read s1 [] s2" by auto
    with snd rd s1 Inr assms(4,5) show ?thesis
      by (auto simp: fuse_study_getattr_def after_read_def sizeof_stat_def simp del: o_apply)
  qed
qed

text \<open>
  A getattr request of the daemon for a path other than the root, handled by the server, is
  answered with exactly what \<^verbatim>\<open>lstat\<close> says of that path on the server: its attributes,
  or its error number. Both sides end with nothing left unread, and the server's files are unchanged.
\<close>

theorem getattr_end_to_end:
  assumes "connected c sv ck k" and "cl_path c = Some path" and "0 \<notin> set path"
    and "length path + 1 < 2 ^ 64" and "ino \<noteq> FUSE_ROOT_ID"
    and "\<And>e. os_lstat os (sv_fs sv) path = Inl e \<Longrightarrow> 0 < e \<and> e < 2 ^ 31"
  shows "\<exists>c' sv'. exchange i ck (Req_Getattr ino) os k op0 junk c sv
      [case os_lstat os (sv_fs sv) path of Inl e \<Rightarrow> Reply_Err e | Inr st \<Rightarrow> Reply_Attr st 1] c' sv' \<and>
    rx (cl_sock c') = [] \<and> rx (sv_sock sv') = [] \<and> sv_fs sv' = sv_fs sv"
proof -
  let ?r = "os_lstat os (sv_fs sv) path"
  let ?p2 = "left_pkt (short_bytes GETATTR) (sk_send ck)"
  have con: "good_sock (cl_sock c)" "tx (cl_sock c) = []" "wf_pkt (sk_send ck)" "wf_pkt (sk_recv ck)" "sv_mem sv = []"
    using assms(1) by (simp_all add: connected_def)
  have th: "thread_handler os k GETATTR (c_str (path @ [0])) = server_getattr os path"
    using assms(3) by (intro ext) (simp add: thread_handler_def GETATTR_def c_str_no_nul)
  show ?thesis
  proof (rule exchange_two [OF assms(1) con(3) wf_left_pkt [OF con(3)] _ _ _ _ _ _ th,
        where rest = "[]" and ans = "getattr_wire ?r" and opb = "short_bytes GETATTR",
        unfolded append_Nil2])
    show "\<exists>c'. fs_oper i ck (Req_Getattr ino) (client_hears c (getattr_wire ?r)) =
        Some (Inr (c', [case ?r of Inl e \<Rightarrow> Reply_Err e | Inr st \<Rightarrow> Reply_Attr st 1])) \<and>
      tx (cl_sock c') = wire (length (short_bytes GETATTR), sk_send ck) (short_bytes GETATTR) @
        wire (length (path @ [0]), ?p2) (path @ [0]) \<and> rx (cl_sock c') = []"
      using client_getattr_answer [of "client_hears c (getattr_wire ?r)" "sk_recv ck" path ino ?r i "sk_send ck"]
        con assms(2,5,6) by auto
    show "\<exists>sv'. server_getattr os path (sv\<lparr>sv_sock := s'\<rparr>) = Inr sv' \<and>
        tx (sv_sock sv') = getattr_wire ?r \<and> rx (sv_sock sv') = [] \<and> sv_fs sv' = sv_fs sv"
      if "good_sock s'" "tx s' = []" "rx s' = []" for s'
      using that con(5) server_getattr_answer [of "sv\<lparr>sv_sock := s'\<rparr>" os path] by auto
  qed (use assms(3,4) in \<open>auto simp: butlast_append\<close>)
qed

theorem getattr_end_to_end_witness:
  "\<exists>c' sv'. exchange \<lparr>id_uid = 0, id_gid = 0, id_now = 0\<rparr> demo_stack (Req_Getattr 2) demo_os demo_sv_stack 0 []
      (demo_client [102]) demo_server [Reply_Attr (zero_stat\<lparr>st_ino := 8\<rparr>) 1] c' sv' \<and>
    rx (cl_sock c') = [] \<and> rx (sv_sock sv') = [] \<and> sv_fs sv' = sv_fs demo_server"
  using getattr_end_to_end [of "demo_client [102]" demo_server demo_stack demo_sv_stack "[102]" 2 demo_os
      "\<lparr>id_uid = 0, id_gid = 0, id_now = 0\<rparr>" 0 "[]"]
  by (simp add: demo_os_def FUSE_ROOT_ID_def)

section \<open>File contents\<close>



text \<open>
  The contents of an empty file are not transferred at all: the server answers a read of an
  empty file without writing a single byte, while the daemon's handler waits for a packet.
\<close>

theorem empty_read_sends_nothing:
  assumes "good_sock (sv_sock sv)" and "sv_mem sv = []" and "os_contents os (sv_fs sv) path = Some []"
  shows "thread_handler os k READ path sv = Inr sv"
  using assms by (simp add: thread_handler_def READ_def server_read_def wire_def)

theorem empty_read_sends_nothing_witness:
  "thread_handler demo_os demo_sv_stack READ [101] demo_server = Inr demo_server"
  by (rule empty_read_sends_nothing)
    (simp_all add: demo_os_def demo_server_def demo_sock_def good_sock_def no_read_error_def)

section \<open>Names\<close>

lemma length_wire_short:
  assumes "wf_pkt p" and "d \<noteq> []" and "length d \<le> BUF_SIZE"
  shows "length (wire (n, p) d) = sizeof_pkt"
  using assms length_pkt_bytes [OF wf_fill_pkt [OF assms(1)]] by (simp add: wire_def packets_step)

text \<open>
  C39: A lookup of the daemon, handled by the server, replies with the entry made of the attributes
  of the file if the name exists on the server, and with \<open>ENOENT\<close> otherwise, and the daemon
  remembers the name for the requests that follow. In the second case the attribute packet that
  the server sends in every case is still unread: 1048 bytes are left in the stream.
\<close>

theorem lookup_end_to_end:
  assumes "connected c sv ck k" and "name \<noteq> []" and "0 \<notin> set name" and "length name < 2 ^ 64"
  shows "\<exists>c' sv'. exchange i ck (Req_Lookup name) os k op0 junk c sv
      [if os_access os (sv_fs sv) name
       then Reply_Entry (entry_of_stat
              (case os_lstat os (sv_fs sv) name of Inl _ \<Rightarrow> sk_stat k | Inr st \<Rightarrow> st))
       else Reply_Err ENOENT] c' sv' \<and>
    (cl_path c' = Some name \<and>
     length (rx (cl_sock c')) = (if os_access os (sv_fs sv) name then 0 else sizeof_pkt)) \<and>
    rx (sv_sock sv') = [] \<and> sv_fs sv' = sv_fs sv"
proof -
  let ?found = "os_access os (sv_fs sv) name"
  let ?st = "case os_lstat os (sv_fs sv) name of Inl _ \<Rightarrow> sk_stat k | Inr st \<Rightarrow> st"
  let ?flag = "int_bytes (if ?found then 1 else 0)"
  let ?sw = "wire (sizeof_stat, left_pkt ?flag (sk_pkt k)) (stat_bytes ?st)"
  let ?ans = "wire (4, sk_pkt k) ?flag @ ?sw"
  let ?p2 = "left_pkt (short_bytes LOOKUP) (sk_send ck)"
  let ?req = "wire (2, sk_send ck) (short_bytes LOOKUP) @ wire (length name, ?p2) name"
  have con: "good_sock (cl_sock c)" "tx (cl_sock c) = []" "wf_pkt (sk_send ck)" "wf_pkt (sk_recv ck)"
      "sv_mem sv = []" "cl_mem c = []" "wf_pkt (sk_pkt k)"
    using assms(1) by (simp_all add: connected_def)
  have th: "thread_handler os k LOOKUP (c_str name) = Inr \<circ> server_lookup os (sk_pkt k) (sk_stat k) name"
    using assms(3) by (intro ext) (simp add: thread_handler_def LOOKUP_def c_str_no_nul)
  let ?s = "(cl_sock (client_hears c ?ans))\<lparr>tx := ?req\<rparr>"
  have nr: "no_read_error ?s" and rx: "rx ?s = ?ans"
    using con(1) by (simp_all add: good_sock_def no_read_error_def client_hears_def)
  have "- (2 ^ 31) \<le> (if ?found then 1 else 0 :: int)" "(if ?found then 1 else 0 :: int) < 2 ^ 31"
    by simp_all
  from read_int_message [OF nr con(7,4) this rx] obtain s1 q where
    rd: "bound_read ?s (sk_recv ck) = (4, q, s1)" "wf_pkt q"
      "bytes_int (pbuf q) = (if ?found then 1 else 0)" and s1: "after_read ?s ?sw s1" by blast
  have sl: "length ?sw = sizeof_pkt"
    using con(7) by (intro length_wire_short) (auto simp: BUF_SIZE_def sizeof_stat_def simp flip: length_0_conv)
  have "no_read_error s1" and "rx s1 = ?sw @ []" using s1 by (simp_all add: after_read_def)
  from read_stat_message [OF this(1) _ rd(2) this(2)] con(7) obtain s2 q2 where
    rd2: "bound_read s1 q = (int sizeof_stat, q2, s2)" "stat_of_bytes (pbuf q2) = ?st" "after_read s1 [] s2"
    by auto
  show ?thesis
  proof (rule exchange_two [OF assms(1) con(3) wf_left_pkt [OF con(3)] _ _ _ _ _ _ th,
        where rest = "[]" and ans = ?ans and opb = "short_bytes LOOKUP", unfolded append_Nil2])
    show "\<exists>c'. fs_oper i ck (Req_Lookup name) (client_hears c ?ans) =
        Some (Inr (c', [if ?found then Reply_Entry (entry_of_stat ?st) else Reply_Err ENOENT])) \<and>
      tx (cl_sock c') = wire (length (short_bytes LOOKUP), sk_send ck) (short_bytes LOOKUP) @
        wire (length name, ?p2) name \<and>
      cl_path c' = Some name \<and> length (rx (cl_sock c')) = (if ?found then 0 else sizeof_pkt)"
      using rd rd2 s1 sl con assms(2) by (auto simp: fuse_study_lookup_def after_read_def Let_def)
    show "\<exists>sv'. (Inr \<circ> server_lookup os (sk_pkt k) (sk_stat k) name) (sv\<lparr>sv_sock := s'\<rparr>) = Inr sv' \<and>
        tx (sv_sock sv') = ?ans \<and> rx (sv_sock sv') = [] \<and> sv_fs sv' = sv_fs sv"
      if "good_sock s'" "tx s' = []" "rx s' = []" for s'
      using that by (auto simp: server_lookup_def Let_def)
  qed (use assms(2-4) in \<open>auto dest: in_set_butlastD\<close>)
qed

theorem lookup_end_to_end_witness:
  "\<exists>c' sv'. exchange \<lparr>id_uid = 0, id_gid = 0, id_now = 0\<rparr> demo_stack (Req_Lookup [97]) demo_os demo_sv_stack 0 []
      (demo_client [102]) demo_server [Reply_Err ENOENT] c' sv' \<and>
    (cl_path c' = Some [97] \<and> length (rx (cl_sock c')) = sizeof_pkt) \<and>
    rx (sv_sock sv') = [] \<and> sv_fs sv' = sv_fs demo_server"
  using lookup_end_to_end [of "demo_client [102]" demo_server demo_stack demo_sv_stack "[97]"
      "\<lparr>id_uid = 0, id_gid = 0, id_now = 0\<rparr>" demo_os 0 "[]"]
  by (simp add: demo_os_def)

section \<open>Directories\<close>

text \<open>What the server writes for a listing, and the entries the daemon makes of it.\<close>

definition de_stat :: "u64 \<Rightarrow> u8 \<Rightarrow> stat" where
  "de_stat d_ino d_type = zero_stat\<lparr>st_ino := d_ino, st_mode := push_bit 12 (ucast d_type)\<rparr>"

fun listing_wire :: "pkt \<Rightarrow> (u8 list \<times> u64 \<times> u8) list \<Rightarrow> u8 list" where
  "listing_wire p [] = wire (4, p) (int_bytes 0)"
| "listing_wire p ((name, ino, type) # des) =
     (let q = left_pkt (name @ [0]) zero_pkt in
      wire (4, p) (int_bytes 1) @ wire (length name + 1, zero_pkt) (name @ [0]) @
      wire (sizeof_stat, q) (stat_bytes (de_stat ino type)) @
      listing_wire (left_pkt (stat_bytes (de_stat ino type)) q) des)"

fun dir_images :: "int \<Rightarrow> int \<Rightarrow> (u8 list \<times> u64 \<times> u8) list \<Rightarrow> u8 list" where
  "dir_images off cur [] = []"
| "dir_images off cur ((name, ino, type) # des) =
     (if off \<le> cur then dirent_image name (de_stat ino type) (word_of_int (cur + 1)) else []) @
     dir_images off (cur + 1) des"

fun dir_entries :: "int \<Rightarrow> int \<Rightarrow> (u8 list \<times> u64 \<times> u8) list \<Rightarrow> dirent list" where
  "dir_entries off cur [] = []"
| "dir_entries off cur ((name, ino, type) # des) =
     (if off \<le> cur then [dirent_of name (de_stat ino type) (word_of_int (cur + 1))] else []) @
     dir_entries off (cur + 1) des"

definition short_names :: "(u8 list \<times> u64 \<times> u8) list \<Rightarrow> bool" where
  "short_names des \<longleftrightarrow> (\<forall>(name, ino, type) \<in> set des. 0 \<notin> set name \<and> length name < BUF_SIZE)"

lemma short_names_Cons [simp]:
  "short_names ((name, ino, type) # des) \<longleftrightarrow> 0 \<notin> set name \<and> length name < BUF_SIZE \<and> short_names des"
  by (auto simp: short_names_def)

lemma read_dir_images: "short_names des \<Longrightarrow> read_dirents (dir_images off cur des) = dir_entries off cur des"
  by (induction off cur des rule: dir_images.induct) (auto simp: read_dirents_image BUF_SIZE_def)

lemma readdir_entries_wire:
  "good_sock (sv_sock sv) \<Longrightarrow>
   (case readdir_entries des p sv of (p', sv') \<Rightarrow> snd (sv_send (int_bytes 0) p' sv')) =
     sv\<lparr>sv_sock := (sv_sock sv)\<lparr>tx := tx (sv_sock sv) @ listing_wire p des\<rparr>\<rparr>"
  by (induction des p sv rule: readdir_entries.induct) (auto simp: Let_def simp flip: de_stat_def)

lemma readdir_step:
  assumes "no_read_error s" and "wf_pkt p" and "wf_pkt q" and "0 \<notin> set name" and "length name < BUF_SIZE"
    and "rx s = listing_wire p ((name, ino, type) # des) @ rest"
  shows "\<exists>s' q1 s1 q2 s2 st_pkt p'. bound_read s q = (4, q1, s1) \<and> bytes_int (pbuf q1) = 1 \<and>
    bound_read s1 q1 = (int (length name + 1), q2, s2) \<and> wf_pkt q2 \<and>
    strlen_in (pbuf q2) = Some (length name) \<and> c_str (pbuf q2) = name \<and>
    bound_read s2 zero_pkt = (int sizeof_stat, st_pkt, s') \<and>
    stat_of_bytes (pbuf st_pkt) = de_stat ino type \<and> wf_pkt p' \<and>
    no_read_error s' \<and> rx s' = listing_wire p' des @ rest \<and> after_read s (listing_wire p' des @ rest) s'"
proof -
  let ?q = "left_pkt (name @ [0]) zero_pkt"
  let ?p' = "left_pkt (stat_bytes (de_stat ino type)) ?q"
  have rx: "rx s = wire (4, p) (int_bytes 1) @ wire (length name + 1, zero_pkt) (name @ [0]) @
      wire (sizeof_stat, ?q) (stat_bytes (de_stat ino type)) @ listing_wire ?p' des @ rest"
    using assms(6) by (simp add: Let_def)
  from read_int_message [OF assms(1-3) _ _ rx] obtain s1 q1 where
    1: "bound_read s q = (4, q1, s1)" "wf_pkt q1" "bytes_int (pbuf q1) = 1" and s1: "after_read s
      (wire (length name + 1, zero_pkt) (name @ [0]) @
       wire (sizeof_stat, ?q) (stat_bytes (de_stat ino type)) @ listing_wire ?p' des @ rest) s1" by auto
  have ne: "name @ [0] \<noteq> []" and le: "length (name @ [0]) \<le> BUF_SIZE" using assms(5) by simp_all
  from s1 have "no_read_error s1" and rx1: "rx s1 = wire (length name + 1, zero_pkt) (name @ [0]) @
      wire (sizeof_stat, ?q) (stat_bytes (de_stat ino type)) @ listing_wire ?p' des @ rest"
    by (simp_all add: after_read_def)
  from bound_read_short_message [OF this(1) wf_zero_pkt 1(2) ne le rx1] obtain s2 q2 t where
    2: "bound_read s1 q1 = (int (length name + 1), q2, s2)" "wf_pkt q2" "pbuf q2 = (name @ [0]) @ t"
    and s2: "after_read s1 (wire (sizeof_stat, ?q) (stat_bytes (de_stat ino type)) @ listing_wire ?p' des @ rest) s2"
    by auto
  from s2 have "no_read_error s2" and rx2: "rx s2 =
      wire (sizeof_stat, ?q) (stat_bytes (de_stat ino type)) @ listing_wire ?p' des @ rest"
    by (simp_all add: after_read_def)
  from read_stat_message [OF this(1) wf_left_pkt [OF wf_zero_pkt] wf_zero_pkt rx2] obtain s3 q3 where
    3: "bound_read s2 zero_pkt = (int sizeof_stat, q3, s3)" "stat_of_bytes (pbuf q3) = de_stat ino type"
    and s3: "after_read s2 (listing_wire ?p' des @ rest) s3" by blast
  have "c_str (pbuf q2) = name" "0 \<in> set (pbuf q2)"
    using 2(3) assms(4) c_str_append_nul [of name t] by simp_all
  then have "strlen_in (pbuf q2) = Some (length name)" by (simp add: strlen_in_def)
  moreover have "after_read s (listing_wire ?p' des @ rest) s3"
    using s1 s2 s3 by (blast intro: after_read_trans)
  moreover have "wf_pkt ?p'" by simp
  ultimately show ?thesis
    using 1 2 3 s3 \<open>c_str (pbuf q2) = name\<close> unfolding after_read_def by blast
qed

lemma readdir_loop_listing:
  assumes "no_read_error s" and "wf_pkt p" and "wf_pkt q" and "short_names des"
    and "rx s = listing_wire p des @ rest" and "length buffer = sz"
    and "bufsize + length (dir_images off cur des) \<le> sz"
  shows "\<exists>buffer' s'. readdir_loop sz off s [] q buffer bufsize cur =
      Some (Inr (buffer', bufsize + length (dir_images off cur des), s', [])) \<and>
    take (bufsize + length (dir_images off cur des)) buffer' = take bufsize buffer @ dir_images off cur des \<and>
    after_read s rest s'"
  using assms
proof (induction des arbitrary: s p q buffer bufsize cur)
  case Nil
  then have "rx s = wire (4, p) (int_bytes 0) @ rest" by simp
  from read_int_message [OF Nil(1-3) _ _ this] obtain s1 q1 where
    "bound_read s q = (4, q1, s1)" "bytes_int (pbuf q1) = 0" "after_read s rest s1" by auto
  then show ?case by (simp add: readdir_loop.simps [of sz off s])
next
  case (Cons de des)
  obtain name ino type where de: "de = (name, ino, type)" by (cases de)
  let ?im = "dirent_image name (de_stat ino type) (word_of_int (cur + 1))"
  have nm: "0 \<notin> set name" "length name < BUF_SIZE" and sn: "short_names des"
    using Cons.prems(4) de by simp_all
  from readdir_step [OF Cons.prems(1-3) nm] Cons.prems(5) de obtain s' q1 s1 q2 s2 q3 p' where
    rd: "bound_read s q = (4, q1, s1)" "bytes_int (pbuf q1) = 1"
      "bound_read s1 q1 = (int (length name + 1), q2, s2)" "strlen_in (pbuf q2) = Some (length name)"
      "c_str (pbuf q2) = name" "bound_read s2 zero_pkt = (int sizeof_stat, q3, s')"
      "stat_of_bytes (pbuf q3) = de_stat ino type"
    and s': "wf_pkt q2" "wf_pkt p'" "no_read_error s'" "rx s' = listing_wire p' des @ rest"
      "after_read s (listing_wire p' des @ rest) s'" by blast
  show ?case
  proof (cases "off \<le> cur")
    case True
    let ?n = "FUSE_DIRENT_ALIGN (FUSE_NAME_OFFSET + length name)"
    have len: "length ?im = ?n" by (rule length_dirent_image)
    have fits: "bufsize + ?n + length (dir_images off (cur + 1) des) \<le> sz"
      using Cons.prems(7) True de len by simp
    then have add: "fuse_add_direntry (Some (drop bufsize buffer)) (sz - bufsize) name (de_stat ino type)
        (word_of_int (cur + 1)) = (?n, Some (?im @ drop ?n (drop bufsize buffer)))"
      by (intro fuse_add_direntry_fits) simp
    let ?b = "take bufsize buffer @ ?im @ drop ?n (drop bufsize buffer)"
    have "length ?b = sz" using Cons.prems(6) fits len by simp
    from Cons.IH [OF s'(3,2,1) sn s'(4) this fits] obtain buffer' s'' where
      "readdir_loop sz off s' [] q2 ?b (bufsize + ?n) (cur + 1) =
        Some (Inr (buffer', bufsize + ?n + length (dir_images off (cur + 1) des), s'', []))"
      "take (bufsize + ?n + length (dir_images off (cur + 1) des)) buffer' =
        take (bufsize + ?n) ?b @ dir_images off (cur + 1) des" "after_read s' rest s''" by blast
    moreover have "take (bufsize + ?n) ?b = take bufsize buffer @ ?im"
      using Cons.prems(6) fits len by simp
    ultimately show ?thesis
      using rd add fits True de len s'(5)
      by (auto simp: readdir_loop.simps [of sz off s] add.assoc intro: after_read_trans)
  next
    case False
    then have "bufsize + length (dir_images off (cur + 1) des) \<le> sz" using Cons.prems(7) de by simp
    from Cons.IH [OF s'(3,2,1) sn s'(4) Cons.prems(6) this] False rd de s'(5) show ?thesis
      by (auto simp: readdir_loop.simps [of sz off s] intro: after_read_trans)
  qed
qed



end
