(* ===== verification/FuseOpt.thy ===== *)
theory FuseOpt
  imports Prelude
begin

text \<open>
  The option parser of \<^verbatim>\<open>lib/fuse_opt.c\<close>. C strings are HOL strings without NUL, an
  argument vector is a list of strings, and the structure that options are stored into is a map
  from offsets to values. The callback \<^verbatim>\<open>proc\<close> of the caller and the conversion
  \<^verbatim>\<open>sscanf\<close> for the caller's format are fields of the parsing context. Failed
  allocations and failed assertions are outcomes of the operations.
\<close>

section \<open>Data\<close>

datatype ret = Ok | Failed | Aborted

datatype optval = VInt int | VStr string

type_synonym optdata = "u64 \<rightharpoonup> optval"

record fuse_opt =
  templ :: string
  offset :: u64
  ovalue :: int

record fuse_args =
  argv :: "string list"
  argv_null :: bool
  allocated :: bool

abbreviation argc :: "fuse_args \<Rightarrow> nat" where
  "argc a \<equiv> length (argv a)"

definition null_args :: fuse_args where
  "null_args = \<lparr>argv = [], argv_null = True, allocated = False\<rparr>"

definition FUSE_OPT_KEY_OPT :: int where "FUSE_OPT_KEY_OPT = -1"
definition FUSE_OPT_KEY_NONOPT :: int where "FUSE_OPT_KEY_NONOPT = -2"
definition FUSE_OPT_KEY_KEEP :: int where "FUSE_OPT_KEY_KEEP = -3"
definition FUSE_OPT_KEY_DISCARD :: int where "FUSE_OPT_KEY_DISCARD = -4"

lemmas key_defs = FUSE_OPT_KEY_OPT_def FUSE_OPT_KEY_NONOPT_def FUSE_OPT_KEY_KEEP_def
  FUSE_OPT_KEY_DISCARD_def

text \<open>The offset \<^verbatim>\<open>-1U\<close>, a 32-bit constant, in the 64-bit field.\<close>

definition OFFSET_NONE :: u64 where "OFFSET_NONE = 0xFFFFFFFF"

definition FUSE_OPT_KEY :: "string \<Rightarrow> int \<Rightarrow> fuse_opt" where
  "FUSE_OPT_KEY t key = \<lparr>templ = t, offset = OFFSET_NONE, ovalue = key\<rparr>"

type_synonym opt_proc = "optdata \<Rightarrow> string \<Rightarrow> int \<Rightarrow> fuse_args \<Rightarrow> int \<times> optdata \<times> fuse_args"

record fuse_opt_context =
  cdata :: optdata
  copt :: "fuse_opt list"
  cproc :: "opt_proc option"
  csscanf :: "string \<Rightarrow> string \<Rightarrow> optval option"
  argctr :: nat
  cargv :: "string list"
  outargs :: fuse_args
  copts :: "string option"
  nonopt :: nat
  cmem :: schedule

section \<open>Argument vectors\<close>

definition fuse_opt_free_args :: "fuse_args option \<Rightarrow> fuse_args option" where
  "fuse_opt_free_args args = map_option (\<lambda>_. null_args) args"

definition fuse_opt_add_arg :: "schedule \<Rightarrow> fuse_args \<Rightarrow> string \<Rightarrow> ret \<times> fuse_args \<times> schedule" where
  "fuse_opt_add_arg m args arg =
     (if \<not> (argv_null args \<or> allocated args) then (Aborted, args, m)
      else case alloc m of (ok1, m1) \<Rightarrow>
        if \<not> ok1 then (Failed, args, m1)
        else case alloc m1 of (ok2, m2) \<Rightarrow>
          if \<not> ok2 then (Failed, args, m2)
          else (Ok, args\<lparr>argv := argv args @ [arg], argv_null := False, allocated := True\<rparr>, m2))"

definition fuse_opt_insert_arg :: "schedule \<Rightarrow> fuse_args \<Rightarrow> nat \<Rightarrow> string \<Rightarrow> ret \<times> fuse_args \<times> schedule" where
  "fuse_opt_insert_arg m args pos arg =
     (if \<not> pos \<le> argc args then (Aborted, args, m)
      else case fuse_opt_add_arg m args arg of (r, args', m') \<Rightarrow>
        if r \<noteq> Ok then (r, args', m')
        else if pos \<noteq> argc args' - 1
        then let newarg = argv args' ! (argc args' - 1);
                 moved = take (pos + 1) (argv args') @ take (argc args' - pos - 1) (drop pos (argv args'))
             in (Ok, args'\<lparr>argv := moved[pos := newarg]\<rparr>, m')
        else (Ok, args', m'))"

definition next_arg :: "fuse_opt_context \<Rightarrow> ret \<times> fuse_opt_context" where
  "next_arg ctx =
     (if argctr ctx + 1 \<ge> length (cargv ctx) then (Failed, ctx)
      else (Ok, ctx\<lparr>argctr := argctr ctx + 1\<rparr>))"

definition add_arg :: "fuse_opt_context \<Rightarrow> string \<Rightarrow> ret \<times> fuse_opt_context" where
  "add_arg ctx arg =
     (case fuse_opt_add_arg (cmem ctx) (outargs ctx) arg of (r, out', m') \<Rightarrow>
        (r, ctx\<lparr>outargs := out', cmem := m'\<rparr>))"

section \<open>Option strings\<close>

fun escape_opt :: "string \<Rightarrow> string" where
  "escape_opt [] = []"
| "escape_opt (c # cs) =
     (if c = CHR '','' \<or> c = CHR 0x5C then CHR 0x5C # c # escape_opt cs else c # escape_opt cs)"

definition add_opt_common ::
  "schedule \<Rightarrow> string option \<Rightarrow> string \<Rightarrow> bool \<Rightarrow> ret \<times> string option \<times> schedule" where
  "add_opt_common m opts opt esc =
     (case alloc m of (ok, m') \<Rightarrow>
        if \<not> ok then (Failed, opts, m')
        else
          let old = (case opts of None \<Rightarrow> [] | Some s \<Rightarrow> s)
          in (Ok, Some ((if old \<noteq> [] then old @ [CHR '','' ] else []) @
                        (if esc then escape_opt opt else opt)), m'))"

definition fuse_opt_add_opt :: "schedule \<Rightarrow> string option \<Rightarrow> string \<Rightarrow> ret \<times> string option \<times> schedule" where
  "fuse_opt_add_opt m opts opt = add_opt_common m opts opt False"

definition fuse_opt_add_opt_escaped ::
  "schedule \<Rightarrow> string option \<Rightarrow> string \<Rightarrow> ret \<times> string option \<times> schedule" where
  "fuse_opt_add_opt_escaped m opts opt = add_opt_common m opts opt True"

definition add_opt :: "fuse_opt_context \<Rightarrow> string \<Rightarrow> ret \<times> fuse_opt_context" where
  "add_opt ctx o' =
     (case add_opt_common (cmem ctx) (copts ctx) o' True of (r, opts', m') \<Rightarrow>
        (r, ctx\<lparr>copts := opts', cmem := m'\<rparr>))"

section \<open>One option\<close>

definition call_proc :: "fuse_opt_context \<Rightarrow> string \<Rightarrow> int \<Rightarrow> bool \<Rightarrow> ret \<times> fuse_opt_context" where
  "call_proc ctx arg key iso_opt =
     (if key = FUSE_OPT_KEY_DISCARD then (Ok, ctx)
      else
        let keep = (\<lambda>ctx'. if iso_opt then add_opt ctx' arg else add_arg ctx' arg)
        in case (if key \<noteq> FUSE_OPT_KEY_KEEP then cproc ctx else None) of
             None \<Rightarrow> keep ctx
           | Some f \<Rightarrow>
               (case f (cdata ctx) arg key (outargs ctx) of (res, data', out') \<Rightarrow>
                  let ctx' = ctx\<lparr>cdata := data', outargs := out'\<rparr>
                  in if res = -1 then (Failed, ctx') else if res = 0 then (Ok, ctx') else keep ctx'))"

text \<open>\<^verbatim>\<open>strchr\<close> as a position.\<close>

definition strchr :: "string \<Rightarrow> char \<Rightarrow> nat option" where
  "strchr s c = (if c \<in> set s then Some (length (takeWhile (\<lambda>x. x \<noteq> c) s)) else None)"

text \<open>
  \<^verbatim>\<open>match_template\<close>: \<open>Some sep\<close> on a match, with \<open>sep\<close> the position of the
  separator, or 0 for a match of the whole template.
\<close>

definition match_template :: "string \<Rightarrow> string \<Rightarrow> nat option" where
  "match_template t arg =
     (let sep = (case strchr t (CHR ''='') of Some k \<Rightarrow> Some k | None \<Rightarrow> strchr t (CHR '' ''));
          exact = (if t = arg then Some 0 else None)
      in case sep of
           None \<Rightarrow> exact
         | Some k \<Rightarrow>
             if drop (k + 1) t = [] \<or> hd (drop (k + 1) t) = CHR ''%'' then
               let tlen = (if t ! k = CHR ''='' then k + 1 else k)
               in if length arg \<ge> tlen \<and> take tlen arg = take tlen t then Some k else exact
             else exact)"

text \<open>\<^verbatim>\<open>find_opt\<close> also gives the entries behind the match, for the next search.\<close>

fun find_opt :: "fuse_opt list \<Rightarrow> string \<Rightarrow> (fuse_opt \<times> nat \<times> fuse_opt list) option" where
  "find_opt [] arg = None"
| "find_opt (o' # os) arg =
     (case match_template (templ o') arg of Some sep \<Rightarrow> Some (o', sep, os) | None \<Rightarrow> find_opt os arg)"

definition fuse_opt_match :: "fuse_opt list \<Rightarrow> string \<Rightarrow> int" where
  "fuse_opt_match os o' = (case find_opt os o' of Some _ \<Rightarrow> 1 | None \<Rightarrow> 0)"

definition process_opt_param ::
  "fuse_opt_context \<Rightarrow> u64 \<Rightarrow> string \<Rightarrow> string \<Rightarrow> ret \<times> fuse_opt_context" where
  "process_opt_param ctx var format param =
     (case format of
        c # cs \<Rightarrow>
          if c \<noteq> CHR ''%'' then (Aborted, ctx)
          else if cs \<noteq> [] \<and> hd cs = CHR ''s'' then
            (case alloc (cmem ctx) of (ok, m') \<Rightarrow>
               if \<not> ok then (Failed, ctx\<lparr>cmem := m'\<rparr>)
               else (Ok, ctx\<lparr>cdata := (cdata ctx)(var \<mapsto> VStr param), cmem := m'\<rparr>))
          else
            (case csscanf ctx param format of
               None \<Rightarrow> (Failed, ctx)
             | Some v \<Rightarrow> (Ok, ctx\<lparr>cdata := (cdata ctx)(var \<mapsto> v)\<rparr>))
      | [] \<Rightarrow> (Aborted, ctx))"

definition process_opt ::
  "fuse_opt_context \<Rightarrow> fuse_opt \<Rightarrow> nat \<Rightarrow> string \<Rightarrow> bool \<Rightarrow> ret \<times> fuse_opt_context" where
  "process_opt ctx o' sep arg iso_opt =
     (if offset o' = OFFSET_NONE then call_proc ctx arg (ovalue o') iso_opt
      else if sep \<noteq> 0 \<and> drop (sep + 1) (templ o') \<noteq> [] then
        let param = drop (if templ o' ! sep = CHR ''='' then sep + 1 else sep) arg
        in process_opt_param ctx (offset o') (drop (sep + 1) (templ o')) param
      else (Ok, ctx\<lparr>cdata := (cdata ctx)(offset o' \<mapsto> VInt (ovalue o'))\<rparr>))"

definition process_opt_sep_arg ::
  "fuse_opt_context \<Rightarrow> fuse_opt \<Rightarrow> nat \<Rightarrow> string \<Rightarrow> bool \<Rightarrow> ret \<times> fuse_opt_context" where
  "process_opt_sep_arg ctx o' sep arg iso_opt =
     (case next_arg ctx of (r, ctx1) \<Rightarrow>
        if r \<noteq> Ok then (r, ctx1)
        else
          let param = cargv ctx1 ! argctr ctx1
          in case alloc (cmem ctx1) of (ok, m') \<Rightarrow>
               if \<not> ok then (Failed, ctx1\<lparr>cmem := m'\<rparr>)
               else process_opt (ctx1\<lparr>cmem := m'\<rparr>) o' sep (take sep arg @ param) iso_opt)"

function process_gopt_loop ::
  "fuse_opt_context \<Rightarrow> fuse_opt list \<Rightarrow> string \<Rightarrow> bool \<Rightarrow> ret \<times> fuse_opt_context" where
  "process_gopt_loop ctx os arg iso_opt =
     (case find_opt os arg of
        None \<Rightarrow> (Ok, ctx)
      | Some (o', sep, os') \<Rightarrow>
          (case (if sep \<noteq> 0 \<and> templ o' ! sep = CHR '' '' \<and> length arg \<le> sep
                 then process_opt_sep_arg ctx o' sep arg iso_opt
                 else process_opt ctx o' sep arg iso_opt) of
             (r, ctx') \<Rightarrow> if r \<noteq> Ok then (r, ctx') else process_gopt_loop ctx' os' arg iso_opt))"
  by pat_completeness auto

lemma find_opt_shorter: "find_opt os arg = Some (o', sep, os') \<Longrightarrow> length os' < length os"
  by (induction os) (auto split: option.splits)

termination process_gopt_loop
  by (relation "measure (\<lambda>(ctx, os, arg, iso_opt). length os)") (auto dest: find_opt_shorter)

declare process_gopt_loop.simps [simp del]

definition process_gopt :: "fuse_opt_context \<Rightarrow> string \<Rightarrow> bool \<Rightarrow> ret \<times> fuse_opt_context" where
  "process_gopt ctx arg iso_opt =
     (case find_opt (copt ctx) arg of
        Some _ \<Rightarrow> process_gopt_loop ctx (copt ctx) arg iso_opt
      | None \<Rightarrow> call_proc ctx arg FUSE_OPT_KEY_OPT iso_opt)"

section \<open>Option groups\<close>

definition octal_digit :: "nat \<Rightarrow> char \<Rightarrow> bool" where
  "octal_digit hi c \<longleftrightarrow> 48 \<le> (of_char c :: nat) \<and> (of_char c :: nat) \<le> hi"

definition octal_char :: "char \<Rightarrow> char \<Rightarrow> char \<Rightarrow> char" where
  "octal_char c0 c1 c2 =
     char_of ((of_char c0 - 48) * 64 + (of_char c1 - 48) * 8 + (of_char c2 - 48) :: nat)"

text \<open>
  One turn of the loop of \<^verbatim>\<open>process_real_option_group\<close> on the unread characters
  \<open>s\<close>: the end of the option, or the character that is stored and what is left. The end of the
  list is the terminating NUL.
\<close>

datatype group_step = Group_End | Group_Sep string | Group_Char char string

definition group_step :: "string \<Rightarrow> group_step" where
  "group_step s =
     (case s of
        [] \<Rightarrow> Group_End
      | c # s' \<Rightarrow>
          if c = CHR '','' then Group_Sep s'
          else if c = CHR 0x5C \<and> s' \<noteq> [] then
            (case s' of
               c0 # c1 # c2 # s'' \<Rightarrow>
                 if octal_digit 51 c0 \<and> octal_digit 55 c1 \<and> octal_digit 55 c2
                 then Group_Char (octal_char c0 c1 c2) s''
                 else Group_Char c0 (c1 # c2 # s'')
             | c0 # s'' \<Rightarrow> Group_Char c0 s''
             | [] \<Rightarrow> Group_Char c s')
          else Group_Char c s')"

lemma group_step_shorter:
  "group_step s = Group_Sep s' \<Longrightarrow> length s' < length s"
  "group_step s = Group_Char c s' \<Longrightarrow> length s' < length s"
  by (auto simp: group_step_def split: list.splits if_splits)

text \<open>
  The option is handed on as the C string at the start of the buffer: it ends at a NUL that an
  escape sequence has put into it.
\<close>

definition nul_cut :: "string \<Rightarrow> string" where
  "nul_cut d = takeWhile (\<lambda>c. c \<noteq> CHR 0x00) d"

function process_real_option_group :: "fuse_opt_context \<Rightarrow> string \<Rightarrow> string \<Rightarrow> ret \<times> fuse_opt_context" where
  "process_real_option_group ctx d s =
     (case group_step s of
        Group_End \<Rightarrow> process_gopt ctx (nul_cut d) True
      | Group_Sep s' \<Rightarrow>
          (case process_gopt ctx (nul_cut d) True of (r, ctx') \<Rightarrow>
             if r \<noteq> Ok then (r, ctx') else process_real_option_group ctx' [] s')
      | Group_Char c s' \<Rightarrow> process_real_option_group ctx (d @ [c]) s')"
  by pat_completeness auto
termination
  by (relation "measure (\<lambda>(ctx, d, s). length s)") (auto dest: group_step_shorter)

declare process_real_option_group.simps [simp del]

definition process_option_group :: "fuse_opt_context \<Rightarrow> string \<Rightarrow> ret \<times> fuse_opt_context" where
  "process_option_group ctx os =
     (case alloc (cmem ctx) of (ok, m') \<Rightarrow>
        if \<not> ok then (Failed, ctx\<lparr>cmem := m'\<rparr>)
        else process_real_option_group (ctx\<lparr>cmem := m'\<rparr>) [] os)"

section \<open>The parser\<close>

definition process_one :: "fuse_opt_context \<Rightarrow> string \<Rightarrow> ret \<times> fuse_opt_context" where
  "process_one ctx arg =
     (if nonopt ctx \<noteq> 0 \<or> take 1 arg \<noteq> ''-'' then call_proc ctx arg FUSE_OPT_KEY_NONOPT False
      else if take 1 (drop 1 arg) = ''o'' then
        (if drop 2 arg \<noteq> [] then process_option_group ctx (drop 2 arg)
         else case next_arg ctx of (r, ctx') \<Rightarrow>
           if r \<noteq> Ok then (r, ctx') else process_option_group ctx' (cargv ctx' ! argctr ctx'))
      else if drop 1 arg = ''-'' then
        (case add_arg ctx arg of (r, ctx') \<Rightarrow>
           if r \<noteq> Ok then (r, ctx') else (Ok, ctx'\<lparr>nonopt := argc (outargs ctx')\<rparr>))
      else process_gopt ctx arg False)"

text \<open>
  What no step of the parser changes: the arguments, the table, the callback; and the argument
  counter never goes back. This is what makes the main loop end.
\<close>

definition advances :: "fuse_opt_context \<Rightarrow> fuse_opt_context \<Rightarrow> bool" where
  "advances c c' \<longleftrightarrow> cargv c' = cargv c \<and> argctr c \<le> argctr c' \<and> copt c' = copt c \<and>
     cproc c' = cproc c \<and> csscanf c' = csscanf c"

lemma advances_refl [simp]: "advances c c"
  by (simp add: advances_def)

lemma advances_trans: "advances c c' \<Longrightarrow> advances c' c'' \<Longrightarrow> advances c c''"
  by (auto simp: advances_def)

lemma advances_fields [simp]:
  "advances c (c\<lparr>cmem := m\<rparr>)" "advances c (c\<lparr>cdata := d\<rparr>)"
  "advances c (c\<lparr>outargs := a, cmem := m\<rparr>)" "advances c (c\<lparr>copts := o', cmem := m\<rparr>)"
  "advances c (c\<lparr>cdata := d, cmem := m\<rparr>)" "advances c (c\<lparr>cdata := d, outargs := a\<rparr>)"
  "advances c (c\<lparr>argctr := Suc (argctr c)\<rparr>)" "advances c (c\<lparr>nonopt := n\<rparr>)"
  by (simp_all add: advances_def)

lemma advances_basic:
  "next_arg c = (r, c') \<Longrightarrow> advances c c'"
  "add_arg c a = (r, c') \<Longrightarrow> advances c c'"
  "add_opt c a = (r, c') \<Longrightarrow> advances c c'"
  by (auto simp: next_arg_def add_arg_def add_opt_def split: if_splits prod.splits)

lemma advances_call_proc: "call_proc c a key b = (r, c') \<Longrightarrow> advances c c'"
  by (auto simp: call_proc_def Let_def split: if_splits option.splits prod.splits
      dest!: advances_basic intro: advances_trans [OF advances_fields(6)])

lemma advances_process_opt_param: "process_opt_param c v f p = (r, c') \<Longrightarrow> advances c c'"
  by (auto simp: process_opt_param_def split: list.splits if_splits prod.splits option.splits)

lemma advances_process_opt: "process_opt c o' sep a b = (r, c') \<Longrightarrow> advances c c'"
  by (auto simp: process_opt_def Let_def split: if_splits
      dest: advances_call_proc advances_process_opt_param)

lemma advances_process_opt_sep_arg: "process_opt_sep_arg c o' sep a b = (r, c') \<Longrightarrow> advances c c'"
  by (auto simp: process_opt_sep_arg_def Let_def split: if_splits prod.splits
      dest!: advances_basic advances_process_opt) (auto simp: advances_def)

lemma advances_process_gopt_loop: "process_gopt_loop c os a b = (r, c') \<Longrightarrow> advances c c'"
proof (induction c os a b rule: process_gopt_loop.induct)
  case (1 c os a b)
  show ?case
  proof (cases "find_opt os a")
    case None
    with "1.prems" show ?thesis by (simp add: process_gopt_loop.simps [of c])
  next
    case (Some x)
    obtain o' sep os' where x: "x = (o', sep, os')" by (cases x)
    obtain r1 c1 where st: "(if sep \<noteq> 0 \<and> templ o' ! sep = CHR '' '' \<and> length a \<le> sep
        then process_opt_sep_arg c o' sep a b else process_opt c o' sep a b) = (r1, c1)"
      by (cases "if sep \<noteq> 0 \<and> templ o' ! sep = CHR '' '' \<and> length a \<le> sep
        then process_opt_sep_arg c o' sep a b else process_opt c o' sep a b") auto
    then have "advances c c1"
      by (auto split: if_splits dest: advances_process_opt advances_process_opt_sep_arg)
    with "1.prems" "1.IH" [OF Some x [symmetric] refl st [symmetric]] Some x st show ?thesis
      by (auto simp: process_gopt_loop.simps [of c] split: if_splits intro: advances_trans)
  qed
qed

lemma advances_process_gopt: "process_gopt c a b = (r, c') \<Longrightarrow> advances c c'"
  by (auto simp: process_gopt_def split: option.splits
      dest: advances_call_proc advances_process_gopt_loop)

lemma advances_real_option_group: "process_real_option_group c d s = (r, c') \<Longrightarrow> advances c c'"
proof (induction c d s rule: process_real_option_group.induct)
  case (1 c d s)
  show ?case
  proof (cases "group_step s")
    case (Group_Sep s')
    obtain r1 c1 where g: "process_gopt c (nul_cut d) True = (r1, c1)" by force
    with "1.prems" Group_Sep "1.IH"(1) [OF Group_Sep g [symmetric]] advances_process_gopt [OF g]
    show ?thesis
      by (auto simp: process_real_option_group.simps [of c] split: if_splits intro: advances_trans)
  qed (use 1 in \<open>auto simp: process_real_option_group.simps [of c] dest: advances_process_gopt\<close>)
qed

lemma advances_option_group: "process_option_group c s = (r, c') \<Longrightarrow> advances c c'"
  by (auto simp: process_option_group_def split: prod.splits if_splits
      dest!: advances_real_option_group) (auto simp: advances_def)

lemma advances_process_one: "process_one c a = (r, c') \<Longrightarrow> advances c c'"
  by (auto simp: process_one_def split: if_splits prod.splits
      dest!: advances_call_proc advances_option_group advances_basic advances_process_gopt)
    (auto simp: advances_def)

function opt_parse_loop :: "fuse_opt_context \<Rightarrow> ret \<times> fuse_opt_context" where
  "opt_parse_loop ctx =
     (if argctr ctx < length (cargv ctx) then
        (case process_one ctx (cargv ctx ! argctr ctx) of (r, ctx') \<Rightarrow>
           if r \<noteq> Ok then (r, ctx') else opt_parse_loop (ctx'\<lparr>argctr := argctr ctx' + 1\<rparr>))
      else (Ok, ctx))"
  by pat_completeness auto
termination
  by (relation "measure (\<lambda>ctx. length (cargv ctx) - argctr ctx)")
    (auto dest!: sym [of "(_, _)"] advances_process_one simp: advances_def)

declare opt_parse_loop.simps [simp del]

definition insert_opts :: "fuse_opt_context \<Rightarrow> ret \<times> fuse_opt_context" where
  "insert_opts ctx =
     (case copts ctx of
        None \<Rightarrow> (Ok, ctx)
      | Some os \<Rightarrow>
          (case fuse_opt_insert_arg (cmem ctx) (outargs ctx) 1 ''-o'' of (r, out1, m1) \<Rightarrow>
             if r \<noteq> Ok then (r, ctx\<lparr>outargs := out1, cmem := m1\<rparr>)
             else case fuse_opt_insert_arg m1 out1 2 os of (r', out2, m2) \<Rightarrow>
               (r', ctx\<lparr>outargs := out2, cmem := m2\<rparr>)))"

definition drop_separator :: "fuse_opt_context \<Rightarrow> fuse_opt_context" where
  "drop_separator ctx =
     (if nonopt ctx \<noteq> 0 \<and> nonopt ctx = argc (outargs ctx) \<and>
         argv (outargs ctx) ! (argc (outargs ctx) - 1) = ''--''
      then ctx\<lparr>outargs := (outargs ctx)\<lparr>argv := butlast (argv (outargs ctx))\<rparr>\<rparr>
      else ctx)"

definition opt_parse :: "fuse_opt_context \<Rightarrow> ret \<times> fuse_opt_context" where
  "opt_parse ctx =
     (case (if cargv ctx \<noteq> [] then add_arg ctx (cargv ctx ! 0) else (Ok, ctx)) of (r0, ctx0) \<Rightarrow>
        if r0 \<noteq> Ok then (r0, ctx0)
        else case opt_parse_loop (ctx0\<lparr>argctr := 1\<rparr>) of (r1, ctx1) \<Rightarrow>
          if r1 \<noteq> Ok then (r1, ctx1)
          else case insert_opts ctx1 of (r2, ctx2) \<Rightarrow>
            if r2 \<noteq> Ok then (r2, ctx2) else (Ok, drop_separator ctx2))"

text \<open>
  The arguments are replaced only on success. \<open>None\<close> for \<open>args\<close> is a null pointer.
\<close>

definition fuse_opt_parse ::
  "fuse_args option \<Rightarrow> optdata \<Rightarrow> fuse_opt list \<Rightarrow> opt_proc option \<Rightarrow>
   (string \<Rightarrow> string \<Rightarrow> optval option) \<Rightarrow> schedule \<Rightarrow> ret \<times> fuse_args option \<times> optdata \<times> schedule" where
  "fuse_opt_parse args dat os pr scan m =
     (case args of
        None \<Rightarrow> (Ok, None, dat, m)
      | Some a \<Rightarrow>
          if argv_null a \<or> argc a = 0 then (Ok, Some a, dat, m)
          else
            let ctx = \<lparr>cdata = dat, copt = os, cproc = pr, csscanf = scan, argctr = 0,
                       cargv = argv a, outargs = null_args, copts = None, nonopt = 0, cmem = m\<rparr>
            in case opt_parse ctx of (r, ctx') \<Rightarrow>
                 (r, Some (if r = Ok then outargs ctx' else a), cdata ctx', cmem ctx'))"

section \<open>Groups as lists of options\<close>

text \<open>
  The options of a group as a list, and running the parser over such a list. The loop of the code
  does both at once.
\<close>

function split_group :: "string \<Rightarrow> string \<Rightarrow> string list" where
  "split_group d s =
     (case group_step s of
        Group_End \<Rightarrow> [nul_cut d]
      | Group_Sep s' \<Rightarrow> nul_cut d # split_group [] s'
      | Group_Char c s' \<Rightarrow> split_group (d @ [c]) s')"
  by pat_completeness auto
termination
  by (relation "measure (\<lambda>(d, s). length s)") (auto dest: group_step_shorter)

declare split_group.simps [simp del]

fun run_opts :: "fuse_opt_context \<Rightarrow> string list \<Rightarrow> ret \<times> fuse_opt_context" where
  "run_opts ctx [] = (Ok, ctx)"
| "run_opts ctx (a # as) =
     (case process_gopt ctx a True of (r, ctx') \<Rightarrow> if r \<noteq> Ok then (r, ctx') else run_opts ctx' as)"

lemma option_group_split: "process_real_option_group ctx d s = run_opts ctx (split_group d s)"
proof (induction ctx d s rule: process_real_option_group.induct)
  case (1 ctx d s)
  show ?case
    using 1
    by (subst process_real_option_group.simps, subst split_group.simps)
      (auto split: group_step.splits prod.splits if_splits)
qed

fun add_all :: "string option \<Rightarrow> string list \<Rightarrow> string option" where
  "add_all acc [] = acc"
| "add_all acc (a # as) = (case fuse_opt_add_opt_escaped [] acc a of (_, acc', _) \<Rightarrow> add_all acc' as)"

lemma add_all_append: "add_all acc (xs @ ys) = add_all (add_all acc xs) ys"
  by (induction xs arbitrary: acc) (auto split: prod.splits)

lemma group_step_plain:
  "c \<noteq> CHR '','' \<Longrightarrow> c \<noteq> CHR 0x5C \<Longrightarrow> group_step (c # r) = Group_Char c r"
  by (simp add: group_step_def)

lemma group_step_escaped:
  "c = CHR '','' \<or> c = CHR 0x5C \<Longrightarrow> group_step (CHR 0x5C # c # r) = Group_Char c r"
  by (auto simp: group_step_def octal_digit_def split: list.splits)

lemma split_escape: "split_group d (escape_opt a @ r) = split_group (d @ a) r"
proof (induction a arbitrary: d)
  case (Cons c a)
  then show ?case
    by (cases "c = CHR '','' \<or> c = CHR 0x5C")
      (auto simp: split_group.simps [of d] group_step_plain group_step_escaped)
qed simp

lemma nul_cut_id: "CHR 0x00 \<notin> set a \<Longrightarrow> nul_cut a = a"
  by (auto simp: nul_cut_def takeWhile_eq_all_conv)

fun join_opts :: "string list \<Rightarrow> string" where
  "join_opts [] = []"
| "join_opts (a # as) = escape_opt a @ (if as = [] then [] else CHR '','' # join_opts as)"

lemma add_all_join:
  "s \<noteq> [] \<Longrightarrow> add_all (Some s) as = Some (if as = [] then s else s @ CHR '','' # join_opts as)"
proof (induction as arbitrary: s)
  case (Cons a as)
  then show ?case by (auto simp: fuse_opt_add_opt_escaped_def add_opt_common_def)
qed simp

lemma escape_opt_eq_Nil [simp]: "escape_opt a = [] \<longleftrightarrow> a = []"
  by (cases a) auto

lemma add_all_None:
  "a \<noteq> [] \<Longrightarrow> add_all None (a # as) = Some (join_opts (a # as))"
  by (cases as) (auto simp: fuse_opt_add_opt_escaped_def add_opt_common_def add_all_join)

lemma split_join:
  "as \<noteq> [] \<Longrightarrow> \<forall>a\<in>set as. CHR 0x00 \<notin> set a \<Longrightarrow> split_group [] (join_opts as) = as"
proof (induction as)
  case (Cons a as)
  have "split_group a (CHR '','' # r) = nul_cut a # split_group [] r" and "split_group a [] = [nul_cut a]" for r
    by (simp_all add: split_group.simps [of a] group_step_def)
  with Cons show ?case
    using split_escape [of "[]" a] split_escape [of "[]" a "[]"] by (auto simp: nul_cut_id)
qed simp

text \<open>Empty options at the front leave no trace in the string: there is a comma only after something.\<close>

lemma add_all_empty: "as \<noteq> [] \<Longrightarrow> add_all (Some []) as = add_all None as"
  by (cases as) (simp_all add: fuse_opt_add_opt_escaped_def add_opt_common_def)

lemma add_all_leading:
  "as \<noteq> [] \<Longrightarrow> add_all None as = Some (join_opts (if dropWhile ((=) []) as = [] then [[]] else dropWhile ((=) []) as))"
proof (induction as)
  case (Cons a as)
  have e: "add_all None ([] # as) = add_all (Some []) as" by (simp add: fuse_opt_add_opt_escaped_def add_opt_common_def)
  show ?case
  proof (cases "a = []")
    case True
    then show ?thesis using Cons.IH e add_all_empty [of as] by (cases "as = []") auto
  next
    case False
    then show ?thesis using add_all_None [OF False, of as] by auto
  qed
qed simp

text \<open>
  C18: Building an option string with \<^verbatim>\<open>fuse_opt_add_opt_escaped\<close>, while memory suffices, and parsing it
  as an option group: the parser processes the options that were added, in order, whatever commas,
  backslashes or octal digits they contain, except that empty options added before the first
  non-empty one are lost. If all options are empty one empty option is processed.
\<close>

theorem escaped_options_round_trip:
  assumes "as \<noteq> []" and "\<forall>a\<in>set as. CHR 0x00 \<notin> set a"
  shows "\<exists>s. add_all None as = Some s \<and>
    process_real_option_group ctx [] s = run_opts ctx (if dropWhile ((=) []) as = [] then [[]] else dropWhile ((=) []) as)"
proof -
  define bs where "bs = (if dropWhile ((=) []) as = [] then [[]] else dropWhile ((=) []) as)"
  have "bs \<noteq> []" "\<forall>a\<in>set bs. CHR 0x00 \<notin> set a" using assms(2) set_dropWhileD [of _ "(=) []" as] by (auto simp: bs_def)
  then have "split_group [] (join_opts bs) = bs" by (rule split_join)
  then have "process_real_option_group ctx [] (join_opts bs) = run_opts ctx bs" by (simp only: option_group_split)
  moreover have "add_all None as = Some (join_opts bs)" unfolding bs_def by (rule add_all_leading [OF assms(1)])
  ultimately show ?thesis unfolding bs_def by blast
qed

theorem escaped_options_round_trip_witness:
  "\<forall>ctx :: fuse_opt_context. \<exists>s. add_all None [[], ''a,b'', [], ''c'' @ [CHR 0x5C] @ ''101''] = Some s \<and>
     process_real_option_group ctx [] s = run_opts ctx [''a,b'', [], ''c'' @ [CHR 0x5C] @ ''101'']"
proof
  show "\<exists>s. add_all None [[], ''a,b'', [], ''c'' @ [CHR 0x5C] @ ''101''] = Some s \<and>
      process_real_option_group ctx [] s = run_opts ctx [''a,b'', [], ''c'' @ [CHR 0x5C] @ ''101'']" for ctx
    using escaped_options_round_trip [of "[[], ''a,b'', [], ''c'' @ [CHR 0x5C] @ ''101'']" ctx] by simp
qed

section \<open>Assertions\<close>

text \<open>
  What the parser needs of a callback so that its assertions hold: the callback may append to the
  output arguments, but hands back an argument vector that the library may reallocate.
\<close>

definition ok_args :: "fuse_args \<Rightarrow> bool" where
  "ok_args a \<longleftrightarrow> argv_null a \<or> allocated a"

locale appending_callback =
  fixes pr :: "opt_proc option"
  assumes appends: "pr = Some f \<Longrightarrow> f d a k out = (res, d', out') \<Longrightarrow> ok_args out \<Longrightarrow>
    ok_args out' \<and> argc out \<le> argc out'"
begin

definition sound :: "fuse_opt_context \<Rightarrow> ret \<times> fuse_opt_context \<Rightarrow> bool" where
  "sound c rc \<longleftrightarrow> (case rc of (r, c') \<Rightarrow> cproc c = pr \<longrightarrow> ok_args (outargs c) \<longrightarrow>
     r \<noteq> Aborted \<and> ok_args (outargs c') \<and> argc (outargs c) \<le> argc (outargs c') \<and> cproc c' = pr)"

lemma sound_bind:
  "sound c (r, c') \<Longrightarrow> (r = Ok \<Longrightarrow> sound c' (f c')) \<Longrightarrow> sound c (if r \<noteq> Ok then (r, c') else f c')"
  by (auto simp: sound_def split: prod.splits)

lemma sound_same:
  "outargs c' = outargs c \<Longrightarrow> cproc c' = cproc c \<Longrightarrow> r \<noteq> Aborted \<Longrightarrow> sound c (r, c')"
  by (simp add: sound_def)

lemma sound_from: "sound c' rc \<Longrightarrow> outargs c' = outargs c \<Longrightarrow> cproc c' = cproc c \<Longrightarrow> sound c rc"
  by (simp add: sound_def split: prod.splits)

lemma sound_add_arg: "sound c (add_arg c a)"
  by (auto simp: sound_def add_arg_def fuse_opt_add_arg_def ok_args_def split: prod.splits)

lemma sound_add_opt: "sound c (add_opt c a)"
  by (auto simp: sound_def add_opt_def add_opt_common_def Let_def split: prod.splits if_splits)

lemma sound_next_arg: "sound c (next_arg c)"
  by (auto simp: sound_def next_arg_def)

lemma sound_keep: "sound c (if b then add_opt c a else add_arg c a)"
  by (simp add: sound_add_opt sound_add_arg)

lemma sound_call_proc: "sound c (call_proc c a key b)"
proof (cases "if key \<noteq> FUSE_OPT_KEY_KEEP then cproc c else None")
  case None
  then show ?thesis by (simp add: call_proc_def sound_same sound_keep sound_add_opt sound_add_arg)
next
  case (Some f)
  then have f: "cproc c = Some f" by (auto split: if_splits)
  obtain res d' out' where r: "f (cdata c) a key (outargs c) = (res, d', out')" by (cases "f (cdata c) a key (outargs c)")
  let ?c' = "c\<lparr>cdata := d', outargs := out'\<rparr>"
  have "sound ?c' (if b then add_opt ?c' a else add_arg ?c' a)" by (rule sound_keep)
  then have "sound c (if b then add_opt ?c' a else add_arg ?c' a)" "sound c (Ok, ?c')" "sound c (Failed, ?c')"
    using appends [of f "cdata c" a key "outargs c" res d' out'] f r
    by (auto simp: sound_def split: prod.splits)
  with Some r show ?thesis by (simp add: call_proc_def sound_same Let_def)
qed

lemma sound_process_opt_param: "format \<noteq> [] \<Longrightarrow> hd format = CHR ''%'' \<Longrightarrow> sound c (process_opt_param c v format p)"
  by (auto simp: process_opt_param_def sound_def split: list.splits prod.splits option.splits)

lemma match_template_format:
  "match_template t a = Some k \<Longrightarrow> k \<noteq> 0 \<Longrightarrow> drop (k + 1) t = [] \<or> hd (drop (k + 1) t) = CHR ''%''"
  by (auto simp: match_template_def Let_def split: option.splits if_splits)

lemma find_opt_match: "find_opt os a = Some (o', sep, os') \<Longrightarrow> match_template (templ o') a = Some sep"
  by (induction os) (auto split: option.splits)

lemma sound_process_opt:
  assumes "sep \<noteq> 0 \<Longrightarrow> drop (sep + 1) (templ o') = [] \<or> hd (drop (sep + 1) (templ o')) = CHR ''%''"
  shows "sound c (process_opt c o' sep a b)"
  using assms by (auto simp: process_opt_def Let_def sound_call_proc sound_same intro!: sound_process_opt_param)

lemma sound_process_opt_sep_arg:
  assumes "sep \<noteq> 0 \<Longrightarrow> drop (sep + 1) (templ o') = [] \<or> hd (drop (sep + 1) (templ o')) = CHR ''%''"
  shows "sound c (process_opt_sep_arg c o' sep a b)"
proof -
  obtain r c1 where n: "next_arg c = (r, c1)" by force
  obtain ok m where al: "alloc (cmem c1) = (ok, m)" by force
  have "sound (c1\<lparr>cmem := m\<rparr>) (process_opt (c1\<lparr>cmem := m\<rparr>) o' sep x b)" for x
    using assms by (rule sound_process_opt)
  then have "sound c1 (process_opt (c1\<lparr>cmem := m\<rparr>) o' sep x b)" for x
    by (rule sound_from) simp_all
  then show ?thesis
    using sound_bind [of c r c1 "\<lambda>c1. if ok then process_opt (c1\<lparr>cmem := m\<rparr>) o' sep
        (take sep a @ cargv c1 ! argctr c1) b else (Failed, c1\<lparr>cmem := m\<rparr>)"]
      sound_next_arg [of c] n al sound_same [of "c1\<lparr>cmem := m\<rparr>" c1 Failed]
    by (auto simp: process_opt_sep_arg_def split: if_splits)
qed

lemma sound_process_gopt_loop: "sound c (process_gopt_loop c os a b)"
proof (induction c os a b rule: process_gopt_loop.induct)
  case (1 c os a b)
  show ?case
  proof (cases "find_opt os a")
    case None
    then show ?thesis by (simp add: process_gopt_loop.simps [of c] sound_same)
  next
    case (Some x)
    obtain o' sep os' where x: "x = (o', sep, os')" by (cases x)
    let ?st = "if sep \<noteq> 0 \<and> templ o' ! sep = CHR '' '' \<and> length a \<le> sep
        then process_opt_sep_arg c o' sep a b else process_opt c o' sep a b"
    obtain r1 c1 where st: "?st = (r1, c1)" by (cases ?st)
    have "match_template (templ o') a = Some sep" using Some x by (simp add: find_opt_match)
    from match_template_format [OF this] have "sound c ?st"
      by (simp add: sound_process_opt sound_process_opt_sep_arg)
    with st have s1: "sound c (r1, c1)" by simp
    have "process_gopt_loop c os a b = (if r1 \<noteq> Ok then (r1, c1) else process_gopt_loop c1 os' a b)"
      using Some x st by (subst process_gopt_loop.simps) simp
    with sound_bind [OF s1, of "\<lambda>c1. process_gopt_loop c1 os' a b"] "1.IH" [OF Some x [symmetric] refl st [symmetric]] show ?thesis by simp
  qed
qed

lemma sound_process_gopt: "sound c (process_gopt c a b)"
  by (simp add: process_gopt_def sound_process_gopt_loop sound_call_proc split: option.splits)

lemma sound_run_opts: "sound c (run_opts c as)"
proof (induction as arbitrary: c)
  case (Cons a as)
  obtain r c1 where "process_gopt c a True = (r, c1)" by force
  with sound_process_gopt [of c a True] Cons.IH [of c1] sound_bind [of c r c1 "\<lambda>c1. run_opts c1 as"]
  show ?case by simp
qed (simp add: sound_same)

lemma sound_option_group: "sound c (process_option_group c s)"
proof -
  obtain ok m where al: "alloc (cmem c) = (ok, m)" by force
  have "sound c (run_opts (c\<lparr>cmem := m\<rparr>) as)" for as
    by (rule sound_from [OF sound_run_opts]) simp_all
  with al sound_same [of "c\<lparr>cmem := m\<rparr>" c Failed] show ?thesis
    by (auto simp: process_option_group_def option_group_split)
qed

lemma sound_process_one: "sound c (process_one c a)"
proof -
  obtain r c1 where n: "next_arg c = (r, c1)" by force
  obtain r' c2 where ad: "add_arg c a = (r', c2)" by force
  have "sound c2 (Ok, c2\<lparr>nonopt := k\<rparr>)" for k by (simp add: sound_same)
  then show ?thesis
    using sound_bind [of c r c1 "\<lambda>c1. process_option_group c1 (cargv c1 ! argctr c1)"]
      sound_bind [of c r' c2 "\<lambda>c2. (Ok, c2\<lparr>nonopt := argc (outargs c2)\<rparr>)"]
      sound_next_arg [of c] sound_add_arg [of c a] n ad
    by (auto simp: process_one_def sound_call_proc sound_option_group sound_process_gopt)
qed

lemma sound_opt_parse_loop: "sound c (opt_parse_loop c)"
proof (induction c rule: opt_parse_loop.induct)
  case (1 c)
  show ?case
  proof (cases "argctr c < length (cargv c)")
    case True
    obtain r c1 where p: "process_one c (cargv c ! argctr c) = (r, c1)" by force
    have "sound c1 (opt_parse_loop (c1\<lparr>argctr := argctr c1 + 1\<rparr>))" if "r = Ok"
      by (rule sound_from [OF "1.IH" [OF True p [symmetric]]]) (use that in simp_all)
    with True p sound_process_one [of c "cargv c ! argctr c"]
      sound_bind [of c r c1 "\<lambda>c1. opt_parse_loop (c1\<lparr>argctr := argctr c1 + 1\<rparr>)"]
    show ?thesis by (simp add: opt_parse_loop.simps [of c])
  qed (simp add: opt_parse_loop.simps [of c] sound_same)
qed

lemma insert_arg_sound:
  assumes "ok_args a" and "pos \<le> argc a" and "fuse_opt_insert_arg m a pos x = (r, a', m')"
  shows "r \<noteq> Aborted \<and> ok_args a' \<and> (r = Ok \<longrightarrow> argc a' = argc a + 1)"
  using assms
  by (auto simp: fuse_opt_insert_arg_def fuse_opt_add_arg_def ok_args_def Let_def
      split: prod.splits if_splits)

lemma opt_parse_not_aborted:
  assumes "cproc c = pr" and "ok_args (outargs c)" and "cargv c \<noteq> []" and "copts c = None"
  shows "fst (opt_parse c) \<noteq> Aborted"
proof -
  obtain r0 c0 where 0: "add_arg c (cargv c ! 0) = (r0, c0)" by force
  obtain r1 c1 where 1: "opt_parse_loop (c0\<lparr>argctr := 1\<rparr>) = (r1, c1)" by force
  have s0: "sound c (r0, c0)" using sound_add_arg [of c "cargv c ! 0"] 0 by simp
  have pos: "1 \<le> argc (outargs c0)" if "r0 = Ok"
    using that 0 by (auto simp: add_arg_def fuse_opt_add_arg_def split: prod.splits if_splits)
  have s1: "sound (c0\<lparr>argctr := 1\<rparr>) (r1, c1)" using sound_opt_parse_loop 1 by metis
  have "fst (insert_opts c1) \<noteq> Aborted" if "r0 = Ok"
  proof -
    have ok: "ok_args (outargs c1)" and p1: "1 \<le> argc (outargs c1)"
      using s0 s1 assms that pos by (auto simp: sound_def)
    show ?thesis
    proof (cases "copts c1")
      case (Some os)
      obtain r a m where i1: "fuse_opt_insert_arg (cmem c1) (outargs c1) 1 ''-o'' = (r, a, m)"
        using prod_cases3 by blast
      obtain r' a' m' where i2: "fuse_opt_insert_arg m a 2 os = (r', a', m')"
        using prod_cases3 by blast
      from insert_arg_sound [OF ok p1 i1] insert_arg_sound [OF _ _ i2] p1 Some i1 i2
      show ?thesis by (auto simp: insert_opts_def)
    qed (simp add: insert_opts_def)
  qed
  with 0 1 s0 s1 assms show ?thesis
    by (auto simp: opt_parse_def sound_def split: prod.splits)
qed

end

text \<open>Parsing without a callback meets the requirement.\<close>

interpretation no_callback: appending_callback None
  by unfold_locales simp

section \<open>Arguments the parser keeps\<close>

text \<open>
  What parsing means when no template and no callback claims an option: the options of all
  groups, in order, and the other arguments, in order. \<open>None\<close> is a group option without its
  argument.
\<close>

fun sort_args :: "string list \<Rightarrow> (string list \<times> string list) option" where
  "sort_args [] = Some ([], [])"
| "sort_args (a # as) =
     (if take 2 a = ''-o'' then
        (if drop 2 a \<noteq> [] then
           map_option (\<lambda>(os, xs). (split_group [] (drop 2 a) @ os, xs)) (sort_args as)
         else case as of
           [] \<Rightarrow> None
         | g # as' \<Rightarrow> map_option (\<lambda>(os, xs). (split_group [] g @ os, xs)) (sort_args as'))
      else map_option (\<lambda>(os, xs). (os, a # xs)) (sort_args as))"

text \<open>A context that has an empty table and no callback, and whose allocations succeed.\<close>

definition plain_ctx :: "fuse_opt_context \<Rightarrow> bool" where
  "plain_ctx c \<longleftrightarrow> copt c = [] \<and> cproc c = None \<and> cmem c = [] \<and> ok_args (outargs c) \<and> nonopt c = 0"

definition keeps :: "string list \<Rightarrow> string list \<Rightarrow> fuse_opt_context \<Rightarrow> fuse_opt_context \<Rightarrow> bool" where
  "keeps os xs c c' \<longleftrightarrow> plain_ctx c' \<and> copts c' = add_all (copts c) os \<and>
     argv (outargs c') = argv (outargs c) @ xs \<and> cargv c' = cargv c \<and> cdata c' = cdata c"

lemma plain_gopt:
  assumes "plain_ctx c"
  shows "\<exists>c'. process_gopt c a True = (Ok, c') \<and> keeps [a] [] c c' \<and> argctr c' = argctr c"
    and "\<exists>c'. process_gopt c a False = (Ok, c') \<and> keeps [] [a] c c' \<and> argctr c' = argctr c"
  using assms
  by (auto simp: plain_ctx_def keeps_def process_gopt_def call_proc_def key_defs add_opt_def add_arg_def
      fuse_opt_add_arg_def fuse_opt_add_opt_escaped_def ok_args_def add_opt_common_def Let_def)

lemma plain_run_opts:
  "plain_ctx c \<Longrightarrow> \<exists>c'. run_opts c as = (Ok, c') \<and> keeps as [] c c' \<and> argctr c' = argctr c"
proof (induction as arbitrary: c)
  case (Cons a as)
  obtain c1 where 1: "process_gopt c a True = (Ok, c1)" "keeps [a] [] c c1" "argctr c1 = argctr c"
    using plain_gopt(1) [OF Cons.prems] by blast
  then obtain c' where "run_opts c1 as = (Ok, c')" "keeps as [] c1 c'" "argctr c' = argctr c1"
    using Cons.IH [of c1] by (auto simp: keeps_def)
  with 1 show ?case by (auto simp: keeps_def split: prod.splits)
qed (simp add: keeps_def)

lemma plain_group:
  "plain_ctx c \<Longrightarrow> \<exists>c'. process_option_group c g = (Ok, c') \<and> keeps (split_group [] g) [] c c' \<and>
     argctr c' = argctr c"
proof -
  assume c: "plain_ctx c"
  then have "alloc (cmem c) = (True, cmem c)" by (simp add: plain_ctx_def)
  with plain_run_opts [OF c] show ?thesis
    by (simp add: process_option_group_def option_group_split)
qed

lemma keeps_trans: "keeps os xs c c' \<Longrightarrow> keeps os' xs' c' c'' \<Longrightarrow> keeps (os @ os') (xs @ xs') c c''"
  by (simp add: keeps_def add_all_append)

lemma keeps_argctr [simp]: "keeps os xs (c\<lparr>argctr := n\<rparr>) c' = keeps os xs c c'"
  "keeps os xs c (c'\<lparr>argctr := n\<rparr>) = keeps os xs c c'"
  by (simp_all add: keeps_def plain_ctx_def)

lemma plain_other:
  assumes "plain_ctx c" and "take 2 a \<noteq> ''-o''" and "a \<noteq> ''--''"
  shows "\<exists>c'. process_one c a = (Ok, c') \<and> keeps [] [a] c c' \<and> argctr c' = argctr c"
proof (cases "take 1 a = ''-''")
  case True
  then obtain b where a: "a = CHR ''-'' # b" by (cases a) auto
  with assms(2,3) have "take 1 b \<noteq> ''o''" "b \<noteq> ''-''" by (auto simp: numeral_2_eq_2)
  with a plain_gopt(2) [OF assms(1), of a] assms(1) show ?thesis
    by (simp add: process_one_def plain_ctx_def)
next
  case False
  with assms(1) show ?thesis
    by (auto simp: process_one_def plain_ctx_def keeps_def call_proc_def key_defs add_arg_def
        fuse_opt_add_arg_def ok_args_def Let_def)
qed

lemma loop_step:
  assumes "argctr c < length (cargv c)" and "process_one c (cargv c ! argctr c) = (Ok, c1)"
    and "keeps os xs c c1"
    and "\<exists>c'. opt_parse_loop (c1\<lparr>argctr := argctr c1 + 1\<rparr>) = (Ok, c') \<and> keeps os' xs' c1 c'"
  shows "\<exists>c'. opt_parse_loop c = (Ok, c') \<and> keeps (os @ os') (xs @ xs') c c'"
  using assms by (auto simp: opt_parse_loop.simps [of c] intro: keeps_trans)

lemma plain_loop:
  assumes "plain_ctx c" and "drop (argctr c) (cargv c) = as" and "sort_args as = Some (os, xs)"
    and "''--'' \<notin> set as"
  shows "\<exists>c'. opt_parse_loop c = (Ok, c') \<and> keeps os xs c c'"
  using assms
proof (induction as arbitrary: c os xs rule: sort_args.induct)
  case 1
  then show ?case by (simp add: opt_parse_loop.simps [of c] keeps_def)
next
  case (2 a as)
  have lt: "argctr c < length (cargv c)"
    using "2.prems"(2) by (metis drop_all leI list.distinct(1))
  then have a: "cargv c ! argctr c = a" and as: "drop (argctr c + 1) (cargv c) = as"
    using "2.prems"(2) by (metis Cons_nth_drop_Suc list.inject add.commute plus_1_eq_Suc)+
  note step = loop_step [OF lt, unfolded a]
  show ?case
  proof (cases "take 2 a = ''-o''")
    case False
    then obtain os' xs' where s: "sort_args as = Some (os', xs')" "os = [] @ os'" "xs = [a] @ xs'"
      using "2.prems"(3) by auto
    obtain c1 where 1: "process_one c a = (Ok, c1)" "keeps [] [a] c c1" "argctr c1 = argctr c"
      using plain_other [OF "2.prems"(1) False] "2.prems"(4) by auto
    then have "\<exists>c'. opt_parse_loop (c1\<lparr>argctr := argctr c1 + 1\<rparr>) = (Ok, c') \<and> keeps os' xs' c1 c'"
      using "2.IH"(3) [OF False, of "c1\<lparr>argctr := argctr c1 + 1\<rparr>" os' xs'] "2.prems"(4) as s(1)
      by (simp add: keeps_def plain_ctx_def)
    from step [OF 1(1,2) this] s show ?thesis by simp
  next
    case True
    then have dash: "take 1 a = ''-''" "take 1 (drop 1 a) = ''o''"
      by (cases a; cases "tl a"; simp add: numeral_2_eq_2)+
    show ?thesis
    proof (cases "drop 2 a = []")
      case False
      then obtain os' xs' where s: "sort_args as = Some (os', xs')"
        "os = split_group [] (drop 2 a) @ os'" "xs = [] @ xs'"
        using "2.prems"(3) True by auto
      obtain c1 where 1: "process_one c a = (Ok, c1)" "keeps (split_group [] (drop 2 a)) [] c c1"
        "argctr c1 = argctr c"
        using plain_group [OF "2.prems"(1), of "drop 2 a"] dash False "2.prems"(1)
        by (auto simp: process_one_def plain_ctx_def)
      then have "\<exists>c'. opt_parse_loop (c1\<lparr>argctr := argctr c1 + 1\<rparr>) = (Ok, c') \<and> keeps os' xs' c1 c'"
        using "2.IH"(1) [OF True False, of "c1\<lparr>argctr := argctr c1 + 1\<rparr>" os' xs'] "2.prems"(4) as s(1)
        by (simp add: keeps_def plain_ctx_def)
      from step [OF 1(1,2) this] s show ?thesis by simp
    next
      case nil: True
      then obtain g as' os' xs' where s: "as = g # as'" "sort_args as' = Some (os', xs')"
        "os = split_group [] g @ os'" "xs = [] @ xs'"
        using "2.prems"(3) True by (cases as) auto
      let ?c = "c\<lparr>argctr := argctr c + 1\<rparr>"
      have lt2: "argctr c + 1 < length (cargv c)" and g: "cargv c ! (argctr c + 1) = g"
        and as': "drop (argctr c + 2) (cargv c) = as'"
        using as s(1) by (metis drop_all leI list.distinct(1),
            metis drop_all leI list.distinct(1) hd_drop_conv_nth list.sel(1),
            metis add_2_eq_Suc' add.commute drop_Suc list.sel(3) plus_1_eq_Suc tl_drop drop_drop)
      have "plain_ctx ?c" using "2.prems"(1) by (simp add: plain_ctx_def)
      then obtain c1 where 1: "process_one c a = (Ok, c1)" "keeps (split_group [] g) [] c c1"
        "argctr c1 = argctr c + 1"
        using plain_group [of ?c g] dash nil lt2 g "2.prems"(1)
        by (auto simp: process_one_def plain_ctx_def next_arg_def)
      then have "\<exists>c'. opt_parse_loop (c1\<lparr>argctr := argctr c1 + 1\<rparr>) = (Ok, c') \<and> keeps os' xs' c1 c'"
        using "2.IH"(2) [OF True _ s(1), of "c1\<lparr>argctr := argctr c1 + 1\<rparr>" os' xs'] "2.prems"(4) as' s nil
        by (simp add: keeps_def plain_ctx_def)
      from step [OF 1(1,2) this] s show ?thesis by simp
    qed
  qed
qed

lemma insert_arg_ok:
  assumes "ok_args a" and "pos \<le> argc a"
  shows "fuse_opt_insert_arg [] a pos x =
    (Ok, a\<lparr>argv := take pos (argv a) @ x # drop pos (argv a), argv_null := False, allocated := True\<rparr>, [])"
proof -
  let ?v = "argv a @ [x]"
  have "(take (pos + 1) ?v @ take (argc a - pos) (drop pos ?v))[pos := x] = take pos (argv a) @ x # drop pos (argv a)"
    if "pos < argc a"
    using that by (simp add: list_update_append upd_conv_take_nth_drop take_Suc_conv_app_nth min_def nth_append)
  with assms show ?thesis
    by (auto simp: fuse_opt_insert_arg_def fuse_opt_add_arg_def ok_args_def Let_def nth_append)
qed

text \<open>
  Without matching templates and without a callback the parser only normalises its arguments:
  the program name comes first, then one \<^verbatim>\<open>-o\<close> group that collects the options of all
  groups in their order, re-escaped, and then all other arguments in their order. Nothing is
  stored in the caller's data.
\<close>

theorem fuse_opt_parse_collects_groups:
  assumes "argv a = prog # as" and "\<not> argv_null a" and "sort_args as = Some (os, xs)" and "''--'' \<notin> set as"
  shows "\<exists>a'. fuse_opt_parse (Some a) dat [] None scan [] = (Ok, Some a', dat, []) \<and>
    argv a' = prog # (case add_all None os of None \<Rightarrow> [] | Some s \<Rightarrow> [''-o'', s]) @ xs"
proof -
  let ?c = "\<lparr>cdata = dat, copt = [], cproc = None, csscanf = scan, argctr = 0, cargv = argv a,
    outargs = null_args, copts = None, nonopt = 0, cmem = []\<rparr>"
  obtain c0 where 0: "add_arg ?c prog = (Ok, c0)" "keeps [] [prog] ?c c0"
    by (auto simp: add_arg_def fuse_opt_add_arg_def null_args_def keeps_def plain_ctx_def ok_args_def)
  then have "plain_ctx (c0\<lparr>argctr := 1\<rparr>)" "drop (argctr (c0\<lparr>argctr := 1\<rparr>)) (cargv (c0\<lparr>argctr := 1\<rparr>)) = as"
    using assms(1) by (simp_all add: keeps_def plain_ctx_def)
  from plain_loop [OF this assms(3,4)] obtain c1 where
    1: "opt_parse_loop (c0\<lparr>argctr := 1\<rparr>) = (Ok, c1)" "keeps os xs c0 c1" by auto
  with 0 have c1: "argv (outargs c1) = prog # xs" "ok_args (outargs c1)" "cmem c1 = []" "nonopt c1 = 0"
    "copts c1 = add_all None os" "cdata c1 = dat"
    by (simp_all add: keeps_def plain_ctx_def null_args_def)
  show ?thesis
  proof (cases "add_all None os")
    case None
    with 0 1 c1 assms(1,2) show ?thesis
      by (simp add: fuse_opt_parse_def opt_parse_def insert_opts_def drop_separator_def)
  next
    case (Some s)
    have "\<exists>c2. insert_opts c1 = (Ok, c2) \<and> argv (outargs c2) = prog # ''-o'' # s # xs \<and> nonopt c2 = 0 \<and>
        cdata c2 = dat \<and> cmem c2 = []"
      using Some c1 by (simp add: insert_opts_def insert_arg_ok ok_args_def)
    with 0 1 Some assms(1,2) show ?thesis
      by (auto simp: fuse_opt_parse_def opt_parse_def drop_separator_def)
  qed
qed

theorem fuse_opt_parse_collects_groups_witness:
  "\<exists>a'. fuse_opt_parse (Some \<lparr>argv = [''p'', ''-oab,c'', ''mnt''], argv_null = False, allocated = False\<rparr>)
       Map.empty [] None (\<lambda>_ _. None) [] = (Ok, Some a', Map.empty, []) \<and>
     argv a' = [''p'', ''-o'', ''ab,c'', ''mnt'']"
proof -
  have sp: "split_group [] ''ab,c'' = [''ab'', ''c'']"
    by (simp add: split_group.simps group_step_def nul_cut_def)
  have "sort_args [''-oab,c'', ''mnt''] = Some ([''ab'', ''c''], [''mnt''])"
    using sp by simp
  from fuse_opt_parse_collects_groups [OF _ _ this,
      of "\<lparr>argv = [''p'', ''-oab,c'', ''mnt''], argv_null = False, allocated = False\<rparr>" "''p''" Map.empty "\<lambda>_ _. None"]
  show ?thesis by (simp add: fuse_opt_add_opt_escaped_def add_opt_common_def)
qed

text \<open>
  A separator at the end of the command line is removed from the output only if no option is
  kept: after the kept options have been inserted, the position recorded for the separator no longer
  matches the number of arguments, and the separator stays.
\<close>

theorem trailing_separator_kept:
  "fuse_opt_parse (Some \<lparr>argv = [''p'', ''--''], argv_null = False, allocated = False\<rparr>)
      Map.empty [] None scan [] =
      (Ok, Some \<lparr>argv = [''p''], argv_null = False, allocated = True\<rparr>, Map.empty, []) \<and>
   fuse_opt_parse (Some \<lparr>argv = [''p'', ''-oro'', ''--''], argv_null = False, allocated = False\<rparr>)
      Map.empty [] None scan [] =
      (Ok, Some \<lparr>argv = [''p'', ''-o'', ''ro'', ''--''], argv_null = False, allocated = True\<rparr>, Map.empty, [])"
  by (simp add: fuse_opt_parse_def opt_parse_def opt_parse_loop.simps process_one_def add_arg_def
      fuse_opt_add_arg_def null_args_def insert_opts_def drop_separator_def process_option_group_def
      process_real_option_group.simps group_step_def nul_cut_def process_gopt_def call_proc_def key_defs
      add_opt_def add_opt_common_def fuse_opt_insert_arg_def next_arg_def)

end
