(* ===== verification/Helper.thy ===== *)
theory Helper
  imports FuseOpt
begin

text \<open>
  The command line of a file system daemon (\<^verbatim>\<open>lib/helper.c\<close>): the table
  \<^verbatim>\<open>fuse_helper_opts\<close>, its callback, and \<^verbatim>\<open>fuse_parse_cmdline\<close>, built on
  the option parser. \<^verbatim>\<open>realpath\<close> and the allocation inside the callback are
  parameters.
\<close>

section \<open>The options structure\<close>

text \<open>Offsets of the members of \<^verbatim>\<open>struct fuse_cmdline_opts\<close> on LP64.\<close>

definition off_singlethread :: u64 where "off_singlethread = 0"
definition off_foreground :: u64 where "off_foreground = 4"
definition off_debug :: u64 where "off_debug = 8"
definition off_nodefault_subtype :: u64 where "off_nodefault_subtype = 12"
definition off_mountpoint :: u64 where "off_mountpoint = 16"
definition off_show_version :: u64 where "off_show_version = 24"
definition off_show_help :: u64 where "off_show_help = 28"
definition off_clone_fd :: u64 where "off_clone_fd = 32"
definition off_max_idle_threads :: u64 where "off_max_idle_threads = 36"
definition off_max_threads :: u64 where "off_max_threads = 40"

lemmas off_defs = off_singlethread_def off_foreground_def off_debug_def off_nodefault_subtype_def
  off_mountpoint_def off_show_version_def off_show_help_def off_clone_fd_def
  off_max_idle_threads_def off_max_threads_def

definition FUSE_HELPER_OPT :: "string \<Rightarrow> u64 \<Rightarrow> fuse_opt" where
  "FUSE_HELPER_OPT t p = \<lparr>templ = t, offset = p, ovalue = 1\<rparr>"

definition fuse_helper_opts :: "fuse_opt list" where
  "fuse_helper_opts =
    [FUSE_HELPER_OPT ''-h'' off_show_help,
     FUSE_HELPER_OPT ''--help'' off_show_help,
     FUSE_HELPER_OPT ''-V'' off_show_version,
     FUSE_HELPER_OPT ''--version'' off_show_version,
     FUSE_HELPER_OPT ''-d'' off_debug,
     FUSE_HELPER_OPT ''debug'' off_debug,
     FUSE_HELPER_OPT ''-d'' off_foreground,
     FUSE_HELPER_OPT ''debug'' off_foreground,
     FUSE_OPT_KEY ''-d'' FUSE_OPT_KEY_KEEP,
     FUSE_OPT_KEY ''debug'' FUSE_OPT_KEY_KEEP,
     FUSE_HELPER_OPT ''-f'' off_foreground,
     FUSE_HELPER_OPT ''-s'' off_singlethread,
     FUSE_HELPER_OPT ''fsname='' off_nodefault_subtype,
     FUSE_OPT_KEY ''fsname='' FUSE_OPT_KEY_KEEP,
     FUSE_HELPER_OPT ''subtype='' off_nodefault_subtype,
     FUSE_OPT_KEY ''subtype='' FUSE_OPT_KEY_KEEP,
     FUSE_HELPER_OPT ''clone_fd'' off_clone_fd,
     FUSE_HELPER_OPT ''max_idle_threads=%u'' off_max_idle_threads,
     FUSE_HELPER_OPT ''max_threads=%u'' off_max_threads]"

section \<open>Mount points that are file descriptors\<close>

text \<open>
  \<^verbatim>\<open>fuse_mnt_parse_fuse_fd\<close> (\<^verbatim>\<open>lib/mount_util.c\<close>): the whole string must be
  \<^verbatim>\<open>/dev/fd/\<close> and an unsigned number as \<^verbatim>\<open>%u\<close> reads it, that is with
  optional white space and sign, saturated at the largest \<^verbatim>\<open>unsigned long\<close> and stored in
  32 bits.
\<close>

definition is_space :: "char \<Rightarrow> bool" where
  "is_space c \<longleftrightarrow> of_char c \<in> {32 :: nat, 9, 10, 11, 12, 13}"

definition is_digit :: "char \<Rightarrow> bool" where
  "is_digit c \<longleftrightarrow> 48 \<le> (of_char c :: nat) \<and> (of_char c :: nat) \<le> 57"

fun digits_value :: "nat \<Rightarrow> string \<Rightarrow> nat" where
  "digits_value acc [] = acc"
| "digits_value acc (c # cs) = digits_value (acc * 10 + (of_char c - 48)) cs"

definition fuse_mnt_parse_fuse_fd :: "string \<Rightarrow> int" where
  "fuse_mnt_parse_fuse_fd mountpoint =
     (if take 8 mountpoint \<noteq> ''/dev/fd/'' then -1
      else
        let rest = dropWhile is_space (drop 8 mountpoint);
            neg = (take 1 rest = ''-'');
            ds = (if take 1 rest = ''-'' \<or> take 1 rest = ''+'' then drop 1 rest else rest)
        in if ds \<noteq> [] \<and> list_all is_digit ds then
             let v = min (digits_value 0 ds) (2 ^ 64 - 1)
             in sint (word_of_int (if neg then - int v else int v) :: u32)
           else -1)"

section \<open>The callback\<close>

definition fuse_helper_opt_proc :: "(string \<Rightarrow> string option) \<Rightarrow> schedule \<Rightarrow> opt_proc" where
  "fuse_helper_opt_proc realpath m d arg key out =
     (if key = FUSE_OPT_KEY_NONOPT then
        (case d off_mountpoint of
           Some _ \<Rightarrow> (-1, d, out)
         | None \<Rightarrow>
             (case (if fuse_mnt_parse_fuse_fd arg \<noteq> -1 then Some arg else realpath arg) of
                None \<Rightarrow> (-1, d, out)
              | Some path \<Rightarrow>
                  (case fuse_opt_add_opt m None path of (r, s, _) \<Rightarrow>
                     if r = Ok then (0, d(off_mountpoint := map_option VStr s), out) else (-1, d, out))))
      else (1, d, out))"

interpretation helper: appending_callback "Some (fuse_helper_opt_proc realpath m)" for realpath m
  by unfold_locales (auto simp: fuse_helper_opt_proc_def split: if_splits option.splits prod.splits)

section \<open>fuse_parse_cmdline\<close>

definition default_basename :: "string \<Rightarrow> string" where
  "default_basename progname =
     (if CHR ''/'' \<notin> set progname then progname
      else
        let tail = rev (takeWhile (\<lambda>c. c \<noteq> CHR ''/'') (rev progname))
        in if tail = [] then ''/'' else tail)"

definition add_default_subtype :: "schedule \<Rightarrow> string \<Rightarrow> fuse_args \<Rightarrow> ret \<times> fuse_args \<times> schedule" where
  "add_default_subtype m progname args =
     (case alloc m of (ok, m') \<Rightarrow>
        if \<not> ok then (Failed, args, m')
        else fuse_opt_add_arg m' args (''-osubtype='' @ default_basename progname))"

definition cmdline_defaults :: optdata where
  "cmdline_defaults =
     [off_singlethread \<mapsto> VInt 0, off_foreground \<mapsto> VInt 0, off_debug \<mapsto> VInt 0,
      off_nodefault_subtype \<mapsto> VInt 0, off_show_version \<mapsto> VInt 0, off_show_help \<mapsto> VInt 0,
      off_clone_fd \<mapsto> VInt 0, off_max_idle_threads \<mapsto> VInt 4294967295, off_max_threads \<mapsto> VInt 10]"

definition fuse_parse_cmdline ::
  "(string \<Rightarrow> string option) \<Rightarrow> (string \<Rightarrow> string \<Rightarrow> optval option) \<Rightarrow> schedule \<Rightarrow> fuse_args \<Rightarrow> schedule \<Rightarrow>
   ret \<times> fuse_args \<times> optdata" where
  "fuse_parse_cmdline realpath scan m0 args m =
     (case fuse_opt_parse (Some args) cmdline_defaults fuse_helper_opts
             (Some (fuse_helper_opt_proc realpath m0)) scan m of
        (r, a, d, m') \<Rightarrow>
          let args' = (case a of Some x \<Rightarrow> x | None \<Rightarrow> args) in
          if r \<noteq> Ok then (r, args', d)
          else if d off_nodefault_subtype = Some (VInt 0) then
            (case argv args' of
               [] \<Rightarrow> (Aborted, args', d)
             | progname # _ \<Rightarrow>
                 (case add_default_subtype m' progname args' of (r2, args2, _) \<Rightarrow> (r2, args2, d)))
          else (Ok, args', d))"

section \<open>Properties\<close>

lemma helper_nonopt:
  assumes "cproc c = Some (fuse_helper_opt_proc realpath [])" and "nonopt c = 0" and "take 1 arg \<noteq> ''-''"
    and "cdata c off_mountpoint = None" and "fuse_mnt_parse_fuse_fd arg = -1" and "realpath arg = Some path"
  shows "process_one c arg = (Ok, c\<lparr>cdata := (cdata c)(off_mountpoint \<mapsto> VStr path)\<rparr>)"
  using assms
  by (simp add: process_one_def call_proc_def key_defs fuse_helper_opt_proc_def fuse_opt_add_opt_def
      add_opt_common_def Let_def)

text \<open>
  A command line of the program and a mount point sets the mount point to its resolved path,
  leaves every other option at its default and passes on the program name with the default subtype,
  the last component of the program's path.
\<close>

theorem cmdline_mount_only:
  assumes "argv args = [prog, mnt]" and "\<not> argv_null args" and "take 1 mnt \<noteq> ''-''"
    and "fuse_mnt_parse_fuse_fd mnt = -1" and "realpath mnt = Some path"
  shows "\<exists>args'. fuse_parse_cmdline realpath scan [] args [] =
      (Ok, args', cmdline_defaults(off_mountpoint \<mapsto> VStr path)) \<and>
    argv args' = [prog, ''-osubtype='' @ default_basename prog]"
proof -
  let ?pr = "fuse_helper_opt_proc realpath []"
  let ?c = "\<lparr>cdata = cmdline_defaults, copt = fuse_helper_opts, cproc = Some ?pr, csscanf = scan, argctr = 1,
    cargv = [prog, mnt], outargs = \<lparr>argv = [prog], argv_null = False, allocated = True\<rparr>,
    copts = None, nonopt = 0, cmem = []\<rparr>"
  have mp: "cmdline_defaults off_mountpoint = None"
    by (simp add: cmdline_defaults_def off_defs)
  have one: "process_one ?c mnt = (Ok, ?c\<lparr>cdata := cmdline_defaults(off_mountpoint \<mapsto> VStr path)\<rparr>)"
    using assms(3-5) mp by (subst helper_nonopt [where path = path and realpath = realpath]) simp_all
  have loop: "opt_parse_loop ?c = (Ok, ?c\<lparr>argctr := 2, cdata := cmdline_defaults(off_mountpoint \<mapsto> VStr path)\<rparr>)"
    using one by (simp add: opt_parse_loop.simps numeral_2_eq_2)
  have parse: "fuse_opt_parse (Some args) cmdline_defaults fuse_helper_opts (Some ?pr) scan [] =
      (Ok, Some \<lparr>argv = [prog], argv_null = False, allocated = True\<rparr>,
       cmdline_defaults(off_mountpoint \<mapsto> VStr path), [])"
    using assms(1,2) loop
    by (simp add: fuse_opt_parse_def opt_parse_def add_arg_def fuse_opt_add_arg_def null_args_def
        insert_opts_def drop_separator_def)
  have "(cmdline_defaults(off_mountpoint \<mapsto> VStr path)) off_nodefault_subtype = Some (VInt 0)"
    by (simp add: cmdline_defaults_def off_defs)
  with parse show ?thesis
    by (simp add: fuse_parse_cmdline_def add_default_subtype_def fuse_opt_add_arg_def)
qed

theorem cmdline_mount_only_witness:
  "\<exists>args'. fuse_parse_cmdline Some (\<lambda>_ _. None) []
       \<lparr>argv = [''/bin/fs'', ''mnt''], argv_null = False, allocated = False\<rparr> [] =
      (Ok, args', cmdline_defaults(off_mountpoint \<mapsto> VStr ''mnt'')) \<and>
    argv args' = [''/bin/fs'', ''-osubtype=fs'']"
  using cmdline_mount_only [of "\<lparr>argv = [''/bin/fs'', ''mnt''], argv_null = False, allocated = False\<rparr>"
      "''/bin/fs''" "''mnt''" Some "''mnt''" "\<lambda>_ _. None"]
  by (simp add: fuse_mnt_parse_fuse_fd_def default_basename_def)

section \<open>Assertions of the parser\<close>

text \<open>
  C36: The parser never runs into one of its assertions. For every argument vector, option table and
  pattern of failing allocations, with no callback or with one that, given output arguments the
  library may reallocate, returns such arguments again and never takes any away (which
  \<^verbatim>\<open>include/fuse_opt.h\<close> does not ask for, and which the callback of \<^verbatim>\<open>lib/helper.c\<close> satisfies), it
  returns success or failure; on failure the arguments are the caller's, unchanged.
\<close>

theorem fuse_opt_parse_no_assertion:
  assumes "appending_callback pr"
  shows "fst (fuse_opt_parse args dat os pr scan m) \<noteq> Aborted \<and>
    (fst (fuse_opt_parse args dat os pr scan m) = Failed \<longrightarrow>
     fst (snd (fuse_opt_parse args dat os pr scan m)) = args)"
proof (cases args)
  case (Some a)
  let ?c = "\<lparr>cdata = dat, copt = os, cproc = pr, csscanf = scan, argctr = 0, cargv = argv a,
    outargs = null_args, copts = None, nonopt = 0, cmem = m\<rparr>"
  have "fst (opt_parse ?c) \<noteq> Aborted" if "argv a \<noteq> []"
    using that by (intro appending_callback.opt_parse_not_aborted [OF assms]) (auto simp: ok_args_def null_args_def)
  with Some show ?thesis by (auto simp: fuse_opt_parse_def Let_def split: prod.splits)
qed (simp add: fuse_opt_parse_def)

theorem fuse_opt_parse_no_assertion_witness:
  "fst (fuse_opt_parse (Some \<lparr>argv = [''prog'', ''-f'', ''-o''], argv_null = False, allocated = False\<rparr>)
     cmdline_defaults fuse_helper_opts (Some (fuse_helper_opt_proc (\<lambda>p. Some p) [])) (\<lambda>_ _. None) [True, False]) \<noteq> Aborted"
  using fuse_opt_parse_no_assertion [OF helper.appending_callback_axioms] by blast

end
