(* ===== verification/Buffer.thy ===== *)
theory Buffer
  imports Prelude
begin

text \<open>
  Buffer vectors of libfuse (\<^verbatim>\<open>lib/buffer.c\<close>): copying between memory and files,
  with short reads and writes, retries and the bounce buffer that stands in for
  \<^verbatim>\<open>splice\<close>. Sizes are natural numbers; the places where \<^verbatim>\<open>size_t\<close> wraps or
  saturates are written out.
\<close>

unbundle bit_operations_syntax

section \<open>Buffers\<close>

definition FUSE_BUF_IS_FD :: u32 where "FUSE_BUF_IS_FD = 2"
definition FUSE_BUF_FD_SEEK :: u32 where "FUSE_BUF_FD_SEEK = 4"
definition FUSE_BUF_FD_RETRY :: u32 where "FUSE_BUF_FD_RETRY = 8"

definition FUSE_BUF_NO_SPLICE :: u32 where "FUSE_BUF_NO_SPLICE = 2"
definition FUSE_BUF_FORCE_SPLICE :: u32 where "FUSE_BUF_FORCE_SPLICE = 4"
definition FUSE_BUF_SPLICE_MOVE :: u32 where "FUSE_BUF_SPLICE_MOVE = 8"
definition FUSE_BUF_SPLICE_NONBLOCK :: u32 where "FUSE_BUF_SPLICE_NONBLOCK = 16"

definition SPLICE_F_MOVE :: u32 where "SPLICE_F_MOVE = 1"
definition SPLICE_F_NONBLOCK :: u32 where "SPLICE_F_NONBLOCK = 2"

definition BUF_EINVAL :: int where "BUF_EINVAL = 22"

definition has_flag :: "u32 \<Rightarrow> u32 \<Rightarrow> bool" where
  "has_flag flags f \<longleftrightarrow> flags AND f \<noteq> 0"

record fuse_buf =
  bsize :: nat
  bflags :: u32
  bmem :: nat
  bfd :: int
  bpos :: int

record fuse_bufvec =
  bv_idx :: nat
  bv_off :: nat
  bv_buf :: "fuse_buf list"

abbreviation bv_count :: "fuse_bufvec \<Rightarrow> nat" where
  "bv_count bv \<equiv> length (bv_buf bv)"

definition SIZE_MAX :: nat where "SIZE_MAX = 2 ^ 64 - 1"

fun buf_size_loop :: "fuse_buf list \<Rightarrow> nat \<Rightarrow> nat" where
  "buf_size_loop [] sz = sz"
| "buf_size_loop (b # bs) sz =
     (if bsize b \<ge> SIZE_MAX - sz then SIZE_MAX else buf_size_loop bs (sz + bsize b))"

definition fuse_buf_size :: "fuse_bufvec \<Rightarrow> nat" where
  "fuse_buf_size bv = buf_size_loop (bv_buf bv) 0"

definition min_size :: "nat \<Rightarrow> nat \<Rightarrow> nat" where
  "min_size s1 s2 = (if s1 < s2 then s1 else s2)"

section \<open>Memory and files\<close>

text \<open>
  Memory is addressed by byte. The system calls act on the files \<open>'w\<close> and return the error
  number, or the bytes read, or the number of bytes written.
\<close>

record 'w io =
  io_read :: "int \<Rightarrow> nat \<Rightarrow> 'w \<Rightarrow> (int + u8 list) \<times> 'w"
  io_pread :: "int \<Rightarrow> nat \<Rightarrow> int \<Rightarrow> 'w \<Rightarrow> (int + u8 list) \<times> 'w"
  io_write :: "int \<Rightarrow> u8 list \<Rightarrow> 'w \<Rightarrow> (int + nat) \<times> 'w"
  io_pwrite :: "int \<Rightarrow> u8 list \<Rightarrow> int \<Rightarrow> 'w \<Rightarrow> (int + nat) \<times> 'w"
  io_splice :: "int \<Rightarrow> int option \<Rightarrow> int \<Rightarrow> int option \<Rightarrow> nat \<Rightarrow> u32 \<Rightarrow> 'w \<Rightarrow> (int + nat) \<times> 'w"

record 'w world =
  heap :: "nat \<Rightarrow> u8"
  files :: 'w

definition load :: "nat \<Rightarrow> nat \<Rightarrow> (nat \<Rightarrow> u8) \<Rightarrow> u8 list" where
  "load a n h = map h [a..<a + n]"

definition store :: "nat \<Rightarrow> u8 list \<Rightarrow> (nat \<Rightarrow> u8) \<Rightarrow> nat \<Rightarrow> u8" where
  "store a bs h = (\<lambda>i. if a \<le> i \<and> i < a + length bs then bs ! (i - a) else h i)"

lemma load_simps [simp]: "length (load a n h) = n" "i < n \<Longrightarrow> load a n h ! i = h (a + i)"
  by (simp_all add: load_def)

text \<open>\<^verbatim>\<open>fuse_buf_write\<close>, the loop with its variables \<^verbatim>\<open>copied\<close>, offsets and \<^verbatim>\<open>len\<close>.\<close>

function buf_write_loop ::
  "'w io \<Rightarrow> fuse_buf \<Rightarrow> nat \<Rightarrow> fuse_buf \<Rightarrow> nat \<Rightarrow> nat \<Rightarrow> nat \<Rightarrow> 'w world \<Rightarrow> int \<times> 'w world" where
  "buf_write_loop io dst dst_off src src_off len copied w =
     (if len = 0 then (int copied, w)
      else
        let bs = load (bmem src + src_off) len (heap w) in
        case (if has_flag (bflags dst) FUSE_BUF_FD_SEEK
              then io_pwrite io (bfd dst) bs (bpos dst + int dst_off) (files w)
              else io_write io (bfd dst) bs (files w)) of
          (Inl e, f) \<Rightarrow> (if copied = 0 then - e else int copied, w\<lparr>files := f\<rparr>)
        | (Inr res, f) \<Rightarrow>
            if res = 0 then (int copied, w\<lparr>files := f\<rparr>)
            else if \<not> has_flag (bflags dst) FUSE_BUF_FD_RETRY then (int (copied + res), w\<lparr>files := f\<rparr>)
            else buf_write_loop io dst (dst_off + res) src (src_off + res) (len - res) (copied + res) (w\<lparr>files := f\<rparr>))"
  by pat_completeness auto
termination by (relation "measure (\<lambda>(io, dst, dst_off, src, src_off, len, copied, w). len)") auto

declare buf_write_loop.simps [simp del]

definition fuse_buf_write ::
  "'w io \<Rightarrow> fuse_buf \<Rightarrow> nat \<Rightarrow> fuse_buf \<Rightarrow> nat \<Rightarrow> nat \<Rightarrow> 'w world \<Rightarrow> int \<times> 'w world" where
  "fuse_buf_write io dst dst_off src src_off len w = buf_write_loop io dst dst_off src src_off len 0 w"

function buf_read_loop ::
  "'w io \<Rightarrow> fuse_buf \<Rightarrow> nat \<Rightarrow> fuse_buf \<Rightarrow> nat \<Rightarrow> nat \<Rightarrow> nat \<Rightarrow> 'w world \<Rightarrow> int \<times> 'w world" where
  "buf_read_loop io dst dst_off src src_off len copied w =
     (if len = 0 then (int copied, w)
      else
        case (if has_flag (bflags src) FUSE_BUF_FD_SEEK
              then io_pread io (bfd src) len (bpos src + int src_off) (files w)
              else io_read io (bfd src) len (files w)) of
          (Inl e, f) \<Rightarrow> (if copied = 0 then - e else int copied, w\<lparr>files := f\<rparr>)
        | (Inr bs, f) \<Rightarrow>
            let w' = w\<lparr>heap := store (bmem dst + dst_off) bs (heap w), files := f\<rparr>; res = length bs in
            if res = 0 then (int copied, w')
            else if \<not> has_flag (bflags src) FUSE_BUF_FD_RETRY then (int (copied + res), w')
            else buf_read_loop io dst (dst_off + res) src (src_off + res) (len - res) (copied + res) w')"
  by pat_completeness auto
termination by (relation "measure (\<lambda>(io, dst, dst_off, src, src_off, len, copied, w). len)") auto

declare buf_read_loop.simps [simp del]

definition fuse_buf_read ::
  "'w io \<Rightarrow> fuse_buf \<Rightarrow> nat \<Rightarrow> fuse_buf \<Rightarrow> nat \<Rightarrow> nat \<Rightarrow> 'w world \<Rightarrow> int \<times> 'w world" where
  "fuse_buf_read io dst dst_off src src_off len w = buf_read_loop io dst dst_off src src_off len 0 w"

text \<open>
  \<^verbatim>\<open>fuse_buf_fd_to_fd\<close> goes through an array of 4096 bytes on the stack, whose address
  is \<open>stk\<close>.
\<close>

definition bounce :: "nat \<Rightarrow> fuse_buf" where
  "bounce stk = \<lparr>bsize = 4096, bflags = 0, bmem = stk, bfd = 0, bpos = 0\<rparr>"

function fd_to_fd_loop ::
  "'w io \<Rightarrow> nat \<Rightarrow> fuse_buf \<Rightarrow> nat \<Rightarrow> fuse_buf \<Rightarrow> nat \<Rightarrow> nat \<Rightarrow> nat \<Rightarrow> 'w world \<Rightarrow> int \<times> 'w world" where
  "fd_to_fd_loop io stk dst dst_off src src_off len copied w =
     (if len = 0 then (int copied, w)
      else
        let this_len = min_size 4096 len in
        case fuse_buf_read io (bounce stk) 0 src src_off this_len w of
          (res, w1) \<Rightarrow>
            if res < 0 then (if copied = 0 then res else int copied, w1)
            else if res = 0 then (int copied, w1)
            else case fuse_buf_write io dst dst_off (bounce stk) 0 (nat res) w1 of
              (res2, w2) \<Rightarrow>
                if res2 < 0 then (if copied = 0 then res2 else int copied, w2)
                else if res2 = 0 then (int copied, w2)
                else if nat res2 < this_len then (int (copied + nat res2), w2)
                else fd_to_fd_loop io stk dst (dst_off + nat res2) src (src_off + nat res2)
                       (len - nat res2) (copied + nat res2) w2)"
  by pat_completeness auto
termination by (relation "measure (\<lambda>(io, stk, dst, dst_off, src, src_off, len, copied, w). len)") auto

declare fd_to_fd_loop.simps [simp del]

definition fuse_buf_fd_to_fd ::
  "'w io \<Rightarrow> nat \<Rightarrow> fuse_buf \<Rightarrow> nat \<Rightarrow> fuse_buf \<Rightarrow> nat \<Rightarrow> nat \<Rightarrow> 'w world \<Rightarrow> int \<times> 'w world" where
  "fuse_buf_fd_to_fd io stk dst dst_off src src_off len w = fd_to_fd_loop io stk dst dst_off src src_off len 0 w"

text \<open>\<^verbatim>\<open>fuse_buf_splice\<close>: the kernel advances the positions it is given.\<close>

definition splice_flags :: "u32 \<Rightarrow> u32" where
  "splice_flags flags =
     (if has_flag flags FUSE_BUF_SPLICE_MOVE then SPLICE_F_MOVE else 0) OR
     (if has_flag flags FUSE_BUF_SPLICE_NONBLOCK then SPLICE_F_NONBLOCK else 0)"

function splice_loop ::
  "'w io \<Rightarrow> nat \<Rightarrow> fuse_buf \<Rightarrow> nat \<Rightarrow> fuse_buf \<Rightarrow> nat \<Rightarrow> u32 \<Rightarrow>
   int option \<Rightarrow> int option \<Rightarrow> nat \<Rightarrow> nat \<Rightarrow> 'w world \<Rightarrow> int \<times> 'w world" where
  "splice_loop io stk dst dst_off src src_off flags srcpos dstpos len copied w =
     (if len = 0 then (int copied, w)
      else case io_splice io (bfd src) srcpos (bfd dst) dstpos len (splice_flags flags) (files w) of
        (Inl e, f) \<Rightarrow>
          if copied \<noteq> 0 then (int copied, w\<lparr>files := f\<rparr>)
          else if e \<noteq> BUF_EINVAL \<or> has_flag flags FUSE_BUF_FORCE_SPLICE then (- e, w\<lparr>files := f\<rparr>)
          else fuse_buf_fd_to_fd io stk dst dst_off src src_off len (w\<lparr>files := f\<rparr>)
      | (Inr res, f) \<Rightarrow>
          if res = 0 then (int copied, w\<lparr>files := f\<rparr>)
          else if \<not> has_flag (bflags src) FUSE_BUF_FD_RETRY \<and> \<not> has_flag (bflags dst) FUSE_BUF_FD_RETRY
          then (int (copied + res), w\<lparr>files := f\<rparr>)
          else splice_loop io stk dst dst_off src src_off flags
                 (map_option (\<lambda>p. p + int res) srcpos) (map_option (\<lambda>p. p + int res) dstpos)
                 (len - res) (copied + res) (w\<lparr>files := f\<rparr>))"
  by pat_completeness auto
termination
  by (relation "measure (\<lambda>(io, stk, dst, dst_off, src, src_off, flags, srcpos, dstpos, len, copied, w). len)") auto

declare splice_loop.simps [simp del]

definition fuse_buf_splice ::
  "'w io \<Rightarrow> nat \<Rightarrow> fuse_buf \<Rightarrow> nat \<Rightarrow> fuse_buf \<Rightarrow> nat \<Rightarrow> nat \<Rightarrow> u32 \<Rightarrow> 'w world \<Rightarrow> int \<times> 'w world" where
  "fuse_buf_splice io stk dst dst_off src src_off len flags w =
     splice_loop io stk dst dst_off src src_off flags
       (if has_flag (bflags src) FUSE_BUF_FD_SEEK then Some (bpos src + int src_off) else None)
       (if has_flag (bflags dst) FUSE_BUF_FD_SEEK then Some (bpos dst + int dst_off) else None)
       len 0 w"

text \<open>
  One piece. Between memory buffers \<^verbatim>\<open>memcpy\<close> (on disjoint ranges) and
  \<^verbatim>\<open>memmove\<close> both leave in the destination what the source held before.
\<close>

definition fuse_buf_copy_one ::
  "'w io \<Rightarrow> nat \<Rightarrow> u32 \<Rightarrow> fuse_buf \<Rightarrow> nat \<Rightarrow> fuse_buf \<Rightarrow> nat \<Rightarrow> nat \<Rightarrow> 'w world \<Rightarrow> int \<times> 'w world" where
  "fuse_buf_copy_one io stk flags dst dst_off src src_off len w =
     (let src_is_fd = has_flag (bflags src) FUSE_BUF_IS_FD; dst_is_fd = has_flag (bflags dst) FUSE_BUF_IS_FD in
      if \<not> src_is_fd \<and> \<not> dst_is_fd then
        (let dstmem = bmem dst + dst_off; srcmem = bmem src + src_off in
         (int len,
          if dstmem = srcmem then w
          else w\<lparr>heap := store dstmem (load srcmem len (heap w)) (heap w)\<rparr>))
      else if \<not> src_is_fd then fuse_buf_write io dst dst_off src src_off len w
      else if \<not> dst_is_fd then fuse_buf_read io dst dst_off src src_off len w
      else if has_flag flags FUSE_BUF_NO_SPLICE then fuse_buf_fd_to_fd io stk dst dst_off src src_off len w
      else fuse_buf_splice io stk dst dst_off src src_off len flags w)"

section \<open>Buffer vectors\<close>

definition fuse_bufvec_current :: "fuse_bufvec \<Rightarrow> fuse_buf option" where
  "fuse_bufvec_current bv = (if bv_idx bv < bv_count bv then Some (bv_buf bv ! bv_idx bv) else None)"

text \<open>\<open>None\<close> is a failed assertion.\<close>

definition fuse_bufvec_advance :: "fuse_bufvec \<Rightarrow> nat \<Rightarrow> (bool \<times> fuse_bufvec) option" where
  "fuse_bufvec_advance bv len =
     (case fuse_bufvec_current bv of
        None \<Rightarrow> Some (False, bv)
      | Some buf \<Rightarrow>
          let off = bv_off bv + len in
          if off > bsize buf then None
          else if off = bsize buf then
            let idx = bv_idx bv + 1 in
            if idx = bv_count bv then Some (False, bv\<lparr>bv_off := off, bv_idx := idx\<rparr>)
            else Some (True, bv\<lparr>bv_off := 0, bv_idx := idx\<rparr>)
          else Some (True, bv\<lparr>bv_off := off\<rparr>))"

text \<open>Subtraction of \<^verbatim>\<open>size_t\<close>.\<close>

definition size_sub :: "nat \<Rightarrow> nat \<Rightarrow> nat" where
  "size_sub a b = (if b \<le> a then a - b else 2 ^ 64 + a - b)"

lemma advance_idx:
  assumes "fuse_bufvec_advance bv n = Some (True, bv')" and "fuse_bufvec_current bv = Some b"
  shows "bv_count bv' = bv_count bv" and "bv_off bv + n \<le> bsize b" and "bv_idx bv \<le> bv_idx bv'"
    and "bv_idx bv' < bv_count bv"
    and "bv_off bv + n = bsize b \<Longrightarrow> bv_idx bv' = bv_idx bv + 1"
  using assms by (auto simp: fuse_bufvec_advance_def fuse_bufvec_current_def Let_def split: if_splits)

lemma copy_progress:
  assumes s: "fuse_bufvec_advance srcv n = Some (True, srcv')" "fuse_bufvec_current srcv = Some src"
    and d: "fuse_bufvec_advance dstv n = Some (True, dstv')" "fuse_bufvec_current dstv = Some dst"
    and "\<not> n < min_size (size_sub (bsize src) (bv_off srcv)) (size_sub (bsize dst) (bv_off dstv))"
  shows "(bv_count dstv' - bv_idx dstv') + (bv_count srcv' - bv_idx srcv') <
    (bv_count dstv - bv_idx dstv) + (bv_count srcv - bv_idx srcv)"
proof -
  note s' = advance_idx [OF s] and d' = advance_idx [OF d]
  have "bv_off srcv \<le> bsize src" "bv_off dstv \<le> bsize dst" using s'(2) d'(2) by simp_all
  then have "bv_off srcv + n = bsize src \<or> bv_off dstv + n = bsize dst"
    using assms(5) s'(2) d'(2) by (auto simp: min_size_def size_sub_def split: if_splits)
  then have "bv_idx srcv' = bv_idx srcv + 1 \<or> bv_idx dstv' = bv_idx dstv + 1"
    using s'(5) d'(5) by blast
  with s'(1,3,4) d'(1,3,4) show ?thesis by auto
qed

type_synonym 'w copier =
  "fuse_buf \<Rightarrow> nat \<Rightarrow> fuse_buf \<Rightarrow> nat \<Rightarrow> nat \<Rightarrow> 'w \<Rightarrow> int \<times> 'w"

text \<open>
  The loop of \<^verbatim>\<open>fuse_buf_copy\<close>, over the function that copies one piece. The second
  vector is not advanced when the first one is used up.
\<close>

function copy_loop ::
  "'w copier \<Rightarrow> fuse_bufvec \<Rightarrow> fuse_bufvec \<Rightarrow> nat \<Rightarrow> 'w \<Rightarrow>
   (int \<times> fuse_bufvec \<times> fuse_bufvec \<times> 'w) option" where
  "copy_loop one dstv srcv copied w =
     (case fuse_bufvec_current srcv of
        None \<Rightarrow> Some (int copied, dstv, srcv, w)
      | Some src \<Rightarrow>
     (case fuse_bufvec_current dstv of
        None \<Rightarrow> Some (int copied, dstv, srcv, w)
      | Some dst \<Rightarrow>
          let len = min_size (size_sub (bsize src) (bv_off srcv)) (size_sub (bsize dst) (bv_off dstv)) in
          case one dst (bv_off dstv) src (bv_off srcv) len w of
            (res, w') \<Rightarrow>
              if res < 0 then Some (if copied = 0 then res else int copied, dstv, srcv, w')
              else (case fuse_bufvec_advance srcv (nat res) of
                None \<Rightarrow> None
              | Some (more_src, srcv') \<Rightarrow>
                  if \<not> more_src then Some (int (copied + nat res), dstv, srcv', w')
                  else (case fuse_bufvec_advance dstv (nat res) of
                    None \<Rightarrow> None
                  | Some (more_dst, dstv') \<Rightarrow>
                      if \<not> more_dst \<or> nat res < len then Some (int (copied + nat res), dstv', srcv', w')
                      else copy_loop one dstv' srcv' (copied + nat res) w'))))"
  by pat_completeness auto
termination
  by (relation "measure (\<lambda>(one, dstv, srcv, copied, w).
      (bv_count dstv - bv_idx dstv) + (bv_count srcv - bv_idx srcv))")
    (simp, clarsimp, erule (4) copy_progress)

declare copy_loop.simps [simp del]

definition fuse_buf_copy ::
  "'w io \<Rightarrow> nat \<Rightarrow> bool \<Rightarrow> u32 \<Rightarrow> fuse_bufvec \<Rightarrow> fuse_bufvec \<Rightarrow> 'w world \<Rightarrow>
   (int \<times> fuse_bufvec \<times> fuse_bufvec \<times> 'w world) option" where
  "fuse_buf_copy io stk same flags dstv srcv w =
     (if same then Some (int (fuse_buf_size dstv), dstv, srcv, w)
      else copy_loop (fuse_buf_copy_one io stk flags) dstv srcv 0 w)"

section \<open>Sizes\<close>

lemma buf_size_loop_sum:
  "sz \<le> SIZE_MAX \<Longrightarrow> buf_size_loop bs sz = min SIZE_MAX (sz + sum_list (map bsize bs))"
  by (induction bs sz rule: buf_size_loop.induct) auto

section \<open>Where the bytes are\<close>

text \<open>
  A cell is a byte of memory or of a file. A buffer is a sequence of cells, and a copy of \<open>n\<close>
  bytes has moved the values of \<open>n\<close> cells; besides them only a scratch area may change.
\<close>

datatype cell = Mem nat | File int int

definition buf_cell :: "fuse_buf \<Rightarrow> nat \<Rightarrow> cell" where
  "buf_cell b i =
     (if has_flag (bflags b) FUSE_BUF_IS_FD then File (bfd b) (bpos b + int i) else Mem (bmem b + i))"

lemma buf_cell_inj [simp]: "buf_cell b i = buf_cell b j \<longleftrightarrow> i = j"
  by (simp add: buf_cell_def)

definition piece :: "fuse_buf \<Rightarrow> nat \<Rightarrow> nat \<Rightarrow> cell set" where
  "piece b off n = buf_cell b ` {off..<off + n}"

lemma piece_add: "piece b off (n + m) = piece b off n \<union> piece b (off + n) m"
proof -
  have "{off..<off + (n + m)} = {off..<off + n} \<union> {off + n..<off + n + m}" by auto
  then show ?thesis by (simp add: piece_def image_Un)
qed

lemma piece_0 [simp]: "piece b off 0 = {}"
  by (simp add: piece_def)

lemma piece_mono: "m \<le> n \<Longrightarrow> piece b off m \<subseteq> piece b off n"
  by (auto simp: piece_def)

lemma in_piece [intro]: "i < n \<Longrightarrow> buf_cell b (off + i) \<in> piece b off n"
  by (simp add: piece_def)

lemma not_in_later_piece: "i < n \<Longrightarrow> buf_cell b (off + i) \<notin> piece b (off + n) m"
  by (auto simp: piece_def)

definition moved ::
  "('w \<Rightarrow> cell \<Rightarrow> u8) \<Rightarrow> cell set \<Rightarrow> fuse_buf \<Rightarrow> nat \<Rightarrow> fuse_buf \<Rightarrow> nat \<Rightarrow> nat \<Rightarrow> 'w \<Rightarrow> 'w \<Rightarrow> bool" where
  "moved val scratch d doff s soff n w w' \<longleftrightarrow>
     (\<forall>i<n. val w' (buf_cell d (doff + i)) = val w (buf_cell s (soff + i))) \<and>
     (\<forall>c. c \<notin> piece d doff n \<and> c \<notin> scratch \<longrightarrow> val w' c = val w c)"

definition separate :: "cell set \<Rightarrow> fuse_buf \<Rightarrow> nat \<Rightarrow> fuse_buf \<Rightarrow> nat \<Rightarrow> nat \<Rightarrow> bool" where
  "separate scratch d doff s soff n \<longleftrightarrow>
     piece s soff n \<inter> piece d doff n = {} \<and> piece s soff n \<inter> scratch = {} \<and> piece d doff n \<inter> scratch = {}"

lemma separate_add:
  "separate scratch d doff s soff (n + m) \<Longrightarrow>
   separate scratch d doff s soff n \<and> separate scratch d (doff + n) s (soff + n) m"
  by (auto simp: separate_def piece_add)

lemma separate_le: "separate scratch d doff s soff n \<Longrightarrow> m \<le> n \<Longrightarrow> separate scratch d doff s soff m"
  using separate_add [of scratch d doff s soff m "n - m"] by simp

lemma moved_0: "moved val scratch d doff s soff 0 w w' \<longleftrightarrow> (\<forall>c. c \<notin> scratch \<longrightarrow> val w' c = val w c)"
  by (simp add: moved_def)

lemma moved_add:
  assumes "moved val scratch d doff s soff n w w1" and "moved val scratch d (doff + n) s (soff + n) m w1 w'"
    and sep: "separate scratch d doff s soff (n + m)"
  shows "moved val scratch d doff s soff (n + m) w w'"
  unfolding moved_def
proof (intro conjI allI impI)
  fix c assume "c \<notin> piece d doff (n + m) \<and> c \<notin> scratch"
  then show "val w' c = val w c" using assms(1,2) by (auto simp: moved_def piece_add)
next
  fix i assume i: "i < n + m"
  show "val w' (buf_cell d (doff + i)) = val w (buf_cell s (soff + i))"
  proof (cases "i < n")
    case True
    then have "buf_cell d (doff + i) \<notin> scratch"
      using sep in_piece [of i "n + m" d doff] i by (auto simp: separate_def)
    then have "val w' (buf_cell d (doff + i)) = val w1 (buf_cell d (doff + i))"
      using assms(2) not_in_later_piece [OF True, of d doff m] by (simp add: moved_def)
    with True assms(1) show ?thesis by (simp add: moved_def)
  next
    case False
    then obtain j where j: "i = n + j" "j < m" using i by (metis add_less_cancel_left le_iff_add not_less)
    have "buf_cell s (soff + i) \<in> piece s soff (n + m)" using in_piece [OF i, of s soff] .
    then have "buf_cell s (soff + i) \<notin> piece d doff n" "buf_cell s (soff + i) \<notin> scratch"
      using sep piece_mono [of n "n + m" d doff] by (auto simp: separate_def)
    then have "val w1 (buf_cell s (soff + i)) = val w (buf_cell s (soff + i))"
      using assms(1) by (simp add: moved_def)
    moreover have "val w' (buf_cell d (doff + n + j)) = val w1 (buf_cell s (soff + n + j))"
      using assms(2) j(2) by (simp add: moved_def)
    ultimately show ?thesis using j(1) by (simp add: add.assoc)
  qed
qed

section \<open>The contract of a copier\<close>

definition copies ::
  "('w \<Rightarrow> cell \<Rightarrow> u8) \<Rightarrow> cell set \<Rightarrow> fuse_buf \<Rightarrow> nat \<Rightarrow> fuse_buf \<Rightarrow> nat \<Rightarrow> nat \<Rightarrow> 'w \<Rightarrow> int \<times> 'w \<Rightarrow> bool" where
  "copies val scratch d doff s soff len w r \<longleftrightarrow>
     fst r \<le> int len \<and> moved val scratch d doff s soff (nat (fst r)) w (snd r)"

definition bufs_cells :: "fuse_buf list \<Rightarrow> cell list" where
  "bufs_cells bs = concat (map (\<lambda>b. map (buf_cell b) [0..<bsize b]) bs)"

definition bv_cells :: "fuse_bufvec \<Rightarrow> cell list" where
  "bv_cells bv = drop (bv_off bv) (bufs_cells (drop (bv_idx bv) (bv_buf bv)))"

definition wf_bufvec :: "fuse_bufvec \<Rightarrow> bool" where
  "wf_bufvec bv \<longleftrightarrow> (case fuse_bufvec_current bv of None \<Rightarrow> True | Some b \<Rightarrow> bv_off bv \<le> bsize b)"

lemma current_cells:
  assumes "fuse_bufvec_current bv = Some b"
  shows "bufs_cells (drop (bv_idx bv) (bv_buf bv)) =
    map (buf_cell b) [0..<bsize b] @ bufs_cells (drop (Suc (bv_idx bv)) (bv_buf bv))"
  using assms
  by (auto simp: fuse_bufvec_current_def bufs_cells_def simp flip: Cons_nth_drop_Suc split: if_splits)

lemma take_bv_cells:
  assumes "fuse_bufvec_current bv = Some b" and "bv_off bv + n \<le> bsize b"
  shows "take n (bv_cells bv) = map (buf_cell b) [bv_off bv..<bv_off bv + n]"
proof -
  have "take n (drop (bv_off bv) [0..<bsize b]) = [bv_off bv..<bv_off bv + n]"
    using assms(2) by (simp add: take_upt)
  then show ?thesis
    using assms by (simp add: bv_cells_def current_cells take_map drop_map flip: map_append)
qed

lemma piece_take:
  assumes "fuse_bufvec_current bv = Some b" and "bv_off bv + n \<le> bsize b"
  shows "piece b (bv_off bv) n = set (take n (bv_cells bv))" and "n \<le> length (bv_cells bv)"
  using take_bv_cells [OF assms] assms by (simp_all add: piece_def bv_cells_def current_cells)

lemma advance_cells:
  assumes "fuse_bufvec_current bv = Some b" and "bv_off bv + n \<le> bsize b"
  shows "\<exists>more bv'. fuse_bufvec_advance bv n = Some (more, bv') \<and> bv_cells bv' = drop n (bv_cells bv) \<and>
    wf_bufvec bv' \<and> (\<not> more \<longrightarrow> bv_cells bv' = []) \<and> bv_buf bv' = bv_buf bv"
proof -
  have i: "bv_idx bv < bv_count bv" and b: "b = bv_buf bv ! bv_idx bv"
    using assms(1) by (auto simp: fuse_bufvec_current_def split: if_splits)
  consider (inside) "bv_off bv + n < bsize b" | (next_buf) "bv_off bv + n = bsize b" "Suc (bv_idx bv) < bv_count bv"
    | (last) "bv_off bv + n = bsize b" "Suc (bv_idx bv) = bv_count bv"
    using assms(2) i by linarith
  then show ?thesis
  proof cases
    case inside
    then show ?thesis using assms(1) i b
      by (auto simp: fuse_bufvec_advance_def fuse_bufvec_current_def wf_bufvec_def bv_cells_def add.commute)
  next
    case next_buf
    have "drop n (bv_cells bv) = drop (bsize b) (bufs_cells (drop (bv_idx bv) (bv_buf bv)))"
      using next_buf(1) by (simp add: bv_cells_def add.commute)
    then have "drop n (bv_cells bv) = bufs_cells (drop (Suc (bv_idx bv)) (bv_buf bv))"
      using current_cells [OF assms(1)] by simp
    then show ?thesis using next_buf assms(1) i
      by (auto simp: fuse_bufvec_advance_def fuse_bufvec_current_def wf_bufvec_def bv_cells_def)
  next
    case last
    have "length (bv_cells bv) = n"
      using last current_cells [OF assms(1)] by (simp add: bv_cells_def bufs_cells_def)
    then show ?thesis using last assms(1) i
      by (auto simp: fuse_bufvec_advance_def fuse_bufvec_current_def wf_bufvec_def bv_cells_def bufs_cells_def)
  qed
qed

lemma no_current_cells: "fuse_bufvec_current bv = None \<Longrightarrow> bv_cells bv = []"
  by (auto simp: fuse_bufvec_current_def bv_cells_def bufs_cells_def split: if_splits)

text \<open>The values of the first \<open>n\<close> cells of a stream have moved to another stream.\<close>

definition stream_moved ::
  "('w \<Rightarrow> cell \<Rightarrow> u8) \<Rightarrow> cell set \<Rightarrow> cell list \<Rightarrow> cell list \<Rightarrow> nat \<Rightarrow> 'w \<Rightarrow> 'w \<Rightarrow> bool" where
  "stream_moved val scratch D S n w w' \<longleftrightarrow>
     map (val w') (take n D) = map (val w) (take n S) \<and>
     (\<forall>c. c \<notin> set (take n D) \<and> c \<notin> scratch \<longrightarrow> val w' c = val w c)"

definition streams_apart :: "cell set \<Rightarrow> cell list \<Rightarrow> cell list \<Rightarrow> bool" where
  "streams_apart scratch D S \<longleftrightarrow>
     distinct D \<and> set D \<inter> set S = {} \<and> set D \<inter> scratch = {} \<and> set S \<inter> scratch = {}"

lemma streams_apart_drop:
  "streams_apart scratch D S \<Longrightarrow> streams_apart scratch (drop n D) (drop n S)"
  unfolding streams_apart_def by (blast dest: in_set_dropD intro: distinct_drop)

lemma stream_moved_add:
  assumes "stream_moved val scratch D S n w w1" and "stream_moved val scratch (drop n D) (drop n S) m w1 w'"
    and "streams_apart scratch D S" and "n \<le> length D" and "n \<le> length S"
  shows "stream_moved val scratch D S (n + m) w w'"
proof -
  have D: "take (n + m) D = take n D @ take m (drop n D)" and S: "take (n + m) S = take n S @ take m (drop n S)"
    by (simp_all add: take_add)
  have "map (val w') (take n D) = map (val w1) (take n D)"
  proof (rule map_cong [OF refl])
    fix c assume c: "c \<in> set (take n D)"
    then have "c \<notin> set (drop n D)"
      using assms(3) set_take_disj_set_drop_if_distinct [of D n n] by (auto simp: streams_apart_def)
    then have "c \<notin> set (take m (drop n D))" by (blast dest: in_set_takeD)
    moreover have "c \<notin> scratch" using c assms(3) by (auto simp: streams_apart_def dest: in_set_takeD)
    ultimately show "val w' c = val w1 c" using assms(2) by (simp add: stream_moved_def)
  qed
  moreover have "map (val w1) (take m (drop n S)) = map (val w) (take m (drop n S))"
  proof (rule map_cong [OF refl])
    fix c assume "c \<in> set (take m (drop n S))"
    then have "c \<in> set S" by (blast dest: in_set_takeD in_set_dropD)
    then have "c \<notin> set (take n D)" "c \<notin> scratch"
      using assms(3) by (auto simp: streams_apart_def dest: in_set_takeD)
    then show "val w1 c = val w c" using assms(1) by (simp add: stream_moved_def)
  qed
  ultimately have "map (val w') (take (n + m) D) = map (val w) (take (n + m) S)"
    using assms(1,2) unfolding stream_moved_def D S map_append by metis
  moreover have "val w' c = val w c" if "c \<notin> set (take (n + m) D)" "c \<notin> scratch" for c
    using assms(1,2) that by (simp add: stream_moved_def D)
  ultimately show ?thesis by (simp add: stream_moved_def)
qed

lemma stream_moved_piece:
  assumes "fuse_bufvec_current dv = Some d" and "bv_off dv + n \<le> bsize d"
    and "fuse_bufvec_current sv = Some s" and "bv_off sv + n \<le> bsize s"
  shows "stream_moved val scratch (bv_cells dv) (bv_cells sv) n w w' \<longleftrightarrow>
    moved val scratch d (bv_off dv) s (bv_off sv) n w w'"
proof -
  have "map (val w') (take n (bv_cells dv)) = map (val w) (take n (bv_cells sv)) \<longleftrightarrow>
      (\<forall>i<n. val w' (buf_cell d (bv_off dv + i)) = val w (buf_cell s (bv_off sv + i)))"
    by (simp add: take_bv_cells [OF assms(1,2)] take_bv_cells [OF assms(3,4)] list_eq_iff_nth_eq)
  then show ?thesis by (simp add: stream_moved_def moved_def piece_take [OF assms(1,2)])
qed

locale buf_copier =
  fixes one :: "'w copier" and val :: "'w \<Rightarrow> cell \<Rightarrow> u8" and scratch :: "cell set" and ok :: "fuse_buf \<Rightarrow> bool"
  assumes one_copies: "ok d \<Longrightarrow> ok s \<Longrightarrow> separate scratch d doff s soff len \<Longrightarrow>
    copies val scratch d doff s soff len w (one d doff s soff len w)"
begin

lemma copy_piece:
  assumes dv: "wf_bufvec dv" "fuse_bufvec_current dv = Some d" "ok d"
    and sv: "wf_bufvec sv" "fuse_bufvec_current sv = Some s" "ok s"
    and apart: "streams_apart scratch (bv_cells dv) (bv_cells sv)"
    and len: "len = min_size (size_sub (bsize s) (bv_off sv)) (size_sub (bsize d) (bv_off dv))"
    and one: "one d (bv_off dv) s (bv_off sv) len w = (r, w')"
  shows "bv_off dv + nat r \<le> bsize d" and "bv_off sv + nat r \<le> bsize s"
    and "stream_moved val scratch (bv_cells dv) (bv_cells sv) (nat r) w w'"
proof -
  have off: "bv_off dv \<le> bsize d" "bv_off sv \<le> bsize s" using dv sv by (auto simp: wf_bufvec_def)
  then have le: "bv_off dv + len \<le> bsize d" "bv_off sv + len \<le> bsize s"
    using len by (auto simp: min_size_def size_sub_def)
  have "separate scratch d (bv_off dv) s (bv_off sv) len"
    using apart unfolding separate_def streams_apart_def piece_take [OF dv(2) le(1)] piece_take [OF sv(2) le(2)]
    by (blast dest: in_set_takeD)
  from one_copies [OF dv(3) sv(3) this, of w] one
  have r: "r \<le> int len" "moved val scratch d (bv_off dv) s (bv_off sv) (nat r) w w'"
    by (simp_all add: copies_def)
  then show le': "bv_off dv + nat r \<le> bsize d" "bv_off sv + nat r \<le> bsize s" using le by linarith+
  with r(2) show "stream_moved val scratch (bv_cells dv) (bv_cells sv) (nat r) w w'"
    by (simp add: stream_moved_piece [OF dv(2) _ sv(2)])
qed

lemma copy_loop_stream:
  assumes "wf_bufvec dv" and "wf_bufvec sv" and "\<forall>b\<in>set (bv_buf dv) \<union> set (bv_buf sv). ok b"
    and "streams_apart scratch (bv_cells dv) (bv_cells sv)"
  shows "\<exists>r dv' sv' w' n. copy_loop one dv sv copied w = Some (r, dv', sv', w') \<and>
    n \<le> length (bv_cells dv) \<and> n \<le> length (bv_cells sv) \<and>
    (r = int (copied + n) \<or> copied = 0 \<and> n = 0 \<and> r < 0) \<and>
    stream_moved val scratch (bv_cells dv) (bv_cells sv) n w w'"
  using assms
proof (induction "(bv_count dv - bv_idx dv) + (bv_count sv - bv_idx sv)" arbitrary: dv sv copied w
    rule: less_induct)
  case less
  let ?D = "bv_cells dv" and ?S = "bv_cells sv"
  show ?case
  proof (cases "fuse_bufvec_current sv = None \<or> fuse_bufvec_current dv = None")
    case True
    then show ?thesis
      by (auto simp: copy_loop.simps [of one dv] stream_moved_def split: option.splits)
  next
    case False
    then obtain s d where cur: "fuse_bufvec_current sv = Some s" "fuse_bufvec_current dv = Some d" by auto
    then have ok: "ok d" "ok s" using less.prems(3) by (auto simp: fuse_bufvec_current_def split: if_splits)
    let ?len = "min_size (size_sub (bsize s) (bv_off sv)) (size_sub (bsize d) (bv_off dv))"
    obtain r w1 where one: "one d (bv_off dv) s (bv_off sv) ?len w = (r, w1)" by force
    note pc = copy_piece [OF less.prems(1) cur(2) ok(1) less.prems(2) cur(1) ok(2) less.prems(4) refl one]
    from advance_cells [OF cur(2) pc(1)] obtain md dv1 where
      ad: "fuse_bufvec_advance dv (nat r) = Some (md, dv1)" "bv_cells dv1 = drop (nat r) ?D" "wf_bufvec dv1"
        "bv_buf dv1 = bv_buf dv" by blast
    from advance_cells [OF cur(1) pc(2)] obtain ms sv1 where
      as: "fuse_bufvec_advance sv (nat r) = Some (ms, sv1)" "bv_cells sv1 = drop (nat r) ?S" "wf_bufvec sv1"
        "bv_buf sv1 = bv_buf sv" by blast
    have le: "nat r \<le> length ?D" "nat r \<le> length ?S"
      using piece_take(2) [OF cur(2) pc(1)] piece_take(2) [OF cur(1) pc(2)] by simp_all
    show ?thesis
    proof (cases "0 \<le> r \<and> ms \<and> md \<and> \<not> nat r < ?len")
      case False
      with one ad(1) as(1) cur pc(3) le show ?thesis
        by (subst copy_loop.simps) (auto simp: Let_def split: if_splits intro!: exI [of _ "nat r"])
    next
      case True
      then have loop: "copy_loop one dv sv copied w = copy_loop one dv1 sv1 (copied + nat r) w1"
        using one ad(1) as(1) cur by (subst copy_loop.simps) (auto simp: Let_def)
      have "(bv_count dv1 - bv_idx dv1) + (bv_count sv1 - bv_idx sv1) <
          (bv_count dv - bv_idx dv) + (bv_count sv - bv_idx sv)"
        using True ad(1) as(1) cur by (intro copy_progress) auto
      from less.hyps [OF this ad(3) as(3)] less.prems(3,4) ad(2,4) as(2,4)
      obtain r' dv' sv' w' n where n: "copy_loop one dv1 sv1 (copied + nat r) w1 = Some (r', dv', sv', w')"
        "n \<le> length (drop (nat r) ?D)" "n \<le> length (drop (nat r) ?S)"
        "r' = int (copied + nat r + n) \<or> copied + nat r = 0 \<and> n = 0 \<and> r' < 0"
        "stream_moved val scratch (drop (nat r) ?D) (drop (nat r) ?S) n w1 w'"
        using streams_apart_drop [OF less.prems(4), of "nat r"] by (metis (no_types, lifting))
      moreover have "stream_moved val scratch ?D ?S (nat r + n) w w'"
        using stream_moved_add [OF pc(3) n(5) less.prems(4) le] .
      moreover have "nat r + n \<le> length ?D" "nat r + n \<le> length ?S" using n(2,3) le by auto
      ultimately show ?thesis unfolding loop by (intro exI [of _ "nat r + n"] exI conjI) auto
    qed
  qed
qed

end

section \<open>Files with positions\<close>

text \<open>
  What a byte of memory or of a file holds. Bytes past the end of a file count as 0, as they do
  once a write behind them has extended the file.
\<close>

definition world_val :: "('w \<Rightarrow> int \<Rightarrow> int \<Rightarrow> u8) \<Rightarrow> 'w world \<Rightarrow> cell \<Rightarrow> u8" where
  "world_val fval w c = (case c of Mem a \<Rightarrow> heap w a | File fd p \<Rightarrow> fval (files w) fd p)"

definition is_file :: "fuse_buf \<Rightarrow> bool" where
  "is_file b \<longleftrightarrow> has_flag (bflags b) FUSE_BUF_IS_FD"

definition positioned :: "fuse_buf \<Rightarrow> bool" where
  "positioned b \<longleftrightarrow> (is_file b \<longrightarrow> has_flag (bflags b) FUSE_BUF_FD_SEEK)"

definition bounce_cells :: "nat \<Rightarrow> cell set" where
  "bounce_cells stk = Mem ` {stk..<stk + 4096}"

lemma separate_kinds: "is_file d \<noteq> is_file s \<Longrightarrow> separate {} d doff s soff n"
  by (auto simp: separate_def piece_def buf_cell_def is_file_def)

lemma moved_weaken: "moved val {} d doff s soff n w w' \<Longrightarrow> moved val scratch d doff s soff n w w'"
  by (simp add: moved_def)

text \<open>The result of a loop that has copied \<open>n\<close> more bytes, or failed before the first.\<close>

definition loop_result :: "nat \<Rightarrow> nat \<Rightarrow> int \<Rightarrow> bool" where
  "loop_result copied n r \<longleftrightarrow> r = int (copied + n) \<or> copied = 0 \<and> n = 0 \<and> r < 0"

lemma loop_result_Suc: "0 < res \<Longrightarrow> loop_result (copied + res) n r \<Longrightarrow> loop_result copied (res + n) r"
  by (auto simp: loop_result_def)

lemma loop_result_nat: "loop_result 0 n r \<Longrightarrow> nat r = n"
  by (auto simp: loop_result_def)

lemma store_moved:
  assumes "\<not> is_file d" and "\<not> is_file s"
  shows "moved (world_val fval) scratch d doff s soff len w
    (w\<lparr>heap := store (bmem d + doff) (load (bmem s + soff) len (heap w)) (heap w)\<rparr>)"
proof -
  let ?h = "store (bmem d + doff) (load (bmem s + soff) len (heap w)) (heap w)"
  have "?h a = heap w a" if "Mem a \<notin> piece d doff len" for a
  proof -
    have "\<not> (bmem d + doff \<le> a \<and> a < bmem d + doff + len)"
    proof
      assume a: "bmem d + doff \<le> a \<and> a < bmem d + doff + len"
      then have "Mem a = buf_cell d (doff + (a - (bmem d + doff)))"
        using assms(1) by (simp add: buf_cell_def is_file_def)
      moreover have "a - (bmem d + doff) < len" using a by linarith
      ultimately show False using that in_piece by metis
    qed
    then show ?thesis by (auto simp: store_def)
  qed
  moreover have "?h (bmem d + (doff + i)) = heap w (bmem s + (soff + i))" if "i < len" for i
    using that by (simp add: store_def add.assoc)
  ultimately show ?thesis
    using assms by (auto simp: moved_def world_val_def buf_cell_def is_file_def split: cell.splits)
qed

text \<open>
  The laws of \<^verbatim>\<open>pread\<close>, \<^verbatim>\<open>pwrite\<close> and \<^verbatim>\<open>splice\<close>: reads and writes may be
  short but transfer a prefix; a failing call changes nothing; splicing needs a pipe, which takes
  no position. Different descriptors are open on different files.
\<close>

locale positioned_io =
  fixes io :: "'w io" and fval :: "'w \<Rightarrow> int \<Rightarrow> int \<Rightarrow> u8"
  assumes pread: "io_pread io fd len off f = (Inr bs, f') \<Longrightarrow>
      length bs \<le> len \<and> (\<forall>i<length bs. bs ! i = fval f fd (off + int i)) \<and> fval f' = fval f"
    and pread_error: "io_pread io fd len off f = (Inl e, f') \<Longrightarrow> 0 < e \<and> fval f' = fval f"
    and pwrite: "io_pwrite io fd bs off f = (Inr n, f') \<Longrightarrow> n \<le> length bs \<and>
      (\<forall>g p. fval f' g p = (if g = fd \<and> off \<le> p \<and> p < off + int n then bs ! nat (p - off) else fval f g p))"
    and pwrite_error: "io_pwrite io fd bs off f = (Inl e, f') \<Longrightarrow> 0 < e \<and> fval f' = fval f"
    and splice_no_pipe: "io_splice io fi (Some p) fo (Some q) len fl f = (r, f') \<Longrightarrow>
      (\<exists>e. r = Inl e \<and> 0 < e) \<and> fval f' = fval f"
begin

abbreviation val :: "'w world \<Rightarrow> cell \<Rightarrow> u8" where
  "val \<equiv> world_val fval"

lemma val_files: "fval f = fval (files w) \<Longrightarrow> val (w\<lparr>files := f\<rparr>) = val w"
  by (auto simp: world_val_def fun_eq_iff split: cell.splits)

lemma pwrite_moved:
  assumes "is_file d" and "\<not> is_file s"
    and "io_pwrite io (bfd d) (load (bmem s + soff) len (heap w)) (bpos d + int doff) (files w) = (Inr n, f)"
  shows "n \<le> len \<and> moved val {} d doff s soff n w (w\<lparr>files := f\<rparr>)"
proof -
  from pwrite [OF assms(3)] have n: "n \<le> len"
    and f: "\<And>g p. fval f g p = (if g = bfd d \<and> bpos d + int doff \<le> p \<and> p < bpos d + int doff + int n
      then load (bmem s + soff) len (heap w) ! nat (p - (bpos d + int doff)) else fval (files w) g p)"
    by auto
  have "val (w\<lparr>files := f\<rparr>) c = val w c" if "c \<notin> piece d doff n" for c
  proof (cases c)
    case (File g p)
    have "\<not> (g = bfd d \<and> bpos d + int doff \<le> p \<and> p < bpos d + int doff + int n)"
    proof
      assume a: "g = bfd d \<and> bpos d + int doff \<le> p \<and> p < bpos d + int doff + int n"
      then have "c = buf_cell d (doff + nat (p - (bpos d + int doff)))"
        using File assms(1) by (simp add: buf_cell_def is_file_def)
      moreover have "nat (p - (bpos d + int doff)) < n" using a by linarith
      ultimately show False using that in_piece by metis
    qed
    then show ?thesis using File by (auto simp: world_val_def f)
  qed (simp add: world_val_def)
  with n assms(1,2) show ?thesis
    by (auto simp: moved_def world_val_def buf_cell_def is_file_def f add.assoc)
qed

lemma pread_moved:
  assumes "\<not> is_file d" and "is_file s"
    and "io_pread io (bfd s) len (bpos s + int soff) (files w) = (Inr bs, f)"
  shows "length bs \<le> len \<and>
    moved val {} d doff s soff (length bs) w (w\<lparr>heap := store (bmem d + doff) bs (heap w), files := f\<rparr>)"
proof -
  from pread [OF assms(3)] have bs: "length bs \<le> len" "\<forall>i<length bs. bs ! i = fval (files w) (bfd s) (bpos s + int soff + int i)"
    "fval f = fval (files w)" by auto
  let ?w = "w\<lparr>heap := store (bmem d + doff) bs (heap w), files := f\<rparr>"
  have "val ?w c = val w c" if "c \<notin> piece d doff (length bs)" for c
  proof (cases c)
    case (Mem a)
    have "\<not> (bmem d + doff \<le> a \<and> a < bmem d + doff + length bs)"
    proof
      assume a: "bmem d + doff \<le> a \<and> a < bmem d + doff + length bs"
      then have "c = buf_cell d (doff + (a - (bmem d + doff)))"
        using Mem assms(1) by (simp add: buf_cell_def is_file_def)
      moreover have "a - (bmem d + doff) < length bs" using a by linarith
      ultimately show False using that in_piece by metis
    qed
    then show ?thesis using Mem by (auto simp: world_val_def store_def)
  qed (simp add: world_val_def bs(3))
  with bs assms(1,2) show ?thesis
    by (auto simp: moved_def world_val_def buf_cell_def is_file_def store_def add.assoc)
qed

lemma write_loop_moved:
  assumes "is_file d" and "positioned d" and "\<not> is_file s"
    and "buf_write_loop io d doff s soff len copied w = (r, w')"
  shows "\<exists>n\<le>len. loop_result copied n r \<and> moved val {} d doff s soff n w w'"
  using assms
proof (induction len arbitrary: doff soff copied w rule: less_induct)
  case (less len)
  have sk: "has_flag (bflags d) FUSE_BUF_FD_SEEK" using less.prems(1,2) by (simp add: positioned_def)
  let ?call = "io_pwrite io (bfd d) (load (bmem s + soff) len (heap w)) (bpos d + int doff) (files w)"
  consider (zero) "len = 0" | (err) e f where "0 < len" "?call = (Inl e, f)"
    | (ok) res f where "0 < len" "?call = (Inr res, f)"
    by (metis bot_nat_0.not_eq_extremum surj_pair sum.exhaust)
  then show ?case
  proof cases
    case zero
    then show ?thesis using less.prems(4)
      by (auto simp: buf_write_loop.simps [of io d] loop_result_def moved_def)
  next
    case err
    then show ?thesis using less.prems(4) sk pwrite_error [OF err(2)]
      by (auto simp: buf_write_loop.simps [of io d] loop_result_def moved_0 val_files
          split: if_splits intro!: exI [of _ 0])
  next
    case ok
    note m = pwrite_moved [OF less.prems(1,3) ok(2)]
    show ?thesis
    proof (cases "res = 0 \<or> \<not> has_flag (bflags d) FUSE_BUF_FD_RETRY")
      case True
      then show ?thesis using less.prems(4) sk ok m
        by (auto simp: buf_write_loop.simps [of io d] loop_result_def split: if_splits intro!: exI [of _ res])
    next
      case False
      then have "buf_write_loop io d (doff + res) s (soff + res) (len - res) (copied + res) (w\<lparr>files := f\<rparr>) = (r, w')"
        using less.prems(4) sk ok by (simp add: buf_write_loop.simps [of io d doff])
      from less.IH [OF _ less.prems(1-3) this] False ok(1) obtain n where
        "n \<le> len - res" "loop_result (copied + res) n r"
        "moved val {} d (doff + res) s (soff + res) n (w\<lparr>files := f\<rparr>) w'" by auto
      with False m show ?thesis
        using moved_add [OF m [THEN conjunct2], of n w'] separate_kinds [of d s doff soff "res + n"] less.prems(1,3)
        by (intro exI [of _ "res + n"]) (auto simp: loop_result_Suc)
    qed
  qed
qed

lemma read_loop_moved:
  assumes "\<not> is_file d" and "positioned s" and "is_file s"
    and "buf_read_loop io d doff s soff len copied w = (r, w')"
  shows "\<exists>n\<le>len. loop_result copied n r \<and> moved val {} d doff s soff n w w'"
  using assms
proof (induction len arbitrary: doff soff copied w rule: less_induct)
  case (less len)
  have sk: "has_flag (bflags s) FUSE_BUF_FD_SEEK" using less.prems(2,3) by (simp add: positioned_def)
  let ?call = "io_pread io (bfd s) len (bpos s + int soff) (files w)"
  consider (zero) "len = 0" | (err) e f where "0 < len" "?call = (Inl e, f)"
    | (ok) bs f where "0 < len" "?call = (Inr bs, f)"
    by (metis bot_nat_0.not_eq_extremum surj_pair sum.exhaust)
  then show ?case
  proof cases
    case zero
    then show ?thesis using less.prems(4)
      by (auto simp: buf_read_loop.simps [of io d] loop_result_def moved_def)
  next
    case err
    then show ?thesis using less.prems(4) sk pread_error [OF err(2)]
      by (auto simp: buf_read_loop.simps [of io d] loop_result_def moved_0 val_files
          split: if_splits intro!: exI [of _ 0])
  next
    case ok
    let ?w = "w\<lparr>heap := store (bmem d + doff) bs (heap w), files := f\<rparr>"
    note m = pread_moved [OF less.prems(1,3) ok(2), of doff]
    show ?thesis
    proof (cases "length bs = 0 \<or> \<not> has_flag (bflags s) FUSE_BUF_FD_RETRY")
      case True
      then show ?thesis using less.prems(4) sk ok m
        by (auto simp: buf_read_loop.simps [of io d] loop_result_def Let_def split: if_splits
            intro!: exI [of _ "length bs"])
    next
      case False
      let ?n = "length bs"
      have "buf_read_loop io d (doff + ?n) s (soff + ?n) (len - ?n) (copied + ?n) ?w = (r, w')"
        using less.prems(4) sk ok False by (simp add: buf_read_loop.simps [of io d doff] Let_def)
      from less.IH [OF _ less.prems(1-3) this] False ok(1) obtain n where
        "n \<le> len - ?n" "loop_result (copied + ?n) n r" "moved val {} d (doff + ?n) s (soff + ?n) n ?w w'" by auto
      with False m show ?thesis
        using moved_add [OF m [THEN conjunct2], of n w'] separate_kinds [of d s doff soff "?n + n"] less.prems(1,3)
        by (intro exI [of _ "?n + n"]) (auto simp: loop_result_Suc)
    qed
  qed
qed

lemma bounce_simps [simp]: "\<not> is_file (bounce stk)" "positioned (bounce stk)"
  by (simp_all add: bounce_def is_file_def positioned_def has_flag_def)

lemma piece_bounce: "n \<le> 4096 \<Longrightarrow> piece (bounce stk) 0 n \<subseteq> bounce_cells stk"
  by (auto simp: piece_def bounce_cells_def buf_cell_def bounce_def has_flag_def)

text \<open>One round through the bounce buffer.\<close>

lemma bounce_moved:
  assumes "moved val {} (bounce stk) 0 s soff n w w1" and "moved val {} d doff (bounce stk) 0 m w1 w2"
    and "m \<le> n" and "n \<le> 4096"
  shows "moved val (bounce_cells stk) d doff s soff m w w2"
  using assms(1-3) piece_bounce [OF assms(4), of stk] by (fastforce simp: moved_def)

lemma fd_to_fd_moved:
  assumes "is_file d" and "positioned d" and "is_file s" and "positioned s"
    and "separate (bounce_cells stk) d doff s soff len"
    and "fd_to_fd_loop io stk d doff s soff len copied w = (r, w')"
  shows "\<exists>n\<le>len. loop_result copied n r \<and> moved val (bounce_cells stk) d doff s soff n w w'"
  using assms
proof (induction len arbitrary: doff soff copied w rule: less_induct)
  case (less len)
  let ?l = "min_size 4096 len"
  obtain r1 w1 where rd: "buf_read_loop io (bounce stk) 0 s soff ?l 0 w = (r1, w1)" by force
  from read_loop_moved [OF bounce_simps(1) less.prems(4,3) rd] obtain n1 where
    n1: "n1 \<le> ?l" "loop_result 0 n1 r1" "moved val {} (bounce stk) 0 s soff n1 w w1" by blast
  obtain r2 w2 where wr: "buf_write_loop io d doff (bounce stk) 0 (nat r1) 0 w1 = (r2, w2)" by force
  from write_loop_moved [OF less.prems(1,2) bounce_simps(1) wr] obtain n2 where
    n2: "n2 \<le> nat r1" "loop_result 0 n2 r2" "moved val {} d doff (bounce stk) 0 n2 w1 w2" by blast
  have nat: "nat r1 = n1" "nat r2 = n2" using n1(2) n2(2) by (simp_all add: loop_result_nat)
  have l: "?l \<le> len" "?l \<le> 4096" by (simp_all add: min_size_def)
  have both: "moved val (bounce_cells stk) d doff s soff n2 w w2"
    using bounce_moved [OF n1(3) n2(3)] n1(1) n2(1) nat l by simp
  have "n1 \<le> 4096" using n1(1) l(2) by simp
  then have read_only: "moved val (bounce_cells stk) d doff s soff 0 w w1"
    using n1(3) piece_bounce [of n1 stk] by (auto simp: moved_def)
  consider (stop) "len = 0" | (read) "0 < len" "r1 \<le> 0" | (written) "0 < len" "0 < r1" "r2 \<le> 0 \<or> n2 < ?l"
    | (more) "0 < len" "0 < r1" "0 < r2" "\<not> n2 < ?l" by linarith
  then show ?case
  proof cases
    case stop
    then show ?thesis using less.prems(6)
      by (auto simp: fd_to_fd_loop.simps [of io stk] loop_result_def moved_def)
  next
    case read
    then have "w' = w1 \<and> loop_result copied 0 r"
      using less.prems(6) rd
      by (auto simp: fd_to_fd_loop.simps [of io stk] fuse_buf_read_def loop_result_def Let_def split: if_splits)
    with read_only show ?thesis by blast
  next
    case written
    then have "w' = w2 \<and> loop_result copied n2 r"
      using less.prems(6) rd wr nat n2(2)
      by (auto simp: fd_to_fd_loop.simps [of io stk] fuse_buf_read_def fuse_buf_write_def loop_result_def Let_def
          split: if_splits)
    moreover have "n2 \<le> len" using n2(1) n1(1) nat l by simp
    ultimately show ?thesis using both by blast
  next
    case more
    then have "fd_to_fd_loop io stk d (doff + n2) s (soff + n2) (len - n2) (copied + n2) w2 = (r, w')"
      using less.prems(6) rd wr nat
      by (auto simp: fd_to_fd_loop.simps [of io stk d doff] fuse_buf_read_def fuse_buf_write_def Let_def)
    moreover have le: "n2 \<le> len" "0 < n2" using n2(1) n1(1) nat l more(3) by auto
    moreover have "separate (bounce_cells stk) d (doff + n2) s (soff + n2) (len - n2)"
      using separate_add [of _ d doff s soff n2 "len - n2"] less.prems(5) le by simp
    ultimately obtain n where n: "n \<le> len - n2" "loop_result (copied + n2) n r"
        "moved val (bounce_cells stk) d (doff + n2) s (soff + n2) n w2 w'"
      using less.IH [OF _ less.prems(1-4), of "len - n2" "doff + n2" "soff + n2" "copied + n2" w2] by auto
    moreover have "separate (bounce_cells stk) d doff s soff (n2 + n)"
      using separate_le [OF less.prems(5), of "n2 + n"] n(1) le by simp
    ultimately show ?thesis
      using moved_add [OF both n(3)] le by (intro exI [of _ "n2 + n"]) (auto simp: loop_result_Suc)
  qed
qed

lemma splice_moved:
  assumes "is_file d" and "positioned d" and "is_file s" and "positioned s"
    and "separate (bounce_cells stk) d doff s soff len"
    and "fuse_buf_splice io stk d doff s soff len flags w = (r, w')"
  shows "\<exists>n\<le>len. loop_result 0 n r \<and> moved val (bounce_cells stk) d doff s soff n w w'"
proof (cases "len = 0")
  case True
  with assms(6) show ?thesis
    by (auto simp: fuse_buf_splice_def splice_loop.simps [of io stk] loop_result_def moved_def)
next
  case False
  obtain e f where sp: "io_splice io (bfd s) (Some (bpos s + int soff)) (bfd d) (Some (bpos d + int doff)) len
      (splice_flags flags) (files w) = (Inl e, f)" and e: "0 < e" "fval f = fval (files w)"
    using splice_no_pipe by (metis surj_pair)
  have sk: "has_flag (bflags s) FUSE_BUF_FD_SEEK" "has_flag (bflags d) FUSE_BUF_FD_SEEK"
    using assms(1-4) by (simp_all add: positioned_def)
  note def = fuse_buf_splice_def splice_loop.simps [of io stk] fuse_buf_fd_to_fd_def
  have same: "val (w\<lparr>files := f\<rparr>) = val w" using e(2) by (rule val_files)
  show ?thesis
  proof (cases "e \<noteq> BUF_EINVAL \<or> has_flag flags FUSE_BUF_FORCE_SPLICE")
    case True
    then show ?thesis using assms(6) sp sk e False
      by (auto simp: def loop_result_def moved_0 same intro!: exI [of _ 0])
  next
    case einval: False
    then have "fd_to_fd_loop io stk d doff s soff len 0 (w\<lparr>files := f\<rparr>) = (r, w')"
      using assms(6) sp sk False by (simp add: def)
    from fd_to_fd_moved [OF assms(1-5) this] show ?thesis by (simp add: moved_def same)
  qed
qed

lemma copy_one_copies:
  assumes "positioned d" and "positioned s" and "separate (bounce_cells stk) d doff s soff len"
  shows "copies val (bounce_cells stk) d doff s soff len w (fuse_buf_copy_one io stk flags d doff s soff len w)"
proof -
  obtain r w' where r: "fuse_buf_copy_one io stk flags d doff s soff len w = (r, w')" by force
  note def = r [unfolded fuse_buf_copy_one_def Let_def, folded is_file_def]
  have "\<exists>n\<le>len. loop_result 0 n r \<and> moved val (bounce_cells stk) d doff s soff n w w'"
  proof (cases "is_file s"; cases "is_file d")
    assume "is_file s" "is_file d"
    then show ?thesis using def assms fd_to_fd_moved [of d s stk doff soff len 0 w r w']
        splice_moved [of d s stk doff soff len flags w r w']
      by (auto simp: fuse_buf_fd_to_fd_def split: if_splits)
  next
    assume "is_file s" "\<not> is_file d"
    then show ?thesis using def assms read_loop_moved [of d s doff soff len 0 w r w']
      by (auto simp: fuse_buf_read_def dest: moved_weaken)
  next
    assume "\<not> is_file s" "is_file d"
    then show ?thesis using def assms write_loop_moved [of d s doff soff len 0 w r w']
      by (auto simp: fuse_buf_write_def dest: moved_weaken)
  next
    assume m: "\<not> is_file s" "\<not> is_file d"
    have "moved val (bounce_cells stk) d doff s soff len w w"
      if "bmem d + doff = bmem s + soff"
      using that m by (auto simp: moved_def buf_cell_def is_file_def add.assoc) (metis add.assoc)
    then show ?thesis using def m store_moved [of d s fval "bounce_cells stk" doff soff len w]
      by (auto simp: loop_result_def split: if_splits)
  qed
  then show ?thesis using r by (auto simp: copies_def loop_result_def)
qed

end

locale positioned_copy = positioned_io io fval for io :: "'w io" and fval +
  fixes stk :: nat and flags :: u32

sublocale positioned_copy \<subseteq>
  buf_copier "fuse_buf_copy_one io stk flags" "world_val fval" "bounce_cells stk" positioned
  by unfold_locales (rule copy_one_copies)

context positioned_copy
begin

lemmas copy_stream = copy_loop_stream

end

text \<open>A copier that always copies everything copies a whole stream.\<close>

locale full_copier = buf_copier +
  assumes one_full: "ok d \<Longrightarrow> ok s \<Longrightarrow> fst (one d doff s soff len w) = int len"
begin

lemma copy_loop_full:
  assumes "wf_bufvec dv" and "wf_bufvec sv" and "\<forall>b\<in>set (bv_buf dv) \<union> set (bv_buf sv). ok b"
    and "streams_apart scratch (bv_cells dv) (bv_cells sv)"
    and "copy_loop one dv sv copied w = Some (r, rest)"
  shows "r = int (copied + min (length (bv_cells dv)) (length (bv_cells sv)))"
  using assms
proof (induction "(bv_count dv - bv_idx dv) + (bv_count sv - bv_idx sv)" arbitrary: dv sv copied w
    rule: less_induct)
  case less
  let ?D = "bv_cells dv" and ?S = "bv_cells sv"
  show ?case
  proof (cases "fuse_bufvec_current sv = None \<or> fuse_bufvec_current dv = None")
    case True
    then show ?thesis using less.prems(5)
      by (auto simp: copy_loop.simps [of one dv] no_current_cells split: option.splits)
  next
    case False
    then obtain s d where cur: "fuse_bufvec_current sv = Some s" "fuse_bufvec_current dv = Some d" by auto
    then have ok: "ok d" "ok s" using less.prems(3) by (auto simp: fuse_bufvec_current_def split: if_splits)
    let ?len = "min_size (size_sub (bsize s) (bv_off sv)) (size_sub (bsize d) (bv_off dv))"
    obtain w1 where one: "one d (bv_off dv) s (bv_off sv) ?len w = (int ?len, w1)"
      using one_full [OF ok] by (metis prod.collapse)
    note pc = copy_piece [OF less.prems(1) cur(2) ok(1) less.prems(2) cur(1) ok(2) less.prems(4) refl one,
        unfolded nat_int]
    from advance_cells [OF cur(2) pc(1)] obtain md dv1 where
      ad: "fuse_bufvec_advance dv ?len = Some (md, dv1)" "bv_cells dv1 = drop ?len ?D" "wf_bufvec dv1"
        "\<not> md \<longrightarrow> bv_cells dv1 = []" "bv_buf dv1 = bv_buf dv" by blast
    from advance_cells [OF cur(1) pc(2)] obtain ms sv1 where
      as: "fuse_bufvec_advance sv ?len = Some (ms, sv1)" "bv_cells sv1 = drop ?len ?S" "wf_bufvec sv1"
        "\<not> ms \<longrightarrow> bv_cells sv1 = []" "bv_buf sv1 = bv_buf sv" by blast
    have le: "?len \<le> length ?D" "?len \<le> length ?S"
      using piece_take(2) [OF cur(2) pc(1)] piece_take(2) [OF cur(1) pc(2)] by simp_all
    show ?thesis
    proof (cases "ms \<and> md")
      case False
      then have "min (length ?D) (length ?S) = ?len" using ad(2,4) as(2,4) le by auto
      moreover have "r = int (copied + ?len)"
        using False less.prems(5) one ad(1) as(1) cur
        by (subst (asm) copy_loop.simps) (auto simp: Let_def split: if_splits)
      ultimately show ?thesis by simp
    next
      case True
      then have loop: "copy_loop one dv1 sv1 (copied + ?len) w1 = Some (r, rest)"
        using less.prems(5) one ad(1) as(1) cur by (subst (asm) copy_loop.simps) (auto simp: Let_def)
      have "(bv_count dv1 - bv_idx dv1) + (bv_count sv1 - bv_idx sv1) <
          (bv_count dv - bv_idx dv) + (bv_count sv - bv_idx sv)"
        using True ad(1) as(1) cur by (intro copy_progress [where n = ?len]) auto
      from less.hyps [OF this ad(3) as(3) _ _ loop] less.prems(3) ad(5) as(5)
        streams_apart_drop [OF less.prems(4), of ?len]
      have "r = int (copied + ?len + min (length (drop ?len ?D)) (length (drop ?len ?S)))"
        by (simp add: ad(2) as(2))
      then show ?thesis using le by (simp add: min_diff)
    qed
  qed
qed

end

text \<open>Memory buffers need no system call, so no law of the system is used.\<close>

interpretation memory: full_copier "fuse_buf_copy_one io stk flags" "world_val fval" "{}" "\<lambda>b. \<not> is_file b"
  for io :: "'w io" and stk and flags and fval :: "'w \<Rightarrow> int \<Rightarrow> int \<Rightarrow> u8"
proof
  fix d s :: fuse_buf and doff soff len :: nat and w :: "'w world"
  assume m: "\<not> is_file d" "\<not> is_file s"
  show "fst (fuse_buf_copy_one io stk flags d doff s soff len w) = int len"
    using m by (simp add: fuse_buf_copy_one_def Let_def is_file_def)
  have "moved (world_val fval) {} d doff s soff len w w" if "bmem d + doff = bmem s + soff"
    using that m by (auto simp: moved_def buf_cell_def is_file_def add.assoc) (metis add.assoc)
  then show "copies (world_val fval) {} d doff s soff len w (fuse_buf_copy_one io stk flags d doff s soff len w)"
    using m store_moved [OF m, of fval "{}" doff soff len w]
    by (auto simp: copies_def fuse_buf_copy_one_def Let_def is_file_def)
qed

section \<open>A file system in memory\<close>

text \<open>
  Files as byte lists, whose transfers are cut to \<open>chunk\<close> bytes: the laws of the system
  calls hold for it.
\<close>

record mem_files =
  contents :: "int \<Rightarrow> u8 list"
  chunk :: nat

definition put_file :: "u8 list \<Rightarrow> nat \<Rightarrow> u8 list \<Rightarrow> u8 list" where
  "put_file c off bs = take off (c @ replicate off 0) @ bs @ drop (off + length bs) c"

definition mem_io :: "mem_files io" where
  "mem_io = \<lparr>
     io_read = (\<lambda>fd len f. (Inl 9, f)),
     io_pread = (\<lambda>fd len off f.
       (if off < 0 then Inl BUF_EINVAL else Inr (take (min (chunk f) len) (drop (nat off) (contents f fd))), f)),
     io_write = (\<lambda>fd bs f. (Inl 9, f)),
     io_pwrite = (\<lambda>fd bs off f.
       if off < 0 then (Inl BUF_EINVAL, f)
       else let bs' = take (chunk f) bs in
         (Inr (length bs'), if bs' = [] then f
            else f\<lparr>contents := (contents f)(fd := put_file (contents f fd) (nat off) bs')\<rparr>)),
     io_splice = (\<lambda>fi p fo q len fl f. (Inl BUF_EINVAL, f))\<rparr>"

definition mem_fval :: "mem_files \<Rightarrow> int \<Rightarrow> int \<Rightarrow> u8" where
  "mem_fval f fd p =
     (if 0 \<le> p \<and> nat p < length (contents f fd) then contents f fd ! nat p else 0)"

lemma nth_put_file:
  assumes "bs \<noteq> []"
  shows "(if i < length (put_file c off bs) then put_file c off bs ! i else 0) =
    (if off \<le> i \<and> i < off + length bs then bs ! (i - off) else if i < length c then c ! i else 0)"
  using assms by (auto simp: put_file_def nth_append min_def)

interpretation mem_files: positioned_io mem_io mem_fval
proof
  fix fd len off and f f' :: mem_files and bs
  assume "io_pread mem_io fd len off f = (Inr bs, f')"
  then show "length bs \<le> len \<and> (\<forall>i<length bs. bs ! i = mem_fval f fd (off + int i)) \<and> mem_fval f' = mem_fval f"
    by (auto simp: mem_io_def mem_fval_def nat_add_distrib split: if_splits)
next
  fix fd bs off and f f' :: mem_files and n
  assume a: "io_pwrite mem_io fd bs off f = (Inr n, f')"
  then have off: "0 \<le> off" and n: "n = length (take (chunk f) bs)"
    by (auto simp: mem_io_def Let_def split: if_splits)
  show "n \<le> length bs \<and> (\<forall>g p. mem_fval f' g p =
      (if g = fd \<and> off \<le> p \<and> p < off + int n then bs ! nat (p - off) else mem_fval f g p))"
  proof (intro conjI allI)
    fix g p
    show "mem_fval f' g p = (if g = fd \<and> off \<le> p \<and> p < off + int n then bs ! nat (p - off) else mem_fval f g p)"
    proof (cases "take (chunk f) bs = [] \<or> g \<noteq> fd \<or> p < 0")
      case True
      with a off n show ?thesis by (auto simp: mem_io_def Let_def mem_fval_def split: if_splits)
    next
      case False
      with nth_put_file [of "take (chunk f) bs" "nat p" "contents f fd" "nat off"] a off n show ?thesis
        by (auto simp: mem_io_def Let_def mem_fval_def nat_diff_distrib split: if_splits)
    qed
  qed (simp add: n)
qed (auto simp: mem_io_def Let_def BUF_EINVAL_def split: if_splits)

interpretation mem_copy: positioned_copy mem_io mem_fval stk flags for stk flags
  by unfold_locales

section \<open>What copying guarantees\<close>

text \<open>
  C12: \<^verbatim>\<open>fuse_buf_copy\<close> between vectors of memory buffers and files with positions, whose
  bytes do not overlap, always returns. It never fails an assertion, copies a prefix of the source
  stream to the same prefix of the destination stream, across all buffer boundaries, short
  transfers and the bounce buffer, returns its length, and changes no other byte; an error code is
  returned only if nothing was copied.
\<close>

theorem fuse_buf_copy_prefix:
  assumes "positioned_io io fval" and "wf_bufvec dv" and "wf_bufvec sv"
    and "\<forall>b\<in>set (bv_buf dv) \<union> set (bv_buf sv). positioned b"
    and "streams_apart (bounce_cells stk) (bv_cells dv) (bv_cells sv)"
  shows "\<exists>r dv' sv' w'. fuse_buf_copy io stk False flags dv sv w = Some (r, dv', sv', w') \<and>
    nat r \<le> min (length (bv_cells dv)) (length (bv_cells sv)) \<and>
    map (world_val fval w') (take (nat r) (bv_cells dv)) = map (world_val fval w) (take (nat r) (bv_cells sv)) \<and>
    (\<forall>c. c \<notin> set (take (nat r) (bv_cells dv)) \<and> c \<notin> bounce_cells stk \<longrightarrow> world_val fval w' c = world_val fval w c)"
proof -
  have "positioned_copy io fval" by (simp add: assms(1) positioned_copy.intro)
  from positioned_copy.copy_stream [OF this assms(2-5), of flags 0 w]
  obtain r dv' sv' w' n where
    "copy_loop (fuse_buf_copy_one io stk flags) dv sv 0 w = Some (r, dv', sv', w')"
    "n \<le> length (bv_cells dv)" "n \<le> length (bv_cells sv)" "r = int n \<or> n = 0 \<and> r < 0"
    "stream_moved (world_val fval) (bounce_cells stk) (bv_cells dv) (bv_cells sv) n w w'" by auto
  moreover from this(4) have "nat r = n" by auto
  ultimately show ?thesis by (simp add: fuse_buf_copy_def stream_moved_def)
qed

text \<open>
  A file with the contents \<open>1, 2, 3, 4, 5\<close> copied into two memory buffers, two bytes at a time.
\<close>

definition demo_mem_world :: "mem_files world" where
  "demo_mem_world = \<lparr>heap = (\<lambda>_. 0), files = \<lparr>contents = (\<lambda>_. [1, 2, 3, 4, 5]), chunk = 2\<rparr>\<rparr>"

definition demo_file_vec :: fuse_bufvec where
  "demo_file_vec = \<lparr>bv_idx = 0, bv_off = 0, bv_buf = [\<lparr>bsize = 4, bflags = 14, bmem = 0, bfd = 3, bpos = 1\<rparr>]\<rparr>"

definition demo_mem_vec :: fuse_bufvec where
  "demo_mem_vec = \<lparr>bv_idx = 0, bv_off = 0, bv_buf = [\<lparr>bsize = 1, bflags = 0, bmem = 10, bfd = 0, bpos = 0\<rparr>,
     \<lparr>bsize = 5, bflags = 0, bmem = 20, bfd = 0, bpos = 0\<rparr>]\<rparr>"

lemmas demo_vec_defs = demo_file_vec_def demo_mem_vec_def bv_cells_def bufs_cells_def buf_cell_def
  wf_bufvec_def fuse_bufvec_current_def has_flag_def FUSE_BUF_IS_FD_def upt_rec

theorem fuse_buf_copy_prefix_witness:
  "\<exists>r dv' sv' w'. fuse_buf_copy mem_io 100 False 0 demo_mem_vec demo_file_vec demo_mem_world = Some (r, dv', sv', w') \<and>
    nat r \<le> 4 \<and>
    map (world_val mem_fval w') (take (nat r) [Mem 10, Mem 20, Mem 21, Mem 22, Mem 23, Mem 24]) =
      map (world_val mem_fval demo_mem_world) (take (nat r) [File 3 1, File 3 2, File 3 3, File 3 4]) \<and>
    (\<forall>c. c \<notin> set (take (nat r) [Mem 10, Mem 20, Mem 21, Mem 22, Mem 23, Mem 24]) \<and> c \<notin> bounce_cells 100 \<longrightarrow>
      world_val mem_fval w' c = world_val mem_fval demo_mem_world c)"
proof -
  have D: "bv_cells demo_mem_vec = [Mem 10, Mem 20, Mem 21, Mem 22, Mem 23, Mem 24]"
    and S: "bv_cells demo_file_vec = [File 3 1, File 3 2, File 3 3, File 3 4]"
    by (simp_all add: demo_vec_defs)
  have "wf_bufvec demo_mem_vec" "wf_bufvec demo_file_vec"
    "\<forall>b\<in>set (bv_buf demo_mem_vec) \<union> set (bv_buf demo_file_vec). positioned b"
    by (simp_all add: demo_vec_defs positioned_def is_file_def FUSE_BUF_FD_SEEK_def)
  moreover have "streams_apart (bounce_cells 100) (bv_cells demo_mem_vec) (bv_cells demo_file_vec)"
    by (auto simp: D S streams_apart_def bounce_cells_def)
  moreover have "min (length (bv_cells demo_mem_vec)) (length (bv_cells demo_file_vec)) = 4"
    by (simp add: D S)
  ultimately show ?thesis
    using fuse_buf_copy_prefix [OF mem_files.positioned_io_axioms, of demo_mem_vec demo_file_vec 100 0 demo_mem_world]
    unfolding D S by presburger
qed

text \<open>
  Between memory buffers \<^verbatim>\<open>fuse_buf_copy\<close> copies everything that fits: it returns the
  smaller of the two remaining sizes, for every division of the bytes into buffers (empty ones
  included), and the destination then starts with the bytes of the source.
\<close>

theorem fuse_buf_copy_memory:
  assumes "wf_bufvec dv" and "wf_bufvec sv" and "\<forall>b\<in>set (bv_buf dv) \<union> set (bv_buf sv). \<not> is_file b"
    and "streams_apart {} (bv_cells dv) (bv_cells sv)" and "n = min (length (bv_cells dv)) (length (bv_cells sv))"
  shows "\<exists>dv' sv' w'. fuse_buf_copy io stk False flags dv sv w = Some (int n, dv', sv', w') \<and>
    map (world_val fval w') (take n (bv_cells dv)) = map (world_val fval w) (take n (bv_cells sv)) \<and>
    (\<forall>c. c \<notin> set (take n (bv_cells dv)) \<longrightarrow> world_val fval w' c = world_val fval w c)"
proof -
  from memory.copy_loop_stream [OF assms(1-4), of io stk flags 0 w fval]
  obtain r dv' sv' w' m where cp: "copy_loop (fuse_buf_copy_one io stk flags) dv sv 0 w = Some (r, dv', sv', w')"
    "r = int m \<or> m = 0 \<and> r < 0" "stream_moved (world_val fval) {} (bv_cells dv) (bv_cells sv) m w w'" by auto
  moreover from memory.copy_loop_full [OF assms(1-4) cp(1)] have "r = int n" using assms(5) by simp
  moreover from this cp(2) have "m = n" by auto
  ultimately show ?thesis by (simp add: fuse_buf_copy_def stream_moved_def)
qed

theorem fuse_buf_copy_memory_witness:
  "\<exists>dv' sv' w'. fuse_buf_copy mem_io 100 False 0
      \<lparr>bv_idx = 0, bv_off = 0, bv_buf = [\<lparr>bsize = 2, bflags = 0, bmem = 50, bfd = 0, bpos = 0\<rparr>]\<rparr> demo_mem_vec
      demo_mem_world = Some (2, dv', sv', w') \<and>
    map (world_val mem_fval w') [Mem 50, Mem 51] = map (world_val mem_fval demo_mem_world) [Mem 10, Mem 20] \<and>
    (\<forall>c. c \<notin> {Mem 50, Mem 51} \<longrightarrow> world_val mem_fval w' c = world_val mem_fval demo_mem_world c)"
proof -
  let ?d = "\<lparr>bv_idx = 0, bv_off = 0, bv_buf = [\<lparr>bsize = 2, bflags = 0, bmem = 50, bfd = 0, bpos = 0\<rparr>]\<rparr>"
  have D: "bv_cells ?d = [Mem 50, Mem 51]" and S: "bv_cells demo_mem_vec = [Mem 10, Mem 20, Mem 21, Mem 22, Mem 23, Mem 24]"
    by (simp_all add: demo_vec_defs)
  have "wf_bufvec ?d" "wf_bufvec demo_mem_vec" "\<forall>b\<in>set (bv_buf ?d) \<union> set (bv_buf demo_mem_vec). \<not> is_file b"
    by (simp_all add: demo_vec_defs is_file_def)
  moreover have "streams_apart {} (bv_cells ?d) (bv_cells demo_mem_vec)"
    by (simp add: D S streams_apart_def)
  ultimately show ?thesis
    using fuse_buf_copy_memory [of ?d demo_mem_vec 2 mem_io 100 0 demo_mem_world mem_fval] by (simp add: D S)
qed

text \<open>
  \<^verbatim>\<open>fuse_buf_size\<close> is the sum of the sizes of the buffers, saturated at
  \<^verbatim>\<open>SIZE_MAX\<close>: it never wraps around.
\<close>

theorem fuse_buf_size_saturates:
  "fuse_buf_size bv = min SIZE_MAX (sum_list (map bsize (bv_buf bv)))"
  by (simp add: fuse_buf_size_def buf_size_loop_sum)

end
