(* ===== verification/InitNeg.thy ===== *)
theory InitNeg
  imports Prelude
begin

text \<open>
  The negotiation of protocol features with the kernel (\<^verbatim>\<open>lib/fuse_lowlevel.c\<close>):
  \<^verbatim>\<open>do_init\<close>, the handling of wanted features, and the conversion between the old 32-bit and
  the new 64-bit fields. The file system's own \<^verbatim>\<open>init\<close>, the page size and the \<^verbatim>\<open>max_read\<close>
  mount option are parameters. The build has \<^verbatim>\<open>splice\<close> and \<^verbatim>\<open>vmsplice\<close>.
\<close>

unbundle bit_operations_syntax

section \<open>Data\<close>

record conn_info =
  proto_major :: u32
  proto_minor :: u32
  max_write :: u32
  max_read :: u32
  max_readahead :: u32
  capable :: u32
  want :: u32
  max_background :: u32
  congestion_threshold :: u32
  time_gran :: u32
  max_backing_stack_depth :: u32
  no_interrupt :: bool
  capable_ext :: u64
  want_ext :: u64

text \<open>Which operations of \<^verbatim>\<open>struct fuse_lowlevel_ops\<close> there are, and the \<^verbatim>\<open>splice\<close> functions of \<^verbatim>\<open>io\<close>.\<close>

record op_table =
  op_write_buf :: bool
  op_getlk :: bool
  op_setlk :: bool
  op_flock :: bool
  op_readdirplus :: bool
  op_readdir :: bool
  io_splice_send :: bool
  io_splice_receive :: bool

record session =
  conn :: conn_info
  conn_want :: u32
  conn_want_ext :: u64
  bufsize :: nat
  buf_reallocable :: bool
  got_init :: bool
  error :: int
  exited :: bool
  op :: op_table

record init_in =
  in_major :: u32
  in_minor :: u32
  in_max_readahead :: u32
  in_flags :: u32
  in_flags2 :: u32

record init_out =
  out_major :: u32
  out_minor :: u32
  out_max_readahead :: u32
  out_flags :: u32
  out_max_background :: u16
  out_congestion_threshold :: u16
  out_max_write :: u32
  out_time_gran :: u32
  out_max_pages :: u16
  out_flags2 :: u32
  out_max_stack_depth :: u32

datatype init_reply = ReplyErr int | ReplyOk init_out nat

definition EPROTO :: int where "EPROTO = 71"
definition EINVAL :: int where "EINVAL = 22"
definition FUSE_MIN_READ_BUFFER :: nat where "FUSE_MIN_READ_BUFFER = 8192"
definition FUSE_BUFFER_HEADER_SIZE :: nat where "FUSE_BUFFER_HEADER_SIZE = 0x1000"
definition FUSE_DEFAULT_MAX_PAGES_PER_REQ :: nat where "FUSE_DEFAULT_MAX_PAGES_PER_REQ = 32"

text \<open>The numbers of the bits that the flags of the kernel and the capabilities are.\<close>

named_theorems flag_bits \<open>bit numbers\<close>

definition FUSE_ASYNC_READ :: nat where [flag_bits]: "FUSE_ASYNC_READ = 0"
definition FUSE_POSIX_LOCKS :: nat where [flag_bits]: "FUSE_POSIX_LOCKS = 1"
definition FUSE_ATOMIC_O_TRUNC :: nat where [flag_bits]: "FUSE_ATOMIC_O_TRUNC = 3"
definition FUSE_EXPORT_SUPPORT :: nat where [flag_bits]: "FUSE_EXPORT_SUPPORT = 4"
definition FUSE_BIG_WRITES :: nat where [flag_bits]: "FUSE_BIG_WRITES = 5"
definition FUSE_DONT_MASK :: nat where [flag_bits]: "FUSE_DONT_MASK = 6"
definition FUSE_FLOCK_LOCKS :: nat where [flag_bits]: "FUSE_FLOCK_LOCKS = 10"
definition FUSE_AUTO_INVAL_DATA :: nat where [flag_bits]: "FUSE_AUTO_INVAL_DATA = 12"
definition FUSE_DO_READDIRPLUS :: nat where [flag_bits]: "FUSE_DO_READDIRPLUS = 13"
definition FUSE_READDIRPLUS_AUTO :: nat where [flag_bits]: "FUSE_READDIRPLUS_AUTO = 14"
definition FUSE_ASYNC_DIO :: nat where [flag_bits]: "FUSE_ASYNC_DIO = 15"
definition FUSE_WRITEBACK_CACHE :: nat where [flag_bits]: "FUSE_WRITEBACK_CACHE = 16"
definition FUSE_NO_OPEN_SUPPORT :: nat where [flag_bits]: "FUSE_NO_OPEN_SUPPORT = 17"
definition FUSE_PARALLEL_DIROPS :: nat where [flag_bits]: "FUSE_PARALLEL_DIROPS = 18"
definition FUSE_HANDLE_KILLPRIV :: nat where [flag_bits]: "FUSE_HANDLE_KILLPRIV = 19"
definition FUSE_POSIX_ACL :: nat where [flag_bits]: "FUSE_POSIX_ACL = 20"
definition FUSE_MAX_PAGES :: nat where [flag_bits]: "FUSE_MAX_PAGES = 22"
definition FUSE_CACHE_SYMLINKS :: nat where [flag_bits]: "FUSE_CACHE_SYMLINKS = 23"
definition FUSE_NO_OPENDIR_SUPPORT :: nat where [flag_bits]: "FUSE_NO_OPENDIR_SUPPORT = 24"
definition FUSE_EXPLICIT_INVAL_DATA :: nat where [flag_bits]: "FUSE_EXPLICIT_INVAL_DATA = 25"
definition FUSE_HANDLE_KILLPRIV_V2 :: nat where [flag_bits]: "FUSE_HANDLE_KILLPRIV_V2 = 28"
definition FUSE_SETXATTR_EXT :: nat where [flag_bits]: "FUSE_SETXATTR_EXT = 29"
definition FUSE_INIT_EXT :: nat where [flag_bits]: "FUSE_INIT_EXT = 30"
definition FUSE_HAS_EXPIRE_ONLY :: nat where [flag_bits]: "FUSE_HAS_EXPIRE_ONLY = 35"
definition FUSE_DIRECT_IO_ALLOW_MMAP :: nat where [flag_bits]: "FUSE_DIRECT_IO_ALLOW_MMAP = 36"
definition FUSE_PASSTHROUGH :: nat where [flag_bits]: "FUSE_PASSTHROUGH = 37"
definition FUSE_NO_EXPORT_SUPPORT :: nat where [flag_bits]: "FUSE_NO_EXPORT_SUPPORT = 38"
definition FUSE_CAP_ASYNC_READ :: nat where [flag_bits]: "FUSE_CAP_ASYNC_READ = 0"
definition FUSE_CAP_POSIX_LOCKS :: nat where [flag_bits]: "FUSE_CAP_POSIX_LOCKS = 1"
definition FUSE_CAP_ATOMIC_O_TRUNC :: nat where [flag_bits]: "FUSE_CAP_ATOMIC_O_TRUNC = 3"
definition FUSE_CAP_EXPORT_SUPPORT :: nat where [flag_bits]: "FUSE_CAP_EXPORT_SUPPORT = 4"
definition FUSE_CAP_DONT_MASK :: nat where [flag_bits]: "FUSE_CAP_DONT_MASK = 6"
definition FUSE_CAP_SPLICE_WRITE :: nat where [flag_bits]: "FUSE_CAP_SPLICE_WRITE = 7"
definition FUSE_CAP_SPLICE_MOVE :: nat where [flag_bits]: "FUSE_CAP_SPLICE_MOVE = 8"
definition FUSE_CAP_SPLICE_READ :: nat where [flag_bits]: "FUSE_CAP_SPLICE_READ = 9"
definition FUSE_CAP_FLOCK_LOCKS :: nat where [flag_bits]: "FUSE_CAP_FLOCK_LOCKS = 10"
definition FUSE_CAP_IOCTL_DIR :: nat where [flag_bits]: "FUSE_CAP_IOCTL_DIR = 11"
definition FUSE_CAP_AUTO_INVAL_DATA :: nat where [flag_bits]: "FUSE_CAP_AUTO_INVAL_DATA = 12"
definition FUSE_CAP_READDIRPLUS :: nat where [flag_bits]: "FUSE_CAP_READDIRPLUS = 13"
definition FUSE_CAP_READDIRPLUS_AUTO :: nat where [flag_bits]: "FUSE_CAP_READDIRPLUS_AUTO = 14"
definition FUSE_CAP_ASYNC_DIO :: nat where [flag_bits]: "FUSE_CAP_ASYNC_DIO = 15"
definition FUSE_CAP_WRITEBACK_CACHE :: nat where [flag_bits]: "FUSE_CAP_WRITEBACK_CACHE = 16"
definition FUSE_CAP_NO_OPEN_SUPPORT :: nat where [flag_bits]: "FUSE_CAP_NO_OPEN_SUPPORT = 17"
definition FUSE_CAP_PARALLEL_DIROPS :: nat where [flag_bits]: "FUSE_CAP_PARALLEL_DIROPS = 18"
definition FUSE_CAP_POSIX_ACL :: nat where [flag_bits]: "FUSE_CAP_POSIX_ACL = 19"
definition FUSE_CAP_HANDLE_KILLPRIV :: nat where [flag_bits]: "FUSE_CAP_HANDLE_KILLPRIV = 20"
definition FUSE_CAP_HANDLE_KILLPRIV_V2 :: nat where [flag_bits]: "FUSE_CAP_HANDLE_KILLPRIV_V2 = 21"
definition FUSE_CAP_CACHE_SYMLINKS :: nat where [flag_bits]: "FUSE_CAP_CACHE_SYMLINKS = 23"
definition FUSE_CAP_NO_OPENDIR_SUPPORT :: nat where [flag_bits]: "FUSE_CAP_NO_OPENDIR_SUPPORT = 24"
definition FUSE_CAP_EXPLICIT_INVAL_DATA :: nat where [flag_bits]: "FUSE_CAP_EXPLICIT_INVAL_DATA = 25"
definition FUSE_CAP_EXPIRE_ONLY :: nat where [flag_bits]: "FUSE_CAP_EXPIRE_ONLY = 26"
definition FUSE_CAP_SETXATTR_EXT :: nat where [flag_bits]: "FUSE_CAP_SETXATTR_EXT = 27"
definition FUSE_CAP_DIRECT_IO_ALLOW_MMAP :: nat where [flag_bits]: "FUSE_CAP_DIRECT_IO_ALLOW_MMAP = 28"
definition FUSE_CAP_PASSTHROUGH :: nat where [flag_bits]: "FUSE_CAP_PASSTHROUGH = 29"
definition FUSE_CAP_NO_EXPORT_SUPPORT :: nat where [flag_bits]: "FUSE_CAP_NO_EXPORT_SUPPORT = 30"

text \<open>The flag of the kernel and the capability it stands for, in the order of the tests in \<^verbatim>\<open>do_init\<close>.\<close>

definition flag_caps :: "(nat \<times> nat) list" where
  "flag_caps =
    [(FUSE_ASYNC_READ, FUSE_CAP_ASYNC_READ),
     (FUSE_POSIX_LOCKS, FUSE_CAP_POSIX_LOCKS),
     (FUSE_ATOMIC_O_TRUNC, FUSE_CAP_ATOMIC_O_TRUNC),
     (FUSE_EXPORT_SUPPORT, FUSE_CAP_EXPORT_SUPPORT),
     (FUSE_DONT_MASK, FUSE_CAP_DONT_MASK),
     (FUSE_FLOCK_LOCKS, FUSE_CAP_FLOCK_LOCKS),
     (FUSE_AUTO_INVAL_DATA, FUSE_CAP_AUTO_INVAL_DATA),
     (FUSE_DO_READDIRPLUS, FUSE_CAP_READDIRPLUS),
     (FUSE_READDIRPLUS_AUTO, FUSE_CAP_READDIRPLUS_AUTO),
     (FUSE_ASYNC_DIO, FUSE_CAP_ASYNC_DIO),
     (FUSE_WRITEBACK_CACHE, FUSE_CAP_WRITEBACK_CACHE),
     (FUSE_NO_OPEN_SUPPORT, FUSE_CAP_NO_OPEN_SUPPORT),
     (FUSE_PARALLEL_DIROPS, FUSE_CAP_PARALLEL_DIROPS),
     (FUSE_POSIX_ACL, FUSE_CAP_POSIX_ACL),
     (FUSE_HANDLE_KILLPRIV, FUSE_CAP_HANDLE_KILLPRIV),
     (FUSE_HANDLE_KILLPRIV_V2, FUSE_CAP_HANDLE_KILLPRIV_V2),
     (FUSE_CACHE_SYMLINKS, FUSE_CAP_CACHE_SYMLINKS),
     (FUSE_NO_OPENDIR_SUPPORT, FUSE_CAP_NO_OPENDIR_SUPPORT),
     (FUSE_EXPLICIT_INVAL_DATA, FUSE_CAP_EXPLICIT_INVAL_DATA),
     (FUSE_SETXATTR_EXT, FUSE_CAP_SETXATTR_EXT),
     (FUSE_DIRECT_IO_ALLOW_MMAP, FUSE_CAP_DIRECT_IO_ALLOW_MMAP),
     (FUSE_PASSTHROUGH, FUSE_CAP_PASSTHROUGH),
     (FUSE_NO_EXPORT_SUPPORT, FUSE_CAP_NO_EXPORT_SUPPORT)]"

text \<open>The capabilities that are answered with a flag, in the order of the tests.\<close>

definition cap_flags :: "(nat \<times> nat) list" where
  "cap_flags =
    [(FUSE_CAP_ASYNC_READ, FUSE_ASYNC_READ),
     (FUSE_CAP_POSIX_LOCKS, FUSE_POSIX_LOCKS),
     (FUSE_CAP_ATOMIC_O_TRUNC, FUSE_ATOMIC_O_TRUNC),
     (FUSE_CAP_EXPORT_SUPPORT, FUSE_EXPORT_SUPPORT),
     (FUSE_CAP_DONT_MASK, FUSE_DONT_MASK),
     (FUSE_CAP_FLOCK_LOCKS, FUSE_FLOCK_LOCKS),
     (FUSE_CAP_AUTO_INVAL_DATA, FUSE_AUTO_INVAL_DATA),
     (FUSE_CAP_READDIRPLUS, FUSE_DO_READDIRPLUS),
     (FUSE_CAP_READDIRPLUS_AUTO, FUSE_READDIRPLUS_AUTO),
     (FUSE_CAP_ASYNC_DIO, FUSE_ASYNC_DIO),
     (FUSE_CAP_WRITEBACK_CACHE, FUSE_WRITEBACK_CACHE),
     (FUSE_CAP_PARALLEL_DIROPS, FUSE_PARALLEL_DIROPS),
     (FUSE_CAP_POSIX_ACL, FUSE_POSIX_ACL),
     (FUSE_CAP_HANDLE_KILLPRIV, FUSE_HANDLE_KILLPRIV),
     (FUSE_CAP_HANDLE_KILLPRIV_V2, FUSE_HANDLE_KILLPRIV_V2),
     (FUSE_CAP_CACHE_SYMLINKS, FUSE_CACHE_SYMLINKS),
     (FUSE_CAP_EXPLICIT_INVAL_DATA, FUSE_EXPLICIT_INVAL_DATA),
     (FUSE_CAP_SETXATTR_EXT, FUSE_SETXATTR_EXT),
     (FUSE_CAP_DIRECT_IO_ALLOW_MMAP, FUSE_DIRECT_IO_ALLOW_MMAP),
     (FUSE_CAP_PASSTHROUGH, FUSE_PASSTHROUGH),
     (FUSE_CAP_NO_EXPORT_SUPPORT, FUSE_NO_EXPORT_SUPPORT)]"

definition flag :: "nat \<Rightarrow> u64" where
  "flag i = push_bit i 1"

definition has_flag :: "u64 \<Rightarrow> nat \<Rightarrow> bool" where
  "has_flag x i \<longleftrightarrow> x AND flag i \<noteq> 0"

definition translate :: "(nat \<times> nat) list \<Rightarrow> u64 \<Rightarrow> u64 \<Rightarrow> u64" where
  "translate tab x = fold (\<lambda>(i, k) w. if has_flag x i then w OR flag k else w) tab"

section \<open>Wanted features\<close>

definition fuse_lower_32_bits :: "u64 \<Rightarrow> u32" where
  "fuse_lower_32_bits nr = ucast (nr AND 0xffffffff)"

definition fuse_higher_32_bits :: "u64 \<Rightarrow> u64" where
  "fuse_higher_32_bits nr = nr AND NOT 0xffffffff"

definition want_flags_valid :: "u64 \<Rightarrow> u64 \<Rightarrow> bool" where
  "want_flags_valid cap wnt \<longleftrightarrow> wnt AND NOT cap = 0"

definition fuse_convert_to_conn_want_ext :: "session \<Rightarrow> int \<times> session" where
  "fuse_convert_to_conn_want_ext se =
     (let c = conn se in
      if want c \<noteq> conn_want se \<and> fuse_lower_32_bits (want_ext c) \<noteq> want c \<and> want_ext c \<noteq> conn_want_ext se then (- EINVAL, se)
      else
        let c1 = (if want c \<noteq> conn_want se \<and> fuse_lower_32_bits (want_ext c) \<noteq> want c
                  then c\<lparr>want_ext := fuse_higher_32_bits (want_ext c) OR ucast (want c)\<rparr> else c) in
        (0, se\<lparr>conn := c1\<lparr>want := fuse_lower_32_bits (want_ext c1)\<rparr>\<rparr>))"

definition fuse_set_feature_flag :: "u64 \<Rightarrow> session \<Rightarrow> bool \<times> session" where
  "fuse_set_feature_flag fl se =
     (if capable_ext (conn se) AND fl \<noteq> 0 then
        (True, se\<lparr>conn := (conn se)\<lparr>want_ext := want_ext (conn se) OR fl, want := ucast (ucast (want (conn se)) OR fl)\<rparr>,
          conn_want_ext := conn_want_ext se OR fl, conn_want := ucast (ucast (conn_want se) OR fl)\<rparr>)
      else (False, se))"

definition fuse_unset_feature_flag :: "u64 \<Rightarrow> session \<Rightarrow> session" where
  "fuse_unset_feature_flag fl se =
     se\<lparr>conn := (conn se)\<lparr>want_ext := want_ext (conn se) AND NOT fl, want := ucast (ucast (want (conn se)) AND NOT fl)\<rparr>,
       conn_want_ext := conn_want_ext se AND NOT fl, conn_want := ucast (ucast (conn_want se) AND NOT fl)\<rparr>"

definition fuse_get_feature_flag :: "u64 \<Rightarrow> session \<Rightarrow> bool" where
  "fuse_get_feature_flag fl se \<longleftrightarrow> capable_ext (conn se) AND fl \<noteq> 0"

section \<open>do_init\<close>

definition zero_out :: init_out where
  "zero_out = \<lparr>out_major = 7, out_minor = 40, out_max_readahead = 0, out_flags = 0, out_max_background = 0,
     out_congestion_threshold = 0, out_max_write = 0, out_time_gran = 0, out_max_pages = 0, out_flags2 = 0,
     out_max_stack_depth = 0\<rparr>"

text \<open>The flags of the request: 64 bits if the kernel says so.\<close>

definition inargflags :: "init_in \<Rightarrow> u64" where
  "inargflags arg =
     (if in_minor arg \<ge> 6 then
        let fl = ucast (in_flags arg) in
        if has_flag fl FUSE_INIT_EXT then fl OR push_bit 32 (ucast (in_flags2 arg)) else fl
      else 0)"

text \<open>What the kernel offers.\<close>

definition offered :: "init_in \<Rightarrow> op_table \<Rightarrow> u64" where
  "offered arg ops =
     (let c1 = (if in_minor arg \<ge> 6 then
                  (let c = translate flag_caps (inargflags arg) 0 in
                   if in_minor arg \<ge> 38 \<or> has_flag (inargflags arg) FUSE_HAS_EXPIRE_ONLY then c OR flag FUSE_CAP_EXPIRE_ONLY else c)
                else 0);
          c2 = (if in_minor arg \<ge> 14 \<and> io_splice_send ops then c1 OR flag FUSE_CAP_SPLICE_WRITE OR flag FUSE_CAP_SPLICE_MOVE else c1);
          c3 = (if in_minor arg \<ge> 14 \<and> io_splice_receive ops then c2 OR flag FUSE_CAP_SPLICE_READ else c2) in
      if in_minor arg \<ge> 18 then c3 OR flag FUSE_CAP_IOCTL_DIR else c3)"

text \<open>What is wanted by default.\<close>

definition default_caps :: "op_table \<Rightarrow> (bool \<times> nat) list" where
  "default_caps ops =
    [(True, FUSE_CAP_ASYNC_READ), (True, FUSE_CAP_AUTO_INVAL_DATA), (True, FUSE_CAP_ASYNC_DIO), (True, FUSE_CAP_IOCTL_DIR),
     (True, FUSE_CAP_ATOMIC_O_TRUNC), (op_write_buf ops, FUSE_CAP_SPLICE_READ), (op_getlk ops \<and> op_setlk ops, FUSE_CAP_POSIX_LOCKS),
     (op_flock ops, FUSE_CAP_FLOCK_LOCKS), (op_readdirplus ops, FUSE_CAP_READDIRPLUS),
     (op_readdirplus ops \<and> op_readdir ops, FUSE_CAP_READDIRPLUS_AUTO)]"

definition set_defaults :: "session \<Rightarrow> session" where
  "set_defaults se = fold (\<lambda>(c, k) se. if c then snd (fuse_set_feature_flag (flag k) se) else se) (default_caps (op se)) se"

text \<open>The size of the request buffer before the file system has a say, and whether it may grow.\<close>

definition request_buffer :: "nat \<Rightarrow> init_in \<Rightarrow> session \<Rightarrow> nat \<times> bool" where
  "request_buffer pagesize arg se =
     (if in_minor arg \<ge> 6 \<and> \<not> has_flag (inargflags arg) FUSE_MAX_PAGES
      then (min (bufsize se) (FUSE_DEFAULT_MAX_PAGES_PER_REQ * pagesize + FUSE_BUFFER_HEADER_SIZE), False)
      else (bufsize se, buf_reallocable se))"

definition start_conn :: "init_in \<Rightarrow> session \<Rightarrow> session" where
  "start_conn arg se =
     se\<lparr>conn := (conn se)\<lparr>proto_major := in_major arg, proto_minor := in_minor arg, capable_ext := 0, want_ext := 0\<rparr>\<rparr>"

definition offer :: "init_in \<Rightarrow> session \<Rightarrow> session" where
  "offer arg se =
     (let ra = (if in_minor arg \<ge> 6 then min (max_readahead (conn se)) (in_max_readahead arg) else 0);
          se1 = set_defaults (se\<lparr>conn := (conn se)\<lparr>max_readahead := ra, capable_ext := offered arg (op se)\<rparr>\<rparr>) in
      se1\<lparr>conn := (conn se1)\<lparr>time_gran := 1\<rparr>, got_init := True\<rparr>)"

text \<open>The call of the file system's \<^verbatim>\<open>init\<close>; the result of the conversion is ignored.\<close>

definition call_init :: "(session \<Rightarrow> session) option \<Rightarrow> session \<Rightarrow> session" where
  "call_init init se =
     (case init of
        None \<Rightarrow> se
      | Some ini \<Rightarrow>
          snd (fuse_convert_to_conn_want_ext
            (ini (se\<lparr>conn := (conn se)\<lparr>capable := fuse_lower_32_bits (capable_ext (conn se))\<rparr>\<rparr>))))"

definition set_sizes :: "nat \<times> bool \<Rightarrow> session \<Rightarrow> session" where
  "set_sizes buf se =
     (let b = (if snd buf then 0xffffffff else max (fst buf) FUSE_MIN_READ_BUFFER);
          mw = word_of_nat (min (unat (max_write (conn se))) (b - FUSE_BUFFER_HEADER_SIZE)) in
      se\<lparr>conn := (conn se)\<lparr>max_write := mw\<rparr>, bufsize := unat (mw + word_of_nat FUSE_BUFFER_HEADER_SIZE)\<rparr>)"

definition outargflags :: "init_in \<Rightarrow> u64 \<Rightarrow> u64" where
  "outargflags arg wnt =
     (let f0 = (if has_flag (ucast (in_flags arg)) FUSE_MAX_PAGES then flag FUSE_MAX_PAGES else 0);
          f1 = translate cap_flags wnt (f0 OR flag FUSE_BIG_WRITES) in
      if has_flag (inargflags arg) FUSE_INIT_EXT then f1 OR flag FUSE_INIT_EXT else f1)"

definition set_background :: "conn_info \<Rightarrow> conn_info" where
  "set_background c =
     (if proto_minor c \<ge> 13 then
        let mb = (if max_background c \<ge> 65536 then 65535 else max_background c);
            ct = (if congestion_threshold c > mb then mb else congestion_threshold c);
            ct1 = (if ct = 0 then mb * 3 div 4 else ct) in
        c\<lparr>max_background := mb, congestion_threshold := ct1\<rparr>
      else c)"

definition make_out :: "nat \<Rightarrow> init_in \<Rightarrow> conn_info \<Rightarrow> init_out" where
  "make_out pagesize arg c =
     (let fl = outargflags arg (want_ext c) in
      zero_out\<lparr>
        out_max_pages := (if has_flag (ucast (in_flags arg)) FUSE_MAX_PAGES
                          then word_of_nat (unat (max_write c - 1) div pagesize + 1) else 0),
        out_max_stack_depth := (if has_flag (want_ext c) FUSE_CAP_PASSTHROUGH then max_backing_stack_depth c + 1 else 0),
        out_flags2 := (if has_flag (inargflags arg) FUSE_INIT_EXT then ucast (drop_bit 32 fl) else 0),
        out_flags := ucast fl,
        out_max_readahead := max_readahead c,
        out_max_write := max_write c,
        out_max_background := (if proto_minor c \<ge> 13 then ucast (max_background c) else 0),
        out_congestion_threshold := (if proto_minor c \<ge> 13 then ucast (congestion_threshold c) else 0),
        out_time_gran := (if proto_minor c \<ge> 23 then time_gran c else 0)\<rparr>)"

definition out_size :: "init_in \<Rightarrow> nat" where
  "out_size arg = (if in_minor arg < 5 then 8 else if in_minor arg < 23 then 24 else 64)"

definition fail_init :: "session \<Rightarrow> init_reply \<times> session" where
  "fail_init se = (ReplyErr EPROTO, se\<lparr>error := - EPROTO, exited := True\<rparr>)"

definition do_init :: "nat \<Rightarrow> u32 \<Rightarrow> (session \<Rightarrow> session) option \<Rightarrow> init_in \<Rightarrow> session \<Rightarrow> init_reply \<times> session" where
  "do_init pagesize max_read_mo init arg se =
     (let se1 = start_conn arg se in
      if in_major arg < 7 then (ReplyErr EPROTO, se1)
      else if in_major arg > 7 then (ReplyOk zero_out 64, se1)
      else
        let buf = request_buffer pagesize arg se;
            se2 = call_init init (offer arg se1) in
        if \<not> want_flags_valid (capable_ext (conn se2)) (want_ext (conn se2)) then fail_init se2
        else if max_read (conn se2) \<noteq> max_read_mo then fail_init se2
        else
          let se3 = set_sizes buf se2;
              se4 = se3\<lparr>conn := set_background (conn se3)\<rparr> in
          (ReplyOk (make_out pagesize arg (conn se4)) (out_size arg), se4))"

section \<open>Bits\<close>

lemma bit_flag [simp]: "bit (flag i) j \<longleftrightarrow> i = j \<and> j < 64"
  by (auto simp: flag_def bit_simps)

lemma has_flag_bit [simp]: "has_flag x i \<longleftrightarrow> bit x i"
proof
  assume "has_flag x i"
  then obtain j where "bit (x AND flag i) j"
    unfolding has_flag_def by (metis bit_eq_iff bit_0_eq bot_apply bot_bool_def)
  then show "bit x i"
    by (simp add: bit_simps)
next
  assume "bit x i"
  then have "bit (x AND flag i) i"
    using bit_imp_le_length [of x i] by (simp add: bit_simps)
  then show "has_flag x i"
    unfolding has_flag_def by (metis bit_0_eq bot_apply bot_bool_def)
qed

lemma bit_translate:
  "bit (translate tab x w) j \<longleftrightarrow> bit w j \<or> j < 64 \<and> (\<exists>i. (i, j) \<in> set tab \<and> bit x i)"
proof (induction tab arbitrary: w)
  case Nil
  then show ?case by (simp add: translate_def)
next
  case (Cons p tab)
  obtain i k where p: "p = (i, k)" by (cases p)
  have "translate (p # tab) x w = translate tab x (if bit x i then w OR flag k else w)"
    by (simp add: translate_def p)
  then show ?case
    by (auto simp: Cons.IH p bit_or_iff)
qed

lemma want_flags_valid_bits: "want_flags_valid cap wnt \<longleftrightarrow> (\<forall>i. bit wnt i \<longrightarrow> bit cap i)"
proof -
  have "wnt AND NOT cap = 0 \<longleftrightarrow> (\<forall>i. \<not> bit (wnt AND NOT cap) i)"
    using bit_imp_le_length [of "wnt AND NOT cap"] by (auto simp: bit_eq_iff)
  also have "\<dots> \<longleftrightarrow> (\<forall>i. bit wnt i \<longrightarrow> bit cap i)"
    using bit_imp_le_length [of wnt] by (auto simp: bit_and_iff bit_not_iff)
  finally show ?thesis
    by (simp only: want_flags_valid_def)
qed

lemma bit_lower [simp]: "bit (fuse_lower_32_bits w) i \<longleftrightarrow> i < 32 \<and> bit w i"
proof -
  have m: "(0xffffffff :: u64) = mask 32" by (simp add: mask_eq_exp_minus_1)
  show ?thesis unfolding fuse_lower_32_bits_def m by (auto simp: bit_simps)
qed

lemma bit_higher [simp]: "bit (fuse_higher_32_bits w) i \<longleftrightarrow> 32 \<le> i \<and> bit w i"
proof -
  have m: "(0xffffffff :: u64) = mask 32" by (simp add: mask_eq_exp_minus_1)
  show ?thesis using bit_imp_le_length [of w i] unfolding fuse_higher_32_bits_def m
    by (auto simp: bit_simps)
qed

section \<open>What a reply may contain\<close>

lemma cap_flags_back: "(k, i) \<in> set cap_flags \<Longrightarrow> (i', k) \<in> set flag_caps \<Longrightarrow> i' = i"
  by (auto simp: cap_flags_def flag_caps_def flag_bits)

lemma cap_flags_not_local:
  "(k, i) \<in> set cap_flags \<Longrightarrow>
   k \<notin> {FUSE_CAP_EXPIRE_ONLY, FUSE_CAP_SPLICE_WRITE, FUSE_CAP_SPLICE_MOVE, FUSE_CAP_SPLICE_READ, FUSE_CAP_IOCTL_DIR}"
  by (auto simp: cap_flags_def flag_bits)

lemma offered_bits:
  assumes "bit (offered arg ops) k"
  shows "k \<in> {FUSE_CAP_EXPIRE_ONLY, FUSE_CAP_SPLICE_WRITE, FUSE_CAP_SPLICE_MOVE, FUSE_CAP_SPLICE_READ, FUSE_CAP_IOCTL_DIR} \<or>
    (\<exists>i. (i, k) \<in> set flag_caps \<and> bit (inargflags arg) i)"
  using assms unfolding offered_def Let_def
  by (auto simp: bit_or_iff bit_translate split: if_splits)

lemma want_flags_answered:
  assumes "want_flags_valid (offered arg ops) wnt" and "bit (translate cap_flags wnt w) i"
  shows "bit w i \<or> bit (inargflags arg) i"
  using assms cap_flags_back cap_flags_not_local offered_bits
  by (fastforce simp: bit_translate want_flags_valid_bits)

lemma outargflags_offered:
  assumes "want_flags_valid (offered arg ops) wnt" and "bit (outargflags arg wnt) i"
  shows "i = FUSE_BIG_WRITES \<or> i = FUSE_MAX_PAGES \<and> bit (in_flags arg) i \<or> bit (inargflags arg) i"
  using assms(2) want_flags_answered [OF assms(1)] unfolding outargflags_def Let_def
  by (fastforce simp: bit_or_iff bit_ucast_iff split: if_splits)

lemma inargflags_low: "bit (inargflags arg) i \<Longrightarrow> i < 32 \<Longrightarrow> bit (in_flags arg) i"
  by (auto simp: inargflags_def Let_def bit_or_iff bit_ucast_iff bit_push_bit_iff split: if_splits)

lemma inargflags_high: "bit (inargflags arg) (i + 32) \<Longrightarrow> bit (in_flags2 arg) i"
  using bit_imp_le_length [of "in_flags arg" "i + 32"]
  by (auto simp: inargflags_def Let_def bit_or_iff bit_ucast_iff bit_push_bit_iff split: if_splits)

lemma capable_ext_set_feature_flag [simp]: "capable_ext (conn (snd (fuse_set_feature_flag fl se))) = capable_ext (conn se)"
  by (simp add: fuse_set_feature_flag_def)

lemma set_defaults_keep:
  assumes "\<And>c k se. P se \<Longrightarrow> P (snd (fuse_set_feature_flag (flag k) se))" and "P se"
  shows "P (set_defaults se)"
proof -
  have "P (fold (\<lambda>(c, k) se. if c then snd (fuse_set_feature_flag (flag k) se) else se) tab se)" for tab
    using assms by (induction tab arbitrary: se) auto
  then show ?thesis by (simp add: set_defaults_def)
qed

lemma capable_ext_set_defaults [simp]: "capable_ext (conn (set_defaults se)) = capable_ext (conn se)"
  by (rule set_defaults_keep [where P = "\<lambda>s. capable_ext (conn s) = capable_ext (conn se)"]) simp_all

lemma capable_ext_offer [simp]: "capable_ext (conn (offer arg se)) = offered arg (op se)"
  by (simp add: offer_def Let_def)

lemma capable_ext_convert [simp]:
  "capable_ext (conn (snd (fuse_convert_to_conn_want_ext se))) = capable_ext (conn se)"
  by (simp add: fuse_convert_to_conn_want_ext_def Let_def)

text \<open>A file system does not write the capabilities, which its interface calls read-only.\<close>

definition keeps_capable :: "(session \<Rightarrow> session) option \<Rightarrow> bool" where
  "keeps_capable init \<longleftrightarrow> (\<forall>i s. init = Some i \<longrightarrow> capable_ext (conn (i s)) = capable_ext (conn s))"

lemma capable_ext_call_init:
  assumes "keeps_capable init"
  shows "capable_ext (conn (call_init init (offer arg se))) = offered arg (op se)"
  using assms by (simp add: call_init_def keeps_capable_def split: option.splits)

lemma op_start_conn [simp]: "op (start_conn arg se) = op se"
  by (simp add: start_conn_def)

lemma conn_set_sizes [simp]: "want_ext (conn (set_sizes buf se)) = want_ext (conn se)"
  "want (conn (set_sizes buf se)) = want (conn se)"
  "proto_minor (conn (set_sizes buf se)) = proto_minor (conn se)"
  by (simp_all add: set_sizes_def Let_def)

lemma set_background_frame [simp]: "want_ext (set_background c) = want_ext c" "proto_minor (set_background c) = proto_minor c"
  "max_write (set_background c) = max_write c" "want (set_background c) = want c"
  by (simp_all add: set_background_def Let_def)

text \<open>The state of the session when the reply is made.\<close>

lemma do_init_ok:
  assumes "do_init pagesize mo init arg se = (ReplyOk out n, se')" and "in_major arg = 7"
  obtains se2 where "se2 = call_init init (offer arg (start_conn arg se))"
    "want_flags_valid (capable_ext (conn se2)) (want_ext (conn se2))" "max_read (conn se2) = mo"
    "se' = (set_sizes (request_buffer pagesize arg se) se2)\<lparr>conn := set_background (conn (set_sizes (request_buffer pagesize arg se) se2))\<rparr>"
    "out = make_out pagesize arg (conn se')"
  using assms by (auto simp: do_init_def Let_def fail_init_def split: if_splits)

text \<open>
  C17: The reply to an \<^verbatim>\<open>INIT\<close> request never enables a feature of the protocol that the kernel did
  not offer: every bit of the reply's \<^verbatim>\<open>flags\<close> but \<^verbatim>\<open>FUSE_BIG_WRITES\<close> is a bit of the
  request's \<^verbatim>\<open>flags\<close>, and every bit of \<^verbatim>\<open>flags2\<close> one of its \<^verbatim>\<open>flags2\<close>. The file system's
  \<^verbatim>\<open>init\<close> may want anything; it does not write \<^verbatim>\<open>capable_ext\<close>, as its description demands.
\<close>

theorem reply_flags_offered:
  assumes keeps: "keeps_capable init"
    and run: "do_init pagesize mo init arg se = (ReplyOk out n, se')" "in_major arg = 7"
  shows "(\<forall>i. bit (out_flags out) i \<longrightarrow> i = FUSE_BIG_WRITES \<or> bit (in_flags arg) i) \<and>
    (\<forall>i. bit (out_flags2 out) i \<longrightarrow> bit (in_flags2 arg) i)"
proof -
  obtain se2 where se2: "se2 = call_init init (offer arg (start_conn arg se))"
    and ok: "want_flags_valid (capable_ext (conn se2)) (want_ext (conn se2))"
    and out: "out = make_out pagesize arg (conn se')" and w: "want_ext (conn se') = want_ext (conn se2)"
    by (rule do_init_ok [OF run]) simp
  have valid: "want_flags_valid (offered arg (op se)) (want_ext (conn se2))"
    using ok capable_ext_call_init [OF keeps, of arg "start_conn arg se"] by (simp add: se2)
  have out: "out_flags out = ucast (outargflags arg (want_ext (conn se2)))"
    "out_flags2 out = (if bit (inargflags arg) FUSE_INIT_EXT then ucast (drop_bit 32 (outargflags arg (want_ext (conn se2)))) else 0)"
    by (simp_all add: out make_out_def Let_def w)
  have "i = FUSE_BIG_WRITES \<or> bit (in_flags arg) i" if "bit (out_flags out) i" for i
    using that outargflags_offered [OF valid, of i] inargflags_low [of arg i] by (auto simp: out bit_ucast_iff)
  moreover have "bit (in_flags2 arg) i" if "bit (out_flags2 out) i" for i
    using that outargflags_offered [OF valid, of "i + 32"] inargflags_high [of arg i]
    by (auto simp: out bit_ucast_iff bit_drop_bit_eq flag_bits add.commute split: if_splits)
  ultimately show ?thesis by blast
qed

section \<open>File systems that use the feature functions\<close>

datatype feature_call = SetFeature u64 | UnsetFeature u64

primrec feature_step :: "feature_call \<Rightarrow> session \<Rightarrow> session" where
  "feature_step (SetFeature w) se = snd (fuse_set_feature_flag w se)"
| "feature_step (UnsetFeature w) se = fuse_unset_feature_flag w se"

text \<open>
  What the calls mean on sets of features. A call may name several features at once; one common
  feature is enough for all of them to be set.
\<close>

definition features :: "u64 \<Rightarrow> nat set" where
  "features w = {k. bit w k}"

primrec pick :: "nat set \<Rightarrow> feature_call \<Rightarrow> nat set \<Rightarrow> nat set" where
  "pick cap (SetFeature w) W = (if features w \<inter> cap \<noteq> {} then W \<union> features w else W)"
| "pick cap (UnsetFeature w) W = W - features w"

text \<open>A call whose features are offered all or not at all, as those of every call for one feature are.\<close>

primrec tidy :: "nat set \<Rightarrow> feature_call \<Rightarrow> bool" where
  "tidy cap (SetFeature w) \<longleftrightarrow> features w \<subseteq> cap \<or> features w \<inter> cap = {}"
| "tidy cap (UnsetFeature w) \<longleftrightarrow> True"

definition default_features :: "op_table \<Rightarrow> nat set" where
  "default_features ops = {k. (True, k) \<in> set (default_caps ops)}"

lemma features_lt: "k \<in> features w \<Longrightarrow> k < 64"
  using bit_imp_le_length [of w k] by (simp add: features_def)

lemma features_or: "features (v OR w) = features v \<union> features w"
  by (auto simp: features_def bit_or_iff)

lemma features_and: "features (v AND w) = features v \<inter> features w"
  by (auto simp: features_def bit_and_iff)

lemma features_unset: "features (v AND NOT w) = features v - features w"
  using features_lt [of _ v] by (auto simp: features_def bit_and_iff bit_not_iff)

lemma features_empty [simp]: "features 0 = {}"
  by (simp add: features_def)

lemma features_none: "features w = {} \<longleftrightarrow> w = 0"
  using features_lt [of _ w] by (auto simp: features_def bit_eq_iff)

lemma features_flag [simp]: "k < 64 \<Longrightarrow> features (flag k) = {k}"
  by (auto simp: features_def)

lemma mask_meets: "v AND w \<noteq> 0 \<longleftrightarrow> features w \<inter> features v \<noteq> {}"
  unfolding features_none [symmetric] features_and by blast

lemma feature_step_refines:
  "features (want_ext (conn (feature_step c se))) = pick (features (capable_ext (conn se))) c (features (want_ext (conn se)))"
proof (cases c)
  case (SetFeature w)
  then show ?thesis
    by (simp add: fuse_set_feature_flag_def mask_meets features_or)
next
  case (UnsetFeature w)
  then show ?thesis by (simp add: fuse_unset_feature_flag_def features_unset)
qed

lemma feature_step_frame [simp]:
  "capable_ext (conn (feature_step c se)) = capable_ext (conn se)" "max_read (conn (feature_step c se)) = max_read (conn se)"
  "op (feature_step c se) = op se" "max_write (conn (feature_step c se)) = max_write (conn se)"
  by (cases c; simp add: fuse_set_feature_flag_def fuse_unset_feature_flag_def)+

lemma feature_step_in_sync: "want (conn se) = conn_want se \<Longrightarrow> want (conn (feature_step c se)) = conn_want (feature_step c se)"
  by (cases c) (simp_all add: fuse_set_feature_flag_def fuse_unset_feature_flag_def)

lemma feature_calls:
  "features (want_ext (conn (fold feature_step cs se))) = fold (pick (features (capable_ext (conn se)))) cs (features (want_ext (conn se)))"
  "capable_ext (conn (fold feature_step cs se)) = capable_ext (conn se)"
  "max_read (conn (fold feature_step cs se)) = max_read (conn se)"
  "max_write (conn (fold feature_step cs se)) = max_write (conn se)"
  "want (conn se) = conn_want se \<Longrightarrow> want (conn (fold feature_step cs se)) = conn_want (fold feature_step cs se)"
  by (induction cs arbitrary: se) (simp_all add: feature_step_refines feature_step_in_sync)

lemma set_defaults_calls:
  "set_defaults se = fold feature_step (map (SetFeature \<circ> flag) (map snd (filter fst (default_caps (op se))))) se"
proof -
  have "fold (\<lambda>(c, k) se. if c then snd (fuse_set_feature_flag (flag k) se) else se) tab se =
    fold feature_step (map (SetFeature \<circ> flag) (map snd (filter fst tab))) se" for tab
    by (induction tab arbitrary: se) (auto simp: case_prod_beta)
  then show ?thesis by (simp only: set_defaults_def)
qed

lemma fold_pick_set:
  "\<forall>k \<in> set ks. k < 64 \<Longrightarrow> fold (pick cap) (map (SetFeature \<circ> flag) ks) W = W \<union> (set ks \<inter> cap)"
  by (induction ks arbitrary: W) auto

lemma default_caps_lt: "\<forall>k \<in> set (map snd (filter fst (default_caps ops))). k < 64"
  by (simp add: default_caps_def flag_bits)

lemma features_set_defaults:
  "features (want_ext (conn (set_defaults se))) =
    features (want_ext (conn se)) \<union> (default_features (op se) \<inter> features (capable_ext (conn se)))"
  unfolding set_defaults_calls feature_calls(1) fold_pick_set [OF default_caps_lt]
  by (auto simp: default_features_def image_iff)

lemma pick_offered: "W \<subseteq> cap \<Longrightarrow> list_all (tidy cap) cs \<Longrightarrow> fold (pick cap) cs W \<subseteq> cap"
proof (induction cs arbitrary: W)
  case (Cons c cs)
  have "pick cap c W \<subseteq> cap" using Cons.prems by (cases c) auto
  then show ?case using Cons by simp
qed simp

lemma tidy_flag: "k < 64 \<Longrightarrow> tidy cap (SetFeature (flag k))"
  by auto

lemma convert_in_sync:
  "want (conn se) = conn_want se \<Longrightarrow>
   fuse_convert_to_conn_want_ext se = (0, se\<lparr>conn := (conn se)\<lparr>want := fuse_lower_32_bits (want_ext (conn se))\<rparr>\<rparr>)"
  by (simp add: fuse_convert_to_conn_want_ext_def Let_def)

lemma offer_in_sync:
  assumes "want (conn se) = conn_want se"
  shows "want (conn (offer arg (start_conn arg se))) = conn_want (offer arg (start_conn arg se))"
  and "max_read (conn (offer arg (start_conn arg se))) = max_read (conn se)"
  and "max_write (conn (offer arg (start_conn arg se))) = max_write (conn se)"
  and "features (want_ext (conn (offer arg (start_conn arg se)))) = default_features (op se) \<inter> features (offered arg (op se))"
  using assms
  by (simp_all add: offer_def start_conn_def Let_def features_set_defaults, simp_all add: set_defaults_calls feature_calls)

lemma call_init_features:
  assumes "want (conn se) = conn_want se"
    and se2: "se2 = call_init (Some (fold feature_step cs)) (offer arg (start_conn arg se))"
  shows "features (want_ext (conn se2)) =
      fold (pick (features (offered arg (op se)))) cs (default_features (op se) \<inter> features (offered arg (op se)))"
    "capable_ext (conn se2) = offered arg (op se)" "max_read (conn se2) = max_read (conn se)"
    "want (conn se2) = fuse_lower_32_bits (want_ext (conn se2))" "max_write (conn se2) = max_write (conn se)"
  using assms(1) unfolding se2
  by (simp_all add: call_init_def feature_calls offer_in_sync convert_in_sync)

lemma do_init_features:
  assumes "want (conn se) = conn_want se" and "in_major arg = 7" and "max_read (conn se) = mo"
    and se2: "se2 = call_init (Some (fold feature_step cs)) (offer arg (start_conn arg se))"
    and se': "se' = (set_sizes (request_buffer pagesize arg se) se2)\<lparr>conn := set_background (conn (set_sizes (request_buffer pagesize arg se) se2))\<rparr>"
  shows "do_init pagesize mo (Some (fold feature_step cs)) arg se =
    (if features (want_ext (conn se2)) \<subseteq> features (offered arg (op se))
     then (ReplyOk (make_out pagesize arg (conn se')) (out_size arg), se') else fail_init se2)"
proof -
  note init = call_init_features [OF assms(1) se2]
  have "want_flags_valid (capable_ext (conn se2)) (want_ext (conn se2)) \<longleftrightarrow>
      features (want_ext (conn se2)) \<subseteq> features (offered arg (op se))"
    by (auto simp: want_flags_valid_bits features_def init(2))
  then show ?thesis
    using assms(2,3) init(3) by (simp add: do_init_def Let_def se2 [symmetric] se')
qed

lemma do_init_tidy:
  assumes "want (conn se) = conn_want se" and "in_major arg = 7" and "max_read (conn se) = mo"
    and tidy: "list_all (tidy (features (offered arg (op se)))) cs"
    and se2: "se2 = call_init (Some (fold feature_step cs)) (offer arg (start_conn arg se))"
    and se': "se' = (set_sizes (request_buffer pagesize arg se) se2)\<lparr>conn := set_background (conn (set_sizes (request_buffer pagesize arg se) se2))\<rparr>"
  shows "do_init pagesize mo (Some (fold feature_step cs)) arg se = (ReplyOk (make_out pagesize arg (conn se')) (out_size arg), se')"
proof -
  have "features (want_ext (conn se2)) \<subseteq> features (offered arg (op se))"
    unfolding call_init_features(1) [OF assms(1) se2] by (rule pick_offered [OF _ tidy]) blast
  then show ?thesis unfolding do_init_features [OF assms(1-3) se2 se'] by simp
qed

text \<open>
  C32: A file system that chooses its features through \<^verbatim>\<open>fuse_set_feature_flag\<close> and
  \<^verbatim>\<open>fuse_unset_feature_flag\<close>, each called with any mask. The features it ends with are the defaults
  that are offered, changed by the calls in their order, where a set call does nothing if none of its
  features is offered and sets all of them if one is. \<^verbatim>\<open>do_init\<close> accepts the file system exactly if
  all of these are offered: then they are on afterwards, and the deprecated field \<^verbatim>\<open>want\<close> is the lower
  half of \<^verbatim>\<open>want_ext\<close>; otherwise it answers \<^verbatim>\<open>EPROTO\<close> and the session ends. It always accepts it
  when the features of each set call are offered all or not at all, as in a call for one feature. A
  mask that is offered in part can make it refuse: the function sets the whole of it.
\<close>

theorem feature_flags_accepted:
  assumes "want (conn se) = conn_want se" and "in_major arg = 7" and "max_read (conn se) = mo"
    and cap: "cap = features (offered arg (op se))" and W: "W = fold (pick cap) cs (default_features (op se) \<inter> cap)"
  shows "(case do_init pagesize mo (Some (fold feature_step cs)) arg se of
        (ReplyOk out n, se') \<Rightarrow> W \<subseteq> cap \<and> features (want_ext (conn se')) = W \<and>
          want (conn se') = fuse_lower_32_bits (want_ext (conn se'))
      | (ReplyErr e, se') \<Rightarrow> \<not> W \<subseteq> cap \<and> e = EPROTO \<and> error se' = - EPROTO \<and> exited se') \<and>
    (list_all (tidy cap) cs \<longrightarrow> W \<subseteq> cap)"
proof -
  have "list_all (tidy cap) cs \<Longrightarrow> W \<subseteq> cap"
    unfolding W by (rule pick_offered) auto
  then show ?thesis
    using call_init_features [OF assms(1) refl, of cs arg]
    unfolding do_init_features [OF assms(1-3) refl refl] by (simp add: fail_init_def cap W)
qed

section \<open>The two formats of wanted features\<close>

text \<open>
  The conversion of the deprecated 32-bit field: when the file system changed only the old
  field, it decides the low half of \<^verbatim>\<open>want_ext\<close> and the high half stays; when it changed only the
  new one that stays as it is; when it changed both to values that disagree the call is refused and
  nothing changes. After a successful conversion the two fields agree, so that a second
  conversion, which the high-level interface brings about, changes nothing.
\<close>

theorem convert_to_conn_want_ext_correct:
  "(case fuse_convert_to_conn_want_ext se of (r, se') \<Rightarrow>
     if want (conn se) \<noteq> conn_want se \<and> want_ext (conn se) \<noteq> conn_want_ext se \<and>
        fuse_lower_32_bits (want_ext (conn se)) \<noteq> want (conn se)
     then r = - EINVAL \<and> se' = se
     else r = 0 \<and> want (conn se') = fuse_lower_32_bits (want_ext (conn se')) \<and>
       fuse_higher_32_bits (want_ext (conn se')) = fuse_higher_32_bits (want_ext (conn se)) \<and>
       (if want (conn se) = conn_want se then want_ext (conn se') = want_ext (conn se)
        else want (conn se') = want (conn se)) \<and>
       fuse_convert_to_conn_want_ext se' = (0, se'))"
proof -
  have low: "fuse_lower_32_bits (fuse_higher_32_bits w OR ucast v) = v" for w and v :: u32
    using bit_imp_le_length [of v] by (intro bit_eqI) (auto simp: bit_or_iff bit_ucast_iff)
  have high: "fuse_higher_32_bits (fuse_higher_32_bits w OR ucast v) = fuse_higher_32_bits w" for w and v :: u32
    by (intro bit_eqI) (auto simp: bit_or_iff bit_ucast_iff dest: bit_imp_le_length)
  show ?thesis
    by (auto simp: fuse_convert_to_conn_want_ext_def Let_def low high split: if_splits)
qed

section \<open>Sizes\<close>

lemma fst_request_buffer: "fst (request_buffer pagesize arg se) \<le> bufsize se"
  by (simp add: request_buffer_def)

lemma set_sizes_no_wrap:
  assumes "fst buf < 2 ^ 32" and se'_def: "se' = set_sizes buf se"
  shows "bufsize se' = unat (max_write (conn se')) + FUSE_BUFFER_HEADER_SIZE"
    "max_write (conn se') \<le> max_write (conn se)"
    "\<not> snd buf \<Longrightarrow> bufsize se' \<le> max (fst buf) FUSE_MIN_READ_BUFFER"
proof -
  define b where "b = (if snd buf then 0xffffffff else max (fst buf) FUSE_MIN_READ_BUFFER)"
  define m where "m = min (unat (max_write (conn se))) (b - FUSE_BUFFER_HEADER_SIZE)"
  have b: "b < 2 ^ 32" "FUSE_BUFFER_HEADER_SIZE \<le> b"
    using assms(1) by (auto simp: b_def FUSE_MIN_READ_BUFFER_def FUSE_BUFFER_HEADER_SIZE_def)
  then have m: "m + FUSE_BUFFER_HEADER_SIZE < 2 ^ 32" "m + FUSE_BUFFER_HEADER_SIZE \<le> b"
    by (auto simp: m_def)
  have se': "max_write (conn se') = word_of_nat m" "bufsize se' = unat (word_of_nat (m + FUSE_BUFFER_HEADER_SIZE) :: u32)"
    by (simp_all add: se'_def set_sizes_def Let_def m_def b_def)
  have mw: "unat (word_of_nat m :: u32) = m"
    using m(1) by (simp add: unat_of_nat take_bit_nat_eq_self)
  show "bufsize se' = unat (max_write (conn se')) + FUSE_BUFFER_HEADER_SIZE"
    unfolding se' mw using m(1) by (simp only: unat_of_nat) (simp add: take_bit_nat_eq_self)
  then show "\<not> snd buf \<Longrightarrow> bufsize se' \<le> max (fst buf) FUSE_MIN_READ_BUFFER"
    using m(2) by (simp add: se' mw b_def)
  show "max_write (conn se') \<le> max_write (conn se)"
    unfolding se' word_le_nat_alt mw by (simp add: m_def)
qed

lemma set_background_bounds:
  assumes "proto_minor c \<ge> 13"
  shows "max_background (set_background c) < 65536"
    "congestion_threshold (set_background c) \<le> max_background (set_background c)"
    "max_background (set_background c) = min (max_background c) 65535"
    "congestion_threshold c \<noteq> 0 \<Longrightarrow> max_background c \<noteq> 0 \<Longrightarrow> congestion_threshold (set_background c) = min (congestion_threshold c) (min (max_background c) 65535)"
proof -
  show bound: "max_background (set_background c) < 65536"
    using assms by (auto simp: set_background_def Let_def not_le)
  have *: "x * 3 div 4 \<le> x" if "x < 65536" for x :: u32
  proof -
    have "unat (x * 3) = unat x * 3"
      using that by (simp add: unat_word_ariths word_less_nat_alt take_bit_nat_eq_self)
    then show ?thesis by (simp add: word_le_nat_alt unat_div)
  qed
  show "congestion_threshold (set_background c) \<le> max_background (set_background c)"
    using assms * [of 65535] * [of "max_background c"] by (auto simp: set_background_def Let_def)
  show "max_background (set_background c) = min (max_background c) 65535"
    using assms by (auto simp: set_background_def Let_def min_def word_le_nat_alt word_less_nat_alt)
  show "congestion_threshold (set_background c) = min (congestion_threshold c) (min (max_background c) 65535)"
    if "congestion_threshold c \<noteq> 0" "max_background c \<noteq> 0"
    using assms that by (auto simp: set_background_def Let_def min_def word_le_nat_alt word_less_nat_alt unat_eq_0)
qed

lemma unat_u16: "x < 65536 \<Longrightarrow> unat (ucast (x :: u32) :: u16) = unat x"
  by (simp add: unsigned_ucast_eq word_less_nat_alt take_bit_nat_eq_self)

text \<open>
  C34: The limits that an accepted \<^verbatim>\<open>INIT\<close> sets. The size of a write is at most what the file
  system asked for, and the session's buffer has room for the largest write and the header of the
  request, with no wrap-around of the 32-bit sum; a buffer that cannot be enlarged does not grow
  past the smallest size that the protocol needs. From protocol 7.13 on the background limit is
  the file system's, cut to 16 bits, and the congestion threshold never exceeds it.
\<close>

theorem init_limits:
  assumes run: "do_init pagesize mo init arg se = (ReplyOk out n, se')" "in_major arg = 7" and small: "bufsize se < 2 ^ 32"
    and se2: "se2 = call_init init (offer arg (start_conn arg se))"
  shows "bufsize se' = unat (out_max_write out) + FUSE_BUFFER_HEADER_SIZE \<and> out_max_write out \<le> max_write (conn se2) \<and>
    (snd (request_buffer pagesize arg se) \<or> bufsize se' \<le> max (bufsize se) FUSE_MIN_READ_BUFFER) \<and>
    (13 \<le> proto_minor (conn se2) \<longrightarrow>
      unat (out_max_background out) = min (unat (max_background (conn se2))) 65535 \<and>
      out_congestion_threshold out \<le> out_max_background out)"
proof -
  define se3 where "se3 = set_sizes (request_buffer pagesize arg se) se2"
  have res: "se' = se3\<lparr>conn := set_background (conn se3)\<rparr>" "out = make_out pagesize arg (conn se')"
    by (rule do_init_ok [OF run], simp add: se3_def se2)+
  have b: "fst (request_buffer pagesize arg se) < 2 ^ 32"
    using fst_request_buffer [of pagesize arg se] small by linarith
  note sz = set_sizes_no_wrap [OF b se3_def]
  have mw: "out_max_write out = max_write (conn se3)" "bufsize se' = bufsize se3"
    by (simp_all add: res(2) make_out_def Let_def) (simp_all add: res(1))
  have "snd (request_buffer pagesize arg se) \<or> bufsize se' \<le> max (bufsize se) FUSE_MIN_READ_BUFFER"
    using sz(3) fst_request_buffer [of pagesize arg se] mw(2) by force
  moreover have "unat (out_max_background out) = min (unat (max_background (conn se2))) 65535 \<and>
      out_congestion_threshold out \<le> out_max_background out" if minor: "13 \<le> proto_minor (conn se2)"
  proof -
    have m3: "13 \<le> proto_minor (conn se3)" "max_background (conn se3) = max_background (conn se2)"
      using minor by (simp_all add: se3_def) (simp add: set_sizes_def Let_def)
    note bg = set_background_bounds [OF m3(1)]
    have o: "out_max_background out = ucast (max_background (set_background (conn se3)))"
      "out_congestion_threshold out = ucast (congestion_threshold (set_background (conn se3)))"
      using m3(1) by (simp_all add: res(2) make_out_def Let_def) (simp_all add: res(1))
    have c: "congestion_threshold (set_background (conn se3)) < 65536"
      using bg(1,2) by (rule order.strict_trans1 [rotated])
    show ?thesis
      unfolding o word_le_nat_alt unat_u16 [OF bg(1)] unat_u16 [OF c]
      using bg(2,3) by (simp add: word_le_nat_alt m3(2) min_def)
  qed
  ultimately show ?thesis
    using sz(1,2) mw by simp
qed

text \<open>
  The number of pages in a request that the reply announces is the number of pages of the
  largest write, provided that number fits the reply's 16-bit field.
\<close>

theorem init_max_pages:
  assumes run: "do_init pagesize mo init arg se = (ReplyOk out n, se')" "in_major arg = 7"
    and flag: "bit (in_flags arg) FUSE_MAX_PAGES" and page: "0 < pagesize"
    and fits: "0 < out_max_write out" "unat (out_max_write out) \<le> 65535 * pagesize"
  shows "(unat (out_max_pages out) - 1) * pagesize < unat (out_max_write out) \<and>
    unat (out_max_write out) \<le> unat (out_max_pages out) * pagesize"
proof -
  have res: "out = make_out pagesize arg (conn se')"
    by (rule do_init_ok [OF run])
  have "FUSE_MAX_PAGES < 64" by (simp add: flag_bits)
  then have p: "out_max_pages out = word_of_nat (unat (out_max_write out - 1) div pagesize + 1)"
    using flag by (simp add: res make_out_def Let_def bit_ucast_iff)
  define w where "w = unat (out_max_write out)"
  have w: "unat (out_max_write out - 1) = w - 1" "0 < w" "w \<le> 65535 * pagesize"
    using fits unat_minus_one [of "out_max_write out"] word_gt_0 [of "out_max_write out"]
    by (simp_all add: w_def word_less_nat_alt)
  have "(w - 1) div pagesize < 65535"
    using w(2,3) page by (simp add: div_less_iff_less_mult mult.commute)
  then have "unat (out_max_pages out) = (w - 1) div pagesize + 1"
    unfolding p w(1) by (simp only: unat_of_nat) (simp add: take_bit_nat_eq_self)
  moreover have "(w - 1) div pagesize * pagesize < w" "w - 1 < ((w - 1) div pagesize + 1) * pagesize"
    using page w(2) le_less_trans [OF div_times_less_eq_dividend [of "w - 1" pagesize]] by (simp_all add: dividend_less_div_times)
  ultimately show ?thesis
    using w(2) unfolding w_def [symmetric] by auto
qed

section \<open>An example\<close>

text \<open>A session as \<^verbatim>\<open>fuse_session_new\<close> leaves it, for 256 pages, and a recent kernel.\<close>

definition example_session :: session where
  "example_session =
     \<lparr>conn = \<lparr>proto_major = 0, proto_minor = 0, max_write = 0x100000, max_read = 0, max_readahead = 0xffffffff, capable = 0,
        want = 0, max_background = 70000, congestion_threshold = 0, time_gran = 0, max_backing_stack_depth = 0, no_interrupt = False,
        capable_ext = 0, want_ext = 0\<rparr>,
      conn_want = 0, conn_want_ext = 0, bufsize = 0x101000, buf_reallocable = True, got_init = False, error = 0, exited = False,
      op = \<lparr>op_write_buf = True, op_getlk = True, op_setlk = True, op_flock = False, op_readdirplus = False, op_readdir = True,
        io_splice_send = True, io_splice_receive = True\<rparr>\<rparr>"

definition example_init :: init_in where
  "example_init = \<lparr>in_major = 7, in_minor = 40, in_max_readahead = 0x20000, in_flags = 0x73fffffb, in_flags2 = 0x30\<rparr>"

definition example_calls :: "feature_call list" where
  "example_calls = [SetFeature (flag FUSE_CAP_WRITEBACK_CACHE), SetFeature (flag FUSE_CAP_PASSTHROUGH)]"

lemma example_calls_tidy: "list_all (tidy cap) example_calls"
  by (simp add: example_calls_def flag_bits)

definition example_fs :: "session \<Rightarrow> session" where
  "example_fs = fold feature_step example_calls"

lemma example_flags: "bit (in_flags example_init) FUSE_MAX_PAGES" "bit (inargflags example_init) FUSE_MAX_PAGES"
  by (simp_all add: example_init_def inargflags_def flag_bits bit_or_iff bit_ucast_iff Let_def)

lemma example_run:
  obtains out n se' where "do_init 4096 0 (Some example_fs) example_init example_session = (ReplyOk out n, se')"
    "out_max_write out = 0x100000"
proof -
  let ?se2 = "call_init (Some example_fs) (offer example_init (start_conn example_init example_session))"
  let ?se' = "(set_sizes (request_buffer 4096 example_init example_session) ?se2)\<lparr>conn := set_background (conn (set_sizes (request_buffer 4096 example_init example_session) ?se2))\<rparr>"
  have run: "do_init 4096 0 (Some example_fs) example_init example_session = (ReplyOk (make_out 4096 example_init (conn ?se')) (out_size example_init), ?se')"
    unfolding example_fs_def by (rule do_init_tidy [OF _ _ _ example_calls_tidy refl refl])
      (simp_all add: example_session_def example_init_def)
  have "max_write (conn ?se2) = 0x100000"
    unfolding example_fs_def by (subst call_init_features [OF _ refl]) (simp_all add: example_session_def)
  then have "max_write (conn ?se') = 0x100000"
    by (simp add: set_sizes_def request_buffer_def Let_def example_flags) (simp add: example_session_def FUSE_BUFFER_HEADER_SIZE_def
      FUSE_MIN_READ_BUFFER_def FUSE_DEFAULT_MAX_PAGES_PER_REQ_def)
  then have "out_max_write (make_out 4096 example_init (conn ?se')) = 0x100000"
    by (simp add: make_out_def Let_def)
  with run that show thesis by blast
qed

theorem reply_flags_offered_witness:
  "\<exists>out n se'. do_init 4096 0 (Some example_fs) example_init example_session = (ReplyOk out n, se') \<and>
     (\<forall>i. bit (out_flags2 out) i \<longrightarrow> bit (0x30 :: u32) i)"
proof -
  obtain out n se' where run: "do_init 4096 0 (Some example_fs) example_init example_session = (ReplyOk out n, se')"
    by (rule example_run)
  have "keeps_capable (Some example_fs)" "in_major example_init = 7"
    by (simp_all add: keeps_capable_def example_fs_def feature_calls example_init_def del: fold_simps)
  from reply_flags_offered [OF this(1) run this(2)] run show ?thesis
    by (auto simp: example_init_def)
qed

text \<open>A call for an offered and for a feature that is not offered.\<close>

definition half_offered :: "feature_call list" where
  "half_offered = [SetFeature (flag FUSE_CAP_WRITEBACK_CACHE OR flag 63)]"

lemma example_offered:
  "bit (offered example_init (op example_session)) FUSE_CAP_WRITEBACK_CACHE" "\<not> bit (offered example_init (op example_session)) 63"
  by (simp_all add: offered_def Let_def bit_or_iff bit_translate flag_caps_def flag_bits inargflags_def example_init_def bit_ucast_iff)

lemma half_offered_refused:
  "\<not> fold (pick (features (offered example_init (op example_session)))) half_offered W
      \<subseteq> features (offered example_init (op example_session))"
proof -
  let ?cap = "features (offered example_init (op example_session))"
  have "FUSE_CAP_WRITEBACK_CACHE \<in> ?cap" "63 \<notin> ?cap"
    using example_offered by (simp_all add: features_def)
  then show ?thesis by (auto simp: half_offered_def features_or flag_bits)
qed

theorem feature_flags_accepted_witness:
  "(\<exists>out n se'. do_init 4096 0 (Some example_fs) example_init example_session = (ReplyOk out n, se') \<and>
      want (conn se') = fuse_lower_32_bits (want_ext (conn se'))) \<and>
   (\<exists>se'. do_init 4096 0 (Some (fold feature_step half_offered)) example_init example_session = (ReplyErr EPROTO, se') \<and> exited se')"
proof -
  have start: "want (conn example_session) = conn_want example_session" "in_major example_init = 7" "max_read (conn example_session) = 0"
    by (simp_all add: example_session_def example_init_def)
  note accepted = feature_flags_accepted [OF start refl refl, of example_calls 4096]
  note refused = feature_flags_accepted [OF start refl refl, of half_offered 4096]
  from accepted have "\<exists>out n se'. do_init 4096 0 (Some example_fs) example_init example_session = (ReplyOk out n, se') \<and>
      want (conn se') = fuse_lower_32_bits (want_ext (conn se'))"
    unfolding example_fs_def using example_calls_tidy
    by (cases "do_init 4096 0 (Some (fold feature_step example_calls)) example_init example_session")
      (auto split: init_reply.splits)
  moreover from refused have "\<exists>se'. do_init 4096 0 (Some (fold feature_step half_offered)) example_init example_session =
      (ReplyErr EPROTO, se') \<and> exited se'"
    using half_offered_refused
    by (cases "do_init 4096 0 (Some (fold feature_step half_offered)) example_init example_session")
      (auto split: init_reply.splits)
  ultimately show ?thesis by blast
qed

theorem init_limits_witness:
  "\<exists>out n se'. do_init 4096 0 (Some example_fs) example_init example_session = (ReplyOk out n, se') \<and>
     bufsize se' = 0x101000"
proof -
  obtain out n se' where run: "do_init 4096 0 (Some example_fs) example_init example_session = (ReplyOk out n, se')"
      "out_max_write out = 0x100000"
    by (rule example_run)
  have "in_major example_init = 7" "bufsize example_session < 2 ^ 32"
    by (simp_all add: example_init_def example_session_def)
  from init_limits [OF run(1) this refl] run show ?thesis
    by (simp add: FUSE_BUFFER_HEADER_SIZE_def)
qed

theorem init_max_pages_witness:
  "\<exists>out n se'. do_init 4096 0 (Some example_fs) example_init example_session = (ReplyOk out n, se') \<and>
     unat (out_max_pages out) = 256"
proof -
  obtain out n se' where run: "do_init 4096 0 (Some example_fs) example_init example_session = (ReplyOk out n, se')"
      "out_max_write out = 0x100000"
    by (rule example_run)
  have "in_major example_init = 7"
    by (simp add: example_init_def)
  from init_max_pages [OF run(1) this example_flags(1)] run show ?thesis
    by simp presburger
qed

text \<open>
  A write size whose number of pages does not fit the 16-bit field of the reply: for 256 MiB
  and pages of 4096 bytes the reply says that a request has no page at all.
\<close>

theorem max_pages_wraps:
  "max_write c = 0x10000000 \<Longrightarrow> bit (in_flags arg) FUSE_MAX_PAGES \<Longrightarrow> out_max_pages (make_out 4096 arg c) = 0"
  by (simp add: make_out_def Let_def bit_ucast_iff flag_bits)

theorem max_pages_wraps_witness:
  "out_max_pages (make_out 4096 example_init ((conn example_session)\<lparr>max_write := 0x10000000\<rparr>)) = 0"
  by (rule max_pages_wraps) (simp_all add: example_flags)

end
