(* ===== verification/ConnOpts.thy ===== *)
theory ConnOpts
  imports Helper InitNeg
begin

text \<open>
  The options by which the user of a file system changes the connection (\<^verbatim>\<open>lib/helper.c\<close>):
  the table \<^verbatim>\<open>conn_info_opt_spec\<close>, \<^verbatim>\<open>fuse_parse_conn_info_opts\<close> on the option parser, and
  \<^verbatim>\<open>fuse_apply_conn_info_opts\<close>, which a file system calls from its \<^verbatim>\<open>init\<close>. The options are
  kept in the parser's data, by the offset of the member in \<^verbatim>\<open>struct fuse_conn_info_opts\<close>.
\<close>

section \<open>The options\<close>

named_theorems conn_offsets \<open>offsets of the members\<close>

definition opt_atomic_o_trunc :: u64 where [conn_offsets]: "opt_atomic_o_trunc = 0"
definition opt_no_remote_posix_lock :: u64 where [conn_offsets]: "opt_no_remote_posix_lock = 4"
definition opt_no_remote_flock :: u64 where [conn_offsets]: "opt_no_remote_flock = 8"
definition opt_splice_write :: u64 where [conn_offsets]: "opt_splice_write = 12"
definition opt_splice_move :: u64 where [conn_offsets]: "opt_splice_move = 16"
definition opt_splice_read :: u64 where [conn_offsets]: "opt_splice_read = 20"
definition opt_no_splice_write :: u64 where [conn_offsets]: "opt_no_splice_write = 24"
definition opt_no_splice_move :: u64 where [conn_offsets]: "opt_no_splice_move = 28"
definition opt_no_splice_read :: u64 where [conn_offsets]: "opt_no_splice_read = 32"
definition opt_auto_inval_data :: u64 where [conn_offsets]: "opt_auto_inval_data = 36"
definition opt_no_auto_inval_data :: u64 where [conn_offsets]: "opt_no_auto_inval_data = 40"
definition opt_no_readdirplus :: u64 where [conn_offsets]: "opt_no_readdirplus = 44"
definition opt_no_readdirplus_auto :: u64 where [conn_offsets]: "opt_no_readdirplus_auto = 48"
definition opt_async_dio :: u64 where [conn_offsets]: "opt_async_dio = 52"
definition opt_no_async_dio :: u64 where [conn_offsets]: "opt_no_async_dio = 56"
definition opt_writeback_cache :: u64 where [conn_offsets]: "opt_writeback_cache = 60"
definition opt_no_writeback_cache :: u64 where [conn_offsets]: "opt_no_writeback_cache = 64"
definition opt_async_read :: u64 where [conn_offsets]: "opt_async_read = 68"
definition opt_sync_read :: u64 where [conn_offsets]: "opt_sync_read = 72"
definition opt_max_write :: u64 where [conn_offsets]: "opt_max_write = 76"
definition opt_max_readahead :: u64 where [conn_offsets]: "opt_max_readahead = 80"
definition opt_max_background :: u64 where [conn_offsets]: "opt_max_background = 84"
definition opt_congestion_threshold :: u64 where [conn_offsets]: "opt_congestion_threshold = 88"
definition opt_time_gran :: u64 where [conn_offsets]: "opt_time_gran = 92"
definition opt_set_max_write :: u64 where [conn_offsets]: "opt_set_max_write = 96"
definition opt_set_max_readahead :: u64 where [conn_offsets]: "opt_set_max_readahead = 100"
definition opt_set_max_background :: u64 where [conn_offsets]: "opt_set_max_background = 104"
definition opt_set_congestion_threshold :: u64 where [conn_offsets]: "opt_set_congestion_threshold = 108"
definition opt_set_time_gran :: u64 where [conn_offsets]: "opt_set_time_gran = 112"

definition CONN_OPTION :: "string \<Rightarrow> u64 \<Rightarrow> int \<Rightarrow> fuse_opt" where
  "CONN_OPTION t p v = \<lparr>templ = t, offset = p, ovalue = v\<rparr>"

definition conn_info_opt_spec :: "fuse_opt list" where
  "conn_info_opt_spec =
    [CONN_OPTION ''max_write=%u'' opt_max_write 0,
     CONN_OPTION ''max_write='' opt_set_max_write 1,
     CONN_OPTION ''max_readahead=%u'' opt_max_readahead 0,
     CONN_OPTION ''max_readahead='' opt_set_max_readahead 1,
     CONN_OPTION ''max_background=%u'' opt_max_background 0,
     CONN_OPTION ''max_background='' opt_set_max_background 1,
     CONN_OPTION ''congestion_threshold=%u'' opt_congestion_threshold 0,
     CONN_OPTION ''congestion_threshold='' opt_set_congestion_threshold 1,
     CONN_OPTION ''sync_read'' opt_sync_read 1,
     CONN_OPTION ''async_read'' opt_async_read 1,
     CONN_OPTION ''atomic_o_trunc'' opt_atomic_o_trunc 1,
     CONN_OPTION ''no_remote_lock'' opt_no_remote_posix_lock 1,
     CONN_OPTION ''no_remote_lock'' opt_no_remote_flock 1,
     CONN_OPTION ''no_remote_flock'' opt_no_remote_flock 1,
     CONN_OPTION ''no_remote_posix_lock'' opt_no_remote_posix_lock 1,
     CONN_OPTION ''splice_write'' opt_splice_write 1,
     CONN_OPTION ''no_splice_write'' opt_no_splice_write 1,
     CONN_OPTION ''splice_move'' opt_splice_move 1,
     CONN_OPTION ''no_splice_move'' opt_no_splice_move 1,
     CONN_OPTION ''splice_read'' opt_splice_read 1,
     CONN_OPTION ''no_splice_read'' opt_no_splice_read 1,
     CONN_OPTION ''auto_inval_data'' opt_auto_inval_data 1,
     CONN_OPTION ''no_auto_inval_data'' opt_no_auto_inval_data 1,
     CONN_OPTION ''readdirplus=no'' opt_no_readdirplus 1,
     CONN_OPTION ''readdirplus=yes'' opt_no_readdirplus 0,
     CONN_OPTION ''readdirplus=yes'' opt_no_readdirplus_auto 1,
     CONN_OPTION ''readdirplus=auto'' opt_no_readdirplus 0,
     CONN_OPTION ''readdirplus=auto'' opt_no_readdirplus_auto 0,
     CONN_OPTION ''async_dio'' opt_async_dio 1,
     CONN_OPTION ''no_async_dio'' opt_no_async_dio 1,
     CONN_OPTION ''writeback_cache'' opt_writeback_cache 1,
     CONN_OPTION ''no_writeback_cache'' opt_no_writeback_cache 1,
     CONN_OPTION ''time_gran=%u'' opt_time_gran 0,
     CONN_OPTION ''time_gran='' opt_set_time_gran 1]"

definition fuse_parse_conn_info_opts ::
  "(string \<Rightarrow> string \<Rightarrow> optval option) \<Rightarrow> fuse_args \<Rightarrow> schedule \<Rightarrow> ret \<times> fuse_args \<times> optdata option" where
  "fuse_parse_conn_info_opts scan args m =
     (case alloc m of (ok, m') \<Rightarrow>
        if \<not> ok then (Failed, args, None)
        else case fuse_opt_parse (Some args) Map.empty conn_info_opt_spec None scan m' of (r, a, d, _) \<Rightarrow>
          let args' = (case a of Some x \<Rightarrow> x | None \<Rightarrow> args) in
          if r \<noteq> Ok then (r, args', None) else (Ok, args', Some d))"

text \<open>A member of the structure, which \<^verbatim>\<open>calloc\<close> has zeroed.\<close>

definition opt_val :: "optdata \<Rightarrow> u64 \<Rightarrow> int" where
  "opt_val d p = (case d p of Some (VInt i) \<Rightarrow> i | _ \<Rightarrow> 0)"

definition opt_set :: "optdata \<Rightarrow> u64 \<Rightarrow> bool" where
  "opt_set d p \<longleftrightarrow> opt_val d p \<noteq> 0"

definition apply_limits :: "optdata \<Rightarrow> conn_info \<Rightarrow> conn_info" where
  "apply_limits d c =
     c\<lparr>max_write := (if opt_set d opt_set_max_write then word_of_int (opt_val d opt_max_write) else max_write c),
       max_background := (if opt_set d opt_set_max_background then word_of_int (opt_val d opt_max_background) else max_background c),
       congestion_threshold := (if opt_set d opt_set_congestion_threshold then word_of_int (opt_val d opt_congestion_threshold)
         else congestion_threshold c),
       time_gran := (if opt_set d opt_set_time_gran then word_of_int (opt_val d opt_time_gran) else time_gran c),
       max_readahead := (if opt_set d opt_set_max_readahead then word_of_int (opt_val d opt_max_readahead) else max_readahead c)\<rparr>"

text \<open>The member that is tested and the call it guards, in the order of the calls.\<close>

definition apply_table :: "(u64 \<times> feature_call) list" where
  "apply_table =
    [(opt_splice_read, SetFeature (flag FUSE_CAP_SPLICE_READ)),
     (opt_no_splice_read, UnsetFeature (flag FUSE_CAP_SPLICE_READ)),
     (opt_splice_write, SetFeature (flag FUSE_CAP_SPLICE_WRITE)),
     (opt_no_splice_write, UnsetFeature (flag FUSE_CAP_SPLICE_WRITE)),
     (opt_splice_move, SetFeature (flag FUSE_CAP_SPLICE_MOVE)),
     (opt_no_splice_move, UnsetFeature (flag FUSE_CAP_SPLICE_MOVE)),
     (opt_auto_inval_data, SetFeature (flag FUSE_CAP_AUTO_INVAL_DATA)),
     (opt_no_auto_inval_data, UnsetFeature (flag FUSE_CAP_AUTO_INVAL_DATA)),
     (opt_no_readdirplus, UnsetFeature (flag FUSE_CAP_READDIRPLUS)),
     (opt_no_readdirplus_auto, UnsetFeature (flag FUSE_CAP_READDIRPLUS_AUTO)),
     (opt_async_dio, SetFeature (flag FUSE_CAP_ASYNC_DIO)),
     (opt_no_async_dio, UnsetFeature (flag FUSE_CAP_ASYNC_DIO)),
     (opt_writeback_cache, SetFeature (flag FUSE_CAP_WRITEBACK_CACHE)),
     (opt_no_writeback_cache, UnsetFeature (flag FUSE_CAP_WRITEBACK_CACHE)),
     (opt_async_read, SetFeature (flag FUSE_CAP_ASYNC_READ)),
     (opt_sync_read, UnsetFeature (flag FUSE_CAP_ASYNC_READ)),
     (opt_no_remote_posix_lock, UnsetFeature (flag FUSE_CAP_POSIX_LOCKS)),
     (opt_no_remote_flock, UnsetFeature (flag FUSE_CAP_FLOCK_LOCKS))]"

definition fuse_apply_conn_info_opts :: "optdata \<Rightarrow> session \<Rightarrow> session" where
  "fuse_apply_conn_info_opts d se =
     fold (\<lambda>(p, c) se. if opt_set d p then feature_step c se else se) apply_table
       (se\<lparr>conn := apply_limits d (conn se)\<rparr>)"

section \<open>What the options do\<close>

definition opt_calls :: "optdata \<Rightarrow> feature_call list" where
  "opt_calls d = map snd (filter (opt_set d \<circ> fst) apply_table)"

lemma apply_is_calls:
  "fuse_apply_conn_info_opts d se = fold feature_step (opt_calls d) (se\<lparr>conn := apply_limits d (conn se)\<rparr>)"
proof -
  have "fold (\<lambda>(p, c) se. if opt_set d p then feature_step c se else se) tab s =
    fold feature_step (map snd (filter (opt_set d \<circ> fst) tab)) s" for tab s
    by (induction tab arbitrary: s) auto
  then show ?thesis by (simp add: fuse_apply_conn_info_opts_def opt_calls_def)
qed

lemma apply_limits_frame [simp]:
  "want_ext (apply_limits d c) = want_ext c" "want (apply_limits d c) = want c" "capable_ext (apply_limits d c) = capable_ext c"
  "max_read (apply_limits d c) = max_read c"
  by (simp_all add: apply_limits_def)

text \<open>The calls seen from one feature.\<close>

primrec wish :: "nat set \<Rightarrow> nat \<Rightarrow> feature_call \<Rightarrow> bool \<Rightarrow> bool" where
  "wish cap k (SetFeature w) b \<longleftrightarrow> b \<or> k \<in> features w \<and> features w \<inter> cap \<noteq> {}"
| "wish cap k (UnsetFeature w) b \<longleftrightarrow> b \<and> k \<notin> features w"

lemma pick_wish: "k \<in> pick cap c W \<longleftrightarrow> wish cap k c (k \<in> W)"
  by (cases c) auto

lemma fold_pick_wish: "k \<in> fold (pick cap) cs W \<longleftrightarrow> fold (wish cap k) cs (k \<in> W)"
  by (induction cs arbitrary: W) (simp_all add: pick_wish)

definition guarded_wish :: "bool \<Rightarrow> nat set \<Rightarrow> nat \<Rightarrow> feature_call \<Rightarrow> bool \<Rightarrow> bool" where
  "guarded_wish g cap k c b = (if g then wish cap k c b else b)"

lemma guarded_wish_flag:
  "j < 64 \<Longrightarrow> guarded_wish g cap k (SetFeature (flag j)) b \<longleftrightarrow> b \<or> g \<and> j = k \<and> k \<in> cap"
  "j < 64 \<Longrightarrow> guarded_wish g cap k (UnsetFeature (flag j)) b \<longleftrightarrow> b \<and> \<not> (g \<and> j = k)"
  by (auto simp: guarded_wish_def)

lemma fold_opt_calls:
  "fold (wish cap k) (opt_calls d) b = fold (\<lambda>(p, c). guarded_wish (opt_set d p) cap k c) apply_table b"
proof -
  have "fold (wish cap k) (map snd (filter (opt_set d \<circ> fst) tab)) b = fold (\<lambda>(p, c). guarded_wish (opt_set d p) cap k c) tab b" for tab
  proof (induction tab arbitrary: b)
    case (Cons x tab)
    then show ?case by (cases "opt_set d (fst x)") (simp_all add: guarded_wish_def case_prod_beta)
  qed simp
  then show ?thesis by (simp add: opt_calls_def)
qed

text \<open>The option that turns a feature on and the one that turns it off, where there is one.\<close>

definition enabled_by :: "nat \<Rightarrow> u64 option" where
  "enabled_by k =
     (if k = FUSE_CAP_SPLICE_READ then Some opt_splice_read
      else if k = FUSE_CAP_SPLICE_WRITE then Some opt_splice_write
      else if k = FUSE_CAP_SPLICE_MOVE then Some opt_splice_move
      else if k = FUSE_CAP_AUTO_INVAL_DATA then Some opt_auto_inval_data
      else if k = FUSE_CAP_ASYNC_DIO then Some opt_async_dio
      else if k = FUSE_CAP_WRITEBACK_CACHE then Some opt_writeback_cache
      else if k = FUSE_CAP_ASYNC_READ then Some opt_async_read
      else None)"

definition disabled_by :: "nat \<Rightarrow> u64 option" where
  "disabled_by k =
     (if k = FUSE_CAP_SPLICE_READ then Some opt_no_splice_read
      else if k = FUSE_CAP_SPLICE_WRITE then Some opt_no_splice_write
      else if k = FUSE_CAP_SPLICE_MOVE then Some opt_no_splice_move
      else if k = FUSE_CAP_AUTO_INVAL_DATA then Some opt_no_auto_inval_data
      else if k = FUSE_CAP_READDIRPLUS then Some opt_no_readdirplus
      else if k = FUSE_CAP_READDIRPLUS_AUTO then Some opt_no_readdirplus_auto
      else if k = FUSE_CAP_ASYNC_DIO then Some opt_no_async_dio
      else if k = FUSE_CAP_WRITEBACK_CACHE then Some opt_no_writeback_cache
      else if k = FUSE_CAP_ASYNC_READ then Some opt_sync_read
      else if k = FUSE_CAP_POSIX_LOCKS then Some opt_no_remote_posix_lock
      else if k = FUSE_CAP_FLOCK_LOCKS then Some opt_no_remote_flock
      else None)"

definition given :: "optdata \<Rightarrow> u64 option \<Rightarrow> bool" where
  "given d p = (case p of None \<Rightarrow> False | Some q \<Rightarrow> opt_set d q)"

lemma pick_opt_calls:
  "k \<in> fold (pick cap) (opt_calls d) W \<longleftrightarrow>
    \<not> given d (disabled_by k) \<and> (k \<in> W \<or> given d (enabled_by k) \<and> k \<in> cap)"
  unfolding fold_pick_wish fold_opt_calls apply_table_def
  by (simp add: given_def enabled_by_def disabled_by_def guarded_wish_flag flag_bits) blast

text \<open>
  The connection options do to a connection what their names say. A limit changes exactly if the
  option for it was given, to its value. A feature is wanted afterwards exactly if no option turned
  it off and it was wanted before, or an option turned it on and the kernel offers it; when both
  options are given, the one that turns the feature off wins. Features without an option keep their
  state.
\<close>

theorem apply_conn_info_opts_correct:
  "let se' = fuse_apply_conn_info_opts d se in
    (\<forall>k. bit (want_ext (conn se')) k \<longleftrightarrow>
      \<not> given d (disabled_by k) \<and> (bit (want_ext (conn se)) k \<or> given d (enabled_by k) \<and> bit (capable_ext (conn se)) k)) \<and>
    capable_ext (conn se') = capable_ext (conn se) \<and>
    max_write (conn se') = (if opt_set d opt_set_max_write then word_of_int (opt_val d opt_max_write) else max_write (conn se))"
proof -
  define se' where "se' = fuse_apply_conn_info_opts d se"
  have "features (want_ext (conn se')) = fold (pick (features (capable_ext (conn se)))) (opt_calls d) (features (want_ext (conn se)))"
    unfolding se'_def apply_is_calls feature_calls by simp
  then have "bit (want_ext (conn se')) k \<longleftrightarrow>
      \<not> given d (disabled_by k) \<and> (bit (want_ext (conn se)) k \<or> given d (enabled_by k) \<and> bit (capable_ext (conn se)) k)" for k
    using pick_opt_calls [of k "features (capable_ext (conn se))" d "features (want_ext (conn se))"]
    unfolding features_def by blast
  moreover have "capable_ext (conn se') = capable_ext (conn se)"
    "max_write (conn se') = (if opt_set d opt_set_max_write then word_of_int (opt_val d opt_max_write) else max_write (conn se))"
    unfolding se'_def apply_is_calls feature_calls by (simp_all add: apply_limits_def)
  ultimately show ?thesis unfolding se'_def [symmetric] Let_def by blast
qed

lemma apply_frame:
  "capable_ext (conn (fuse_apply_conn_info_opts d se)) = capable_ext (conn se)"
  "max_read (conn (fuse_apply_conn_info_opts d se)) = max_read (conn se)"
  "want (conn se) = conn_want se \<Longrightarrow>
    want (conn (fuse_apply_conn_info_opts d se)) = conn_want (fuse_apply_conn_info_opts d se)"
  "features (want_ext (conn (fuse_apply_conn_info_opts d se))) =
    fold (pick (features (capable_ext (conn se)))) (opt_calls d) (features (want_ext (conn se)))"
  by (simp_all add: apply_is_calls feature_calls)

lemma readdirplus_option:
  "k = FUSE_CAP_READDIRPLUS \<Longrightarrow> k \<in> default_features ops \<longleftrightarrow> op_readdirplus ops"
  "enabled_by FUSE_CAP_READDIRPLUS = None" "disabled_by FUSE_CAP_READDIRPLUS = Some opt_no_readdirplus"
  by (auto simp: default_features_def default_caps_def enabled_by_def disabled_by_def flag_bits)

text \<open>
  C33: No connection option that a user gives can make the negotiation with the kernel fail. A file
  system that applies the options in its \<^verbatim>\<open>init\<close> is accepted, and a feature is on afterwards exactly
  if the kernel offers it, no option turned it off, and it is a default or an option turned it on.
  No option turns \<^verbatim>\<open>FUSE_CAP_READDIRPLUS\<close> on: it is on exactly if it is offered, the file system has
  the operation, which makes it a default, and \<^verbatim>\<open>readdirplus=no\<close> was not given. The description of
  \<^verbatim>\<open>readdirplus=yes\<close> in \<^verbatim>\<open>fuse_common.h\<close> says that it sets the feature; the code has no call for that.
\<close>

theorem conn_opts_accepted:
  assumes "want (conn se) = conn_want se" and "in_major arg = 7" and "max_read (conn se) = mo"
  shows "\<exists>out n se'. do_init pagesize mo (Some (fuse_apply_conn_info_opts d)) arg se = (ReplyOk out n, se') \<and>
    (\<forall>k. bit (want_ext (conn se')) k \<longleftrightarrow> bit (offered arg (op se)) k \<and> \<not> given d (disabled_by k) \<and>
      (k \<in> default_features (op se) \<or> given d (enabled_by k))) \<and>
    (bit (want_ext (conn se')) FUSE_CAP_READDIRPLUS \<longleftrightarrow>
      bit (offered arg (op se)) FUSE_CAP_READDIRPLUS \<and> op_readdirplus (op se) \<and> \<not> opt_set d opt_no_readdirplus)"
proof -
  define se2 where "se2 = call_init (Some (fuse_apply_conn_info_opts d)) (offer arg (start_conn arg se))"
  have cap: "capable_ext (conn se2) = offered arg (op se)" and mo: "max_read (conn se2) = mo"
    and w: "features (want_ext (conn se2)) = fold (pick (features (offered arg (op se)))) (opt_calls d)
      (default_features (op se) \<inter> features (offered arg (op se)))"
    using assms(1,3) by (simp_all add: se2_def call_init_def apply_frame offer_in_sync convert_in_sync)
  have bits: "bit (want_ext (conn se2)) k \<longleftrightarrow> bit (offered arg (op se)) k \<and> \<not> given d (disabled_by k) \<and>
      (k \<in> default_features (op se) \<or> given d (enabled_by k))" for k
  proof -
    have "bit (want_ext (conn se2)) k \<longleftrightarrow> k \<in> features (want_ext (conn se2))"
      by (simp add: features_def)
    then show ?thesis unfolding w pick_opt_calls by (auto simp: features_def)
  qed
  then have "want_flags_valid (capable_ext (conn se2)) (want_ext (conn se2))"
    by (simp add: want_flags_valid_bits cap)
  then show ?thesis
    using assms(2) mo bits by (simp add: do_init_def Let_def se2_def [symmetric] readdirplus_option given_def) blast
qed

theorem conn_opts_accepted_witness:
  "\<exists>out n se'. do_init 4096 0 (Some (fuse_apply_conn_info_opts [opt_no_async_dio \<mapsto> VInt 1, opt_writeback_cache \<mapsto> VInt 1]))
       example_init example_session = (ReplyOk out n, se') \<and>
     \<not> bit (want_ext (conn se')) FUSE_CAP_ASYNC_DIO \<and> bit (want_ext (conn se')) FUSE_CAP_WRITEBACK_CACHE \<and>
     \<not> bit (want_ext (conn se')) FUSE_CAP_READDIRPLUS"
proof -
  let ?d = "[opt_no_async_dio \<mapsto> VInt 1, opt_writeback_cache \<mapsto> VInt 1]"
  have "want (conn example_session) = conn_want example_session" "in_major example_init = 7" "max_read (conn example_session) = 0"
    by (simp_all add: example_session_def example_init_def)
  from conn_opts_accepted [OF this, of 4096 ?d]
  obtain out n se' where run: "do_init 4096 0 (Some (fuse_apply_conn_info_opts ?d)) example_init example_session = (ReplyOk out n, se')"
    and on: "bit (want_ext (conn se')) k \<longleftrightarrow> bit (offered example_init (op example_session)) k \<and> \<not> given ?d (disabled_by k) \<and>
      (k \<in> default_features (op example_session) \<or> given ?d (enabled_by k))" for k
    by blast
  have "given ?d (disabled_by FUSE_CAP_ASYNC_DIO)" "given ?d (enabled_by FUSE_CAP_WRITEBACK_CACHE)"
    "\<not> given ?d (disabled_by FUSE_CAP_WRITEBACK_CACHE)" "\<not> given ?d (enabled_by FUSE_CAP_READDIRPLUS)"
    "FUSE_CAP_READDIRPLUS \<notin> default_features (op example_session)"
    by (simp_all add: given_def disabled_by_def enabled_by_def flag_bits conn_offsets opt_set_def opt_val_def
      default_features_def default_caps_def example_session_def)
  with run on example_offered show ?thesis by blast
qed

lemmas parse_eval = fuse_parse_conn_info_opts_def fuse_opt_parse_def opt_parse_def opt_parse_loop.simps process_one_def add_arg_def
  fuse_opt_add_arg_def null_args_def insert_opts_def drop_separator_def process_option_group_def
  process_real_option_group.simps group_step_def nul_cut_def process_gopt_def

lemma find_conn_opt:
  "find_opt conn_info_opt_spec ''readdirplus=yes'' = Some (CONN_OPTION ''readdirplus=yes'' opt_no_readdirplus 0, 0, drop 25 conn_info_opt_spec)"
  "find_opt (drop 25 conn_info_opt_spec) ''readdirplus=yes'' = Some (CONN_OPTION ''readdirplus=yes'' opt_no_readdirplus_auto 1, 0, drop 26 conn_info_opt_spec)"
  "find_opt (drop 26 conn_info_opt_spec) ''readdirplus=yes'' = None"
  "find_opt conn_info_opt_spec ''atomic_o_trunc'' = Some (CONN_OPTION ''atomic_o_trunc'' opt_atomic_o_trunc 1, 0, drop 11 conn_info_opt_spec)"
  "find_opt (drop 11 conn_info_opt_spec) ''atomic_o_trunc'' = None"
  by (simp_all add: conn_info_opt_spec_def CONN_OPTION_def match_template_def strchr_def)

lemma conn_gopt:
  "process_gopt_loop ctx conn_info_opt_spec ''readdirplus=yes'' b =
    (Ok, ctx\<lparr>cdata := (cdata ctx)(opt_no_readdirplus \<mapsto> VInt 0, opt_no_readdirplus_auto \<mapsto> VInt 1)\<rparr>)"
  "process_gopt_loop ctx conn_info_opt_spec ''atomic_o_trunc'' b = (Ok, ctx\<lparr>cdata := (cdata ctx)(opt_atomic_o_trunc \<mapsto> VInt 1)\<rparr>)"
  by (simp_all add: process_gopt_loop.simps find_conn_opt process_opt_def CONN_OPTION_def conn_offsets OFFSET_NONE_def)

text \<open>
  Two options do not do what their description says. \<^verbatim>\<open>-o readdirplus=yes\<close> is described as
  turning \<^verbatim>\<open>FUSE_CAP_READDIRPLUS\<close> on: it is parsed and taken from the command line, but it only
  turns the automatic mode off and leaves the feature itself as it was. \<^verbatim>\<open>-o atomic_o_trunc\<close> is
  described as turning that feature on: it is parsed, and applying it changes nothing at all.
\<close>

theorem readdirplus_yes_effect:
  "(\<exists>args' d. fuse_parse_conn_info_opts scan \<lparr>argv = [prog, ''-oreaddirplus=yes''], argv_null = False, allocated = False\<rparr> [] =
      (Ok, args', Some d) \<and> argv args' = [prog] \<and>
      (\<forall>se k. bit (want_ext (conn (fuse_apply_conn_info_opts d se))) k \<longleftrightarrow> bit (want_ext (conn se)) k \<and> k \<noteq> FUSE_CAP_READDIRPLUS_AUTO)) \<and>
   (\<exists>args' d. fuse_parse_conn_info_opts scan \<lparr>argv = [prog, ''-oatomic_o_trunc''], argv_null = False, allocated = False\<rparr> [] =
      (Ok, args', Some d) \<and> argv args' = [prog] \<and> (\<forall>se. fuse_apply_conn_info_opts d se = se))"
proof -
  let ?d1 = "[opt_no_readdirplus \<mapsto> VInt 0, opt_no_readdirplus_auto \<mapsto> VInt 1]"
  let ?d2 = "[opt_atomic_o_trunc \<mapsto> VInt 1]"
  let ?out = "\<lparr>argv = [prog], argv_null = False, allocated = True\<rparr>"
  have p1: "fuse_parse_conn_info_opts scan \<lparr>argv = [prog, ''-oreaddirplus=yes''], argv_null = False, allocated = False\<rparr> [] = (Ok, ?out, Some ?d1)"
    by (simp add: parse_eval find_conn_opt conn_gopt)
  have p2: "fuse_parse_conn_info_opts scan \<lparr>argv = [prog, ''-oatomic_o_trunc''], argv_null = False, allocated = False\<rparr> [] = (Ok, ?out, Some ?d2)"
    by (simp add: parse_eval find_conn_opt conn_gopt)
  have "bit (want_ext (conn (fuse_apply_conn_info_opts ?d1 se))) k \<longleftrightarrow> bit (want_ext (conn se)) k \<and> k \<noteq> FUSE_CAP_READDIRPLUS_AUTO" for se k
  proof -
    have "given ?d1 (disabled_by k) \<longleftrightarrow> k = FUSE_CAP_READDIRPLUS_AUTO" "\<not> given ?d1 (enabled_by k)"
      by (simp_all add: given_def disabled_by_def enabled_by_def flag_bits conn_offsets opt_set_def opt_val_def)
    moreover have "bit (want_ext (conn (fuse_apply_conn_info_opts ?d1 se))) k \<longleftrightarrow> k \<in> features (want_ext (conn (fuse_apply_conn_info_opts ?d1 se)))"
      by (simp add: features_def)
    ultimately show ?thesis unfolding apply_frame(4) pick_opt_calls by (auto simp: features_def)
  qed
  moreover have "fuse_apply_conn_info_opts ?d2 se = se" for se
    by (simp add: fuse_apply_conn_info_opts_def apply_table_def apply_limits_def conn_offsets opt_set_def opt_val_def)
  ultimately show ?thesis using p1 p2 by simp
qed

end
