(* ===== verification/LinkList.thy ===== *)
theory LinkList
  imports Prelude
begin

text \<open>
  The circular doubly linked lists of the library, on an explicit store of links: requests and
  notifications in \<^verbatim>\<open>lib/fuse_lowlevel.c\<close>, worker threads in \<^verbatim>\<open>lib/fuse_loop_mt.c\<close>. A list is a
  head that is not an element; an element carries its own links. The locale \<open>intrusive_list\<close> is what
  the rest of the library relies on; the three families of functions are its instances.
\<close>

record links =
  nxt :: "nat \<Rightarrow> nat"
  prv :: "nat \<Rightarrow> nat"

section \<open>The functions\<close>

definition list_init_req :: "nat \<Rightarrow> links \<Rightarrow> links" where
  "list_init_req req l = (let l1 = l\<lparr>nxt := (nxt l)(req := req)\<rparr> in l1\<lparr>prv := (prv l1)(req := req)\<rparr>)"

definition list_del_req :: "nat \<Rightarrow> links \<Rightarrow> links" where
  "list_del_req req l =
     (let p = prv l req; n = nxt l req;
          l1 = l\<lparr>nxt := (nxt l)(p := n)\<rparr> in
      l1\<lparr>prv := (prv l1)(n := p)\<rparr>)"

definition list_add_req :: "nat \<Rightarrow> nat \<Rightarrow> links \<Rightarrow> links" where
  "list_add_req req n l =
     (let p = prv l n;
          l1 = l\<lparr>nxt := (nxt l)(req := n)\<rparr>;
          l2 = l1\<lparr>prv := (prv l1)(req := p)\<rparr>;
          l3 = l2\<lparr>nxt := (nxt l2)(p := req)\<rparr> in
      l3\<lparr>prv := (prv l3)(n := req)\<rparr>)"

definition list_del_nreq :: "nat \<Rightarrow> links \<Rightarrow> links" where
  "list_del_nreq nreq l =
     (let p = prv l nreq; n = nxt l nreq;
          l1 = l\<lparr>nxt := (nxt l)(p := n)\<rparr> in
      l1\<lparr>prv := (prv l1)(n := p)\<rparr>)"

definition list_add_nreq :: "nat \<Rightarrow> nat \<Rightarrow> links \<Rightarrow> links" where
  "list_add_nreq nreq n l =
     (let p = prv l n;
          l1 = l\<lparr>nxt := (nxt l)(nreq := n)\<rparr>;
          l2 = l1\<lparr>prv := (prv l1)(nreq := p)\<rparr>;
          l3 = l2\<lparr>nxt := (nxt l2)(p := nreq)\<rparr> in
      l3\<lparr>prv := (prv l3)(n := nreq)\<rparr>)"

definition list_init_nreq :: "nat \<Rightarrow> links \<Rightarrow> links" where
  "list_init_nreq nreq l = (let l1 = l\<lparr>nxt := (nxt l)(nreq := nreq)\<rparr> in l1\<lparr>prv := (prv l1)(nreq := nreq)\<rparr>)"

definition list_add_worker :: "nat \<Rightarrow> nat \<Rightarrow> links \<Rightarrow> links" where
  "list_add_worker w n l =
     (let p = prv l n;
          l1 = l\<lparr>nxt := (nxt l)(w := n)\<rparr>;
          l2 = l1\<lparr>prv := (prv l1)(w := p)\<rparr>;
          l3 = l2\<lparr>nxt := (nxt l2)(p := w)\<rparr> in
      l3\<lparr>prv := (prv l3)(n := w)\<rparr>)"

definition list_del_worker :: "nat \<Rightarrow> links \<Rightarrow> links" where
  "list_del_worker w l =
     (let p = prv l w; n = nxt l w;
          l1 = l\<lparr>nxt := (nxt l)(p := n)\<rparr> in
      l1\<lparr>prv := (prv l1)(n := p)\<rparr>)"

text \<open>
  The loop that all searches are: from the element behind the head to the first that fits. The test
  is \<open>None\<close> if it reads memory that is not there; the result is \<open>None\<close> if that happens or if the loop
  does not end.
\<close>

partial_function (option) list_search :: "links \<Rightarrow> nat \<Rightarrow> (nat \<Rightarrow> bool option) \<Rightarrow> nat \<Rightarrow> nat option option" where
  "list_search l h p c =
     (if c = h then Some None
      else case p c of
        None \<Rightarrow> None
      | Some found \<Rightarrow> if found then Some (Some c) else list_search l h p (nxt l c))"

section \<open>Lists in the store\<close>

fun linked :: "links \<Rightarrow> nat list \<Rightarrow> bool" where
  "linked l (a # b # as) \<longleftrightarrow> nxt l a = b \<and> prv l b = a \<and> linked l (b # as)"
| "linked l as \<longleftrightarrow> True"

definition is_list :: "links \<Rightarrow> nat \<Rightarrow> nat list \<Rightarrow> bool" where
  "is_list l h xs \<longleftrightarrow> distinct (h # xs) \<and> linked l (h # xs @ [h])"

lemma linked_append: "linked l (xs @ a # ys) \<longleftrightarrow> linked l (xs @ [a]) \<and> linked l (a # ys)"
proof (induction xs)
  case (Cons x xs)
  then show ?case by (cases xs) auto
qed simp

lemma linked_cong:
  assumes "\<And>a. a \<in> set (butlast as) \<Longrightarrow> nxt l' a = nxt l a" and "\<And>a. a \<in> set (tl as) \<Longrightarrow> prv l' a = prv l a"
  shows "linked l' as \<longleftrightarrow> linked l as"
  using assms
proof (induction l as rule: linked.induct)
  case (1 l a b as)
  show ?case using "1.IH" "1.prems"(1) [of a] "1.prems" by (cases as) auto
qed auto

lemma is_list_cong:
  assumes "\<And>a. a \<in> set (h # xs) \<Longrightarrow> nxt l' a = nxt l a \<and> prv l' a = prv l a"
  shows "is_list l' h xs \<longleftrightarrow> is_list l h xs"
proof -
  have "linked l' (h # xs @ [h]) \<longleftrightarrow> linked l (h # xs @ [h])"
    by (rule linked_cong) (use assms in \<open>auto simp: butlast_append\<close>)
  then show ?thesis by (simp add: is_list_def)
qed

lemma is_list_unique: "is_list l h xs \<Longrightarrow> is_list l h ys \<Longrightarrow> xs = ys"
proof -
  have "linked l (a # xs @ [h]) \<Longrightarrow> linked l (a # ys @ [h]) \<Longrightarrow> h \<notin> set xs \<Longrightarrow> h \<notin> set ys \<Longrightarrow> xs = ys" for a
  proof (induction xs arbitrary: a ys)
    case Nil
    then show ?case by (cases ys) auto
  next
    case (Cons x xs)
    then show ?case by (cases ys) auto
  qed
  then show "is_list l h xs \<Longrightarrow> is_list l h ys \<Longrightarrow> xs = ys" by (auto simp: is_list_def)
qed

lemma is_list_split:
  assumes "is_list l h (xs @ r # ys)"
  shows "prv l r = last (h # xs)" and "nxt l r = hd (ys @ [h])"
    and "linked l (h # xs)" and "linked l (ys @ [h])"
proof -
  have *: "linked l ((h # xs) @ r # (ys @ [h]))" using assms by (simp add: is_list_def)
  then have a: "linked l ((h # xs) @ [r])" and b: "linked l (r # (ys @ [h]))"
    using linked_append by blast+
  have "linked l (zs @ [r]) \<Longrightarrow> zs \<noteq> [] \<Longrightarrow> prv l r = last zs \<and> linked l zs" for zs
  proof (induction zs)
    case (Cons z zs)
    then show ?case by (cases zs) auto
  qed simp
  from this [OF a] show "prv l r = last (h # xs)" "linked l (h # xs)" by auto
  show "nxt l r = hd (ys @ [h])" "linked l (ys @ [h])" using b by (cases ys; simp)+
qed

lemma list_search_correct:
  assumes "is_list l h xs" and "\<And>c. c \<in> set xs \<Longrightarrow> p c = Some (q c)"
  shows "list_search l h p (nxt l h) = Some (find q xs)"
proof -
  have "linked l (a # xs @ [h]) \<Longrightarrow> h \<notin> set xs \<Longrightarrow> \<forall>c\<in>set xs. p c = Some (q c) \<Longrightarrow>
      list_search l h p (nxt l a) = Some (find q xs)" for a
    by (induction xs arbitrary: a) (simp_all add: list_search.simps)
  with assms show ?thesis by (simp add: is_list_def)
qed

section \<open>The interface\<close>

text \<open>
  What adding at the end and removing promise. Besides the list itself only its neighbours in the
  store change; an element that is alone points to itself, and removing it changes nothing.
\<close>

definition alone :: "links \<Rightarrow> nat \<Rightarrow> bool" where
  "alone l r \<longleftrightarrow> nxt l r = r \<and> prv l r = r"

definition same_links :: "nat set \<Rightarrow> links \<Rightarrow> links \<Rightarrow> bool" where
  "same_links A l l' \<longleftrightarrow> (\<forall>a\<in>A. nxt l' a = nxt l a \<and> prv l' a = prv l a)"

lemma is_list_same: "same_links (set (h # xs)) l l' \<Longrightarrow> is_list l h xs \<Longrightarrow> is_list l' h xs"
  using is_list_cong [of h xs l' l] by (auto simp: same_links_def)

lemma alone_same: "same_links A l l' \<Longrightarrow> r \<in> A \<Longrightarrow> alone l r \<Longrightarrow> alone l' r"
  by (simp add: same_links_def alone_def)

lemma same_links_mono: "same_links A l l' \<Longrightarrow> B \<subseteq> A \<Longrightarrow> same_links B l l'"
  by (auto simp: same_links_def)

locale intrusive_list =
  fixes add :: "nat \<Rightarrow> nat \<Rightarrow> links \<Rightarrow> links" and del :: "nat \<Rightarrow> links \<Rightarrow> links"
  assumes add_list: "is_list l h xs \<Longrightarrow> r \<notin> set (h # xs) \<Longrightarrow> is_list (add r h l) h (xs @ [r])"
    and add_frame: "is_list l h xs \<Longrightarrow> same_links (- insert r (set (h # xs))) l (add r h l)"
    and del_list: "is_list l h (xs @ r # ys) \<Longrightarrow> is_list (del r l) h (xs @ ys)"
    and del_frame: "is_list l h xs \<Longrightarrow> r \<in> set xs \<Longrightarrow> same_links (- set (h # xs)) l (del r l)"
    and del_alone: "alone l r \<Longrightarrow> del r l = l"
begin

lemma add_other:
  assumes "is_list l h xs" and "is_list l k ys" and "set (h # xs) \<inter> set (k # ys) = {}" and "r \<notin> set (k # ys)"
  shows "is_list (add r h l) k ys"
proof (rule is_list_same [OF _ assms(2)])
  show "same_links (set (k # ys)) l (add r h l)"
    by (rule same_links_mono [OF add_frame [OF assms(1)]]) (use assms(3,4) in auto)
qed

lemma del_member: "is_list l h xs \<Longrightarrow> r \<in> set xs \<Longrightarrow> is_list (del r l) h (remove1 r xs)"
proof -
  assume l: "is_list l h xs" and "r \<in> set xs"
  then obtain as bs where xs: "xs = as @ r # bs" "r \<notin> set as" by (meson split_list_first)
  then show ?thesis using del_list [of l h as r bs] l by (simp add: remove1_append)
qed

lemma del_other:
  assumes "is_list l h xs" and "r \<in> set xs" and "is_list l k ys" and "set (h # xs) \<inter> set (k # ys) = {}"
  shows "is_list (del r l) k ys"
proof (rule is_list_same [OF _ assms(3)])
  show "same_links (set (k # ys)) l (del r l)"
    by (rule same_links_mono [OF del_frame [OF assms(1,2)]]) (use assms(4) in auto)
qed

lemma alone_add: "is_list l h xs \<Longrightarrow> alone l a \<Longrightarrow> a \<notin> insert r (set (h # xs)) \<Longrightarrow> alone (add r h l) a"
  by (rule alone_same [OF add_frame]) auto

lemma alone_del: "is_list l h xs \<Longrightarrow> r \<in> set xs \<Longrightarrow> alone l a \<Longrightarrow> a \<notin> set (h # xs) \<Longrightarrow> alone (del r l) a"
  by (rule alone_same [OF del_frame]) auto

lemma add_all_list:
  assumes "is_list l h xs" and "distinct rs" and "set rs \<inter> set (h # xs) = {}"
  shows "is_list (fold (\<lambda>r. add r h) rs l) h (xs @ rs)"
  using assms
proof (induction rs arbitrary: l xs)
  case (Cons r rs)
  have "is_list (add r h l) h (xs @ [r])" by (rule add_list) (use Cons.prems in auto)
  then show ?case using Cons.IH [of "add r h l" "xs @ [r]"] Cons.prems by auto
qed simp

end

section \<open>The instances\<close>

lemma linked_snoc: "linked l (as @ [a, b]) \<longleftrightarrow> linked l (as @ [a]) \<and> nxt l a = b \<and> prv l b = a"
  using linked_append [of l as a "[b]"] by auto

lemma prv_head: "is_list l h xs \<Longrightarrow> prv l h = last (h # xs)"
  using linked_snoc [of l "h # butlast xs" "last xs" h] by (cases xs rule: rev_cases) (auto simp: is_list_def)

lemma nxt_head: "is_list l h xs \<Longrightarrow> nxt l h = hd (xs @ [h])"
  by (cases xs) (auto simp: is_list_def)

lemma list_add_req_list:
  assumes l: "is_list l h xs" and r: "r \<notin> set (h # xs)"
  shows "is_list (list_add_req r h l) h (xs @ [r])"
proof -
  define p where "p = last (h # xs)"
  obtain as where as: "h # xs = as @ [p]" unfolding p_def by (metis append_butlast_last_id list.distinct(1))
  let ?l = "list_add_req r h l"
  have p: "prv l h = p" using prv_head [OF l] by (simp add: p_def)
  have d: "distinct (as @ [p])" "r \<notin> set (as @ [p])" "linked l (as @ [p])" "h \<in> set (as @ [p])"
    using l r as is_list_def linked_append [of l as p "[h]"] by (metis append_Cons append_assoc append_Nil list.set_intros(1) distinct.simps(2))+
  have "linked ?l (as @ [p]) \<longleftrightarrow> linked l (as @ [p])"
  proof (rule linked_cong)
    show "nxt ?l a = nxt l a" if "a \<in> set (butlast (as @ [p]))" for a
      using that d by (auto simp: list_add_req_def Let_def p)
    show "prv ?l a = prv l a" if "a \<in> set (tl (as @ [p]))" for a
    proof -
      have "tl (as @ [p]) = xs" using as by (metis list.sel(3))
      then have "a \<in> set xs" "a \<noteq> h" "a \<noteq> r" using that l r by (auto simp: is_list_def)
      then show ?thesis by (auto simp: list_add_req_def Let_def p)
    qed
  qed
  moreover have "nxt ?l p = r" "prv ?l r = p" "nxt ?l r = h" "prv ?l h = r"
    using d by (auto simp: list_add_req_def Let_def p)
  ultimately have "linked ?l ((h # xs) @ [r, h])"
    unfolding as using d(3) linked_append [of ?l as p "[r, h]"] by auto
  then show ?thesis using l r by (simp add: is_list_def)
qed

lemma list_del_req_list:
  assumes l: "is_list l h (xs @ r # ys)"
  shows "is_list (list_del_req r l) h (xs @ ys)"
proof -
  let ?l = "list_del_req r l" and ?p = "last (h # xs)" and ?n = "hd (ys @ [h])"
  note sp = is_list_split [OF l]
  have d: "distinct (h # xs @ r # ys)" using l by (simp add: is_list_def)
  have p: "nxt ?l ?p = ?n" "prv ?l ?n = ?p"
    by (simp_all add: list_del_req_def Let_def sp(1,2))
  have 1: "linked ?l (h # xs)"
  proof -
    have "linked ?l (h # xs) \<longleftrightarrow> linked l (h # xs)"
    proof (rule linked_cong)
      show "nxt ?l a = nxt l a" if "a \<in> set (butlast (h # xs))" for a
      proof -
        have "a \<noteq> last (h # xs)" using that d
          by (metis append_butlast_last_id distinct.simps(2) distinct_append distinct1_rotate list.distinct(1) not_distinct_conv_prefix rotate1.simps(2) append_Cons)
        then show ?thesis by (simp add: list_del_req_def Let_def sp(1,2))
      qed
      show "prv ?l a = prv l a" if "a \<in> set (tl (h # xs))" for a
        using that d by (cases ys) (auto simp: list_del_req_def Let_def sp(2))
    qed
    with sp(3) show ?thesis by simp
  qed
  have 2: "linked ?l (ys @ [h])"
  proof -
    have "linked ?l (ys @ [h]) \<longleftrightarrow> linked l (ys @ [h])"
    proof (rule linked_cong)
      show "nxt ?l a = nxt l a" if "a \<in> set (butlast (ys @ [h]))" for a
      proof -
        have "a \<noteq> last (h # xs)" using that d last_in_set [of "h # xs"] by auto
        then show ?thesis by (simp add: list_del_req_def Let_def sp(1,2))
      qed
      show "prv ?l a = prv l a" if "a \<in> set (tl (ys @ [h]))" for a
        using that d by (cases ys) (auto simp: list_del_req_def Let_def sp(2))
    qed
    with sp(4) show ?thesis by simp
  qed
  have *: "linked k (zs @ [last (h # xs)]) \<Longrightarrow> linked k (?n # bs) \<Longrightarrow> nxt k (last (h # xs)) = ?n \<Longrightarrow> prv k ?n = last (h # xs) \<Longrightarrow>
      linked k ((zs @ [last (h # xs)]) @ ?n # bs)" for k zs bs
    using linked_append [of k zs ?p "?n # bs"] by simp
  have as: "butlast (h # xs) @ [?p] = h # xs" by (rule append_butlast_last_id) simp
  have bs: "?n # tl (ys @ [h]) = ys @ [h]" by (cases ys) auto
  have "linked ?l (h # xs @ ys @ [h])"
    using * [of ?l "butlast (h # xs)" "tl (ys @ [h])"] 1 2 p unfolding as bs by simp
  then show ?thesis using d by (simp add: is_list_def)
qed

interpretation reqs: intrusive_list list_add_req list_del_req
proof
  show "is_list (list_add_req r h l) h (xs @ [r])" if "is_list l h xs" "r \<notin> set (h # xs)" for l h xs r
    using that by (rule list_add_req_list)
  show "is_list (list_del_req r l) h (xs @ ys)" if "is_list l h (xs @ r # ys)" for l h xs r ys
    using that by (rule list_del_req_list)
  show "same_links (- insert r (set (h # xs))) l (list_add_req r h l)" if "is_list l h xs" for l h xs r
    using prv_head [OF that] last_in_set [of "h # xs"] by (auto simp: same_links_def list_add_req_def Let_def)
  show "same_links (- set (h # xs)) l (list_del_req r l)" if l: "is_list l h xs" and r: "r \<in> set xs" for l h xs r
  proof -
    obtain as bs where xs: "xs = as @ r # bs" using r by (meson split_list)
    have "prv l r \<in> set (h # xs)" "nxt l r \<in> set (h # xs)"
      using is_list_split [OF l [unfolded xs]] last_in_set [of "h # as"] hd_in_set [of "bs @ [h]"] xs by auto
    then show ?thesis by (auto simp: same_links_def list_del_req_def Let_def)
  qed
  show "list_del_req r l = l" if "alone l r" for l r
    using that by (simp add: alone_def list_del_req_def Let_def fun_upd_idem)
qed

lemma same_functions:
  "list_add_nreq = list_add_req" "list_del_nreq = list_del_req" "list_init_nreq = list_init_req"
  "list_add_worker = list_add_req" "list_del_worker = list_del_req"
  by (auto intro!: ext simp: list_add_nreq_def list_add_req_def list_del_nreq_def list_del_req_def list_init_nreq_def list_init_req_def
    list_add_worker_def list_del_worker_def)

interpretation nreqs: intrusive_list list_add_nreq list_del_nreq
  unfolding same_functions by (rule reqs.intrusive_list_axioms)

interpretation workers: intrusive_list list_add_worker list_del_worker
  unfolding same_functions by (rule reqs.intrusive_list_axioms)

lemma list_init_alone [simp]: "alone (list_init_req r l) r"
  by (simp add: alone_def list_init_req_def Let_def)

lemma list_init_frame: "same_links (- {r}) l (list_init_req r l)"
  by (simp add: same_links_def list_init_req_def Let_def)

lemma alone_is_list: "is_list l h [] \<longleftrightarrow> alone l h"
  by (auto simp: is_list_def alone_def)

text \<open>
  The list functions implement a sequence. From a well-formed list, \<^verbatim>\<open>list_add_req\<close> with the
  head as position appends the element, a search for it ends and finds it, unless an earlier element
  fits, and \<^verbatim>\<open>list_del_req\<close> gives the old list back; adding a sequence of elements one by one
  leaves them behind the old ones in their order.
\<close>

theorem request_list_refines:
  assumes "is_list l h xs" and "distinct rs" and "set rs \<inter> set (h # xs) = {}" and "r \<in> set rs" and "\<And>c. p c = Some (q c)"
  shows "is_list (fold (\<lambda>r. list_add_req r h) rs l) h (xs @ rs) \<and>
    is_list (list_del_req r (fold (\<lambda>r. list_add_req r h) rs l)) h (xs @ remove1 r rs) \<and>
    list_search (fold (\<lambda>r. list_add_req r h) rs l) h p (nxt (fold (\<lambda>r. list_add_req r h) rs l) h) = Some (find q (xs @ rs))"
proof -
  have *: "is_list (fold (\<lambda>r. list_add_req r h) rs l) h (xs @ rs)"
    by (rule reqs.add_all_list [OF assms(1-3)])
  have "remove1 r (xs @ rs) = xs @ remove1 r rs"
    using assms(3,4) by (auto simp: remove1_append)
  with * reqs.del_member [OF *, of r] list_search_correct [OF *, of p q] assms(4,5) show ?thesis by simp
qed

theorem request_list_refines_witness:
  "let l = fold (\<lambda>r. list_add_req r 0) [5, 3] (list_init_req 0 \<lparr>nxt = \<lambda>_. 9, prv = \<lambda>_. 9\<rparr>) in
     is_list l 0 [5, 3] \<and> is_list (list_del_req 5 l) 0 [3] \<and> list_search l 0 (\<lambda>c. Some (c = 3)) (nxt l 0) = Some (Some 3)"
  using request_list_refines [of "list_init_req 0 \<lparr>nxt = \<lambda>_. 9, prv = \<lambda>_. 9\<rparr>" 0 "[]" "[5, 3]" 5 "\<lambda>c. Some (c = 3)" "\<lambda>c. c = 3"]
  unfolding alone_is_list by (simp add: Let_def)

end
