(* ===== verification/Requests.thy ===== *)
theory Requests
  imports LinkList "HOL-Library.Monad_Syntax"
begin

text \<open>
  Requests and interrupts (\<^verbatim>\<open>lib/fuse_lowlevel.c\<close>): how a request is allocated, listed, found by an
  interrupt, counted and freed, and the reference counts of channels (\<^verbatim>\<open>lib/fuse_loop_mt.c\<close>).
  Requests live in an explicit store; \<open>None\<close> is the result of an operation that touches memory that
  has been freed, fails an assertion or destroys a mutex that is held. What is done under one
  \<^verbatim>\<open>se->lock\<close> is one operation. The callbacks of the file system are numbers.
\<close>

section \<open>Data\<close>

datatype req_u = U_i u64 | U_ni "nat option" nat

record fuse_req =
  unique :: u64
  ref_cnt :: int
  locked :: bool
  ch :: "nat option"
  interrupted :: bool
  req_u :: req_u

record req_state =
  requests :: "nat \<rightharpoonup> fuse_req"
  rlinks :: links
  chan_ctr :: "nat \<Rightarrow> int"

text \<open>The heads of \<^verbatim>\<open>se->list\<close> and \<^verbatim>\<open>se->interrupts\<close>.\<close>

definition LIST :: nat where "LIST = 0"
definition INTERRUPTS :: nat where "INTERRUPTS = 1"

definition present :: "req_state \<Rightarrow> nat \<Rightarrow> bool" where
  "present s a \<longleftrightarrow> a = LIST \<or> a = INTERRUPTS \<or> requests s a \<noteq> None"

definition read_req :: "nat \<Rightarrow> req_state \<Rightarrow> fuse_req option" where
  "read_req a s = requests s a"

definition write_req :: "nat \<Rightarrow> fuse_req \<Rightarrow> req_state \<Rightarrow> req_state option" where
  "write_req a r s = (if requests s a = None then None else Some (s\<lparr>requests := (requests s)(a \<mapsto> r)\<rparr>))"

definition del_link :: "nat \<Rightarrow> req_state \<Rightarrow> req_state option" where
  "del_link a s =
     (if present s a \<and> present s (prv (rlinks s) a) \<and> present s (nxt (rlinks s) a)
      then Some (s\<lparr>rlinks := list_del_req a (rlinks s)\<rparr>) else None)"

definition add_link :: "nat \<Rightarrow> nat \<Rightarrow> req_state \<Rightarrow> req_state option" where
  "add_link a h s =
     (if present s a \<and> present s h \<and> present s (prv (rlinks s) h)
      then Some (s\<lparr>rlinks := list_add_req a h (rlinks s)\<rparr>) else None)"

section \<open>Channels\<close>

text \<open>A channel with counter 0 has been closed and freed.\<close>

definition fuse_chan_get :: "nat \<Rightarrow> req_state \<Rightarrow> req_state option" where
  "fuse_chan_get c s = (if 0 < chan_ctr s c then Some (s\<lparr>chan_ctr := (chan_ctr s)(c := chan_ctr s c + 1)\<rparr>) else None)"

definition fuse_chan_put :: "nat option \<Rightarrow> req_state \<Rightarrow> req_state option" where
  "fuse_chan_put co s =
     (case co of
        None \<Rightarrow> Some s
      | Some c \<Rightarrow> if 0 < chan_ctr s c then Some (s\<lparr>chan_ctr := (chan_ctr s)(c := chan_ctr s c - 1)\<rparr>) else None)"

section \<open>Allocation and release\<close>

definition destroy_req :: "nat \<Rightarrow> req_state \<Rightarrow> req_state option" where
  "destroy_req a s = do {
     r \<leftarrow> read_req a s;
     if ch r = None \<and> \<not> locked r then Some (s\<lparr>requests := (requests s)(a := None)\<rparr>) else None
   }"

definition fuse_free_req :: "bool \<Rightarrow> nat \<Rightarrow> req_state \<Rightarrow> req_state option" where
  "fuse_free_req no_intr a s = do {
     r \<leftarrow> read_req a s;
     s1 \<leftarrow> (if no_intr then Some s else do {s0 \<leftarrow> write_req a (r\<lparr>req_u := U_ni None 0\<rparr>) s; del_link a s0});
     r1 \<leftarrow> read_req a s1;
     s2 \<leftarrow> write_req a (r1\<lparr>ref_cnt := ref_cnt r1 - 1\<rparr>) s1;
     s3 \<leftarrow> fuse_chan_put (ch r1) s2;
     s4 \<leftarrow> write_req a (r1\<lparr>ref_cnt := ref_cnt r1 - 1, ch := None\<rparr>) s3;
     if ref_cnt r1 - 1 = 0 then destroy_req a s4 else Some s4
   }"

text \<open>\<open>a\<close> is the address that the allocator returns.\<close>

definition fuse_ll_alloc_req :: "nat \<Rightarrow> req_state \<Rightarrow> req_state" where
  "fuse_ll_alloc_req a s =
     s\<lparr>requests := (requests s)(a \<mapsto> \<lparr>unique = 0, ref_cnt = 1, locked = False, ch = None, interrupted = False, req_u = U_ni None 0\<rparr>),
       rlinks := list_init_req a (rlinks s)\<rparr>"

text \<open>The start of \<^verbatim>\<open>fuse_session_process_buf_internal\<close>: the request and its channel.\<close>

definition receive_req :: "nat \<Rightarrow> u64 \<Rightarrow> nat option \<Rightarrow> req_state \<Rightarrow> req_state option" where
  "receive_req a uniq c s = do {
     let s1 = fuse_ll_alloc_req a s;
     r \<leftarrow> read_req a s1;
     s2 \<leftarrow> (case c of None \<Rightarrow> Some s1 | Some k \<Rightarrow> fuse_chan_get k s1);
     write_req a (r\<lparr>unique := uniq, ch := c\<rparr>) s2
   }"

section \<open>Interrupts\<close>

definition has_unique :: "u64 \<Rightarrow> req_state \<Rightarrow> nat \<Rightarrow> bool option" where
  "has_unique v s a = map_option (\<lambda>r. unique r = v) (read_req a s)"

definition interrupts_unique :: "u64 \<Rightarrow> req_state \<Rightarrow> nat \<Rightarrow> bool option" where
  "interrupts_unique v s a =
     (case read_req a s of Some r \<Rightarrow> (case req_u r of U_i w \<Rightarrow> Some (w = v) | U_ni _ _ \<Rightarrow> None) | None \<Rightarrow> None)"

datatype interrupt_target = Processing nat | Queued | Unknown

text \<open>\<^verbatim>\<open>find_interrupted\<close> up to the point where it gives \<^verbatim>\<open>se->lock\<close> away.\<close>

definition find_interrupted :: "u64 \<Rightarrow> req_state \<Rightarrow> (interrupt_target \<times> req_state) option" where
  "find_interrupted v s = do {
     found \<leftarrow> list_search (rlinks s) LIST (has_unique v s) (nxt (rlinks s) LIST);
     case found of
       Some c \<Rightarrow> do {r \<leftarrow> read_req c s; s1 \<leftarrow> write_req c (r\<lparr>ref_cnt := ref_cnt r + 1\<rparr>) s; Some (Processing c, s1)}
     | None \<Rightarrow> do {
         queued \<leftarrow> list_search (rlinks s) INTERRUPTS (interrupts_unique v s) (nxt (rlinks s) INTERRUPTS);
         Some (if queued = None then Unknown else Queued, s)
       }
   }"

text \<open>With both locks: the request is marked, and its callback is what is called next.\<close>

definition mark_interrupted :: "nat \<Rightarrow> req_state \<Rightarrow> (nat option \<times> req_state) option" where
  "mark_interrupted c s = do {
     r \<leftarrow> read_req c s;
     s1 \<leftarrow> write_req c (r\<lparr>locked := True, interrupted := True\<rparr>) s;
     Some (case req_u r of U_ni f _ \<Rightarrow> f | U_i _ \<Rightarrow> None, s1)
   }"

definition unlock_req :: "nat \<Rightarrow> req_state \<Rightarrow> req_state option" where
  "unlock_req c s = do {
     r \<leftarrow> read_req c s;
     if locked r then write_req c (r\<lparr>locked := False\<rparr>) s else None
   }"

definition release_interrupted :: "nat \<Rightarrow> req_state \<Rightarrow> req_state option" where
  "release_interrupted c s = do {
     r \<leftarrow> read_req c s;
     s1 \<leftarrow> write_req c (r\<lparr>ref_cnt := ref_cnt r - 1\<rparr>) s;
     if ref_cnt r - 1 = 0 then destroy_req c s1 else Some s1
   }"

definition drop_interrupt :: "nat \<Rightarrow> req_state \<Rightarrow> req_state option" where
  "drop_interrupt a s = do {
     r \<leftarrow> read_req a s;
     s1 \<leftarrow> fuse_chan_put (ch r) s;
     s2 \<leftarrow> write_req a (r\<lparr>ch := None\<rparr>) s1;
     destroy_req a s2
   }"

text \<open>\<^verbatim>\<open>do_interrupt\<close> until it waits for the locks of a request that it has found; and its end.\<close>

definition do_interrupt :: "nat \<Rightarrow> u64 \<Rightarrow> req_state \<Rightarrow> (interrupt_target \<times> req_state) option" where
  "do_interrupt a v s = do {
     r \<leftarrow> read_req a s;
     s1 \<leftarrow> write_req a (r\<lparr>req_u := U_i v\<rparr>) s;
     (t, s2) \<leftarrow> find_interrupted v s1;
     s3 \<leftarrow> (case t of
        Processing c \<Rightarrow> Some s2
      | Queued \<Rightarrow> drop_interrupt a s2
      | Unknown \<Rightarrow> add_link a INTERRUPTS s2);
     Some (t, s3)
   }"

definition do_interrupt_end :: "nat \<Rightarrow> nat \<Rightarrow> req_state \<Rightarrow> req_state option" where
  "do_interrupt_end a c s = do {s1 \<leftarrow> release_interrupted c s; drop_interrupt a s1}"

definition check_interrupt :: "nat \<Rightarrow> req_state \<Rightarrow> (nat option \<times> req_state) option" where
  "check_interrupt a s = do {
     r \<leftarrow> read_req a s;
     found \<leftarrow> list_search (rlinks s) INTERRUPTS (interrupts_unique (unique r) s) (nxt (rlinks s) INTERRUPTS);
     case found of
       Some c \<Rightarrow> do {
         s1 \<leftarrow> write_req a (r\<lparr>interrupted := True\<rparr>) s;
         s2 \<leftarrow> del_link c s1;
         s3 \<leftarrow> drop_interrupt c s2;
         Some (None, s3)
       }
     | None \<Rightarrow>
         let c = nxt (rlinks s) INTERRUPTS in
         if c \<noteq> INTERRUPTS then do {
           s1 \<leftarrow> del_link c s;
           Some (Some c, s1\<lparr>rlinks := list_init_req c (rlinks s1)\<rparr>)
         }
         else Some (None, s)
   }"

text \<open>A request that is not an interrupt is admitted; the old interrupt that is returned gets \<^verbatim>\<open>EAGAIN\<close>.\<close>

definition admit_req :: "bool \<Rightarrow> nat \<Rightarrow> req_state \<Rightarrow> (nat option \<times> req_state) option" where
  "admit_req no_intr a s =
     (if no_intr then Some (None, s)
      else do {(i, s1) \<leftarrow> check_interrupt a s; s2 \<leftarrow> add_link a LIST s1; Some (i, s2)})"

definition fuse_req_interrupt_func :: "nat \<Rightarrow> nat option \<Rightarrow> nat \<Rightarrow> req_state \<Rightarrow> (nat option \<times> req_state) option" where
  "fuse_req_interrupt_func a f d s = do {
     r \<leftarrow> read_req a s;
     s1 \<leftarrow> write_req a (r\<lparr>locked := True, req_u := U_ni f d\<rparr>) s;
     Some (if interrupted r then f else None, s1)
   }"

definition fuse_req_interrupted :: "nat \<Rightarrow> req_state \<Rightarrow> bool option" where
  "fuse_req_interrupted a s = map_option interrupted (read_req a s)"

end
