(* ===== verification/ReqStore.thy ===== *)
theory ReqStore
  imports Requests
begin

text \<open>
  What the operations on requests do to the store and to the two lists of a session, one operation
  at a time: who is responsible for a request, how many interrupts work on it, who holds its mutex,
  which channels it uses. The lemmas are the steps of the machine of threads.
\<close>

section \<open>The store\<close>

text \<open>
  \<open>H\<close> are the requests that someone is responsible for, \<open>cnt\<close> counts the interrupts that work on a
  request and \<open>lk\<close> those who hold its mutex.
\<close>

definition chan_users :: "(nat \<rightharpoonup> fuse_req) \<Rightarrow> nat \<Rightarrow> nat set" where
  "chan_users rs k = {a. \<exists>r. rs a = Some r \<and> ch r = Some k}"

definition req_ok :: "nat set \<Rightarrow> (nat \<Rightarrow> nat) \<Rightarrow> (nat \<Rightarrow> nat) \<Rightarrow> nat \<Rightarrow> fuse_req option \<Rightarrow> bool" where
  "req_ok H cnt lk a ro \<longleftrightarrow>
     (case ro of
        None \<Rightarrow> a \<notin> H \<and> cnt a = 0
      | Some r \<Rightarrow> 1 < a \<and> ref_cnt r = (if a \<in> H then 1 else 0) + int (cnt a) \<and> (a \<in> H \<or> 0 < cnt a) \<and>
          (a \<notin> H \<longrightarrow> ch r = None) \<and> lk a = (if locked r then 1 else 0))"

definition store_ok :: "(nat \<Rightarrow> nat) \<Rightarrow> req_state \<Rightarrow> nat set \<Rightarrow> (nat \<Rightarrow> nat) \<Rightarrow> (nat \<Rightarrow> nat) \<Rightarrow> bool" where
  "store_ok workers s H cnt lk \<longleftrightarrow>
     finite (dom (requests s)) \<and> (\<forall>a. req_ok H cnt lk a (requests s a)) \<and>
     (\<forall>k. chan_ctr s k = int (workers k) + int (card (chan_users (requests s) k)))"

lemma store_okD:
  assumes "store_ok workers s H cnt lk"
  shows "finite (dom (requests s))" "req_ok H cnt lk a (requests s a)" "finite (chan_users (requests s) k)"
    "chan_ctr s k = int (workers k) + int (card (chan_users (requests s) k))"
proof -
  show "finite (dom (requests s))" "req_ok H cnt lk a (requests s a)"
    "chan_ctr s k = int (workers k) + int (card (chan_users (requests s) k))"
    using assms by (simp_all add: store_ok_def)
  have "chan_users (requests s) k \<subseteq> dom (requests s)" by (auto simp: chan_users_def)
  then show "finite (chan_users (requests s) k)" using \<open>finite (dom (requests s))\<close> by (rule finite_subset)
qed

lemma held_alive: "store_ok workers s H cnt lk \<Longrightarrow> a \<in> H \<or> 0 < cnt a \<Longrightarrow> \<exists>r. requests s a = Some r"
  using store_okD(2) [of workers s H cnt lk a] by (cases "requests s a") (auto simp: req_ok_def)

text \<open>The counter of a channel while a request uses it.\<close>

definition put_ctr :: "nat option \<Rightarrow> (nat \<Rightarrow> int) \<Rightarrow> nat \<Rightarrow> int" where
  "put_ctr co f = (case co of None \<Rightarrow> f | Some k \<Rightarrow> f(k := f k - 1))"

lemma chan_positive:
  assumes "store_ok workers s H cnt lk" and "requests s a = Some r" and "ch r = Some k"
  shows "0 < chan_ctr s k"
proof -
  have "a \<in> chan_users (requests s) k" using assms(2,3) by (simp add: chan_users_def)
  then have "0 < card (chan_users (requests s) k)"
    using store_okD(3) [OF assms(1)] card_gt_0_iff by blast
  then show ?thesis using store_okD(4) [OF assms(1), of k] by simp
qed

lemma fuse_chan_put_ok:
  assumes "store_ok workers s H cnt lk" and "requests s a = Some r" and "chan_ctr s' = chan_ctr s"
  shows "fuse_chan_put (ch r) s' = Some (s'\<lparr>chan_ctr := put_ctr (ch r) (chan_ctr s)\<rparr>)"
proof (cases "ch r")
  case (Some k)
  then show ?thesis using chan_positive [OF assms(1,2) Some] assms(3) by (simp add: fuse_chan_put_def put_ctr_def)
qed (simp add: fuse_chan_put_def put_ctr_def assms(3) [symmetric])

lemma chan_users_update:
  assumes "finite (chan_users rs k)" and "rs a = Some r" and "\<And>q. x = Some q \<Longrightarrow> ch q = None"
  shows "int (card (chan_users (rs(a := x)) k)) = put_ctr (ch r) (\<lambda>k. int (card (chan_users rs k))) k"
proof -
  have *: "chan_users (rs(a := x)) k = chan_users rs k - {a}"
    using assms(3) by (auto simp: chan_users_def)
  show ?thesis
  proof (cases "ch r = Some k")
    case True
    then have "a \<in> chan_users rs k" using assms(2) by (simp add: chan_users_def)
    then have "card (chan_users rs k) = card (chan_users rs k - {a}) + 1"
      using assms(1) card.remove [of "chan_users rs k" a] by simp
    then show ?thesis by (simp add: * True put_ctr_def)
  next
    case False
    then have "a \<notin> chan_users rs k" using assms(2) by (simp add: chan_users_def)
    then show ?thesis using * False by (auto simp: put_ctr_def split: option.splits)
  qed
qed

text \<open>The request at \<open>a\<close> gives its channel back and may go.\<close>

lemma store_ok_put:
  assumes ok: "store_ok workers s H cnt lk" and r: "requests s a = Some r" and x: "\<And>q. x = Some q \<Longrightarrow> ch q = None"
    and s': "requests s' = (requests s)(a := x)" "chan_ctr s' = put_ctr (ch r) (chan_ctr s)"
    and a: "req_ok H' cnt' lk' a x" and others: "\<And>b. b \<noteq> a \<Longrightarrow> (b \<in> H' \<longleftrightarrow> b \<in> H) \<and> cnt' b = cnt b \<and> lk' b = lk b"
  shows "store_ok workers s' H' cnt' lk'"
proof -
  have "req_ok H' cnt' lk' b (requests s' b)" for b
    using a store_okD(2) [OF ok, of b] others [of b] by (cases "b = a") (auto simp: s' req_ok_def split: option.splits)
  moreover have "chan_ctr s' k = int (workers k) + int (card (chan_users (requests s') k))" for k
    using chan_users_update [of "requests s" k a r x, OF store_okD(3) [OF ok] r x] store_okD(4) [OF ok]
    by (auto simp: s' put_ctr_def split: option.splits)
  moreover have "finite (dom (requests s'))"
    using store_okD(1) [OF ok] by (simp add: s')
  ultimately show ?thesis by (simp add: store_ok_def)
qed

text \<open>A change of one request that leaves its channel alone.\<close>

lemma store_ok_write:
  assumes ok: "store_ok workers s H cnt lk" and r: "requests s a = Some r" and q: "ch q = ch r"
    and s': "requests s' = (requests s)(a \<mapsto> q)" "chan_ctr s' = chan_ctr s"
    and a: "req_ok H' cnt' lk' a (Some q)" and others: "\<And>b. b \<noteq> a \<Longrightarrow> (b \<in> H' \<longleftrightarrow> b \<in> H) \<and> cnt' b = cnt b \<and> lk' b = lk b"
  shows "store_ok workers s' H' cnt' lk'"
proof -
  have "chan_users (requests s') k = chan_users (requests s) k" for k
    using r q by (auto simp: s' chan_users_def)
  moreover have "req_ok H' cnt' lk' b (requests s' b)" for b
    using a store_okD(2) [OF ok, of b] others [of b] by (cases "b = a") (auto simp: s' req_ok_def split: option.splits)
  ultimately show ?thesis
    using ok by (simp add: store_ok_def s')
qed

section \<open>The operations on the store\<close>

lemmas op_defs = read_req_def write_req_def destroy_req_def

definition linked_in :: "req_state \<Rightarrow> nat \<Rightarrow> bool" where
  "linked_in s a \<longleftrightarrow> present s (prv (rlinks s) a) \<and> present s (nxt (rlinks s) a)"

lemma free_ok:
  assumes ok: "store_ok workers s H cnt lk" and a: "a \<in> H" "cnt a = 0 \<longrightarrow> lk a = 0" and nb: "ni \<or> linked_in s a"
  obtains s' where "fuse_free_req ni a s = Some s'" "rlinks s' = (if ni then rlinks s else list_del_req a (rlinks s))"
    "store_ok workers s' (H - {a}) cnt lk" "\<And>b. b \<noteq> a \<Longrightarrow> requests s' b = requests s b"
proof -
  obtain r where r: "requests s a = Some r" using held_alive [OF ok] a by blast
  have req: "1 < a" "ref_cnt r = 1 + int (cnt a)" "lk a = (if locked r then 1 else 0)"
    using store_okD(2) [OF ok, of a] a(1) by (auto simp: r req_ok_def)
  define u where "u = (if ni then req_u r else U_ni None 0)"
  define x where "x = (if cnt a = 0 then None else Some (r\<lparr>req_u := u, ref_cnt := ref_cnt r - 1, ch := None\<rparr>))"
  define s' where "s' = s\<lparr>requests := (requests s)(a := x), rlinks := (if ni then rlinks s else list_del_req a (rlinks s)),
    chan_ctr := put_ctr (ch r) (chan_ctr s)\<rparr>"
  note put = fuse_chan_put_ok [OF ok r]
  have unlocked: "cnt a = 0 \<longrightarrow> \<not> locked r" using a(2) req(3) by auto
  have "fuse_free_req ni a s = Some s'"
  proof (cases ni)
    case True
    then show ?thesis
      using r req(2) unlocked by (simp add: fuse_free_req_def op_defs put u_def s'_def x_def)
  next
    case False
    define s0 where "s0 = s\<lparr>requests := (requests s)(a \<mapsto> r\<lparr>req_u := U_ni None 0\<rparr>)\<rparr>"
    have "del_link a s0 = Some (s0\<lparr>rlinks := list_del_req a (rlinks s)\<rparr>)"
      using nb False r by (auto simp: del_link_def s0_def linked_in_def present_def)
    moreover have "write_req a (r\<lparr>req_u := U_ni None 0\<rparr>) s = Some s0" "requests s0 a = Some (r\<lparr>req_u := U_ni None 0\<rparr>)" "chan_ctr s0 = chan_ctr s"
      using r by (simp_all add: s0_def write_req_def)
    ultimately show ?thesis
      using r req(2) unlocked False
      by (simp add: fuse_free_req_def read_req_def destroy_req_def write_req_def [of a _ "_ \<lparr>rlinks := _\<rparr>"]
        write_req_def [of a _ "_ \<lparr>chan_ctr := _\<rparr>"] put u_def s'_def x_def) (simp add: s0_def)
  qed
  moreover have "store_ok workers s' (H - {a}) cnt lk"
    by (rule store_ok_put [OF ok r, where x = x])
      (use req in \<open>auto simp: x_def s'_def req_ok_def split: if_splits\<close>)
  ultimately show thesis using that [of s'] by (simp add: s'_def)
qed

lemma receive_ok:
  assumes ok: "store_ok workers s H cnt lk" and a: "1 < a" "requests s a = None" and c: "\<And>k. c = Some k \<Longrightarrow> 0 < workers k"
    and lk: "lk a = 0"
  obtains s' r where "receive_req a v c s = Some s'" "rlinks s' = list_init_req a (rlinks s)"
    "store_ok workers s' (insert a H) cnt lk" "\<And>b. b \<noteq> a \<Longrightarrow> requests s' b = requests s b" "requests s' a = Some r" "unique r = v"
proof -
  define r where "r = \<lparr>unique = v, ref_cnt = 1, locked = False, ch = c, interrupted = False, req_u = U_ni None 0\<rparr>"
  define s' where "s' = s\<lparr>requests := (requests s)(a \<mapsto> r), rlinks := list_init_req a (rlinks s),
    chan_ctr := (case c of None \<Rightarrow> chan_ctr s | Some k \<Rightarrow> (chan_ctr s)(k := chan_ctr s k + 1))\<rparr>"
  have pos: "0 < chan_ctr s k" if "c = Some k" for k
    using c [OF that] store_okD(4) [OF ok, of k] by simp
  have "receive_req a v c s = Some s'"
    using pos by (cases c) (simp_all add: receive_req_def fuse_ll_alloc_req_def op_defs s'_def r_def fuse_chan_get_def Let_def)
  moreover have "store_ok workers s' (insert a H) cnt lk"
  proof -
    have "req_ok (insert a H) cnt lk b (requests s' b)" for b
      using store_okD(2) [OF ok, of b] a lk store_okD(2) [OF ok, of a]
      by (cases "b = a") (auto simp: s'_def r_def req_ok_def split: option.splits)
    moreover have "chan_ctr s' k = int (workers k) + int (card (chan_users (requests s') k))" for k
    proof (cases "c = Some k")
      case True
      then have "chan_users (requests s') k = insert a (chan_users (requests s) k)" "a \<notin> chan_users (requests s) k"
        using a(2) by (auto simp: chan_users_def s'_def r_def)
      then show ?thesis using store_okD(3,4) [OF ok, of k] True by (simp add: s'_def)
    next
      case False
      then have "chan_users (requests s') k = chan_users (requests s) k"
        using a(2) by (auto simp: chan_users_def s'_def r_def)
      then show ?thesis using store_okD(4) [OF ok, of k] False by (auto simp: s'_def split: option.splits)
    qed
    moreover have "finite (dom (requests s'))" using store_okD(1) [OF ok] by (simp add: s'_def)
    ultimately show ?thesis by (simp add: store_ok_def)
  qed
  ultimately show thesis using that [of s' r] by (simp add: s'_def r_def)
qed

lemma drop_interrupt_ok:
  assumes ok: "store_ok workers s H cnt lk" and a: "a \<in> H" "lk a = 0" "cnt a = 0"
  obtains s' where "drop_interrupt a s = Some s'" "rlinks s' = rlinks s" "store_ok workers s' (H - {a}) cnt lk"
    "\<And>b. b \<noteq> a \<Longrightarrow> requests s' b = requests s b"
proof -
  obtain r where r: "requests s a = Some r" using held_alive [OF ok] a by blast
  have req: "lk a = (if locked r then 1 else 0)" using store_okD(2) [OF ok, of a] by (simp add: r req_ok_def)
  define s' where "s' = s\<lparr>requests := (requests s)(a := None), chan_ctr := put_ctr (ch r) (chan_ctr s)\<rparr>"
  have "drop_interrupt a s = Some s'"
    using r req a(2) fuse_chan_put_ok [OF ok r refl] by (simp add: drop_interrupt_def op_defs s'_def split: if_splits)
  moreover have "store_ok workers s' (H - {a}) cnt lk"
    by (rule store_ok_put [OF ok r, where x = None]) (use a in \<open>auto simp: s'_def req_ok_def\<close>)
  ultimately show thesis using that [of s'] by (simp add: s'_def)
qed

text \<open>A request that is written to, with its counters unchanged.\<close>

lemma rewrite_ok:
  assumes ok: "store_ok workers s H cnt lk" and r: "requests s a = Some r"
    and q: "ch q = ch r" "ref_cnt q = ref_cnt r" and l: "lk' a = (if locked q then 1 else 0)" "\<And>b. b \<noteq> a \<Longrightarrow> lk' b = lk b"
  shows "store_ok workers (s\<lparr>requests := (requests s)(a \<mapsto> q)\<rparr>) H cnt lk'"
  by (rule store_ok_write [OF ok r q(1)]) (use store_okD(2) [OF ok, of a] r q l in \<open>auto simp: req_ok_def\<close>)

lemma count_up_ok:
  assumes ok: "store_ok workers s H cnt lk" and r: "requests s c = Some r"
  shows "store_ok workers (s\<lparr>requests := (requests s)(c \<mapsto> r\<lparr>ref_cnt := ref_cnt r + 1\<rparr>)\<rparr>) H (cnt(c := cnt c + 1)) lk"
  by (rule store_ok_write [OF ok r]) (use store_okD(2) [OF ok, of c] r in \<open>auto simp: req_ok_def\<close>)

lemma release_req_ok:
  assumes ok: "store_ok workers s H cnt lk" and c: "0 < cnt c" "cnt c = 1 \<longrightarrow> c \<notin> H \<longrightarrow> lk c = 0"
  obtains s' where "release_interrupted c s = Some s'" "rlinks s' = rlinks s" "store_ok workers s' H (cnt(c := cnt c - 1)) lk"
    "\<And>b. b \<noteq> c \<Longrightarrow> requests s' b = requests s b"
    "\<And>r. requests s c = Some r \<Longrightarrow> c \<in> H \<Longrightarrow> requests s' c = Some (r\<lparr>ref_cnt := ref_cnt r - 1\<rparr>)"
proof -
  obtain r where r: "requests s c = Some r" using held_alive [OF ok] c by blast
  have req: "1 < c" "ref_cnt r = (if c \<in> H then 1 else 0) + int (cnt c)" "lk c = (if locked r then 1 else 0)" "c \<notin> H \<longrightarrow> ch r = None"
    using store_okD(2) [OF ok, of c] by (auto simp: r req_ok_def)
  define gone where "gone \<longleftrightarrow> c \<notin> H \<and> cnt c = 1"
  define s' where "s' = s\<lparr>requests := (requests s)(c := if gone then None else Some (r\<lparr>ref_cnt := ref_cnt r - 1\<rparr>))\<rparr>"
  have "ref_cnt r - 1 = 0 \<longleftrightarrow> gone" using req c(1) by (auto simp: gone_def)
  then have "release_interrupted c s = Some s'"
    using r req c(2) by (auto simp: release_interrupted_def op_defs s'_def gone_def split: if_splits)
  moreover have "store_ok workers s' H (cnt(c := cnt c - 1)) lk"
  proof (cases gone)
    case True
    show ?thesis
      by (rule store_ok_put [OF ok r, where x = None]) (use True req(4) in \<open>auto simp: s'_def req_ok_def gone_def put_ctr_def\<close>)
  next
    case False
    show ?thesis
      by (rule store_ok_write [OF ok r, where q = "r\<lparr>ref_cnt := ref_cnt r - 1\<rparr>"])
        (use False req c(1) in \<open>auto simp: s'_def req_ok_def gone_def\<close>)
  qed
  ultimately show thesis using that [of s'] r by (simp add: s'_def gone_def)
qed

section \<open>The lists\<close>

text \<open>The requests in progress, the interrupts that wait, and requests that are in no list.\<close>

definition links_ok :: "links \<Rightarrow> nat list \<Rightarrow> nat list \<Rightarrow> nat set \<Rightarrow> bool" where
  "links_ok l xs ys S \<longleftrightarrow> is_list l LIST xs \<and> is_list l INTERRUPTS ys \<and> (\<forall>a\<in>S. alone l a) \<and>
     set (LIST # xs) \<inter> set (INTERRUPTS # ys) = {} \<and> S \<inter> (set (LIST # xs) \<union> set (INTERRUPTS # ys)) = {}"

lemma links_okD:
  assumes "links_ok l xs ys S"
  shows "is_list l LIST xs" "is_list l INTERRUPTS ys" "a \<in> S \<Longrightarrow> alone l a"
    "set (LIST # xs) \<inter> set (INTERRUPTS # ys) = {}" "set (INTERRUPTS # ys) \<inter> set (LIST # xs) = {}"
    "a \<in> S \<Longrightarrow> a \<notin> set (LIST # xs)" "a \<in> S \<Longrightarrow> a \<notin> set (INTERRUPTS # ys)"
  using assms by (auto simp: links_ok_def)

lemma links_start: "links_ok (list_init_req INTERRUPTS (list_init_req LIST l)) [] [] {}"
  by (simp add: links_ok_def is_list_def list_init_req_def LIST_def INTERRUPTS_def Let_def)

lemma links_fewer: "links_ok l xs ys S \<Longrightarrow> T \<subseteq> S \<Longrightarrow> links_ok l xs ys T"
  by (auto simp: links_ok_def)

lemma links_init:
  assumes ok: "links_ok l xs ys S" and a: "a \<notin> set (LIST # xs)" "a \<notin> set (INTERRUPTS # ys)"
  shows "links_ok (list_init_req a l) xs ys (insert a S)"
proof -
  have "same_links (set (LIST # xs)) l (list_init_req a l)" "same_links (set (INTERRUPTS # ys)) l (list_init_req a l)"
    "same_links (S - {a}) l (list_init_req a l)"
    by (rule same_links_mono [OF list_init_frame]; use a in auto)+
  moreover from this(3) have "alone (list_init_req a l) x" if "x \<in> insert a S" for x
    using that alone_same [of "S - {a}" l _ x] links_okD(3) [OF ok, of x] by (cases "x = a") auto
  ultimately show ?thesis
    using ok a is_list_same [of LIST xs l] is_list_same [of INTERRUPTS ys l] by (simp add: links_ok_def)
qed

lemma links_add_list:
  assumes ok: "links_ok l xs ys S" and a: "a \<in> S"
  shows "links_ok (list_add_req a LIST l) (xs @ [a]) ys (S - {a})"
  using links_okD [OF ok] a reqs.add_list [of l LIST xs a] reqs.add_other [of l LIST xs INTERRUPTS ys a]
    reqs.alone_add [of l LIST xs _ a]
  by (auto simp: links_ok_def)

lemma links_add_interrupts:
  assumes ok: "links_ok l xs ys S" and a: "a \<in> S"
  shows "links_ok (list_add_req a INTERRUPTS l) xs (ys @ [a]) (S - {a})"
  using links_okD [OF ok] a reqs.add_list [of l INTERRUPTS ys a] reqs.add_other [of l INTERRUPTS ys LIST xs a]
    reqs.alone_add [of l INTERRUPTS ys _ a]
  by (auto simp: links_ok_def)

lemma links_del_list:
  assumes ok: "links_ok l xs ys S" and a: "a \<in> set xs"
  shows "links_ok (list_del_req a l) (remove1 a xs) ys S"
  using links_okD [OF ok] a reqs.del_member [of l LIST xs a] reqs.del_other [of l LIST xs a INTERRUPTS ys]
    reqs.alone_del [of l LIST xs a] set_remove1_subset [of a xs]
  by (auto simp: links_ok_def)

lemma links_del_interrupts:
  assumes ok: "links_ok l xs ys S" and a: "a \<in> set ys"
  shows "links_ok (list_del_req a l) xs (remove1 a ys) S"
  using links_okD [OF ok] a reqs.del_member [of l INTERRUPTS ys a] reqs.del_other [of l INTERRUPTS ys a LIST xs]
    reqs.alone_del [of l INTERRUPTS ys a] set_remove1_subset [of a ys]
  by (auto simp: links_ok_def)

text \<open>The neighbours of a list element are elements or the head.\<close>

lemma list_neighbours:
  assumes "is_list l h xs" and "a \<in> set (h # xs)"
  shows "prv l a \<in> set (h # xs)" and "nxt l a \<in> set (h # xs)"
proof -
  have "prv l a \<in> set (h # xs) \<and> nxt l a \<in> set (h # xs)"
  proof (cases "a = h")
    case True
    then show ?thesis using prv_head [OF assms(1)] nxt_head [OF assms(1)] last_in_set [of "h # xs"] hd_in_set [of "xs @ [h]"]
      by auto
  next
    case False
    then obtain as bs where xs: "xs = as @ a # bs" using assms(2) by (auto dest: split_list)
    then show ?thesis
      using is_list_split [OF assms(1) [unfolded xs]] last_in_set [of "h # as"] hd_in_set [of "bs @ [h]"] by auto
  qed
  then show "prv l a \<in> set (h # xs)" "nxt l a \<in> set (h # xs)" by blast+
qed

lemma linked_in_ok:
  assumes ok: "links_ok (rlinks s) xs ys S" and a: "a \<in> S \<union> set (LIST # xs) \<union> set (INTERRUPTS # ys)"
    and there: "\<And>b. b \<in> S \<union> set xs \<union> set ys \<Longrightarrow> requests s b \<noteq> None"
  shows "linked_in s a" and "present s a"
proof -
  have p: "present s b" if "b \<in> S \<union> set (LIST # xs) \<union> set (INTERRUPTS # ys)" for b
    using that there by (auto simp: present_def)
  then show "present s a" using a by blast
  show "linked_in s a"
    unfolding linked_in_def
    using a p list_neighbours [OF links_okD(1) [OF ok], of a] list_neighbours [OF links_okD(2) [OF ok], of a]
      links_okD(3) [OF ok, of a] by (auto simp: alone_def)
qed

end
