(* ===== verification/ReqMachine.thy ===== *)
theory ReqMachine
  imports ReqStore
begin

text \<open>
  Threads that work on requests of one session in any order: receiving, admitting, replying,
  interrupting, registering callbacks. The machine of these actions never touches a request that
  has been freed, never fails an assertion and never destroys a mutex that is held.
\<close>

section \<open>The machine\<close>

text \<open>
  A thread that handles an interrupt and has found its request waits for the locks, calls the
  callback, and leaves.
\<close>

datatype phase = Waiting | Calling | Leaving

text \<open>
  \<open>fresh\<close> are requests that have been received and not yet dispatched, \<open>own\<close> those that wait for a
  reply, \<open>setting\<close> those whose handler is inside \<^verbatim>\<open>fuse_req_interrupt_func\<close>, and \<open>pend\<close> the threads
  with an interrupt: the request of the interrupt, the request that is interrupted, the phase.
\<close>

record machine =
  st :: req_state
  fresh :: "nat set"
  own :: "nat set"
  setting :: "nat set"
  pend :: "(nat \<times> nat \<times> phase) list"

datatype action =
    Receive nat u64 "nat option"
  | Reject nat
  | Admit nat
  | Interrupt nat u64
  | Mark nat nat
  | Unlock nat nat
  | Finish nat nat
  | Reply nat
  | SetFunc nat "nat option" nat
  | EndSet nat

definition lock_free :: "nat \<Rightarrow> req_state \<Rightarrow> bool" where
  "lock_free a s = (case requests s a of None \<Rightarrow> True | Some r \<Rightarrow> \<not> locked r)"

text \<open>
  What a thread may do next. A reply is sent once, by the one who has the request. \<open>workers c\<close> is the
  number of worker threads that use the channel \<open>c\<close> themselves.
\<close>

fun enabled :: "bool \<Rightarrow> (nat \<Rightarrow> nat) \<Rightarrow> machine \<Rightarrow> action \<Rightarrow> bool" where
  "enabled ni workers m (Receive a v c) \<longleftrightarrow> 1 < a \<and> requests (st m) a = None \<and> (\<forall>k. c = Some k \<longrightarrow> 0 < workers k)"
| "enabled ni workers m (Reject a) \<longleftrightarrow> a \<in> fresh m"
| "enabled ni workers m (Admit a) \<longleftrightarrow> a \<in> fresh m"
| "enabled ni workers m (Interrupt a v) \<longleftrightarrow> a \<in> fresh m \<and> \<not> ni"
| "enabled ni workers m (Mark b c) \<longleftrightarrow> (b, c, Waiting) \<in> set (pend m) \<and> lock_free c (st m)"
| "enabled ni workers m (Unlock b c) \<longleftrightarrow> (b, c, Calling) \<in> set (pend m)"
| "enabled ni workers m (Finish b c) \<longleftrightarrow> (b, c, Leaving) \<in> set (pend m)"
| "enabled ni workers m (Reply a) \<longleftrightarrow> a \<in> own m"
| "enabled ni workers m (SetFunc a f d) \<longleftrightarrow> a \<in> own m \<and> a \<notin> setting m \<and> lock_free a (st m)"
| "enabled ni workers m (EndSet a) \<longleftrightarrow> a \<in> setting m"

text \<open>
  A reply to a request whose handler is inside \<^verbatim>\<open>fuse_req_interrupt_func\<close> comes from the callback
  that this function has called. The states that are studied are those reached without such replies,
  which are orderly steps; what such a reply does in one of these states is part of the first theorem.
\<close>

definition callback_reply :: "machine \<Rightarrow> action \<Rightarrow> bool" where
  "callback_reply m act \<longleftrightarrow> (\<exists>a. act = Reply a \<and> a \<in> setting m)"

definition orderly :: "bool \<Rightarrow> (nat \<Rightarrow> nat) \<Rightarrow> machine \<Rightarrow> action \<Rightarrow> bool" where
  "orderly ni workers m act \<longleftrightarrow> enabled ni workers m act \<and> \<not> callback_reply m act"

lemma orderly_simps [simp]:
  "orderly ni workers m (Receive a v ch') \<longleftrightarrow> 1 < a \<and> requests (st m) a = None \<and> (\<forall>k. ch' = Some k \<longrightarrow> 0 < workers k)"
  "orderly ni workers m (Reject a) \<longleftrightarrow> a \<in> fresh m"
  "orderly ni workers m (Admit a) \<longleftrightarrow> a \<in> fresh m"
  "orderly ni workers m (Interrupt a v) \<longleftrightarrow> a \<in> fresh m \<and> \<not> ni"
  "orderly ni workers m (Mark b c) \<longleftrightarrow> (b, c, Waiting) \<in> set (pend m) \<and> lock_free c (st m)"
  "orderly ni workers m (Unlock b c) \<longleftrightarrow> (b, c, Calling) \<in> set (pend m)"
  "orderly ni workers m (Finish b c) \<longleftrightarrow> (b, c, Leaving) \<in> set (pend m)"
  "orderly ni workers m (Reply a) \<longleftrightarrow> a \<in> own m \<and> a \<notin> setting m"
  "orderly ni workers m (SetFunc a f d) \<longleftrightarrow> a \<in> own m \<and> a \<notin> setting m \<and> lock_free a (st m)"
  "orderly ni workers m (EndSet a) \<longleftrightarrow> a \<in> setting m"
  by (simp_all add: orderly_def callback_reply_def)

fun exec :: "bool \<Rightarrow> machine \<Rightarrow> action \<Rightarrow> machine option" where
  "exec ni m (Receive a v c) = do {s \<leftarrow> receive_req a v c (st m); Some (m\<lparr>st := s, fresh := insert a (fresh m)\<rparr>)}"
| "exec ni m (Reject a) = do {s \<leftarrow> fuse_free_req ni a (st m); Some (m\<lparr>st := s, fresh := fresh m - {a}\<rparr>)}"
| "exec ni m (Admit a) = do {
     (i, s) \<leftarrow> admit_req ni a (st m);
     Some (m\<lparr>st := s, fresh := fresh m - {a}, own := own m \<union> {a} \<union> set_option i\<rparr>)}"
| "exec ni m (Interrupt a v) = do {
     (t, s) \<leftarrow> do_interrupt a v (st m);
     Some (m\<lparr>st := s, fresh := fresh m - {a},
       pend := (case t of Processing c \<Rightarrow> (a, c, Waiting) # pend m | _ \<Rightarrow> pend m)\<rparr>)}"
| "exec ni m (Mark b c) = do {
     (f, s) \<leftarrow> mark_interrupted c (st m);
     Some (m\<lparr>st := s, pend := (b, c, Calling) # remove1 (b, c, Waiting) (pend m)\<rparr>)}"
| "exec ni m (Unlock b c) = do {
     s \<leftarrow> unlock_req c (st m);
     Some (m\<lparr>st := s, pend := (b, c, Leaving) # remove1 (b, c, Calling) (pend m)\<rparr>)}"
| "exec ni m (Finish b c) = do {
     s \<leftarrow> do_interrupt_end b c (st m);
     Some (m\<lparr>st := s, pend := remove1 (b, c, Leaving) (pend m)\<rparr>)}"
| "exec ni m (Reply a) = do {s \<leftarrow> fuse_free_req ni a (st m); Some (m\<lparr>st := s, own := own m - {a}\<rparr>)}"
| "exec ni m (SetFunc a f d) = do {
     (g, s) \<leftarrow> fuse_req_interrupt_func a f d (st m);
     Some (m\<lparr>st := s, setting := insert a (setting m)\<rparr>)}"
| "exec ni m (EndSet a) = do {s \<leftarrow> unlock_req a (st m); Some (m\<lparr>st := s, setting := setting m - {a}\<rparr>)}"

text \<open>The session at the start: two empty lists, no request, channels used by workers only.\<close>

definition start_machine :: "(nat \<Rightarrow> nat) \<Rightarrow> machine" where
  "start_machine workers =
     \<lparr>st = \<lparr>requests = Map.empty,
            rlinks = list_init_req INTERRUPTS (list_init_req LIST \<lparr>nxt = \<lambda>_. 0, prv = \<lambda>_. 0\<rparr>),
            chan_ctr = (\<lambda>c. int (workers c))\<rparr>,
      fresh = {}, own = {}, setting = {}, pend = []\<rparr>"

inductive reaches :: "bool \<Rightarrow> (nat \<Rightarrow> nat) \<Rightarrow> machine \<Rightarrow> bool" for ni workers where
  start: "reaches ni workers (start_machine workers)"
| step: "reaches ni workers m \<Longrightarrow> orderly ni workers m act \<Longrightarrow> exec ni m act = Some m' \<Longrightarrow> reaches ni workers m'"

section \<open>The invariant\<close>

definition intr_key :: "req_state \<Rightarrow> nat \<Rightarrow> u64" where
  "intr_key s b = (case requests s b of Some r \<Rightarrow> (case req_u r of U_i v \<Rightarrow> v | U_ni _ _ \<Rightarrow> 0) | None \<Rightarrow> 0)"

definition req_key :: "req_state \<Rightarrow> nat \<Rightarrow> u64" where
  "req_key s a = (case requests s a of Some r \<Rightarrow> unique r | None \<Rightarrow> 0)"

definition is_intr :: "req_state \<Rightarrow> nat \<Rightarrow> bool" where
  "is_intr s b = (case requests s b of Some r \<Rightarrow> (case req_u r of U_i v \<Rightarrow> True | U_ni _ _ \<Rightarrow> False) | None \<Rightarrow> False)"

text \<open>An interrupt waits only for a request that is not there yet, and at most one for each.\<close>

definition keys_ok :: "req_state \<Rightarrow> nat list \<Rightarrow> nat list \<Rightarrow> bool" where
  "keys_ok s xs ys \<longleftrightarrow> (\<forall>b\<in>set ys. is_intr s b) \<and> distinct (map (intr_key s) ys) \<and>
     (\<forall>a\<in>set xs. \<forall>b\<in>set ys. req_key s a \<noteq> intr_key s b)"

definition holders :: "machine \<Rightarrow> nat list \<Rightarrow> nat set" where
  "holders m ys = fresh m \<union> own m \<union> set ys \<union> fst ` set (pend m)"

definition visits :: "machine \<Rightarrow> nat \<Rightarrow> nat" where
  "visits m a = length (filter (\<lambda>(b, c, p). c = a) (pend m))"

definition lockers :: "machine \<Rightarrow> nat \<Rightarrow> nat" where
  "lockers m a = (if a \<in> setting m then 1 else 0) + length (filter (\<lambda>(b, c, p). c = a \<and> p = Calling) (pend m))"

definition roles_ok :: "bool \<Rightarrow> machine \<Rightarrow> nat list \<Rightarrow> nat list \<Rightarrow> bool" where
  "roles_ok ni m xs ys \<longleftrightarrow>
     fresh m \<inter> own m = {} \<and> set ys \<inter> (fresh m \<union> own m) = {} \<and> fst ` set (pend m) \<inter> (fresh m \<union> own m \<union> set ys) = {} \<and>
     distinct (map fst (pend m)) \<and> set xs \<subseteq> own m \<and> setting m \<subseteq> own m \<and>
     (\<forall>(b, c, p)\<in>set (pend m). c \<notin> fresh m \<union> set ys \<union> fst ` set (pend m)) \<and> (ni \<longrightarrow> xs = [] \<and> ys = [] \<and> pend m = [])"

definition machine_inv :: "bool \<Rightarrow> (nat \<Rightarrow> nat) \<Rightarrow> machine \<Rightarrow> nat list \<Rightarrow> nat list \<Rightarrow> bool" where
  "machine_inv ni workers m xs ys \<longleftrightarrow>
     links_ok (rlinks (st m)) xs ys (fresh m \<union> (own m - set xs)) \<and>
     store_ok workers (st m) (holders m ys) (visits m) (lockers m) \<and>
     roles_ok ni m xs ys \<and> keys_ok (st m) xs ys"

lemma keys_ok_cong:
  assumes "keys_ok s xs ys" and "\<And>a. a \<in> set xs \<Longrightarrow> req_key s' a = req_key s a"
    and "\<And>b. b \<in> set ys \<Longrightarrow> intr_key s' b = intr_key s b \<and> is_intr s' b = is_intr s b"
  shows "keys_ok s' xs ys"
  using assms by (simp add: keys_ok_def cong: map_cong)

lemma lockers_le: "a \<notin> setting m \<Longrightarrow> lockers m a \<le> visits m a"
proof -
  have "length (filter (\<lambda>(b, c, p). c = a \<and> p = Calling) ps) \<le> length (filter (\<lambda>(b, c, p). c = a) ps)"
    for ps :: "(nat \<times> nat \<times> phase) list"
    by (induction ps) auto
  then show "a \<notin> setting m \<Longrightarrow> lockers m a \<le> visits m a" by (simp add: lockers_def visits_def)
qed

lemma machine_frame [simp]:
  "visits (m\<lparr>st := s\<rparr>) = visits m" "visits (m\<lparr>fresh := A\<rparr>) = visits m" "visits (m\<lparr>own := A\<rparr>) = visits m"
  "visits (m\<lparr>setting := A\<rparr>) = visits m"
  "lockers (m\<lparr>st := s\<rparr>) = lockers m" "lockers (m\<lparr>fresh := A\<rparr>) = lockers m" "lockers (m\<lparr>own := A\<rparr>) = lockers m"
  "holders (m\<lparr>st := s\<rparr>) ys = holders m ys" "holders (m\<lparr>setting := A\<rparr>) ys = holders m ys"
  "roles_ok ni (m\<lparr>st := s\<rparr>) xs ys = roles_ok ni m xs ys"
  by (simp_all add: visits_def lockers_def holders_def roles_ok_def fun_eq_iff)

lemma keys_links [simp]:
  "intr_key (s\<lparr>rlinks := l\<rparr>) = intr_key s" "req_key (s\<lparr>rlinks := l\<rparr>) = req_key s" "is_intr (s\<lparr>rlinks := l\<rparr>) = is_intr s"
  by (simp_all add: intr_key_def req_key_def is_intr_def fun_eq_iff)

lemma start_inv: "machine_inv ni workers (start_machine workers) [] []"
  by (simp add: machine_inv_def start_machine_def links_start roles_ok_def keys_ok_def holders_def visits_def lockers_def
    store_ok_def req_ok_def chan_users_def)

section \<open>Steps\<close>

lemma invD:
  assumes "machine_inv ni workers m xs ys"
  shows "links_ok (rlinks (st m)) xs ys (fresh m \<union> (own m - set xs))"
    "store_ok workers (st m) (holders m ys) (visits m) (lockers m)"
    "roles_ok ni m xs ys" "keys_ok (st m) xs ys"
  using assms by (simp_all add: machine_inv_def)

lemma roles_okD:
  assumes "roles_ok ni m xs ys"
  shows "fresh m \<inter> own m = {}" "set ys \<inter> (fresh m \<union> own m) = {}" "fst ` set (pend m) \<inter> (fresh m \<union> own m \<union> set ys) = {}"
    "distinct (map fst (pend m))" "set xs \<subseteq> own m" "setting m \<subseteq> own m"
    "(b, c, p) \<in> set (pend m) \<Longrightarrow> c \<notin> fresh m \<and> c \<notin> set ys \<and> c \<notin> fst ` set (pend m)"
    "ni \<Longrightarrow> xs = [] \<and> ys = [] \<and> pend m = []"
  using assms by (auto simp: roles_ok_def)

lemma visits_0: "visits m a = 0 \<longleftrightarrow> (\<forall>b p. (b, a, p) \<notin> set (pend m))"
  by (fastforce simp: visits_def filter_empty_conv)

lemma not_visited:
  assumes "roles_ok ni m xs ys" and "a \<in> fresh m \<union> set ys \<union> fst ` set (pend m)"
  shows "visits m a = 0" and "lockers m a = 0"
proof -
  have "(b, a, p) \<notin> set (pend m)" for b p using roles_okD(7) [OF assms(1), of b a p] assms(2) by blast
  then show *: "visits m a = 0" by (simp add: visits_0)
  have "a \<notin> setting m" using roles_okD(1-3,6) [OF assms(1)] assms(2) by auto
  with * lockers_le [of a m] show "lockers m a = 0" by simp
qed

lemma listed_there:
  assumes "machine_inv ni workers m xs ys" and "b \<in> fresh m \<union> (own m - set xs) \<union> set xs \<union> set ys"
  shows "requests (st m) b \<noteq> None"
  using held_alive [OF invD(2) [OF assms(1)], of b] assms(2) roles_okD(5) [OF invD(3) [OF assms(1)]]
  by (auto simp: holders_def)

lemma linked_in_inv:
  assumes "machine_inv ni workers m xs ys" and "a \<in> fresh m \<union> own m \<union> set ys"
  shows "linked_in (st m) a"
  using linked_in_ok(1) [OF invD(1) [OF assms(1)], of a] listed_there [OF assms(1)] assms(2) by auto

lemma keys_same:
  assumes "requests s' a = requests s a"
  shows "req_key s' a = req_key s a" "intr_key s' a = intr_key s a" "is_intr s' a = is_intr s a"
  using assms by (simp_all add: req_key_def intr_key_def is_intr_def)

lemma keys_ok_subset:
  assumes "keys_ok s xs ys" and "set xs' \<subseteq> set xs" and "\<And>b. b \<noteq> a \<Longrightarrow> requests s' b = requests s b" and "a \<notin> set xs'" "a \<notin> set ys"
  shows "keys_ok s' xs' ys"
proof (rule keys_ok_cong)
  show "keys_ok s xs' ys" using assms(1,2) by (auto simp: keys_ok_def)
  have same: "requests s' b = requests s b" if "b \<in> set xs' \<union> set ys" for b
    using that assms(3) [of b] assms(4,5) by (cases "b = a") auto
  show "req_key s' b = req_key s b" if "b \<in> set xs'" for b using that same [of b] keys_same(1) by blast
  show "intr_key s' b = intr_key s b \<and> is_intr s' b = is_intr s b" if "b \<in> set ys" for b
    using that same [of b] keys_same(2,3) by blast
qed

lemma receive_inv:
  assumes inv: "machine_inv ni workers m xs ys" and en: "orderly ni workers m (Receive a v c)"
  shows "\<exists>m'. exec ni m (Receive a v c) = Some m' \<and> machine_inv ni workers m' xs ys"
proof -
  note I = invD [OF inv]
  have a: "a \<notin> holders m ys" "visits m a = 0"
    using store_okD(2) [OF I(2), of a] en by (auto simp: req_ok_def)
  then have nr: "a \<notin> fresh m" "a \<notin> own m" "a \<notin> set ys" "a \<notin> fst ` set (pend m)" "a \<notin> set xs" "a \<notin> setting m"
    using roles_okD(5,6) [OF I(3)] by (auto simp: holders_def)
  have "lockers m a = 0" using a(2) nr(6) lockers_le [of a m] by simp
  then obtain s r where s: "receive_req a v c (st m) = Some s" "rlinks s = list_init_req a (rlinks (st m))"
    "store_ok workers s (insert a (holders m ys)) (visits m) (lockers m)" "\<And>b. b \<noteq> a \<Longrightarrow> requests s b = requests (st m) b"
    using receive_ok [OF I(2), of a c v] en by auto
  let ?m = "m\<lparr>st := s, fresh := insert a (fresh m)\<rparr>"
  have "holders ?m ys = insert a (holders m ys)" "visits ?m = visits m" "lockers ?m = lockers m"
    by (auto simp: holders_def visits_def lockers_def fun_eq_iff)
  moreover have "links_ok (list_init_req a (rlinks (st m))) xs ys (insert a (fresh m \<union> (own m - set xs)))"
    by (rule links_init [OF I(1)]) (use nr en in \<open>auto simp: LIST_def INTERRUPTS_def\<close>)
  moreover have "keys_ok s xs ys"
    by (rule keys_ok_subset [OF I(4) _ s(4)]) (use nr in auto)
  moreover have "roles_ok ni ?m xs ys"
    using I(3) nr a(2) by (auto simp: roles_ok_def visits_0)
  ultimately have "machine_inv ni workers ?m xs ys"
    using s(2,3) by (simp add: machine_inv_def)
  with s(1) show ?thesis by simp
qed

text \<open>A request that is freed leaves its list, or was in none.\<close>

lemma free_inv:
  assumes inv: "machine_inv ni workers m xs ys" and a: "a \<in> fresh m \<union> own m" "a \<notin> setting m"
  shows "\<exists>s. fuse_free_req ni a (st m) = Some s \<and>
    machine_inv ni workers (m\<lparr>st := s, fresh := fresh m - {a}, own := own m - {a}\<rparr>) (remove1 a xs) ys"
proof -
  note I = invD [OF inv]
  have H: "a \<in> holders m ys" using a(1) by (auto simp: holders_def)
  have nr: "a \<notin> set ys" "a \<notin> fst ` set (pend m)" using roles_okD(2,3) [OF I(3)] a(1) by auto
  have "visits m a = 0 \<longrightarrow> lockers m a = 0" using lockers_le [OF a(2)] by simp
  from free_ok [OF I(2) H this, of ni] linked_in_inv [OF inv, of a] a(1)
  obtain s where s: "fuse_free_req ni a (st m) = Some s"
    "rlinks s = (if ni then rlinks (st m) else list_del_req a (rlinks (st m)))"
    "store_ok workers s (holders m ys - {a}) (visits m) (lockers m)" "\<And>b. b \<noteq> a \<Longrightarrow> requests s b = requests (st m) b"
    by blast
  let ?m = "m\<lparr>st := s, fresh := fresh m - {a}, own := own m - {a}\<rparr>"
  have d: "distinct xs" "set (remove1 a xs) = set xs - {a}"
    using links_okD(1) [OF I(1)] by (auto simp: is_list_def)
  have "holders ?m ys = holders m ys - {a}" "visits ?m = visits m" "lockers ?m = lockers m"
    using nr by (auto simp: holders_def visits_def lockers_def fun_eq_iff)
  moreover have "links_ok (rlinks s) (remove1 a xs) ys (fresh m - {a} \<union> (own m - {a} - set (remove1 a xs)))"
  proof (cases "a \<in> set xs")
    case True
    then have "\<not> ni" using roles_okD(8) [OF I(3)] by auto
    then have "links_ok (rlinks s) (remove1 a xs) ys (fresh m \<union> (own m - set xs))"
      using links_del_list [OF I(1) True] s(2) by simp
    then show ?thesis by (rule links_fewer) (use d in auto)
  next
    case False
    then have "alone (rlinks (st m)) a" using links_okD(3) [OF I(1), of a] a(1) by blast
    then have "rlinks s = rlinks (st m)" using s(2) reqs.del_alone by simp
    moreover have "links_ok (rlinks (st m)) xs ys (fresh m - {a} \<union> (own m - {a} - set xs))"
      by (rule links_fewer [OF I(1)]) auto
    ultimately show ?thesis using False by (simp add: remove1_idem)
  qed
  moreover have "keys_ok s (remove1 a xs) ys"
    by (rule keys_ok_subset [OF I(4) _ s(4)]) (use nr d in auto)
  moreover have "roles_ok ni ?m (remove1 a xs) ys"
    using I(3) a(2) d by (auto simp: roles_ok_def)
  ultimately have "machine_inv ni workers ?m (remove1 a xs) ys"
    using s(3) by (simp add: machine_inv_def)
  with s(1) show ?thesis by blast
qed

lemma reject_inv:
  assumes inv: "machine_inv ni workers m xs ys" and "orderly ni workers m (Reject a)"
  shows "\<exists>m'. exec ni m (Reject a) = Some m' \<and> machine_inv ni workers m' (remove1 a xs) ys"
proof -
  have a: "a \<in> fresh m" "a \<notin> own m" "a \<notin> setting m" using assms roles_okD(1,6) [OF invD(3) [OF inv]] by auto
  then have "own m - {a} = own m" by auto
  moreover obtain s where "fuse_free_req ni a (st m) = Some s"
    "machine_inv ni workers (m\<lparr>st := s, fresh := fresh m - {a}, own := own m - {a}\<rparr>) (remove1 a xs) ys"
    using free_inv [OF inv, of a] a by blast
  ultimately show ?thesis by simp
qed

lemma reply_inv:
  assumes inv: "machine_inv ni workers m xs ys" and "orderly ni workers m (Reply a)"
  shows "\<exists>m'. exec ni m (Reply a) = Some m' \<and> machine_inv ni workers m' (remove1 a xs) ys"
proof -
  have a: "a \<in> own m" "a \<notin> fresh m" "a \<notin> setting m" using assms roles_okD(1,6) [OF invD(3) [OF inv]] by auto
  then have "fresh m - {a} = fresh m" by auto
  moreover obtain s where "fuse_free_req ni a (st m) = Some s"
    "machine_inv ni workers (m\<lparr>st := s, fresh := fresh m - {a}, own := own m - {a}\<rparr>) (remove1 a xs) ys"
    using free_inv [OF inv, of a] a by blast
  ultimately show ?thesis by simp
qed

lemma search_list:
  assumes "is_list l LIST xs" and "\<And>a. a \<in> set xs \<Longrightarrow> requests s a \<noteq> None"
  shows "list_search l LIST (has_unique v s) (nxt l LIST) = Some (find (\<lambda>a. req_key s a = v) xs)"
  by (rule list_search_correct [OF assms(1)]) (use assms(2) in \<open>force simp: has_unique_def read_req_def req_key_def\<close>)

lemma search_interrupts:
  assumes "is_list l INTERRUPTS ys" and "\<And>b. b \<in> set ys \<Longrightarrow> is_intr s b"
  shows "list_search l INTERRUPTS (interrupts_unique v s) (nxt l INTERRUPTS) = Some (find (\<lambda>b. intr_key s b = v) ys)"
  by (rule list_search_correct [OF assms(1)])
    (use assms(2) in \<open>force simp: interrupts_unique_def read_req_def intr_key_def is_intr_def split: option.splits req_u.splits\<close>)

text \<open>Writing to a request what does not concern counters, locks, channels and the lists' keys.\<close>

lemma write_inv:
  assumes inv: "machine_inv ni workers m xs ys" and r: "requests (st m) a = Some r" and ys: "a \<notin> set ys"
    and q: "ch q = ch r" "ref_cnt q = ref_cnt r" "locked q = locked r" "unique q = unique r"
  shows "machine_inv ni workers (m\<lparr>st := (st m)\<lparr>requests := (requests (st m))(a \<mapsto> q)\<rparr>\<rparr>) xs ys"
proof -
  note I = invD [OF inv]
  let ?s = "(st m)\<lparr>requests := (requests (st m))(a \<mapsto> q)\<rparr>"
  have "store_ok workers ?s (holders m ys) (visits m) (lockers m)"
    by (rule rewrite_ok [OF I(2) r q(1,2)]) (use store_okD(2) [OF I(2), of a] r q in \<open>auto simp: req_ok_def\<close>)
  moreover have "keys_ok ?s xs ys"
  proof (rule keys_ok_cong [OF I(4)])
    show "req_key ?s b = req_key (st m) b" for b using r q(4) by (simp add: req_key_def)
    show "intr_key ?s b = intr_key (st m) b \<and> is_intr ?s b = is_intr (st m) b" if "b \<in> set ys" for b
      using that ys by (auto simp: intr_key_def is_intr_def)
  qed
  ultimately show ?thesis
    using I(1,3) by (simp add: machine_inv_def)
qed

lemma keys_ok_remove:
  assumes "keys_ok s xs ys" and "c \<in> set ys" and "\<And>b. b \<noteq> c \<Longrightarrow> requests s' b = requests s b" and "c \<notin> set xs"
  shows "keys_ok s' xs (remove1 c ys)" and "b \<in> set (remove1 c ys) \<Longrightarrow> intr_key s' b \<noteq> intr_key s c"
proof -
  have d: "distinct ys" using assms(1) by (auto simp: keys_ok_def distinct_map)
  have keys: "intr_key s b \<noteq> intr_key s c" if "b \<in> set (remove1 c ys)" for b
    using that assms(1,2) d by (auto simp: keys_ok_def distinct_map inj_on_def)
  have "keys_ok s xs (remove1 c ys)"
    using assms(1) d set_remove1_subset [of c ys] by (auto simp: keys_ok_def distinct_map intro: inj_on_subset)
  then show "keys_ok s' xs (remove1 c ys)"
    by (rule keys_ok_subset [OF _ _ assms(3)]) (use d assms(4) in auto)
  show "intr_key s' b \<noteq> intr_key s c" if "b \<in> set (remove1 c ys)"
    using keys [OF that] keys_same(2) [OF assms(3) [of b]] that d by auto
qed

text \<open>An interrupt that waits is taken from the list and destroyed.\<close>

lemma take_interrupt_inv:
  assumes inv: "machine_inv ni workers m xs ys" and c: "c \<in> set ys"
  obtains s1 s2 where "del_link c (st m) = Some s1" "drop_interrupt c s1 = Some s2"
    "machine_inv ni workers (m\<lparr>st := s2\<rparr>) xs (remove1 c ys)" "\<And>b. b \<noteq> c \<Longrightarrow> requests s2 b = requests (st m) b"
    "\<And>b. b \<in> set (remove1 c ys) \<Longrightarrow> intr_key s2 b \<noteq> intr_key (st m) c"
proof -
  note I = invD [OF inv]
  define s1 where "s1 = (st m)\<lparr>rlinks := list_del_req c (rlinks (st m))\<rparr>"
  have d: "del_link c (st m) = Some s1"
    using linked_in_inv [OF inv, of c] listed_there [OF inv, of c] c by (simp add: del_link_def s1_def linked_in_def present_def)
  have nv: "visits m c = 0" "lockers m c = 0" using not_visited [OF I(3), of c] c by auto
  have nr: "c \<notin> fresh m" "c \<notin> own m" "c \<notin> fst ` set (pend m)" "c \<notin> set xs"
    using roles_okD(2,3,5) [OF I(3)] c by auto
  have dist: "distinct ys" using links_okD(2) [OF I(1)] by (simp add: is_list_def)
  have "store_ok workers s1 (holders m ys) (visits m) (lockers m)"
    using I(2) by (simp add: store_ok_def s1_def)
  then obtain s2 where s2: "drop_interrupt c s1 = Some s2" "rlinks s2 = rlinks s1"
    "store_ok workers s2 (holders m ys - {c}) (visits m) (lockers m)" "\<And>b. b \<noteq> c \<Longrightarrow> requests s2 b = requests s1 b"
    using drop_interrupt_ok [of workers s1 "holders m ys" "visits m" "lockers m" c] nv c by (auto simp: holders_def)
  have same: "\<And>b. b \<noteq> c \<Longrightarrow> requests s2 b = requests (st m) b" using s2(4) by (simp add: s1_def)
  have "holders (m\<lparr>st := s2\<rparr>) (remove1 c ys) = holders m ys - {c}" using nr dist by (auto simp: holders_def)
  moreover have "links_ok (rlinks s2) xs (remove1 c ys) (fresh m \<union> (own m - set xs))"
    using links_del_interrupts [OF I(1) c] s2(2) by (simp add: s1_def)
  moreover have "roles_ok ni (m\<lparr>st := s2\<rparr>) xs (remove1 c ys)"
    using I(3) dist by (auto simp: roles_ok_def)
  moreover have "visits (m\<lparr>st := s2\<rparr>) = visits m" "lockers (m\<lparr>st := s2\<rparr>) = lockers m"
    by (simp_all add: visits_def lockers_def fun_eq_iff)
  ultimately have "machine_inv ni workers (m\<lparr>st := s2\<rparr>) xs (remove1 c ys)"
    using s2(3) keys_ok_remove(1) [OF I(4) c same nr(4)] by (simp add: machine_inv_def)
  then show thesis using that d s2(1) same keys_ok_remove(2) [OF I(4) c same nr(4)] by blast
qed

text \<open>An interrupt that waits is taken from the list and given to a thread that will reply.\<close>

lemma return_interrupt_inv:
  assumes inv: "machine_inv ni workers m xs (c # ys)"
  defines "s \<equiv> (st m)\<lparr>rlinks := list_init_req c (list_del_req c (rlinks (st m)))\<rparr>"
  shows "machine_inv ni workers (m\<lparr>st := s, own := insert c (own m)\<rparr>) xs ys"
proof -
  note I = invD [OF inv]
  let ?m = "m\<lparr>st := s, own := insert c (own m)\<rparr>"
  have nr: "c \<notin> fresh m" "c \<notin> own m" "c \<notin> fst ` set (pend m)" "c \<notin> set xs" "c \<notin> set ys" "c \<noteq> LIST" "c \<noteq> INTERRUPTS"
    using roles_okD(2,3,5) [OF I(3)] links_okD(2,4) [OF I(1)] by (auto simp: is_list_def)
  have "links_ok (list_del_req c (rlinks (st m))) xs ys (fresh m \<union> (own m - set xs))"
    using links_del_interrupts [OF I(1), of c] by simp
  then have "links_ok (rlinks s) xs ys (insert c (fresh m \<union> (own m - set xs)))"
    using links_init [of "list_del_req c (rlinks (st m))" xs ys _ c] nr by (simp add: s_def)
  then have "links_ok (rlinks s) xs ys (fresh m \<union> (insert c (own m) - set xs))"
    by (rule links_fewer) auto
  moreover have "holders ?m ys = holders m (c # ys)" "visits ?m = visits m" "lockers ?m = lockers m"
    by (auto simp: holders_def visits_def lockers_def fun_eq_iff)
  moreover have "store_ok workers s (holders m (c # ys)) (visits m) (lockers m)"
    using I(2) by (simp add: store_ok_def s_def)
  moreover have "roles_ok ni ?m xs ys"
    using I(3) nr by (auto simp: roles_ok_def)
  moreover have "keys_ok s xs ys"
  proof (rule keys_ok_cong)
    show "keys_ok (st m) xs ys" using I(4) by (simp add: keys_ok_def)
  qed (simp_all add: s_def req_key_def intr_key_def is_intr_def)
  ultimately show ?thesis by (simp add: machine_inv_def)
qed

lemma check_interrupt_inv:
  assumes inv: "machine_inv ni workers m xs ys" and a: "a \<in> fresh m"
  obtains i s ys' where "check_interrupt a (st m) = Some (i, s)"
    "machine_inv ni workers (m\<lparr>st := s, own := own m \<union> set_option i\<rparr>) xs ys'"
    "\<And>b. b \<in> set ys' \<Longrightarrow> intr_key s b \<noteq> req_key s a" "a \<notin> set_option i"
    "\<And>b. b \<in> set ys \<Longrightarrow> intr_key (st m) b = req_key (st m) a \<or> i = Some b \<or> b \<in> set ys' \<and> intr_key s b = intr_key (st m) b"
proof -
  note I = invD [OF inv]
  obtain r where r: "requests (st m) a = Some r" using listed_there [OF inv, of a] a by auto
  have nr: "a \<notin> set ys" "a \<notin> set xs" "a \<notin> own m" using roles_okD(1,2,5) [OF I(3)] a by auto
  have srch: "list_search (rlinks (st m)) INTERRUPTS (interrupts_unique (unique r) (st m)) (nxt (rlinks (st m)) INTERRUPTS) =
      Some (find (\<lambda>b. intr_key (st m) b = unique r) ys)"
    using search_interrupts [OF links_okD(2) [OF I(1)]] I(4) by (simp add: keys_ok_def)
  have key: "req_key (st m) a = unique r" using r by (simp add: req_key_def)
  show thesis
  proof (cases "find (\<lambda>b. intr_key (st m) b = unique r) ys")
    case (Some c)
    then have c: "c \<in> set ys" "intr_key (st m) c = unique r" "c \<noteq> a"
      using nr(1) by (auto simp: find_Some_iff)
    let ?s1 = "(st m)\<lparr>requests := (requests (st m))(a \<mapsto> r\<lparr>interrupted := True\<rparr>)\<rparr>"
    have "machine_inv ni workers (m\<lparr>st := ?s1\<rparr>) xs ys" by (rule write_inv [OF inv r nr(1)]) simp_all
    from take_interrupt_inv [OF this c(1)] obtain s1 s2 where s: "del_link c ?s1 = Some s1" "drop_interrupt c s1 = Some s2"
      "machine_inv ni workers (m\<lparr>st := s2\<rparr>) xs (remove1 c ys)" "\<And>b. b \<noteq> c \<Longrightarrow> requests s2 b = requests ?s1 b"
      "\<And>b. b \<in> set (remove1 c ys) \<Longrightarrow> intr_key s2 b \<noteq> intr_key ?s1 c"
      by auto
    have "check_interrupt a (st m) = Some (None, s2)"
      using r Some srch s(1,2) by (simp add: check_interrupt_def read_req_def write_req_def)
    moreover have "intr_key s2 b \<noteq> req_key s2 a" if "b \<in> set (remove1 c ys)" for b
      using s(5) [OF that] c(2,3) s(4) [of a] by (auto simp: intr_key_def req_key_def)
    moreover have "intr_key (st m) b = req_key (st m) a \<or> b \<in> set (remove1 c ys) \<and> intr_key s2 b = intr_key (st m) b"
      if "b \<in> set ys" for b
      using that c(2) key nr(1) s(4) [of b] by (cases "b = c") (auto simp: in_set_remove1 intr_key_def)
    ultimately show thesis using that [of None s2 "remove1 c ys"] s(3) by simp
  next
    case None
    show thesis
    proof (cases ys)
      case Nil
      have "check_interrupt a (st m) = Some (None, st m)"
        using r None srch nxt_head [OF links_okD(2) [OF I(1)]] Nil by (simp add: check_interrupt_def read_req_def)
      then show thesis using that [of None "st m" ys] inv Nil by simp
    next
      case (Cons c ys')
      let ?l = "list_init_req c (list_del_req c (rlinks (st m)))"
      have hd: "nxt (rlinks (st m)) INTERRUPTS = c" "c \<noteq> INTERRUPTS"
        using nxt_head [OF links_okD(2) [OF I(1)]] links_okD(2) [OF I(1)] Cons by (auto simp: is_list_def)
      have "del_link c (st m) = Some ((st m)\<lparr>rlinks := list_del_req c (rlinks (st m))\<rparr>)"
        using linked_in_inv [OF inv, of c] listed_there [OF inv, of c] Cons by (simp add: del_link_def linked_in_def present_def)
      then have "check_interrupt a (st m) = Some (Some c, (st m)\<lparr>rlinks := ?l\<rparr>)"
        using r None srch hd by (simp add: check_interrupt_def read_req_def)
      moreover have "machine_inv ni workers (m\<lparr>st := (st m)\<lparr>rlinks := ?l\<rparr>, own := insert c (own m)\<rparr>) xs ys'"
        by (rule return_interrupt_inv) (use inv Cons in simp)
      moreover have "intr_key (st m) b \<noteq> unique r" if "b \<in> set ys'" for b
        using that None unfolding find_None_iff Cons by auto
      ultimately show thesis
        using key nr(1) Cons by (intro that [of "Some c" "(st m)\<lparr>rlinks := ?l\<rparr>" ys']) auto
    qed
  qed
qed

lemma add_link_ok:
  assumes inv: "machine_inv ni workers m xs ys" and a: "a \<in> fresh m" and h: "h = LIST \<or> h = INTERRUPTS"
  shows "add_link a h (st m) = Some ((st m)\<lparr>rlinks := list_add_req a h (rlinks (st m))\<rparr>)"
  using linked_in_ok [OF invD(1) [OF inv], of a] linked_in_ok [OF invD(1) [OF inv], of h] listed_there [OF inv] a h
  by (auto simp: add_link_def linked_in_def)

lemma add_list_inv:
  assumes inv: "machine_inv ni workers m xs ys" and a: "a \<in> fresh m" and ni: "\<not> ni"
    and keys: "\<And>b. b \<in> set ys \<Longrightarrow> intr_key (st m) b \<noteq> req_key (st m) a"
  shows "machine_inv ni workers (m\<lparr>st := (st m)\<lparr>rlinks := list_add_req a LIST (rlinks (st m))\<rparr>, fresh := fresh m - {a},
    own := insert a (own m)\<rparr>) (xs @ [a]) ys"
proof -
  note I = invD [OF inv]
  let ?s = "(st m)\<lparr>rlinks := list_add_req a LIST (rlinks (st m))\<rparr>"
  let ?m = "m\<lparr>st := ?s, fresh := fresh m - {a}, own := insert a (own m)\<rparr>"
  have "links_ok (rlinks ?s) (xs @ [a]) ys (fresh m \<union> (own m - set xs) - {a})"
    using links_add_list [OF I(1), of a] a by simp
  then have "links_ok (rlinks ?s) (xs @ [a]) ys (fresh m - {a} \<union> (insert a (own m) - set (xs @ [a])))"
    by (rule links_fewer) auto
  moreover have "holders ?m ys = holders m ys" using a by (auto simp: holders_def)
  moreover have "roles_ok ni ?m (xs @ [a]) ys" using I(3) a ni by (auto simp: roles_ok_def)
  moreover have "store_ok workers ?s (holders m ys) (visits m) (lockers m)" using I(2) by (simp add: store_ok_def)
  moreover have "keys_ok ?s (xs @ [a]) ys"
    using I(4) by (auto simp: keys_ok_def dest: keys)
  ultimately show ?thesis by (simp add: machine_inv_def)
qed

lemma admit_inv:
  assumes inv: "machine_inv ni workers m xs ys" and en: "orderly ni workers m (Admit a)"
  shows "\<exists>m' xs' ys'. exec ni m (Admit a) = Some m' \<and> machine_inv ni workers m' xs' ys'"
proof (cases ni)
  case True
  note I = invD [OF inv]
  let ?m = "m\<lparr>fresh := fresh m - {a}, own := insert a (own m)\<rparr>"
  have xs: "xs = []" using roles_okD(8) [OF I(3) True] by simp
  have "holders ?m ys = holders m ys" using en by (auto simp: holders_def)
  moreover have "fresh m - {a} \<union> (insert a (own m) - set xs) = fresh m \<union> (own m - set xs)" using en xs by auto
  moreover have "roles_ok ni ?m xs ys" using I(3) en by (auto simp: roles_ok_def)
  ultimately have "machine_inv ni workers ?m xs ys" using I(1,2,4) by (simp add: machine_inv_def)
  then show ?thesis using True by (auto simp: admit_req_def)
next
  case False
  have a: "a \<in> fresh m" using en by simp
  from check_interrupt_inv [OF inv a] obtain i s ys' where c: "check_interrupt a (st m) = Some (i, s)"
    "machine_inv ni workers (m\<lparr>st := s, own := own m \<union> set_option i\<rparr>) xs ys'"
    "\<And>b. b \<in> set ys' \<Longrightarrow> intr_key s b \<noteq> req_key s a" "a \<notin> set_option i"
    by metis
  let ?s = "s\<lparr>rlinks := list_add_req a LIST (rlinks s)\<rparr>"
  have "add_link a LIST s = Some ?s"
    using add_link_ok [OF c(2), of a LIST] a by simp
  then have "exec ni m (Admit a) = Some (m\<lparr>st := ?s, fresh := fresh m - {a}, own := insert a (own m \<union> set_option i)\<rparr>)"
    using c(1) False by (simp add: admit_req_def insert_commute)
  then show ?thesis using add_list_inv [OF c(2) _ False, of a] c(3) a by auto
qed

lemma count_remove1:
  assumes "x \<in> set ps"
  shows "length (filter P ps) = (if P x then 1 else 0) + length (filter P (remove1 x ps))"
  using assms by (induction ps) auto

lemma visits_pend [simp]:
  "visits (m\<lparr>pend := (b, c, p) # ps\<rparr>) a = (if c = a then 1 else 0) + visits (m\<lparr>pend := ps\<rparr>) a"
  "lockers (m\<lparr>pend := (b, c, p) # ps\<rparr>) a = (if c = a \<and> p = Calling then 1 else 0) + lockers (m\<lparr>pend := ps\<rparr>) a"
  by (simp_all add: visits_def lockers_def)

lemma visits_remove:
  assumes "(b, c, p) \<in> set (pend m)"
  shows "visits m a = (if c = a then 1 else 0) + visits (m\<lparr>pend := remove1 (b, c, p) (pend m)\<rparr>) a"
    "lockers m a = (if c = a \<and> p = Calling then 1 else 0) + lockers (m\<lparr>pend := remove1 (b, c, p) (pend m)\<rparr>) a"
  using count_remove1 [OF assms, of "\<lambda>(b, c, p). c = a"] count_remove1 [OF assms, of "\<lambda>(b, c, p). c = a \<and> p = Calling"]
  by (simp_all add: visits_def lockers_def)

lemma st_pend [simp]:
  "visits (m\<lparr>st := s, pend := ps\<rparr>) = visits (m\<lparr>pend := ps\<rparr>)" "lockers (m\<lparr>st := s, pend := ps\<rparr>) = lockers (m\<lparr>pend := ps\<rparr>)"
  "holders (m\<lparr>st := s, pend := ps\<rparr>) ys = holders (m\<lparr>pend := ps\<rparr>) ys"
  "roles_ok ni (m\<lparr>st := s, pend := ps\<rparr>) xs ys = roles_ok ni (m\<lparr>pend := ps\<rparr>) xs ys"
  by (simp_all add: visits_def lockers_def holders_def roles_ok_def fun_eq_iff)

text \<open>The threads with interrupts after one of them has changed its phase.\<close>

lemma change_phase:
  assumes roles: "roles_ok ni m xs ys" and p: "(b, c, p) \<in> set (pend m)"
  shows "roles_ok ni (m\<lparr>pend := (b, c, q) # remove1 (b, c, p) (pend m)\<rparr>) xs ys"
    "holders (m\<lparr>pend := (b, c, q) # remove1 (b, c, p) (pend m)\<rparr>) ys = holders m ys"
    "visits (m\<lparr>pend := (b, c, q) # remove1 (b, c, p) (pend m)\<rparr>) = visits m"
    "lockers (m\<lparr>pend := (b, c, q) # remove1 (b, c, p) (pend m)\<rparr>) a =
      lockers m a - (if c = a \<and> p = Calling then 1 else 0) + (if c = a \<and> q = Calling then 1 else 0)"
proof -
  let ?ps = "remove1 (b, c, p) (pend m)"
  have d: "distinct (map fst (pend m))" by (rule roles_okD(4) [OF roles])
  obtain us vs where ps: "pend m = us @ (b, c, p) # vs" "(b, c, p) \<notin> set us" using p by (meson split_list_first)
  then have r: "?ps = us @ vs" by (simp add: remove1_append)
  have f: "fst ` set ((b, c, q) # ?ps) = fst ` set (pend m)" "distinct (map fst ((b, c, q) # ?ps))"
    using d unfolding r by (auto simp: ps(1))
  have "c' \<notin> fresh m \<union> set ys \<union> fst ` set (pend m)" if "(b', c', q') \<in> set ((b, c, q) # ?ps)" for b' c' q'
    using that roles_okD(7) [OF roles, of b c p] roles_okD(7) [OF roles, of b' c' q'] p set_remove1_subset [of "(b, c, p)" "pend m"]
    by auto
  moreover have "\<not> ni" using roles_okD(8) [OF roles] p by auto
  ultimately show "roles_ok ni (m\<lparr>pend := (b, c, q) # ?ps\<rparr>) xs ys"
    using roles f unfolding roles_ok_def by (auto simp del: set_simps)
  show "holders (m\<lparr>pend := (b, c, q) # ?ps\<rparr>) ys = holders m ys" using f(1) by (simp add: holders_def)
  show "visits (m\<lparr>pend := (b, c, q) # ?ps\<rparr>) = visits m"
  proof
    show "visits (m\<lparr>pend := (b, c, q) # ?ps\<rparr>) a = visits m a" for a using visits_remove(1) [OF p, of a] by simp
  qed
  show "lockers (m\<lparr>pend := (b, c, q) # ?ps\<rparr>) a =
      lockers m a - (if c = a \<and> p = Calling then 1 else 0) + (if c = a \<and> q = Calling then 1 else 0)"
    using visits_remove(2) [OF p, of a] by simp
qed

lemma visited_there:
  assumes "machine_inv ni workers m xs ys" and "(b, c, p) \<in> set (pend m)"
  obtains r where "requests (st m) c = Some r" "c \<notin> set ys" "lockers m c = (if locked r then 1 else 0)"
proof -
  have "0 < visits m c" using visits_0 [of m c] assms(2) by auto
  then obtain r where r: "requests (st m) c = Some r" using held_alive [OF invD(2) [OF assms(1)], of c] by auto
  then show thesis
    using that store_okD(2) [OF invD(2) [OF assms(1)], of c] roles_okD(7) [OF invD(3) [OF assms(1)] assms(2)]
    by (auto simp: req_ok_def)
qed

text \<open>Writing to a request what changes who holds its mutex.\<close>

lemma lock_write_inv:
  assumes inv: "machine_inv ni workers m xs ys" and r: "requests (st m) a = Some r" and ys: "a \<notin> set ys"
    and q: "ch q = ch r" "ref_cnt q = ref_cnt r" "unique q = unique r"
    and m': "st m' = (st m)\<lparr>requests := (requests (st m))(a \<mapsto> q)\<rparr>" "fresh m' = fresh m" "own m' = own m"
      "holders m' ys = holders m ys" "visits m' = visits m" "roles_ok ni m' xs ys"
    and l: "lockers m' a = (if locked q then 1 else 0)" "\<And>b. b \<noteq> a \<Longrightarrow> lockers m' b = lockers m b"
  shows "machine_inv ni workers m' xs ys"
proof -
  note I = invD [OF inv]
  have "store_ok workers (st m') (holders m ys) (visits m) (lockers m')"
    unfolding m'(1) by (rule rewrite_ok [OF I(2) r q(1,2) l])
  moreover have "keys_ok (st m') xs ys"
  proof (rule keys_ok_cong [OF I(4)])
    show "req_key (st m') b = req_key (st m) b" for b using r q(3) by (simp add: m'(1) req_key_def)
    show "intr_key (st m') b = intr_key (st m) b \<and> is_intr (st m') b = is_intr (st m) b" if "b \<in> set ys" for b
      using that ys by (auto simp: m'(1) intr_key_def is_intr_def)
  qed
  ultimately show ?thesis using I(1) m' by (simp add: machine_inv_def)
qed

lemma mark_inv:
  assumes inv: "machine_inv ni workers m xs ys" and en: "orderly ni workers m (Mark b c)"
  shows "\<exists>m'. exec ni m (Mark b c) = Some m' \<and> machine_inv ni workers m' xs ys"
proof -
  have p: "(b, c, Waiting) \<in> set (pend m)" using en by simp
  obtain r where r: "requests (st m) c = Some r" "c \<notin> set ys" "lockers m c = (if locked r then 1 else 0)"
    by (rule visited_there [OF inv p])
  then have "lockers m c = 0" using en by (auto simp: lock_free_def)
  with p have "machine_inv ni workers (m\<lparr>st := (st m)\<lparr>requests := (requests (st m))(c \<mapsto> r\<lparr>locked := True, interrupted := True\<rparr>)\<rparr>,
      pend := (b, c, Calling) # remove1 (b, c, Waiting) (pend m)\<rparr>) xs ys"
    by (intro lock_write_inv [OF inv r(1,2), where q = "r\<lparr>locked := True, interrupted := True\<rparr>"])
      (simp_all add: change_phase [OF invD(3) [OF inv] p, of Calling] del: visits_pend)
  then show ?thesis using r(1) by (simp add: mark_interrupted_def read_req_def write_req_def)
qed

lemma unlock_inv:
  assumes inv: "machine_inv ni workers m xs ys" and en: "orderly ni workers m (Unlock b c)"
  shows "\<exists>m'. exec ni m (Unlock b c) = Some m' \<and> machine_inv ni workers m' xs ys"
proof -
  have p: "(b, c, Calling) \<in> set (pend m)" using en by simp
  obtain r where r: "requests (st m) c = Some r" "c \<notin> set ys" "lockers m c = (if locked r then 1 else 0)"
    by (rule visited_there [OF inv p])
  then have l: "lockers m c = 1" "locked r" using visits_remove(2) [OF p, of c] by (auto split: if_splits)
  then have "machine_inv ni workers (m\<lparr>st := (st m)\<lparr>requests := (requests (st m))(c \<mapsto> r\<lparr>locked := False\<rparr>)\<rparr>,
      pend := (b, c, Leaving) # remove1 (b, c, Calling) (pend m)\<rparr>) xs ys"
    by (intro lock_write_inv [OF inv r(1,2), where q = "r\<lparr>locked := False\<rparr>"])
      (simp_all add: change_phase [OF invD(3) [OF inv] p, of Leaving] del: visits_pend)
  then show ?thesis using r(1) l by (simp add: unlock_req_def read_req_def write_req_def)
qed

lemma setting_frame:
  "lockers (m\<lparr>setting := A\<rparr>) a = lockers m a + (if a \<in> A then 1 else 0) - (if a \<in> setting m then 1 else 0)"
  by (simp add: lockers_def)

lemma set_func_inv:
  assumes inv: "machine_inv ni workers m xs ys" and en: "orderly ni workers m (SetFunc a f d)"
  shows "\<exists>m'. exec ni m (SetFunc a f d) = Some m' \<and> machine_inv ni workers m' xs ys"
proof -
  note I = invD [OF inv]
  have a: "a \<in> own m" "a \<notin> setting m" "a \<notin> set ys" using en roles_okD(2) [OF I(3)] by auto
  obtain r where r: "requests (st m) a = Some r" using listed_there [OF inv, of a] a(1) by auto
  then have "lockers m a = 0" using store_okD(2) [OF I(2), of a] en by (auto simp: req_ok_def lock_free_def)
  then have "machine_inv ni workers (m\<lparr>st := (st m)\<lparr>requests := (requests (st m))(a \<mapsto> r\<lparr>locked := True, req_u := U_ni f d\<rparr>)\<rparr>,
      setting := insert a (setting m)\<rparr>) xs ys"
    by (intro lock_write_inv [OF inv r a(3), where q = "r\<lparr>locked := True, req_u := U_ni f d\<rparr>"])
      (use a I(3) in \<open>simp_all add: setting_frame roles_ok_def\<close>)
  then show ?thesis using r by (simp add: fuse_req_interrupt_func_def read_req_def write_req_def)
qed

lemma end_set_inv:
  assumes inv: "machine_inv ni workers m xs ys" and en: "orderly ni workers m (EndSet a)"
  shows "\<exists>m'. exec ni m (EndSet a) = Some m' \<and> machine_inv ni workers m' xs ys"
proof -
  note I = invD [OF inv]
  have a: "a \<in> own m" "a \<in> setting m" "a \<notin> set ys" using en roles_okD(2,6) [OF I(3)] by auto
  obtain r where r: "requests (st m) a = Some r" using listed_there [OF inv, of a] a(1) by auto
  then have l: "lockers m a = 1" "locked r" using store_okD(2) [OF I(2), of a] a(2) by (auto simp: req_ok_def lockers_def split: if_splits)
  then have "machine_inv ni workers (m\<lparr>st := (st m)\<lparr>requests := (requests (st m))(a \<mapsto> r\<lparr>locked := False\<rparr>)\<rparr>,
      setting := setting m - {a}\<rparr>) xs ys"
    by (intro lock_write_inv [OF inv r a(3), where q = "r\<lparr>locked := False\<rparr>"])
      (use a I(3) in \<open>auto simp: setting_frame roles_ok_def\<close>)
  then show ?thesis using r l by (simp add: unlock_req_def read_req_def write_req_def)
qed

text \<open>The threads with interrupts after one of them has left.\<close>

lemma remove_thread:
  assumes roles: "roles_ok ni m xs ys" and p: "(b, c, p) \<in> set (pend m)"
  shows "roles_ok ni (m\<lparr>pend := remove1 (b, c, p) (pend m)\<rparr>) xs ys"
    "holders (m\<lparr>pend := remove1 (b, c, p) (pend m)\<rparr>) ys = holders m ys - {b}"
proof -
  let ?ps = "remove1 (b, c, p) (pend m)"
  have bB: "b \<in> fst ` set (pend m)" using p by force
  obtain us vs where ps: "pend m = us @ (b, c, p) # vs" "(b, c, p) \<notin> set us" using p by (meson split_list_first)
  then have rest: "?ps = us @ vs" by (simp add: remove1_append)
  have f: "fst ` set ?ps = fst ` set (pend m) - {b}" "distinct (map fst ?ps)"
    using roles_okD(4) [OF roles] unfolding rest by (auto simp: ps(1))
  have "c' \<notin> fresh m \<union> set ys \<union> fst ` set ?ps" if "(b', c', q') \<in> set ?ps" for b' c' q'
    using that roles_okD(7) [OF roles, of b' c' q'] set_remove1_subset [of "(b, c, p)" "pend m"] unfolding f(1) by auto
  then have "\<forall>(b', c', q')\<in>set ?ps. c' \<notin> fresh m \<union> set ys \<union> fst ` set ?ps" by blast
  moreover have "\<not> ni" using roles_okD(8) [OF roles] p by auto
  moreover have "fst ` set ?ps \<inter> (fresh m \<union> own m \<union> set ys) = {}" using roles_okD(3) [OF roles] f(1) by blast
  ultimately show "roles_ok ni (m\<lparr>pend := ?ps\<rparr>) xs ys" using roles_okD(1,2,5,6) [OF roles] f(2) by (simp add: roles_ok_def)
  show "holders (m\<lparr>pend := ?ps\<rparr>) ys = holders m ys - {b}"
    using roles_okD(3) [OF roles] bB f(1) by (auto simp: holders_def)
qed

lemma finish_inv:
  assumes inv: "machine_inv ni workers m xs ys" and en: "orderly ni workers m (Finish b c)"
  shows "\<exists>m'. exec ni m (Finish b c) = Some m' \<and> machine_inv ni workers m' xs ys"
proof -
  note I = invD [OF inv]
  have p: "(b, c, Leaving) \<in> set (pend m)" using en by simp
  let ?m = "m\<lparr>pend := remove1 (b, c, Leaving) (pend m)\<rparr>"
  have bB: "b \<in> fst ` set (pend m)" using p by force
  have nv: "visits m b = 0" "lockers m b = 0" using not_visited [OF I(3), of b] bB by auto
  have nr: "b \<notin> own m" "b \<notin> set ys" "c \<noteq> b" "c \<notin> set ys" using roles_okD(3) [OF I(3)] roles_okD(7) [OF I(3) p] bB by auto
  have v: "visits m a = (if c = a then 1 else 0) + visits ?m a" "lockers m a = lockers ?m a" for a
    using visits_remove [OF p, of a] by simp_all
  have "c \<notin> setting m" if "c \<notin> holders m ys" using that roles_okD(6) [OF I(3)] by (auto simp: holders_def)
  then have free: "visits m c = 1 \<longrightarrow> c \<notin> holders m ys \<longrightarrow> lockers m c = 0"
    using v [of c] lockers_le [of c ?m] by (cases "c \<in> holders m ys") simp_all
  have pos: "0 < visits m c" using v(1) [of c] by simp
  obtain s1 where s1: "release_interrupted c (st m) = Some s1" "rlinks s1 = rlinks (st m)"
    "store_ok workers s1 (holders m ys) ((visits m)(c := visits m c - 1)) (lockers m)"
    "\<And>b. b \<noteq> c \<Longrightarrow> requests s1 b = requests (st m) b"
    "\<And>r. requests (st m) c = Some r \<Longrightarrow> c \<in> holders m ys \<Longrightarrow> requests s1 c = Some (r\<lparr>ref_cnt := ref_cnt r - 1\<rparr>)"
    using release_req_ok [OF I(2) pos free] by metis
  have "b \<in> holders m ys" "((visits m)(c := visits m c - 1)) b = 0" using bB nv nr by (auto simp: holders_def)
  then obtain s2 where s2: "drop_interrupt b s1 = Some s2" "rlinks s2 = rlinks s1"
    "store_ok workers s2 (holders m ys - {b}) ((visits m)(c := visits m c - 1)) (lockers m)"
    "\<And>a. a \<noteq> b \<Longrightarrow> requests s2 a = requests s1 a"
    using drop_interrupt_ok [OF s1(3), of b] nv(2) by blast
  have "visits ?m = (visits m)(c := visits m c - 1)" "lockers ?m = lockers m" using v by (auto simp: fun_eq_iff)
  moreover have "keys_ok s2 xs ys"
  proof (rule keys_ok_cong [OF I(4)])
    show "req_key s2 a = req_key (st m) a" if ax: "a \<in> set xs" for a
    proof -
      have a: "a \<noteq> b" "a \<in> holders m ys" using ax roles_okD(5) [OF I(3)] nr by (auto simp: holders_def)
      obtain r where "requests (st m) a = Some r" using listed_there [OF inv, of a] ax by auto
      then show ?thesis using s2(4) [OF a(1)] s1(4) [of a] s1(5) [of r] a(2) by (cases "a = c") (simp_all add: req_key_def)
    qed
    show "intr_key s2 a = intr_key (st m) a \<and> is_intr s2 a = is_intr (st m) a" if "a \<in> set ys" for a
      using that nr keys_same(2,3) [of s2 a "st m"] s2(4) [of a] s1(4) [of a] by metis
  qed
  ultimately have "machine_inv ni workers (m\<lparr>st := s2, pend := remove1 (b, c, Leaving) (pend m)\<rparr>) xs ys"
    using I(1) s2(2,3) s1(2) remove_thread [OF I(3) p] by (simp add: machine_inv_def)
  then show ?thesis using s1(1) s2(1) by (simp add: do_interrupt_end_def)
qed

text \<open>The three ways of an interrupt: its request is in progress, another one waits, or it waits itself.\<close>

lemma interrupt_found_inv:
  assumes inv: "machine_inv ni workers m xs ys" and a: "a \<in> fresh m" "\<not> ni" and c: "c \<in> set xs" "requests (st m) c = Some q"
  shows "machine_inv ni workers (m\<lparr>st := (st m)\<lparr>requests := (requests (st m))(c \<mapsto> q\<lparr>ref_cnt := ref_cnt q + 1\<rparr>)\<rparr>,
    fresh := fresh m - {a}, pend := (a, c, Waiting) # pend m\<rparr>) xs ys"
proof -
  note I = invD [OF inv]
  let ?s = "(st m)\<lparr>requests := (requests (st m))(c \<mapsto> q\<lparr>ref_cnt := ref_cnt q + 1\<rparr>)\<rparr>"
  let ?m = "m\<lparr>st := ?s, fresh := fresh m - {a}, pend := (a, c, Waiting) # pend m\<rparr>"
  have "c \<in> own m" using c(1) roles_okD(5) [OF I(3)] by auto
  then have nc: "c \<notin> fresh m" "c \<notin> set ys" "c \<notin> fst ` set (pend m)" "c \<noteq> a" using roles_okD(1,2,3) [OF I(3)] a by auto
  have nr: "a \<notin> own m" "a \<notin> set ys" "a \<notin> fst ` set (pend m)" using roles_okD(1,2,3) [OF I(3)] a by auto
  have va: "\<forall>b p. (b, a, p) \<notin> set (pend m)" using not_visited(1) [OF I(3), of a] a by (simp add: visits_0)
  have "store_ok workers ?s (holders m ys) ((visits m)(c := visits m c + 1)) (lockers m)"
    by (rule count_up_ok [OF I(2) c(2)])
  moreover have "holders ?m ys = holders m ys" using a by (auto simp: holders_def)
  moreover have "visits ?m = (visits m)(c := visits m c + 1)" "lockers ?m = lockers m"
    by (simp_all add: visits_def lockers_def fun_eq_iff)
  moreover have "roles_ok ni ?m xs ys" using I(3) nc nr a va by (auto simp: roles_ok_def)
  moreover have "keys_ok ?s xs ys"
  proof (rule keys_ok_cong [OF I(4)])
    show "req_key ?s b = req_key (st m) b" for b using c(2) by (simp add: req_key_def)
    show "intr_key ?s b = intr_key (st m) b \<and> is_intr ?s b = is_intr (st m) b" for b using c(2) by (simp add: intr_key_def is_intr_def)
  qed
  moreover have "links_ok (rlinks ?s) xs ys (fresh m - {a} \<union> (own m - set xs))"
    using I(1) by (auto intro: links_fewer)
  ultimately show ?thesis by (simp add: machine_inv_def)
qed

lemma interrupt_dropped_inv:
  assumes inv: "machine_inv ni workers m xs ys" and a: "a \<in> fresh m"
  obtains s where "drop_interrupt a (st m) = Some s" "machine_inv ni workers (m\<lparr>st := s, fresh := fresh m - {a}\<rparr>) xs ys"
    "\<And>b. b \<noteq> a \<Longrightarrow> requests s b = requests (st m) b"
proof -
  note I = invD [OF inv]
  have nr: "a \<notin> own m" "a \<notin> set ys" "a \<notin> set xs" "a \<notin> fst ` set (pend m)" using roles_okD(1,2,3,5) [OF I(3)] a by auto
  have "lockers m a = 0" "visits m a = 0" "a \<in> holders m ys"
    using not_visited [OF I(3), of a] a by (auto simp: holders_def)
  then obtain s where s: "drop_interrupt a (st m) = Some s" "rlinks s = rlinks (st m)"
    "store_ok workers s (holders m ys - {a}) (visits m) (lockers m)" "\<And>b. b \<noteq> a \<Longrightarrow> requests s b = requests (st m) b"
    using drop_interrupt_ok [OF I(2), of a] by auto
  let ?m = "m\<lparr>st := s, fresh := fresh m - {a}\<rparr>"
  have "holders ?m ys = holders m ys - {a}" using nr by (auto simp: holders_def)
  moreover have "links_ok (rlinks s) xs ys (fresh m - {a} \<union> (own m - set xs))"
    using I(1) s(2) by (auto intro: links_fewer)
  moreover have "keys_ok s xs ys" by (rule keys_ok_subset [OF I(4) _ s(4)]) (use nr in auto)
  moreover have "roles_ok ni ?m xs ys" using I(3) by (auto simp: roles_ok_def)
  ultimately have "machine_inv ni workers ?m xs ys" using s(3) by (simp add: machine_inv_def)
  with s(1,4) that show thesis by blast
qed

lemma interrupt_queued_inv:
  assumes inv: "machine_inv ni workers m xs ys" and a: "a \<in> fresh m" "\<not> ni"
    and key: "is_intr (st m) a" "intr_key (st m) a \<notin> intr_key (st m) ` set ys" "\<forall>c\<in>set xs. req_key (st m) c \<noteq> intr_key (st m) a"
  shows "machine_inv ni workers (m\<lparr>st := (st m)\<lparr>rlinks := list_add_req a INTERRUPTS (rlinks (st m))\<rparr>, fresh := fresh m - {a}\<rparr>) xs (ys @ [a])"
proof -
  note I = invD [OF inv]
  let ?s = "(st m)\<lparr>rlinks := list_add_req a INTERRUPTS (rlinks (st m))\<rparr>"
  let ?m = "m\<lparr>st := ?s, fresh := fresh m - {a}\<rparr>"
  have nr: "a \<notin> own m" "a \<notin> set ys" "a \<notin> fst ` set (pend m)" using roles_okD(1,2,3) [OF I(3)] a by auto
  have "links_ok (rlinks ?s) xs (ys @ [a]) (fresh m - {a} \<union> (own m - set xs))"
    using links_fewer [OF links_add_interrupts [OF I(1), of a], of "fresh m - {a} \<union> (own m - set xs)"] a nr(1) by auto
  moreover have "holders ?m (ys @ [a]) = holders m ys" using a by (auto simp: holders_def)
  moreover have "store_ok workers ?s (holders m ys) (visits m) (lockers m)" using I(2) by (simp add: store_ok_def)
  moreover have "roles_ok ni ?m xs (ys @ [a])"
  proof -
    have "\<forall>b p. (b, a, p) \<notin> set (pend m)" using not_visited(1) [OF I(3), of a] a by (simp add: visits_0)
    then show ?thesis using I(3) nr a by (auto simp: roles_ok_def)
  qed
  moreover have "keys_ok ?s xs (ys @ [a])" using I(4) key by (simp add: keys_ok_def)
  ultimately show ?thesis by (simp add: machine_inv_def)
qed

text \<open>An interrupt finds its request, or one interrupt for it waits afterwards.\<close>

lemma interrupt_inv:
  assumes inv: "machine_inv ni workers m xs ys" and en: "orderly ni workers m (Interrupt a v)"
  shows "\<exists>m' xs' ys'. exec ni m (Interrupt a v) = Some m' \<and> machine_inv ni workers m' xs' ys' \<and>
    (case find (\<lambda>c. req_key (st m) c = v) xs of
       Some c \<Rightarrow> (a, c, Waiting) \<in> set (pend m') | None \<Rightarrow> \<exists>c\<in>set ys'. intr_key (st m') c = v) \<and>
    (\<forall>b\<in>set ys. b \<in> set ys' \<and> intr_key (st m') b = intr_key (st m) b)"
proof -
  have a: "a \<in> fresh m" "\<not> ni" using en by simp_all
  have nr: "a \<notin> set ys" "a \<notin> set xs" using roles_okD(1,2,5) [OF invD(3) [OF inv]] a by auto
  obtain r where r: "requests (st m) a = Some r" using listed_there [OF inv, of a] a by auto
  define s1 where "s1 = (st m)\<lparr>requests := (requests (st m))(a \<mapsto> r\<lparr>req_u := U_i v\<rparr>)\<rparr>"
  have w: "write_req a (r\<lparr>req_u := U_i v\<rparr>) (st m) = Some s1" using r by (simp add: write_req_def s1_def)
  have inv1: "machine_inv ni workers (m\<lparr>st := s1\<rparr>) xs ys" unfolding s1_def by (rule write_inv [OF inv r nr(1)]) simp_all
  note J = invD [OF inv1]
  have l1: "list_search (rlinks s1) LIST (has_unique v s1) (nxt (rlinks s1) LIST) = Some (find (\<lambda>c. req_key s1 c = v) xs)"
    using search_list [OF links_okD(1) [OF J(1)]] listed_there [OF inv1] by simp
  have l2: "list_search (rlinks s1) INTERRUPTS (interrupts_unique v s1) (nxt (rlinks s1) INTERRUPTS) =
      Some (find (\<lambda>b. intr_key s1 b = v) ys)"
    using search_interrupts [OF links_okD(2) [OF J(1)]] J(4) by (simp add: keys_ok_def)
  have key: "req_key s1 = req_key (st m)" "intr_key s1 a = v" "is_intr s1 a"
    using r by (auto simp: req_key_def intr_key_def is_intr_def s1_def fun_eq_iff)
  have kept: "intr_key s1 b = intr_key (st m) b" if "b \<in> set ys" for b using that nr(1) by (auto simp: intr_key_def s1_def)
  note ex = do_interrupt_def read_req_def find_interrupted_def
  show ?thesis
  proof (cases "find (\<lambda>c. req_key s1 c = v) xs")
    case (Some c)
    then have c: "c \<in> set xs" by (auto simp: find_Some_iff)
    obtain q where q: "requests s1 c = Some q" using listed_there [OF inv1, of c] c by auto
    let ?s = "s1\<lparr>requests := (requests s1)(c \<mapsto> q\<lparr>ref_cnt := ref_cnt q + 1\<rparr>)\<rparr>"
    let ?m = "m\<lparr>st := ?s, fresh := fresh m - {a}, pend := (a, c, Waiting) # pend m\<rparr>"
    have "write_req c (q\<lparr>ref_cnt := ref_cnt q + 1\<rparr>) s1 = Some ?s" using q by (simp add: write_req_def)
    then have "exec ni m (Interrupt a v) = Some ?m" using r w l1 Some q by (simp add: ex)
    moreover have "machine_inv ni workers ?m xs ys" using interrupt_found_inv [OF inv1 _ a(2) c, of a q] a(1) q by simp
    moreover have "(a, c, Waiting) \<in> set (pend ?m)" by simp
    moreover have "\<forall>b\<in>set ys. b \<in> set ys \<and> intr_key (st ?m) b = intr_key (st m) b"
    proof -
      have "intr_key (st ?m) b = intr_key s1 b" for b using q by (simp add: intr_key_def)
      then show ?thesis using kept by simp
    qed
    ultimately show ?thesis unfolding Some [unfolded key] option.case by blast
  next
    case none: None
    show ?thesis
    proof (cases "find (\<lambda>b. intr_key s1 b = v) ys")
      case (Some b)
      obtain s2 where s2: "drop_interrupt a s1 = Some s2" "machine_inv ni workers (m\<lparr>st := s2, fresh := fresh m - {a}\<rparr>) xs ys"
        "\<And>b. b \<noteq> a \<Longrightarrow> requests s2 b = requests s1 b"
        using interrupt_dropped_inv [OF inv1, of a] a(1) by auto
      have "exec ni m (Interrupt a v) = Some (m\<lparr>st := s2, fresh := fresh m - {a}\<rparr>)"
        using r w l1 l2 none Some s2(1) by (simp add: ex)
      moreover have b: "b \<in> set ys" "intr_key s1 b = v" using Some by (auto simp: find_Some_iff)
      then have "intr_key s2 b = v" using nr(1) keys_same(2) [OF s2(3), of b] by blast
      with b(1) have "\<exists>c\<in>set ys. intr_key (st (m\<lparr>st := s2, fresh := fresh m - {a}\<rparr>)) c = v" by auto
      moreover have "\<forall>b\<in>set ys. b \<in> set ys \<and> intr_key (st (m\<lparr>st := s2, fresh := fresh m - {a}\<rparr>)) b = intr_key (st m) b"
        using kept nr(1) keys_same(2) [OF s2(3)] by force
      ultimately show ?thesis using s2(2) unfolding none [unfolded key] option.case by blast
    next
      case None
      let ?s = "s1\<lparr>rlinks := list_add_req a INTERRUPTS (rlinks s1)\<rparr>"
      let ?m = "m\<lparr>st := ?s, fresh := fresh m - {a}\<rparr>"
      have "add_link a INTERRUPTS s1 = Some ?s" using add_link_ok [OF inv1, of a INTERRUPTS] a by simp
      then have "exec ni m (Interrupt a v) = Some ?m" using r w l1 l2 none None by (simp add: ex)
      moreover have "machine_inv ni workers ?m xs (ys @ [a])"
      proof -
        have "v \<notin> intr_key s1 ` set ys" "\<forall>c\<in>set xs. req_key s1 c \<noteq> v" using none None by (auto simp: find_None_iff)
        then show ?thesis using interrupt_queued_inv [OF inv1 _ a(2), of a] a(1) key(2,3) by simp
      qed
      moreover have "\<exists>c\<in>set (ys @ [a]). intr_key (st ?m) c = v" using key(2) by simp
      moreover have "\<forall>b\<in>set ys. b \<in> set (ys @ [a]) \<and> intr_key (st ?m) b = intr_key (st m) b" using kept by simp
      ultimately show ?thesis unfolding none [unfolded key] option.case by blast
    qed
  qed
qed

section \<open>Safety\<close>

lemma exec_inv:
  assumes "machine_inv ni workers m xs ys" and "orderly ni workers m act"
  shows "\<exists>m' xs' ys'. exec ni m act = Some m' \<and> machine_inv ni workers m' xs' ys'"
proof (cases act)
  case (Receive a v c)
  then show ?thesis using receive_inv [OF assms(1)] assms(2) by blast
next
  case (Reject a)
  then show ?thesis using reject_inv [OF assms(1)] assms(2) by blast
next
  case (Admit a)
  then show ?thesis using admit_inv [OF assms(1)] assms(2) by blast
next
  case (Interrupt a v)
  then show ?thesis using interrupt_inv [OF assms(1)] assms(2) by blast
next
  case (Mark b c)
  then show ?thesis using mark_inv [OF assms(1)] assms(2) by blast
next
  case (Unlock b c)
  then show ?thesis using unlock_inv [OF assms(1)] assms(2) by blast
next
  case (Finish b c)
  then show ?thesis using finish_inv [OF assms(1)] assms(2) by blast
next
  case (Reply a)
  then show ?thesis using reply_inv [OF assms(1)] assms(2) by blast
next
  case (SetFunc a f d)
  then show ?thesis using set_func_inv [OF assms(1)] assms(2) by blast
next
  case (EndSet a)
  then show ?thesis using end_set_inv [OF assms(1)] assms(2) by blast
qed

lemma reaches_inv: "reaches ni workers m \<Longrightarrow> \<exists>xs ys. machine_inv ni workers m xs ys"
proof (induction rule: reaches.induct)
  case start
  then show ?case using start_inv by blast
next
  case (step m act m')
  then obtain xs ys where "machine_inv ni workers m xs ys" by blast
  from exec_inv [OF this step.hyps(2)] step.hyps(3) show ?case by auto
qed

text \<open>
  Freeing a request inside \<^verbatim>\<open>fuse_req_interrupt_func\<close>, which holds its mutex and no reference:
  unless a thread with an interrupt has a reference, the mutex is destroyed while it is held.
\<close>

lemma callback_reply_outcome:
  assumes inv: "machine_inv ni workers m xs ys" and a: "a \<in> setting m"
  shows "fuse_free_req ni a (st m) = None \<longleftrightarrow> visits m a = 0"
proof -
  note I = invD [OF inv]
  have own: "a \<in> own m" using roles_okD(6) [OF I(3)] a by auto
  then obtain r where r: "requests (st m) a = Some r" using listed_there [OF inv, of a] by auto
  have H: "a \<in> holders m ys" using own by (simp add: holders_def)
  have "fuse_free_req ni a (st m) = None" if "visits m a = 0"
  proof -
    have "ref_cnt r = 1" "locked r"
      using store_okD(2) [OF I(2), of a] r a H that by (auto simp: req_ok_def lockers_def split: if_splits)
    then show ?thesis
      using r by (cases ni) (auto simp: fuse_free_req_def op_defs del_link_def fuse_chan_put_def bind_eq_None_conv split: option.splits)
  qed
  moreover have "fuse_free_req ni a (st m) \<noteq> None" if "visits m a \<noteq> 0"
  proof -
    have l: "ni \<or> linked_in (st m) a" using linked_in_inv [OF inv, of a] own by blast
    show ?thesis by (rule free_ok [OF I(2) H _ l]) (use that in auto)
  qed
  ultimately show ?thesis by blast
qed

text \<open>
  C1: Requests and interrupts under every interleaving of the threads of a session: receiving,
  refusing, admitting, replying (from any thread), interrupting, registering callbacks. In every
  state that they reach without a reply from inside \<^verbatim>\<open>fuse_req_interrupt_func\<close>, every channel keeps
  the references of its worker threads, and of all that a thread may do next exactly one thing goes
  wrong, i.e. touches freed memory, fails an assertion, destroys a mutex that is held or closes a
  channel too early: that a callback called by \<^verbatim>\<open>fuse_req_interrupt_func\<close> replies to its request
  while no thread with an interrupt for this request is at work. Nothing else goes wrong.
\<close>

theorem requests_never_wrong:
  assumes "reaches ni workers m" and "enabled ni workers m act"
  shows "(exec ni m act = None \<longleftrightarrow> (\<exists>a. act = Reply a \<and> a \<in> setting m \<and> (\<forall>b c p. (b, c, p) \<in> set (pend m) \<longrightarrow> c \<noteq> a))) \<and>
    (\<forall>k. int (workers k) \<le> chan_ctr (st m) k)"
proof -
  obtain xs ys where inv: "machine_inv ni workers m xs ys" using reaches_inv [OF assms(1)] by blast
  have "exec ni m act = None \<longleftrightarrow> (\<exists>a. act = Reply a \<and> a \<in> setting m \<and> (\<forall>b c p. (b, c, p) \<in> set (pend m) \<longrightarrow> c \<noteq> a))"
  proof (cases "callback_reply m act")
    case True
    then obtain a where a: "act = Reply a" "a \<in> setting m" by (auto simp: callback_reply_def)
    have "visits m a = 0 \<longleftrightarrow> (\<forall>b c p. (b, c, p) \<in> set (pend m) \<longrightarrow> c \<noteq> a)" by (auto simp: visits_0)
    then show ?thesis using a callback_reply_outcome [OF inv a(2)] by (auto simp: bind_eq_None_conv)
  next
    case False
    then have "orderly ni workers m act" using assms(2) by (simp add: orderly_def)
    from exec_inv [OF inv this] False show ?thesis by (auto simp: callback_reply_def)
  qed
  then show ?thesis using store_okD(4) [OF invD(2) [OF inv]] by auto
qed

text \<open>
  Interrupts wait only for requests that have not come yet: in every reachable state the two
  lists of the session are well formed, no request in progress is one that a waiting interrupt is
  for, and no two interrupts wait for the same request.
\<close>

theorem interrupts_wait_for_absent:
  assumes "reaches ni workers m"
  shows "\<exists>xs ys. is_list (rlinks (st m)) LIST xs \<and> is_list (rlinks (st m)) INTERRUPTS ys \<and> set xs \<subseteq> own m \<and>
    (\<forall>b\<in>set ys. is_intr (st m) b) \<and> distinct (map (intr_key (st m)) ys) \<and>
    (\<forall>a\<in>set xs. \<forall>b\<in>set ys. req_key (st m) a \<noteq> intr_key (st m) b)"
proof -
  obtain xs ys where inv: "machine_inv ni workers m xs ys" using reaches_inv [OF assms] by blast
  then show ?thesis
    using links_okD(1,2) [OF invD(1) [OF inv]] roles_okD(5) [OF invD(3) [OF inv]] invD(4) [OF inv] unfolding keys_ok_def by blast
qed

theorem interrupts_wait_for_absent_witness:
  "\<exists>xs ys. is_list (rlinks (st (start_machine (\<lambda>_. 1)))) LIST xs \<and> is_list (rlinks (st (start_machine (\<lambda>_. 1)))) INTERRUPTS ys"
  using interrupts_wait_for_absent [OF reaches.start, of "\<lambda>_. 1"] by blast

text \<open>
  C31: Nothing leaks. In every state reached by any interleaving of the actions of the threads in
  which no reply comes from inside \<^verbatim>\<open>fuse_req_interrupt_func\<close>: when every request has been replied
  to, no interrupt is being handled and none waits, no request is left in memory and every channel
  is used by its workers only.
\<close>

theorem quiet_no_leak:
  assumes "reaches ni workers m" and "fresh m = {}" "own m = {}" "pend m = []" and "nxt (rlinks (st m)) INTERRUPTS = INTERRUPTS"
  shows "requests (st m) = Map.empty \<and> chan_ctr (st m) = (\<lambda>k. int (workers k))"
proof -
  obtain xs ys where inv: "machine_inv ni workers m xs ys" using reaches_inv [OF assms(1)] by blast
  note I = invD [OF inv]
  have "ys = []" using nxt_head [OF links_okD(2) [OF I(1)]] links_okD(2) [OF I(1)] assms(5)
    by (cases ys) (auto simp: is_list_def)
  then have H: "holders m ys = {}" "visits m = (\<lambda>_. 0)" using assms by (auto simp: holders_def visits_def)
  have "requests (st m) a = None" for a
    using store_okD(2) [OF I(2), of a] H by (cases "requests (st m) a") (auto simp: req_ok_def)
  then have *: "requests (st m) = Map.empty" by auto
  moreover have "chan_ctr (st m) k = int (workers k)" for k
    using store_okD(4) [OF I(2), of k] by (simp add: chan_users_def *)
  ultimately show ?thesis by auto
qed

lemma check_marks:
  assumes inv: "machine_inv ni workers m xs ys" and a: "a \<in> fresh m" and b: "b \<in> set ys" "intr_key (st m) b = req_key (st m) a"
    and ni: "\<not> ni"
  shows "\<exists>m' r. exec ni m (Admit a) = Some m' \<and> requests (st m') a = Some r \<and> interrupted r"
proof -
  note I = invD [OF inv]
  obtain r where r: "requests (st m) a = Some r" using listed_there [OF inv, of a] a by auto
  have nr: "a \<notin> set ys" using roles_okD(2) [OF I(3)] a by auto
  have "find (\<lambda>b. intr_key (st m) b = unique r) ys \<noteq> None" using b r by (auto simp: find_None_iff req_key_def)
  then obtain c where f: "find (\<lambda>b. intr_key (st m) b = unique r) ys = Some c" by blast
  then have c: "c \<in> set ys" "c \<noteq> a" using nr by (auto simp: find_Some_iff)
  have srch: "list_search (rlinks (st m)) INTERRUPTS (interrupts_unique (unique r) (st m)) (nxt (rlinks (st m)) INTERRUPTS) = Some (Some c)"
    using search_interrupts [OF links_okD(2) [OF I(1)]] I(4) f by (simp add: keys_ok_def)
  let ?s1 = "(st m)\<lparr>requests := (requests (st m))(a \<mapsto> r\<lparr>interrupted := True\<rparr>)\<rparr>"
  have "machine_inv ni workers (m\<lparr>st := ?s1\<rparr>) xs ys" by (rule write_inv [OF inv r nr]) simp_all
  from take_interrupt_inv [OF this c(1)] obtain s1 s2 where s: "del_link c ?s1 = Some s1" "drop_interrupt c s1 = Some s2"
    "machine_inv ni workers (m\<lparr>st := s2\<rparr>) xs (remove1 c ys)" "\<And>b. b \<noteq> c \<Longrightarrow> requests s2 b = requests ?s1 b"
    "\<And>b. b \<in> set (remove1 c ys) \<Longrightarrow> intr_key s2 b \<noteq> intr_key ?s1 c"
    by auto
  have "check_interrupt a (st m) = Some (None, s2)"
    using r srch s(1,2) by (simp add: check_interrupt_def read_req_def write_req_def)
  moreover have "add_link a LIST s2 = Some (s2\<lparr>rlinks := list_add_req a LIST (rlinks s2)\<rparr>)"
    using add_link_ok [OF s(3), of a LIST] a by simp
  ultimately show ?thesis using ni s(4) [of a] c(2) by (simp add: admit_req_def)
qed

text \<open>The interrupt \<open>c\<close> waits for the request with the number \<open>v\<close>, as \<^verbatim>\<open>check_interrupt\<close> finds it.\<close>

definition waits :: "machine \<Rightarrow> nat \<Rightarrow> u64 \<Rightarrow> bool" where
  "waits m c v \<longleftrightarrow>
     list_search (rlinks (st m)) INTERRUPTS (interrupts_unique v (st m)) (nxt (rlinks (st m)) INTERRUPTS) = Some (Some c)"

lemma waits_iff:
  assumes "machine_inv ni workers m xs ys"
  shows "waits m c v \<longleftrightarrow> c \<in> set ys \<and> intr_key (st m) c = v"
proof -
  note I = invD [OF assms]
  have s: "list_search (rlinks (st m)) INTERRUPTS (interrupts_unique v (st m)) (nxt (rlinks (st m)) INTERRUPTS) =
      Some (find (\<lambda>b. intr_key (st m) b = v) ys)"
    using search_interrupts [OF links_okD(2) [OF I(1)]] I(4) by (simp add: keys_ok_def)
  have d: "distinct (map (intr_key (st m)) ys)" using I(4) by (simp add: keys_ok_def)
  have "find (\<lambda>b. intr_key (st m) b = v) ys = Some c \<longleftrightarrow> c \<in> set ys \<and> intr_key (st m) c = v"
  proof
    assume c: "c \<in> set ys \<and> intr_key (st m) c = v"
    then obtain b where b: "find (\<lambda>b. intr_key (st m) b = v) ys = Some b" by (cases "find (\<lambda>b. intr_key (st m) b = v) ys") (auto simp: find_None_iff)
    then have "b \<in> set ys" "intr_key (st m) b = v" by (auto simp: find_Some_iff)
    with c d b show "find (\<lambda>b. intr_key (st m) b = v) ys = Some c" by (auto simp: distinct_map inj_on_def)
  qed (auto simp: find_Some_iff)
  then show ?thesis by (simp add: waits_def s)
qed

text \<open>What an action does to the interrupts that wait.\<close>

lemma write_frame:
  assumes "b \<noteq> a"
  shows "write_req a r s = Some s' \<Longrightarrow> requests s' b = requests s b" and "destroy_req a s = Some s' \<Longrightarrow> requests s' b = requests s b"
  using assms by (auto simp: op_defs bind_eq_Some_conv split: if_splits option.splits)

lemma link_frame:
  "fuse_chan_put k s = Some s' \<Longrightarrow> requests s' = requests s" "fuse_chan_get c s = Some s' \<Longrightarrow> requests s' = requests s"
  "del_link a s = Some s' \<Longrightarrow> requests s' = requests s"
  by (auto simp: fuse_chan_put_def fuse_chan_get_def del_link_def split: if_splits option.splits)

lemma op_frame:
  assumes "b \<noteq> a"
  shows "receive_req a v k s = Some s' \<Longrightarrow> requests s' b = requests s b"
    and "fuse_free_req ni a s = Some s' \<Longrightarrow> requests s' b = requests s b"
    and "mark_interrupted a s = Some (g, s') \<Longrightarrow> requests s' b = requests s b"
    and "unlock_req a s = Some s' \<Longrightarrow> requests s' b = requests s b"
    and "release_interrupted a s = Some s' \<Longrightarrow> requests s' b = requests s b"
    and "drop_interrupt a s = Some s' \<Longrightarrow> requests s' b = requests s b"
    and "fuse_req_interrupt_func a f d s = Some (g, s') \<Longrightarrow> requests s' b = requests s b"
proof -
  note simps = bind_eq_Some_conv write_frame [OF assms] link_frame
  show "receive_req a v k s = Some s' \<Longrightarrow> requests s' b = requests s b"
    using assms by (auto simp: receive_req_def fuse_ll_alloc_req_def Let_def simps split: option.splits)
  show "fuse_free_req ni a s = Some s' \<Longrightarrow> requests s' b = requests s b"
    by (auto simp: fuse_free_req_def simps split: if_splits)
  show "mark_interrupted a s = Some (g, s') \<Longrightarrow> requests s' b = requests s b" by (auto simp: mark_interrupted_def simps)
  show "unlock_req a s = Some s' \<Longrightarrow> requests s' b = requests s b" by (auto simp: unlock_req_def simps split: if_splits)
  show "release_interrupted a s = Some s' \<Longrightarrow> requests s' b = requests s b"
    by (auto simp: release_interrupted_def simps split: if_splits)
  show "drop_interrupt a s = Some s' \<Longrightarrow> requests s' b = requests s b" by (auto simp: drop_interrupt_def simps)
  show "fuse_req_interrupt_func a f d s = Some (g, s') \<Longrightarrow> requests s' b = requests s b"
    by (auto simp: fuse_req_interrupt_func_def simps)
qed

fun touched :: "action \<Rightarrow> nat set" where
  "touched (Receive a v k) = {a}"
| "touched (Reject a) = {a}"
| "touched (Reply a) = {a}"
| "touched (SetFunc a f d) = {a}"
| "touched (EndSet a) = {a}"
| "touched (Mark b c) = {c}"
| "touched (Unlock b c) = {c}"
| "touched (Finish b c) = {b, c}"
| "touched (Admit a) = UNIV"
| "touched (Interrupt a v) = UNIV"

lemma exec_frame: "exec ni m act = Some m' \<Longrightarrow> b \<notin> touched act \<Longrightarrow> requests (st m') b = requests (st m) b"
  by (cases act) (auto simp: bind_eq_Some_conv do_interrupt_end_def op_frame)

lemma same_waits:
  assumes "machine_inv ni workers m xs ys" and "machine_inv ni workers m' xs' ys'" and "waits m c v"
    and "c \<in> set ys \<Longrightarrow> c \<in> set ys' \<and> intr_key (st m') c = intr_key (st m) c"
  shows "waits m' c v"
  using assms by (simp add: waits_iff)

lemma admit_waits:
  assumes inv: "machine_inv ni workers m xs ys" and a: "a \<in> fresh m" and ni: "\<not> ni" and w: "waits m c v"
    and ex: "exec ni m (Admit a) = Some m'"
  shows "waits m' c v \<or> (if req_key (st m) a = v then \<exists>r. requests (st m') a = Some r \<and> interrupted r else c \<in> own m')"
proof (cases "req_key (st m) a = v")
  case True
  then show ?thesis using check_marks [OF inv a _ _ ni, of c] w ex by (auto simp: waits_iff [OF inv])
next
  case False
  have c: "c \<in> set ys" "intr_key (st m) c = v" using w by (simp_all add: waits_iff [OF inv])
  from check_interrupt_inv [OF inv a] obtain i s ys' where k: "check_interrupt a (st m) = Some (i, s)"
    "machine_inv ni workers (m\<lparr>st := s, own := own m \<union> set_option i\<rparr>) xs ys'"
    "\<And>b. b \<in> set ys' \<Longrightarrow> intr_key s b \<noteq> req_key s a" "a \<notin> set_option i"
    "\<And>b. b \<in> set ys \<Longrightarrow> intr_key (st m) b = req_key (st m) a \<or> i = Some b \<or> b \<in> set ys' \<and> intr_key s b = intr_key (st m) b"
    by metis
  let ?s = "s\<lparr>rlinks := list_add_req a LIST (rlinks s)\<rparr>"
  have "add_link a LIST s = Some ?s" using add_link_ok [OF k(2), of a LIST] a by simp
  then have m': "m' = m\<lparr>st := ?s, fresh := fresh m - {a}, own := insert a (own m \<union> set_option i)\<rparr>"
    using k(1) ni ex by (simp add: admit_req_def insert_commute)
  then have "machine_inv ni workers m' (xs @ [a]) ys'" using add_list_inv [OF k(2) _ ni, of a] k(3) a by simp
  then show ?thesis using k(5) [OF c(1)] False c m' by (auto simp: waits_iff)
qed

lemma exec_waits:
  assumes inv: "machine_inv ni workers m xs ys" and en: "orderly ni workers m act" and ni: "\<not> ni" and w: "waits m c v"
    and ex: "exec ni m act = Some m'"
  shows "waits m' c v \<or>
    (\<exists>a. act = Admit a \<and> (if req_key (st m) a = v then \<exists>r. requests (st m') a = Some r \<and> interrupted r else c \<in> own m'))"
proof -
  have c: "c \<in> set ys" using w by (simp add: waits_iff [OF inv])
  have nc: "c \<notin> fresh m" "c \<notin> own m" "c \<notin> setting m" "(b, c, p) \<notin> set (pend m)" "(c, b, p) \<notin> set (pend m)" "requests (st m) c \<noteq> None" for b p
    using roles_okD(2,3,6) [OF invD(3) [OF inv]] roles_okD(7) [OF invD(3) [OF inv], of b c p] c listed_there [OF inv, of c] by force+
  have same: "waits m' c v" if "exec ni m act = Some m1" "machine_inv ni workers m1 xs' ys" "c \<notin> touched act" for m1 xs'
    using same_waits [OF inv _ w, of m' xs' ys] keys_same(2) [OF exec_frame [OF ex that(3)]] that(1,2) ex by simp
  show ?thesis
  proof (cases act)
    case (Receive a u k)
    with receive_inv [OF inv, of a u k] en same nc(6) show ?thesis by fastforce
  next
    case (Reject a)
    with reject_inv [OF inv, of a] en same nc(1) show ?thesis by fastforce
  next
    case (Admit a)
    with admit_waits [OF inv _ ni w] en ex show ?thesis by auto
  next
    case (Interrupt a u)
    with interrupt_inv [OF inv, of a u] en ex same_waits [OF inv _ w] show ?thesis by fastforce
  next
    case (Mark x a)
    with mark_inv [OF inv, of x a] en same nc(4) [of x] show ?thesis by fastforce
  next
    case (Unlock x a)
    with unlock_inv [OF inv, of x a] en same nc(4) [of x] show ?thesis by fastforce
  next
    case (Finish x a)
    with finish_inv [OF inv, of x a] en same nc(4) [of x] nc(5) [of a] show ?thesis by fastforce
  next
    case (Reply a)
    with reply_inv [OF inv, of a] en same nc(2) show ?thesis by fastforce
  next
    case (SetFunc a f d)
    with set_func_inv [OF inv, of a f d] en same nc(2) show ?thesis by fastforce
  next
    case (EndSet a)
    with end_set_inv [OF inv, of a] en same nc(3) show ?thesis by fastforce
  qed
qed

text \<open>
  C30: What becomes of an interrupt, whichever comes first, it or its request, in every state
  reached without a reply from inside \<^verbatim>\<open>fuse_req_interrupt_func\<close>. If the request that the interrupt
  is for is in progress, the thread with the interrupt will mark it as soon as it gets the request's
  mutex. If it is not, an interrupt for this request waits; it goes on waiting until some request is
  admitted. When its own request is admitted while it waits, the request is marked as interrupted;
  when another request is admitted, the interrupt either goes on waiting or is the one that is taken
  from the list, and then it is a request of its own that the thread has to reply to (the code replies
  \<^verbatim>\<open>EAGAIN\<close>, which makes the kernel send it again).
\<close>

theorem interrupt_not_lost:
  assumes "reaches ni workers m" and "\<not> ni"
  shows "(\<forall>b v. b \<in> fresh m \<longrightarrow> (\<exists>m1. exec ni m (Interrupt b v) = Some m1 \<and>
      (case list_search (rlinks (st m)) LIST (has_unique v (st m)) (nxt (rlinks (st m)) LIST) of
         Some (Some c) \<Rightarrow> (b, c, Waiting) \<in> set (pend m1) \<and>
           (lock_free c (st m1) \<longrightarrow> (\<exists>m2 r. exec ni m1 (Mark b c) = Some m2 \<and> requests (st m2) c = Some r \<and> interrupted r))
       | Some None \<Rightarrow> \<exists>c. waits m1 c v
       | None \<Rightarrow> False))) \<and>
    (\<forall>c v act m'. waits m c v \<and> orderly ni workers m act \<and> exec ni m act = Some m' \<longrightarrow> waits m' c v \<or>
      (\<exists>a. act = Admit a \<and> (if req_key (st m) a = v then \<exists>r. requests (st m') a = Some r \<and> interrupted r else c \<in> own m')))"
proof -
  obtain xs ys where inv: "machine_inv ni workers m xs ys" using reaches_inv [OF assms(1)] by blast
  note I = invD [OF inv]
  have srch: "list_search (rlinks (st m)) LIST (has_unique v (st m)) (nxt (rlinks (st m)) LIST) =
      Some (find (\<lambda>c. req_key (st m) c = v) xs)" for v
    using search_list [OF links_okD(1) [OF I(1)]] listed_there [OF inv] by simp
  have "\<exists>m1. exec ni m (Interrupt b v) = Some m1 \<and>
      (case Some (find (\<lambda>c. req_key (st m) c = v) xs) of
         Some (Some c) \<Rightarrow> (b, c, Waiting) \<in> set (pend m1) \<and>
           (lock_free c (st m1) \<longrightarrow> (\<exists>m2 r. exec ni m1 (Mark b c) = Some m2 \<and> requests (st m2) c = Some r \<and> interrupted r))
       | Some None \<Rightarrow> \<exists>c. waits m1 c v
       | None \<Rightarrow> False)" if b: "b \<in> fresh m" for b v
  proof -
    have "orderly ni workers m (Interrupt b v)" using assms(2) b by simp
    from interrupt_inv [OF inv this] obtain m1 xs1 ys1 where m1: "exec ni m (Interrupt b v) = Some m1" "machine_inv ni workers m1 xs1 ys1"
      and eff: "case find (\<lambda>c. req_key (st m) c = v) xs of
        Some c \<Rightarrow> (b, c, Waiting) \<in> set (pend m1) | None \<Rightarrow> \<exists>c\<in>set ys1. intr_key (st m1) c = v" by blast
    have "\<exists>m2 r. exec ni m1 (Mark b c) = Some m2 \<and> requests (st m2) c = Some r \<and> interrupted r"
      if p: "(b, c, Waiting) \<in> set (pend m1)" for c
    proof -
      obtain r where "requests (st m1) c = Some r" using visited_there [OF m1(2) p] by metis
      then show ?thesis by (simp add: mark_interrupted_def read_req_def write_req_def)
    qed
    with m1 eff show ?thesis by (auto simp: waits_iff [OF m1(2)] split: option.splits)
  qed
  moreover note exec_waits [OF inv _ assms(2)]
  ultimately show ?thesis unfolding srch by blast
qed

section \<open>Examples\<close>

lemma next_state:
  assumes "reaches ni workers m" and "orderly ni workers m act"
  obtains m' where "exec ni m act = Some m'" "reaches ni workers m'"
  using reaches_inv [OF assms(1)] exec_inv [OF _ assms(2)] reaches.step [OF assms] by blast

text \<open>Sequences of actions.\<close>

fun machine_run :: "(nat \<Rightarrow> nat) \<Rightarrow> action list \<Rightarrow> machine \<Rightarrow> machine option" where
  "machine_run workers [] m = Some m"
| "machine_run workers (act # acts) m = do {m' \<leftarrow> exec False m act; if orderly False workers m act then machine_run workers acts m' else None}"

lemma machine_run_reaches: "machine_run workers acts m = Some m' \<Longrightarrow> reaches False workers m \<Longrightarrow> reaches False workers m'"
  by (induction acts arbitrary: m) (auto simp: bind_eq_Some_conv split: if_splits intro: reaches.step)

lemma lock_free_simps: "lock_free a s = (\<forall>r. requests s a = Some r \<longrightarrow> \<not> locked r)"
  by (simp add: lock_free_def split: option.splits)

lemmas run_simps = start_machine_def receive_req_def fuse_ll_alloc_req_def fuse_chan_get_def fuse_chan_put_def op_defs list_init_req_def
  list_add_req_def list_del_req_def admit_req_def check_interrupt_def LIST_def INTERRUPTS_def add_link_def del_link_def present_def
  fuse_req_interrupt_func_def do_interrupt_def find_interrupted_def fuse_free_req_def lock_free_simps Let_def has_unique_def interrupts_unique_def
  drop_interrupt_def

text \<open>A request that comes over the channel 0 and is admitted; inside \<^verbatim>\<open>fuse_req_interrupt_func\<close>; replied to.\<close>

lemma setting_run:
  "\<exists>m. machine_run (\<lambda>_. 1) [Receive 2 7 (Some 0), Admit 2, SetFunc 2 (Some 5) 0] (start_machine (\<lambda>_. 1)) = Some m \<and>
    own m = {2} \<and> setting m = {2} \<and> pend m = []"
  by (simp add: run_simps list_search.simps)

lemma replied_run:
  "\<exists>m. machine_run (\<lambda>_. 1) [Receive 2 7 (Some 0), Admit 2, Reply 2] (start_machine (\<lambda>_. 1)) = Some m \<and>
    fresh m = {} \<and> own m = {} \<and> pend m = [] \<and> nxt (rlinks (st m)) INTERRUPTS = INTERRUPTS"
  by (simp add: run_simps list_search.simps)

text \<open>A request and an interrupt for it that is handled first.\<close>

lemma interrupt_run:
  "\<exists>m m1 m2. machine_run (\<lambda>_. 1) [Receive 2 7 (Some 0), Receive 3 8 (Some 0)] (start_machine (\<lambda>_. 1)) = Some m \<and>
    fresh m = {3, 2} \<and> exec False m (Interrupt 3 7) = Some m1 \<and> fresh m1 = {2} \<and> waits m1 3 7 \<and> req_key (st m1) 2 = 7 \<and>
    exec False m1 (Admit 2) = Some m2 \<and> \<not> waits m2 3 7"
  by (simp add: run_simps list_search.simps waits_def req_key_def)

theorem requests_never_wrong_witness:
  "\<exists>m. reaches False (\<lambda>_. 1) m \<and> setting m = {2} \<and> exec False m (EndSet 2) \<noteq> None \<and> exec False m (Reply 2) = None \<and> 1 \<le> chan_ctr (st m) 0"
proof -
  obtain m where run: "machine_run (\<lambda>_. 1) [Receive 2 7 (Some 0), Admit 2, SetFunc 2 (Some 5) 0] (start_machine (\<lambda>_. 1)) = Some m"
    and m: "own m = {2}" "setting m = {2}" "pend m = []" using setting_run by blast
  have r: "reaches False (\<lambda>_. 1) m" by (rule machine_run_reaches [OF run reaches.start])
  have "enabled False (\<lambda>_. 1) m (EndSet 2)" "enabled False (\<lambda>_. 1) m (Reply 2)" using m by simp_all
  from this [THEN requests_never_wrong [OF r]] have "exec False m (EndSet 2) \<noteq> None" "exec False m (Reply 2) = None" "1 \<le> chan_ctr (st m) 0"
    using m(2,3) by (auto simp del: exec.simps)
  with r m(2) show ?thesis by blast
qed

theorem quiet_no_leak_witness:
  "\<exists>m. machine_run (\<lambda>_. 1) [Receive 2 7 (Some 0), Admit 2, Reply 2] (start_machine (\<lambda>_. 1)) = Some m \<and>
    requests (st m) = Map.empty \<and> chan_ctr (st m) = (\<lambda>k. 1)"
proof -
  obtain m where run: "machine_run (\<lambda>_. 1) [Receive 2 7 (Some 0), Admit 2, Reply 2] (start_machine (\<lambda>_. 1)) = Some m"
    and m: "fresh m = {}" "own m = {}" "pend m = []" "nxt (rlinks (st m)) INTERRUPTS = INTERRUPTS" using replied_run by blast
  from quiet_no_leak [OF machine_run_reaches [OF run reaches.start] m] run show ?thesis by auto
qed

theorem interrupt_not_lost_witness:
  "\<exists>m m1 m2 r. reaches False (\<lambda>_. 1) m \<and> exec False m (Interrupt 3 7) = Some m1 \<and> waits m1 3 7 \<and>
    exec False m1 (Admit 2) = Some m2 \<and> requests (st m2) 2 = Some r \<and> interrupted r"
proof -
  obtain m m1 m2 where run: "machine_run (\<lambda>_. 1) [Receive 2 7 (Some 0), Receive 3 8 (Some 0)] (start_machine (\<lambda>_. 1)) = Some m"
    and m: "fresh m = {3, 2}" "exec False m (Interrupt 3 7) = Some m1" "fresh m1 = {2}" "waits m1 3 7" "req_key (st m1) 2 = 7"
      "exec False m1 (Admit 2) = Some m2" "\<not> waits m2 3 7" using interrupt_run by blast
  have r: "reaches False (\<lambda>_. 1) m" by (rule machine_run_reaches [OF run reaches.start])
  have "orderly False (\<lambda>_. 1) m (Interrupt 3 7)" using m(1) by simp
  then have r1: "reaches False (\<lambda>_. 1) m1" using reaches.step [OF r] m(2) by blast
  have "orderly False (\<lambda>_. 1) m1 (Admit 2)" using m(3) by simp
  with conjunct2 [OF interrupt_not_lost [OF r1]] m(4,6) have
    "waits m2 3 7 \<or> (\<exists>a. Admit 2 = Admit a \<and> (if req_key (st m1) a = 7 then \<exists>r. requests (st m2) a = Some r \<and> interrupted r else 3 \<in> own m2))"
    by blast
  with m(5,7) have "\<exists>r. requests (st m2) 2 = Some r \<and> interrupted r" by simp
  with r m(2,4,6) show ?thesis by blast
qed

end
