(* ===== verification/Opcodes.thy ===== *)
theory Opcodes
  imports Main
begin

text \<open>
  The numbers of the kernel's operations (\<^verbatim>\<open>include/fuse_kernel.h\<close>) and the table of those that have
  a handler (\<^verbatim>\<open>fuse_ll_ops\<close> of \<^verbatim>\<open>lib/fuse_lowlevel.c\<close>).
\<close>

section \<open>Operations\<close>

named_theorems opcodes \<open>numbers of the operations\<close>

definition OP_LOOKUP :: nat where [opcodes]: "OP_LOOKUP = 1"
definition OP_FORGET :: nat where [opcodes]: "OP_FORGET = 2"
definition OP_GETATTR :: nat where [opcodes]: "OP_GETATTR = 3"
definition OP_SETATTR :: nat where [opcodes]: "OP_SETATTR = 4"
definition OP_READLINK :: nat where [opcodes]: "OP_READLINK = 5"
definition OP_SYMLINK :: nat where [opcodes]: "OP_SYMLINK = 6"
definition OP_MKNOD :: nat where [opcodes]: "OP_MKNOD = 8"
definition OP_MKDIR :: nat where [opcodes]: "OP_MKDIR = 9"
definition OP_UNLINK :: nat where [opcodes]: "OP_UNLINK = 10"
definition OP_RMDIR :: nat where [opcodes]: "OP_RMDIR = 11"
definition OP_RENAME :: nat where [opcodes]: "OP_RENAME = 12"
definition OP_LINK :: nat where [opcodes]: "OP_LINK = 13"
definition OP_OPEN :: nat where [opcodes]: "OP_OPEN = 14"
definition OP_READ :: nat where [opcodes]: "OP_READ = 15"
definition OP_WRITE :: nat where [opcodes]: "OP_WRITE = 16"
definition OP_STATFS :: nat where [opcodes]: "OP_STATFS = 17"
definition OP_RELEASE :: nat where [opcodes]: "OP_RELEASE = 18"
definition OP_FSYNC :: nat where [opcodes]: "OP_FSYNC = 20"
definition OP_SETXATTR :: nat where [opcodes]: "OP_SETXATTR = 21"
definition OP_GETXATTR :: nat where [opcodes]: "OP_GETXATTR = 22"
definition OP_LISTXATTR :: nat where [opcodes]: "OP_LISTXATTR = 23"
definition OP_REMOVEXATTR :: nat where [opcodes]: "OP_REMOVEXATTR = 24"
definition OP_FLUSH :: nat where [opcodes]: "OP_FLUSH = 25"
definition OP_INIT :: nat where [opcodes]: "OP_INIT = 26"
definition OP_OPENDIR :: nat where [opcodes]: "OP_OPENDIR = 27"
definition OP_READDIR :: nat where [opcodes]: "OP_READDIR = 28"
definition OP_RELEASEDIR :: nat where [opcodes]: "OP_RELEASEDIR = 29"
definition OP_FSYNCDIR :: nat where [opcodes]: "OP_FSYNCDIR = 30"
definition OP_GETLK :: nat where [opcodes]: "OP_GETLK = 31"
definition OP_SETLK :: nat where [opcodes]: "OP_SETLK = 32"
definition OP_SETLKW :: nat where [opcodes]: "OP_SETLKW = 33"
definition OP_ACCESS :: nat where [opcodes]: "OP_ACCESS = 34"
definition OP_CREATE :: nat where [opcodes]: "OP_CREATE = 35"
definition OP_TMPFILE :: nat where [opcodes]: "OP_TMPFILE = 51"
definition OP_INTERRUPT :: nat where [opcodes]: "OP_INTERRUPT = 36"
definition OP_BMAP :: nat where [opcodes]: "OP_BMAP = 37"
definition OP_IOCTL :: nat where [opcodes]: "OP_IOCTL = 39"
definition OP_POLL :: nat where [opcodes]: "OP_POLL = 40"
definition OP_FALLOCATE :: nat where [opcodes]: "OP_FALLOCATE = 43"
definition OP_DESTROY :: nat where [opcodes]: "OP_DESTROY = 38"
definition OP_NOTIFY_REPLY :: nat where [opcodes]: "OP_NOTIFY_REPLY = 41"
definition OP_BATCH_FORGET :: nat where [opcodes]: "OP_BATCH_FORGET = 42"
definition OP_READDIRPLUS :: nat where [opcodes]: "OP_READDIRPLUS = 44"
definition OP_RENAME2 :: nat where [opcodes]: "OP_RENAME2 = 45"
definition OP_COPY_FILE_RANGE :: nat where [opcodes]: "OP_COPY_FILE_RANGE = 47"
definition OP_LSEEK :: nat where [opcodes]: "OP_LSEEK = 46"
definition OP_CUSE_INIT :: nat where [opcodes]: "OP_CUSE_INIT = 4096"

text \<open>The operations that have a handler, with their names.\<close>

definition fuse_ll_ops :: "(nat \<times> string) list" where
  "fuse_ll_ops =
    [(OP_LOOKUP, ''LOOKUP''),
     (OP_FORGET, ''FORGET''),
     (OP_GETATTR, ''GETATTR''),
     (OP_SETATTR, ''SETATTR''),
     (OP_READLINK, ''READLINK''),
     (OP_SYMLINK, ''SYMLINK''),
     (OP_MKNOD, ''MKNOD''),
     (OP_MKDIR, ''MKDIR''),
     (OP_UNLINK, ''UNLINK''),
     (OP_RMDIR, ''RMDIR''),
     (OP_RENAME, ''RENAME''),
     (OP_LINK, ''LINK''),
     (OP_OPEN, ''OPEN''),
     (OP_READ, ''READ''),
     (OP_WRITE, ''WRITE''),
     (OP_STATFS, ''STATFS''),
     (OP_RELEASE, ''RELEASE''),
     (OP_FSYNC, ''FSYNC''),
     (OP_SETXATTR, ''SETXATTR''),
     (OP_GETXATTR, ''GETXATTR''),
     (OP_LISTXATTR, ''LISTXATTR''),
     (OP_REMOVEXATTR, ''REMOVEXATTR''),
     (OP_FLUSH, ''FLUSH''),
     (OP_INIT, ''INIT''),
     (OP_OPENDIR, ''OPENDIR''),
     (OP_READDIR, ''READDIR''),
     (OP_RELEASEDIR, ''RELEASEDIR''),
     (OP_FSYNCDIR, ''FSYNCDIR''),
     (OP_GETLK, ''GETLK''),
     (OP_SETLK, ''SETLK''),
     (OP_SETLKW, ''SETLKW''),
     (OP_ACCESS, ''ACCESS''),
     (OP_CREATE, ''CREATE''),
     (OP_TMPFILE, ''TMPFILE''),
     (OP_INTERRUPT, ''INTERRUPT''),
     (OP_BMAP, ''BMAP''),
     (OP_IOCTL, ''IOCTL''),
     (OP_POLL, ''POLL''),
     (OP_FALLOCATE, ''FALLOCATE''),
     (OP_DESTROY, ''DESTROY''),
     (OP_NOTIFY_REPLY, ''NOTIFY_REPLY''),
     (OP_BATCH_FORGET, ''BATCH_FORGET''),
     (OP_READDIRPLUS, ''READDIRPLUS''),
     (OP_RENAME2, ''RENAME2''),
     (OP_COPY_FILE_RANGE, ''COPY_FILE_RANGE''),
     (OP_LSEEK, ''LSEEK''),
     (OP_CUSE_INIT, ''CUSE_INIT'')]"

definition FUSE_MAXOP :: nat where "FUSE_MAXOP = OP_CUSE_INIT + 1"

definition has_handler :: "nat \<Rightarrow> bool" where
  "has_handler opcode \<longleftrightarrow> opcode < FUSE_MAXOP \<and> map_of fuse_ll_ops opcode \<noteq> None"

definition opname :: "nat \<Rightarrow> string" where
  "opname opcode = (case map_of fuse_ll_ops opcode of Some n \<Rightarrow> if opcode < FUSE_MAXOP then n else ''???'' | None \<Rightarrow> ''???'')"

end
