(* ===== verification/Dispatch.thy ===== *)
theory Dispatch
  imports ReqMachine Opcodes
begin

text \<open>
  How a message of the kernel becomes a request and reaches its handler
  (\<^verbatim>\<open>fuse_session_process_buf_internal\<close> of \<^verbatim>\<open>lib/fuse_lowlevel.c\<close>): the checks, the reading of a message that is still in a pipe. Whether memory is available and how
  the reading ends are parameters. The function is a path of the machine of threads.
\<close>

section \<open>The checks\<close>

record sess =
  got_init :: bool
  is_cuse :: bool
  deny_others :: bool
  owner :: u32
  no_interrupt :: bool
  has_write_buf :: bool

record in_header =
  opcode :: nat
  in_unique :: u64
  uid :: u32

text \<open>A message in memory, or one of which only the header has been read from a pipe.\<close>

record message =
  in_pipe :: bool
  msize :: nat

datatype errno = EIO | EACCES | ENOSYS | ENOMEM | ERR int

definition owner_exempt :: "nat list" where
  "owner_exempt = [OP_INIT, OP_READ, OP_WRITE, OP_FSYNC, OP_RELEASE, OP_READDIR, OP_FSYNCDIR, OP_RELEASEDIR, OP_NOTIFY_REPLY, OP_READDIRPLUS]"

definition check_request :: "sess \<Rightarrow> in_header \<Rightarrow> errno option" where
  "check_request se h =
     (if \<not> got_init se \<and> opcode h \<noteq> (if is_cuse se then OP_CUSE_INIT else OP_INIT) then Some EIO
      else if got_init se \<and> (opcode h = OP_INIT \<or> opcode h = OP_CUSE_INIT) then Some EIO
      else if deny_others se \<and> uid h \<noteq> owner se \<and> uid h \<noteq> 0 \<and> opcode h \<notin> set owner_exempt then Some EACCES
      else if \<not> has_handler (opcode h) then Some ENOSYS
      else if no_interrupt se \<and> opcode h = OP_INTERRUPT then Some ENOSYS
      else None)"

section \<open>Processing\<close>

definition write_header_size :: nat where
  "write_header_size = 40 + 40"

text \<open>What the environment does: allocations succeed, reads from the pipe return 0 or an error.\<close>

record env =
  header_mem :: bool
  header_read :: int
  req_mem :: bool
  body_mem :: bool
  body_read :: int

datatype route = To_write_buf | To_notify_reply | To_handler string

text \<open>What becomes of a message, and whether the pipe is cleared.\<close>

datatype outcome =
    Message_lost bool
  | Refused_early errno bool
  | Refused errno bool
  | Dispatched route

definition route_of :: "sess \<Rightarrow> in_header \<Rightarrow> route" where
  "route_of se h =
     (if opcode h = OP_WRITE \<and> has_write_buf se then To_write_buf
      else if opcode h = OP_NOTIFY_REPLY then To_notify_reply
      else To_handler (opname (opcode h)))"

text \<open>The rest of a message in a pipe is read for the handlers that want it in memory.\<close>

definition read_body :: "sess \<Rightarrow> env \<Rightarrow> message \<Rightarrow> in_header \<Rightarrow> errno option" where
  "read_body se e b h =
     (if in_pipe b \<and> write_header_size < msize b \<and> (opcode h \<noteq> OP_WRITE \<or> \<not> has_write_buf se) \<and> opcode h \<noteq> OP_NOTIFY_REPLY then
        (if \<not> body_mem e then Some ENOMEM else if body_read e < 0 then Some (ERR (- body_read e)) else None)
      else None)"

text \<open>\<^verbatim>\<open>fuse_reply_err\<close> as far as the request is concerned: it is freed.\<close>

definition refuse :: "bool \<Rightarrow> nat \<Rightarrow> errno \<Rightarrow> bool \<Rightarrow> req_state \<Rightarrow> (outcome \<times> req_state) option" where
  "refuse ni a err pipe s = do {s1 \<leftarrow> fuse_free_req ni a s; Some (Refused err pipe, s1)}"

text \<open>Admission, and the old interrupt that is sent back.\<close>

definition admit_and_return :: "bool \<Rightarrow> nat \<Rightarrow> nat \<Rightarrow> req_state \<Rightarrow> req_state option" where
  "admit_and_return ni op a s =
     (if \<not> ni \<and> op \<noteq> OP_INTERRUPT then do {
        (intr, s3) \<leftarrow> admit_req False a s;
        case intr of None \<Rightarrow> Some s3 | Some i \<Rightarrow> fuse_free_req False i s3
      } else Some s)"

definition fuse_session_process_buf_internal ::
  "sess \<Rightarrow> env \<Rightarrow> nat \<Rightarrow> nat option \<Rightarrow> message \<Rightarrow> in_header \<Rightarrow> req_state \<Rightarrow> (outcome \<times> req_state) option" where
  "fuse_session_process_buf_internal se e a c b h s =
     (if in_pipe b \<and> (\<not> header_mem e \<or> header_read e < 0) then Some (Message_lost True, s)
      else if \<not> req_mem e then Some (Refused_early ENOMEM (in_pipe b), s)
      else do {
        s1 \<leftarrow> receive_req a (in_unique h) c s;
        case check_request se h of
          Some err \<Rightarrow> refuse (no_interrupt se) a err (in_pipe b) s1
        | None \<Rightarrow> do {
            s2 \<leftarrow> admit_and_return (no_interrupt se) (opcode h) a s1;
            case read_body se e b h of
              Some err \<Rightarrow> refuse (no_interrupt se) a err (in_pipe b) s2
            | None \<Rightarrow> Some (Dispatched (route_of se h), s2)
          }
      })"

section \<open>A path of the machine\<close>

lemma returned_not_owned:
  assumes "machine_inv ni workers m xs ys" and "check_interrupt a (st m) = Some (Some i, s)"
  shows "i \<notin> own m" and "i \<notin> fresh m"
proof -
  note I = invD [OF assms(1)]
  have "i = nxt (rlinks (st m)) INTERRUPTS" "i \<noteq> INTERRUPTS"
    using assms(2) by (auto simp: check_interrupt_def Let_def bind_eq_Some_conv split: option.splits if_splits)
  then have "i \<in> set ys" using nxt_head [OF links_okD(2) [OF I(1)]] by (cases ys) auto
  then show "i \<notin> own m" "i \<notin> fresh m" using roles_okD(2) [OF I(3)] by auto
qed

lemma refuse_path:
  assumes r: "reaches ni workers m" and a: "a \<in> fresh m \<or> a \<in> own m" "a \<notin> setting m"
  obtains m' where "refuse ni a err p (st m) = Some (Refused err p, st m')" "reaches ni workers m'"
    "fresh m' = fresh m - {a}" "own m' = own m - {a}"
proof -
  obtain xs ys where inv: "machine_inv ni workers m xs ys" using reaches_inv [OF r] by blast
  have disj: "fresh m \<inter> own m = {}" by (rule roles_okD(1) [OF invD(3) [OF inv]])
  define act where "act = (if a \<in> fresh m then Reject a else Reply a)"
  have "orderly ni workers m act" using a by (auto simp: act_def)
  from next_state [OF r this] obtain m' where m': "exec ni m act = Some m'" "reaches ni workers m'" by blast
  then have "refuse ni a err p (st m) = Some (Refused err p, st m')" "fresh m' = fresh m - {a}" "own m' = own m - {a}"
    using disj by (auto simp: act_def refuse_def bind_eq_Some_conv split: if_splits)
  with m'(2) that show thesis by blast
qed

lemma admit_path:
  assumes r: "reaches ni workers m" and a: "a \<in> fresh m" and op: "\<not> (ni \<and> op = OP_INTERRUPT)"
  obtains m' where "admit_and_return ni op a (st m) = Some (st m')" "reaches ni workers m'" "setting m' = setting m"
    "fresh m' = (if op = OP_INTERRUPT then fresh m else fresh m - {a})"
    "own m' = (if op = OP_INTERRUPT then own m else insert a (own m))"
proof (cases "op = OP_INTERRUPT")
  case True
  with that [of m] r op show thesis by (simp add: admit_and_return_def)
next
  case False
  obtain xs ys where inv: "machine_inv ni workers m xs ys" using reaches_inv [OF r] by blast
  have "orderly ni workers m (Admit a)" using a by simp
  from next_state [OF r this] obtain m1 where m1: "exec ni m (Admit a) = Some m1" "reaches ni workers m1" by blast
  then obtain i where i: "admit_req ni a (st m) = Some (i, st m1)" "fresh m1 = fresh m - {a}" "own m1 = own m \<union> {a} \<union> set_option i"
    "setting m1 = setting m"
    by (auto simp: bind_eq_Some_conv)
  show thesis
  proof (cases i)
    case None
    then have "admit_and_return ni op a (st m) = Some (st m1)"
      using i(1) False by (cases ni) (simp_all add: admit_and_return_def admit_req_def)
    with that [of m1] m1(2) i None False show thesis by simp
  next
    case (Some j)
    then have ni: "\<not> ni" using i(1) by (auto simp: admit_req_def)
    then obtain s where "check_interrupt a (st m) = Some (Some j, s)"
      using i(1) Some by (auto simp: admit_req_def bind_eq_Some_conv)
    then have j: "j \<notin> own m" "j \<notin> fresh m" using returned_not_owned [OF inv] by blast+
    then have ja: "j \<noteq> a" "j \<notin> setting m1" using a i(4) roles_okD(6) [OF invD(3) [OF inv]] by auto
    have "orderly ni workers m1 (Reply j)" using i(3) Some ja by simp
    from next_state [OF m1(2) this] obtain m2 where m2: "exec ni m1 (Reply j) = Some m2" "reaches ni workers m2" by blast
    then have f: "fuse_free_req ni j (st m1) = Some (st m2)" "fresh m2 = fresh m1" "own m2 = own m1 - {j}" "setting m2 = setting m1"
      by (auto simp: bind_eq_Some_conv)
    then have "admit_and_return ni op a (st m) = Some (st m2)"
      using i(1) Some ni False by (simp add: admit_and_return_def)
    moreover have "own m2 = insert a (own m)" using f(3) i(3) Some j(1) ja(1) by auto
    ultimately show thesis using that [of m2] m2(2) f i False by simp
  qed
qed

text \<open>
  The rules for messages, as the documentation gives them. The first message, and only the first, is
  the initialisation. With \<^verbatim>\<open>allow_root\<close> other users than the owner and root may only go on with files
  that are open. The operation must have a handler, and interrupts must not have been turned off.
\<close>

definition in_order :: "sess \<Rightarrow> in_header \<Rightarrow> bool" where
  "in_order se h \<longleftrightarrow>
     (if got_init se then opcode h \<notin> {OP_INIT, OP_CUSE_INIT} else opcode h = (if is_cuse se then OP_CUSE_INIT else OP_INIT))"

definition user_allowed :: "sess \<Rightarrow> in_header \<Rightarrow> bool" where
  "user_allowed se h \<longleftrightarrow> (deny_others se \<longrightarrow> uid h = 0 \<or> uid h = owner se \<or> opcode h = OP_INIT \<or> opcode h = OP_NOTIFY_REPLY \<or>
     opcode h \<in> {OP_READ, OP_WRITE, OP_FSYNC, OP_RELEASE} \<or> opcode h \<in> {OP_READDIR, OP_READDIRPLUS, OP_FSYNCDIR, OP_RELEASEDIR})"

definition supported :: "sess \<Rightarrow> in_header \<Rightarrow> bool" where
  "supported se h \<longleftrightarrow> (\<exists>name. (opcode h, name) \<in> set fuse_ll_ops) \<and> (no_interrupt se \<longrightarrow> opcode h \<noteq> OP_INTERRUPT)"

text \<open>The rest of the message is in the pipe and the handler wants it in memory.\<close>

definition body_wanted :: "sess \<Rightarrow> message \<Rightarrow> in_header \<Rightarrow> bool" where
  "body_wanted se b h \<longleftrightarrow> in_pipe b \<and> 80 < msize b \<and> opcode h \<noteq> OP_NOTIFY_REPLY \<and> (has_write_buf se \<longrightarrow> opcode h \<noteq> OP_WRITE)"

lemma known_opcode: "has_handler op \<longleftrightarrow> (\<exists>name. (op, name) \<in> set fuse_ll_ops)"
proof -
  have "\<forall>op\<in>fst ` set fuse_ll_ops. op < FUSE_MAXOP" by (simp add: fuse_ll_ops_def FUSE_MAXOP_def opcodes)
  then show ?thesis by (force simp: has_handler_def map_of_eq_None_iff)
qed

lemma check_request_spec:
  "check_request se h =
     (if \<not> in_order se h then Some EIO else if \<not> user_allowed se h then Some EACCES else if \<not> supported se h then Some ENOSYS else None)"
proof -
  have o: "\<not> in_order se h \<longleftrightarrow> \<not> got_init se \<and> opcode h \<noteq> (if is_cuse se then OP_CUSE_INIT else OP_INIT) \<or>
      got_init se \<and> (opcode h = OP_INIT \<or> opcode h = OP_CUSE_INIT)"
    by (cases "got_init se") (simp_all add: in_order_def)
  have u: "\<not> user_allowed se h \<longleftrightarrow> deny_others se \<and> uid h \<noteq> owner se \<and> uid h \<noteq> 0 \<and> opcode h \<notin> set owner_exempt"
    by (simp add: user_allowed_def owner_exempt_def) blast
  have n: "\<not> supported se h \<longleftrightarrow> \<not> has_handler (opcode h) \<or> no_interrupt se \<and> opcode h = OP_INTERRUPT"
    by (auto simp: supported_def known_opcode)
  have "(if A then x else if B then x else if C then y else if \<not> H then z else if I then z else w) =
      (if A \<or> B then x else if C then y else if \<not> H \<or> I then z else w)" for A B C H I and x y z w :: "errno option" by simp
  then show ?thesis unfolding o u n check_request_def .
qed

lemma read_body_spec:
  "read_body se e b h = None \<longleftrightarrow> (body_wanted se b h \<longrightarrow> body_mem e \<and> 0 \<le> body_read e)"
  "read_body se e b h = Some err \<longleftrightarrow> body_wanted se b h \<and> (\<not> body_mem e \<and> err = ENOMEM \<or> body_mem e \<and> body_read e < 0 \<and> err = ERR (- body_read e))"
  by (auto simp: read_body_def body_wanted_def write_header_size_def)

lemma process_buf_cases:
  assumes r: "reaches (no_interrupt se) workers m" and a: "1 < a" "requests (st m) a = None"
    and c: "\<And>k. c = Some k \<Longrightarrow> 0 < workers k"
  shows "\<exists>out m'. fuse_session_process_buf_internal se e a c b h (st m) = Some (out, st m') \<and>
    reaches (no_interrupt se) workers m' \<and>
    (case out of
       Message_lost p \<Rightarrow> m' = m \<and> p \<and> in_pipe b \<and> (\<not> header_mem e \<or> header_read e < 0)
     | Refused_early err p \<Rightarrow> m' = m \<and> err = ENOMEM \<and> p = in_pipe b \<and> \<not> req_mem e
     | Refused err p \<Rightarrow> fresh m' = fresh m \<and> own m' = own m \<and> p = in_pipe b \<and>
         (check_request se h = Some err \<or> check_request se h = None \<and> read_body se e b h = Some err)
     | Dispatched t \<Rightarrow> t = route_of se h \<and> check_request se h = None \<and> read_body se e b h = None \<and>
         (if opcode h = OP_INTERRUPT then fresh m' = insert a (fresh m) \<and> own m' = own m
          else fresh m' = fresh m \<and> own m' = insert a (own m)))"
proof -
  let ?ni = "no_interrupt se"
  obtain xs ys where inv: "machine_inv ?ni workers m xs ys" using reaches_inv [OF r] by blast
  have na: "a \<notin> fresh m" "a \<notin> own m" "a \<notin> setting m"
    using store_okD(2) [OF invD(2) [OF inv], of a] a(2) roles_okD(6) [OF invD(3) [OF inv]] by (auto simp: req_ok_def holders_def)
  have "orderly ?ni workers m (Receive a (in_unique h) c)" using a c by simp
  from next_state [OF r this] obtain m1 where m1: "exec ?ni m (Receive a (in_unique h) c) = Some m1" "reaches ?ni workers m1" by blast
  then have s1: "receive_req a (in_unique h) c (st m) = Some (st m1)" "fresh m1 = insert a (fresh m)" "own m1 = own m" "setting m1 = setting m"
    by (auto simp: bind_eq_Some_conv)
  consider "in_pipe b \<and> (\<not> header_mem e \<or> header_read e < 0)" | "\<not> (in_pipe b \<and> (\<not> header_mem e \<or> header_read e < 0))" "\<not> req_mem e"
    | "\<not> (in_pipe b \<and> (\<not> header_mem e \<or> header_read e < 0))" "req_mem e" by blast
  then show ?thesis
  proof cases
    case 3
    show ?thesis
    proof (cases "check_request se h")
      case (Some err)
      obtain m' where "refuse ?ni a err (in_pipe b) (st m1) = Some (Refused err (in_pipe b), st m')" "reaches ?ni workers m'"
        "fresh m' = fresh m1 - {a}" "own m' = own m1 - {a}"
        using refuse_path [OF m1(2), of a err "in_pipe b"] s1 na by auto
      with 3 Some s1 na show ?thesis
        by (intro exI [of _ "Refused err (in_pipe b)"] exI [of _ m']) (simp add: fuse_session_process_buf_internal_def)
    next
      case ok: None
      then have "\<not> (?ni \<and> opcode h = OP_INTERRUPT)" by (auto simp: check_request_def split: if_splits)
      then obtain m2 where m2: "admit_and_return ?ni (opcode h) a (st m1) = Some (st m2)" "reaches ?ni workers m2" "setting m2 = setting m1"
        "fresh m2 = (if opcode h = OP_INTERRUPT then fresh m1 else fresh m1 - {a})"
        "own m2 = (if opcode h = OP_INTERRUPT then own m1 else insert a (own m1))"
        using admit_path [OF m1(2), of a "opcode h"] s1(2) by auto
      show ?thesis
      proof (cases "read_body se e b h")
        case (Some err)
        obtain m' where "refuse ?ni a err (in_pipe b) (st m2) = Some (Refused err (in_pipe b), st m')" "reaches ?ni workers m'"
          "fresh m' = fresh m2 - {a}" "own m' = own m2 - {a}"
          using refuse_path [OF m2(2), of a err "in_pipe b"] s1 m2(3-5) na by (auto split: if_splits)
        with 3 ok Some s1 m2 na show ?thesis
          by (intro exI [of _ "Refused err (in_pipe b)"] exI [of _ m'])
            (simp add: fuse_session_process_buf_internal_def split: if_splits)
      next
        case None
        with 3 ok s1 m2 na show ?thesis
          by (intro exI [of _ "Dispatched (route_of se h)"] exI [of _ m2])
            (simp add: fuse_session_process_buf_internal_def split: if_splits)
      qed
    qed
  qed (use r in \<open>auto simp: fuse_session_process_buf_internal_def\<close>)
qed

lemma route_spec:
  assumes "supported se h"
  shows "case route_of se h of
      To_write_buf \<Rightarrow> opcode h = OP_WRITE \<and> has_write_buf se
    | To_notify_reply \<Rightarrow> opcode h = OP_NOTIFY_REPLY
    | To_handler name \<Rightarrow> (opcode h, name) \<in> set fuse_ll_ops \<and> opcode h \<noteq> OP_NOTIFY_REPLY \<and> (has_write_buf se \<longrightarrow> opcode h \<noteq> OP_WRITE)"
proof -
  have "has_handler (opcode h)" using assms by (simp add: supported_def known_opcode)
  then have "(opcode h, opname (opcode h)) \<in> set fuse_ll_ops" by (auto simp: has_handler_def opname_def intro: map_of_SomeD)
  then show ?thesis by (auto simp: route_of_def)
qed


text \<open>For the witness: a session with \<^verbatim>\<open>allow_root\<close> that has been initialised.\<close>

definition demo_session :: sess where
  "demo_session = \<lparr>got_init = True, is_cuse = False, deny_others = True, owner = 1000, no_interrupt = False, has_write_buf = False\<rparr>"

definition demo_env :: env where
  "demo_env = \<lparr>header_mem = True, header_read = 0, req_mem = True, body_mem = True, body_read = 0\<rparr>"


end
