(* ===== verification/Workers.thy ===== *)
theory Workers
  imports LinkList "HOL-Library.Monad_Syntax"
begin

text \<open>
  The worker threads of \<^verbatim>\<open>lib/fuse_loop_mt.c\<close>: a pool that grows when no worker is left to receive
  messages, may shrink when too many are idle, and is cancelled and joined when the session ends. A
  worker is a structure in a store; its thread is in one of several phases. What a thread does between two
  acquisitions of \<^verbatim>\<open>mt->lock\<close> is one step, and the threads take their steps in any order. \<open>None\<close> is
  a use of a structure that was freed.
\<close>

section \<open>State\<close>

text \<open>Phases: the head of the loop, waiting for a message, with a message (a forget or not), processing it, returned.\<close>

datatype phase = Head | Receiving | Received bool | Processing bool | Ended

record worker =
  phase :: phase
  has_chan :: bool

text \<open>
  \<^verbatim>\<open>struct fuse_mt\<close> with the workers, and the number of channels that workers own; \<open>start_failed\<close>
  remembers a thread that could not be created. The structures of the workers that have taken
  themselves off the list and have not yet freed themselves are kept in \<open>leaving\<close>.
\<close>

record fuse_mt =
  wlinks :: links
  wstore :: "nat \<Rightarrow> worker option"
  leaving :: "nat \<Rightarrow> worker option"
  numworker :: int
  numavail :: int
  mt_exit :: bool
  mt_error :: int
  clone_fd :: bool
  max_idle :: int
  max_threads :: int
  exited :: bool
  open_chans :: nat
  start_failed :: bool

definition MAIN :: nat where "MAIN = 0"

definition wlive :: "fuse_mt \<Rightarrow> nat \<Rightarrow> bool" where
  "wlive mt a \<longleftrightarrow> a = MAIN \<or> wstore mt a \<noteq> None"

definition set_phase :: "nat \<Rightarrow> phase \<Rightarrow> fuse_mt \<Rightarrow> fuse_mt option" where
  "set_phase w p mt = map_option (\<lambda>x. mt\<lparr>wstore := (wstore mt)(w \<mapsto> x\<lparr>phase := p\<rparr>)\<rparr>) (wstore mt w)"

definition link_worker :: "nat \<Rightarrow> fuse_mt \<Rightarrow> fuse_mt option" where
  "link_worker w mt =
     (if wlive mt w \<and> wlive mt (prv (wlinks mt) MAIN) then Some (mt\<lparr>wlinks := list_add_worker w MAIN (wlinks mt)\<rparr>) else None)"

definition unlink_worker :: "nat \<Rightarrow> fuse_mt \<Rightarrow> fuse_mt option" where
  "unlink_worker w mt =
     (if wlive mt w \<and> wlive mt (prv (wlinks mt) w) \<and> wlive mt (nxt (wlinks mt) w)
      then Some (mt\<lparr>wlinks := list_del_worker w (wlinks mt)\<rparr>) else None)"

definition free_worker :: "nat \<Rightarrow> fuse_mt \<Rightarrow> fuse_mt option" where
  "free_worker w mt =
     map_option (\<lambda>x. mt\<lparr>wstore := (wstore mt)(w := None), open_chans := (if has_chan x then open_chans mt - 1 else open_chans mt)\<rparr>) (wstore mt w)"

text \<open>A worker that is off the list, and then, without the lock, the release of its channel and its structure.\<close>

definition retire_worker :: "nat \<Rightarrow> fuse_mt \<Rightarrow> fuse_mt option" where
  "retire_worker w mt =
     map_option (\<lambda>x. mt\<lparr>wstore := (wstore mt)(w := None), leaving := (leaving mt)(w \<mapsto> x)\<rparr>) (wstore mt w)"

definition work_leave :: "nat \<Rightarrow> fuse_mt \<Rightarrow> fuse_mt option" where
  "work_leave w mt =
     map_option (\<lambda>x. mt\<lparr>leaving := (leaving mt)(w := None), open_chans := (if has_chan x then open_chans mt - 1 else open_chans mt)\<rparr>) (leaving mt w)"

section \<open>The functions\<close>

text \<open>
  How starting a thread ends: there is no memory; the thread cannot be created; or it is, with the
  address of its structure. The Boolean says whether a channel could be cloned.
\<close>

datatype start = No_memory | Not_created bool | Created nat bool

definition fuse_loop_start_thread :: "start \<Rightarrow> fuse_mt \<Rightarrow> (bool \<times> fuse_mt) option" where
  "fuse_loop_start_thread r mt =
     (case r of
        No_memory \<Rightarrow> Some (False, mt\<lparr>start_failed := True\<rparr>)
      | Not_created cl \<Rightarrow> Some (False, mt\<lparr>clone_fd := clone_fd mt \<and> cl, start_failed := True\<rparr>)
      | Created w cl \<Rightarrow> do {
          let ch = (clone_fd mt \<and> cl);
          let mt1 = mt\<lparr>wstore := (wstore mt)(w \<mapsto> \<lparr>phase = Head, has_chan = ch\<rparr>), clone_fd := ch,
            open_chans := (if ch then open_chans mt + 1 else open_chans mt)\<rparr>;
          mt2 \<leftarrow> link_worker w mt1;
          Some (True, mt2\<lparr>numavail := numavail mt2 + 1, numworker := numworker mt2 + 1\<rparr>)
        })"

text \<open>\<^verbatim>\<open>fuse_do_work\<close>, from one acquisition of the lock to the next.\<close>

definition work_head :: "nat \<Rightarrow> fuse_mt \<Rightarrow> fuse_mt option" where
  "work_head w mt = set_phase w (if exited mt then Ended else Receiving) mt"

definition MT_EINTR :: int where "MT_EINTR = 4"

text \<open>
  No message: an interrupted call is tried again. The result 0 means that the session has exited, or
  exits now since the file system was unmounted.
\<close>

definition work_no_message :: "nat \<Rightarrow> int \<Rightarrow> fuse_mt \<Rightarrow> fuse_mt option" where
  "work_no_message w res mt =
     (if res = - MT_EINTR then set_phase w Head mt
      else set_phase w Ended (mt\<lparr>exited := True, mt_error := (if res < 0 then res else mt_error mt)\<rparr>))"

definition work_take :: "nat \<Rightarrow> bool \<Rightarrow> start \<Rightarrow> fuse_mt \<Rightarrow> fuse_mt option" where
  "work_take w isforget r mt =
     (if mt_exit mt then set_phase w Ended mt
      else do {
        let mt1 = (if isforget then mt else mt\<lparr>numavail := numavail mt - 1\<rparr>);
        mt2 \<leftarrow> (if numavail mt1 = 0 \<and> numworker mt1 < max_threads mt1 then map_option snd (fuse_loop_start_thread r mt1) else Some mt1);
        set_phase w (Processing isforget) mt2
      })"

definition work_done :: "nat \<Rightarrow> bool \<Rightarrow> fuse_mt \<Rightarrow> fuse_mt option" where
  "work_done w isforget mt =
     (let mt1 = (if isforget then mt else mt\<lparr>numavail := numavail mt + 1\<rparr>) in
      if max_idle mt1 \<noteq> -1 \<and> numavail mt1 > max_idle mt1 \<and> numworker mt1 > 1 then
        if mt_exit mt1 then set_phase w Ended mt1
        else do {
          mt2 \<leftarrow> unlink_worker w mt1;
          retire_worker w (mt2\<lparr>numavail := numavail mt2 - 1, numworker := numworker mt2 - 1\<rparr>)
        }
      else set_phase w Head mt1)"

text \<open>\<^verbatim>\<open>fuse_join_worker\<close>, once the thread has returned, for the first worker of the list.\<close>

definition fuse_join_worker :: "fuse_mt \<Rightarrow> fuse_mt option" where
  "fuse_join_worker mt = do {
     let w = nxt (wlinks mt) MAIN;
     mt1 \<leftarrow> unlink_worker w mt;
     free_worker w mt1
   }"

text \<open>\<^verbatim>\<open>fuse_session_loop_mt_312\<close> up to its first thread; \<open>l\<close> is any memory for links.\<close>

definition loop_start :: "links \<Rightarrow> bool \<Rightarrow> int \<Rightarrow> int \<Rightarrow> fuse_mt" where
  "loop_start l clone idle threads =
     \<lparr>wlinks = \<lparr>nxt = (nxt l)(MAIN := MAIN), prv = (prv l)(MAIN := MAIN)\<rparr>, wstore = (\<lambda>_. None), leaving = (\<lambda>_. None), numworker = 0, numavail = 0, mt_exit = False, mt_error = 0,
       clone_fd = clone, max_idle = idle, max_threads = threads, exited = False, open_chans = 0, start_failed = False\<rparr>"

section \<open>The machine\<close>

text \<open>
  The actions of the threads: a worker passes the head of its loop, gets a message, or none, takes
  it, finishes it, and frees itself after taking itself off the list; the session is told to exit; the main thread cancels the workers, which end if
  they are waiting, and joins them.
\<close>

datatype pool_action = Pass nat | Get nat bool | Get_none nat int | Take nat start | Finish nat | Leave nat | Exit | Cancel | Cancelled nat | Join

fun pool_enabled :: "pool_action \<Rightarrow> fuse_mt \<Rightarrow> bool" where
  "pool_enabled (Pass w) mt = (map_option phase (wstore mt w) = Some Head)"
| "pool_enabled (Get w f) mt = (map_option phase (wstore mt w) = Some Receiving)"
| "pool_enabled (Get_none w res) mt = (map_option phase (wstore mt w) = Some Receiving \<and> res \<le> 0)"
| "pool_enabled (Take w r) mt =
     ((\<exists>f. map_option phase (wstore mt w) = Some (Received f)) \<and>
      (case r of Created a _ \<Rightarrow> a \<noteq> MAIN \<and> wstore mt a = None \<and> leaving mt a = None | _ \<Rightarrow> True))"
| "pool_enabled (Finish w) mt = (\<exists>f. map_option phase (wstore mt w) = Some (Processing f))"
| "pool_enabled (Leave w) mt = (leaving mt w \<noteq> None)"
| "pool_enabled Exit mt = True"
| "pool_enabled Cancel mt = (exited mt \<and> \<not> mt_exit mt)"
| "pool_enabled (Cancelled w) mt = (mt_exit mt \<and> map_option phase (wstore mt w) = Some Receiving)"
| "pool_enabled Join mt =
     (mt_exit mt \<and> nxt (wlinks mt) MAIN \<noteq> MAIN \<and> (case wstore mt (nxt (wlinks mt) MAIN) of None \<Rightarrow> True | Some x \<Rightarrow> phase x = Ended))"

definition received :: "worker \<Rightarrow> bool" where
  "received x = (case phase x of Received f \<Rightarrow> f | Processing f \<Rightarrow> f | _ \<Rightarrow> False)"

fun pool_step :: "pool_action \<Rightarrow> fuse_mt \<Rightarrow> fuse_mt option" where
  "pool_step (Pass w) mt = work_head w mt"
| "pool_step (Get w f) mt = set_phase w (Received f) mt"
| "pool_step (Get_none w res) mt = work_no_message w res mt"
| "pool_step (Take w r) mt = do {x \<leftarrow> wstore mt w; work_take w (received x) r mt}"
| "pool_step (Finish w) mt = do {x \<leftarrow> wstore mt w; work_done w (received x) mt}"
| "pool_step (Leave w) mt = work_leave w mt"
| "pool_step Exit mt = Some (mt\<lparr>exited := True\<rparr>)"
| "pool_step Cancel mt = Some (mt\<lparr>mt_exit := True\<rparr>)"
| "pool_step (Cancelled w) mt = set_phase w Ended mt"
| "pool_step Join mt = fuse_join_worker mt"

inductive pool_reaches :: "links \<Rightarrow> bool \<Rightarrow> int \<Rightarrow> int \<Rightarrow> fuse_mt \<Rightarrow> bool" for l clone idle threads where
  start: "w \<noteq> MAIN \<Longrightarrow> fuse_loop_start_thread (Created w cl) (loop_start l clone idle threads) = Some (ok, mt) \<Longrightarrow> pool_reaches l clone idle threads mt"
| step: "pool_reaches l clone idle threads mt \<Longrightarrow> pool_enabled a mt \<Longrightarrow> pool_step a mt = Some mt' \<Longrightarrow> pool_reaches l clone idle threads mt'"

section \<open>Invariant\<close>

definition busy :: "fuse_mt \<Rightarrow> nat \<Rightarrow> bool" where
  "busy mt w \<longleftrightarrow> map_option phase (wstore mt w) = Some (Processing False)"

definition leaving_chans :: "fuse_mt \<Rightarrow> nat" where
  "leaving_chans mt = card {w. \<exists>x. leaving mt w = Some x \<and> has_chan x}"

definition workers_ok :: "fuse_mt \<Rightarrow> nat list \<Rightarrow> bool" where
  "workers_ok mt ws \<longleftrightarrow>
     is_list (wlinks mt) MAIN ws \<and> (\<forall>w. wstore mt w \<noteq> None \<longleftrightarrow> w \<in> set ws) \<and>
     finite {w. leaving mt w \<noteq> None} \<and> (\<forall>w\<in>set ws. leaving mt w = None) \<and>
     open_chans mt = length (filter (\<lambda>w. \<exists>x. wstore mt w = Some x \<and> has_chan x) ws) + leaving_chans mt"

definition available :: "fuse_mt \<Rightarrow> bool" where
  "available mt \<longleftrightarrow> ((max_idle mt = -1 \<or> 0 < max_idle mt) \<and> \<not> start_failed mt \<longrightarrow> 1 \<le> numavail mt \<or> max_threads mt \<le> numworker mt)"

definition counts_ok :: "fuse_mt \<Rightarrow> nat list \<Rightarrow> bool" where
  "counts_ok mt ws \<longleftrightarrow> numworker mt = int (length ws) \<and> 1 \<le> numworker mt \<and>
     numavail mt = int (length (filter (\<lambda>w. \<not> busy mt w) ws)) \<and> (numworker mt \<le> max_threads mt \<or> numworker mt = 1)"

definition pool_inv :: "fuse_mt \<Rightarrow> nat list \<Rightarrow> bool" where
  "pool_inv mt ws \<longleftrightarrow> workers_ok mt ws \<and> (\<not> mt_exit mt \<longrightarrow> counts_ok mt ws \<and> available mt)"

lemma count_flip:
  assumes "distinct ws" and "w \<in> set ws" and "\<And>v. v \<noteq> w \<Longrightarrow> P v = Q v"
  shows "int (length (filter P ws)) = int (length (filter Q ws)) + of_bool (P w) - of_bool (Q w)"
proof -
  obtain as bs where ws: "ws = as @ w # bs" using assms(2) by (meson split_list)
  then have "w \<notin> set as" "w \<notin> set bs" using assms(1) by auto
  then have "filter P as = filter Q as" "filter P bs = filter Q bs"
    using assms(3) by (metis (mono_tags, lifting) filter_cong)+
  then show ?thesis by (simp add: ws)
qed

lemma count_same: "(\<And>v. v \<in> set ws \<Longrightarrow> P v = Q v) \<Longrightarrow> length (filter P ws) = length (filter Q ws)"
  by (metis filter_cong)

lemma pool_listD:
  assumes "pool_inv mt ws" and "w \<in> set ws"
  shows "wlive mt w" "wlive mt (prv (wlinks mt) w)" "wlive mt (nxt (wlinks mt) w)" "w \<noteq> MAIN" "distinct ws"
proof -
  obtain as bs where ws: "ws = as @ w # bs" using assms(2) by (meson split_list)
  have l: "is_list (wlinks mt) MAIN (as @ w # bs)" and s: "\<And>v. wstore mt v \<noteq> None \<longleftrightarrow> v \<in> set ws"
    using assms(1) ws by (simp_all add: pool_inv_def workers_ok_def)
  have "prv (wlinks mt) w = last (MAIN # as)" "nxt (wlinks mt) w = hd (bs @ [MAIN])" using is_list_split [OF l] by simp_all
  then show "wlive mt (prv (wlinks mt) w)" "wlive mt (nxt (wlinks mt) w)"
    using s ws by (cases as rule: rev_cases; cases bs; auto simp: wlive_def)+
  show "wlive mt w" using s assms(2) by (simp add: wlive_def)
  show "w \<noteq> MAIN" "distinct ws" using l ws by (auto simp: is_list_def)
qed

lemma pool_invD:
  assumes "pool_inv mt ws"
  shows "is_list (wlinks mt) MAIN ws" "\<And>w. wstore mt w \<noteq> None \<longleftrightarrow> w \<in> set ws" "distinct ws" "MAIN \<notin> set ws"
  using assms by (auto simp: pool_inv_def workers_ok_def is_list_def)

text \<open>A worker changes its phase, and \<open>numavail\<close> with it.\<close>

lemma set_phase_inv:
  assumes inv: "pool_inv mt ws" and w: "wstore mt w = Some x"
    and d: "\<not> mt_exit mt \<Longrightarrow> d = of_bool (busy mt w) - of_bool (p = Processing False)"
    and av: "\<not> mt_exit mt \<Longrightarrow> available (mt\<lparr>numavail := numavail mt + d\<rparr>)"
  shows "\<exists>mt'. set_phase w p (mt\<lparr>numavail := numavail mt + d\<rparr>) = Some mt' \<and> pool_inv mt' ws"
proof -
  let ?mt = "mt\<lparr>numavail := numavail mt + d, wstore := (wstore mt)(w \<mapsto> x\<lparr>phase := p\<rparr>)\<rparr>"
  have ws: "w \<in> set ws" "distinct ws" using pool_invD [OF inv] w by auto
  have chans: "length (filter (\<lambda>v. \<exists>y. wstore ?mt v = Some y \<and> has_chan y) ws) = length (filter (\<lambda>v. \<exists>y. wstore mt v = Some y \<and> has_chan y) ws)"
    by (rule count_same) (use w in auto)
  have "int (length (filter (\<lambda>v. \<not> busy ?mt v) ws)) = int (length (filter (\<lambda>v. \<not> busy mt v) ws)) + of_bool (\<not> busy ?mt w) - of_bool (\<not> busy mt w)"
    by (rule count_flip [OF ws(2,1)]) (simp add: busy_def)
  moreover have "busy ?mt w \<longleftrightarrow> p = Processing False" by (simp add: busy_def)
  ultimately have n: "int (length (filter (\<lambda>v. \<not> busy ?mt v) ws)) = int (length (filter (\<lambda>v. \<not> busy mt v) ws)) + of_bool (busy mt w) - of_bool (p = Processing False)"
    by (simp split: split_of_bool)
  have "workers_ok ?mt ws" using inv w chans by (auto simp: pool_inv_def workers_ok_def leaving_chans_def)
  moreover have "counts_ok ?mt ws" if "\<not> mt_exit mt"
  proof -
    have "counts_ok mt ws" using inv that by (simp add: pool_inv_def)
    then show ?thesis unfolding counts_ok_def n using d [OF that] by auto
  qed
  moreover have "available ?mt" if "\<not> mt_exit mt" using av [OF that] by (simp add: available_def)
  ultimately have "pool_inv ?mt ws" by (simp add: pool_inv_def)
  then show ?thesis using w by (simp add: set_phase_def)
qed

lemma set_phase_same:
  assumes "pool_inv mt ws" and "wstore mt w = Some x" and "\<not> busy mt w" and "p \<noteq> Processing False"
  shows "\<exists>mt'. set_phase w p mt = Some mt' \<and> pool_inv mt' ws"
  using set_phase_inv [OF assms(1,2), of 0 p] assms by (simp add: pool_inv_def)

text \<open>After \<^verbatim>\<open>mt->exit\<close> is set, the counters no longer matter.\<close>

lemma set_phase_exit:
  assumes "pool_inv mt ws" and "wstore mt w = Some x" and "mt_exit mt"
  shows "\<exists>mt'. set_phase w p (mt\<lparr>numavail := n\<rparr>) = Some mt' \<and> pool_inv mt' ws"
  using set_phase_inv [OF assms(1,2), of "n - numavail mt" p] assms(3) by simp

lemma link_worker_inv:
  assumes inv: "pool_inv mt ws" and w: "w \<noteq> MAIN" "wstore mt w = None"
  shows "prv (wlinks mt) MAIN = MAIN \<or> wstore mt (prv (wlinks mt) MAIN) \<noteq> None" "is_list (list_add_worker w MAIN (wlinks mt)) MAIN (ws @ [w])"
proof -
  have "prv (wlinks mt) MAIN = last (MAIN # ws)" by (rule prv_head) (rule pool_invD(1) [OF inv])
  then have "prv (wlinks mt) MAIN = MAIN \<or> prv (wlinks mt) MAIN \<in> set ws" by (cases ws rule: rev_cases) auto
  then show "prv (wlinks mt) MAIN = MAIN \<or> wstore mt (prv (wlinks mt) MAIN) \<noteq> None" using pool_invD(2) [OF inv] by auto
  show "is_list (list_add_worker w MAIN (wlinks mt)) MAIN (ws @ [w])"
    by (rule workers.add_list [OF pool_invD(1) [OF inv]]) (use pool_invD(2) [OF inv, of w] w in auto)
qed

lemma start_thread_ok:
  assumes inv: "pool_inv mt ws" and ex: "\<not> mt_exit mt" and w: "w \<noteq> MAIN" "wstore mt w = None" and lv: "leaving mt w = None"
    and lim: "numworker mt < max_threads mt"
  shows "\<exists>mt'. fuse_loop_start_thread (Created w cl) mt = Some (True, mt') \<and> pool_inv mt' (ws @ [w]) \<and> numavail mt' = numavail mt + 1 \<and>
    numworker mt' = numworker mt + 1 \<and> mt_exit mt' = mt_exit mt \<and> max_threads mt' = max_threads mt \<and> (\<forall>v. v \<noteq> w \<longrightarrow> wstore mt' v = wstore mt v)"
proof -
  let ?ch = "clone_fd mt \<and> cl"
  let ?x = "\<lparr>phase = Head, has_chan = ?ch\<rparr>"
  let ?mt = "mt\<lparr>clone_fd := ?ch, open_chans := (if ?ch then open_chans mt + 1 else open_chans mt)\<rparr>"
  have w': "w \<notin> set ws" using pool_invD(2) [OF inv, of w] w by simp
  let ?l = "list_add_worker w MAIN (wlinks mt)"
  note l = link_worker_inv [OF inv w]
  let ?r = "?mt\<lparr>wstore := (wstore mt)(w \<mapsto> ?x), wlinks := ?l, numavail := numavail mt + 1, numworker := numworker mt + 1\<rparr>"
  have step: "fuse_loop_start_thread (Created w cl) mt = Some (True, ?r)"
    using l(1) by (auto simp: fuse_loop_start_thread_def link_worker_def wlive_def Let_def)
  have chans: "filter (\<lambda>v. \<exists>y. ((wstore mt)(w \<mapsto> ?x)) v = Some y \<and> has_chan y) ws = filter (\<lambda>v. \<exists>y. wstore mt v = Some y \<and> has_chan y) ws"
    by (rule filter_cong) (use w' in auto)
  have busy: "filter (\<lambda>v. \<not> busy ?r v) ws = filter (\<lambda>v. \<not> busy mt v) ws"
    by (rule filter_cong) (use w' in \<open>auto simp: busy_def\<close>)
  have "workers_ok ?r (ws @ [w])" using inv l(2) chans lv by (auto simp: pool_inv_def workers_ok_def leaving_chans_def)
  moreover have "counts_ok ?r (ws @ [w])"
  proof -
    have "\<not> busy ?r w" by (simp add: busy_def)
    then show ?thesis using inv ex lim busy unfolding counts_ok_def pool_inv_def by auto
  qed
  moreover have "available ?r" using inv ex unfolding counts_ok_def pool_inv_def available_def by simp
  ultimately have "pool_inv ?r (ws @ [w])" by (simp add: pool_inv_def)
  with step show ?thesis by simp
qed

lemma chan_set_finite: "finite {w. leaving mt w \<noteq> None} \<Longrightarrow> finite {w. \<exists>x. leaving mt w = Some x \<and> has_chan x}"
  by (erule finite_subset [rotated]) auto

lemma list_without:
  assumes "w \<in> set ws" and "distinct ws"
  obtains as bs where "ws = as @ w # bs" "w \<notin> set as" "w \<notin> set bs" "remove1 w ws = as @ bs"
  using assms by (metis distinct.simps(2) distinct_append not_distinct_conv_prefix remove1_append remove1.simps(2) split_list_first)

lemma chans_without:
  "w \<notin> set zs \<Longrightarrow> filter (\<lambda>v. \<exists>y. (m(w := None)) v = Some y \<and> has_chan y) zs = filter (\<lambda>v. \<exists>y. m v = Some y \<and> has_chan y) zs"
  by (auto intro: filter_cong)

text \<open>The list without a worker, whose structure goes or is kept by its thread.\<close>

lemma unlink_ok:
  assumes inv: "pool_inv mt ws" and w: "w \<in> set ws"
  shows "unlink_worker w mt = Some (mt\<lparr>wlinks := list_del_worker w (wlinks mt)\<rparr>)" and "is_list (list_del_worker w (wlinks mt)) MAIN (remove1 w ws)"
  using pool_listD(1-3) [OF inv w] workers.del_member [OF pool_invD(1) [OF inv] w] by (simp_all add: unlink_worker_def)

lemma unlink_free_inv:
  assumes inv: "pool_inv mt ws" and w: "w \<in> set ws" and ex: "mt_exit mt"
  shows "\<exists>mt1 mt2. unlink_worker w mt = Some mt1 \<and> free_worker w mt1 = Some mt2 \<and> pool_inv mt2 (remove1 w ws)"
proof -
  note live = pool_listD [OF inv w] and u = unlink_ok [OF inv w]
  obtain x where x: "wstore mt w = Some x" using pool_invD(2) [OF inv, of w] w by auto
  let ?r = "mt\<lparr>wlinks := list_del_worker w (wlinks mt), wstore := (wstore mt)(w := None),
     open_chans := (if has_chan x then open_chans mt - 1 else open_chans mt)\<rparr>"
  obtain as bs where ws: "ws = as @ w # bs" "w \<notin> set as" "w \<notin> set bs" "remove1 w ws = as @ bs"
    by (rule list_without [OF w live(5)])
  have "workers_ok ?r (as @ bs)"
    using inv u(2) ws x chans_without [OF ws(2), of "wstore mt"] chans_without [OF ws(3), of "wstore mt"] by (auto simp: pool_inv_def workers_ok_def leaving_chans_def)
  then have "pool_inv ?r (remove1 w ws)" using ex by (simp add: pool_inv_def ws(4))
  then show ?thesis using u(1) x by (auto simp: free_worker_def)
qed

lemma unlink_retire_inv:
  assumes inv: "pool_inv mt ws" and w: "w \<in> set ws" and ex: "\<not> mt_exit mt"
    and c: "1 < numworker mt" "n = numavail mt - of_bool (\<not> busy mt w)" "available (mt\<lparr>numavail := n, numworker := numworker mt - 1\<rparr>)"
  shows "\<exists>mt'. retire_worker w (mt\<lparr>wlinks := list_del_worker w (wlinks mt), numavail := n, numworker := numworker mt - 1\<rparr>) = Some mt' \<and>
    pool_inv mt' (remove1 w ws)"
proof -
  note live = pool_listD [OF inv w] and u = unlink_ok [OF inv w]
  obtain x where x: "wstore mt w = Some x" using pool_invD(2) [OF inv, of w] w by auto
  let ?r = "mt\<lparr>wlinks := list_del_worker w (wlinks mt), numavail := n, numworker := numworker mt - 1, wstore := (wstore mt)(w := None),
     leaving := (leaving mt)(w \<mapsto> x)\<rparr>"
  obtain as bs where ws: "ws = as @ w # bs" "w \<notin> set as" "w \<notin> set bs" "remove1 w ws = as @ bs"
    by (rule list_without [OF w live(5)])
  have I: "workers_ok mt ws" using inv by (simp add: pool_inv_def)
  then have fin: "finite {w. leaving mt w \<noteq> None}" and lv: "leaving mt w = None" using w by (auto simp: workers_ok_def)
  have "{v. \<exists>y. leaving ?r v = Some y \<and> has_chan y} = (if has_chan x then insert w {v. \<exists>y. leaving mt v = Some y \<and> has_chan y} else {v. \<exists>y. leaving mt v = Some y \<and> has_chan y})"
    using lv by auto
  then have "leaving_chans ?r = leaving_chans mt + (if has_chan x then 1 else 0)"
    using chan_set_finite [OF fin] lv by (simp add: leaving_chans_def)
  moreover have "{v. leaving ?r v \<noteq> None} = insert w {v. leaving mt v \<noteq> None}" by auto
  ultimately have "workers_ok ?r (as @ bs)"
    using I u(2) ws x fin chans_without [OF ws(2), of "wstore mt"] chans_without [OF ws(3), of "wstore mt"] by (auto simp: workers_ok_def)
  moreover have "filter (\<lambda>v. \<not> busy ?r v) zs = filter (\<lambda>v. \<not> busy mt v) zs" if "w \<notin> set zs" for zs
    using that by (auto intro!: filter_cong simp: busy_def)
  then have "counts_ok ?r (as @ bs) \<and> available ?r"
    using inv ex c ws(2,3) unfolding pool_inv_def counts_ok_def available_def ws(1) by auto
  ultimately have "pool_inv ?r (remove1 w ws)" by (simp add: pool_inv_def ws(4))
  then show ?thesis using x by (simp add: retire_worker_def)
qed

lemma leave_inv:
  assumes inv: "pool_inv mt ws" and w: "leaving mt w = Some x"
  shows "\<exists>mt'. work_leave w mt = Some mt' \<and> pool_inv mt' ws"
proof -
  let ?r = "mt\<lparr>leaving := (leaving mt)(w := None), open_chans := (if has_chan x then open_chans mt - 1 else open_chans mt)\<rparr>"
  have I: "workers_ok mt ws" using inv by (simp add: pool_inv_def)
  then have fin: "finite {w. leaving mt w \<noteq> None}" by (simp add: workers_ok_def)
  have "{v. \<exists>y. leaving ?r v = Some y \<and> has_chan y} = {v. \<exists>y. leaving mt v = Some y \<and> has_chan y} - {w}" by auto
  then have "leaving_chans mt = leaving_chans ?r + (if has_chan x then 1 else 0)"
    using chan_set_finite [OF fin] w by (simp add: leaving_chans_def card_Diff_singleton_if) (metis (mono_tags, lifting) Suc_pred card_gt_0_iff empty_iff mem_Collect_eq)
  moreover have "{v. leaving ?r v \<noteq> None} = {v. leaving mt v \<noteq> None} - {w}" by auto
  ultimately have "workers_ok ?r ws" using I fin by (auto simp: workers_ok_def)
  then have "pool_inv ?r ws" using inv by (auto simp: pool_inv_def counts_ok_def available_def busy_def)
  then show ?thesis using w by (simp add: work_leave_def)
qed

lemma start_thread_shift:
  "fuse_loop_start_thread r mt = Some (ok, mt') \<Longrightarrow>
   fuse_loop_start_thread r (mt\<lparr>numavail := numavail mt + d\<rparr>) = Some (ok, mt'\<lparr>numavail := numavail mt' + d\<rparr>)"
  by (auto simp: fuse_loop_start_thread_def link_worker_def wlive_def Let_def split: start.splits if_splits)

lemma start_failed_inv:
  "pool_inv mt ws \<Longrightarrow> pool_inv (mt\<lparr>clone_fd := b, start_failed := True\<rparr>) ws"
  by (auto simp: pool_inv_def workers_ok_def leaving_chans_def counts_ok_def available_def busy_def)

text \<open>Starting a thread, whatever the outcome.\<close>

lemma start_thread_inv:
  assumes inv: "pool_inv mt ws" and ex: "\<not> mt_exit mt" and lim: "numworker mt < max_threads mt"
    and r: "\<And>a cl. r = Created a cl \<Longrightarrow> a \<noteq> MAIN \<and> wstore mt a = None \<and> leaving mt a = None" and w: "wstore mt w = Some x"
  shows "\<exists>ok mt' ws'. fuse_loop_start_thread r mt = Some (ok, mt') \<and> pool_inv mt' ws' \<and> wstore mt' w = Some x \<and> mt_exit mt' = mt_exit mt \<and>
    (start_failed mt' \<or> numavail mt' = numavail mt + 1)"
proof (cases r)
  case (Created a cl)
  then have a: "a \<noteq> MAIN" "wstore mt a = None" "leaving mt a = None" "a \<noteq> w" using r w by auto
  from start_thread_ok [OF inv ex a(1-3) lim, of cl] show ?thesis using a(4) w unfolding Created by metis
qed (use start_failed_inv [OF inv, of "clone_fd mt"] start_failed_inv [OF inv] w in \<open>auto simp: fuse_loop_start_thread_def\<close>)

lemma some_available: "pool_inv mt ws \<Longrightarrow> \<not> mt_exit mt \<Longrightarrow> wstore mt w = Some x \<Longrightarrow> \<not> busy mt w \<Longrightarrow> 1 \<le> numavail mt"
proof -
  assume inv: "pool_inv mt ws" and ex: "\<not> mt_exit mt" and w: "wstore mt w = Some x" "\<not> busy mt w"
  have "w \<in> set (filter (\<lambda>v. \<not> busy mt v) ws)" using pool_invD(2) [OF inv, of w] w by simp
  then have "0 < length (filter (\<lambda>v. \<not> busy mt v) ws)" by (metis length_pos_if_in_set)
  then show ?thesis using inv ex unfolding pool_inv_def counts_ok_def by linarith
qed

lemma work_take_inv:
  assumes inv: "pool_inv mt ws" and w: "wstore mt w = Some x" "phase x = Received f"
    and r: "\<And>a cl. r = Created a cl \<Longrightarrow> a \<noteq> MAIN \<and> wstore mt a = None \<and> leaving mt a = None"
  shows "\<exists>mt' ws'. work_take w f r mt = Some mt' \<and> pool_inv mt' ws'"
proof (cases "mt_exit mt")
  case True
  then show ?thesis using set_phase_same [OF inv w(1), of Ended] w by (auto simp: work_take_def busy_def)
next
  case ex: False
  have nb: "\<not> busy mt w" using w by (simp add: busy_def)
  define d :: int where "d = - of_bool (\<not> f)"
  have mt1: "(if f then mt else mt\<lparr>numavail := numavail mt - 1\<rparr>) = mt\<lparr>numavail := numavail mt + d\<rparr>" by (simp add: d_def)
  have n: "0 \<le> numavail mt + d" using some_available [OF inv ex w(1) nb] by (simp add: d_def split: split_of_bool)
  have fin: "\<exists>mt'. set_phase w (Processing f) (mtA\<lparr>numavail := numavail mtA + d\<rparr>) = Some mt' \<and> pool_inv mt' wsA"
    if "pool_inv mtA wsA" "wstore mtA w = Some x" "available (mtA\<lparr>numavail := numavail mtA + d\<rparr>)" for mtA wsA
    by (rule set_phase_inv [OF that(1,2)]) (use that(2,3) w in \<open>auto simp: busy_def d_def\<close>)
  show ?thesis
  proof (cases "numavail mt + d = 0 \<and> numworker mt < max_threads mt")
    case True
    then have "\<exists>ok mt' ws'. fuse_loop_start_thread r mt = Some (ok, mt') \<and> pool_inv mt' ws' \<and> wstore mt' w = Some x \<and>
        mt_exit mt' = mt_exit mt \<and> (start_failed mt' \<or> numavail mt' = numavail mt + 1)"
      by (intro start_thread_inv [OF inv ex _ _ w(1)]) (use r in auto)
    then obtain ok mtA wsA where
      A: "fuse_loop_start_thread r mt = Some (ok, mtA)" "pool_inv mtA wsA" "wstore mtA w = Some x" "mt_exit mtA = mt_exit mt"
        "start_failed mtA \<or> numavail mtA = numavail mt + 1" by blast
    then have "available (mtA\<lparr>numavail := numavail mtA + d\<rparr>)" using True by (auto simp: available_def)
    from fin [OF A(2,3) this] show ?thesis
      using ex True start_thread_shift [OF A(1), of d] unfolding work_take_def mt1 by auto
  next
    case False
    then have "available (mt\<lparr>numavail := numavail mt + d\<rparr>)" using n by (auto simp: available_def)
    from fin [OF inv w(1) this] show ?thesis using ex False unfolding work_take_def mt1 by auto
  qed
qed

lemma work_done_inv:
  assumes inv: "pool_inv mt ws" and w: "wstore mt w = Some x" "phase x = Processing f"
  shows "\<exists>mt' ws'. work_done w f mt = Some mt' \<and> pool_inv mt' ws'"
proof -
  define d :: int where "d = of_bool (\<not> f)"
  define mt1 where "mt1 = mt\<lparr>numavail := numavail mt + d\<rparr>"
  have mt1: "(if f then mt else mt\<lparr>numavail := numavail mt + 1\<rparr>) = mt1" by (simp add: d_def mt1_def)
  have "\<exists>mtA. set_phase w Head mt1 = Some mtA \<and> pool_inv mtA ws"
    unfolding mt1_def by (rule set_phase_inv [OF inv w(1)]) (use inv w in \<open>auto simp: busy_def d_def pool_inv_def available_def\<close>)
  then obtain mtA where A: "set_phase w Head mt1 = Some mtA" "pool_inv mtA ws" by blast
  show ?thesis
  proof (cases "max_idle mt1 \<noteq> -1 \<and> numavail mt1 > max_idle mt1 \<and> numworker mt1 > 1")
    case del: True
    show ?thesis
    proof (cases "mt_exit mt")
      case True
      then show ?thesis
        using del set_phase_exit [OF inv w(1) True, of Ended "numavail mt + d"] mt1_def unfolding work_done_def mt1 by auto
    next
      case False
      have ws: "w \<in> set ws" using pool_invD(2) [OF inv, of w] w by simp
      have n: "numavail mt1 - 1 = numavail mt - of_bool (\<not> busy mt w)" using w by (simp add: mt1_def d_def busy_def)
      have "\<exists>mt'. retire_worker w (mt\<lparr>wlinks := list_del_worker w (wlinks mt), numavail := numavail mt1 - 1, numworker := numworker mt - 1\<rparr>) =
          Some mt' \<and> pool_inv mt' (remove1 w ws)"
        by (rule unlink_retire_inv [OF inv ws False _ n]) (use del in \<open>auto simp: mt1_def available_def\<close>)
      moreover have "unlink_worker w mt1 = Some (mt1\<lparr>wlinks := list_del_worker w (wlinks mt)\<rparr>)"
        using unlink_ok(1) [OF inv ws] by (simp add: unlink_worker_def wlive_def mt1_def split: if_splits)
      ultimately show ?thesis using del False unfolding work_done_def mt1 by (auto simp: mt1_def Let_def)
    qed
  next
    case False
    then show ?thesis using A unfolding work_done_def mt1 Let_def by auto
  qed
qed

lemma phase_SomeD: "map_option phase (wstore mt w) = Some p \<Longrightarrow> \<exists>x. wstore mt w = Some x \<and> phase x = p"
  by auto

lemma set_phase_from:
  assumes "pool_inv mt ws" and "map_option phase (wstore mt w) = Some q" and "q \<noteq> Processing False" and "p \<noteq> Processing False"
  shows "\<exists>mt' ws'. set_phase w p mt = Some mt' \<and> pool_inv mt' ws'"
  using set_phase_same [OF assms(1), of w _ p] assms(2-4) by (fastforce simp: busy_def)

lemma exited_inv: "pool_inv mt ws \<Longrightarrow> pool_inv (mt\<lparr>exited := b\<rparr>) ws" "pool_inv mt ws \<Longrightarrow> pool_inv (mt\<lparr>exited := b, mt_error := e\<rparr>) ws"
  "pool_inv mt ws \<Longrightarrow> pool_inv (mt\<lparr>mt_exit := True\<rparr>) ws"
  by (auto simp: pool_inv_def workers_ok_def leaving_chans_def counts_ok_def available_def busy_def)

lemma join_inv:
  assumes inv: "pool_inv mt ws" and en: "pool_enabled Join mt"
  shows "\<exists>mt' ws'. fuse_join_worker mt = Some mt' \<and> pool_inv mt' ws'"
proof -
  let ?w = "nxt (wlinks mt) MAIN"
  have "?w = hd (ws @ [MAIN])" by (rule nxt_head) (rule pool_invD(1) [OF inv])
  then have w: "?w \<in> set ws" using en by (cases ws) auto
  from unlink_free_inv [OF inv w] en show ?thesis by (auto simp: fuse_join_worker_def Let_def)
qed

lemma pool_step_inv:
  assumes inv: "pool_inv mt ws" and en: "pool_enabled a mt"
  shows "\<exists>mt' ws'. pool_step a mt = Some mt' \<and> pool_inv mt' ws'"
proof (cases a)
  case (Pass w)
  then show ?thesis using set_phase_from [OF inv, of w Head] en by (auto simp: work_head_def)
next
  case (Get w f)
  then show ?thesis using set_phase_from [OF inv, of w Receiving "Received f"] en by simp
next
  case (Get_none w res)
  then show ?thesis
    using set_phase_from [OF inv, of w Receiving Head] set_phase_from [OF exited_inv(2) [OF inv, where b = True], where w = w and q = Receiving and p = Ended] en
    by (auto simp: work_no_message_def)
next
  case (Take w r)
  with en obtain x f where x: "wstore mt w = Some x" "phase x = Received f" by auto
  have "\<exists>mt' ws'. work_take w f r mt = Some mt' \<and> pool_inv mt' ws'"
    by (rule work_take_inv [OF inv x]) (use en Take in auto)
  then show ?thesis using Take x by (simp add: received_def)
next
  case (Finish w)
  with en obtain x f where x: "wstore mt w = Some x" "phase x = Processing f" by auto
  from work_done_inv [OF inv x] show ?thesis using Finish x by (simp add: received_def)
next
  case (Leave w)
  then obtain x where "leaving mt w = Some x" using en by auto
  from leave_inv [OF inv this] show ?thesis unfolding Leave by auto
next
  case (Cancelled w)
  then show ?thesis using set_phase_from [OF inv, of w Receiving Ended] en by simp
next
  case Join
  then show ?thesis using join_inv [OF inv] en by simp
qed (use inv exited_inv [OF inv] in auto)

lemma loop_start_inv:
  assumes "w \<noteq> MAIN"
  shows "\<exists>mt. fuse_loop_start_thread (Created w cl) (loop_start l clone idle threads) = Some (True, mt) \<and> pool_inv mt [w]"
proof -
  let ?l = "wlinks (loop_start l clone idle threads)"
  have "is_list ?l MAIN []" by (simp add: alone_is_list alone_def loop_start_def)
  from workers.add_list [OF this, of w] have "is_list (list_add_worker w MAIN ?l) MAIN [w]" using assms by simp
  then show ?thesis using assms
    by (auto simp: fuse_loop_start_thread_def Let_def link_worker_def wlive_def loop_start_def pool_inv_def workers_ok_def counts_ok_def
        leaving_chans_def available_def busy_def)
qed

lemma pool_reaches_inv: "pool_reaches l clone idle threads mt \<Longrightarrow> \<exists>ws. pool_inv mt ws"
proof (induction rule: pool_reaches.induct)
  case (start w cl ok mt)
  then show ?case using loop_start_inv [of w cl l clone idle threads] by auto
next
  case (step mt a mt')
  then show ?case using pool_step_inv by fastforce
qed

definition same_config :: "fuse_mt \<Rightarrow> fuse_mt \<Rightarrow> bool" where
  "same_config mt mt' \<longleftrightarrow> max_idle mt' = max_idle mt \<and> max_threads mt' = max_threads mt \<and>
     (exited mt \<longrightarrow> exited mt') \<and> (mt_exit mt' \<longrightarrow> mt_exit mt \<or> exited mt')"

lemma config_simps:
  "set_phase w p mt = Some mt' \<Longrightarrow> same_config mt mt'"
  "link_worker w mt = Some mt' \<Longrightarrow> same_config mt mt'"
  "unlink_worker w mt = Some mt' \<Longrightarrow> same_config mt mt'"
  "free_worker w mt = Some mt' \<Longrightarrow> same_config mt mt'"
  "retire_worker w mt = Some mt' \<Longrightarrow> same_config mt mt'"
  unfolding same_config_def
  by (cases "wstore mt w"; simp add: set_phase_def link_worker_def unlink_worker_def free_worker_def retire_worker_def split: if_split_asm; hypsubst; simp)+

lemma leave_config: "work_leave w mt = Some mt' \<Longrightarrow> same_config mt mt'"
  by (auto simp: work_leave_def same_config_def)

lemma config_updates:
  "same_config mt mt"
  "same_config (mt\<lparr>numavail := n\<rparr>) mt' \<longleftrightarrow> same_config mt mt'"
  "same_config (mt\<lparr>numworker := n\<rparr>) mt' \<longleftrightarrow> same_config mt mt'"
  "same_config (mt\<lparr>wstore := st\<rparr>) mt' \<longleftrightarrow> same_config mt mt'"
  "same_config (mt\<lparr>clone_fd := b\<rparr>) mt' \<longleftrightarrow> same_config mt mt'"
  "same_config (mt\<lparr>open_chans := k\<rparr>) mt' \<longleftrightarrow> same_config mt mt'"
  "same_config mt (mt'\<lparr>numavail := n\<rparr>) \<longleftrightarrow> same_config mt mt'"
  "same_config mt (mt'\<lparr>numworker := n\<rparr>) \<longleftrightarrow> same_config mt mt'"
  "same_config mt (mt'\<lparr>clone_fd := b\<rparr>) \<longleftrightarrow> same_config mt mt'"
  "same_config mt (mt'\<lparr>start_failed := b\<rparr>) \<longleftrightarrow> same_config mt mt'"
  by (simp_all add: same_config_def)

lemma config_trans: "same_config mt mt' \<Longrightarrow> same_config mt' mt'' \<Longrightarrow> same_config mt mt''"
  by (auto simp: same_config_def)

lemma start_config: "fuse_loop_start_thread r mt = Some (ok, mt') \<Longrightarrow> same_config mt mt'"
  by (cases r) (auto simp: fuse_loop_start_thread_def Let_def bind_eq_Some_conv config_updates dest!: config_simps)

lemma take_config:
  assumes "work_take w f r mt = Some mt'"
  shows "same_config mt mt'"
proof (cases "mt_exit mt")
  case True
  then show ?thesis using assms by (auto simp: work_take_def dest: config_simps)
next
  case False
  define m where "m = (if f then mt else mt\<lparr>numavail := numavail mt - 1\<rparr>)"
  have "(if numavail m = 0 \<and> numworker m < max_threads m then map_option snd (fuse_loop_start_thread r m) else Some m) \<bind>
      set_phase w (Processing f) = Some mt'"
    using assms False unfolding work_take_def Let_def m_def by simp
  then obtain mt2 where 2: "(if numavail m = 0 \<and> numworker m < max_threads m then map_option snd (fuse_loop_start_thread r m) else Some m) = Some mt2"
    "set_phase w (Processing f) mt2 = Some mt'" by (auto simp: bind_eq_Some_conv)
  have "same_config m mt2"
  proof (cases "numavail m = 0 \<and> numworker m < max_threads m")
    case True
    then obtain ok where "fuse_loop_start_thread r m = Some (ok, mt2)" using 2(1) by auto
    then show ?thesis by (rule start_config)
  qed (use 2(1) config_updates(1) in auto)
  from config_trans [OF this config_simps(1) [OF 2(2)]] show ?thesis by (simp add: m_def config_updates split: if_splits)
qed

lemma done_config:
  assumes "work_done w f mt = Some mt'"
  shows "same_config mt mt'"
proof -
  define m where "m = (if f then mt else mt\<lparr>numavail := numavail mt + 1\<rparr>)"
  have "(if max_idle m \<noteq> -1 \<and> numavail m > max_idle m \<and> numworker m > 1 then
      if mt_exit m then set_phase w Ended m
      else unlink_worker w m \<bind> (\<lambda>mt2. retire_worker w (mt2\<lparr>numavail := numavail mt2 - 1, numworker := numworker mt2 - 1\<rparr>))
    else set_phase w Head m) = Some mt'"
    using assms unfolding work_done_def Let_def m_def .
  then consider p where "set_phase w p m = Some mt'"
    | mt2 where "unlink_worker w m = Some mt2" "retire_worker w (mt2\<lparr>numavail := numavail mt2 - 1, numworker := numworker mt2 - 1\<rparr>) = Some mt'"
    by (auto simp: bind_eq_Some_conv split: if_splits)
  then have "same_config m mt'"
  proof cases
    case 2
    then show ?thesis using config_trans [OF config_simps(3) [OF 2(1)]] config_simps(5) [OF 2(2)] by (simp add: config_updates)
  qed (use config_simps(1) in blast)
  then show ?thesis by (simp add: m_def config_updates split: if_splits)
qed

lemma pool_step_config:
  assumes en: "pool_enabled a mt" and st: "pool_step a mt = Some mt'"
  shows "same_config mt mt'"
proof (cases a)
  case (Get_none w res)
  then consider "set_phase w Head mt = Some mt'"
    | "set_phase w Ended (mt\<lparr>exited := True, mt_error := (if res < 0 then res else mt_error mt)\<rparr>) = Some mt'"
    using st by (auto simp: work_no_message_def split: if_splits)
  then show ?thesis
  proof cases
    case 2
    from config_simps(1) [OF this] show ?thesis by (simp add: same_config_def)
  qed (rule config_simps(1))
next
  case (Leave w)
  then show ?thesis using st leave_config by simp
next
  case (Take w r)
  then show ?thesis using st take_config by (auto simp: bind_eq_Some_conv)
next
  case (Finish w)
  then show ?thesis using st done_config by (auto simp: bind_eq_Some_conv)
next
  case Join
  then obtain mt1 where "unlink_worker (nxt (wlinks mt) MAIN) mt = Some mt1" "free_worker (nxt (wlinks mt) MAIN) mt1 = Some mt'"
    using st by (auto simp: fuse_join_worker_def Let_def bind_eq_Some_conv)
  then show ?thesis using config_simps(3,4) config_trans by blast
qed (use st en config_simps(1) in \<open>auto simp: work_head_def same_config_def\<close>)

lemma pool_config: "pool_reaches l clone idle threads mt \<Longrightarrow> max_idle mt = idle \<and> max_threads mt = threads"
proof (induction rule: pool_reaches.induct)
  case (start w cl ok mt)
  then show ?case by (auto simp: fuse_loop_start_thread_def link_worker_def loop_start_def Let_def split: if_splits)
next
  case (step mt a mt')
  then show ?case using pool_step_config [OF step.hyps(2,3)] by (simp add: same_config_def)
qed

section \<open>What the pool guarantees\<close>

text \<open>
  C11: The worker threads never use a structure that was freed: whatever order the threads run in, and
  whichever starts of threads fail, every action they can take is carried out, joining included. While
  the main thread has not cancelled them there are between 1 and \<^verbatim>\<open>max_threads\<close> workers in the list, and
  the counters of the pool are right. When the list is empty, after the main thread has joined its
  workers, the only structures and channels left are those of workers that have taken themselves off
  the list before and are about to free themselves, which they can still do.
\<close>

theorem pool_never_wrong:
  assumes "pool_reaches l clone idle threads mt"
  shows "(\<forall>a. pool_enabled a mt \<longrightarrow> (\<exists>mt'. pool_step a mt = Some mt')) \<and>
    (\<not> mt_exit mt \<longrightarrow> numworker mt = int (card {w. wstore mt w \<noteq> None}) \<and> 1 \<le> numworker mt \<and> numworker mt \<le> max 1 threads \<and>
       numavail mt = int (card {w. wstore mt w \<noteq> None \<and> \<not> busy mt w})) \<and>
    (nxt (wlinks mt) MAIN = MAIN \<longrightarrow> wstore mt = (\<lambda>_. None) \<and> open_chans mt = card {w. \<exists>x. leaving mt w = Some x \<and> has_chan x} \<and>
       (\<forall>w. leaving mt w \<noteq> None \<longrightarrow> (\<exists>mt'. pool_step (Leave w) mt = Some mt' \<and> leaving mt' = (leaving mt)(w := None))))"
proof -
  obtain ws where inv: "pool_inv mt ws" using pool_reaches_inv [OF assms] by blast
  note D = pool_invD [OF inv]
  have sets: "{w. wstore mt w \<noteq> None} = set ws" "{w. wstore mt w \<noteq> None \<and> \<not> busy mt w} = set (filter (\<lambda>w. \<not> busy mt w) ws)"
    using D(2) by auto
  have cards: "card (set ws) = length ws" "card (set (filter (\<lambda>w. \<not> busy mt w) ws)) = length (filter (\<lambda>w. \<not> busy mt w) ws)"
    using distinct_card [OF D(3)] distinct_card [OF distinct_filter [OF D(3), of "\<lambda>w. \<not> busy mt w"]] by simp_all
  have "numworker mt = int (length ws) \<and> 1 \<le> numworker mt \<and> numworker mt \<le> max 1 threads \<and>
      numavail mt = int (length (filter (\<lambda>w. \<not> busy mt w) ws))" if "\<not> mt_exit mt"
    using inv that pool_config [OF assms] unfolding pool_inv_def counts_ok_def by auto
  moreover have "wstore mt = (\<lambda>_. None) \<and> open_chans mt = card {w. \<exists>x. leaving mt w = Some x \<and> has_chan x}" if "nxt (wlinks mt) MAIN = MAIN"
  proof -
    have "ws = []" using nxt_head [OF D(1)] D(4) that by (cases ws) auto
    then show ?thesis using inv D(2) by (auto simp: pool_inv_def workers_ok_def leaving_chans_def)
  qed
  moreover have "\<exists>mt'. pool_step (Leave w) mt = Some mt' \<and> leaving mt' = (leaving mt)(w := None)" if "leaving mt w \<noteq> None" for w
    using that by (cases "leaving mt w") (simp_all add: work_leave_def)
  moreover have "\<exists>mt'. pool_step a mt = Some mt'" if "pool_enabled a mt" for a using pool_step_inv [OF inv that] by blast
  ultimately show ?thesis unfolding sets cards by blast
qed

text \<open>A worker ends only when the session has exited.\<close>

lemma exit_means_exited: "pool_reaches l clone idle threads mt \<Longrightarrow> mt_exit mt \<Longrightarrow> exited mt"
proof (induction rule: pool_reaches.induct)
  case (start w cl ok mt)
  then show ?case by (auto simp: fuse_loop_start_thread_def link_worker_def loop_start_def Let_def split: if_splits)
next
  case (step mt a mt')
  then show ?case using pool_step_config [OF step.hyps(2,3)] by (auto simp: same_config_def)
qed

definition none_ended :: "fuse_mt \<Rightarrow> bool" where
  "none_ended mt \<longleftrightarrow> (\<forall>w x. wstore mt w = Some x \<longrightarrow> phase x \<noteq> Ended)"

lemma none_ended_updates:
  "none_ended (mt\<lparr>numavail := n\<rparr>) \<longleftrightarrow> none_ended mt" "none_ended (mt\<lparr>numworker := n\<rparr>) \<longleftrightarrow> none_ended mt"
  "none_ended (mt\<lparr>wlinks := l\<rparr>) \<longleftrightarrow> none_ended mt" "none_ended (mt\<lparr>clone_fd := b\<rparr>) \<longleftrightarrow> none_ended mt"
  "none_ended (mt\<lparr>open_chans := k\<rparr>) \<longleftrightarrow> none_ended mt" "none_ended (mt\<lparr>start_failed := b\<rparr>) \<longleftrightarrow> none_ended mt"
  by (simp_all add: none_ended_def)

lemma set_phase_none_ended: "set_phase w p mt = Some mt' \<Longrightarrow> none_ended mt \<Longrightarrow> p \<noteq> Ended \<Longrightarrow> none_ended mt'"
  by (auto simp: none_ended_def set_phase_def split: if_splits)

lemma start_thread_none_ended: "fuse_loop_start_thread r mt = Some (ok, mt') \<Longrightarrow> none_ended mt \<Longrightarrow> none_ended mt'"
  by (cases r) (auto simp: fuse_loop_start_thread_def link_worker_def none_ended_def Let_def split: if_splits)

lemma take_none_ended:
  assumes "work_take w f r mt = Some mt'" and "none_ended mt" and "\<not> mt_exit mt"
  shows "none_ended mt'"
proof -
  define m where "m = (if f then mt else mt\<lparr>numavail := numavail mt - 1\<rparr>)"
  have "(if numavail m = 0 \<and> numworker m < max_threads m then map_option snd (fuse_loop_start_thread r m) else Some m) \<bind>
      set_phase w (Processing f) = Some mt'"
    using assms(1,3) unfolding work_take_def Let_def m_def by simp
  then obtain mt2 where 2: "(if numavail m = 0 \<and> numworker m < max_threads m then map_option snd (fuse_loop_start_thread r m) else Some m) = Some mt2"
    "set_phase w (Processing f) mt2 = Some mt'" by (auto simp: bind_eq_Some_conv)
  have "none_ended m" using assms(2) by (simp add: m_def none_ended_updates)
  then have "none_ended mt2" using 2(1) by (auto split: if_splits dest: start_thread_none_ended)
  then show ?thesis using set_phase_none_ended [OF 2(2)] by simp
qed

lemma done_none_ended:
  assumes "work_done w f mt = Some mt'" and "none_ended mt" and "\<not> mt_exit mt"
  shows "none_ended mt'"
proof -
  define m where "m = (if f then mt else mt\<lparr>numavail := numavail mt + 1\<rparr>)"
  have m: "none_ended m" "\<not> mt_exit m" using assms(2,3) by (simp_all add: m_def none_ended_updates)
  have "(if max_idle m \<noteq> -1 \<and> numavail m > max_idle m \<and> numworker m > 1 then
      if mt_exit m then set_phase w Ended m
      else unlink_worker w m \<bind> (\<lambda>mt2. retire_worker w (mt2\<lparr>numavail := numavail mt2 - 1, numworker := numworker mt2 - 1\<rparr>))
    else set_phase w Head m) = Some mt'"
    using assms(1) unfolding work_done_def Let_def m_def .
  with m show ?thesis
    by (auto simp: bind_eq_Some_conv unlink_worker_def retire_worker_def none_ended_def set_phase_def split: if_splits)
qed

lemma running_none_ended: "pool_reaches l clone idle threads mt \<Longrightarrow> \<not> exited mt \<Longrightarrow> none_ended mt"
proof (induction rule: pool_reaches.induct)
  case (start w cl ok mt)
  then show ?case by (auto simp: fuse_loop_start_thread_def link_worker_def loop_start_def none_ended_def Let_def split: if_splits)
next
  case (step mt a mt')
  have ne: "\<not> exited mt" using step.prems pool_step_config [OF step.hyps(2,3)] by (auto simp: same_config_def)
  then have m: "none_ended mt" "\<not> mt_exit mt" using step.IH exit_means_exited [OF step.hyps(1)] by auto
  show ?case
  proof (cases a)
    case (Take w r)
    then show ?thesis using step.hyps(3) take_none_ended m by (auto simp: bind_eq_Some_conv)
  next
    case (Finish w)
    then show ?thesis using step.hyps(3) done_none_ended m by (auto simp: bind_eq_Some_conv)
  next
    case (Get_none w res)
    then show ?thesis using step.hyps(3) step.prems m
      by (auto simp: work_no_message_def set_phase_def none_ended_def split: if_splits)
  qed (use step.hyps(2,3) step.prems ne m in \<open>auto simp: work_head_def work_leave_def set_phase_def none_ended_def split: if_splits\<close>)
qed

text \<open>
  C19: Who listens. Unless idle workers are to be removed at once (\<^verbatim>\<open>max_idle\<close> is 0) or a thread could
  not be created, as long as the session has not exited the pool has \<^verbatim>\<open>max_threads\<close> workers, or one of
  its workers is on its way to the next message, waits for one, or has just got one (and will, before
  it works on it, start another thread if it is the last), or works on a \<^verbatim>\<open>FORGET\<close>. So a request other
  than a \<^verbatim>\<open>FORGET\<close> never keeps a pool that may still grow from listening; a \<^verbatim>\<open>FORGET\<close>, for which no thread
  is started, may do so until it is done.
\<close>

theorem pool_listens:
  assumes "pool_reaches l clone idle threads mt" and "idle = -1 \<or> 0 < idle" and "\<not> exited mt" and "\<not> start_failed mt"
  shows "(\<exists>w x. wstore mt w = Some x \<and> (phase x = Head \<or> phase x = Receiving \<or> (\<exists>f. phase x = Received f) \<or> phase x = Processing True)) \<or>
    threads \<le> numworker mt"
proof -
  obtain ws where inv: "pool_inv mt ws" using pool_reaches_inv [OF assms(1)] by blast
  have ex: "\<not> mt_exit mt" using exit_means_exited [OF assms(1)] assms(3) by blast
  have "1 \<le> numavail mt \<or> threads \<le> numworker mt"
    using inv assms(2,4) ex pool_config [OF assms(1)] by (auto simp: pool_inv_def available_def)
  moreover have "\<exists>w x. wstore mt w = Some x \<and> (phase x = Head \<or> phase x = Receiving \<or> (\<exists>f. phase x = Received f) \<or> phase x = Processing True)"
    if "1 \<le> numavail mt"
  proof -
    have "filter (\<lambda>w. \<not> busy mt w) ws \<noteq> []" using that inv ex by (auto simp: pool_inv_def counts_ok_def)
    then obtain w where "w \<in> set ws" "\<not> busy mt w" by (metis filter_False)
    then obtain x where x: "wstore mt w = Some x" "phase x \<noteq> Processing False" using pool_invD(2) [OF inv, of w] by (auto simp: busy_def)
    moreover have "phase x \<noteq> Ended" using running_none_ended [OF assms(1,3)] x(1) by (auto simp: none_ended_def)
    ultimately show ?thesis by (cases "phase x") auto
  qed
  ultimately show ?thesis by blast
qed

section \<open>Shutting down\<close>

fun weight :: "phase \<Rightarrow> nat" where
  "weight Head = 2" | "weight Receiving = 3" | "weight (Received f) = 2" | "weight (Processing f) = 3" | "weight Ended = 1"

definition work_left :: "fuse_mt \<Rightarrow> nat" where
  "work_left mt = (\<Sum>w | wstore mt w \<noteq> None. weight (phase (the (wstore mt w)))) + card {w. leaving mt w \<noteq> None}"

lemma finite_workers: "pool_inv mt ws \<Longrightarrow> finite {w. wstore mt w \<noteq> None}"
  using pool_invD(2) [of mt ws] by simp

lemma work_left_update:
  assumes fin: "finite {w. wstore mt w \<noteq> None}" and w: "wstore mt w = Some x" and st: "wstore mt' = (wstore mt)(w := y)" "leaving mt' = leaving mt"
    and le: "case y of None \<Rightarrow> True | Some z \<Rightarrow> weight (phase z) < weight (phase x)"
  shows "work_left mt' < work_left mt"
proof -
  let ?S = "{v. wstore mt v \<noteq> None} - {w}"
  let ?f = "\<lambda>m v. weight (phase (the (wstore m v)))"
  let ?c = "card {w. leaving mt w \<noteq> None}"
  have 1: "work_left mt = weight (phase x) + sum (?f mt) ?S + ?c"
    unfolding work_left_def using fin w by (subst sum.remove [of _ w]) auto
  have "sum (?f mt') ?S = sum (?f mt) ?S" by (rule sum.cong) (auto simp: st)
  moreover have "work_left mt' = (case y of None \<Rightarrow> 0 | Some z \<Rightarrow> weight (phase z)) + sum (?f mt') ?S + ?c"
  proof (cases y)
    case None
    then have "{v. wstore mt' v \<noteq> None} = ?S" by (auto simp: st)
    then show ?thesis using None st(2) by (simp add: work_left_def)
  next
    case (Some z)
    then have "{v. wstore mt' v \<noteq> None} = insert w ?S" by (auto simp: st)
    then have "work_left mt' = sum (?f mt') (insert w ?S) + ?c" by (simp only: work_left_def st(2))
    also have "sum (?f mt') (insert w ?S) = ?f mt' w + sum (?f mt') ?S" by (rule sum.insert) (use fin in auto)
    also have "?f mt' w = weight (phase z)" by (simp add: st Some)
    finally show ?thesis using Some by simp
  qed
  moreover have "0 < weight (phase x)" by (cases "phase x") auto
  ultimately show ?thesis using 1 le by (cases y) simp_all
qed

lemma shutdown_step:
  assumes fin: "finite {w. wstore mt w \<noteq> None}" "finite {w. leaving mt w \<noteq> None}" and ex: "mt_exit mt" "exited mt" and en: "pool_enabled a mt" and a: "a \<noteq> Exit"
    and st: "pool_step a mt = Some mt'"
  shows "work_left mt' < work_left mt"
proof (cases a)
  case (Pass w)
  then show ?thesis using en st ex work_left_update [OF fin(1), of w] by (auto simp: work_head_def set_phase_def)
next
  case (Get w f)
  then show ?thesis using en st work_left_update [OF fin(1), of w] by (auto simp: set_phase_def)
next
  case (Get_none w r)
  then show ?thesis using en st work_left_update [OF fin(1), of w] by (auto simp: work_no_message_def set_phase_def split: if_splits)
next
  case (Take w r)
  then show ?thesis using en st ex work_left_update [OF fin(1), of w] by (auto simp: work_take_def set_phase_def)
next
  case (Finish w)
  then show ?thesis using en st ex work_left_update [OF fin(1), of w] by (auto simp: work_done_def set_phase_def Let_def split: if_splits)
next
  case (Cancelled w)
  then show ?thesis using en st work_left_update [OF fin(1), of w] by (auto simp: set_phase_def)
next
  case Join
  then show ?thesis using st work_left_update [OF fin(1), of "nxt (wlinks mt) MAIN"]
    by (auto simp: fuse_join_worker_def Let_def bind_eq_Some_conv unlink_worker_def free_worker_def split: if_splits)
next
  case (Leave w)
  then have "leaving mt' = (leaving mt)(w := None)" "wstore mt' = wstore mt" "leaving mt w \<noteq> None"
    using st en by (auto simp: work_leave_def)
  then have "{v. leaving mt' v \<noteq> None} = {v. leaving mt v \<noteq> None} - {w}" "wstore mt' = wstore mt" "w \<in> {v. leaving mt v \<noteq> None}" by auto
  then show ?thesis using card_Diff1_less [OF fin(2)] by (simp add: work_left_def)
qed (use a en ex in auto)

text \<open>
  C20: Shutting down ends if the handlers do. Once the main thread has cancelled the workers, every
  further action of any thread (but repeating the exit) reduces the work that is left. While a worker
  is in the list, some action is possible, and one other than the end of a handler unless a worker is
  processing a request. So the main thread waits for ever for the workers to be joined only if the
  handler of some request never ends, since a worker cannot be cancelled there.
\<close>

theorem shutdown_ends:
  assumes "pool_reaches l clone idle threads mt" and "mt_exit mt"
  shows "(nxt (wlinks mt) MAIN \<noteq> MAIN \<longrightarrow>
      (\<exists>a. a \<noteq> Exit \<and> pool_enabled a mt \<and> ((\<forall>w x f. wstore mt w = Some x \<longrightarrow> phase x \<noteq> Processing f) \<longrightarrow> (\<forall>w. a \<noteq> Finish w)))) \<and>
    (\<forall>a mt'. a \<noteq> Exit \<and> pool_enabled a mt \<and> pool_step a mt = Some mt' \<longrightarrow> work_left mt' < work_left mt)"
proof -
  obtain ws where inv: "pool_inv mt ws" using pool_reaches_inv [OF assms(1)] by blast
  let ?w = "nxt (wlinks mt) MAIN"
  have "\<exists>a. a \<noteq> Exit \<and> pool_enabled a mt \<and> ((\<forall>w x f. wstore mt w = Some x \<longrightarrow> phase x \<noteq> Processing f) \<longrightarrow> (\<forall>w. a \<noteq> Finish w))"
    if "?w \<noteq> MAIN"
  proof -
    have "?w \<in> set ws" using nxt_head [OF pool_invD(1) [OF inv]] that by (cases ws) auto
    then obtain x where x: "wstore mt ?w = Some x" using pool_invD(2) [OF inv, of ?w] by auto
    define a where "a = (case phase x of Head \<Rightarrow> Pass ?w | Receiving \<Rightarrow> Cancelled ?w | Received f \<Rightarrow> Take ?w No_memory
        | Processing f \<Rightarrow> Finish ?w | Ended \<Rightarrow> Join)"
    have "pool_enabled a mt" using x assms(2) that by (simp add: a_def split: phase.split)
    moreover have "a \<noteq> Exit" "a = Finish w \<Longrightarrow> \<exists>f. phase x = Processing f" for w by (simp_all add: a_def split: phase.splits)
    ultimately show ?thesis using x by blast
  qed
  moreover have "finite {w. leaving mt w \<noteq> None}" using inv by (simp add: pool_inv_def workers_ok_def)
  ultimately show ?thesis
    using shutdown_step [OF finite_workers [OF inv] _ assms(2) exit_means_exited [OF assms]] by blast
qed

section \<open>Example runs\<close>

definition no_links :: links where "no_links = \<lparr>nxt = (\<lambda>_. 0), prv = (\<lambda>_. 0)\<rparr>"

fun pool_run :: "pool_action list \<Rightarrow> fuse_mt \<Rightarrow> fuse_mt option" where
  "pool_run [] mt = Some mt"
| "pool_run (a # as) mt = (if pool_enabled a mt then do {mt' \<leftarrow> pool_step a mt; pool_run as mt'} else None)"

lemma pool_run_reaches: "pool_run as mt = Some mt' \<Longrightarrow> pool_reaches l clone idle threads mt \<Longrightarrow> pool_reaches l clone idle threads mt'"
  by (induction as arbitrary: mt) (auto simp: bind_eq_Some_conv split: if_splits intro: pool_reaches.step)

definition first_worker :: "int \<Rightarrow> int \<Rightarrow> fuse_mt" where
  "first_worker idle threads = snd (the (fuse_loop_start_thread (Created 1 False) (loop_start no_links False idle threads)))"

lemma first_worker_reached: "pool_reaches no_links False idle threads (first_worker idle threads)"
  using loop_start_inv [of 1 False no_links False idle threads]
  by (auto intro!: pool_reaches.start [of 1 False] simp: first_worker_def MAIN_def)

lemmas pool_eval = first_worker_def fuse_loop_start_thread_def loop_start_def link_worker_def unlink_worker_def free_worker_def wlive_def MAIN_def
  no_links_def set_phase_def work_head_def work_take_def work_done_def work_leave_def retire_worker_def received_def list_add_worker_def list_del_worker_def fuse_join_worker_def

text \<open>Two workers; the first has taken itself off the list; the second is cancelled, ends and is joined.\<close>

definition joined_run :: "pool_action list" where
  "joined_run = [Pass 1, Get 1 False, Take 1 (Created 2 False), Pass 2, Get 2 False, Take 2 (Created 3 False), Finish 1, Finish 2,
     Exit, Cancel, Pass 3, Join]"

definition joined_pool :: fuse_mt where
  "joined_pool = the (pool_run joined_run (first_worker 1 3))"

lemma joined_pool_run: "pool_run joined_run (first_worker 1 3) = Some joined_pool"
proof -
  have "pool_run joined_run (first_worker 1 3) \<noteq> None" by code_simp
  then show ?thesis by (auto simp: joined_pool_def)
qed

theorem pool_listens_witness:
  "(\<exists>w x. wstore (first_worker 1 3) w = Some x \<and>
      (phase x = Head \<or> phase x = Receiving \<or> (\<exists>f. phase x = Received f) \<or> phase x = Processing True)) \<or> 3 \<le> numworker (first_worker 1 3)"
  by (rule pool_listens [OF first_worker_reached]) (simp_all add: pool_eval)

definition cancelled_pool :: fuse_mt where
  "cancelled_pool = the (pool_run [Pass 1, Exit, Cancel] (first_worker 1 3))"

lemma cancelled_pool_run: "pool_run [Pass 1, Exit, Cancel] (first_worker 1 3) = Some cancelled_pool"
  by (simp add: cancelled_pool_def pool_eval)

theorem shutdown_ends_witness:
  "(\<exists>a. a \<noteq> Exit \<and> (\<forall>w. a \<noteq> Finish w) \<and> pool_enabled a cancelled_pool) \<and> nxt (wlinks cancelled_pool) MAIN = 1"
proof -
  have "mt_exit cancelled_pool" "nxt (wlinks cancelled_pool) MAIN = 1" "nxt (wlinks cancelled_pool) MAIN \<noteq> MAIN"
    and idle: "\<And>w x f. wstore cancelled_pool w = Some x \<Longrightarrow> phase x \<noteq> Processing f"
    by (auto simp: cancelled_pool_def pool_eval split: if_splits)
  with shutdown_ends [OF pool_run_reaches [OF cancelled_pool_run first_worker_reached]] show ?thesis by blast
qed

theorem pool_never_wrong_witness:
  "nxt (wlinks joined_pool) MAIN = MAIN \<and> leaving joined_pool 1 \<noteq> None \<and>
   (\<exists>mt'. pool_step (Leave 1) joined_pool = Some mt' \<and> leaving mt' 1 = None)"
proof -
  have j: "nxt (wlinks joined_pool) MAIN = MAIN" "leaving joined_pool 1 \<noteq> None" by code_simp+
  with pool_never_wrong [OF pool_run_reaches [OF joined_pool_run first_worker_reached]] show ?thesis by fastforce
qed

definition starving_run :: "pool_action list" where
  "starving_run = [Pass 1, Get 1 False, Take 1 (Created 2 False), Pass 2, Get 2 False, Take 2 No_memory, Finish 1, Leave 1]"

definition starving_pool :: fuse_mt where
  "starving_pool = the (pool_run starving_run (first_worker 0 2))"

lemma starving_pool_run: "pool_run starving_run (first_worker 0 2) = Some starving_pool"
proof -
  have "pool_run starving_run (first_worker 0 2) \<noteq> None" by code_simp
  then show ?thesis by (auto simp: starving_pool_def)
qed

lemma starving_pool_state:
  "\<not> exited starving_pool" "\<not> mt_exit starving_pool" "\<not> start_failed starving_pool" "numworker starving_pool = 1" "max_threads starving_pool = 2"
  "map_option phase (wstore starving_pool 2) = Some (Processing False)"
  by code_simp+

text \<open>
  C40: With \<^verbatim>\<open>max_idle\<close> set to 0 the pool can be left without a listener. Two workers are busy in a pool
  of at most two; the first one finishes and removes itself, since it is idle, so that the only worker
  left is busy, although another one could be started: until it finishes no message is
  received, not even one that it waits for.
\<close>

theorem idle_zero_starves:
  "\<exists>mt w x. pool_reaches no_links False 0 2 mt \<and> \<not> exited mt \<and> \<not> start_failed mt \<and> numworker mt = 1 \<and> max_threads mt = 2 \<and>
     wstore mt = [w \<mapsto> x] \<and> phase x = Processing False"
proof -
  have r: "pool_reaches no_links False 0 2 starving_pool" by (rule pool_run_reaches [OF starving_pool_run first_worker_reached])
  obtain ws where inv: "pool_inv starving_pool ws" using pool_reaches_inv [OF r] by blast
  have "length ws = 1" "2 \<in> set ws"
    using inv pool_invD(2) [OF inv, of 2] starving_pool_state by (auto simp: pool_inv_def counts_ok_def)
  then have "ws = [2]" by (cases ws) auto
  then have none: "wstore starving_pool w = None" if "w \<noteq> 2" for w using pool_invD(2) [OF inv, of w] that by auto
  obtain x where x: "wstore starving_pool 2 = Some x" "phase x = Processing False" using starving_pool_state(6) by auto
  have "wstore starving_pool = [2 \<mapsto> x]" by (rule ext) (simp add: none x)
  with r x starving_pool_state show ?thesis by blast
qed

end
