(* ===== verification/FuserMount.thy ===== *)
theory FuserMount
  imports Prelude "HOL-Library.Sublist" "HOL-Library.Monad_Syntax"
begin

text \<open>
  The set-uid program that mounts file systems for users (\<^verbatim>\<open>util/fusermount.c\<close>): how the options
  of a user are split and checked, and which calls of \<^verbatim>\<open>mount\<close> are made with which flags and data. The
  results of the kernel are a parameter, and so are the user's name, the page size, and whether the kernel
  is one for which \<^verbatim>\<open>large_read\<close> is deprecated. Strings have no NUL.
\<close>

unbundle bit_operations_syntax

abbreviation comma :: char where "comma \<equiv> CHR 0x2C"
abbreviation backslash :: char where "backslash \<equiv> CHR 0x5C"

section \<open>Options with the prefix x-\<close>

fun split_opts :: "string \<Rightarrow> string list" where
  "split_opts [] = [[]]"
| "split_opts (c # s) = (if c = comma then [] # split_opts s else (case split_opts s of o1 # os \<Rightarrow> (c # o1) # os | [] \<Rightarrow> [[c]]))"

text \<open>
  \<^verbatim>\<open>extract_x_options\<close>: two buffers with the space that is left in them; the last option counts the
  NUL behind it. The result is \<open>Inl\<close> of the error, or the other options and those with the prefix.
\<close>

definition X_ENOMEM :: int where "X_ENOMEM = 12"
definition X_EIO :: int where "X_EIO = 5"

definition x_append :: "nat \<Rightarrow> string \<Rightarrow> nat \<Rightarrow> string \<times> int \<Rightarrow> (string \<times> int) option" where
  "x_append orig_len opt opt_len b =
     (case b of (buf, left) \<Rightarrow>
        let (buf1, left1) = (if left < int orig_len then (buf @ [comma], left - 1) else (buf, left)) in
        if left1 - int opt_len < 0 then None else Some (buf1 @ opt, left1 - int opt_len))"

fun x_loop :: "nat \<Rightarrow> string list \<Rightarrow> string \<times> int \<Rightarrow> string \<times> int \<Rightarrow> (string \<times> string) option" where
  "x_loop orig_len [] non_x x = Some (fst non_x, fst x)"
| "x_loop orig_len (opt # os) non_x x =
     (let opt_len = (if os = [] then length opt + 1 else length opt) in
      if prefix ''x-'' opt
      then (case x_append orig_len opt opt_len x of None \<Rightarrow> None | Some x' \<Rightarrow> x_loop orig_len os non_x x')
      else (case x_append orig_len opt opt_len non_x of None \<Rightarrow> None | Some non_x' \<Rightarrow> x_loop orig_len os non_x' x))"

definition extract_x_options :: "string \<Rightarrow> schedule \<Rightarrow> (int + string \<times> string) \<times> schedule" where
  "extract_x_options original m =
     (case alloc m of (ok1, m1) \<Rightarrow>
      case alloc m1 of (ok2, m2) \<Rightarrow>
        (if \<not> ok1 \<or> \<not> ok2 then Inl (- X_ENOMEM)
         else
           let orig_len = length original + 1 in
           case x_loop orig_len (split_opts original) ([], int orig_len) ([], int orig_len) of
             None \<Rightarrow> Inl (- X_EIO) | Some r \<Rightarrow> Inr r,
         m2))"

section \<open>Mount flags\<close>

definition MS_RDONLY :: u32 where "MS_RDONLY = 1"
definition MS_NOSUID :: u32 where "MS_NOSUID = 2"
definition MS_NODEV :: u32 where "MS_NODEV = 4"

text \<open>The option, its flag, whether it sets the flag, whether a user may give it.\<close>

definition mount_flags :: "(string \<times> u32 \<times> bool \<times> bool) list" where
  "mount_flags =
    [(''rw'', MS_RDONLY, False, True),
     (''ro'', MS_RDONLY, True, True),
     (''suid'', MS_NOSUID, False, False),
     (''nosuid'', MS_NOSUID, True, True),
     (''dev'', MS_NODEV, False, False),
     (''nodev'', MS_NODEV, True, True),
     (''exec'', 8, False, True),
     (''noexec'', 8, True, True),
     (''async'', 16, False, True),
     (''sync'', 16, True, True),
     (''atime'', 1024, False, True),
     (''noatime'', 1024, True, True),
     (''diratime'', 2048, False, True),
     (''nodiratime'', 2048, True, True),
     (''lazytime'', 0x2000000, True, True),
     (''nolazytime'', 0x2000000, False, True),
     (''relatime'', 0x200000, True, True),
     (''norelatime'', 0x200000, False, True),
     (''strictatime'', 0x1000000, True, True),
     (''nostrictatime'', 0x1000000, False, True),
     (''dirsync'', 128, True, True),
     (''symfollow'', 256, False, True),
     (''nosymfollow'', 256, True, True)]"

definition find_mount_flag :: "u32 \<Rightarrow> string \<Rightarrow> (bool \<times> u32) option" where
  "find_mount_flag uid s =
     (case map_of mount_flags s of
        None \<Rightarrow> None
      | Some (fl, on, safe) \<Rightarrow> Some (on, if \<not> safe \<and> uid \<noteq> 0 then 0 else fl))"

section \<open>Option strings\<close>

text \<open>\<open>None\<close> as argument is a null pointer in \<^verbatim>\<open>*optsp\<close>; as result it is the failure.\<close>

definition add_option :: "string option \<Rightarrow> string \<Rightarrow> schedule \<Rightarrow> string option \<times> schedule" where
  "add_option opts opt m =
     (case alloc m of (ok, m1) \<Rightarrow>
        (if \<not> ok then None else Some (case opts of None \<Rightarrow> opt | Some o1 \<Rightarrow> o1 @ comma # opt), m1))"

fun add_flags :: "u32 \<Rightarrow> (string \<times> u32 \<times> bool \<times> bool) list \<Rightarrow> string option \<Rightarrow> schedule \<Rightarrow> string option option \<times> schedule" where
  "add_flags fl [] opts m = (Some opts, m)"
| "add_flags fl ((opt, f, on, safe) # t) opts m =
     (if on \<and> fl AND f \<noteq> 0 then
        (case add_option opts opt m of (None, m1) \<Rightarrow> (None, m1) | (Some o1, m1) \<Rightarrow> add_flags fl t (Some o1) m1)
      else add_flags fl t opts m)"

text \<open>The options for the mount table; \<open>user\<close> is the name of the user, if there is one.\<close>

definition get_mnt_opts :: "u32 \<Rightarrow> string option \<Rightarrow> u32 \<Rightarrow> string \<Rightarrow> schedule \<Rightarrow> string option \<times> schedule" where
  "get_mnt_opts uid user fl opts m =
     (case (if fl AND MS_RDONLY = 0 then case add_option None ''rw'' m of (None, m1) \<Rightarrow> (None, m1) | (Some o1, m1) \<Rightarrow> (Some (Some o1), m1)
            else (Some None, m)) of
        (None, m1) \<Rightarrow> (None, m1)
      | (Some o1, m1) \<Rightarrow>
          (case add_flags fl mount_flags o1 m1 of
             (None, m2) \<Rightarrow> (None, m2)
           | (Some o2, m2) \<Rightarrow>
               (case add_option o2 opts m2 of
                  (None, m3) \<Rightarrow> (None, m3)
                | (Some o3, m3) \<Rightarrow>
                    let o4 = (if o3 \<noteq> [] \<and> last o3 = comma then butlast o3 else o3) in
                    if uid = 0 then (Some o4, m3)
                    else (case user of
                            None \<Rightarrow> (None, m3)
                          | Some u \<Rightarrow> (case add_option (Some o4) ''user='' m3 of (None, m4) \<Rightarrow> (None, m4) | (Some o5, m4) \<Rightarrow> (Some (o5 @ u), m4))))))"

text \<open>\<^verbatim>\<open>get_string_opt\<close> without its prefix: a backslash before another character is dropped.\<close>

fun unescape_value :: "string \<Rightarrow> string" where
  "unescape_value [] = []"
| "unescape_value [c] = [c]"
| "unescape_value (c # d # s) = (if c = backslash then d # unescape_value s else c # unescape_value (d # s))"

definition get_string_opt :: "string \<Rightarrow> string \<Rightarrow> schedule \<Rightarrow> string option \<times> schedule" where
  "get_string_opt s opt m = (case alloc m of (ok, m1) \<Rightarrow> (if ok then Some (unescape_value (drop (length opt) s)) else None, m1))"

section \<open>Mounting\<close>

text \<open>The length of the option at the start of the string.\<close>

fun opt_length :: "bool \<Rightarrow> string \<Rightarrow> nat" where
  "opt_length escape_ok [] = 0"
| "opt_length escape_ok [c] = (if c = comma then 0 else 1)"
| "opt_length escape_ok (c # d # s) =
     (if escape_ok \<and> c = backslash then 2 + opt_length escape_ok s
      else if c = comma then 0 else 1 + opt_length escape_ok (d # s))"

record mount_opts =
  mo_flags :: u32
  mo_data :: string
  mo_fsname :: "string option"
  mo_subtype :: "string option"
  mo_blkdev :: bool
  mo_auto_unmount :: bool

text \<open>Who calls the program, and what its configuration file and the system say.\<close>

record caller =
  c_uid :: u32
  c_gid :: u32
  c_user :: "string option"
  user_allow_other :: bool
  large_read_deprecated :: bool
  page_size :: nat

datatype step_result = Failed | Exits | Continue mount_opts schedule

definition kept_options :: "string list" where
  "kept_options = [''default_permissions'', ''allow_other'']"

definition kept_prefixes :: "string list" where
  "kept_prefixes = [''max_read='', ''blksize='']"

definition dropped_prefixes :: "string list" where
  "dropped_prefixes = [''fd='', ''rootmode='', ''user_id='', ''group_id='']"

definition begins_with :: "string \<Rightarrow> string \<Rightarrow> bool" where
  "begins_with s beg \<longleftrightarrow> prefix beg s"

text \<open>One turn of the loop of \<^verbatim>\<open>do_mount\<close>: \<open>s\<close> is the rest of the options, \<open>opt\<close> its first option.\<close>

definition mount_option :: "caller \<Rightarrow> string \<Rightarrow> string \<Rightarrow> mount_opts \<Rightarrow> schedule \<Rightarrow> step_result" where
  "mount_option c s opt mo m =
     (if begins_with s ''fsname='' then
        (case get_string_opt opt ''fsname='' m of (None, m1) \<Rightarrow> Failed | (Some v, m1) \<Rightarrow> Continue (mo\<lparr>mo_fsname := Some v\<rparr>) m1)
      else if begins_with s ''subtype='' then
        (case get_string_opt opt ''subtype='' m of (None, m1) \<Rightarrow> Failed | (Some v, m1) \<Rightarrow> Continue (mo\<lparr>mo_subtype := Some v\<rparr>) m1)
      else if opt = ''blkdev'' then (if c_uid c \<noteq> 0 then Failed else Continue (mo\<lparr>mo_blkdev := True\<rparr>) m)
      else if opt = ''auto_unmount'' then Continue (mo\<lparr>mo_auto_unmount := True\<rparr>) m
      else if opt \<noteq> ''nonempty'' \<and> (\<forall>p \<in> set dropped_prefixes. \<not> begins_with s p) then
        if c_uid c \<noteq> 0 \<and> \<not> user_allow_other c \<and> (opt = ''allow_other'' \<or> opt = ''allow_root'') then Failed
        else if opt = ''large_read'' \<and> large_read_deprecated c then Continue mo m
        else (case find_mount_flag (c_uid c) opt of
                Some (on, fl) \<Rightarrow> Continue (mo\<lparr>mo_flags := (if on then mo_flags mo OR fl else mo_flags mo AND NOT fl)\<rparr>) m
              | None \<Rightarrow>
                  if opt \<in> set kept_options \<or> (\<exists>p \<in> set kept_prefixes. begins_with s p)
                  then Continue (mo\<lparr>mo_data := mo_data mo @ opt @ [comma]\<rparr>) m
                  else Exits)
      else Continue mo m)"

lemma opt_length_le: "opt_length e s \<le> length s"
  by (induction e s rule: opt_length.induct) auto

function mount_loop :: "caller \<Rightarrow> string \<Rightarrow> mount_opts \<Rightarrow> schedule \<Rightarrow> step_result" where
  "mount_loop c s mo m =
     (if s = [] then Continue mo m
      else
        let len = opt_length (begins_with s ''fsname='' \<or> begins_with s ''subtype='') s in
        case mount_option c s (take len s) mo m of
          Continue mo' m' \<Rightarrow> mount_loop c (drop (len + 1) s) mo' m'
        | r \<Rightarrow> r)"
  by pat_completeness auto
termination
  by (relation "measure (\<lambda>(c, s, mo, m). length s)") auto

declare mount_loop.simps [simp del]

fun digits :: "nat \<Rightarrow> nat \<Rightarrow> nat \<Rightarrow> string" where
  "digits base 0 n = []"
| "digits base (Suc k) n = (if n < base then [char_of (48 + n)] else digits base k (n div base) @ [char_of (48 + n mod base)])"

text \<open>Printing a number in base 8 or 10: 64 digits are enough for a word.\<close>

definition show_nat :: "nat \<Rightarrow> nat \<Rightarrow> string" where
  "show_nat base n = digits base 64 n"

record mount_call =
  mc_source :: string
  mc_type :: string
  mc_flags :: u32
  mc_data :: string

definition fd_data :: "caller \<Rightarrow> nat \<Rightarrow> u32 \<Rightarrow> bool \<Rightarrow> string" where
  "fd_data c fd rootmode with_gid =
     ''fd='' @ show_nat 10 fd @ '',rootmode='' @ show_nat 8 (unat rootmode) @ '',user_id='' @ show_nat 10 (unat (c_uid c)) @
     (if with_gid then '',group_id='' @ show_nat 10 (unat (c_gid c)) else [])"

text \<open>
  The calls of \<^verbatim>\<open>mount\<close> in order, given the error numbers of the kernel (0 for success) for the first, second and
  third call; data that would be cut off is not sent. The source and the type of a mount that succeeded come first.
\<close>

definition M_EINVAL :: int where "M_EINVAL = 22"
definition M_ENODEV :: int where "M_ENODEV = 19"

definition mount_notrunc :: "caller \<Rightarrow> mount_call \<Rightarrow> int \<Rightarrow> int \<times> mount_call list" where
  "mount_notrunc c call k = (if length (mc_data call) > page_size c - 1 then (M_EINVAL, []) else (k, [call]))"

definition mount_calls :: "caller \<Rightarrow> mount_opts \<Rightarrow> string \<Rightarrow> nat \<Rightarrow> u32 \<Rightarrow> int \<Rightarrow> int \<Rightarrow> int \<Rightarrow> (string \<times> string) option \<times> mount_call list" where
  "mount_calls c mo dev fd rootmode k1 k2 k3 =
     (let base = (if mo_blkdev mo then ''fuseblk'' else ''fuse'');
          type1 = (case mo_subtype mo of Some st \<Rightarrow> base @ ''.'' @ st | None \<Rightarrow> base);
          source1 = (case mo_fsname mo of Some n \<Rightarrow> n | None \<Rightarrow> (case mo_subtype mo of Some st \<Rightarrow> st | None \<Rightarrow> dev));
          call1 = \<lparr>mc_source = source1, mc_type = type1, mc_flags = mo_flags mo, mc_data = mo_data mo @ fd_data c fd rootmode True\<rparr>;
          (r1, cs1) = mount_notrunc c call1 k1;
          source2 = (case mo_fsname mo of
              Some n \<Rightarrow> if mo_blkdev mo then source1 else (case mo_subtype mo of Some st \<Rightarrow> st @ ''#'' @ n | None \<Rightarrow> source1)
            | None \<Rightarrow> base);
          again = (r1 = M_ENODEV \<and> mo_subtype mo \<noteq> None);
          call2 = (if again then call1\<lparr>mc_source := source2, mc_type := base\<rparr> else call1);
          (r2, cs2) = (if again then mount_notrunc c call2 k2 else (r1, []));
          (r3, cs3) = (if r2 = M_EINVAL then mount_notrunc c (call2\<lparr>mc_data := mo_data mo @ fd_data c fd rootmode False\<rparr>) k3 else (r2, [])) in
      (if r3 = 0 then Some (mc_source call2, mc_type call2) else None, cs1 @ cs2 @ cs3))"

definition do_mount ::
  "caller \<Rightarrow> string \<Rightarrow> string \<Rightarrow> nat \<Rightarrow> u32 \<Rightarrow> schedule \<Rightarrow> int \<Rightarrow> int \<Rightarrow> int \<Rightarrow> (string \<times> string \<times> string) option \<times> mount_call list" where
  "do_mount c opts dev fd rootmode m k1 k2 k3 =
     (case alloc m of (ok, m1) \<Rightarrow>
        if \<not> ok then (None, [])
        else case mount_loop c opts \<lparr>mo_flags = MS_NOSUID OR MS_NODEV, mo_data = [], mo_fsname = None, mo_subtype = None,
                   mo_blkdev = False, mo_auto_unmount = False\<rparr> m1 of
          Failed \<Rightarrow> (None, [])
        | Exits \<Rightarrow> (None, [])
        | Continue mo m2 \<Rightarrow>
            (case get_mnt_opts (c_uid c) (c_user c) (mo_flags mo) (mo_data mo) m2 of
               (None, m3) \<Rightarrow> (None, [])
             | (Some mnt_opts, m3) \<Rightarrow>
                 case alloc m3 of (ok1, m4) \<Rightarrow>
                 case alloc m4 of (ok2, m5) \<Rightarrow>
                   if \<not> ok1 \<or> \<not> ok2 then (None, [])
                   else case mount_calls c mo dev fd rootmode k1 k2 k3 of (r, cs) \<Rightarrow>
                     (map_option (\<lambda>(source, type). (source, type, mnt_opts)) r, cs)))"

section \<open>What a user can have mounted\<close>

definition kept_option :: "string \<Rightarrow> bool" where
  "kept_option u \<longleftrightarrow> comma \<notin> set u \<and> (u \<in> set kept_options \<or> (\<exists>p \<in> set kept_prefixes. prefix p u))"

definition protected :: "u32 \<Rightarrow> bool" where
  "protected fl \<longleftrightarrow> fl AND (MS_NOSUID OR MS_NODEV) = MS_NOSUID OR MS_NODEV"

definition joined :: "string list \<Rightarrow> string" where
  "joined us = concat (map (\<lambda>u. u @ [comma]) us)"

definition opts_ok :: "caller \<Rightarrow> mount_opts \<Rightarrow> string list \<Rightarrow> bool" where
  "opts_ok c mo us \<longleftrightarrow> (c_uid c \<noteq> 0 \<longrightarrow> protected (mo_flags mo) \<and> \<not> mo_blkdev mo) \<and> mo_data mo = joined us \<and>
     (\<forall>u \<in> set us. kept_option u \<and> (u = ''allow_other'' \<longrightarrow> c_uid c = 0 \<or> user_allow_other c))"

lemma protected_bits: "protected fl \<longleftrightarrow> bit fl 1 \<and> bit fl 2"
proof -
  have bits: "bit (MS_NOSUID OR MS_NODEV) n \<longleftrightarrow> n = 1 \<or> n = 2" for n :: nat
    by (cases n rule: nat.exhaust) (auto simp: MS_NOSUID_def MS_NODEV_def bit_numeral_rec bit_1_iff split: nat.splits)
  show ?thesis
  proof
    assume "protected fl"
    then have "bit (fl AND (MS_NOSUID OR MS_NODEV)) n \<longleftrightarrow> n = 1 \<or> n = 2" for n :: nat
      unfolding protected_def by (simp only: bits)
    then have "bit fl n" if "n = 1 \<or> n = 2" for n :: nat using that by (simp only: bit_and_iff) blast
    then show "bit fl 1 \<and> bit fl 2" by blast
  next
    assume "bit fl 1 \<and> bit fl 2"
    then show "protected fl" unfolding protected_def by (intro bit_eqI) (auto simp only: bit_and_iff bits)
  qed
qed

lemma user_flag_harmless:
  assumes "find_mount_flag uid s = Some (False, fl)" and "uid \<noteq> 0"
  shows "\<not> bit fl 1" "\<not> bit fl 2"
  using assms by (auto simp: find_mount_flag_def mount_flags_def MS_RDONLY_def MS_NOSUID_def MS_NODEV_def bit_numeral_rec split: if_splits option.splits prod.splits)

lemma opt_length_plain: "comma \<notin> set (take (opt_length False s) s)"
  by (induction "False" s rule: opt_length.induct) auto

lemma prefix_take_opt:
  "prefix p s \<Longrightarrow> comma \<notin> set p \<Longrightarrow> prefix p (take (opt_length False s) s)"
proof (induction p arbitrary: s)
  case (Cons a p)
  then obtain s' where s: "s = a # s'" and p: "prefix p s'" by (cases s) auto
  with Cons.prems Cons.IH[OF p] show ?case by (cases s') auto
qed simp

lemma split_opts_no_comma: "comma \<notin> set u \<Longrightarrow> split_opts u = [u]"
  by (induction u) auto

lemma split_opts_ne [simp]: "split_opts s \<noteq> []"
  by (induction s) (auto split: list.splits)

lemma split_opts_append: "comma \<notin> set u \<Longrightarrow> split_opts (u @ comma # s) = u # split_opts s"
  by (induction u) auto

lemma split_joined: "(\<And>u. u \<in> set us \<Longrightarrow> comma \<notin> set u) \<Longrightarrow> split_opts (joined us @ s) = us @ split_opts s"
  by (induction us) (auto simp: joined_def split_opts_append)

lemma char_of_comma: "n < 10 \<Longrightarrow> char_of (48 + n :: nat) \<noteq> comma"
proof
  assume "n < 10" and "char_of (48 + n) = comma"
  then have "of_char (char_of (48 + n :: nat)) = (44 :: nat)" by simp
  with \<open>n < 10\<close> show False by simp
qed

lemma digits_no_comma: "0 < base \<Longrightarrow> base \<le> 10 \<Longrightarrow> comma \<notin> set (digits base k n)"
proof (induction k arbitrary: n)
  case (Suc k)
  moreover have "n mod base < 10" using Suc.prems mod_less_divisor[of base n] by linarith
  ultimately show ?case using char_of_comma[of n] char_of_comma[of "n mod base"] by auto
qed simp

lemma show_nat_no_comma [simp]: "comma \<notin> set (show_nat 10 n)" "comma \<notin> set (show_nat 8 n)"
  by (simp_all add: show_nat_def digits_no_comma)

lemma take_opt_cases:
  assumes "\<not> begins_with s ''fsname=''" "\<not> begins_with s ''subtype=''" "p \<in> set kept_prefixes" "begins_with s p"
  shows "prefix p (take (opt_length False s) s)"
  using assms by (intro prefix_take_opt) (auto simp: kept_prefixes_def begins_with_def)

lemma mount_option_cases:
  assumes "mount_option c s opt mo m = Continue mo' m'" "\<not> begins_with s ''fsname=''" "\<not> begins_with s ''subtype=''"
  obtains (other) "mo' = mo \<or> mo' = mo\<lparr>mo_auto_unmount := True\<rparr> \<or> c_uid c = 0 \<and> mo' = mo\<lparr>mo_blkdev := True\<rparr>"
  | (flag) on fl where "find_mount_flag (c_uid c) opt = Some (on, fl)"
      "mo' = mo\<lparr>mo_flags := (if on then mo_flags mo OR fl else mo_flags mo AND NOT fl)\<rparr>"
  | (keep) "opt \<in> set kept_options \<or> (\<exists>p \<in> set kept_prefixes. begins_with s p)"
      "opt = ''allow_other'' \<longrightarrow> c_uid c = 0 \<or> user_allow_other c" "mo' = mo\<lparr>mo_data := mo_data mo @ opt @ [comma]\<rparr>"
  using assms unfolding mount_option_def by (simp split: if_splits option.splits prod.splits; blast)

lemma mount_option_ok:
  assumes ok: "opts_ok c mo us"
    and step: "mount_option c s (take len s) mo m = Continue mo' m'"
    and len: "len = opt_length (begins_with s ''fsname='' \<or> begins_with s ''subtype='') s"
  shows "\<exists>us'. opts_ok c mo' us' \<and> length (mo_data mo') \<le> length (mo_data mo) + len + 1"
proof (cases "begins_with s ''fsname='' \<or> begins_with s ''subtype=''")
  case True
  with ok step show ?thesis
    by (auto simp: mount_option_def opts_ok_def split: if_splits option.splits prod.splits)
next
  case False
  then have len': "len = opt_length False s" by (simp add: len)
  have plain: "comma \<notin> set (take len s)" by (simp add: len' opt_length_plain)
  from False have no: "\<not> begins_with s ''fsname=''" "\<not> begins_with s ''subtype=''" by simp_all
  from step no show ?thesis
  proof (cases rule: mount_option_cases)
    case other
    with ok show ?thesis by (auto simp: opts_ok_def)
  next
    case (flag on fl)
    with ok user_flag_harmless[of "c_uid c" "take len s" fl] have "opts_ok c mo' us"
      by (cases on) (auto simp: opts_ok_def protected_bits bit_or_iff bit_and_iff bit_not_iff)
    with flag show ?thesis by auto
  next
    case keep
    with ok plain no take_opt_cases[of s] have "opts_ok c mo' (us @ [take len s])"
      by (auto simp: opts_ok_def kept_option_def joined_def len')
    with keep show ?thesis by (auto intro!: exI[of _ "us @ [take len s]"])
  qed
qed

lemma mount_loop_ok:
  "mount_loop c s mo m = Continue mo' m' \<Longrightarrow> opts_ok c mo us \<Longrightarrow>
   \<exists>us'. opts_ok c mo' us' \<and> length (mo_data mo') \<le> length (mo_data mo) + length s + 1"
proof (induction c s mo m arbitrary: us rule: mount_loop.induct)
  case (1 c s mo m)
  define len where "len = opt_length (begins_with s ''fsname='' \<or> begins_with s ''subtype='') s"
  show ?case
  proof (cases "s = []")
    case True
    with "1.prems" show ?thesis by (auto simp: mount_loop.simps)
  next
    case False
    with "1.prems"(1) obtain mo1 m1 where step: "mount_option c s (take len s) mo m = Continue mo1 m1"
      and rest: "mount_loop c (drop (len + 1) s) mo1 m1 = Continue mo' m'"
      by (auto simp: mount_loop.simps[of c s] Let_def len_def[symmetric] split: step_result.splits)
    obtain us1 where us1: "opts_ok c mo1 us1" "length (mo_data mo1) \<le> length (mo_data mo) + len + 1"
      using mount_option_ok[OF "1.prems"(2) step len_def] by blast
    obtain us2 where us2: "opts_ok c mo' us2" "length (mo_data mo') \<le> length (mo_data mo1) + length (drop (len + 1) s) + 1"
      using "1.IH"[OF False len_def step rest us1(1)] by blast
    have "length (mo_data mo') \<le> length (mo_data mo) + length s + 1"
    proof (cases "len < length s")
      case True
      with us1 us2 show ?thesis by simp
    next
      case False
      with rest have "mo' = mo1" by (simp add: mount_loop.simps)
      moreover have "len \<le> length s" by (simp add: len_def opt_length_le)
      ultimately show ?thesis using us1 by simp
    qed
    with us2 show ?thesis by blast
  qed
qed

text \<open>The data of every call of \<^verbatim>\<open>mount\<close>.\<close>

definition identity_options :: "caller \<Rightarrow> nat \<Rightarrow> u32 \<Rightarrow> bool \<Rightarrow> string list" where
  "identity_options c fd rootmode with_gid =
     [''fd='' @ show_nat 10 fd, ''rootmode='' @ show_nat 8 (unat rootmode), ''user_id='' @ show_nat 10 (unat (c_uid c))] @
     (if with_gid then [''group_id='' @ show_nat 10 (unat (c_gid c))] else [])"

lemma split_fd_data: "split_opts (fd_data c fd rootmode g) = identity_options c fd rootmode g"
  by (cases g) (simp_all add: fd_data_def identity_options_def split_opts_append split_opts_no_comma)

lemma mount_calls_call:
  assumes "call \<in> set (snd (mount_calls c mo dev fd rootmode k1 k2 k3))"
  shows "mc_flags call = mo_flags mo" "\<exists>g. mc_data call = mo_data mo @ fd_data c fd rootmode g"
    "\<exists>t. mc_type call = (if mo_blkdev mo then ''fuseblk'' else ''fuse'') @ t \<and> (t = [] \<or> (\<exists>st. mo_subtype mo = Some st \<and> t = ''.'' @ st))"
    "length (mc_data call) \<le> page_size c - 1"
  using assms by (auto simp: mount_calls_def mount_notrunc_def Let_def split: if_splits option.splits)

lemma do_mount_call:
  assumes "call \<in> set (snd (do_mount c opts dev fd rootmode m k1 k2 k3))"
  obtains mo us where "opts_ok c mo us" "length (mo_data mo) \<le> length opts + 1"
    "call \<in> set (snd (mount_calls c mo dev fd rootmode k1 k2 k3))"
proof -
  have start: "opts_ok c \<lparr>mo_flags = MS_NOSUID OR MS_NODEV, mo_data = [], mo_fsname = None, mo_subtype = None,
                   mo_blkdev = False, mo_auto_unmount = False\<rparr> []"
    by (simp add: opts_ok_def protected_def joined_def)
  from assms obtain m1 mo m2 where "mount_loop c opts \<lparr>mo_flags = MS_NOSUID OR MS_NODEV, mo_data = [], mo_fsname = None, mo_subtype = None,
                   mo_blkdev = False, mo_auto_unmount = False\<rparr> m1 = Continue mo m2"
      and call: "call \<in> set (snd (mount_calls c mo dev fd rootmode k1 k2 k3))"
    by (auto simp: do_mount_def split: prod.splits if_splits step_result.splits option.splits)
  from mount_loop_ok[OF this(1) start] call that show ?thesis by auto
qed

lemma digits_length: "n < base ^ j \<Longrightarrow> 0 < j \<Longrightarrow> length (digits base k n) \<le> j"
proof (induction k arbitrary: n j)
  case (Suc k)
  show ?case
  proof (cases "n < base")
    case False
    with Suc.prems obtain j' where j: "j = Suc j'" "0 < j'" by (cases j; cases "j - 1") auto
    with Suc.prems have "n div base < base ^ j'"
      by (cases "base = 0") (auto simp: div_less_iff_less_mult mult.commute)
    from Suc.IH[OF this j(2)] False j show ?thesis by simp
  qed (use Suc.prems in simp)
qed simp

lemma fd_data_length:
  assumes "fd < 2 ^ 31"
  shows "length (fd_data c fd rootmode g) \<le> 73"
proof -
  have below: "unat w < 2 ^ LENGTH(32)" for w :: u32 by (rule unsigned_less)
  have "unat w < 10 ^ 10" for w :: u32 using below[of w] by simp
  then have w: "length (show_nat 10 (unat w)) \<le> 10" for w :: u32 unfolding show_nat_def by (rule digits_length) simp
  have "unat rootmode < 8 ^ 11" using below[of rootmode] by simp
  then have r: "length (show_nat 8 (unat rootmode)) \<le> 11" unfolding show_nat_def by (rule digits_length) simp
  have f: "length (show_nat 10 fd) \<le> 10" unfolding show_nat_def using assms by (intro digits_length) simp_all
  show ?thesis using f r w[of "c_uid c"] w[of "c_gid c"] by (simp add: fd_data_def)
qed

definition accepted :: "caller \<Rightarrow> string \<Rightarrow> bool" where
  "accepted c u \<longleftrightarrow> u = ''default_permissions'' \<or> u = ''allow_other'' \<and> (c_uid c = 0 \<or> user_allow_other c) \<or>
     prefix ''max_read='' u \<or> prefix ''blksize='' u"

lemma opts_ok_split:
  assumes "opts_ok c mo us"
  shows "list_all (accepted c) us" and "split_opts (mo_data mo @ t) = us @ split_opts t"
  using assms by (auto simp: opts_ok_def list_all_iff accepted_def kept_option_def kept_options_def kept_prefixes_def intro!: split_joined)

text \<open>
  C6: Whatever options a user who is not root gives, whatever allocations fail and whatever the kernel answers, every
  call of \<^verbatim>\<open>mount\<close> has the flags \<^verbatim>\<open>nosuid\<close> and \<^verbatim>\<open>nodev\<close> and does not ask for a block device; its
  data, split at the commas as the kernel does, are options of the list of accepted ones (\<^verbatim>\<open>allow_other\<close>
  only where the configuration file says so) and then the descriptor, the mode and the identity of the caller, so no
  option of the user stands for another identity.
\<close>

theorem user_mount_safe:
  assumes "call \<in> set (snd (do_mount c opts dev fd rootmode m k1 k2 k3))" and "c_uid c \<noteq> 0"
  shows "mc_flags call AND (MS_NOSUID OR MS_NODEV) = MS_NOSUID OR MS_NODEV \<and> \<not> prefix ''fuseblk'' (mc_type call) \<and>
    (\<exists>us with_gid. split_opts (mc_data call) = us @ identity_options c fd rootmode with_gid \<and> list_all (accepted c) us)"
proof -
  from assms(1) obtain mo us where ok: "opts_ok c mo us"
    and call: "call \<in> set (snd (mount_calls c mo dev fd rootmode k1 k2 k3))" by (rule do_mount_call)
  have "\<exists>us g. split_opts (mc_data call) = us @ identity_options c fd rootmode g \<and> list_all (accepted c) us"
    using mount_calls_call(2)[OF call] opts_ok_split[OF ok] by (metis split_fd_data)
  moreover have "protected (mc_flags call)" "\<not> prefix ''fuseblk'' (mc_type call)"
    using ok assms(2) mount_calls_call(1,3)[OF call] by (auto simp: opts_ok_def)
  ultimately show ?thesis by (simp add: protected_def)
qed

definition ann :: caller where
  "ann = \<lparr>c_uid = 1000, c_gid = 100, c_user = Some ''ann'', user_allow_other = False, large_read_deprecated = True, page_size = 4096\<rparr>"

lemma digits_numeral:
  "digits base (numeral k) n = (if n < base then [char_of (48 + n)] else digits base (pred_numeral k) (n div base) @ [char_of (48 + n mod base)])"
  by (simp add: numeral_eq_Suc)

lemmas mount_eval = do_mount_def mount_loop.simps mount_option_def begins_with_def find_mount_flag_def mount_flags_def
  get_string_opt_def get_mnt_opts_def add_option_def mount_calls_def mount_notrunc_def fd_data_def show_nat_def digits_numeral
  kept_options_def kept_prefixes_def dropped_prefixes_def MS_RDONLY_def MS_NOSUID_def MS_NODEV_def M_EINVAL_def M_ENODEV_def ann_def Let_def char_of_def bit_0

theorem user_mount_safe_witness:
  "map mc_data (snd (do_mount ann ''suid,user_id=0,max_read=9'' ''/dev/fuse'' 3 16384 [] 0 0 0)) = [''max_read=9,fd=3,rootmode=40000,user_id=1000,group_id=100''] \<and>
   list_all (\<lambda>call. mc_flags call AND (MS_NOSUID OR MS_NODEV) = MS_NOSUID OR MS_NODEV) (snd (do_mount ann ''suid,user_id=0,max_read=9'' ''/dev/fuse'' 3 16384 [] 0 0 0))"
proof
  show "map mc_data (snd (do_mount ann ''suid,user_id=0,max_read=9'' ''/dev/fuse'' 3 16384 [] 0 0 0)) = [''max_read=9,fd=3,rootmode=40000,user_id=1000,group_id=100'']"
    by (simp add: mount_eval)
  have "c_uid ann \<noteq> 0" by (simp add: ann_def)
  from user_mount_safe[OF _ this] show "list_all (\<lambda>call. mc_flags call AND (MS_NOSUID OR MS_NODEV) = MS_NOSUID OR MS_NODEV) (snd (do_mount ann ''suid,user_id=0,max_read=9'' ''/dev/fuse'' 3 16384 [] 0 0 0))"
    unfolding list_all_iff by blast
qed

text \<open>
  The buffer of \<^verbatim>\<open>strlen(opts) + 128\<close> bytes that \<^verbatim>\<open>do_mount\<close> allocates holds the data of
  every call with its NUL, whatever the options, the numbers of the caller and the descriptor are, and no data that the
  kernel would cut off is sent.
\<close>

theorem mount_data_fits:
  assumes "call \<in> set (snd (do_mount c opts dev fd rootmode m k1 k2 k3))" and "fd < 2 ^ 31"
  shows "length (mc_data call) + 1 \<le> length opts + 128 \<and> length (mc_data call) \<le> page_size c - 1"
proof -
  from assms(1) obtain mo us where len: "length (mo_data mo) \<le> length opts + 1"
    and call: "call \<in> set (snd (mount_calls c mo dev fd rootmode k1 k2 k3))" by (rule do_mount_call)
  from mount_calls_call(2)[OF call] obtain g where "mc_data call = mo_data mo @ fd_data c fd rootmode g" ..
  with len fd_data_length[OF assms(2), of c rootmode g] mount_calls_call(4)[OF call] show ?thesis by simp
qed

theorem mount_data_fits_witness:
  "length (snd (do_mount ann ''ro'' ''/dev/fuse'' 3 16384 [] 22 0 0)) = 2 \<and> list_all (\<lambda>call. length (mc_data call) + 1 \<le> 130) (snd (do_mount ann ''ro'' ''/dev/fuse'' 3 16384 [] 22 0 0))"
proof
  show "length (snd (do_mount ann ''ro'' ''/dev/fuse'' 3 16384 [] 22 0 0)) = 2" by (simp add: mount_eval)
  have "length (mc_data call) + 1 \<le> 130" if "call \<in> set (snd (do_mount ann ''ro'' ''/dev/fuse'' 3 16384 [] 22 0 0))" for call
    using mount_data_fits[OF that] by simp
  then show "list_all (\<lambda>call. length (mc_data call) + 1 \<le> 130) (snd (do_mount ann ''ro'' ''/dev/fuse'' 3 16384 [] 22 0 0))" unfolding list_all_iff by blast
qed

section \<open>The options with the prefix x-\<close>

fun glue :: "string \<Rightarrow> string list \<Rightarrow> string" where
  "glue b [] = b"
| "glue b (u # us) = glue (if b = [] then u else b @ comma # u) us"

abbreviation cost :: "string list \<Rightarrow> nat" where
  "cost us \<equiv> sum_list (map (\<lambda>u. length u + 1) us)"

lemma x_append_fits:
  assumes "length b + (if b = [] then 0 else 1) + opt_len \<le> L"
  shows "x_append L u opt_len (b, int L - int (length b)) =
    Some (glue b [u], int L - int (length b + (if b = [] then 0 else 1) + opt_len))"
  using assms by (cases b) (auto simp: x_append_def)

lemma x_loop_glue:
  assumes "length b + length d + cost us + (if b = [] then 0 else 1) + (if d = [] then 0 else 1) \<le> L"
  shows "x_loop L us (b, int L - int (length b)) (d, int L - int (length d)) =
    Some (glue b (filter (\<lambda>u. \<not> prefix ''x-'' u) us), glue d (filter (prefix ''x-'') us))"
  using assms
proof (induction us arbitrary: b d)
  case (Cons u us)
  have fits: "x_append L u (length u) (b, int L - int (length b)) = Some (glue b [u], int L - int (length (glue b [u])))"
    if "length b + (if b = [] then 0 else 1) + length u \<le> L" for b
    using x_append_fits[OF that] by simp
  have room: "length b + (if b = [] then 0 else 1) + length u < L" "length d + (if d = [] then 0 else 1) + length u < L"
    using Cons.prems by auto
  have glue: "length (glue a [u]) + (if glue a [u] = [] then 0 else 1) \<le> length a + (if a = [] then 0 else 1) + length u + 1" for a
    by simp
  show ?case
  proof (cases "us = []")
    case True
    with room show ?thesis by (cases "prefix ''x-'' u") (simp_all add: x_append_fits)
  next
    case False
    show ?thesis
    proof (cases "prefix ''x-'' u")
      case True
      have "length b + length (glue d [u]) + cost us + (if b = [] then 0 else 1) + (if glue d [u] = [] then 0 else 1) \<le> L"
        using Cons.prems glue[of d] by simp
      from Cons.IH[OF this] fits[of d] room True False show ?thesis by simp
    next
      case x: False
      have "length (glue b [u]) + length d + cost us + (if glue b [u] = [] then 0 else 1) + (if d = [] then 0 else 1) \<le> L"
        using Cons.prems glue[of b] by simp
      from Cons.IH[OF this] fits[of b] room x False show ?thesis by simp
    qed
  qed
qed simp

text \<open>The options of a string that are not empty.\<close>

definition options_of :: "string \<Rightarrow> string list" where
  "options_of s = filter (\<lambda>u. u \<noteq> []) (split_opts s)"

lemma split_opts_join: "split_opts (s @ comma # t) = split_opts s @ split_opts t"
proof (induction s)
  case (Cons c s)
  obtain u us where "split_opts s = u # us" by (cases "split_opts s") auto
  with Cons show ?case by simp
qed simp

lemma split_opts_elem: "u \<in> set (split_opts s) \<Longrightarrow> comma \<notin> set u"
  by (induction s arbitrary: u) (auto split: list.splits if_splits)

lemma options_of_glue:
  "(\<And>u. u \<in> set us \<Longrightarrow> comma \<notin> set u) \<Longrightarrow> options_of (glue b us) = options_of b @ filter (\<lambda>u. u \<noteq> []) us"
proof (induction us arbitrary: b)
  case (Cons u us)
  then have "options_of u = filter (\<lambda>u. u \<noteq> []) [u]" by (simp add: options_of_def split_opts_no_comma)
  with Cons show ?case by (simp add: options_of_def split_opts_join)
qed simp

lemma cost_split: "cost (split_opts s) = length s + 1"
proof (induction s)
  case (Cons c s)
  obtain u us where "split_opts s = u # us" by (cases "split_opts s") auto
  with Cons show ?case by simp
qed simp

text \<open>
  Splitting the options never runs out of buffer space: unless an allocation fails, the options that are not
  empty are shared out, in their order, between the two strings by their prefix, and none is lost or changed.
\<close>

theorem extract_x_options_correct:
  "case fst (extract_x_options original m) of
     Inl e \<Rightarrow> e = - X_ENOMEM \<and> False \<in> set (take 2 m)
   | Inr (non_x, x) \<Rightarrow> options_of non_x = filter (\<lambda>u. \<not> prefix ''x-'' u) (options_of original) \<and>
       options_of x = filter (prefix ''x-'') (options_of original)"
proof -
  have glued: "options_of (glue [] (filter P (split_opts original))) = filter P (options_of original)" for P
    by (subst options_of_glue) (auto simp: options_of_def conj_commute split_opts_elem)
  have "x_loop (length original + 1) (split_opts original) ([], int (length original + 1)) ([], int (length original + 1)) =
      Some (glue [] (filter (\<lambda>u. \<not> prefix ''x-'' u) (split_opts original)), glue [] (filter (prefix ''x-'') (split_opts original)))"
    using x_loop_glue[of "[]" "[]" "split_opts original" "length original + 1"] cost_split[of original] by simp
  then show ?thesis
    by (cases m rule: alloc.cases; cases "tl m") (auto simp: extract_x_options_def Let_def glued)
qed

end
