(* ===== verification/ReqArgs.thy ===== *)
theory ReqArgs
  imports Dirent InitNeg Opcodes "HOL-Library.Monad_Syntax"
begin

text \<open>
  The handlers of \<^verbatim>\<open>lib/fuse_lowlevel.c\<close> that take the arguments of a request out of the message and
  call an operation of the file system. The message after its header is a list of bytes; \<open>None\<close> is a
  read past its end. Structures have their layout on x86-64. What a handler does is a value: the call
  of an operation with its arguments, or a reply when the file system does not have the operation.
\<close>

unbundle bit_operations_syntax

section \<open>Operations of a file system\<close>

datatype ll_op = Op_lookup | Op_forget | Op_forget_multi | Op_getattr | Op_setattr | Op_access | Op_readlink | Op_mknod | Op_mkdir
  | Op_unlink | Op_rmdir | Op_symlink | Op_rename | Op_link | Op_tmpfile | Op_create | Op_open | Op_read | Op_write | Op_write_buf
  | Op_flush | Op_release | Op_fsync | Op_opendir | Op_readdir | Op_readdirplus | Op_releasedir | Op_fsyncdir | Op_statfs
  | Op_setxattr | Op_getxattr | Op_listxattr | Op_removexattr | Op_getlk | Op_setlk | Op_flock | Op_bmap | Op_ioctl | Op_poll
  | Op_fallocate | Op_copy_file_range | Op_lseek

record fuse_file_info =
  fi_flags :: u32
  fi_writepage :: bool
  fi_direct_io :: bool
  fi_keep_cache :: bool
  fi_flush :: bool
  fi_nonseekable :: bool
  fi_flock_release :: bool
  fi_cache_readdir :: bool
  fi_noflush :: bool
  fi_parallel_direct_writes :: bool
  fi_fh :: u64
  fi_lock_owner :: u64
  fi_poll_events :: u32
  fi_backing_id :: u32

definition zero_fi :: fuse_file_info where
  "zero_fi = \<lparr>fi_flags = 0, fi_writepage = False, fi_direct_io = False, fi_keep_cache = False, fi_flush = False,
     fi_nonseekable = False, fi_flock_release = False, fi_cache_readdir = False, fi_noflush = False,
     fi_parallel_direct_writes = False, fi_fh = 0, fi_lock_owner = 0, fi_poll_events = 0, fi_backing_id = 0\<rparr>"

record ll_flock =
  lf_type :: "16 word"
  lf_start :: u64
  lf_len :: u64
  lf_pid :: u32

text \<open>
  Calls with the arguments the operation gets. The last argument of those that create a file is the
  mask in the request's context.
\<close>

datatype ll_call =
    Lookup u64 "u8 list"
  | Forget u64 u64
  | Forget_multi "(u64 \<times> u64) list"
  | Getattr u64 "u64 option"
  | Setattr u64 stat u32 "u64 option"
  | Access u64 u32
  | Readlink u64
  | Mknod u64 "u8 list" u32 u32 u32
  | Mkdir u64 "u8 list" u32 u32
  | Unlink u64 "u8 list"
  | Rmdir u64 "u8 list"
  | Symlink "u8 list" u64 "u8 list"
  | Rename u64 "u8 list" u64 "u8 list" u32
  | Link u64 u64 "u8 list"
  | Tmpfile u64 u32 fuse_file_info u32
  | Create u64 "u8 list" u32 fuse_file_info u32
  | Open u64 fuse_file_info
  | Read u64 u32 u64 fuse_file_info
  | Write u64 "u8 list" u64 fuse_file_info
  | Flush u64 fuse_file_info
  | Release u64 fuse_file_info
  | Fsync u64 bool fuse_file_info
  | Opendir u64 fuse_file_info
  | Readdir u64 u32 u64 fuse_file_info
  | Readdirplus u64 u32 u64 fuse_file_info
  | Releasedir u64 fuse_file_info
  | Fsyncdir u64 bool fuse_file_info
  | Statfs u64
  | Setxattr u64 "u8 list" "u8 list" u32
  | Getxattr u64 "u8 list" u32
  | Listxattr u64 u32
  | Removexattr u64 "u8 list"
  | Getlk u64 fuse_file_info ll_flock
  | Setlk u64 fuse_file_info ll_flock bool
  | Flock u64 fuse_file_info u32
  | Bmap u64 u32 u64
  | Ioctl u64 u32 u64 fuse_file_info u32 "u8 list option" u32
  | Poll u64 fuse_file_info "u64 option"
  | Fallocate u64 u32 u64 u64 fuse_file_info
  | Copy_file_range u64 u64 fuse_file_info u64 u64 fuse_file_info u64 u64
  | Lseek u64 u64 u32 fuse_file_info

datatype action =
    Call ll_call
  | Call_write_buf u64 "u8 list option" u32 u64 fuse_file_info
  | Forgets "(u64 \<times> u64) list"
  | Reply_error nat
  | Reply_none
  | Reply_opened fuse_file_info
  | Reply_statfs_default

section \<open>Reading the message\<close>

definition rd32 :: "nat \<Rightarrow> u8 list \<Rightarrow> u32 option" where
  "rd32 k bs = (if k + 4 \<le> length bs then Some (u32_at k bs) else None)"

definition rd64 :: "nat \<Rightarrow> u8 list \<Rightarrow> u64 option" where
  "rd64 k bs = (if k + 8 \<le> length bs then Some (u64_at k bs) else None)"

definition rd_str :: "nat \<Rightarrow> u8 list \<Rightarrow> u8 list option" where
  "rd_str k bs = (if 0 \<in> set (drop k bs) then Some (c_str (drop k bs)) else None)"

definition rd_bytes :: "nat \<Rightarrow> nat \<Rightarrow> u8 list \<Rightarrow> u8 list option" where
  "rd_bytes k n bs = (if k + n \<le> length bs then Some (take n (drop k bs)) else None)"

fun rd_forgets :: "nat \<Rightarrow> nat \<Rightarrow> u8 list \<Rightarrow> (u64 \<times> u64) list option" where
  "rd_forgets k 0 bs = Some []"
| "rd_forgets k (Suc n) bs = do {i \<leftarrow> rd64 k bs; l \<leftarrow> rd64 (k + 8) bs; r \<leftarrow> rd_forgets (k + 16) n bs; Some ((i, l) # r)}"

section \<open>The handlers\<close>

definition LL_ENOSYS :: nat where "LL_ENOSYS = 38"
definition LL_ENOTTY :: nat where "LL_ENOTTY = 25"
definition LL_ENOMEM :: nat where "LL_ENOMEM = 12"
definition LL_EIO :: nat where "LL_EIO = 5"

type_synonym ops = "ll_op \<Rightarrow> bool"

definition call_or :: "bool \<Rightarrow> ll_call option \<Rightarrow> action \<Rightarrow> action option" where
  "call_or b c r = (if b then map_option Call c else Some r)"

definition do_lookup :: "ops \<Rightarrow> u64 \<Rightarrow> u8 list \<Rightarrow> action option" where
  "do_lookup has nodeid arg = call_or (has Op_lookup) (map_option (Lookup nodeid) (rd_str 0 arg)) (Reply_error LL_ENOSYS)"

definition do_forget :: "ops \<Rightarrow> u64 \<Rightarrow> u8 list \<Rightarrow> action option" where
  "do_forget has nodeid arg = call_or (has Op_forget) (map_option (Forget nodeid) (rd64 0 arg)) Reply_none"

text \<open>Without \<^verbatim>\<open>forget_multi\<close> each node is forgotten with a request of its own, as long as there is memory.\<close>

fun forget_each :: "schedule \<Rightarrow> nat \<Rightarrow> nat \<Rightarrow> u8 list \<Rightarrow> (u64 \<times> u64) list option" where
  "forget_each m k 0 arg = Some []"
| "forget_each m k (Suc n) arg =
     (case alloc m of (ok, m1) \<Rightarrow>
        if \<not> ok then Some []
        else do {i \<leftarrow> rd64 k arg; l \<leftarrow> rd64 (k + 8) arg; r \<leftarrow> forget_each m1 (k + 16) n arg; Some ((i, l) # r)})"

definition do_batch_forget :: "schedule \<Rightarrow> ops \<Rightarrow> u8 list \<Rightarrow> action option" where
  "do_batch_forget m has arg =
     (if has Op_forget_multi then do {n \<leftarrow> rd32 0 arg; fs \<leftarrow> rd_forgets 8 (unat n) arg; Some (Call (Forget_multi fs))}
      else if has Op_forget then do {n \<leftarrow> rd32 0 arg; fs \<leftarrow> forget_each m 8 (unat n) arg; Some (Forgets fs)}
      else Some Reply_none)"

definition do_getattr :: "conn_info \<Rightarrow> ops \<Rightarrow> u64 \<Rightarrow> u8 list \<Rightarrow> action option" where
  "do_getattr c has nodeid arg = do {
     fip \<leftarrow> (if proto_minor c \<ge> 9 then do {
               fl \<leftarrow> rd32 0 arg;
               if bit fl 0 then map_option Some (rd64 8 arg) else Some None
             } else Some None);
     call_or (has Op_getattr) (Some (Getattr nodeid fip)) (Reply_error LL_ENOSYS)
   }"

definition FATTR_FH :: u32 where "FATTR_FH = 64"

definition SET_ATTR_MASK :: u32 where
  "SET_ATTR_MASK = 1 OR 2 OR 4 OR 8 OR 16 OR 32 OR 2048 OR 4096 OR 128 OR 256 OR 1024"

definition convert_attr :: "u8 list \<Rightarrow> stat option" where
  "convert_attr arg = do {
     mode \<leftarrow> rd32 68 arg; uid \<leftarrow> rd32 76 arg; gid \<leftarrow> rd32 80 arg; sz \<leftarrow> rd64 16 arg;
     at \<leftarrow> rd64 32 arg; mt \<leftarrow> rd64 40 arg; ct \<leftarrow> rd64 48 arg; an \<leftarrow> rd32 56 arg; mn \<leftarrow> rd32 60 arg; cn \<leftarrow> rd32 64 arg;
     Some (zero_stat\<lparr>st_mode := mode, st_uid := uid, st_gid := gid, st_size := sz, st_atime := at, st_mtime := mt, st_ctime := ct,
       st_atimensec := ucast an, st_mtimensec := ucast mn, st_ctimensec := ucast cn\<rparr>)
   }"

definition do_setattr :: "ops \<Rightarrow> u64 \<Rightarrow> u8 list \<Rightarrow> action option" where
  "do_setattr has nodeid arg =
     (if has Op_setattr then do {
        st \<leftarrow> convert_attr arg; valid \<leftarrow> rd32 0 arg;
        fip \<leftarrow> (if valid AND FATTR_FH \<noteq> 0 then map_option Some (rd64 8 arg) else Some None);
        let valid1 = (if valid AND FATTR_FH \<noteq> 0 then valid AND NOT FATTR_FH else valid);
        Some (Call (Setattr nodeid st (valid1 AND SET_ATTR_MASK) fip))
      } else Some (Reply_error LL_ENOSYS))"

definition do_access :: "ops \<Rightarrow> u64 \<Rightarrow> u8 list \<Rightarrow> action option" where
  "do_access has nodeid arg = call_or (has Op_access) (map_option (Access nodeid) (rd32 0 arg)) (Reply_error LL_ENOSYS)"

definition do_readlink :: "ops \<Rightarrow> u64 \<Rightarrow> u8 list \<Rightarrow> action option" where
  "do_readlink has nodeid arg = call_or (has Op_readlink) (Some (Readlink nodeid)) (Reply_error LL_ENOSYS)"

text \<open>The mask is 0 in a new request.\<close>

definition do_mknod :: "conn_info \<Rightarrow> ops \<Rightarrow> u64 \<Rightarrow> u8 list \<Rightarrow> action option" where
  "do_mknod c has nodeid arg = do {
     um \<leftarrow> (if proto_minor c \<ge> 12 then rd32 8 arg else Some 0);
     call_or (has Op_mknod)
       (do {name \<leftarrow> rd_str (if proto_minor c \<ge> 12 then 16 else 8) arg; mode \<leftarrow> rd32 0 arg; rdev \<leftarrow> rd32 4 arg;
            Some (Mknod nodeid name mode rdev um)})
       (Reply_error LL_ENOSYS)
   }"

definition do_mkdir :: "conn_info \<Rightarrow> ops \<Rightarrow> u64 \<Rightarrow> u8 list \<Rightarrow> action option" where
  "do_mkdir c has nodeid arg = do {
     um \<leftarrow> (if proto_minor c \<ge> 12 then rd32 4 arg else Some 0);
     call_or (has Op_mkdir) (do {name \<leftarrow> rd_str 8 arg; mode \<leftarrow> rd32 0 arg; Some (Mkdir nodeid name mode um)}) (Reply_error LL_ENOSYS)
   }"

definition do_unlink :: "ops \<Rightarrow> u64 \<Rightarrow> u8 list \<Rightarrow> action option" where
  "do_unlink has nodeid arg = call_or (has Op_unlink) (map_option (Unlink nodeid) (rd_str 0 arg)) (Reply_error LL_ENOSYS)"

definition do_rmdir :: "ops \<Rightarrow> u64 \<Rightarrow> u8 list \<Rightarrow> action option" where
  "do_rmdir has nodeid arg = call_or (has Op_rmdir) (map_option (Rmdir nodeid) (rd_str 0 arg)) (Reply_error LL_ENOSYS)"

definition do_symlink :: "ops \<Rightarrow> u64 \<Rightarrow> u8 list \<Rightarrow> action option" where
  "do_symlink has nodeid arg = do {
     name \<leftarrow> rd_str 0 arg;
     call_or (has Op_symlink) (do {linkname \<leftarrow> rd_str (length name + 1) arg; Some (Symlink linkname nodeid name)}) (Reply_error LL_ENOSYS)
   }"

definition do_rename :: "ops \<Rightarrow> u64 \<Rightarrow> u8 list \<Rightarrow> action option" where
  "do_rename has nodeid arg = do {
     oldname \<leftarrow> rd_str 8 arg;
     call_or (has Op_rename)
       (do {newdir \<leftarrow> rd64 0 arg; newname \<leftarrow> rd_str (8 + length oldname + 1) arg; Some (Rename nodeid oldname newdir newname 0)})
       (Reply_error LL_ENOSYS)
   }"

definition do_rename2 :: "ops \<Rightarrow> u64 \<Rightarrow> u8 list \<Rightarrow> action option" where
  "do_rename2 has nodeid arg = do {
     oldname \<leftarrow> rd_str 16 arg;
     call_or (has Op_rename)
       (do {newdir \<leftarrow> rd64 0 arg; newname \<leftarrow> rd_str (16 + length oldname + 1) arg; fl \<leftarrow> rd32 8 arg; Some (Rename nodeid oldname newdir newname fl)})
       (Reply_error LL_ENOSYS)
   }"

definition do_link :: "ops \<Rightarrow> u64 \<Rightarrow> u8 list \<Rightarrow> action option" where
  "do_link has nodeid arg =
     call_or (has Op_link) (do {oldnodeid \<leftarrow> rd64 0 arg; name \<leftarrow> rd_str 8 arg; Some (Link oldnodeid nodeid name)}) (Reply_error LL_ENOSYS)"

definition do_tmpfile :: "conn_info \<Rightarrow> ops \<Rightarrow> u64 \<Rightarrow> u8 list \<Rightarrow> action option" where
  "do_tmpfile c has nodeid arg =
     call_or (has Op_tmpfile)
       (do {fl \<leftarrow> rd32 0 arg; um \<leftarrow> (if proto_minor c \<ge> 12 then rd32 8 arg else Some 0); mode \<leftarrow> rd32 4 arg;
            Some (Tmpfile nodeid mode (zero_fi\<lparr>fi_flags := fl\<rparr>) um)})
       (Reply_error LL_ENOSYS)"

definition do_create :: "conn_info \<Rightarrow> ops \<Rightarrow> u64 \<Rightarrow> u8 list \<Rightarrow> action option" where
  "do_create c has nodeid arg =
     call_or (has Op_create)
       (do {fl \<leftarrow> rd32 0 arg; um \<leftarrow> (if proto_minor c \<ge> 12 then rd32 8 arg else Some 0);
            name \<leftarrow> rd_str (if proto_minor c \<ge> 12 then 16 else 8) arg; mode \<leftarrow> rd32 4 arg;
            Some (Create nodeid name mode (zero_fi\<lparr>fi_flags := fl\<rparr>) um)})
       (Reply_error LL_ENOSYS)"

definition do_open :: "conn_info \<Rightarrow> ops \<Rightarrow> u64 \<Rightarrow> u8 list \<Rightarrow> action option" where
  "do_open c has nodeid arg = do {
     fl \<leftarrow> rd32 0 arg;
     let fi = zero_fi\<lparr>fi_flags := fl\<rparr>;
     Some (if has Op_open then Call (Open nodeid fi)
           else if has_flag (want_ext c) FUSE_CAP_NO_OPEN_SUPPORT then Reply_error LL_ENOSYS
           else Reply_opened fi)
   }"

definition read_fi :: "conn_info \<Rightarrow> u8 list \<Rightarrow> fuse_file_info option" where
  "read_fi c arg = do {
     fh \<leftarrow> rd64 0 arg;
     if proto_minor c \<ge> 9 then do {
       lo \<leftarrow> rd64 24 arg; fl \<leftarrow> rd32 32 arg;
       Some (zero_fi\<lparr>fi_fh := fh, fi_lock_owner := lo, fi_flags := fl\<rparr>)
     } else Some (zero_fi\<lparr>fi_fh := fh\<rparr>)
   }"

definition do_read :: "conn_info \<Rightarrow> ops \<Rightarrow> u64 \<Rightarrow> u8 list \<Rightarrow> action option" where
  "do_read c has nodeid arg =
     call_or (has Op_read) (do {fi \<leftarrow> read_fi c arg; sz \<leftarrow> rd32 16 arg; off \<leftarrow> rd64 8 arg; Some (Read nodeid sz off fi)}) (Reply_error LL_ENOSYS)"

definition write_fi :: "conn_info \<Rightarrow> u8 list \<Rightarrow> fuse_file_info option" where
  "write_fi c arg = do {fl \<leftarrow> rd32 20 arg; fi \<leftarrow> read_fi c arg; Some (fi\<lparr>fi_writepage := bit fl 0\<rparr>)}"

definition write_in_size :: "conn_info \<Rightarrow> nat" where
  "write_in_size c = (if proto_minor c < 9 then 24 else 40)"

definition do_write :: "conn_info \<Rightarrow> ops \<Rightarrow> u64 \<Rightarrow> u8 list \<Rightarrow> action option" where
  "do_write c has nodeid arg = do {
     fi \<leftarrow> write_fi c arg;
     call_or (has Op_write)
       (do {sz \<leftarrow> rd32 16 arg; off \<leftarrow> rd64 8 arg; data \<leftarrow> rd_bytes (write_in_size c) (unat sz) arg; Some (Write nodeid data off fi)})
       (Reply_error LL_ENOSYS)
   }"

definition do_flush :: "conn_info \<Rightarrow> ops \<Rightarrow> u64 \<Rightarrow> u8 list \<Rightarrow> action option" where
  "do_flush c has nodeid arg = do {
     fh \<leftarrow> rd64 0 arg;
     lo \<leftarrow> (if proto_minor c \<ge> 7 then rd64 16 arg else Some 0);
     call_or (has Op_flush) (Some (Flush nodeid (zero_fi\<lparr>fi_fh := fh, fi_flush := True, fi_lock_owner := lo\<rparr>))) (Reply_error LL_ENOSYS)
   }"

definition do_release :: "conn_info \<Rightarrow> ops \<Rightarrow> u64 \<Rightarrow> u8 list \<Rightarrow> action option" where
  "do_release c has nodeid arg = do {
     fl \<leftarrow> rd32 8 arg; fh \<leftarrow> rd64 0 arg;
     let fi0 = zero_fi\<lparr>fi_flags := fl, fi_fh := fh\<rparr>;
     fi1 \<leftarrow> (if proto_minor c \<ge> 8 then do {
               rf \<leftarrow> rd32 12 arg; lo \<leftarrow> rd64 16 arg;
               Some (fi0\<lparr>fi_flush := bit rf 0, fi_lock_owner := lo\<rparr>)
             } else Some fi0);
     rf \<leftarrow> rd32 12 arg;
     fi2 \<leftarrow> (if bit rf 1 then do {lo \<leftarrow> rd64 16 arg; Some (fi1\<lparr>fi_flock_release := True, fi_lock_owner := lo\<rparr>)} else Some fi1);
     call_or (has Op_release) (Some (Release nodeid fi2)) (Reply_error 0)
   }"

definition fsync_args :: "u8 list \<Rightarrow> (bool \<times> fuse_file_info) option" where
  "fsync_args arg = do {fl \<leftarrow> rd32 8 arg; fh \<leftarrow> rd64 0 arg; Some (bit fl 0, zero_fi\<lparr>fi_fh := fh\<rparr>)}"

definition do_fsync :: "ops \<Rightarrow> u64 \<Rightarrow> u8 list \<Rightarrow> action option" where
  "do_fsync has nodeid arg = do {
     (ds, fi) \<leftarrow> fsync_args arg; call_or (has Op_fsync) (Some (Fsync nodeid ds fi)) (Reply_error LL_ENOSYS)}"

definition do_opendir :: "conn_info \<Rightarrow> ops \<Rightarrow> u64 \<Rightarrow> u8 list \<Rightarrow> action option" where
  "do_opendir c has nodeid arg = do {
     fl \<leftarrow> rd32 0 arg;
     let fi = zero_fi\<lparr>fi_flags := fl\<rparr>;
     Some (if has Op_opendir then Call (Opendir nodeid fi)
           else if has_flag (want_ext c) FUSE_CAP_NO_OPENDIR_SUPPORT then Reply_error LL_ENOSYS
           else Reply_opened fi)
   }"

definition readdir_args :: "u8 list \<Rightarrow> (u32 \<times> u64) option" where
  "readdir_args arg = do {sz \<leftarrow> rd32 16 arg; off \<leftarrow> rd64 8 arg; Some (sz, off)}"

definition do_readdir :: "ops \<Rightarrow> u64 \<Rightarrow> u8 list \<Rightarrow> action option" where
  "do_readdir has nodeid arg = do {
     fh \<leftarrow> rd64 0 arg;
     call_or (has Op_readdir) (do {(sz, off) \<leftarrow> readdir_args arg; Some (Readdir nodeid sz off (zero_fi\<lparr>fi_fh := fh\<rparr>))}) (Reply_error LL_ENOSYS)
   }"

definition do_readdirplus :: "ops \<Rightarrow> u64 \<Rightarrow> u8 list \<Rightarrow> action option" where
  "do_readdirplus has nodeid arg = do {
     fh \<leftarrow> rd64 0 arg;
     call_or (has Op_readdirplus) (do {(sz, off) \<leftarrow> readdir_args arg; Some (Readdirplus nodeid sz off (zero_fi\<lparr>fi_fh := fh\<rparr>))}) (Reply_error LL_ENOSYS)
   }"

definition do_releasedir :: "ops \<Rightarrow> u64 \<Rightarrow> u8 list \<Rightarrow> action option" where
  "do_releasedir has nodeid arg = do {
     fl \<leftarrow> rd32 8 arg; fh \<leftarrow> rd64 0 arg;
     call_or (has Op_releasedir) (Some (Releasedir nodeid (zero_fi\<lparr>fi_flags := fl, fi_fh := fh\<rparr>))) (Reply_error 0)
   }"

definition do_fsyncdir :: "ops \<Rightarrow> u64 \<Rightarrow> u8 list \<Rightarrow> action option" where
  "do_fsyncdir has nodeid arg = do {
     (ds, fi) \<leftarrow> fsync_args arg; call_or (has Op_fsyncdir) (Some (Fsyncdir nodeid ds fi)) (Reply_error LL_ENOSYS)}"

definition do_statfs :: "ops \<Rightarrow> u64 \<Rightarrow> u8 list \<Rightarrow> action option" where
  "do_statfs has nodeid arg = call_or (has Op_statfs) (Some (Statfs nodeid)) Reply_statfs_default"

definition do_setxattr :: "conn_info \<Rightarrow> ops \<Rightarrow> u64 \<Rightarrow> u8 list \<Rightarrow> action option" where
  "do_setxattr c has nodeid arg = do {
     let k = (if has_flag (want_ext c) FUSE_CAP_SETXATTR_EXT then 16 else 8);
     name \<leftarrow> rd_str k arg;
     call_or (has Op_setxattr)
       (do {sz \<leftarrow> rd32 0 arg; value \<leftarrow> rd_bytes (k + length name + 1) (unat sz) arg; fl \<leftarrow> rd32 4 arg; Some (Setxattr nodeid name value fl)})
       (Reply_error LL_ENOSYS)
   }"

definition do_getxattr :: "ops \<Rightarrow> u64 \<Rightarrow> u8 list \<Rightarrow> action option" where
  "do_getxattr has nodeid arg =
     call_or (has Op_getxattr) (do {name \<leftarrow> rd_str 8 arg; sz \<leftarrow> rd32 0 arg; Some (Getxattr nodeid name sz)}) (Reply_error LL_ENOSYS)"

definition do_listxattr :: "ops \<Rightarrow> u64 \<Rightarrow> u8 list \<Rightarrow> action option" where
  "do_listxattr has nodeid arg = call_or (has Op_listxattr) (map_option (Listxattr nodeid) (rd32 0 arg)) (Reply_error LL_ENOSYS)"

definition do_removexattr :: "ops \<Rightarrow> u64 \<Rightarrow> u8 list \<Rightarrow> action option" where
  "do_removexattr has nodeid arg = call_or (has Op_removexattr) (map_option (Removexattr nodeid) (rd_str 0 arg)) (Reply_error LL_ENOSYS)"

definition LL_OFFSET_MAX :: u64 where "LL_OFFSET_MAX = 0x7fffffffffffffff"

definition convert_fuse_file_lock :: "u64 \<Rightarrow> u64 \<Rightarrow> u32 \<Rightarrow> u32 \<Rightarrow> ll_flock" where
  "convert_fuse_file_lock start stop type pid =
     \<lparr>lf_type = ucast type, lf_start = start, lf_len = (if stop = LL_OFFSET_MAX then 0 else stop - start + 1), lf_pid = pid\<rparr>"

definition lk_fi :: "u8 list \<Rightarrow> fuse_file_info option" where
  "lk_fi arg = do {fh \<leftarrow> rd64 0 arg; ow \<leftarrow> rd64 8 arg; Some (zero_fi\<lparr>fi_fh := fh, fi_lock_owner := ow\<rparr>)}"

definition lk_flock :: "u8 list \<Rightarrow> ll_flock option" where
  "lk_flock arg = do {start \<leftarrow> rd64 16 arg; stop \<leftarrow> rd64 24 arg; type \<leftarrow> rd32 32 arg; pid \<leftarrow> rd32 36 arg;
     Some (convert_fuse_file_lock start stop type pid)}"

definition do_getlk :: "ops \<Rightarrow> u64 \<Rightarrow> u8 list \<Rightarrow> action option" where
  "do_getlk has nodeid arg = do {
     fi \<leftarrow> lk_fi arg; fl \<leftarrow> lk_flock arg;
     call_or (has Op_getlk) (Some (Getlk nodeid fi fl)) (Reply_error LL_ENOSYS)
   }"

definition flock_op :: "u32 \<Rightarrow> bool \<Rightarrow> u32" where
  "flock_op type sleep =
     (let lop = (if type = 0 then 1 else if type = 1 then 2 else if type = 2 then 8 else 0) in
      if sleep then lop else lop OR 4)"

definition do_setlk_common :: "ops \<Rightarrow> u64 \<Rightarrow> u8 list \<Rightarrow> bool \<Rightarrow> action option" where
  "do_setlk_common has nodeid arg sleep = do {
     fi \<leftarrow> lk_fi arg; lf \<leftarrow> rd32 40 arg;
     if bit lf 0 then do {
       type \<leftarrow> rd32 32 arg;
       call_or (has Op_flock) (Some (Flock nodeid fi (flock_op type sleep))) (Reply_error LL_ENOSYS)
     } else do {
       fl \<leftarrow> lk_flock arg;
       call_or (has Op_setlk) (Some (Setlk nodeid fi fl sleep)) (Reply_error LL_ENOSYS)
     }
   }"

definition do_setlk :: "ops \<Rightarrow> u64 \<Rightarrow> u8 list \<Rightarrow> action option" where
  "do_setlk has nodeid arg = do_setlk_common has nodeid arg False"

definition do_setlkw :: "ops \<Rightarrow> u64 \<Rightarrow> u8 list \<Rightarrow> action option" where
  "do_setlkw has nodeid arg = do_setlk_common has nodeid arg True"

definition do_bmap :: "ops \<Rightarrow> u64 \<Rightarrow> u8 list \<Rightarrow> action option" where
  "do_bmap has nodeid arg =
     call_or (has Op_bmap) (do {bsz \<leftarrow> rd32 8 arg; bl \<leftarrow> rd64 0 arg; Some (Bmap nodeid bsz bl)}) (Reply_error LL_ENOSYS)"

text \<open>Pointers have 64 bits, so that \<^verbatim>\<open>ioctl_64bit\<close> is never set.\<close>

definition do_ioctl :: "conn_info \<Rightarrow> ops \<Rightarrow> u64 \<Rightarrow> u8 list \<Rightarrow> action option" where
  "do_ioctl c has nodeid arg = do {
     fl \<leftarrow> rd32 8 arg; insz \<leftarrow> rd32 24 arg;
     if bit fl 4 \<and> \<not> has_flag (want_ext c) FUSE_CAP_IOCTL_DIR then Some (Reply_error LL_ENOTTY)
     else do {
       fh \<leftarrow> rd64 0 arg;
       call_or (has Op_ioctl)
         (do {cmd \<leftarrow> rd32 12 arg; a \<leftarrow> rd64 16 arg; outsz \<leftarrow> rd32 28 arg;
              buf \<leftarrow> (if insz \<noteq> 0 then map_option Some (rd_bytes 32 (unat insz) arg) else Some None);
              Some (Ioctl nodeid cmd a (zero_fi\<lparr>fi_fh := fh\<rparr>) fl buf outsz)})
         (Reply_error LL_ENOSYS)
     }
   }"

definition do_poll :: "schedule \<Rightarrow> ops \<Rightarrow> u64 \<Rightarrow> u8 list \<Rightarrow> action option" where
  "do_poll m has nodeid arg = do {
     fh \<leftarrow> rd64 0 arg; ev \<leftarrow> rd32 20 arg;
     let fi = zero_fi\<lparr>fi_fh := fh, fi_poll_events := ev\<rparr>;
     if has Op_poll then do {
       fl \<leftarrow> rd32 16 arg;
       if bit fl 0 then
         (if \<not> fst (alloc m) then Some (Reply_error LL_ENOMEM)
          else do {kh \<leftarrow> rd64 8 arg; Some (Call (Poll nodeid fi (Some kh)))})
       else Some (Call (Poll nodeid fi None))
     } else Some (Reply_error LL_ENOSYS)
   }"

definition do_fallocate :: "ops \<Rightarrow> u64 \<Rightarrow> u8 list \<Rightarrow> action option" where
  "do_fallocate has nodeid arg = do {
     fh \<leftarrow> rd64 0 arg;
     call_or (has Op_fallocate)
       (do {mode \<leftarrow> rd32 24 arg; off \<leftarrow> rd64 8 arg; len \<leftarrow> rd64 16 arg; Some (Fallocate nodeid mode off len (zero_fi\<lparr>fi_fh := fh\<rparr>))})
       (Reply_error LL_ENOSYS)
   }"

definition do_copy_file_range :: "ops \<Rightarrow> u64 \<Rightarrow> u8 list \<Rightarrow> action option" where
  "do_copy_file_range has nodeid_in arg = do {
     fh_in \<leftarrow> rd64 0 arg; fh_out \<leftarrow> rd64 24 arg;
     call_or (has Op_copy_file_range)
       (do {off_in \<leftarrow> rd64 8 arg; nodeid_out \<leftarrow> rd64 16 arg; off_out \<leftarrow> rd64 32 arg; len \<leftarrow> rd64 40 arg; fl \<leftarrow> rd64 48 arg;
            Some (Copy_file_range nodeid_in off_in (zero_fi\<lparr>fi_fh := fh_in\<rparr>) nodeid_out off_out (zero_fi\<lparr>fi_fh := fh_out\<rparr>) len fl)})
       (Reply_error LL_ENOSYS)
   }"

definition do_lseek :: "ops \<Rightarrow> u64 \<Rightarrow> u8 list \<Rightarrow> action option" where
  "do_lseek has nodeid arg = do {
     fh \<leftarrow> rd64 0 arg;
     call_or (has Op_lseek) (do {off \<leftarrow> rd64 8 arg; wh \<leftarrow> rd32 16 arg; Some (Lseek nodeid off wh (zero_fi\<lparr>fi_fh := fh\<rparr>))}) (Reply_error LL_ENOSYS)
   }"

text \<open>
  \<^verbatim>\<open>do_write_buf\<close>, for a message that is in memory or, but for its header, in a pipe: the assertion
  fails (\<open>None\<close>) if an old kernel's message is in a pipe. \<open>msz\<close> is the size of the whole message. The
  data is \<open>None\<close> while it is in the pipe. The pipe is emptied afterwards if the operation has left data in it.
\<close>

datatype write_action = Write_buf u64 "u8 list option" u32 u64 fuse_file_info | Write_error nat

definition sizeof_in_header :: nat where "sizeof_in_header = 40"

definition do_write_buf :: "conn_info \<Rightarrow> u64 \<Rightarrow> u8 list \<Rightarrow> bool \<Rightarrow> u64 \<Rightarrow> write_action option" where
  "do_write_buf c nodeid arg is_fd msz = do {
     fi \<leftarrow> write_fi c arg; sz \<leftarrow> rd32 16 arg; off \<leftarrow> rd64 8 arg;
     if proto_minor c < 9 \<and> is_fd then None
     else if msz - (of_nat sizeof_in_header + of_nat (write_in_size c)) < ucast sz then Some (Write_error LL_EIO)
     else do {
       data \<leftarrow> (if is_fd then Some None else map_option Some (rd_bytes (write_in_size c) (unat sz) arg));
       Some (Write_buf nodeid data sz off fi)
     }
   }"

section \<open>The table\<close>

text \<open>The operations whose handlers only read arguments; \<open>m\<close> says whether memory is available.\<close>

definition arg_handlers :: "schedule \<Rightarrow> conn_info \<Rightarrow> ops \<Rightarrow> (nat \<times> (u64 \<Rightarrow> u8 list \<Rightarrow> action option)) list" where
  "arg_handlers m c has =
    [(OP_LOOKUP, do_lookup has),
     (OP_FORGET, do_forget has),
     (OP_GETATTR, do_getattr c has),
     (OP_SETATTR, do_setattr has),
     (OP_READLINK, do_readlink has),
     (OP_SYMLINK, do_symlink has),
     (OP_MKNOD, do_mknod c has),
     (OP_MKDIR, do_mkdir c has),
     (OP_UNLINK, do_unlink has),
     (OP_RMDIR, do_rmdir has),
     (OP_RENAME, do_rename has),
     (OP_LINK, do_link has),
     (OP_OPEN, do_open c has),
     (OP_READ, do_read c has),
     (OP_WRITE, do_write c has),
     (OP_STATFS, do_statfs has),
     (OP_RELEASE, do_release c has),
     (OP_FSYNC, do_fsync has),
     (OP_SETXATTR, do_setxattr c has),
     (OP_GETXATTR, do_getxattr has),
     (OP_LISTXATTR, do_listxattr has),
     (OP_REMOVEXATTR, do_removexattr has),
     (OP_FLUSH, do_flush c has),
     (OP_OPENDIR, do_opendir c has),
     (OP_READDIR, do_readdir has),
     (OP_RELEASEDIR, do_releasedir has),
     (OP_FSYNCDIR, do_fsyncdir has),
     (OP_GETLK, do_getlk has),
     (OP_SETLK, do_setlk has),
     (OP_SETLKW, do_setlkw has),
     (OP_ACCESS, do_access has),
     (OP_CREATE, do_create c has),
     (OP_TMPFILE, do_tmpfile c has),
     (OP_BMAP, do_bmap has),
     (OP_IOCTL, do_ioctl c has),
     (OP_POLL, do_poll m has),
     (OP_FALLOCATE, do_fallocate has),
     (OP_BATCH_FORGET, \<lambda>nodeid. do_batch_forget m has),
     (OP_READDIRPLUS, do_readdirplus has),
     (OP_RENAME2, do_rename2 has),
     (OP_COPY_FILE_RANGE, do_copy_file_range has),
     (OP_LSEEK, do_lseek has)]"

text \<open>
  The call of the handler in \<^verbatim>\<open>fuse_session_process_buf_internal\<close>, for a message that is in memory: a
  write goes to \<^verbatim>\<open>do_write_buf\<close> if the file system has \<^verbatim>\<open>write_buf\<close>.
\<close>

definition handle_request :: "schedule \<Rightarrow> conn_info \<Rightarrow> ops \<Rightarrow> nat \<Rightarrow> u64 \<Rightarrow> u8 list \<Rightarrow> action option" where
  "handle_request m c has opc nodeid arg =
     (if opc = OP_WRITE \<and> has Op_write_buf then
        map_option (\<lambda>w. case w of Write_buf i d sz off fi \<Rightarrow> Call_write_buf i d sz off fi | Write_error e \<Rightarrow> Reply_error e)
          (do_write_buf c nodeid arg False (of_nat (sizeof_in_header + length arg)))
      else case map_of (arg_handlers m c has) opc of None \<Rightarrow> None | Some h \<Rightarrow> h nodeid arg)"

section \<open>The kernel's side\<close>

text \<open>
  The message that stands for a call in the protocol of \<^verbatim>\<open>include/fuse_kernel.h\<close>: the operation's
  number, the node, and the bytes after the header.
\<close>

definition cstr :: "u8 list \<Rightarrow> u8 list" where "cstr n = n @ [0]"

definition minor_at_least :: "u32 \<Rightarrow> conn_info \<Rightarrow> bool" where "minor_at_least v c \<longleftrightarrow> proto_minor c \<ge> v"

definition flag32 :: "bool \<Rightarrow> u32 \<Rightarrow> u32" where "flag32 b x = (if b then x else 0)"

definition read_in :: "conn_info \<Rightarrow> u64 \<Rightarrow> u64 \<Rightarrow> u32 \<Rightarrow> u32 \<Rightarrow> fuse_file_info \<Rightarrow> u8 list" where
  "read_in c fh off sz fl fi = u64_bytes fh @ u64_bytes off @ u32_bytes sz @ u32_bytes fl @
     (if minor_at_least 9 c then u64_bytes (fi_lock_owner fi) @ u32_bytes (fi_flags fi) @ u32_bytes 0 else [])"

text \<open>The flags of a lock came with version 9, for locks on whole files.\<close>

definition lk_in :: "conn_info \<Rightarrow> fuse_file_info \<Rightarrow> u64 \<Rightarrow> u64 \<Rightarrow> u32 \<Rightarrow> u32 \<Rightarrow> u32 \<Rightarrow> u8 list" where
  "lk_in c fi start stop type pid fl = u64_bytes (fi_fh fi) @ u64_bytes (fi_lock_owner fi) @ u64_bytes start @ u64_bytes stop @
     u32_bytes type @ u32_bytes pid @ (if minor_at_least 9 c then u32_bytes fl @ u32_bytes 0 else [])"

definition flock_stop :: "ll_flock \<Rightarrow> u64" where
  "flock_stop fl = (if lf_len fl = 0 then LL_OFFSET_MAX else lf_start fl + lf_len fl - 1)"

definition fsync_in :: "fuse_file_info \<Rightarrow> bool \<Rightarrow> u8 list" where
  "fsync_in fi ds = u64_bytes (fi_fh fi) @ u32_bytes (flag32 ds 1) @ u32_bytes 0"

definition forgets_bytes :: "(u64 \<times> u64) list \<Rightarrow> u8 list" where
  "forgets_bytes fs = concat (map (\<lambda>(i, l). u64_bytes i @ u64_bytes l) fs)"

fun message_of :: "conn_info \<Rightarrow> ll_call \<Rightarrow> nat \<times> u64 \<times> u8 list" where
  "message_of c (Lookup i n) = (OP_LOOKUP, i, cstr n)"
| "message_of c (Forget i l) = (OP_FORGET, i, u64_bytes l)"
| "message_of c (Forget_multi fs) = (OP_BATCH_FORGET, 0, u32_bytes (of_nat (length fs)) @ u32_bytes 0 @ forgets_bytes fs)"
| "message_of c (Getattr i fh) = (OP_GETATTR, i,
     if minor_at_least 9 c then u32_bytes (flag32 (fh \<noteq> None) 1) @ u32_bytes 0 @ u64_bytes (case fh of None \<Rightarrow> 0 | Some h \<Rightarrow> h) else [])"
| "message_of c (Setattr i st valid fh) = (OP_SETATTR, i,
     u32_bytes (valid OR flag32 (fh \<noteq> None) FATTR_FH) @ u32_bytes 0 @ u64_bytes (case fh of None \<Rightarrow> 0 | Some h \<Rightarrow> h) @ u64_bytes (st_size st) @
     u64_bytes 0 @ u64_bytes (st_atime st) @ u64_bytes (st_mtime st) @ u64_bytes (st_ctime st) @ u32_bytes (ucast (st_atimensec st)) @
     u32_bytes (ucast (st_mtimensec st)) @ u32_bytes (ucast (st_ctimensec st)) @ u32_bytes (st_mode st) @ u32_bytes 0 @
     u32_bytes (st_uid st) @ u32_bytes (st_gid st) @ u32_bytes 0)"
| "message_of c (Access i acc) = (OP_ACCESS, i, u32_bytes acc @ u32_bytes 0)"
| "message_of c (Readlink i) = (OP_READLINK, i, [])"
| "message_of c (Mknod i n mode rdev um) = (OP_MKNOD, i,
     u32_bytes mode @ u32_bytes rdev @ (if minor_at_least 12 c then u32_bytes um @ u32_bytes 0 else []) @ cstr n)"
| "message_of c (Mkdir i n mode um) = (OP_MKDIR, i, u32_bytes mode @ u32_bytes um @ cstr n)"
| "message_of c (Unlink i n) = (OP_UNLINK, i, cstr n)"
| "message_of c (Rmdir i n) = (OP_RMDIR, i, cstr n)"
| "message_of c (Symlink l i n) = (OP_SYMLINK, i, cstr n @ cstr l)"
| "message_of c (Rename i n d n' fl) =
     (if fl = 0 then (OP_RENAME, i, u64_bytes d @ cstr n @ cstr n')
      else (OP_RENAME2, i, u64_bytes d @ u32_bytes fl @ u32_bytes 0 @ cstr n @ cstr n'))"
| "message_of c (Link old i n) = (OP_LINK, i, u64_bytes old @ cstr n)"
| "message_of c (Tmpfile i mode fi um) = (OP_TMPFILE, i, u32_bytes (fi_flags fi) @ u32_bytes mode @ u32_bytes um @ u32_bytes 0)"
| "message_of c (Create i n mode fi um) = (OP_CREATE, i,
     u32_bytes (fi_flags fi) @ u32_bytes mode @ (if minor_at_least 12 c then u32_bytes um @ u32_bytes 0 else []) @ cstr n)"
| "message_of c (Open i fi) = (OP_OPEN, i, u32_bytes (fi_flags fi) @ u32_bytes 0)"
| "message_of c (Read i sz off fi) = (OP_READ, i, read_in c (fi_fh fi) off sz 0 fi)"
| "message_of c (Write i d off fi) = (OP_WRITE, i, read_in c (fi_fh fi) off (of_nat (length d)) (flag32 (fi_writepage fi) 1) fi @ d)"
| "message_of c (Flush i fi) = (OP_FLUSH, i, u64_bytes (fi_fh fi) @ u32_bytes 0 @ u32_bytes 0 @
     (if minor_at_least 7 c then u64_bytes (fi_lock_owner fi) else []))"
| "message_of c (Release i fi) = (OP_RELEASE, i, u64_bytes (fi_fh fi) @ u32_bytes (fi_flags fi) @
     u32_bytes (flag32 (fi_flush fi) 1 OR flag32 (fi_flock_release fi) 2) @ u64_bytes (fi_lock_owner fi))"
| "message_of c (Fsync i ds fi) = (OP_FSYNC, i, fsync_in fi ds)"
| "message_of c (Opendir i fi) = (OP_OPENDIR, i, u32_bytes (fi_flags fi) @ u32_bytes 0)"
| "message_of c (Readdir i sz off fi) = (OP_READDIR, i, read_in c (fi_fh fi) off sz 0 fi)"
| "message_of c (Readdirplus i sz off fi) = (OP_READDIRPLUS, i, read_in c (fi_fh fi) off sz 0 fi)"
| "message_of c (Releasedir i fi) = (OP_RELEASEDIR, i, u64_bytes (fi_fh fi) @ u32_bytes (fi_flags fi) @ u32_bytes 0 @
     (if minor_at_least 8 c then u64_bytes 0 else []))"
| "message_of c (Fsyncdir i ds fi) = (OP_FSYNCDIR, i, fsync_in fi ds)"
| "message_of c (Statfs i) = (OP_STATFS, i, [])"
| "message_of c (Setxattr i n v fl) = (OP_SETXATTR, i,
     u32_bytes (of_nat (length v)) @ u32_bytes fl @
     (if has_flag (want_ext c) FUSE_CAP_SETXATTR_EXT then u32_bytes 0 @ u32_bytes 0 else []) @ cstr n @ v)"
| "message_of c (Getxattr i n sz) = (OP_GETXATTR, i, u32_bytes sz @ u32_bytes 0 @ cstr n)"
| "message_of c (Listxattr i sz) = (OP_LISTXATTR, i, u32_bytes sz @ u32_bytes 0)"
| "message_of c (Removexattr i n) = (OP_REMOVEXATTR, i, cstr n)"
| "message_of c (Getlk i fi fl) = (OP_GETLK, i, lk_in c fi (lf_start fl) (flock_stop fl) (ucast (lf_type fl)) (lf_pid fl) 0)"
| "message_of c (Setlk i fi fl sleep) = (if sleep then OP_SETLKW else OP_SETLK, i,
     lk_in c fi (lf_start fl) (flock_stop fl) (ucast (lf_type fl)) (lf_pid fl) 0)"
| "message_of c (Flock i fi lop) = (if lop = 1 \<or> lop = 2 \<or> lop = 8 then OP_SETLKW else OP_SETLK, i,
     lk_in c fi 0 0 (if lop = 1 \<or> lop = 5 then 0 else if lop = 2 \<or> lop = 6 then 1 else 2) 0 1)"
| "message_of c (Bmap i bsz bl) = (OP_BMAP, i, u64_bytes bl @ u32_bytes bsz @ u32_bytes 0)"
| "message_of c (Ioctl i cmd a fi fl buf outsz) = (OP_IOCTL, i,
     u64_bytes (fi_fh fi) @ u32_bytes fl @ u32_bytes cmd @ u64_bytes a @
     u32_bytes (case buf of None \<Rightarrow> 0 | Some b \<Rightarrow> of_nat (length b)) @ u32_bytes outsz @ (case buf of None \<Rightarrow> [] | Some b \<Rightarrow> b))"
| "message_of c (Poll i fi ph) = (OP_POLL, i,
     u64_bytes (fi_fh fi) @ u64_bytes (case ph of None \<Rightarrow> 0 | Some k \<Rightarrow> k) @ u32_bytes (flag32 (ph \<noteq> None) 1) @ u32_bytes (fi_poll_events fi))"
| "message_of c (Fallocate i mode off len fi) = (OP_FALLOCATE, i,
     u64_bytes (fi_fh fi) @ u64_bytes off @ u64_bytes len @ u32_bytes mode @ u32_bytes 0)"
| "message_of c (Copy_file_range i offi fi j offo fo len fl) = (OP_COPY_FILE_RANGE, i,
     u64_bytes (fi_fh fi) @ u64_bytes offi @ u64_bytes j @ u64_bytes (fi_fh fo) @ u64_bytes offo @ u64_bytes len @ u64_bytes fl)"
| "message_of c (Lseek i off wh fi) = (OP_LSEEK, i, u64_bytes (fi_fh fi) @ u64_bytes off @ u32_bytes wh @ u32_bytes 0)"

text \<open>
  The calls that the protocol can express: names have no NUL, sizes fit into their fields, and
  what an old version of the protocol does not carry is 0.
\<close>

abbreviation name_ok :: "u8 list \<Rightarrow> bool" where "name_ok n \<equiv> 0 \<notin> set n"

definition fi_only_fh :: "fuse_file_info \<Rightarrow> bool" where "fi_only_fh fi \<longleftrightarrow> zero_fi\<lparr>fi_fh := fi_fh fi\<rparr> = fi"
definition fi_only_flags :: "fuse_file_info \<Rightarrow> bool" where "fi_only_flags fi \<longleftrightarrow> zero_fi\<lparr>fi_flags := fi_flags fi\<rparr> = fi"
definition fi_only_lock :: "fuse_file_info \<Rightarrow> bool" where
  "fi_only_lock fi \<longleftrightarrow> zero_fi\<lparr>fi_fh := fi_fh fi, fi_lock_owner := fi_lock_owner fi\<rparr> = fi"
definition fi_read :: "conn_info \<Rightarrow> fuse_file_info \<Rightarrow> bool" where
  "fi_read c fi \<longleftrightarrow> zero_fi\<lparr>fi_fh := fi_fh fi, fi_lock_owner := fi_lock_owner fi, fi_flags := fi_flags fi, fi_writepage := fi_writepage fi\<rparr> = fi \<and>
     (minor_at_least 9 c \<or> fi_lock_owner fi = 0 \<and> fi_flags fi = 0)"
definition flock_ok :: "ll_flock \<Rightarrow> bool" where
  "flock_ok fl \<longleftrightarrow> (lf_len fl \<noteq> 0 \<longrightarrow> lf_start fl + lf_len fl - 1 \<noteq> LL_OFFSET_MAX)"
definition stat_settable :: "stat \<Rightarrow> bool" where
  "stat_settable st \<longleftrightarrow>
     zero_stat\<lparr>st_mode := st_mode st, st_uid := st_uid st, st_gid := st_gid st, st_size := st_size st, st_atime := st_atime st,
       st_mtime := st_mtime st, st_ctime := st_ctime st, st_atimensec := ucast (ucast (st_atimensec st) :: u32),
       st_mtimensec := ucast (ucast (st_mtimensec st) :: u32), st_ctimensec := ucast (ucast (st_ctimensec st) :: u32)\<rparr> = st"

fun wf_call :: "conn_info \<Rightarrow> ll_call \<Rightarrow> bool" where
  "wf_call c (Lookup i n) = name_ok n"
| "wf_call c (Forget_multi fs) = (length fs < 2 ^ 32)"
| "wf_call c (Getattr i fh) = (minor_at_least 9 c \<or> fh = None)"
| "wf_call c (Setattr i st valid fh) = (stat_settable st \<and> valid AND SET_ATTR_MASK = valid)"
| "wf_call c (Mknod i n mode rdev um) = (name_ok n \<and> (minor_at_least 12 c \<or> um = 0))"
| "wf_call c (Mkdir i n mode um) = (name_ok n \<and> (minor_at_least 12 c \<or> um = 0))"
| "wf_call c (Unlink i n) = name_ok n"
| "wf_call c (Rmdir i n) = name_ok n"
| "wf_call c (Symlink l i n) = (name_ok n \<and> name_ok l)"
| "wf_call c (Rename i n d n' fl) = (name_ok n \<and> name_ok n')"
| "wf_call c (Link old i n) = name_ok n"
| "wf_call c (Tmpfile i mode fi um) = (fi_only_flags fi \<and> (minor_at_least 12 c \<or> um = 0))"
| "wf_call c (Create i n mode fi um) = (name_ok n \<and> fi_only_flags fi \<and> (minor_at_least 12 c \<or> um = 0))"
| "wf_call c (Open i fi) = fi_only_flags fi"
| "wf_call c (Read i sz off fi) = (fi_read c fi \<and> \<not> fi_writepage fi)"
| "wf_call c (Write i d off fi) = (fi_read c fi \<and> length d < 2 ^ 32)"
| "wf_call c (Flush i fi) = (zero_fi\<lparr>fi_fh := fi_fh fi, fi_flush := True, fi_lock_owner := fi_lock_owner fi\<rparr> = fi \<and>
     (minor_at_least 7 c \<or> fi_lock_owner fi = 0))"
| "wf_call c (Release i fi) =
     (zero_fi\<lparr>fi_flags := fi_flags fi, fi_fh := fi_fh fi, fi_flush := fi_flush fi, fi_lock_owner := fi_lock_owner fi,
        fi_flock_release := fi_flock_release fi\<rparr> = fi \<and>
      (minor_at_least 8 c \<or> \<not> fi_flush fi \<and> (fi_flock_release fi \<or> fi_lock_owner fi = 0)))"
| "wf_call c (Fsync i ds fi) = fi_only_fh fi"
| "wf_call c (Opendir i fi) = fi_only_flags fi"
| "wf_call c (Readdir i sz off fi) = fi_only_fh fi"
| "wf_call c (Readdirplus i sz off fi) = fi_only_fh fi"
| "wf_call c (Releasedir i fi) = (zero_fi\<lparr>fi_flags := fi_flags fi, fi_fh := fi_fh fi\<rparr> = fi)"
| "wf_call c (Fsyncdir i ds fi) = fi_only_fh fi"
| "wf_call c (Setxattr i n v fl) = (name_ok n \<and> length v < 2 ^ 32)"
| "wf_call c (Getxattr i n sz) = name_ok n"
| "wf_call c (Removexattr i n) = name_ok n"
| "wf_call c (Getlk i fi fl) = (fi_only_lock fi \<and> flock_ok fl)"
| "wf_call c (Setlk i fi fl sleep) = (fi_only_lock fi \<and> flock_ok fl)"
| "wf_call c (Flock i fi lop) = (minor_at_least 9 c \<and> fi_only_lock fi \<and> lop \<in> {1, 2, 8, 5, 6, 12})"
| "wf_call c (Ioctl i cmd a fi fl buf outsz) =
     (fi_only_fh fi \<and> (bit fl 4 \<longrightarrow> has_flag (want_ext c) FUSE_CAP_IOCTL_DIR) \<and>
      (case buf of None \<Rightarrow> True | Some b \<Rightarrow> b \<noteq> [] \<and> length b < 2 ^ 32))"
| "wf_call c (Poll i fi ph) = (zero_fi\<lparr>fi_fh := fi_fh fi, fi_poll_events := fi_poll_events fi\<rparr> = fi)"
| "wf_call c (Fallocate i mode off len fi) = fi_only_fh fi"
| "wf_call c (Copy_file_range i offi fi j offo fo len fl) = (fi_only_fh fi \<and> fi_only_fh fo)"
| "wf_call c (Lseek i off wh fi) = fi_only_fh fi"
| "wf_call c _ = True"

fun op_of :: "ll_call \<Rightarrow> ll_op" where
  "op_of (Lookup _ _) = Op_lookup"
| "op_of (Forget _ _) = Op_forget"
| "op_of (Forget_multi _) = Op_forget_multi"
| "op_of (Getattr _ _) = Op_getattr"
| "op_of (Setattr _ _ _ _) = Op_setattr"
| "op_of (Access _ _) = Op_access"
| "op_of (Readlink _) = Op_readlink"
| "op_of (Mknod _ _ _ _ _) = Op_mknod"
| "op_of (Mkdir _ _ _ _) = Op_mkdir"
| "op_of (Unlink _ _) = Op_unlink"
| "op_of (Rmdir _ _) = Op_rmdir"
| "op_of (Symlink _ _ _) = Op_symlink"
| "op_of (Rename _ _ _ _ _) = Op_rename"
| "op_of (Link _ _ _) = Op_link"
| "op_of (Tmpfile _ _ _ _) = Op_tmpfile"
| "op_of (Create _ _ _ _ _) = Op_create"
| "op_of (Open _ _) = Op_open"
| "op_of (Read _ _ _ _) = Op_read"
| "op_of (Write _ _ _ _) = Op_write"
| "op_of (Flush _ _) = Op_flush"
| "op_of (Release _ _) = Op_release"
| "op_of (Fsync _ _ _) = Op_fsync"
| "op_of (Opendir _ _) = Op_opendir"
| "op_of (Readdir _ _ _ _) = Op_readdir"
| "op_of (Readdirplus _ _ _ _) = Op_readdirplus"
| "op_of (Releasedir _ _) = Op_releasedir"
| "op_of (Fsyncdir _ _ _) = Op_fsyncdir"
| "op_of (Statfs _) = Op_statfs"
| "op_of (Setxattr _ _ _ _) = Op_setxattr"
| "op_of (Getxattr _ _ _) = Op_getxattr"
| "op_of (Listxattr _ _) = Op_listxattr"
| "op_of (Removexattr _ _) = Op_removexattr"
| "op_of (Getlk _ _ _) = Op_getlk"
| "op_of (Setlk _ _ _ _) = Op_setlk"
| "op_of (Flock _ _ _) = Op_flock"
| "op_of (Bmap _ _ _) = Op_bmap"
| "op_of (Ioctl _ _ _ _ _ _ _) = Op_ioctl"
| "op_of (Poll _ _ _) = Op_poll"
| "op_of (Fallocate _ _ _ _ _) = Op_fallocate"
| "op_of (Copy_file_range _ _ _ _ _ _ _ _) = Op_copy_file_range"
| "op_of (Lseek _ _ _ _) = Op_lseek"

text \<open>Who serves a call, and how: a write is for \<^verbatim>\<open>write_buf\<close> if there is one.\<close>

definition served :: "ops \<Rightarrow> ll_call \<Rightarrow> bool" where
  "served has call \<longleftrightarrow> has (op_of call) \<or> op_of call = Op_write \<and> has Op_write_buf"

definition called :: "ops \<Rightarrow> ll_call \<Rightarrow> action" where
  "called has call =
     (case call of
        Write i d off fi \<Rightarrow> if has Op_write_buf then Call_write_buf i (Some d) (of_nat (length d)) off fi else Call call
      | _ \<Rightarrow> Call call)"

text \<open>A request to set a lock from before the flags of locks.\<close>

definition old_setlk :: "conn_info \<Rightarrow> ll_call \<Rightarrow> bool" where
  "old_setlk c call \<longleftrightarrow> op_of call = Op_setlk \<and> \<not> minor_at_least 9 c"

section \<open>Every message is understood\<close>

lemmas rd_defs = rd32_def rd64_def rd_bytes_def rd_str_def u32_at_def u64_at_def

lemma unat_lt64: "unat (x :: u32) < 2 ^ 64"
  using unsigned_less [of x, where 'a = nat] by simp

lemma rd_forgets_bytes:
  "k = length xs \<Longrightarrow> rd_forgets k (length fs) (xs @ forgets_bytes fs) = Some fs"
proof (induction fs arbitrary: k xs)
  case (Cons p fs)
  obtain i l where p: "p = (i, l)" by fastforce
  have "rd_forgets (k + 16) (length fs) ((xs @ u64_bytes i @ u64_bytes l) @ forgets_bytes fs) = Some fs"
    by (rule Cons.IH) (simp add: Cons.prems)
  then show ?case using Cons.prems by (simp add: p forgets_bytes_def rd_defs)
qed simp

lemma FATTR_FH_nonzero: "FATTR_FH \<noteq> 0"
  by (simp add: FATTR_FH_def)

lemma valid_bits:
  assumes "valid AND SET_ATTR_MASK = valid"
  shows "(valid OR FATTR_FH) AND FATTR_FH \<noteq> 0" "((valid OR FATTR_FH) AND NOT FATTR_FH) AND SET_ATTR_MASK = valid" "valid AND FATTR_FH = 0"
proof -
  have m: "SET_ATTR_MASK AND FATTR_FH = 0" "FATTR_FH AND NOT FATTR_FH = 0" "FATTR_FH AND FATTR_FH = FATTR_FH" "FATTR_FH \<noteq> 0"
    by (simp_all add: SET_ATTR_MASK_def FATTR_FH_def)
  have "valid AND FATTR_FH = valid AND (SET_ATTR_MASK AND FATTR_FH)" using assms by (simp add: and.assoc [symmetric])
  then show 0: "valid AND FATTR_FH = 0" using m by simp
  show "(valid OR FATTR_FH) AND FATTR_FH \<noteq> 0" using 0 m by (simp add: bit.conj_disj_distrib2)
  have "(valid OR FATTR_FH) AND NOT FATTR_FH = valid"
    using 0 by (simp add: bit.conj_disj_distrib2 bit_eq_iff bit_simps) (metis bit_and_iff bit_0)
  then show "((valid OR FATTR_FH) AND NOT FATTR_FH) AND SET_ATTR_MASK = valid" using assms by simp
qed

lemma rd_str_here: "name_ok n \<Longrightarrow> rd_str 0 (n @ 0 # rest) = Some n"
  by (simp add: rd_str_def c_str_append_nul)

lemma rd_str_add: "rd_str (k + length n + 1) (xs @ n @ 0 # rest) = rd_str k (xs @ rest)" if "k = length xs"
  using that by (simp add: rd_str_def)

lemmas handler_defs = do_lookup_def do_forget_def do_batch_forget_def do_getattr_def do_setattr_def do_access_def do_readlink_def
  do_mknod_def do_mkdir_def do_unlink_def do_rmdir_def do_symlink_def do_rename_def do_rename2_def do_link_def do_tmpfile_def
  do_create_def do_open_def do_read_def do_write_def do_flush_def do_release_def do_fsync_def do_opendir_def do_readdir_def
  do_readdirplus_def do_releasedir_def do_fsyncdir_def do_statfs_def do_setxattr_def do_getxattr_def do_listxattr_def
  do_removexattr_def do_getlk_def do_setlk_common_def do_setlk_def do_setlkw_def do_bmap_def do_ioctl_def do_poll_def
  do_fallocate_def do_copy_file_range_def do_lseek_def

lemmas arg_defs = convert_attr_def read_fi_def write_fi_def write_in_size_def fsync_args_def readdir_args_def lk_fi_def lk_flock_def
  convert_fuse_file_lock_def flock_op_def

lemmas message_defs = cstr_def minor_at_least_def flag32_def read_in_def lk_in_def flock_stop_def fsync_in_def

lemmas wf_defs = fi_only_fh_def fi_only_flags_def fi_only_lock_def fi_read_def flock_ok_def stat_settable_def

lemma handlers_found:
  "handle_request m c has OP_LOOKUP i bs = do_lookup has i bs"
  "handle_request m c has OP_FORGET i bs = do_forget has i bs"
  "handle_request m c has OP_GETATTR i bs = do_getattr c has i bs"
  "handle_request m c has OP_SETATTR i bs = do_setattr has i bs"
  "handle_request m c has OP_READLINK i bs = do_readlink has i bs"
  "handle_request m c has OP_SYMLINK i bs = do_symlink has i bs"
  "handle_request m c has OP_MKNOD i bs = do_mknod c has i bs"
  "handle_request m c has OP_MKDIR i bs = do_mkdir c has i bs"
  "handle_request m c has OP_UNLINK i bs = do_unlink has i bs"
  "handle_request m c has OP_RMDIR i bs = do_rmdir has i bs"
  "handle_request m c has OP_RENAME i bs = do_rename has i bs"
  "handle_request m c has OP_LINK i bs = do_link has i bs"
  "handle_request m c has OP_OPEN i bs = do_open c has i bs"
  "handle_request m c has OP_READ i bs = do_read c has i bs"
  "\<not> has Op_write_buf \<Longrightarrow> handle_request m c has OP_WRITE i bs = do_write c has i bs"
  "handle_request m c has OP_STATFS i bs = do_statfs has i bs"
  "handle_request m c has OP_RELEASE i bs = do_release c has i bs"
  "handle_request m c has OP_FSYNC i bs = do_fsync has i bs"
  "handle_request m c has OP_SETXATTR i bs = do_setxattr c has i bs"
  "handle_request m c has OP_GETXATTR i bs = do_getxattr has i bs"
  "handle_request m c has OP_LISTXATTR i bs = do_listxattr has i bs"
  "handle_request m c has OP_REMOVEXATTR i bs = do_removexattr has i bs"
  "handle_request m c has OP_FLUSH i bs = do_flush c has i bs"
  "handle_request m c has OP_OPENDIR i bs = do_opendir c has i bs"
  "handle_request m c has OP_READDIR i bs = do_readdir has i bs"
  "handle_request m c has OP_RELEASEDIR i bs = do_releasedir has i bs"
  "handle_request m c has OP_FSYNCDIR i bs = do_fsyncdir has i bs"
  "handle_request m c has OP_GETLK i bs = do_getlk has i bs"
  "handle_request m c has OP_SETLK i bs = do_setlk has i bs"
  "handle_request m c has OP_SETLKW i bs = do_setlkw has i bs"
  "handle_request m c has OP_ACCESS i bs = do_access has i bs"
  "handle_request m c has OP_CREATE i bs = do_create c has i bs"
  "handle_request m c has OP_TMPFILE i bs = do_tmpfile c has i bs"
  "handle_request m c has OP_BMAP i bs = do_bmap has i bs"
  "handle_request m c has OP_IOCTL i bs = do_ioctl c has i bs"
  "handle_request m c has OP_POLL i bs = do_poll m has i bs"
  "handle_request m c has OP_FALLOCATE i bs = do_fallocate has i bs"
  "handle_request m c has OP_BATCH_FORGET i bs = do_batch_forget m has bs"
  "handle_request m c has OP_READDIRPLUS i bs = do_readdirplus has i bs"
  "handle_request m c has OP_RENAME2 i bs = do_rename2 has i bs"
  "handle_request m c has OP_COPY_FILE_RANGE i bs = do_copy_file_range has i bs"
  "handle_request m c has OP_LSEEK i bs = do_lseek has i bs"
  unfolding handle_request_def arg_handlers_def opcodes by simp_all

lemmas understood_defs = handlers_found handler_defs arg_defs message_defs wf_defs rd_defs call_or_def c_str_append_nul c_str_no_nul unat_of_nat

definition understood :: "schedule \<Rightarrow> conn_info \<Rightarrow> ops \<Rightarrow> ll_call \<Rightarrow> bool" where
  "understood m c has call \<longleftrightarrow> (case message_of c call of (opc, i, bs) \<Rightarrow> handle_request m c has opc i bs) = Some (called has call)"

lemma understood_forget_multi: "wf_call c (Forget_multi fs) \<Longrightarrow> has Op_forget_multi \<Longrightarrow> understood m c has (Forget_multi fs)"
  using rd_forgets_bytes [of 8 "u32_bytes (of_nat (length fs)) @ u32_bytes 0" fs]
  by (simp add: understood_def called_def understood_defs)

lemma understood_setattr: "wf_call c (Setattr i st valid fh) \<Longrightarrow> has Op_setattr \<Longrightarrow> understood m c has (Setattr i st valid fh)"
  by (cases fh) (simp_all add: understood_def called_def understood_defs valid_bits FATTR_FH_nonzero)

lemma understood_read: "wf_call c (Read i sz off fi) \<Longrightarrow> has Op_read \<Longrightarrow> understood m c has (Read i sz off fi)"
  by (cases fi) (auto simp: understood_def called_def understood_defs zero_fi_def)

lemma do_write_buf_eq:
  assumes "write_in_size c \<le> length arg" and "length arg < 2 ^ 63"
  shows "do_write_buf c nodeid arg False (of_nat (sizeof_in_header + length arg)) =
    Some (case do_write c (\<lambda>_. True) nodeid arg of
        Some (Call (Write i d off fi)) \<Rightarrow> Write_buf i (Some d) (of_nat (length d)) off fi
      | _ \<Rightarrow> Write_error LL_EIO)"
proof -
  let ?k = "write_in_size c"
  have k: "24 \<le> ?k" "minor_at_least 9 c \<Longrightarrow> ?k = 40" "24 \<le> length arg" "minor_at_least 9 c \<Longrightarrow> 40 \<le> length arg"
    using assms(1) by (auto simp: write_in_size_def minor_at_least_def not_le split: if_splits)
  obtain fi where fi: "write_fi c arg = Some fi"
    using k by (cases "minor_at_least 9 c") (auto simp: write_fi_def read_fi_def rd32_def rd64_def minor_at_least_def)
  obtain sz off where rd: "rd32 16 arg = Some sz" "rd64 8 arg = Some off" using k by (simp add: rd32_def rd64_def)
  have "word_of_nat (sizeof_in_header + length arg) - (of_nat sizeof_in_header + of_nat ?k) = (of_nat (length arg - ?k) :: u64)"
    using assms(1) by (simp add: of_nat_diff)
  moreover have "unat (of_nat (length arg - ?k) :: u64) = length arg - ?k" using assms(2) by (simp add: unat_of_nat)
  moreover have "unat (ucast sz :: u64) = unat sz" by (simp add: unsigned_ucast_eq take_bit_nat_eq_self [OF unat_lt64])
  ultimately have small: "word_of_nat (sizeof_in_header + length arg) - (of_nat sizeof_in_header + of_nat ?k) < (ucast sz :: u64) \<longleftrightarrow>
      length arg - ?k < unat sz" by (simp only: word_less_nat_alt)
  show ?thesis
  proof (cases "length arg - ?k < unat sz")
    case True
    then show ?thesis using fi rd small assms(1) by (simp add: do_write_buf_def do_write_def call_or_def rd_bytes_def)
  next
    case False
    then have "rd_bytes ?k (unat sz) arg = Some (take (unat sz) (drop ?k arg))" "length (take (unat sz) (drop ?k arg)) = unat sz"
      using assms(1) by (auto simp: rd_bytes_def)
    then show ?thesis using False fi rd small by (simp add: do_write_buf_def do_write_def call_or_def)
  qed
qed

lemma understood_write:
  assumes "wf_call c (Write i d off fi)" and "served has (Write i d off fi)"
  shows "understood m c has (Write i d off fi)"
proof -
  define arg where "arg = read_in c (fi_fh fi) off (of_nat (length d)) (flag32 (fi_writepage fi) 1) fi @ d"
  have d: "length d < 2 ^ 32" using assms(1) by simp
  have w: "do_write c has' i arg = Some (Call (Write i d off fi))" if "has' Op_write" for has'
    using assms(1) that by (cases fi) (auto simp: arg_def understood_defs zero_fi_def not_less)
  show ?thesis
  proof (cases "has Op_write_buf")
    case True
    have "write_in_size c \<le> length arg" "length arg < 2 ^ 63"
      using d by (auto simp: arg_def read_in_def write_in_size_def minor_at_least_def)
    from do_write_buf_eq [OF this, of i] w [of "\<lambda>_. True"]
    have "do_write_buf c i arg False (of_nat (sizeof_in_header + length arg)) = Some (Write_buf i (Some d) (of_nat (length d)) off fi)" by simp
    then show ?thesis using True by (simp add: understood_def called_def arg_def [symmetric] handle_request_def)
  next
    case False
    then show ?thesis using w [of has] assms(2) by (simp add: understood_def called_def arg_def handlers_found served_def)
  qed
qed

lemma understood_release: "wf_call c (Release i fi) \<Longrightarrow> has Op_release \<Longrightarrow> understood m c has (Release i fi)"
  by (cases "minor_at_least 8 c"; cases "fi_flush fi"; cases "fi_flock_release fi"; cases fi)
    (auto simp: understood_def called_def understood_defs zero_fi_def)

lemma ucast16_back: "ucast (ucast t :: u32) = (t :: 16 word)"
  by (rule bit_word_eqI) (simp add: bit_simps)

lemma flock_back: "flock_ok fl \<Longrightarrow> convert_fuse_file_lock (lf_start fl) (flock_stop fl) (ucast (lf_type fl)) (lf_pid fl) = fl"
  by (cases fl) (auto simp: convert_fuse_file_lock_def flock_stop_def flock_ok_def ucast16_back)

lemma understood_lock:
  "wf_call c (Getlk i fi fl) \<Longrightarrow> has Op_getlk \<Longrightarrow> understood m c has (Getlk i fi fl)"
  "wf_call c (Setlk i fi fl sleep) \<Longrightarrow> minor_at_least 9 c \<Longrightarrow> has Op_setlk \<Longrightarrow> understood m c has (Setlk i fi fl sleep)"
  using flock_back [of fl]
  by (auto simp: understood_def called_def handlers_found handler_defs lk_fi_def lk_flock_def lk_in_def rd_defs call_or_def fi_only_lock_def)

lemma word_of_length_0:
  assumes "length b < 2 ^ 32"
  shows "(word_of_nat (length b) :: u32) = 0 \<longleftrightarrow> b = []"
proof -
  have "unat (word_of_nat (length b) :: u32) = length b" using assms by (simp add: unat_of_nat)
  then show ?thesis by (metis length_0_conv unat_eq_zero)
qed

lemma understood_ioctl:
  "wf_call c (Ioctl i cmd a fi fl buf outsz) \<Longrightarrow> has Op_ioctl \<Longrightarrow> understood m c has (Ioctl i cmd a fi fl buf outsz)"
  by (cases buf) (auto simp: understood_def called_def understood_defs word_of_length_0)

lemma old_setlk_unread:
  assumes "old_setlk c call"
  shows "(case message_of c call of (opc, i, bs) \<Rightarrow> handle_request m c has opc i bs) = None"
  using assms by (cases call)
    (auto simp: old_setlk_def handlers_found do_setlk_def do_setlkw_def do_setlk_common_def lk_fi_def lk_in_def rd_defs)


text \<open>A write of three bytes in an old and in the current version of the protocol.\<close>

definition example_conn :: "u32 \<Rightarrow> conn_info" where
  "example_conn minor = (conn example_session)\<lparr>proto_minor := minor\<rparr>"


section \<open>Operations a file system does not have\<close>

definition missing_reply :: "conn_info \<Rightarrow> ops \<Rightarrow> ll_call \<Rightarrow> action" where
  "missing_reply c has call =
     (case call of
        Forget _ _ \<Rightarrow> Reply_none
      | Forget_multi fs \<Rightarrow> if has Op_forget then Forgets fs else Reply_none
      | Open _ fi \<Rightarrow> if has_flag (want_ext c) FUSE_CAP_NO_OPEN_SUPPORT then Reply_error LL_ENOSYS else Reply_opened fi
      | Opendir _ fi \<Rightarrow> if has_flag (want_ext c) FUSE_CAP_NO_OPENDIR_SUPPORT then Reply_error LL_ENOSYS else Reply_opened fi
      | Release _ _ \<Rightarrow> Reply_error 0
      | Releasedir _ _ \<Rightarrow> Reply_error 0
      | Statfs _ \<Rightarrow> Reply_statfs_default
      | _ \<Rightarrow> Reply_error LL_ENOSYS)"

definition answered :: "schedule \<Rightarrow> conn_info \<Rightarrow> ops \<Rightarrow> ll_call \<Rightarrow> bool" where
  "answered m c has call \<longleftrightarrow> (case message_of c call of (opc, i, bs) \<Rightarrow> handle_request m c has opc i bs) = Some (missing_reply c has call)"

lemma alloc_ok: "False \<notin> set m \<Longrightarrow> fst (alloc m) \<and> False \<notin> set (snd (alloc m))"
  by (cases m) auto

lemma forget_each_bytes:
  "k = length xs \<Longrightarrow> False \<notin> set m \<Longrightarrow> forget_each m k (length fs) (xs @ forgets_bytes fs) = Some fs"
proof (induction fs arbitrary: k xs m)
  case (Cons p fs)
  obtain i l where p: "p = (i, l)" by fastforce
  obtain m1 where m1: "alloc m = (True, m1)" "False \<notin> set m1" using alloc_ok [OF Cons.prems(2)] by (cases "alloc m") auto
  have "forget_each m1 (k + 16) (length fs) ((xs @ u64_bytes i @ u64_bytes l) @ forgets_bytes fs) = Some fs"
    by (rule Cons.IH) (use Cons.prems m1 in simp_all)
  then show ?case using Cons.prems m1 by (simp add: p forgets_bytes_def rd_defs)
qed simp

lemma answered_forget_multi:
  "wf_call c (Forget_multi fs) \<Longrightarrow> False \<notin> set m \<Longrightarrow> \<not> has Op_forget_multi \<Longrightarrow> answered m c has (Forget_multi fs)"
  using forget_each_bytes [of 8 "u32_bytes (of_nat (length fs)) @ u32_bytes 0" m fs]
  by (simp add: answered_def missing_reply_def understood_defs)

lemma answered_release: "\<not> has Op_release \<Longrightarrow> answered m c has (Release i fi)"
  by (cases "minor_at_least 8 c"; cases "fi_flush fi"; cases "fi_flock_release fi")
    (simp_all add: answered_def missing_reply_def understood_defs)



section \<open>Two ways to write\<close>

text \<open>
  C29: The two handlers of a write agree. For a message in memory, \<^verbatim>\<open>do_write_buf\<close> hands on the same data,
  offset and file as \<^verbatim>\<open>do_write\<close>; where \<^verbatim>\<open>do_write\<close> would read past the end of the message since it
  claims more data than it has, \<^verbatim>\<open>do_write_buf\<close> replies with \<^verbatim>\<open>EIO\<close>.
\<close>

theorem write_handlers_agree:
  assumes "write_in_size c \<le> length arg" and "length arg < 2 ^ 63"
  shows "do_write_buf c nodeid arg False (of_nat (sizeof_in_header + length arg)) =
    Some (case do_write c (\<lambda>_. True) nodeid arg of
        Some (Call (Write i d off fi)) \<Rightarrow> Write_buf i (Some d) (of_nat (length d)) off fi
      | _ \<Rightarrow> Write_error LL_EIO)"
  using assms by (rule do_write_buf_eq)

theorem write_handlers_agree_witness:
  "do_write_buf (example_conn 8) 5 (replicate 16 0 @ u32_bytes 9 @ replicate 4 0) False (of_nat (sizeof_in_header + 24)) = Some (Write_error LL_EIO)"
  using write_handlers_agree [of "example_conn 8" "replicate 16 0 @ u32_bytes 9 @ replicate 4 0" 5]
  by (simp add: write_in_size_def example_conn_def do_write_def write_fi_def read_fi_def rd_defs call_or_def)

end
