(* ===== verification/Replies.thy ===== *)
theory Replies
  imports ReqArgs
begin

text \<open>
  The replies of \<^verbatim>\<open>lib/fuse_lowlevel.c\<close>: the bytes of the message that is written to the kernel. Which
  error numbers the C library knows is a parameter, and so are the cache times, which the code computes with
  floating-point numbers: a time is the pair of seconds and nanoseconds that is sent.
\<close>

unbundle bit_operations_syntax

section \<open>Structures\<close>

type_synonym timeout = "u64 \<times> u32"

record entry_param =
  e_ino :: u64
  e_generation :: u64
  e_attr :: stat
  e_attr_timeout :: timeout
  e_entry_timeout :: timeout

record statvfs =
  f_bsize :: u64
  f_frsize :: u64
  f_blocks :: u64
  f_bfree :: u64
  f_bavail :: u64
  f_files :: u64
  f_ffree :: u64
  f_namemax :: u64

definition convert_stat :: "stat \<Rightarrow> u8 list" where
  "convert_stat st = u64_bytes (st_ino st) @ u64_bytes (st_size st) @ u64_bytes (st_blocks st) @ u64_bytes (st_atime st) @
     u64_bytes (st_mtime st) @ u64_bytes (st_ctime st) @ u32_bytes (ucast (st_atimensec st)) @ u32_bytes (ucast (st_mtimensec st)) @
     u32_bytes (ucast (st_ctimensec st)) @ u32_bytes (st_mode st) @ u32_bytes (ucast (st_nlink st)) @ u32_bytes (st_uid st) @
     u32_bytes (st_gid st) @ u32_bytes (ucast (st_rdev st)) @ u32_bytes (ucast (st_blksize st)) @ u32_bytes 0"

definition convert_statfs :: "statvfs \<Rightarrow> u8 list" where
  "convert_statfs st = u64_bytes (f_blocks st) @ u64_bytes (f_bfree st) @ u64_bytes (f_bavail st) @ u64_bytes (f_files st) @
     u64_bytes (f_ffree st) @ u32_bytes (ucast (f_bsize st)) @ u32_bytes (ucast (f_namemax st)) @ u32_bytes (ucast (f_frsize st)) @
     replicate 28 0"

definition fill_entry :: "entry_param \<Rightarrow> u8 list" where
  "fill_entry e = u64_bytes (e_ino e) @ u64_bytes (e_generation e) @ u64_bytes (fst (e_entry_timeout e)) @
     u64_bytes (fst (e_attr_timeout e)) @ u32_bytes (snd (e_entry_timeout e)) @ u32_bytes (snd (e_attr_timeout e)) @
     convert_stat (e_attr e)"

definition open_flags_of :: "fuse_file_info \<Rightarrow> u32" where
  "open_flags_of f =
     (let f0 = (if sint (fi_backing_id f) > 0 then 128 else 0);
          f1 = (if fi_direct_io f then f0 OR 1 else f0);
          f2 = (if fi_keep_cache f then f1 OR 2 else f1);
          f3 = (if fi_cache_readdir f then f2 OR 8 else f2);
          f4 = (if fi_nonseekable f then f3 OR 4 else f3);
          f5 = (if fi_noflush f then f4 OR 32 else f4) in
      if fi_parallel_direct_writes f then f5 OR 64 else f5)"

definition fill_open :: "fuse_file_info \<Rightarrow> u8 list" where
  "fill_open f = u64_bytes (fi_fh f) @ u32_bytes (open_flags_of f) @ u32_bytes (if sint (fi_backing_id f) > 0 then fi_backing_id f else 0)"

section \<open>Sending\<close>

definition sizeof_out_header :: nat where "sizeof_out_header = 16"

definition iov_length :: "u8 list list \<Rightarrow> nat" where
  "iov_length iov = sum_list (map length iov)"

definition REPLY_ERANGE :: int where "REPLY_ERANGE = 34"

definition fuse_send_reply_iov_nofree :: "(int \<Rightarrow> bool) \<Rightarrow> u64 \<Rightarrow> int \<Rightarrow> u8 list list \<Rightarrow> u8 list" where
  "fuse_send_reply_iov_nofree known uniq ern iov =
     (let err = (if \<not> known (- ern) \<and> ern \<noteq> 0 \<or> ern > 0 then - REPLY_ERANGE else ern) in
      u32_bytes (of_nat (sizeof_out_header + iov_length iov)) @ int_bytes err @ u64_bytes uniq @ concat iov)"

definition send_reply :: "(int \<Rightarrow> bool) \<Rightarrow> u64 \<Rightarrow> int \<Rightarrow> u8 list \<Rightarrow> u8 list" where
  "send_reply known uniq ern arg = fuse_send_reply_iov_nofree known uniq ern (if arg = [] then [] else [arg])"

section \<open>The replies\<close>

text \<open>
  The values with which a file system answers; an operation that may fail for lack of memory gets a
  schedule. Parts of a scattered reply are lists of bytes; the vectors of an \<^verbatim>\<open>ioctl\<close> are pairs of address and length.
\<close>

datatype reply =
    R_err int
  | R_entry entry_param
  | R_create entry_param fuse_file_info
  | R_attr stat timeout
  | R_readlink "u8 list"
  | R_open fuse_file_info
  | R_write u64
  | R_buf "u8 list"
  | R_iov "u8 list list"
  | R_statfs statvfs
  | R_xattr u64
  | R_lock ll_flock
  | R_bmap u64
  | R_ioctl_retry "(u64 \<times> u64) list" "(u64 \<times> u64) list"
  | R_ioctl u32 "u8 list"
  | R_ioctl_iov u32 "u8 list list"
  | R_poll u32
  | R_lseek u64

definition REPLY_ENOENT :: int where "REPLY_ENOENT = 2"
definition REPLY_ENOMEM :: int where "REPLY_ENOMEM = 12"

text \<open>What a reply sends: an error, or the parts after the header.\<close>

definition fuse_reply_entry :: "conn_info \<Rightarrow> entry_param \<Rightarrow> int + u8 list list" where
  "fuse_reply_entry c e =
     (if e_ino e = 0 \<and> proto_minor c < 4 then Inl REPLY_ENOENT
      else Inr [take (if proto_minor c < 9 then 120 else 128) (fill_entry e)])"

definition fuse_reply_create :: "conn_info \<Rightarrow> entry_param \<Rightarrow> fuse_file_info \<Rightarrow> u8 list list" where
  "fuse_reply_create c e f =
     (let entrysize = (if proto_minor c < 9 then 120 else 128);
          buf = put_at (put_at (replicate (128 + 16) 0) 0 (fill_entry e)) entrysize (fill_open f) in
      [take (entrysize + 16) buf])"

definition fuse_reply_attr :: "conn_info \<Rightarrow> stat \<Rightarrow> timeout \<Rightarrow> u8 list" where
  "fuse_reply_attr c st t =
     take (if proto_minor c < 9 then 96 else 104) (u64_bytes (fst t) @ u32_bytes (snd t) @ u32_bytes 0 @ convert_stat st)"

definition fuse_reply_statfs :: "conn_info \<Rightarrow> statvfs \<Rightarrow> u8 list" where
  "fuse_reply_statfs c st = take (if proto_minor c < 4 then 48 else 80) (convert_statfs st)"

definition F_UNLCK_NUM :: "16 word" where "F_UNLCK_NUM = 2"

definition fuse_reply_lock :: "ll_flock \<Rightarrow> u8 list" where
  "fuse_reply_lock l =
     (if lf_type l \<noteq> F_UNLCK_NUM then
        u64_bytes (lf_start l) @ u64_bytes (if lf_len l = 0 then LL_OFFSET_MAX else lf_start l + lf_len l - 1)
      else u64_bytes 0 @ u64_bytes 0) @ u32_bytes (ucast (lf_type l)) @ u32_bytes (lf_pid l)"

definition ioctl_out :: "u32 \<Rightarrow> u32 \<Rightarrow> nat \<Rightarrow> nat \<Rightarrow> u8 list" where
  "ioctl_out result fl inc outc = u32_bytes result @ u32_bytes fl @ u32_bytes (of_nat inc) @ u32_bytes (of_nat outc)"

definition fuse_ioctl_iovec_copy :: "(u64 \<times> u64) list \<Rightarrow> u8 list" where
  "fuse_ioctl_iovec_copy iov = concat (map (\<lambda>(base, len). u64_bytes base @ u64_bytes len) iov)"

text \<open>Pointers have 64 bits: before version 16 the vectors are sent as they are, with the same bytes.\<close>

definition fuse_reply_ioctl_retry :: "conn_info \<Rightarrow> schedule \<Rightarrow> (u64 \<times> u64) list \<Rightarrow> (u64 \<times> u64) list \<Rightarrow> int + u8 list list" where
  "fuse_reply_ioctl_retry c m inb outb =
     (let parts = [ioctl_out 0 4 (length inb) (length outb)] @
            (if inb \<noteq> [] then [fuse_ioctl_iovec_copy inb] else []) @ (if outb \<noteq> [] then [fuse_ioctl_iovec_copy outb] else []) in
      if proto_minor c < 16 then Inr parts
      else if inb \<noteq> [] \<and> \<not> fst (alloc m) then Inl REPLY_ENOMEM
      else if outb \<noteq> [] \<and> \<not> fst (alloc (if inb \<noteq> [] then snd (alloc m) else m)) then Inl REPLY_ENOMEM
      else Inr parts)"

definition fuse_reply_readlink :: "u8 list \<Rightarrow> u8 list" where
  "fuse_reply_readlink linkname = c_str linkname"

definition fuse_reply_open :: "fuse_file_info \<Rightarrow> u8 list" where
  "fuse_reply_open f = fill_open f"

definition fuse_reply_write :: "u64 \<Rightarrow> u8 list" where
  "fuse_reply_write count = u32_bytes (ucast count) @ u32_bytes 0"

definition fuse_reply_xattr :: "u64 \<Rightarrow> u8 list" where
  "fuse_reply_xattr count = u32_bytes (ucast count) @ u32_bytes 0"

definition fuse_reply_bmap :: "u64 \<Rightarrow> u8 list" where
  "fuse_reply_bmap idx = u64_bytes idx"

definition fuse_reply_iov :: "schedule \<Rightarrow> u8 list list \<Rightarrow> int + u8 list list" where
  "fuse_reply_iov m iov = (if fst (alloc m) then Inr iov else Inl REPLY_ENOMEM)"

definition fuse_reply_ioctl :: "u32 \<Rightarrow> u8 list \<Rightarrow> u8 list list" where
  "fuse_reply_ioctl result buf = ioctl_out result 0 0 0 # (if buf = [] then [] else [buf])"

definition fuse_reply_ioctl_iov :: "schedule \<Rightarrow> u32 \<Rightarrow> u8 list list \<Rightarrow> int + u8 list list" where
  "fuse_reply_ioctl_iov m result iov = (if fst (alloc m) then Inr (ioctl_out result 0 0 0 # iov) else Inl REPLY_ENOMEM)"

definition fuse_reply_poll :: "u32 \<Rightarrow> u8 list" where
  "fuse_reply_poll revents = u32_bytes revents @ u32_bytes 0"

definition fuse_reply_lseek :: "u64 \<Rightarrow> u8 list" where
  "fuse_reply_lseek off = u64_bytes off"

text \<open>\<^verbatim>\<open>send_reply_ok\<close> sends no part when there are no bytes.\<close>

definition send_reply_ok :: "u8 list \<Rightarrow> int + u8 list list" where
  "send_reply_ok arg = Inr (if arg = [] then [] else [arg])"

fun reply_parts :: "conn_info \<Rightarrow> schedule \<Rightarrow> reply \<Rightarrow> int + u8 list list" where
  "reply_parts c m (R_err e) = Inl e"
| "reply_parts c m (R_entry e) = fuse_reply_entry c e"
| "reply_parts c m (R_create e f) = Inr (fuse_reply_create c e f)"
| "reply_parts c m (R_attr st t) = send_reply_ok (fuse_reply_attr c st t)"
| "reply_parts c m (R_readlink n) = send_reply_ok (fuse_reply_readlink n)"
| "reply_parts c m (R_open f) = send_reply_ok (fuse_reply_open f)"
| "reply_parts c m (R_write n) = send_reply_ok (fuse_reply_write n)"
| "reply_parts c m (R_buf bs) = send_reply_ok bs"
| "reply_parts c m (R_iov iov) = fuse_reply_iov m iov"
| "reply_parts c m (R_statfs st) = send_reply_ok (fuse_reply_statfs c st)"
| "reply_parts c m (R_xattr n) = send_reply_ok (fuse_reply_xattr n)"
| "reply_parts c m (R_lock l) = send_reply_ok (fuse_reply_lock l)"
| "reply_parts c m (R_bmap idx) = send_reply_ok (fuse_reply_bmap idx)"
| "reply_parts c m (R_ioctl_retry inb outb) = fuse_reply_ioctl_retry c m inb outb"
| "reply_parts c m (R_ioctl res bs) = Inr (fuse_reply_ioctl res bs)"
| "reply_parts c m (R_ioctl_iov res iov) = fuse_reply_ioctl_iov m res iov"
| "reply_parts c m (R_poll ev) = send_reply_ok (fuse_reply_poll ev)"
| "reply_parts c m (R_lseek off) = send_reply_ok (fuse_reply_lseek off)"

definition send_answer :: "(int \<Rightarrow> bool) \<Rightarrow> conn_info \<Rightarrow> schedule \<Rightarrow> u64 \<Rightarrow> reply \<Rightarrow> u8 list" where
  "send_answer known c m uniq r =
     (case reply_parts c m r of
        Inl e \<Rightarrow> send_reply known uniq (- e) []
      | Inr iov \<Rightarrow> fuse_send_reply_iov_nofree known uniq 0 iov)"

section \<open>What the kernel sees\<close>

lemma length_parts [simp]:
  "length (convert_stat st) = 88" "length (convert_statfs sf) = 80" "length (fill_entry e) = 128" "length (fill_open f) = 16"
  by (simp_all add: convert_stat_def convert_statfs_def fill_entry_def fill_open_def)

lemma create_buffer:
  "fuse_reply_create c e f = [take (if proto_minor c < 9 then 120 else 128) (fill_entry e) @ fill_open f]"
  by (simp add: fuse_reply_create_def put_at_def Let_def)

text \<open>The size of the fixed part that the kernel expects after the header.\<close>

fun expected_size :: "conn_info \<Rightarrow> reply \<Rightarrow> nat option" where
  "expected_size c (R_entry e) = Some (if proto_minor c < 9 then 120 else 128)"
| "expected_size c (R_create e f) = Some (if proto_minor c < 9 then 136 else 144)"
| "expected_size c (R_attr st t) = Some (if proto_minor c < 9 then 96 else 104)"
| "expected_size c (R_open f) = Some 16"
| "expected_size c (R_write n) = Some 8"
| "expected_size c (R_statfs st) = Some (if proto_minor c < 4 then 48 else 80)"
| "expected_size c (R_xattr n) = Some 8"
| "expected_size c (R_lock l) = Some 24"
| "expected_size c (R_bmap i) = Some 8"
| "expected_size c (R_poll ev) = Some 8"
| "expected_size c (R_lseek off) = Some 8"
| "expected_size c _ = None"

lemma send_reply_ok_concat: "send_reply_ok arg = Inr iov \<Longrightarrow> concat iov = arg"
  by (auto simp: send_reply_ok_def split: if_splits)

lemma send_reply_ok_no_error [simp]: "send_reply_ok arg \<noteq> Inl e"
  by (simp add: send_reply_ok_def)

lemmas reply_defs = fuse_reply_entry_def fuse_reply_attr_def fuse_reply_readlink_def fuse_reply_open_def
  fuse_reply_write_def fuse_reply_iov_def fuse_reply_statfs_def fuse_reply_xattr_def fuse_reply_lock_def fuse_reply_bmap_def
  fuse_reply_ioctl_def fuse_reply_ioctl_iov_def fuse_reply_poll_def fuse_reply_lseek_def

lemma parts_size: "reply_parts c m r = Inr iov \<Longrightarrow> expected_size c r = Some n \<Longrightarrow> length (concat iov) = n"
  by (cases r) (auto simp: reply_defs create_buffer dest!: send_reply_ok_concat split: if_splits)

lemma iov_length_concat: "iov_length iov = length (concat iov)"
  by (simp add: iov_length_def length_concat)

lemma send_iov_header:
  assumes "sizeof_out_header + length (concat iov) < 2 ^ 32" and "\<bar>ern\<bar> < 2 ^ 31"
  shows "let msg = fuse_send_reply_iov_nofree known uniq ern iov in
     unat (u32_at 0 msg) = length msg \<and> u64_at 8 msg = uniq \<and> drop sizeof_out_header msg = concat iov \<and>
     bytes_int (drop 4 msg) = (if known (- ern) \<and> ern \<le> 0 \<or> ern = 0 then ern else - REPLY_ERANGE)"
proof -
  have "unat (of_nat (16 + length (concat iov)) :: u32) = 16 + length (concat iov)"
    using assms(1) by (simp only: unat_of_nat sizeof_out_header_def) (simp add: take_bit_nat_eq_self)
  then have "unat (16 + word_of_nat (length (concat iov)) :: u32) = 16 + length (concat iov)" by simp
  with assms(2) show ?thesis
    by (auto simp: fuse_send_reply_iov_nofree_def Let_def sizeof_out_header_def u32_at_def u64_at_def iov_length_concat
        bytes_int_inverse REPLY_ERANGE_def)
qed

text \<open>
  What the kernel reads in the data of a reply, at the offsets that the structures of
  \<^verbatim>\<open>include/fuse_kernel.h\<close> have in this version of the protocol.
\<close>

definition attr_seen :: "stat \<Rightarrow> u8 list \<Rightarrow> bool" where
  "attr_seen st d \<longleftrightarrow> u64_at 0 d = st_ino st \<and> u64_at 8 d = st_size st \<and> u64_at 16 d = st_blocks st \<and> u64_at 24 d = st_atime st \<and>
     u64_at 32 d = st_mtime st \<and> u64_at 40 d = st_ctime st \<and> u32_at 48 d = ucast (st_atimensec st) \<and> u32_at 52 d = ucast (st_mtimensec st) \<and>
     u32_at 56 d = ucast (st_ctimensec st) \<and> u32_at 60 d = st_mode st \<and> u32_at 64 d = ucast (st_nlink st) \<and> u32_at 68 d = st_uid st \<and>
     u32_at 72 d = st_gid st \<and> u32_at 76 d = ucast (st_rdev st)"

definition entry_seen :: "entry_param \<Rightarrow> u8 list \<Rightarrow> bool" where
  "entry_seen e d \<longleftrightarrow> u64_at 0 d = e_ino e \<and> u64_at 8 d = e_generation e \<and> u64_at 16 d = fst (e_entry_timeout e) \<and>
     u64_at 24 d = fst (e_attr_timeout e) \<and> u32_at 32 d = snd (e_entry_timeout e) \<and> u32_at 36 d = snd (e_attr_timeout e) \<and>
     attr_seen (e_attr e) (drop 40 d)"

definition open_seen :: "fuse_file_info \<Rightarrow> u8 list \<Rightarrow> bool" where
  "open_seen f d \<longleftrightarrow> u64_at 0 d = fi_fh f \<and> bit (u32_at 8 d) 0 = fi_direct_io f \<and> bit (u32_at 8 d) 1 = fi_keep_cache f \<and>
     bit (u32_at 8 d) 2 = fi_nonseekable f \<and> bit (u32_at 8 d) 3 = fi_cache_readdir f \<and> bit (u32_at 8 d) 5 = fi_noflush f \<and>
     bit (u32_at 8 d) 6 = fi_parallel_direct_writes f \<and> (0 < sint (fi_backing_id f) \<longrightarrow> bit (u32_at 8 d) 7 \<and> u32_at 12 d = fi_backing_id f)"

fun data_seen :: "conn_info \<Rightarrow> reply \<Rightarrow> u8 list \<Rightarrow> bool" where
  "data_seen c (R_entry e) d = entry_seen e d"
| "data_seen c (R_create e f) d = (entry_seen e d \<and> open_seen f (drop (if proto_minor c < 9 then 120 else 128) d))"
| "data_seen c (R_attr st t) d = (u64_at 0 d = fst t \<and> u32_at 8 d = snd t \<and> attr_seen st (drop 16 d))"
| "data_seen c (R_readlink n) d = (d = takeWhile (\<lambda>b. b \<noteq> 0) n)"
| "data_seen c (R_open f) d = open_seen f d"
| "data_seen c (R_write n) d = (u32_at 0 d = ucast n)"
| "data_seen c (R_buf bs) d = (d = bs)"
| "data_seen c (R_iov iov) d = (d = concat iov)"
| "data_seen c (R_statfs st) d = (u64_at 0 d = f_blocks st \<and> u64_at 8 d = f_bfree st \<and> u64_at 16 d = f_bavail st \<and> u64_at 24 d = f_files st \<and>
     u64_at 32 d = f_ffree st \<and> u32_at 40 d = ucast (f_bsize st) \<and> u32_at 44 d = ucast (f_namemax st) \<and>
     (4 \<le> proto_minor c \<longrightarrow> u32_at 48 d = ucast (f_frsize st)))"
| "data_seen c (R_xattr n) d = (u32_at 0 d = ucast n)"
| "data_seen c (R_lock l) d = (u32_at 16 d = ucast (lf_type l) \<and> u32_at 20 d = lf_pid l \<and>
     (lf_type l \<noteq> 2 \<longrightarrow> u64_at 0 d = lf_start l \<and> u64_at 8 d = (if lf_len l = 0 then 0x7fffffffffffffff else lf_start l + lf_len l - 1)))"
| "data_seen c (R_bmap i) d = (u64_at 0 d = i)"
| "data_seen c (R_ioctl_retry inb outb) d = (u32_at 4 d = 4 \<and> u32_at 8 d = of_nat (length inb) \<and> u32_at 12 d = of_nat (length outb) \<and>
     drop 16 d = concat (map (\<lambda>(base, len). u64_bytes base @ u64_bytes len) (inb @ outb)))"
| "data_seen c (R_ioctl res bs) d = (u32_at 0 d = res \<and> u32_at 4 d = 0 \<and> drop 16 d = bs)"
| "data_seen c (R_ioctl_iov res iov) d = (u32_at 0 d = res \<and> u32_at 4 d = 0 \<and> drop 16 d = concat iov)"
| "data_seen c (R_poll ev) d = (u32_at 0 d = ev)"
| "data_seen c (R_lseek off) d = (u64_at 0 d = off)"
| "data_seen c (R_err e) d = False"

lemma at_take [simp]: "k + 8 \<le> n \<Longrightarrow> u64_at k (take n d) = u64_at k d" "k + 4 \<le> n \<Longrightarrow> u32_at k (take n d) = u32_at k d"
  by (simp_all add: u64_at_def u32_at_def drop_take)

lemma attr_seen_stat: "attr_seen st (convert_stat st @ rest)" "80 \<le> n \<Longrightarrow> attr_seen st (take n (convert_stat st))"
  by (simp_all add: attr_seen_def) (simp_all add: convert_stat_def u64_at_def u32_at_def)

lemma attr_seen_take: "attr_seen st (take n (convert_stat st) @ rest)" if "80 \<le> n"
proof -
  have a: "u64_at k (take n x @ rest) = u64_at k x" if "k + 8 \<le> 80" "length x = 88" for k x
  proof -
    have "8 \<le> n - k" "8 \<le> 88 - k" using \<open>80 \<le> n\<close> that by linarith+
    then show ?thesis using that by (simp add: u64_at_def drop_take min_def)
  qed
  have b: "u32_at k (take n x @ rest) = u32_at k x" if "k + 4 \<le> 80" "length x = 88" for k x
  proof -
    have "4 \<le> n - k" "4 \<le> 88 - k" using \<open>80 \<le> n\<close> that by linarith+
    then show ?thesis using that by (simp add: u32_at_def drop_take min_def)
  qed
  have "attr_seen st (convert_stat st)" using attr_seen_stat(1) [of st "[]"] by simp
  then show ?thesis unfolding attr_seen_def by (simp add: a b)
qed

lemma entry_seen_fill:
  assumes "n = 120 \<or> n = 128"
  shows "entry_seen e (take n (fill_entry e) @ rest)"
proof -
  let ?h = "u64_bytes (e_ino e) @ u64_bytes (e_generation e) @ u64_bytes (fst (e_entry_timeout e)) @
     u64_bytes (fst (e_attr_timeout e)) @ u32_bytes (snd (e_entry_timeout e)) @ u32_bytes (snd (e_attr_timeout e))"
  have t: "take n (fill_entry e) @ rest = ?h @ take (n - 40) (convert_stat (e_attr e)) @ rest" using assms by (auto simp: fill_entry_def)
  have "attr_seen (e_attr e) (drop 40 (take n (fill_entry e) @ rest))" unfolding t using attr_seen_take [of "n - 40"] assms by auto
  then show ?thesis unfolding entry_seen_def t by (simp add: u64_at_def u32_at_def)
qed

lemma open_flags_bits:
  "bit (open_flags_of f) 0 = fi_direct_io f" "bit (open_flags_of f) 1 = fi_keep_cache f" "bit (open_flags_of f) 2 = fi_nonseekable f"
  "bit (open_flags_of f) 3 = fi_cache_readdir f" "bit (open_flags_of f) 5 = fi_noflush f"
  "bit (open_flags_of f) 6 = fi_parallel_direct_writes f" "bit (open_flags_of f) 7 \<longleftrightarrow> 0 < sint (fi_backing_id f)"
proof -
  have alt: "open_flags_of f = (if 0 < sint (fi_backing_id f) then 128 else 0) OR (if fi_direct_io f then 1 else 0) OR (if fi_keep_cache f then 2 else 0) OR
      (if fi_cache_readdir f then 8 else 0) OR (if fi_nonseekable f then 4 else 0) OR (if fi_noflush f then 32 else 0) OR
      (if fi_parallel_direct_writes f then 64 else 0)"
    by (simp add: open_flags_of_def Let_def or.assoc)
  have b: "bit (if p then c else (0 :: u32)) n \<longleftrightarrow> p \<and> bit c n" for p c n by simp
  have k: "bit (128 :: u32) n \<longleftrightarrow> n = 7" "bit (1 :: u32) n \<longleftrightarrow> n = 0" "bit (2 :: u32) n \<longleftrightarrow> n = 1" "bit (8 :: u32) n \<longleftrightarrow> n = 3"
      "bit (4 :: u32) n \<longleftrightarrow> n = 2" "bit (32 :: u32) n \<longleftrightarrow> n = 5" "bit (64 :: u32) n \<longleftrightarrow> n = 6" if "n \<in> {0, 1, 2, 3, 5, 6, 7}" for n
    using that by auto
  show "bit (open_flags_of f) 0 = fi_direct_io f" "bit (open_flags_of f) 1 = fi_keep_cache f" "bit (open_flags_of f) 2 = fi_nonseekable f"
    "bit (open_flags_of f) 3 = fi_cache_readdir f" "bit (open_flags_of f) 5 = fi_noflush f"
    "bit (open_flags_of f) 6 = fi_parallel_direct_writes f" "bit (open_flags_of f) 7 \<longleftrightarrow> 0 < sint (fi_backing_id f)"
    unfolding alt bit_or_iff b by (subst k; simp)+
qed

lemma open_seen_fill: "open_seen f (fill_open f)"
  using open_flags_bits [of f] by (simp add: open_seen_def fill_open_def u64_at_def u32_at_def)

lemma parts_seen: "reply_parts c m r = Inr iov \<Longrightarrow> data_seen c r (concat iov)"
proof (cases r)
  case (R_entry e)
  moreover assume "reply_parts c m r = Inr iov"
  ultimately show ?thesis using entry_seen_fill [of 120 e "[]"] entry_seen_fill [of 128 e "[]"] by (auto simp: fuse_reply_entry_def split: if_splits)
next
  case (R_create e f)
  moreover assume "reply_parts c m r = Inr iov"
  ultimately show ?thesis using entry_seen_fill [of 120 e "fill_open f"] entry_seen_fill [of 128 e "fill_open f"] open_seen_fill [of f] by (auto simp: create_buffer)
next
  case (R_attr st t)
  moreover assume "reply_parts c m r = Inr iov"
  ultimately have d: "concat iov = fuse_reply_attr c st t" by (auto dest: send_reply_ok_concat)
  have "fuse_reply_attr c st t = u64_bytes (fst t) @ u32_bytes (snd t) @ u32_bytes 0 @ take (if proto_minor c < 9 then 80 else 88) (convert_stat st)"
    by (simp add: fuse_reply_attr_def)
  then show ?thesis unfolding R_attr d using attr_seen_take [of 80 st "[]"] attr_seen_take [of 88 st "[]"] by (auto simp: u64_at_def u32_at_def)
next
  case (R_open f)
  moreover assume "reply_parts c m r = Inr iov"
  ultimately show ?thesis using open_seen_fill [of f] by (auto simp: fuse_reply_open_def dest: send_reply_ok_concat)
next
  case (R_statfs st)
  moreover assume "reply_parts c m r = Inr iov"
  ultimately have "concat iov = fuse_reply_statfs c st" by (auto dest: send_reply_ok_concat)
  then show ?thesis unfolding R_statfs by (auto simp: fuse_reply_statfs_def convert_statfs_def u64_at_def u32_at_def)
next
  case (R_ioctl_retry inb outb)
  moreover assume "reply_parts c m r = Inr iov"
  ultimately show ?thesis by (auto simp: fuse_reply_ioctl_retry_def ioctl_out_def fuse_ioctl_iovec_copy_def Let_def u32_at_def split: if_splits)
qed (auto simp: reply_defs ioctl_out_def c_str_def F_UNLCK_NUM_def LL_OFFSET_MAX_def u64_at_def u32_at_def dest!: send_reply_ok_concat split: if_splits)

lemma parts_error:
  assumes "reply_parts c m r = Inl e"
  shows "r = R_err e \<or> e = REPLY_ENOENT \<and> proto_minor c < 4 \<and> (\<exists>p. r = R_entry p \<and> e_ino p = 0) \<or> e = REPLY_ENOMEM \<and> False \<in> set m"
proof -
  have "False \<in> set m" if "\<not> fst (alloc m) \<or> \<not> fst (alloc (snd (alloc m)))" using that by (cases m; cases "tl m") auto
  then show ?thesis using assms
    by (cases r) (auto simp: reply_defs fuse_reply_ioctl_retry_def Let_def split: if_splits)
qed

text \<open>
  C26: Every reply but \<^verbatim>\<open>fuse_reply_data\<close> is well formed. Its header gives its true length and the number
  of the request. Either it has no data and an error: the one the file system gives, \<^verbatim>\<open>ENOENT\<close> for a
  negative entry that a kernel before version 4 does not understand, or \<^verbatim>\<open>ENOMEM\<close> when an allocation fails;
  the error is sent negated if it is 0 or a positive number that the system knows, and any other number,
  a negative one in particular, becomes \<^verbatim>\<open>ERANGE\<close>. Or the error in it is 0, and the kernel reads in the
  data, at the offsets of this version of the protocol, what the file system has given, and the data of
  a reply with a fixed layout has the size that the kernel expects.
\<close>

theorem reply_well_formed:
  assumes "length (send_answer known c m uniq r) < 2 ^ 32" and "\<And>e. r = R_err e \<Longrightarrow> \<bar>e\<bar> < 2 ^ 31"
  shows "let msg = send_answer known c m uniq r; err = bytes_int (drop 4 msg); data = drop sizeof_out_header msg in
     unat (u32_at 0 msg) = length msg \<and> u64_at 8 msg = uniq \<and>
     ((\<exists>e. (r = R_err e \<or> e = REPLY_ENOENT \<and> proto_minor c < 4 \<and> (\<exists>p. r = R_entry p \<and> e_ino p = 0) \<or> e = REPLY_ENOMEM \<and> False \<in> set m) \<and>
         data = [] \<and> err = (if e = 0 \<or> 0 < e \<and> known e then - e else - REPLY_ERANGE)) \<or>
      err = 0 \<and> data_seen c r data \<and> (\<forall>n. expected_size c r = Some n \<longrightarrow> length data = n))"
proof (cases "reply_parts c m r")
  case (Inl e)
  note w = parts_error [OF Inl]
  then have "\<bar>e\<bar> < 2 ^ 31" using assms(2) by (auto simp: REPLY_ENOENT_def REPLY_ENOMEM_def)
  let ?msg = "send_answer known c m uniq r"
  have msg: "?msg = fuse_send_reply_iov_nofree known uniq (- e) []" using Inl by (simp add: send_answer_def send_reply_def)
  have h: "unat (u32_at 0 ?msg) = length ?msg" "u64_at 8 ?msg = uniq" "drop sizeof_out_header ?msg = []"
    "bytes_int (drop 4 ?msg) = (if e = 0 \<or> 0 < e \<and> known e then - e else - REPLY_ERANGE)"
    using send_iov_header [of "[]" "- e" known uniq] \<open>\<bar>e\<bar> < 2 ^ 31\<close> unfolding msg by (auto simp: Let_def sizeof_out_header_def)
  show ?thesis unfolding Let_def by (intro conjI h(1,2) disjI1 exI [of _ e] w h(3,4))
next
  case (Inr iov)
  then have "length (send_answer known c m uniq r) = sizeof_out_header + length (concat iov)"
    by (simp add: send_answer_def fuse_send_reply_iov_nofree_def Let_def sizeof_out_header_def)
  with assms(1) Inr send_iov_header [of iov 0 known uniq] parts_size [OF Inr] parts_seen [OF Inr] show ?thesis
    by (auto simp: send_answer_def Let_def)
qed

theorem reply_well_formed_witness:
  "(let msg = send_answer (\<lambda>e. e = 2) (example_conn 38) [] 77 (R_err 4000) in length msg = 16 \<and> bytes_int (drop 4 msg) = - 34) \<and>
   (let msg = send_answer (\<lambda>e. e = 2) (example_conn 38) [] 77 (R_write 4096) in
      unat (u32_at 0 msg) = 24 \<and> u64_at 8 msg = 77 \<and> u32_at 0 (drop sizeof_out_header msg) = 4096)"
proof -
  have l: "length (send_answer (\<lambda>e. e = 2) (example_conn 38) [] 77 (R_err 4000)) = 16"
    "length (send_answer (\<lambda>e. e = 2) (example_conn 38) [] 77 (R_write 4096)) = 24"
    by (simp_all add: send_answer_def send_reply_def send_reply_ok_def fuse_reply_write_def fuse_send_reply_iov_nofree_def iov_length_concat Let_def
      split: if_split) (simp flip: length_0_conv)
  have "bytes_int (drop 4 (send_answer (\<lambda>e. e = 2) (example_conn 38) [] 77 (R_err 4000))) = - 34"
    using reply_well_formed [of "\<lambda>e. e = 2" "example_conn 38" "[]" 77 "R_err 4000"] l(1) by (auto simp: Let_def REPLY_ERANGE_def)
  moreover have "unat (u32_at 0 (send_answer (\<lambda>e. e = 2) (example_conn 38) [] 77 (R_write 4096))) = 24 \<and>
      u64_at 8 (send_answer (\<lambda>e. e = 2) (example_conn 38) [] 77 (R_write 4096)) = 77 \<and>
      u32_at 0 (drop sizeof_out_header (send_answer (\<lambda>e. e = 2) (example_conn 38) [] 77 (R_write 4096))) = 4096"
    using reply_well_formed [of "\<lambda>e. e = 2" "example_conn 38" "[]" 77 "R_write 4096"] l(2) by (auto simp: Let_def)
  ultimately show ?thesis using l(1) by (simp add: Let_def)
qed

text \<open>
  A record lock survives the protocol in both directions: what \<^verbatim>\<open>fuse_reply_lock\<close> sends is read by the
  conversion of the kernel's locks as the same lock, to the end of the file or not.
\<close>

theorem lock_round_trip:
  assumes "flock_ok fl" and "lf_type fl \<noteq> F_UNLCK_NUM"
  shows "let bs = fuse_reply_lock fl in
     convert_fuse_file_lock (u64_at 0 bs) (u64_at 8 bs) (u32_at 16 bs) (u32_at 20 bs) = fl"
  using assms flock_back [OF assms(1)] by (simp add: fuse_reply_lock_def Let_def u64_at_def u32_at_def flock_stop_def)

theorem lock_round_trip_witness:
  "let bs = fuse_reply_lock \<lparr>lf_type = 1, lf_start = 10, lf_len = 0, lf_pid = 4\<rparr> in
     convert_fuse_file_lock (u64_at 0 bs) (u64_at 8 bs) (u32_at 16 bs) (u32_at 20 bs) = \<lparr>lf_type = 1, lf_start = 10, lf_len = 0, lf_pid = 4\<rparr>"
  by (rule lock_round_trip) (simp_all add: flock_ok_def F_UNLCK_NUM_def)

end
