(* ===== verification/PathBuf.thy ===== *)
theory PathBuf
  imports Prelude
begin

text \<open>
  The buffer in which \<^verbatim>\<open>lib/fuse.c\<close> builds the path of a node from its end to its
  beginning (\<^verbatim>\<open>add_name\<close>): an allocated array, in which the path so far ends at the last byte
  with its NUL, and the position \<^verbatim>\<open>s\<close> of its first byte. A full buffer is doubled.
\<close>

record path_buf =
  pbytes :: "u8 list"
  ppos :: nat

definition write_at :: "nat \<Rightarrow> 'a list \<Rightarrow> 'a list \<Rightarrow> 'a list" where
  "write_at i bs xs = take i xs @ bs @ drop (i + length bs) xs"

text \<open>
  The new size: doubled until the path fits, at most the largest \<^verbatim>\<open>unsigned\<close>. A path that does not
  fit in that makes the loop run forever, which is the result \<open>None\<close>.
\<close>

partial_function (option) grow_bufsize :: "nat \<Rightarrow> nat \<Rightarrow> nat option" where
  "grow_bufsize newbufsize need =
     (if newbufsize < need
      then grow_bufsize (if newbufsize \<ge> 0x80000000 then 0xffffffff else newbufsize * 2) need
      else Some newbufsize)"

text \<open>
  \<^verbatim>\<open>add_name\<close>: the inner option is the result \<^verbatim>\<open>NULL\<close> after a failed \<^verbatim>\<open>realloc\<close>.
  The bytes \<^verbatim>\<open>realloc\<close> adds are zero here; they are overwritten before they are read.
\<close>

definition put_name :: "path_buf \<Rightarrow> u8 list \<Rightarrow> path_buf" where
  "put_name b name =
     (let s = ppos b - length name - 1 in \<lparr>pbytes = write_at s (47 # name) (pbytes b), ppos = s\<rparr>)"

definition move_up :: "path_buf \<Rightarrow> nat \<Rightarrow> path_buf" where
  "move_up b newbufsize =
     (let pathlen = length (pbytes b) - ppos b;
          newbuf = pbytes b @ replicate (newbufsize - length (pbytes b)) 0;
          s = newbufsize - pathlen in
      \<lparr>pbytes = write_at s (take pathlen (drop (length (pbytes b) - pathlen) newbuf)) newbuf, ppos = s\<rparr>)"

definition add_name :: "path_buf \<Rightarrow> u8 list \<Rightarrow> schedule \<Rightarrow> (path_buf option \<times> schedule) option" where
  "add_name b name mem =
     (if ppos b \<le> length name then
        (case grow_bufsize (length (pbytes b)) (length (pbytes b) - ppos b + length name + 1) of
           None \<Rightarrow> None
         | Some newbufsize \<Rightarrow>
             (case alloc mem of (ok, mem') \<Rightarrow>
                Some (if ok then Some (put_name (move_up b newbufsize) name) else None, mem')))
      else Some (Some (put_name b name), mem))"

text \<open>\<open>holds b p\<close>: the buffer ends with the string \<open>p\<close>.\<close>

definition holds :: "path_buf \<Rightarrow> u8 list \<Rightarrow> bool" where
  "holds b p \<longleftrightarrow> drop (ppos b) (pbytes b) = p @ [0] \<and> ppos b \<le> length (pbytes b) \<and> length (pbytes b) \<le> 0xffffffff"

lemma grow_bufsize_ok:
  assumes "need \<le> 0xffffffff" and "0 < n" and "n \<le> 0xffffffff"
  shows "\<exists>m. grow_bufsize n need = Some m \<and> need \<le> m \<and> n \<le> m \<and> m \<le> 0xffffffff"
  using assms(2,3)
proof (induction "0xffffffff - n" arbitrary: n rule: less_induct)
  case less
  show ?case
  proof (cases "n < need")
    case True
    define k where "k = (if n \<ge> 0x80000000 then 0xffffffff else n * 2)"
    have k: "n < k" "0 < k" "k \<le> 0xffffffff" using True less.prems assms(1) by (auto simp: k_def)
    then have "0xffffffff - k < 0xffffffff - n" by linarith
    from less.hyps [OF this k(2,3)] obtain m where "grow_bufsize k need = Some m" "need \<le> m" "k \<le> m" "m \<le> 0xffffffff" by blast
    moreover have "grow_bufsize n need = grow_bufsize k need" using True by (subst grow_bufsize.simps) (simp only: k_def if_True)
    ultimately show ?thesis using k(1) by auto
  next
    case False
    then show ?thesis using less.prems by (subst grow_bufsize.simps) auto
  qed
qed

lemma holds_length: "holds b p \<Longrightarrow> length (pbytes b) = ppos b + length p + 1"
proof -
  assume b: "holds b p"
  then have "length (drop (ppos b) (pbytes b)) = length (p @ [0])" "ppos b \<le> length (pbytes b)" unfolding holds_def by metis+
  then show ?thesis unfolding length_drop by simp
qed

lemma drop_write_at: "i + length bs = length xs \<Longrightarrow> drop i (write_at i bs xs) = bs"
  by (simp add: write_at_def)

lemma length_write_at: "i + length bs \<le> length xs \<Longrightarrow> length (write_at i bs xs) = length xs"
  by (simp add: write_at_def)

lemma holds_put_name:
  assumes "holds b p" and "length name < ppos b"
  shows "holds (put_name b name) (47 # name @ p)"
proof -
  let ?s = "ppos b - length name - 1"
  have d: "drop (ppos b) (pbytes b) = p @ [0]" and len: "ppos b \<le> length (pbytes b)" "length (pbytes b) \<le> 0xffffffff"
    using assms(1) by (simp_all add: holds_def)
  have s: "?s + length (47 # name) = ppos b" "?s \<le> length (pbytes b)" using assms(2) len by auto
  then have "drop ?s (write_at ?s (47 # name) (pbytes b)) = (47 # name) @ drop (ppos b) (pbytes b)"
    unfolding write_at_def s(1) by simp
  moreover have "length (write_at ?s (47 # name) (pbytes b)) = length (pbytes b)"
    unfolding write_at_def using s len by simp
  ultimately show ?thesis using d len s by (simp add: holds_def put_name_def Let_def)
qed

lemma holds_move_up:
  assumes "holds b p" and "length (pbytes b) \<le> m" and "m \<le> 0xffffffff"
  shows "holds (move_up b m) p" and "ppos (move_up b m) = m - length p - 1"
proof -
  let ?l = "length (pbytes b) - ppos b" and ?new = "pbytes b @ replicate (m - length (pbytes b)) 0"
  have d: "drop (ppos b) (pbytes b) = p @ [0]" and len: "ppos b \<le> length (pbytes b)"
    using assms(1) by (simp_all add: holds_def)
  have l: "?l = length p + 1" using holds_length [OF assms(1)] by simp
  have e: "length (pbytes b) - ?l = ppos b" using len by simp
  have tk: "take ?l (drop (ppos b) ?new) = p @ [0]" using d l len by simp
  have mv: "move_up b m = \<lparr>pbytes = write_at (m - ?l) (p @ [0]) ?new, ppos = m - ?l\<rparr>"
    unfolding move_up_def Let_def e tk ..
  have fit: "m - ?l + length (p @ [0]) = length ?new" using l len assms(2) by simp
  have "length ?new = m" using assms(2) by simp
  then show "holds (move_up b m) p"
    unfolding holds_def mv using assms(3) drop_write_at [OF fit] length_write_at [of "m - ?l" "p @ [0]" ?new] fit by simp
  show "ppos (move_up b m) = m - length p - 1" using l by (simp add: move_up_def Let_def)
qed

text \<open>
  \<^verbatim>\<open>add_name\<close> puts a slash and the name before the path in the buffer, whether it fits or
  the buffer must grow; it always returns if the result is shorter than 4 GiB. It fails only if the
  allocation fails.
\<close>

lemma add_name_ok:
  assumes "holds b p" and "length p + length name + 2 \<le> 0xffffffff"
  shows "\<exists>r mem'. add_name b name mem = Some (r, mem') \<and>
    (case r of Some b' \<Rightarrow> holds b' (47 # name @ p) | None \<Rightarrow> ppos b \<le> length name \<and> \<not> fst (alloc mem))"
proof (cases "ppos b \<le> length name")
  case False
  then show ?thesis using holds_put_name [OF assms(1)] by (simp add: add_name_def)
next
  case True
  have len: "length (pbytes b) = ppos b + length p + 1" "length (pbytes b) \<le> 0xffffffff"
    using holds_length [OF assms(1)] assms(1) by (simp_all add: holds_def)
  let ?need = "length (pbytes b) - ppos b + length name + 1"
  have "?need \<le> 0xffffffff" "0 < length (pbytes b)" using len assms(2) by simp_all
  from grow_bufsize_ok [OF this len(2)] obtain m where
    m: "grow_bufsize (length (pbytes b)) ?need = Some m" "?need \<le> m" "length (pbytes b) \<le> m" "m \<le> 0xffffffff" by blast
  note up = holds_move_up [OF assms(1) m(3,4)]
  have "length name < ppos (move_up b m)" using up(2) m(2) len(1) by simp
  from holds_put_name [OF up(1) this] show ?thesis
    using True m(1) by (cases "alloc mem") (auto simp: add_name_def)
qed

end
