(* ===== verification/HashTable.thy ===== *)
theory HashTable
  imports Prelude "HOL-Library.Multiset"
begin

text \<open>
  The two hash tables of the high-level library (\<^verbatim>\<open>struct node_table\<close> of
  \<^verbatim>\<open>lib/fuse.c\<close>): linear hashing, which splits one bucket at a time when the table fills up and
  merges a few when it empties. The code exists twice, for node numbers and for names; the two
  copies differ only in the hash function and the link of the chain, which are parameters here. A
  chain is the list of its nodes. The interface of the tables is the locale \<open>chained_index\<close>.
\<close>

section \<open>Tables\<close>

definition NODE_TABLE_MIN_SIZE :: nat where "NODE_TABLE_MIN_SIZE = 8192"

record 'a node_table =
  array :: "'a list list"
  tuse :: nat
  tsize :: nat
  tsplit :: nat

text \<open>The end of \<^verbatim>\<open>id_hash\<close> and of \<^verbatim>\<open>name_hash\<close>: from the hash of a key to its bucket.\<close>

definition bucket :: "'a node_table \<Rightarrow> nat \<Rightarrow> nat" where
  "bucket t h =
     (let hash = h mod tsize t; oldhash = hash mod (tsize t div 2)
      in if oldhash \<ge> tsplit t then oldhash else hash)"

definition chain :: "'a node_table \<Rightarrow> nat \<Rightarrow> 'a list" where
  "chain t h = array t ! bucket t h"

definition node_table_reduce :: "'a node_table \<Rightarrow> schedule \<Rightarrow> 'a node_table \<times> schedule" where
  "node_table_reduce t mem =
     (let newsize = tsize t div 2 in
      if newsize < NODE_TABLE_MIN_SIZE then (t, mem)
      else case alloc mem of (ok, mem') \<Rightarrow>
        (t\<lparr>array := (if ok then take newsize (array t) else array t), tsize := newsize, tsplit := newsize div 2\<rparr>, mem'))"

text \<open>The loop of \<^verbatim>\<open>remerge_id\<close> and \<^verbatim>\<open>remerge_name\<close>, at most eight rounds.\<close>

fun remerge_loop :: "nat \<Rightarrow> 'a node_table \<Rightarrow> 'a node_table" where
  "remerge_loop 0 t = t"
| "remerge_loop (Suc iter) t =
     (if tsplit t > 0 then
        let s = tsplit t - 1; u = s + tsize t div 2; upper = array t ! u in
        if upper \<noteq> [] then
          t\<lparr>tsplit := s, array := (array t)[s := array t ! s @ upper, u := []]\<rparr>
        else remerge_loop iter (t\<lparr>tsplit := s\<rparr>)
      else t)"

definition remerge :: "'a node_table \<Rightarrow> schedule \<Rightarrow> 'a node_table \<times> schedule" where
  "remerge t mem =
     (case (if tsplit t = 0 then node_table_reduce t mem else (t, mem)) of
        (t', mem') \<Rightarrow> (remerge_loop 8 t', mem'))"

definition node_table_resize :: "'a node_table \<Rightarrow> schedule \<Rightarrow> 'a node_table \<times> schedule" where
  "node_table_resize t mem =
     (case alloc mem of (ok, mem') \<Rightarrow>
        if ok
        then (t\<lparr>array := take (tsize t) (array t) @ replicate (tsize t) [], tsize := tsize t * 2, tsplit := 0\<rparr>, mem')
        else (t, mem'))"

text \<open>
  The loop of \<^verbatim>\<open>rehash_id\<close> and \<^verbatim>\<open>rehash_name\<close> over the chain of the bucket that is
  split: the nodes that stay, and the other buckets.
\<close>

fun rehash_chain :: "('a \<Rightarrow> nat) \<Rightarrow> nat \<Rightarrow> 'a list \<Rightarrow> 'a list list \<Rightarrow> 'a list \<times> 'a list list" where
  "rehash_chain newhash hash [] arr = ([], arr)"
| "rehash_chain newhash hash (n # ns) arr =
     (if newhash n \<noteq> hash then rehash_chain newhash hash ns (arr[newhash n := n # arr ! newhash n])
      else case rehash_chain newhash hash ns arr of (keep, arr') \<Rightarrow> (n # keep, arr'))"

definition rehash :: "('a \<Rightarrow> nat) \<Rightarrow> 'a node_table \<Rightarrow> schedule \<Rightarrow> 'a node_table \<times> schedule" where
  "rehash full t mem =
     (if tsplit t = tsize t div 2 then (t, mem)
      else
        let hash = tsplit t; t1 = t\<lparr>tsplit := hash + 1\<rparr> in
        case rehash_chain (\<lambda>n. bucket t1 (full n)) hash (array t ! hash) (array t) of
          (keep, arr) \<Rightarrow>
            let t2 = t1\<lparr>array := arr[hash := keep]\<rparr> in
            if tsplit t2 = tsize t2 div 2 then node_table_resize t2 mem else (t2, mem))"

text \<open>Insertion as in \<^verbatim>\<open>hash_id\<close> and at the end of \<^verbatim>\<open>hash_name\<close>.\<close>

definition table_insert :: "('a \<Rightarrow> nat) \<Rightarrow> 'a \<Rightarrow> 'a node_table \<Rightarrow> schedule \<Rightarrow> 'a node_table \<times> schedule" where
  "table_insert full n t mem =
     (let b = bucket t (full n); t1 = t\<lparr>array := (array t)[b := n # array t ! b], tuse := tuse t + 1\<rparr> in
      if tuse t1 \<ge> tsize t1 div 2 then rehash full t1 mem else (t1, mem))"

text \<open>
  Removal as in \<^verbatim>\<open>unhash_id\<close> and \<^verbatim>\<open>unhash_name\<close>, in its two steps: taking the node
  out of its chain (\<open>None\<close> if it is not there), and counting.
\<close>

definition table_unlink :: "nat \<Rightarrow> 'a \<Rightarrow> 'a node_table \<Rightarrow> 'a node_table option" where
  "table_unlink h n t =
     (let b = bucket t h in
      if n \<in> set (array t ! b) then Some (t\<lparr>array := (array t)[b := remove1 n (array t ! b)]\<rparr>) else None)"

definition table_shrink :: "'a node_table \<Rightarrow> schedule \<Rightarrow> 'a node_table \<times> schedule" where
  "table_shrink t mem =
     (let t1 = t\<lparr>tuse := tuse t - 1\<rparr> in
      if tuse t1 < tsize t1 div 4 then remerge t1 mem else (t1, mem))"

definition table_remove :: "nat \<Rightarrow> 'a \<Rightarrow> 'a node_table \<Rightarrow> schedule \<Rightarrow> ('a node_table \<times> schedule) option" where
  "table_remove h n t mem = map_option (\<lambda>t'. table_shrink t' mem) (table_unlink h n t)"

section \<open>The interface\<close>

text \<open>
  What the library relies on: the nodes of the table are those of the chains, an insertion adds one
  node, a removal takes one away, and reorganisations change nothing else.
\<close>

locale chained_index =
  fixes full :: "'a \<Rightarrow> nat" and wf :: "'t \<Rightarrow> bool" and entries :: "'t \<Rightarrow> 'a set" and chain_of :: "'t \<Rightarrow> nat \<Rightarrow> 'a list"
    and ins :: "'a \<Rightarrow> 't \<Rightarrow> schedule \<Rightarrow> 't \<times> schedule" and rem :: "'a \<Rightarrow> 't \<Rightarrow> schedule \<Rightarrow> ('t \<times> schedule) option"
  assumes chain_entries: "wf t \<Longrightarrow> e \<in> entries t \<Longrightarrow> e \<in> set (chain_of t (full e))"
    and chain_sound: "wf t \<Longrightarrow> e \<in> set (chain_of t h) \<Longrightarrow> e \<in> entries t"
    and ins_ok: "wf t \<Longrightarrow> e \<notin> entries t \<Longrightarrow> wf (fst (ins e t m)) \<and> entries (fst (ins e t m)) = insert e (entries t)"
    and rem_ok: "wf t \<Longrightarrow> e \<in> entries t \<Longrightarrow>
      \<exists>t' m'. rem e t m = Some (t', m') \<and> wf t' \<and> entries t' = entries t - {e}"
begin

text \<open>Searching the chain of a key finds the node with that key, if there is one.\<close>

lemma find_chain:
  assumes "wf t" and "\<And>e e'. e \<in> entries t \<Longrightarrow> e' \<in> entries t \<Longrightarrow> P e \<Longrightarrow> P e' \<Longrightarrow> e = e'"
    and "\<And>e. e \<in> entries t \<Longrightarrow> P e \<Longrightarrow> full e = h"
  shows "find P (chain_of t h) = Some e \<longleftrightarrow> e \<in> entries t \<and> P e"
proof
  assume "find P (chain_of t h) = Some e"
  then have "e \<in> set (chain_of t h)" and P: "P e" by (auto simp: find_Some_iff)
  then show "e \<in> entries t \<and> P e" using chain_sound [OF assms(1)] by blast
next
  assume e: "e \<in> entries t \<and> P e"
  then have in_chain: "e \<in> set (chain_of t h)" using chain_entries [OF assms(1)] assms(3) by blast
  then obtain e' where e': "find P (chain_of t h) = Some e'"
    using e by (cases "find P (chain_of t h)") (auto simp: find_None_iff)
  then have "e' \<in> set (chain_of t h)" "P e'" by (auto simp: find_Some_iff)
  then have "e' = e" using assms(2) e chain_sound [OF assms(1)] by blast
  then show "find P (chain_of t h) = Some e" using e' by simp
qed

lemma find_chain_None:
  assumes "wf t" and "\<And>e e'. e \<in> entries t \<Longrightarrow> e' \<in> entries t \<Longrightarrow> P e \<Longrightarrow> P e' \<Longrightarrow> e = e'"
    and "\<And>e. e \<in> entries t \<Longrightarrow> P e \<Longrightarrow> full e = h"
  shows "find P (chain_of t h) = None \<longleftrightarrow> (\<forall>e\<in>entries t. \<not> P e)"
proof (cases "find P (chain_of t h)")
  case None
  have "False" if "e \<in> entries t" "P e" for e
    using find_chain [where P = P and e = e, OF assms] that None by simp
  with None show ?thesis by auto
next
  case (Some e)
  with find_chain [where P = P and e = e, OF assms] show ?thesis by auto
qed

end

section \<open>The tables implement it\<close>

definition entries :: "'a node_table \<Rightarrow> 'a set" where
  "entries t = set (concat (array t))"

text \<open>
  A removal takes a node out of its chain first and counts it later: \<open>d\<close> nodes are still
  counted although they are in no chain any more.
\<close>

definition wf_table :: "nat \<Rightarrow> ('a \<Rightarrow> nat) \<Rightarrow> 'a node_table \<Rightarrow> bool" where
  "wf_table d full t \<longleftrightarrow> (\<exists>k. tsize t = NODE_TABLE_MIN_SIZE * 2 ^ k) \<and> tsplit t \<le> tsize t div 2 \<and>
     tsize t \<le> length (array t) \<and>
     (\<forall>i<length (array t). \<forall>e\<in>set (array t ! i). bucket t (full e) = i) \<and>
     distinct (concat (array t)) \<and> tuse t = length (concat (array t)) + d"

lemma entries_nth: "e \<in> entries t \<longleftrightarrow> (\<exists>i<length (array t). e \<in> set (array t ! i))"
  unfolding entries_def set_concat by (metis UN_iff in_set_conv_nth)

lemma mset_concat_update:
  "i < length xs \<Longrightarrow> mset (concat (xs[i := b])) + mset (xs ! i) = mset (concat xs) + mset b"
proof (induction xs arbitrary: i)
  case (Cons x xs)
  then show ?case by (cases i) (auto simp: add.assoc add.commute add.left_commute)
qed simp

lemma size_facts:
  assumes "tsize t = NODE_TABLE_MIN_SIZE * 2 ^ k"
  shows "0 < tsize t" and "tsize t = 2 * (tsize t div 2)" and "0 < tsize t div 2"
  using assms by (auto simp: NODE_TABLE_MIN_SIZE_def)

lemma bucket_less:
  assumes "tsize t = NODE_TABLE_MIN_SIZE * 2 ^ k"
  shows "bucket t h < tsize t"
proof -
  have "h mod tsize t mod (tsize t div 2) < tsize t div 2" "h mod tsize t < tsize t"
    using size_facts [OF assms] by simp_all
  with size_facts(2) [OF assms] have "h mod tsize t mod (tsize t div 2) < tsize t" by linarith
  then show ?thesis using size_facts(1) [OF assms] by (simp add: bucket_def Let_def)
qed

lemma bucket_split_Suc:
  "bucket (t\<lparr>tsplit := Suc (tsplit t)\<rparr>) h =
    (if h mod tsize t mod (tsize t div 2) = tsplit t then h mod tsize t else bucket t h)"
  by (auto simp: bucket_def Let_def)

lemma mod_half:
  assumes "n = 2 * (n div 2)" and "0 < n div (2::nat)"
  shows "h mod n mod (n div 2) = h mod (n div 2)" and "h mod n = h mod (n div 2) \<or> h mod n = h mod (n div 2) + n div 2"
proof -
  have "n div 2 dvd n" using assms(1) by (metis dvd_triv_right)
  then show "h mod n mod (n div 2) = h mod (n div 2)" by (rule mod_mod_cancel)
  have "h mod n = h mod (n div 2 * 2)" using assms(1) by (simp add: mult.commute)
  also have "\<dots> = n div 2 * (h div (n div 2) mod 2) + h mod (n div 2)" by (rule mod_mult2_eq)
  finally have "h mod n = n div 2 * (h div (n div 2) mod 2) + h mod (n div 2)" .
  moreover have "q mod 2 = 0 \<or> q mod 2 = 1" for q :: nat by presburger
  ultimately show "h mod n = h mod (n div 2) \<or> h mod n = h mod (n div 2) + n div 2"
    by (metis add.commute add_0 mult.right_neutral mult_0_right)
qed

lemma bucket_half:
  assumes "tsize t = NODE_TABLE_MIN_SIZE * 2 ^ k"
  shows "bucket t h = (if tsplit t \<le> h mod (tsize t div 2) then h mod (tsize t div 2) else h mod tsize t)"
  using mod_half(1) [OF size_facts(2,3) [OF assms]] by (simp add: bucket_def Let_def)

lemma which_half: "(if s \<le> a then a else b) = (s :: nat) \<Longrightarrow> b = a \<or> b = a + h \<Longrightarrow> s < h \<Longrightarrow> a = s"
  by (auto split: if_splits)

lemma mset_moved:
  assumes "A + S = B + K" and "B + U = C + (Q + U)" and "S = K + Q"
  shows "(A :: 'a multiset) = C"
proof -
  have "B = C + Q" using assms(2) by (simp flip: add.assoc)
  then have "A + (K + Q) = C + (K + Q)" using assms(1,3) by (simp add: ac_simps)
  then show ?thesis by simp
qed

lemma mset_removed: "(A :: 'a multiset) + S = C + R \<Longrightarrow> S = add_mset n R \<Longrightarrow> add_mset n A = C"
  by simp

text \<open>A table whose buckets have changed, but hold the same nodes.\<close>

lemma wf_table_rearranged:
  assumes "wf_table d full t" and "mset (concat arr) = mset (concat (array t))" and "tuse t' = tuse t"
    and "array t' = arr" and "\<exists>k. tsize t' = NODE_TABLE_MIN_SIZE * 2 ^ k" and "tsplit t' \<le> tsize t' div 2"
    and "tsize t' \<le> length arr" and "\<And>i e. i < length arr \<Longrightarrow> e \<in> set (arr ! i) \<Longrightarrow> bucket t' (full e) = i"
  shows "wf_table d full t' \<and> entries t' = entries t"
proof -
  have "distinct (concat arr)" using assms(1,2) by (metis mset_eq_imp_distinct_iff wf_table_def)
  moreover have "length (concat arr) = length (concat (array t))" using assms(2) by (metis size_mset)
  moreover have "set (concat arr) = set (concat (array t))" using assms(2) by (metis set_mset_mset)
  ultimately show ?thesis using assms by (auto simp: wf_table_def entries_def)
qed

lemma wf_tableD:
  assumes "wf_table d full t"
  obtains k where "tsize t = NODE_TABLE_MIN_SIZE * 2 ^ k" "tsplit t \<le> tsize t div 2" "tsize t \<le> length (array t)"
    "\<And>i e. i < length (array t) \<Longrightarrow> e \<in> set (array t ! i) \<Longrightarrow> bucket t (full e) = i"
    "\<And>i. tsize t \<le> i \<Longrightarrow> i < length (array t) \<Longrightarrow> array t ! i = []"
proof -
  obtain k where k: "tsize t = NODE_TABLE_MIN_SIZE * 2 ^ k" using assms by (auto simp: wf_table_def)
  moreover have b: "\<And>i e. i < length (array t) \<Longrightarrow> e \<in> set (array t ! i) \<Longrightarrow> bucket t (full e) = i"
    using assms by (auto simp: wf_table_def)
  moreover have "array t ! i = []" if "tsize t \<le> i" "i < length (array t)" for i
  proof (rule ccontr)
    assume "array t ! i \<noteq> []"
    then obtain e where "e \<in> set (array t ! i)" by (cases "array t ! i") auto
    with b [OF that(2)] bucket_less [OF k, of "full e"] that(1) show False by simp
  qed
  ultimately show ?thesis using that assms unfolding wf_table_def by blast
qed

text \<open>Splitting a bucket.\<close>

lemma rehash_chain_props:
  assumes "\<And>n. n \<in> set ns \<Longrightarrow> newhash n = hash \<or> newhash n = other" and "other < length arr" and "other \<noteq> hash"
    and "rehash_chain newhash hash ns arr = (keep, arr')"
  shows "keep = filter (\<lambda>n. newhash n = hash) ns \<and>
    arr' = arr[other := rev (filter (\<lambda>n. newhash n \<noteq> hash) ns) @ arr ! other]"
  using assms
proof (induction ns arbitrary: arr keep arr')
  case (Cons n ns)
  show ?case
  proof (cases "newhash n = hash")
    case True
    with Cons.prems(4) obtain keep0 where "rehash_chain newhash hash ns arr = (keep0, arr')" "keep = n # keep0"
      by (auto split: prod.splits)
    with Cons.IH [of arr keep0 arr'] Cons.prems(1-3) True show ?thesis by auto
  next
    case False
    then have "newhash n = other" using Cons.prems(1) by auto
    with False Cons.prems(4) have "rehash_chain newhash hash ns (arr[other := n # arr ! other]) = (keep, arr')" by simp
    with Cons.IH [of "arr[other := n # arr ! other]" keep arr'] Cons.prems(1-3) False show ?thesis by simp
  qed
qed simp

lemma resize_ok:
  assumes "wf_table d full t" and "tsplit t = tsize t div 2"
  shows "wf_table d full (fst (node_table_resize t m)) \<and> entries (fst (node_table_resize t m)) = entries t"
proof (cases "fst (alloc m)")
  case True
  obtain k where t: "tsize t = NODE_TABLE_MIN_SIZE * 2 ^ k" "tsize t \<le> length (array t)"
    "\<And>i e. i < length (array t) \<Longrightarrow> e \<in> set (array t ! i) \<Longrightarrow> bucket t (full e) = i"
    "\<And>i. tsize t \<le> i \<Longrightarrow> i < length (array t) \<Longrightarrow> array t ! i = []"
    using wf_tableD [OF assms(1)] by metis
  note sz = size_facts [OF t(1)]
  let ?t = "t\<lparr>array := take (tsize t) (array t) @ replicate (tsize t) [], tsize := tsize t * 2, tsplit := 0\<rparr>"
  have "concat (drop (tsize t) (array t)) = []"
    using t(4) by (auto simp: set_conv_nth)
  then have c: "concat (take (tsize t) (array t) @ replicate (tsize t) []) = concat (array t)"
    by (metis append_Nil2 append_take_drop_id concat_append concat_replicate_trivial)
  have b: "bucket ?t h = h mod tsize t" for h
  proof -
    have "h mod (tsize t * 2) mod tsize t = h mod tsize t" by (rule mod_mod_cancel) simp
    then show ?thesis by (simp add: bucket_def)
  qed
  have bt: "bucket t h = h mod tsize t" for h
    using mod_less_divisor [OF sz(3), of "h mod tsize t"] assms(2) by (simp add: bucket_def Let_def)
  have "wf_table d full ?t \<and> entries ?t = entries t"
  proof (rule wf_table_rearranged [OF assms(1), of "array ?t"])
    show "mset (concat (array ?t)) = mset (concat (array t))" using c by simp
    show "\<exists>k. tsize ?t = NODE_TABLE_MIN_SIZE * 2 ^ k" using t(1) by (intro exI [of _ "Suc k"]) simp
    show "bucket ?t (full e) = i" if "i < length (array ?t)" "e \<in> set (array ?t ! i)" for i e
    proof -
      have "i < tsize t" using that t(2) by (auto simp: nth_append split: if_splits)
      with that t(2) have "bucket t (full e) = i" by (intro t(3)) (auto simp: nth_append)
      then show ?thesis using b bt by simp
    qed
  qed (use t(2) in \<open>simp_all\<close>)
  with True show ?thesis by (auto simp: node_table_resize_def split: prod.splits)
next
  case False
  with assms(1) show ?thesis by (auto simp: node_table_resize_def split: prod.splits)
qed

lemma rehash_ok:
  assumes "wf_table d full t"
  shows "wf_table d full (fst (rehash full t m)) \<and> entries (fst (rehash full t m)) = entries t"
proof (cases "tsplit t = tsize t div 2")
  case False
  obtain k where t: "tsize t = NODE_TABLE_MIN_SIZE * 2 ^ k" "tsplit t \<le> tsize t div 2" "tsize t \<le> length (array t)"
    "\<And>i e. i < length (array t) \<Longrightarrow> e \<in> set (array t ! i) \<Longrightarrow> bucket t (full e) = i"
    using wf_tableD [OF assms] by metis
  note sz = size_facts [OF t(1)] and mh = mod_half [OF size_facts(2,3) [OF t(1)]]
  let ?s = "tsplit t" and ?h = "tsize t div 2"
  let ?o = "?s + ?h" and ?t1 = "t\<lparr>tsplit := Suc (tsplit t)\<rparr>"
  have s: "?s < ?h" "?s < length (array t)" "?o < length (array t)" "?o \<noteq> ?s" using False t(2,3) sz by linarith+
  let ?nh = "\<lambda>n. bucket ?t1 (full n)"
  have old: "full n mod ?h = ?s" if "n \<in> set (array t ! ?s)" for n
  proof -
    have "bucket t (full n) = ?s" using t(4) that s(2) by blast
    then show ?thesis using mh(2) [of "full n"] s(1) unfolding bucket_half [OF t(1)] by (rule which_half)
  qed
  have nh: "?nh n = ?s \<or> ?nh n = ?o" if "n \<in> set (array t ! ?s)" for n
  proof -
    have "?nh n = full n mod tsize t" using old [OF that] mh(1) unfolding bucket_split_Suc by simp
    with mh(2) [of "full n"] show ?thesis unfolding old [OF that] by metis
  qed
  obtain keep arr where rc: "rehash_chain ?nh ?s (array t ! ?s) (array t) = (keep, arr)" by force
  let ?in = "filter (\<lambda>n. ?nh n = ?s) (array t ! ?s)" and ?out = "filter (\<lambda>n. ?nh n \<noteq> ?s) (array t ! ?s)"
  have ka: "keep = ?in" "arr = (array t)[?o := rev ?out @ array t ! ?o]"
    using rehash_chain_props [OF nh s(3,4) rc] by simp_all
  let ?t2 = "?t1\<lparr>array := arr[?s := keep]\<rparr>"
  have ms: "mset (concat (arr[?s := keep])) = mset (concat (array t))"
  proof (rule mset_moved)
    show "mset (concat (arr[?s := keep])) + mset (arr ! ?s) = mset (concat arr) + mset keep"
      using s by (intro mset_concat_update) (simp add: ka)
    show "mset (concat arr) + mset (array t ! ?o) = mset (concat (array t)) + (mset ?out + mset (array t ! ?o))"
      unfolding ka(2) using s mset_concat_update [of ?o "array t" "rev ?out @ array t ! ?o"] by simp
    have "arr ! ?s = array t ! ?s" using s(4) by (simp add: ka)
    then show "mset (arr ! ?s) = mset keep + mset ?out" unfolding ka(1) by (simp add: multiset_partition)
  qed
  have b: "bucket ?t2 h = bucket ?t1 h" for h by (simp add: bucket_def)
  have wf2: "wf_table d full ?t2 \<and> entries ?t2 = entries t"
  proof (rule wf_table_rearranged [OF assms ms])
    show "bucket ?t2 (full e) = i" if i: "i < length (arr[?s := keep])" "e \<in> set (arr[?s := keep] ! i)" for i e
    proof -
      have il: "i < length (array t)" using i(1) by (simp add: ka)
      consider "i = ?s" "e \<in> set ?in" | "i = ?o" "e \<in> set ?out" | "i = ?o" "e \<in> set (array t ! ?o)"
        | "i \<noteq> ?s" "i \<noteq> ?o" "e \<in> set (array t ! i)"
        using i s by (auto simp: ka nth_list_update split: if_splits)
      then show ?thesis
      proof cases
        case 2
        then show ?thesis using nh unfolding b by auto
      next
        case 3
        then have "bucket t (full e) = ?o" using t(4) s(3) by blast
        moreover have "full e mod ?h \<noteq> ?o" using mod_less_divisor [OF sz(3), of "full e"] by linarith
        ultimately have "full e mod tsize t = ?o" by (auto simp: bucket_half [OF t(1)] split: if_splits)
        then show ?thesis using 3(1) \<open>bucket t (full e) = ?o\<close> unfolding b bucket_split_Suc by simp
      next
        case 4
        then have bi: "bucket t (full e) = i" using t(4) il by blast
        have "full e mod ?h \<noteq> ?s"
        proof
          assume "full e mod ?h = ?s"
          then have "bucket t (full e) = ?s" using mh(1) by (simp add: bucket_def Let_def)
          with bi 4(1) show False by simp
        qed
        then show ?thesis using bi mh(1) unfolding b bucket_split_Suc by simp
      qed (simp add: b)
    qed
  qed (use t s in \<open>auto simp: ka\<close>)
  have "rehash full t m = (if Suc ?s = ?h then node_table_resize ?t2 m else (?t2, m))"
    using False rc by (simp add: rehash_def Let_def)
  then show ?thesis using wf2 resize_ok [of d full ?t2 m] by auto
qed (use assms in \<open>simp add: rehash_def\<close>)

lemma reduce_ok:
  assumes "wf_table d full t" and "tsplit t = 0"
  shows "wf_table d full (fst (node_table_reduce t m)) \<and> entries (fst (node_table_reduce t m)) = entries t"
proof (cases "tsize t div 2 < NODE_TABLE_MIN_SIZE")
  case False
  obtain k where t: "tsize t = NODE_TABLE_MIN_SIZE * 2 ^ k" "tsize t \<le> length (array t)"
    "\<And>i e. i < length (array t) \<Longrightarrow> e \<in> set (array t ! i) \<Longrightarrow> bucket t (full e) = i"
    using wf_tableD [OF assms(1)] by metis
  note sz = size_facts [OF t(1)] and mh = mod_half [OF size_facts(2,3) [OF t(1)]]
  let ?h = "tsize t div 2"
  obtain j where k: "k = Suc j" using False t(1) sz by (cases k) auto
  have bt: "bucket t h = h mod ?h" for h using assms(2) mh(1) by (simp add: bucket_def Let_def)
  have empty: "array t ! i = []" if "?h \<le> i" "i < length (array t)" for i
  proof (rule ccontr)
    assume "array t ! i \<noteq> []"
    then obtain e where "e \<in> set (array t ! i)" by (cases "array t ! i") auto
    with t(3) [OF that(2)] bt [of "full e"] mod_less_divisor [OF sz(3), of "full e"] that(1) show False by simp
  qed
  then have "concat (drop ?h (array t)) = []" by (auto simp: set_conv_nth)
  then have c: "concat (take ?h (array t)) = concat (array t)"
    by (metis append_Nil2 append_take_drop_id concat_append)
  have hk: "?h = NODE_TABLE_MIN_SIZE * 2 ^ j" using t(1) k by simp
  have "wf_table d full (t\<lparr>array := arr, tsize := ?h, tsplit := ?h div 2\<rparr>) \<and>
      entries (t\<lparr>array := arr, tsize := ?h, tsplit := ?h div 2\<rparr>) = entries t"
    if arr: "arr = array t \<or> arr = take ?h (array t)" for arr
  proof (rule wf_table_rearranged [OF assms(1), of arr])
    let ?t = "t\<lparr>array := arr, tsize := ?h, tsplit := ?h div 2\<rparr>"
    show "mset (concat arr) = mset (concat (array t))" using arr c by auto
    show "\<exists>k. tsize ?t = NODE_TABLE_MIN_SIZE * 2 ^ k" using hk by auto
    show "tsize ?t \<le> length arr" using arr t(2) sz by auto
    show "bucket ?t (full e) = i" if "i < length arr" "e \<in> set (arr ! i)" for i e
    proof -
      have "0 < ?h div 2" using size_facts(3) [of ?t j] hk by simp
      then have "\<not> ?h div 2 \<le> full e mod ?h mod (?h div 2)" by (simp add: not_le)
      then have "bucket ?t (full e) = full e mod ?h" by (simp add: bucket_def Let_def)
      moreover have "bucket t (full e) = i" using that arr t(2,3) by auto
      ultimately show ?thesis using bt by simp
    qed
  qed simp_all
  with False show ?thesis by (auto simp: node_table_reduce_def Let_def split: prod.splits)
qed (use assms in \<open>simp add: node_table_reduce_def\<close>)

text \<open>Merging a bucket.\<close>

lemma bucket_split_pred:
  assumes "tsize t = NODE_TABLE_MIN_SIZE * 2 ^ k" and "tsplit t = Suc s"
  shows "bucket (t\<lparr>tsplit := s\<rparr>) h = (if h mod (tsize t div 2) = s then s else bucket t h)"
  using assms by (simp add: bucket_half [of "t\<lparr>tsplit := s\<rparr>" k] bucket_half [OF assms(1)])

lemma remerge_loop_ok:
  "wf_table d full t \<Longrightarrow> wf_table d full (remerge_loop iter t) \<and> entries (remerge_loop iter t) = entries t"
proof (induction iter t rule: remerge_loop.induct)
  case (2 iter t)
  show ?case
  proof (cases "tsplit t")
    case (Suc s)
    obtain k where t: "tsize t = NODE_TABLE_MIN_SIZE * 2 ^ k" "tsplit t \<le> tsize t div 2" "tsize t \<le> length (array t)"
      "\<And>i e. i < length (array t) \<Longrightarrow> e \<in> set (array t ! i) \<Longrightarrow> bucket t (full e) = i"
      using wf_tableD [OF "2.prems"] by metis
    note sz = size_facts [OF t(1)]
    let ?h = "tsize t div 2" and ?u = "s + tsize t div 2"
    have s: "s < ?h" "s < length (array t)" "?u < length (array t)" "?u \<noteq> s" using Suc t(2,3) sz by linarith+
    have low: "full e mod ?h = s" if "e \<in> set (array t ! s) \<or> e \<in> set (array t ! ?u)" for e
    proof -
      have b: "bucket t (full e) = s \<or> bucket t (full e) = ?u" using that t(4) s by blast
      have m: "full e mod tsize t = full e mod ?h \<or> full e mod tsize t = full e mod ?h + ?h" "full e mod ?h < ?h"
        using mod_half(2) [OF sz(2,3)] sz(3) by simp_all
      have "(if Suc s \<le> full e mod ?h then full e mod ?h else full e mod tsize t) = s \<or>
          (if Suc s \<le> full e mod ?h then full e mod ?h else full e mod tsize t) = s + ?h"
        using b unfolding bucket_half [OF t(1)] Suc .
      moreover have "a = s" if "(if Suc s \<le> a then a else b) = s \<or> (if Suc s \<le> a then a else b) = s + h"
        "b = a \<or> b = a + h" "a < h" "s < h" for a b h :: nat
        using that by (auto split: if_splits)
      ultimately show ?thesis using m s(1) by blast
    qed
    have keep: "bucket (t\<lparr>tsplit := s\<rparr>) (full e) = i" if "i < length (array t)" "e \<in> set (array t ! i)" "i \<noteq> ?u" for i e
    proof -
      have b: "bucket t (full e) = i" using t(4) that by blast
      have "i = s" if lo: "full e mod ?h = s"
      proof -
        have "full e mod tsize t = s \<or> full e mod tsize t = ?u" using mod_half(2) [OF sz(2,3), of "full e"] lo by simp
        then show ?thesis using b lo \<open>i \<noteq> ?u\<close> unfolding bucket_half [OF t(1)] Suc by auto
      qed
      then show ?thesis using b by (auto simp: bucket_split_pred [OF t(1) Suc])
    qed
    show ?thesis
    proof (cases "array t ! ?u = []")
      case True
      have "wf_table d full (t\<lparr>tsplit := s\<rparr>) \<and> entries (t\<lparr>tsplit := s\<rparr>) = entries t"
      proof (rule wf_table_rearranged [OF "2.prems", of "array t"])
        show "bucket (t\<lparr>tsplit := s\<rparr>) (full e) = i" if "i < length (array t)" "e \<in> set (array t ! i)" for i e
          using keep [OF that] that True by (cases "i = ?u") auto
      qed (use t s in auto)
      with True Suc "2.IH" show ?thesis by (simp add: Let_def)
    next
      case False
      let ?arr = "(array t)[s := array t ! s @ array t ! ?u, ?u := []]"
      have "mset (concat ?arr) + mset ((array t)[s := array t ! s @ array t ! ?u] ! ?u) =
          mset (concat ((array t)[s := array t ! s @ array t ! ?u])) + mset []"
        using s by (intro mset_concat_update) simp
      moreover have "mset (concat ((array t)[s := array t ! s @ array t ! ?u])) + mset (array t ! s) =
          mset (concat (array t)) + mset (array t ! s @ array t ! ?u)"
        using s by (intro mset_concat_update) simp
      ultimately have ms: "mset (concat ?arr) = mset (concat (array t))" using s(4) by simp
      have "wf_table d full (t\<lparr>tsplit := s, array := ?arr\<rparr>) \<and> entries (t\<lparr>tsplit := s, array := ?arr\<rparr>) = entries t"
      proof (rule wf_table_rearranged [OF "2.prems" ms])
        show "bucket (t\<lparr>tsplit := s, array := ?arr\<rparr>) (full e) = i" if i: "i < length ?arr" "e \<in> set (?arr ! i)" for i e
        proof -
          have eq: "bucket (t\<lparr>tsplit := s, array := ?arr\<rparr>) h = bucket (t\<lparr>tsplit := s\<rparr>) h" for h
            by (simp add: bucket_def)
          consider "i = s" "e \<in> set (array t ! s) \<or> e \<in> set (array t ! ?u)" | "i \<noteq> s" "i \<noteq> ?u" "e \<in> set (array t ! i)"
            using i s by (auto simp: nth_list_update split: if_splits)
          then show ?thesis
          proof cases
            case 1
            then show ?thesis using low unfolding eq by (simp add: bucket_split_pred [OF t(1) Suc])
          next
            case 2
            with keep i(1) show ?thesis unfolding eq by simp
          qed
        qed
      qed (use t s in auto)
      with False Suc show ?thesis by (simp add: Let_def)
    qed
  qed (use "2.prems" in simp)
qed simp

lemma remerge_ok:
  assumes "wf_table d full t"
  shows "wf_table d full (fst (remerge t m)) \<and> entries (fst (remerge t m)) = entries t"
proof -
  let ?t = "fst (if tsplit t = 0 then node_table_reduce t m else (t, m))"
  have "wf_table d full ?t \<and> entries ?t = entries t" using assms reduce_ok [OF assms, of m] by simp
  moreover have "fst (remerge t m) = remerge_loop 8 ?t" by (simp add: remerge_def split: prod.splits)
  ultimately show ?thesis using remerge_loop_ok [of d full ?t 8] by simp
qed

lemma insert_entry:
  assumes "wf_table d full t" and "n \<notin> entries t"
  shows "wf_table d full (fst (table_insert full n t m)) \<and> entries (fst (table_insert full n t m)) = insert n (entries t)"
proof -
  obtain k where t: "tsize t = NODE_TABLE_MIN_SIZE * 2 ^ k" "tsize t \<le> length (array t)"
    "\<And>i e. i < length (array t) \<Longrightarrow> e \<in> set (array t ! i) \<Longrightarrow> bucket t (full e) = i"
    using wf_tableD [OF assms(1)] by metis
  let ?b = "bucket t (full n)"
  let ?arr = "(array t)[?b := n # array t ! ?b]"
  let ?t1 = "t\<lparr>array := ?arr, tuse := tuse t + 1\<rparr>"
  have b: "?b < length (array t)" using bucket_less [OF t(1)] t(2) by (rule less_le_trans)
  have "mset (concat ?arr) + mset (array t ! ?b) = mset (concat (array t)) + mset (n # array t ! ?b)"
    using b by (intro mset_concat_update)
  then have ms: "mset (concat ?arr) = mset (n # concat (array t))" by simp
  have "distinct (n # concat (array t))" using assms by (simp add: wf_table_def entries_def)
  then have d: "distinct (concat ?arr)" using mset_eq_imp_distinct_iff [OF ms] by simp
  have len: "length (concat ?arr) = Suc (length (concat (array t)))" using arg_cong [OF ms, of size] by simp
  have st: "set (concat ?arr) = insert n (set (concat (array t)))" using arg_cong [OF ms, of set_mset] by simp
  have bk: "bucket ?t1 (full e) = i" if "i < length ?arr" "e \<in> set (?arr ! i)" for i e
  proof -
    have "bucket ?t1 (full e) = bucket t (full e)" by (simp add: bucket_def)
    with that t(3) b show ?thesis by (cases "i = ?b") (auto simp: nth_list_update)
  qed
  have "wf_table d full ?t1 \<and> entries ?t1 = insert n (entries t)"
    using assms(1) d len st bk t(2) by (auto simp: wf_table_def entries_def)
  then show ?thesis using rehash_ok [of d full ?t1 m] by (auto simp: table_insert_def Let_def)
qed

lemma unlink_entry:
  assumes "wf_table d full t" and "n \<in> entries t"
  shows "\<exists>t'. table_unlink (full n) n t = Some t' \<and> wf_table (Suc d) full t' \<and> entries t' = entries t - {n}"
proof -
  obtain k where t: "tsize t = NODE_TABLE_MIN_SIZE * 2 ^ k" "tsize t \<le> length (array t)"
    "\<And>i e. i < length (array t) \<Longrightarrow> e \<in> set (array t ! i) \<Longrightarrow> bucket t (full e) = i"
    using wf_tableD [OF assms(1)] by metis
  let ?b = "bucket t (full n)"
  let ?arr = "(array t)[?b := remove1 n (array t ! ?b)]"
  let ?t1 = "t\<lparr>array := ?arr\<rparr>"
  have b: "?b < length (array t)" using bucket_less [OF t(1)] t(2) by (rule less_le_trans)
  obtain i where i: "i < length (array t)" "n \<in> set (array t ! i)"
    using assms(2) by (auto simp: entries_nth)
  then have n: "n \<in> set (array t ! ?b)" using t(3) by metis
  have ms: "mset (n # concat ?arr) = mset (concat (array t))"
    using mset_removed [OF mset_concat_update [OF b]] n by simp
  have d: "distinct (n # concat ?arr)" using mset_eq_imp_distinct_iff [OF ms] assms(1) by (simp add: wf_table_def)
  have len: "Suc (length (concat ?arr)) = length (concat (array t))" using arg_cong [OF ms, of size] by simp
  have st: "insert n (set (concat ?arr)) = set (concat (array t))" using arg_cong [OF ms, of set_mset] by simp
  have sub: "set (?arr ! i) \<subseteq> set (array t ! i)" if "i < length (array t)" for i
    using that set_remove1_subset [of n "array t ! ?b"] by (cases "i = ?b") simp_all
  have bk: "bucket ?t1 (full e) = i" if "i < length ?arr" "e \<in> set (?arr ! i)" for i e
  proof -
    have "bucket ?t1 (full e) = bucket t (full e)" by (simp add: bucket_def)
    moreover have "e \<in> set (array t ! i)" "i < length (array t)" using that sub [of i] by auto
    ultimately show ?thesis using t(3) by simp
  qed
  have "wf_table (Suc d) full ?t1"
    unfolding wf_table_def
  proof (intro conjI allI impI ballI)
    show "\<exists>k. tsize ?t1 = NODE_TABLE_MIN_SIZE * 2 ^ k" using t(1) by auto
    show "bucket ?t1 (full e) = i" if "i < length (array ?t1)" "e \<in> set (array ?t1 ! i)" for i e
      using bk that by simp
  qed (use assms(1) d t(2) in \<open>simp_all add: wf_table_def flip: len\<close>)
  moreover have "entries ?t1 = entries t - {n}" using d st by (auto simp: entries_def)
  ultimately show ?thesis using n by (auto simp: table_unlink_def Let_def)
qed

lemma shrink_entry:
  assumes "wf_table (Suc d) full t"
  shows "wf_table d full (fst (table_shrink t m)) \<and> entries (fst (table_shrink t m)) = entries t"
proof -
  have "wf_table d full (t\<lparr>tuse := tuse t - 1\<rparr>)" "entries (t\<lparr>tuse := tuse t - 1\<rparr>) = entries t"
    using assms by (simp_all add: wf_table_def entries_def bucket_def)
  with remerge_ok [OF this(1), of m] show ?thesis by (simp add: table_shrink_def Let_def)
qed

lemma remove_entry:
  assumes "wf_table d full t" and "n \<in> entries t"
  shows "\<exists>t' m'. table_remove (full n) n t m = Some (t', m') \<and> wf_table d full t' \<and> entries t' = entries t - {n}"
  using unlink_entry [OF assms] shrink_entry by (fastforce simp: table_remove_def prod_eq_iff)

text \<open>The hash of a node that is not in the table does not matter.\<close>

lemma wf_table_cong:
  assumes "wf_table d full t" and "\<And>e. e \<in> entries t \<Longrightarrow> full' e = full e"
  shows "wf_table d full' t"
proof -
  have "full' e = full e" if "i < length (array t)" "e \<in> set (array t ! i)" for i e
    using assms(2) that by (auto simp: entries_nth)
  with assms(1) show ?thesis unfolding wf_table_def by simp
qed

interpretation table: chained_index full "wf_table d full" entries chain "table_insert full" "\<lambda>n. table_remove (full n) n"
  for full :: "'a \<Rightarrow> nat" and d :: nat
proof
  fix t :: "'a node_table" and e h
  assume wf: "wf_table d full t"
  obtain k where t: "tsize t = NODE_TABLE_MIN_SIZE * 2 ^ k" "tsize t \<le> length (array t)"
    "\<And>i e. i < length (array t) \<Longrightarrow> e \<in> set (array t ! i) \<Longrightarrow> bucket t (full e) = i"
    using wf_tableD [OF wf] by metis
  have b: "bucket t h < length (array t)" for h using bucket_less [OF t(1)] t(2) by (rule less_le_trans)
  show "e \<in> set (chain t (full e))" if e: "e \<in> entries t"
  proof -
    from e obtain i where "i < length (array t)" "e \<in> set (array t ! i)" by (auto simp: entries_nth)
    then show ?thesis using t(3) by (metis chain_def)
  qed
  show "e \<in> entries t" if "e \<in> set (chain t h)"
    using that b [of h] by (auto simp: chain_def entries_def)
qed (rule insert_entry remove_entry; assumption)+

end
