(* ===== verification/PosixLock.thy ===== *)
theory PosixLock
  imports Prelude
begin

text \<open>
  The table of POSIX byte-range locks that the high-level library keeps with every node
  (\<^verbatim>\<open>lib/fuse.c\<close>, \<^verbatim>\<open>struct lock\<close> to \<^verbatim>\<open>lock_to_flock\<close>). Offsets are
  integers between 0 and \<^verbatim>\<open>OFFSET_MAX\<close>.
\<close>

section \<open>Locks\<close>

datatype lock_type = F_RDLCK | F_WRLCK | F_UNLCK

record lock =
  ltype :: lock_type
  lstart :: int
  lend :: int
  lpid :: int
  lowner :: u64

record flock =
  l_type :: lock_type
  l_start :: int
  l_len :: int
  l_pid :: int

definition OFFSET_MAX :: int where "OFFSET_MAX = 2 ^ 63 - 1"
definition ENOLCK :: int where "ENOLCK = 37"

definition flock_to_lock :: "flock \<Rightarrow> lock" where
  "flock_to_lock fl =
     \<lparr>ltype = l_type fl, lstart = l_start fl,
      lend = (if l_len fl \<noteq> 0 then l_start fl + l_len fl - 1 else OFFSET_MAX),
      lpid = l_pid fl, lowner = 0\<rparr>"

definition lock_to_flock :: "lock \<Rightarrow> flock" where
  "lock_to_flock l =
     \<lparr>l_type = ltype l, l_start = lstart l,
      l_len = (if lend l = OFFSET_MAX then 0 else lend l - lstart l + 1), l_pid = lpid l\<rparr>"

text \<open>The first lock of another owner that overlaps and excludes the given one.\<close>

definition locks_conflict :: "lock list \<Rightarrow> lock \<Rightarrow> lock option" where
  "locks_conflict locks lock =
     find (\<lambda>l. lowner l \<noteq> lowner lock \<and> lstart lock \<le> lend l \<and> lstart l \<le> lend lock \<and>
       (ltype l = F_WRLCK \<or> ltype lock = F_WRLCK)) locks"

text \<open>
  One round of the loop of \<^verbatim>\<open>locks_insert\<close> on a lock of the same owner: what becomes of
  the lock \<open>l\<close>, named after the label the code goes to. \<open>Delete\<close> carries the inserted
  lock, grown by the deleted one; \<open>Split\<close> the two ends of a lock that is cut in the middle.
\<close>

datatype lock_action = Skip lock | Delete lock | Out | Break lock | Split lock lock

definition lock_action :: "lock \<Rightarrow> lock \<Rightarrow> lock_action" where
  "lock_action lock l =
     (if ltype lock = ltype l then
        if lend l < lstart lock - 1 then Skip l
        else if lend lock < lstart l - 1 then Break l
        else if lstart l \<le> lstart lock \<and> lend lock \<le> lend l then Out
        else Delete (lock\<lparr>lstart := (if lstart l < lstart lock then lstart l else lstart lock),
                          lend := (if lend lock < lend l then lend l else lend lock)\<rparr>)
      else
        if lend l < lstart lock then Skip l
        else if lend lock < lstart l then Break l
        else if lstart lock \<le> lstart l \<and> lend l \<le> lend lock then Delete lock
        else if lend l \<le> lend lock then Skip (l\<lparr>lend := lstart lock - 1\<rparr>)
        else if lstart lock \<le> lstart l then Break (l\<lparr>lstart := lend lock + 1\<rparr>)
        else Split (l\<lparr>lend := lstart lock - 1\<rparr>) (l\<lparr>lstart := lend lock + 1\<rparr>))"

text \<open>
  The loop: the result is the list from the cursor on. The flags say whether the two preallocated
  cells are there, and \<open>None\<close> is a use of one that is not.
\<close>

definition put_lock :: "bool \<Rightarrow> lock \<Rightarrow> lock list \<Rightarrow> lock list option" where
  "put_lock newl1 lock rest =
     (if ltype lock = F_UNLCK then Some rest else if newl1 then Some (lock # rest) else None)"

function insert_walk :: "bool \<Rightarrow> bool \<Rightarrow> lock \<Rightarrow> lock list \<Rightarrow> lock list option" where
  "insert_walk newl1 newl2 lock [] = put_lock newl1 lock []"
| "insert_walk newl1 newl2 lock (l # ls) =
     (if lowner l \<noteq> lowner lock then map_option ((#) l) (insert_walk newl1 newl2 lock ls)
      else case lock_action lock l of
        Skip l' \<Rightarrow> map_option ((#) l') (insert_walk newl1 newl2 lock ls)
      | Delete lock' \<Rightarrow> insert_walk newl1 newl2 lock' ls
      | Out \<Rightarrow> Some (l # ls)
      | Break l' \<Rightarrow> put_lock newl1 lock (l' # ls)
      | Split l1 l2 \<Rightarrow>
          if newl2 then map_option ((#) l1) (insert_walk newl1 False lock (l2 # ls)) else None)"
  by pat_completeness auto
termination
  by (relation "measure (\<lambda>(newl1, newl2, lock, ls). length ls + (if newl2 then 1 else 0))") auto

definition locks_insert :: "lock list \<Rightarrow> lock \<Rightarrow> schedule \<Rightarrow> (int \<times> lock list \<times> schedule) option" where
  "locks_insert locks lock mem =
     (if ltype lock \<noteq> F_UNLCK \<or> lstart lock \<noteq> 0 \<or> lend lock \<noteq> OFFSET_MAX then
        (case alloc mem of (ok1, mem1) \<Rightarrow>
         case alloc mem1 of (ok2, mem2) \<Rightarrow>
           if \<not> ok1 \<or> \<not> ok2 then Some (- ENOLCK, locks, mem2)
           else map_option (\<lambda>ls. (0, ls, mem2)) (insert_walk True True lock locks))
      else map_option (\<lambda>ls. (0, ls, mem)) (insert_walk False False lock locks))"

section \<open>The table as a map from bytes to locks\<close>

text \<open>What an owner holds on a byte.\<close>

fun held :: "lock list \<Rightarrow> u64 \<Rightarrow> int \<Rightarrow> lock_type option" where
  "held [] o' p = None"
| "held (l # ls) o' p =
     (if lowner l = o' \<and> lstart l \<le> p \<and> p \<le> lend l then Some (ltype l) else held ls o' p)"

text \<open>
  The locks of one owner are ascending and disjoint, adjacent locks of the same type are merged,
  and no lock is empty.
\<close>

definition below :: "lock \<Rightarrow> lock \<Rightarrow> bool" where
  "below a b \<longleftrightarrow> lend a < lstart b \<and> (ltype a = ltype b \<longrightarrow> lend a + 1 < lstart b)"

fun wf_locks :: "lock list \<Rightarrow> bool" where
  "wf_locks [] \<longleftrightarrow> True"
| "wf_locks (l # ls) \<longleftrightarrow> lstart l \<le> lend l \<and> ltype l \<noteq> F_UNLCK \<and>
     (\<forall>x\<in>set ls. lowner x = lowner l \<longrightarrow> below l x) \<and> wf_locks ls"

lemma wf_locks_member: "wf_locks ls \<Longrightarrow> l \<in> set ls \<Longrightarrow> lstart l \<le> lend l \<and> ltype l \<noteq> F_UNLCK"
  by (induction ls) auto

lemma held_before: "\<forall>x\<in>set ls. lowner x = o' \<longrightarrow> p < lstart x \<Longrightarrow> held ls o' p = None"
  by (induction ls) auto

lemma held_after:
  assumes "\<forall>x\<in>set ls. lowner x = lowner l \<longrightarrow> below l x" and "p \<le> lend l"
  shows "held ls (lowner l) p = None"
  using assms by (intro held_before) (fastforce simp: below_def)

text \<open>The outcomes of a round, for a lock that is not empty.\<close>

lemma lock_action_cases:
  assumes "lstart lock \<le> lend lock" and "lstart l \<le> lend l"
  obtains
    (skip) e where "lock_action lock l = Skip (l\<lparr>lend := e\<rparr>)" "lstart l \<le> e" "e \<le> lend l" "e < lstart lock"
      "ltype l = ltype lock \<longrightarrow> e + 1 < lstart lock" "e = lend l \<or> lend l \<le> lend lock \<and> e = lstart lock - 1"
  | (merge) "lock_action lock l = Delete (lock\<lparr>lstart := min (lstart l) (lstart lock), lend := max (lend lock) (lend l)\<rparr>)"
      "ltype lock = ltype l" "lstart lock \<le> lend l + 1" "lstart l \<le> lend lock + 1"
  | (delete) "lock_action lock l = Delete lock" "ltype lock \<noteq> ltype l" "lstart lock \<le> lstart l" "lend l \<le> lend lock"
  | (out) "lock_action lock l = Out" "ltype lock = ltype l" "lstart l \<le> lstart lock" "lend lock \<le> lend l"
  | (break) st where "lock_action lock l = Break (l\<lparr>lstart := st\<rparr>)" "lend lock < st" "lstart l \<le> st" "st \<le> lend l"
      "ltype lock = ltype l \<longrightarrow> lend lock + 1 < st" "st = lstart l \<or> lstart lock \<le> lstart l \<and> st = lend lock + 1"
  | (split) "lock_action lock l = Split (l\<lparr>lend := lstart lock - 1\<rparr>) (l\<lparr>lstart := lend lock + 1\<rparr>)"
      "ltype lock \<noteq> ltype l" "lstart l < lstart lock" "lend lock < lend l"
proof (cases "ltype lock = ltype l")
  case True
  consider "lend l < lstart lock - 1" | "lend lock < lstart l - 1" "\<not> lend l < lstart lock - 1"
    | "lstart l \<le> lstart lock \<and> lend lock \<le> lend l" "\<not> lend l < lstart lock - 1" "\<not> lend lock < lstart l - 1"
    | "\<not> (lstart l \<le> lstart lock \<and> lend lock \<le> lend l)" "\<not> lend l < lstart lock - 1" "\<not> lend lock < lstart l - 1"
    by linarith
  then show thesis
  proof cases
    case 1 then show ?thesis using True assms by (intro skip [of "lend l"]) (auto simp: lock_action_def)
  next
    case 2 then show ?thesis using True assms by (intro break [of "lstart l"]) (auto simp: lock_action_def)
  next
    case 3 then show ?thesis using True by (intro out) (auto simp: lock_action_def)
  next
    case 4 then show ?thesis using True by (intro merge) (auto simp: lock_action_def min_def max_def)
  qed
next
  case False
  consider "lend l < lstart lock" | "lend lock < lstart l" "\<not> lend l < lstart lock"
    | "lstart lock \<le> lstart l" "lend l \<le> lend lock" "\<not> lend l < lstart lock" "\<not> lend lock < lstart l"
    | "lstart l < lstart lock" "lend l \<le> lend lock" "\<not> lend l < lstart lock" "\<not> lend lock < lstart l"
    | "lstart lock \<le> lstart l" "lend lock < lend l" "\<not> lend l < lstart lock" "\<not> lend lock < lstart l"
    | "lstart l < lstart lock" "lend lock < lend l" "\<not> lend l < lstart lock" "\<not> lend lock < lstart l"
    by linarith
  then show thesis
  proof cases
    case 1 then show ?thesis using False assms by (intro skip [of "lend l"]) (auto simp: lock_action_def)
  next
    case 2 then show ?thesis using False assms by (intro break [of "lstart l"]) (auto simp: lock_action_def)
  next
    case 3 then show ?thesis using False by (intro delete) (auto simp: lock_action_def)
  next
    case 4 then show ?thesis using False by (intro skip [of "lstart lock - 1"]) (auto simp: lock_action_def)
  next
    case 5 then show ?thesis using False by (intro break [of "lend lock + 1"]) (auto simp: lock_action_def)
  next
    case 6 then show ?thesis using False assms by (intro split) (auto simp: lock_action_def)
  qed
qed

text \<open>Where the locks of the result come from.\<close>

definition from_lock :: "lock \<Rightarrow> lock list \<Rightarrow> lock \<Rightarrow> bool" where
  "from_lock lock ls x \<longleftrightarrow>
     (\<exists>y\<in>set ls. lowner y = lowner x \<and> ltype y = ltype x \<and> lstart y \<le> lstart x) \<or>
     lowner x = lowner lock \<and> ltype x = ltype lock \<and> lstart lock \<le> lstart x"

definition update_held :: "lock \<Rightarrow> (u64 \<Rightarrow> int \<Rightarrow> lock_type option) \<Rightarrow> u64 \<Rightarrow> int \<Rightarrow> lock_type option" where
  "update_held lock h =
     (\<lambda>o' p. if o' = lowner lock \<and> lstart lock \<le> p \<and> p \<le> lend lock
             then (if ltype lock = F_UNLCK then None else Some (ltype lock)) else h o' p)"

text \<open>What the loop achieves from the cursor on.\<close>

definition walked :: "lock \<Rightarrow> lock list \<Rightarrow> lock list option \<Rightarrow> bool" where
  "walked lock ls r \<longleftrightarrow> (\<exists>ls'. r = Some ls' \<and> wf_locks ls' \<and> (\<forall>x\<in>set ls'. from_lock lock ls x) \<and>
     held ls' = update_held lock (held ls))"

lemma below_mono: "below l y \<Longrightarrow> ltype y = ltype x \<Longrightarrow> lstart y \<le> lstart x \<Longrightarrow> below l x"
  by (auto simp: below_def)

lemma from_below:
  assumes "from_lock lock ls x" and "lowner x = lowner l" and "\<forall>y\<in>set ls. lowner y = lowner l \<longrightarrow> below l y"
    and "lowner lock = lowner l \<longrightarrow> below l lock"
  shows "below l x"
  using assms by (auto simp: from_lock_def intro: below_mono)

lemma walked_skip:
  assumes "walked lock ls r" and "wf_locks (l # ls)" and "lowner l = lowner lock \<longrightarrow> below l lock"
  shows "walked lock (l # ls) (map_option ((#) l) r)"
proof -
  from assms(1) obtain ls' where ls': "r = Some ls'" "wf_locks ls'" "\<forall>x\<in>set ls'. from_lock lock ls x"
    "held ls' = update_held lock (held ls)" by (auto simp: walked_def)
  have "below l x" if "x \<in> set ls'" "lowner x = lowner l" for x
    using from_below [OF _ that(2)] ls'(3) that(1) assms(2,3) by auto
  moreover have "held (l # ls') = update_held lock (held (l # ls))"
    using assms(3) ls'(4) by (auto simp: fun_eq_iff update_held_def below_def)
  moreover have "from_lock lock (l # ls) x" if "x \<in> set (l # ls')" for x
    using that ls'(3) by (auto simp: from_lock_def)
  ultimately show ?thesis using ls' assms(2) by (auto simp: walked_def)
qed

lemma walked_conv:
  assumes "walked lock1 ls1 r" and "\<And>x. from_lock lock1 ls1 x \<Longrightarrow> from_lock lock2 ls2 x"
    and "update_held lock1 (held ls1) = update_held lock2 (held ls2)"
  shows "walked lock2 ls2 r"
  using assms by (auto simp: walked_def)

lemma walked_cut:
  assumes "walked lock ls r" and "wf_locks (l # ls)" and "lowner l = lowner lock"
    and "lstart l \<le> e" "e \<le> lend l" "e < lstart lock" "ltype l = ltype lock \<longrightarrow> e + 1 < lstart lock"
    and "e = lend l \<or> lend l \<le> lend lock \<and> e = lstart lock - 1"
  shows "walked lock (l # ls) (map_option ((#) (l\<lparr>lend := e\<rparr>)) r)"
proof (rule walked_conv [OF walked_skip [OF assms(1)]])
  show "wf_locks (l\<lparr>lend := e\<rparr> # ls)" using assms(2,4,5) by (auto simp: below_def) 
  show "lowner (l\<lparr>lend := e\<rparr>) = lowner lock \<longrightarrow> below (l\<lparr>lend := e\<rparr>) lock"
    using assms(6,7) by (simp add: below_def)
  show "from_lock lock (l # ls) x" if "from_lock lock (l\<lparr>lend := e\<rparr> # ls) x" for x
    using that by (auto simp: from_lock_def)
  show "update_held lock (held (l\<lparr>lend := e\<rparr> # ls)) = update_held lock (held (l # ls))"
    using assms(3-8) by (auto simp: fun_eq_iff update_held_def)
qed

lemma walked_put:
  assumes "wf_locks (l # ls)" and "lowner l = lowner lock" and "lstart lock \<le> lend lock"
    and "lend lock < st" "lstart l \<le> st" "st \<le> lend l" "ltype lock = ltype l \<longrightarrow> lend lock + 1 < st"
    and "st = lstart l \<or> lstart lock \<le> lstart l \<and> st = lend lock + 1" and "n1 \<or> ltype lock = F_UNLCK"
  shows "walked lock (l # ls) (put_lock n1 lock (l\<lparr>lstart := st\<rparr> # ls))"
proof -
  let ?l = "l\<lparr>lstart := st\<rparr>"
  have wf: "wf_locks (?l # ls)" using assms(1,6) by (auto simp: below_def)
  have lock: "below lock x" if "x \<in> set (?l # ls)" "lowner x = lowner lock" for x
    using that assms(1,2,4-7) by (auto simp: below_def)
  have none: "held ls (lowner lock) p = None" if "p \<le> lend l" for p
    using held_after [of ls l p] assms(1,2) that by simp
  have h: "held (?l # ls) = (\<lambda>o' p. if o' = lowner lock \<and> lstart l \<le> p \<and> p < st then None else held (l # ls) o' p)"
    using assms(2,5,6) none by (auto simp: fun_eq_iff)
  have free: "held (?l # ls) (lowner lock) p = None" if "p \<le> lend lock" for p
    using lock that by (intro held_before) (fastforce simp: below_def)
  let ?new = "if ltype lock = F_UNLCK then ?l # ls else lock # ?l # ls"
  have "held ?new o' p = update_held lock (held (l # ls)) o' p" for o' p
  proof (cases "o' = lowner lock \<and> lstart lock \<le> p \<and> p \<le> lend lock")
    case True
    then show ?thesis using free [of p] by (simp add: update_held_def)
  next
    case False
    then have "held ?new o' p = held (?l # ls) o' p" by auto
    also have "\<dots> = held (l # ls) o' p" using False assms(4,8) unfolding h by auto
    finally show ?thesis unfolding update_held_def using False by presburger
  qed
  then have "held ?new = update_held lock (held (l # ls))" by blast
  moreover have "wf_locks ?new" using wf lock assms(3) by simp
  moreover have "\<forall>x\<in>set ?new. from_lock lock (l # ls) x"
    using assms(5) by (auto simp: from_lock_def)
  moreover have "put_lock n1 lock (?l # ls) = Some ?new" using assms(9) by (auto simp: put_lock_def)
  ultimately show ?thesis unfolding walked_def by blast
qed

lemma walked_delete:
  assumes "walked lock' ls r" and "wf_locks (l # ls)" and "lowner l = lowner lock"
    and "lowner lock' = lowner lock" "ltype lock' = ltype lock"
    and "lstart lock' = lstart lock \<and> lend lock' = lend lock \<and> lstart lock \<le> lstart l \<and> lend l \<le> lend lock \<or>
      ltype lock = ltype l \<and> lstart lock' = min (lstart l) (lstart lock) \<and> lend lock' = max (lend lock) (lend l) \<and>
      lstart lock \<le> lend l + 1 \<and> lstart l \<le> lend lock + 1"
  shows "walked lock (l # ls) r"
proof (rule walked_conv [OF assms(1)])
  show "from_lock lock (l # ls) x" if "from_lock lock' ls x" for x
    using that assms(3-6) by (auto simp: from_lock_def min_def split: if_splits)
  have "ltype l \<noteq> F_UNLCK" using assms(2) by simp
  then show "update_held lock' (held ls) = update_held lock (held (l # ls))"
    using assms(3-6) by (auto simp: fun_eq_iff update_held_def min_def max_def split: if_splits)
qed

lemma insert_walk_walked:
  assumes "wf_locks ls" and "lstart lock \<le> lend lock" and "n1 \<or> ltype lock = F_UNLCK"
    and "n2 \<or> (\<forall>l\<in>set ls. lstart lock \<le> lstart l)"
  shows "walked lock ls (insert_walk n1 n2 lock ls)"
  using assms
proof (induction ls arbitrary: lock)
  case Nil
  then show ?case by (auto simp: walked_def put_lock_def from_lock_def update_held_def fun_eq_iff)
next
  case (Cons l ls)
  have IH: "walked lk ls (insert_walk n1 n2 lk ls)"
    if "lstart lk \<le> lend lk" "ltype lk = ltype lock" "lstart lk \<le> lstart lock" for lk
    using Cons.IH [of lk] Cons.prems that by fastforce
  show ?case
  proof (cases "lowner l = lowner lock")
    case False
    with walked_skip [OF IH [of lock] Cons.prems(1)] Cons.prems(2) show ?thesis by simp
  next
    case own: True
    have l: "lstart l \<le> lend l" using Cons.prems(1) by simp
    from Cons.prems(2) l show ?thesis
    proof (cases rule: lock_action_cases)
      case (skip e)
      with walked_cut [OF IH Cons.prems(1) own skip(2-6)] own Cons.prems(2) show ?thesis by simp
    next
      case merge
      let ?lk = "lock\<lparr>lstart := min (lstart l) (lstart lock), lend := max (lend lock) (lend l)\<rparr>"
      have w: "walked ?lk ls (insert_walk n1 n2 ?lk ls)" using Cons.prems(2) by (intro IH) auto
      have "walked lock (l # ls) (insert_walk n1 n2 ?lk ls)"
        using merge(2-4) by (intro walked_delete [OF w Cons.prems(1) own]) simp_all
      then show ?thesis using merge(1) own by simp
    next
      case delete
      have "walked lock (l # ls) (insert_walk n1 n2 lock ls)"
        using delete(3,4) own Cons.prems(2) by (intro walked_delete [OF IH Cons.prems(1)]) auto
      then show ?thesis using delete(1) own by simp
    next
      case out
      have "held (l # ls) = update_held lock (held (l # ls))"
        using out own Cons.prems(1) by (auto simp: fun_eq_iff update_held_def)
      with out own Cons.prems(1) show ?thesis by (auto simp: walked_def from_lock_def)
    next
      case (break st)
      from walked_put [OF Cons.prems(1) own Cons.prems(2) break(2-6) Cons.prems(3)] break(1) own show ?thesis by simp
    next
      case split
      let ?l1 = "l\<lparr>lend := lstart lock - 1\<rparr>" and ?l2 = "l\<lparr>lstart := lend lock + 1\<rparr>"
      have n2: "n2" using Cons.prems(4) split(3) by auto
      have act: "lock_action lock ?l2 = Break (?l2\<lparr>lstart := lend lock + 1\<rparr>)"
        using split(2-4) Cons.prems(2) by (simp add: lock_action_def)
      have wf2: "wf_locks (?l2 # ls)" and wf1: "wf_locks (?l1 # ?l2 # ls)"
        using Cons.prems(1,2) split(2-4) by (auto simp: below_def)
      have "walked lock (?l2 # ls) (insert_walk n1 False lock (?l2 # ls))"
        using walked_put [OF wf2, of lock "lend lock + 1" n1] act own Cons.prems(2,3) split(2-4) by simp
      then have w: "walked lock (?l1 # ?l2 # ls) (map_option ((#) ?l1) (insert_walk n1 False lock (?l2 # ls)))"
        using wf1 split(2) by (intro walked_skip) (auto simp: below_def)
      have "walked lock (l # ls) (map_option ((#) ?l1) (insert_walk n1 False lock (?l2 # ls)))"
      proof (rule walked_conv [OF w])
        show "from_lock lock (l # ls) x" if "from_lock lock (?l1 # ?l2 # ls) x" for x
          using that Cons.prems(2) split(3) by (auto simp: from_lock_def)
        show "update_held lock (held (?l1 # ?l2 # ls)) = update_held lock (held (l # ls))"
          using own split(3,4) Cons.prems(2) by (auto simp: fun_eq_iff update_held_def)
      qed
      then show ?thesis by (subst insert_walk.simps(2)) (simp del: insert_walk.simps add: split(1) own n2)
    qed
  qed
qed

section \<open>What the lock table guarantees\<close>

definition lock_range :: "lock \<Rightarrow> bool" where
  "lock_range l \<longleftrightarrow> 0 \<le> lstart l \<and> lstart l \<le> lend l \<and> lend l \<le> OFFSET_MAX"

lemma locks_insert_ok:
  assumes "wf_locks locks" and "\<forall>l\<in>set locks. lock_range l" and "lock_range lock"
    and "fst (alloc mem) \<and> fst (alloc (snd (alloc mem)))"
  shows "\<exists>locks' mem'. locks_insert locks lock mem = Some (0, locks', mem') \<and> wf_locks locks' \<and>
    held locks' = update_held lock (held locks)"
proof (cases "ltype lock \<noteq> F_UNLCK \<or> lstart lock \<noteq> 0 \<or> lend lock \<noteq> OFFSET_MAX")
  case True
  have "walked lock locks (insert_walk True True lock locks)"
    using assms(1,3) by (intro insert_walk_walked) (auto simp: lock_range_def)
  with True assms(4) show ?thesis by (auto simp: locks_insert_def walked_def split: prod.splits)
next
  case False
  have "walked lock locks (insert_walk False False lock locks)"
    using assms(1-3) False by (intro insert_walk_walked) (auto simp: lock_range_def)
  with False show ?thesis by (auto simp: locks_insert_def walked_def)
qed

text \<open>
  C13: \<^verbatim>\<open>locks_insert\<close> sets the lock of its owner on exactly the bytes of its range, clears it
  there if the type is \<^verbatim>\<open>F_UNLCK\<close>, and changes nothing on other bytes or for other owners,
  through all the cases of merging, cutting, splitting and deleting. The table stays well-formed:
  for every owner ascending, disjoint and merged. The preallocated cells are always enough.
\<close>

theorem locks_insert_correct:
  assumes "wf_locks locks" and "\<forall>l\<in>set locks. lock_range l" and "lock_range lock"
    and "fst (alloc mem) \<and> fst (alloc (snd (alloc mem)))"
  shows "\<exists>locks' mem'. locks_insert locks lock mem = Some (0, locks', mem') \<and> wf_locks locks' \<and>
    held locks' = update_held lock (held locks)"
  by (rule locks_insert_ok [OF assms])

definition demo_lock :: "lock_type \<Rightarrow> int \<Rightarrow> int \<Rightarrow> u64 \<Rightarrow> lock" where
  "demo_lock t a b ow = \<lparr>ltype = t, lstart = a, lend = b, lpid = 0, lowner = ow\<rparr>"

theorem locks_insert_correct_witness:
  "\<exists>locks' mem'. locks_insert [demo_lock F_RDLCK 0 99 1, demo_lock F_RDLCK 0 9 2] (demo_lock F_WRLCK 10 19 1) [] =
      Some (0, locks', mem') \<and> wf_locks locks' \<and>
    held locks' = update_held (demo_lock F_WRLCK 10 19 1) (held [demo_lock F_RDLCK 0 99 1, demo_lock F_RDLCK 0 9 2])"
  by (rule locks_insert_correct) (auto simp: demo_lock_def lock_range_def OFFSET_MAX_def)

text \<open>
  When a lock cannot be allocated, \<^verbatim>\<open>locks_insert\<close> reports \<^verbatim>\<open>ENOLCK\<close> and leaves the
  table as it was; unlocking a whole file needs no memory and cannot fail.
\<close>

theorem locks_insert_no_memory:
  assumes "\<not> (fst (alloc mem) \<and> fst (alloc (snd (alloc mem))))"
  shows "(ltype lock \<noteq> F_UNLCK \<or> lstart lock \<noteq> 0 \<or> lend lock \<noteq> OFFSET_MAX \<longrightarrow>
      (\<exists>mem'. locks_insert locks lock mem = Some (- ENOLCK, locks, mem'))) \<and>
    (ltype lock = F_UNLCK \<and> lstart lock = 0 \<and> lend lock = OFFSET_MAX \<and>
      wf_locks locks \<and> (\<forall>l\<in>set locks. lock_range l) \<longrightarrow>
      (\<exists>locks'. locks_insert locks lock mem = Some (0, locks', mem) \<and> (\<forall>p. 0 \<le> p \<and> p \<le> OFFSET_MAX \<longrightarrow>
        held locks' (lowner lock) p = None)))"
proof (intro conjI impI)
  assume "ltype lock \<noteq> F_UNLCK \<or> lstart lock \<noteq> 0 \<or> lend lock \<noteq> OFFSET_MAX"
  with assms show "\<exists>mem'. locks_insert locks lock mem = Some (- ENOLCK, locks, mem')"
    by (auto simp: locks_insert_def split: prod.splits)
next
  assume a: "ltype lock = F_UNLCK \<and> lstart lock = 0 \<and> lend lock = OFFSET_MAX \<and>
    wf_locks locks \<and> (\<forall>l\<in>set locks. lock_range l)"
  then have "walked lock locks (insert_walk False False lock locks)"
    by (intro insert_walk_walked) (auto simp: lock_range_def OFFSET_MAX_def)
  with a show "\<exists>locks'. locks_insert locks lock mem = Some (0, locks', mem) \<and> (\<forall>p. 0 \<le> p \<and> p \<le> OFFSET_MAX \<longrightarrow>
      held locks' (lowner lock) p = None)"
    by (auto simp: locks_insert_def walked_def update_held_def)
qed

theorem locks_insert_no_memory_witness:
  "\<exists>mem'. locks_insert [demo_lock F_RDLCK 0 99 1] (demo_lock F_WRLCK 10 19 1) [True, False] =
    Some (- ENOLCK, [demo_lock F_RDLCK 0 99 1], mem')"
  using locks_insert_no_memory [of "[True, False]" "demo_lock F_WRLCK 10 19 1" "[demo_lock F_RDLCK 0 99 1]"]
  by (simp add: demo_lock_def)

lemma held_iff:
  assumes "wf_locks ls"
  shows "held ls o' p = Some t \<longleftrightarrow> (\<exists>l\<in>set ls. lowner l = o' \<and> lstart l \<le> p \<and> p \<le> lend l \<and> ltype l = t)"
  using assms
proof (induction ls)
  case (Cons l ls)
  have "\<not> (\<exists>x\<in>set ls. lowner x = lowner l \<and> lstart x \<le> p \<and> p \<le> lend x)" if "p \<le> lend l"
    using Cons.prems that by (fastforce simp: below_def)
  with Cons show ?case by auto
qed simp

text \<open>
  \<^verbatim>\<open>locks_conflict\<close> finds a lock exactly if another owner holds a lock on a byte of the range
  and one of the two is a write lock; what it returns is such a lock.
\<close>

theorem locks_conflict_correct:
  assumes "wf_locks locks" and "lstart lock \<le> lend lock"
  shows "(locks_conflict locks lock \<noteq> None \<longleftrightarrow>
      (\<exists>o' p t. o' \<noteq> lowner lock \<and> lstart lock \<le> p \<and> p \<le> lend lock \<and> held locks o' p = Some t \<and>
        (t = F_WRLCK \<or> ltype lock = F_WRLCK))) \<and>
    (\<forall>l. locks_conflict locks lock = Some l \<longrightarrow> l \<in> set locks \<and> lowner l \<noteq> lowner lock \<and>
      held locks (lowner l) (max (lstart l) (lstart lock)) = Some (ltype l) \<and> max (lstart l) (lstart lock) \<le> lend lock)"
proof -
  let ?P = "\<lambda>l. lowner l \<noteq> lowner lock \<and> lstart lock \<le> lend l \<and> lstart l \<le> lend lock \<and>
    (ltype l = F_WRLCK \<or> ltype lock = F_WRLCK)"
  have P: "held locks (lowner l) (max (lstart l) (lstart lock)) = Some (ltype l)" "max (lstart l) (lstart lock) \<le> lend lock"
    if "l \<in> set locks" "?P l" for l
    using that wf_locks_member [OF assms(1) that(1)] assms(2) unfolding held_iff [OF assms(1)] by auto
  have "locks_conflict locks lock \<noteq> None \<longleftrightarrow> (\<exists>l\<in>set locks. ?P l)"
    by (auto simp: locks_conflict_def find_None_iff)
  also have "\<dots> \<longleftrightarrow> (\<exists>o' p t. o' \<noteq> lowner lock \<and> lstart lock \<le> p \<and> p \<le> lend lock \<and> held locks o' p = Some t \<and>
      (t = F_WRLCK \<or> ltype lock = F_WRLCK))" (is "_ \<longleftrightarrow> ?R")
  proof
    assume "\<exists>l\<in>set locks. ?P l"
    then obtain l where l: "l \<in> set locks" "?P l" by blast
    with P [OF l] show ?R by (metis max.cobounded2)
  next
    assume ?R
    then show "\<exists>l\<in>set locks. ?P l" unfolding held_iff [OF assms(1)] by force
  qed
  finally show ?thesis using P by (auto simp: locks_conflict_def find_Some_iff)
qed

theorem locks_conflict_correct_witness:
  "\<exists>o' p t. o' \<noteq> (1 :: u64) \<and> 5 \<le> p \<and> p \<le> 7 \<and> held [demo_lock F_RDLCK 0 9 2] o' p = Some t \<and>
    (t = F_WRLCK \<or> F_WRLCK = F_WRLCK)"
  using locks_conflict_correct [of "[demo_lock F_RDLCK 0 9 2]" "demo_lock F_WRLCK 5 7 1"]
  by (simp add: demo_lock_def locks_conflict_def)

text \<open>
  A range of \<^verbatim>\<open>fcntl\<close> survives the conversion to the library's representation and back,
  also when a length of 0 stands for the rest of the file.
\<close>

theorem flock_round_trip:
  assumes "0 \<le> l_start fl" and "0 \<le> l_len fl" and "l_start fl + l_len fl \<le> OFFSET_MAX"
  shows "lock_to_flock (flock_to_lock fl) = fl \<and> (l_start fl \<le> OFFSET_MAX \<longrightarrow> lock_range (flock_to_lock fl))"
  using assms by (auto simp: lock_to_flock_def flock_to_lock_def lock_range_def)

theorem flock_round_trip_witness:
  "lock_to_flock (flock_to_lock \<lparr>l_type = F_RDLCK, l_start = 5, l_len = 0, l_pid = 7\<rparr>) =
    \<lparr>l_type = F_RDLCK, l_start = 5, l_len = 0, l_pid = 7\<rparr>"
  using flock_round_trip [of "\<lparr>l_type = F_RDLCK, l_start = 5, l_len = 0, l_pid = 7\<rparr>"]
  by (simp add: OFFSET_MAX_def)

end
