(* ===== verification/NodeTable.thy ===== *)
theory NodeTable
  imports HashTable PosixLock
begin

text \<open>
  The node table of the high-level library (\<^verbatim>\<open>lib/fuse.c\<close>): the nodes the kernel knows, their
  lookup and reference counts, and the two indexes by node number and by parent and name. Nodes are
  kept at addresses; freed addresses are not used again. Functions return \<open>None\<close> where the
  code aborts: a failed assertion, a node that is not found, or a use of a freed node. The counters of a
  node are numbers without a bound; in the code they are machine integers, which the numbers of lookups,
  open files and lock holders would have to exceed.
\<close>

unbundle bit_operations_syntax

section \<open>State\<close>

record node =
  nodeid :: u64
  ngeneration :: u32
  refctr :: int
  parent :: "nat option"
  nname :: "u8 list option"
  nlookup :: nat
  open_count :: int
  is_hidden :: bool
  cache_valid :: bool
  treelock :: int
  nlocks :: "lock list"
  forget_time :: int

record fuse =
  nodes :: "node option list"
  name_table :: "nat node_table"
  id_table :: "nat node_table"
  lru_table :: "nat list"
  ctr :: u64
  generation :: u32
  remember :: int
  clock :: int
  fmem :: schedule

definition ROOT_ID :: u64 where "ROOT_ID = 1"
definition FUSE_UNKNOWN_INO :: u64 where "FUSE_UNKNOWN_INO = 0xffffffff"

definition lru_enabled :: "fuse \<Rightarrow> bool" where
  "lru_enabled f \<longleftrightarrow> remember f > 0"

definition node_at :: "fuse \<Rightarrow> nat \<Rightarrow> node option" where
  "node_at f a = (if a < length (nodes f) then nodes f ! a else None)"

definition set_node :: "nat \<Rightarrow> node \<Rightarrow> fuse \<Rightarrow> fuse" where
  "set_node a n f = f\<lparr>nodes := (nodes f)[a := Some n]\<rparr>"

definition free_node :: "nat \<Rightarrow> fuse \<Rightarrow> fuse" where
  "free_node a f = f\<lparr>nodes := (nodes f)[a := None]\<rparr>"

text \<open>\<^verbatim>\<open>alloc_node\<close>: a zeroed node, or none.\<close>

definition zero_node :: node where
  "zero_node = \<lparr>nodeid = 0, ngeneration = 0, refctr = 0, parent = None, nname = None, nlookup = 0,
     open_count = 0, is_hidden = False, cache_valid = False, treelock = 0, nlocks = [], forget_time = 0\<rparr>"

definition alloc_node :: "fuse \<Rightarrow> nat option \<times> fuse" where
  "alloc_node f =
     (case alloc (fmem f) of (ok, mem) \<Rightarrow>
        if ok then (Some (length (nodes f)), f\<lparr>nodes := nodes f @ [Some zero_node], fmem := mem\<rparr>)
        else (None, f\<lparr>fmem := mem\<rparr>))"

section \<open>The index by node number\<close>

text \<open>The hash of \<^verbatim>\<open>id_hash\<close> before it is reduced to a bucket: a product of 32-bit words.\<close>

definition id_hash :: "u64 \<Rightarrow> nat" where
  "id_hash ino = unat ((ucast ino :: u32) * 2654435761)"

definition id_full :: "fuse \<Rightarrow> nat \<Rightarrow> nat" where
  "id_full f a = (case node_at f a of None \<Rightarrow> 0 | Some n \<Rightarrow> id_hash (nodeid n))"

definition has_id :: "fuse \<Rightarrow> u64 \<Rightarrow> nat \<Rightarrow> bool" where
  "has_id f ino a \<longleftrightarrow> (case node_at f a of None \<Rightarrow> False | Some n \<Rightarrow> nodeid n = ino)"

definition get_node_nocheck :: "fuse \<Rightarrow> u64 \<Rightarrow> nat option" where
  "get_node_nocheck f ino = find (has_id f ino) (chain (id_table f) (id_hash ino))"

text \<open>\<^verbatim>\<open>get_node\<close> aborts if there is no such node.\<close>

definition get_node :: "fuse \<Rightarrow> u64 \<Rightarrow> nat option" where
  "get_node f ino = get_node_nocheck f ino"

definition hash_id :: "nat \<Rightarrow> fuse \<Rightarrow> fuse" where
  "hash_id a f =
     (case table_insert (id_full f) a (id_table f) (fmem f) of (t, mem) \<Rightarrow> f\<lparr>id_table := t, fmem := mem\<rparr>)"

definition unhash_id :: "nat \<Rightarrow> fuse \<Rightarrow> fuse" where
  "unhash_id a f =
     (case table_remove (id_full f a) a (id_table f) (fmem f) of
        None \<Rightarrow> f
      | Some (t, mem) \<Rightarrow> f\<lparr>id_table := t, fmem := mem\<rparr>)"

section \<open>The index by name\<close>

definition name_hash :: "u64 \<Rightarrow> u8 list \<Rightarrow> nat" where
  "name_hash dir name = unat (fold (\<lambda>c hash. hash * 31 + ucast c) name dir)"

definition name_full :: "fuse \<Rightarrow> nat \<Rightarrow> nat" where
  "name_full f a =
     (case node_at f a of
        None \<Rightarrow> 0
      | Some n \<Rightarrow>
          (case (parent n, nname n) of
             (Some p, Some nm) \<Rightarrow> (case node_at f p of None \<Rightarrow> 0 | Some pn \<Rightarrow> name_hash (nodeid pn) nm)
           | _ \<Rightarrow> 0))"

definition has_name :: "fuse \<Rightarrow> u64 \<Rightarrow> u8 list \<Rightarrow> nat \<Rightarrow> bool" where
  "has_name f dir name a \<longleftrightarrow>
     (case node_at f a of
        None \<Rightarrow> False
      | Some n \<Rightarrow>
          (case parent n of
             None \<Rightarrow> False
           | Some p \<Rightarrow> (case node_at f p of None \<Rightarrow> False | Some pn \<Rightarrow> nodeid pn = dir \<and> nname n = Some name)))"

definition lookup_node :: "fuse \<Rightarrow> u64 \<Rightarrow> u8 list \<Rightarrow> nat option" where
  "lookup_node f dir name = find (has_name f dir name) (chain (name_table f) (name_hash dir name))"

text \<open>
  \<^verbatim>\<open>hash_name\<close>: the name is kept in the node if it is shorter than 32 bytes, and in allocated
  memory otherwise. The first component is False for the result \<open>- 1\<close>.
\<close>

definition hash_name :: "nat \<Rightarrow> u64 \<Rightarrow> u8 list \<Rightarrow> fuse \<Rightarrow> (bool \<times> fuse) option" where
  "hash_name a parentid name f =
     (case (get_node f parentid, node_at f a) of
        (Some p, Some n) \<Rightarrow>
          (case (if length name < 32 then (True, fmem f) else alloc (fmem f)) of (ok, mem) \<Rightarrow>
             if \<not> ok then Some (False, set_node a (n\<lparr>nname := None\<rparr>) (f\<lparr>fmem := mem\<rparr>))
             else
               (case node_at f p of
                  None \<Rightarrow> None
                | Some pn \<Rightarrow>
                    let f1 = set_node p (pn\<lparr>refctr := refctr pn + 1\<rparr>) f;
                        n1 = (if a = p then pn\<lparr>refctr := refctr pn + 1\<rparr> else n);
                        f2 = set_node a (n1\<lparr>nname := Some name, parent := Some p\<rparr>) f1 in
                    case table_insert (name_full f2) a (name_table f2) mem of (t, mem') \<Rightarrow>
                      Some (True, f2\<lparr>name_table := t, fmem := mem'\<rparr>)))
      | _ \<Rightarrow> None)"

section \<open>Deleting nodes\<close>

definition remove_node_lru :: "nat \<Rightarrow> fuse \<Rightarrow> fuse" where
  "remove_node_lru a f = f\<lparr>lru_table := remove1 a (lru_table f)\<rparr>"

text \<open>The last part of \<^verbatim>\<open>unhash_name\<close>, after the parent has lost a reference.\<close>

definition drop_name :: "nat \<Rightarrow> fuse \<Rightarrow> fuse option" where
  "drop_name a f =
     (case node_at f a of
        None \<Rightarrow> None
      | Some n \<Rightarrow>
          let f1 = set_node a (n\<lparr>nname := None, parent := None\<rparr>) f in
          case table_shrink (name_table f1) (fmem f1) of (t, mem) \<Rightarrow> Some (f1\<lparr>name_table := t, fmem := mem\<rparr>))"

text \<open>The last part of \<^verbatim>\<open>delete_node\<close>, after the name has been removed.\<close>

definition drop_node :: "nat \<Rightarrow> fuse \<Rightarrow> fuse" where
  "drop_node a f = free_node a (unhash_id a (if lru_enabled f then remove_node_lru a f else f))"

definition unlink_name :: "nat \<Rightarrow> fuse \<Rightarrow> (nat \<times> fuse) option" where
  "unlink_name a f =
     (case node_at f a of
        None \<Rightarrow> None
      | Some n \<Rightarrow>
          (case parent n of
             None \<Rightarrow> None
           | Some p \<Rightarrow>
               (case (node_at f p, table_unlink (name_full f a) a (name_table f)) of
                  (Some pn, Some t) \<Rightarrow> Some (p, f\<lparr>name_table := t\<rparr>)
                | _ \<Rightarrow> None)))"

lemma unlink_name_nodes: "unlink_name a f = Some (p, f') \<Longrightarrow> nodes f' = nodes f"
  by (auto simp: unlink_name_def split: option.splits)

text \<open>
  \<^verbatim>\<open>unref_node\<close>, \<^verbatim>\<open>delete_node\<close> and \<^verbatim>\<open>unhash_name\<close> call each other: a node that
  loses its last reference is deleted, and its parent loses a reference. The recursion ends because
  each round brings another reference count to zero.
\<close>

definition referenced :: "node option \<Rightarrow> bool" where
  "referenced n \<longleftrightarrow> (case n of None \<Rightarrow> False | Some n \<Rightarrow> refctr n > 0)"

lemma dec_referenced:
  assumes "node_at f a = Some n" and "refctr n = 1"
  shows "length (filter referenced ((nodes f)[a := Some (n\<lparr>refctr := 0\<rparr>)])) < length (filter referenced (nodes f))"
proof -
  have a: "a < length (nodes f)" and na: "nodes f ! a = Some n"
    using assms(1) by (auto simp: node_at_def split: if_splits)
  have "nodes f = take a (nodes f) @ Some n # drop (Suc a) (nodes f)" using a na by (metis id_take_nth_drop)
  then have "filter referenced (nodes f) = filter referenced (take a (nodes f)) @ Some n # filter referenced (drop (Suc a) (nodes f))"
    using assms(2) by (metis (no_types, lifting) filter.simps(2) filter_append option.simps(5) referenced_def zero_less_one)
  moreover have "filter referenced ((nodes f)[a := Some (n\<lparr>refctr := 0\<rparr>)]) =
      filter referenced (take a (nodes f)) @ filter referenced (drop (Suc a) (nodes f))"
    using a by (simp add: upd_conv_take_nth_drop referenced_def)
  ultimately show ?thesis by simp
qed

function unref_node :: "nat \<Rightarrow> fuse \<Rightarrow> fuse option" where
  "unref_node a f =
     (case node_at f a of
        None \<Rightarrow> None
      | Some n \<Rightarrow>
          if refctr n \<le> 0 then None
          else if refctr n \<noteq> 1 then Some (set_node a (n\<lparr>refctr := refctr n - 1\<rparr>) f)
          else if treelock n \<noteq> 0 then None
          else
            let f1 = set_node a (n\<lparr>refctr := 0\<rparr>) f in
            case nname n of
              None \<Rightarrow> Some (drop_node a f1)
            | Some _ \<Rightarrow>
                (case unlink_name a f1 of
                   None \<Rightarrow> None
                 | Some (p, f2) \<Rightarrow>
                     (case unref_node p f2 of
                        None \<Rightarrow> None
                      | Some f3 \<Rightarrow> map_option (drop_node a) (drop_name a f3))))"
  by pat_completeness auto
termination
proof (relation "measure (\<lambda>(a, f). length (filter referenced (nodes f)))", goal_cases)
  case (2 a f n f1 nm r p f2)
  then have "nodes f2 = (nodes f)[a := Some (n\<lparr>refctr := 0\<rparr>)]"
    using unlink_name_nodes by (fastforce simp: set_node_def)
  with 2 dec_referenced [of f a n] show ?case by auto
qed simp

declare unref_node.simps [simp del]

definition unhash_name :: "nat \<Rightarrow> fuse \<Rightarrow> fuse option" where
  "unhash_name a f =
     (case node_at f a of
        None \<Rightarrow> None
      | Some n \<Rightarrow>
          (case nname n of
             None \<Rightarrow> Some f
           | Some _ \<Rightarrow>
               (case unlink_name a f of
                  None \<Rightarrow> None
                | Some (p, f1) \<Rightarrow>
                    (case unref_node p f1 of None \<Rightarrow> None | Some f2 \<Rightarrow> drop_name a f2))))"

definition delete_node :: "nat \<Rightarrow> fuse \<Rightarrow> fuse option" where
  "delete_node a f =
     (case node_at f a of
        None \<Rightarrow> None
      | Some n \<Rightarrow> if treelock n \<noteq> 0 then None else map_option (drop_node a) (unhash_name a f))"

text \<open>The three functions as the code writes them.\<close>

lemma unref_node_delete:
  assumes "node_at f a = Some n"
  shows "unref_node a f =
    (if refctr n > 0 then
       let f1 = set_node a (n\<lparr>refctr := refctr n - 1\<rparr>) f
       in if refctr n - 1 = 0 then delete_node a f1 else Some f1
     else None)"
proof -
  have "a < length (nodes f)" using assms by (auto simp: node_at_def split: if_splits)
  then have "node_at (set_node a m f) a = Some m" for m by (simp add: node_at_def set_node_def)
  then show ?thesis
    using assms by (auto simp: unref_node.simps [of a f] delete_node_def unhash_name_def Let_def split: option.splits)
qed

section \<open>Operations\<close>

text \<open>\<open>None\<close>: the search for a free number never ends.\<close>

partial_function (option) next_id :: "fuse \<Rightarrow> fuse option" where
  "next_id f =
     (let c = (ctr f + 1) AND 0xffffffff;
          f1 = f\<lparr>ctr := c, generation := (if c = 0 then generation f + 1 else generation f)\<rparr> in
      if c = 0 \<or> c = FUSE_UNKNOWN_INO \<or> get_node_nocheck f1 c \<noteq> None then next_id f1 else Some f1)"

definition inc_nlookup :: "nat \<Rightarrow> fuse \<Rightarrow> fuse option" where
  "inc_nlookup a f =
     map_option (\<lambda>n. set_node a (n\<lparr>refctr := (if nlookup n = 0 then refctr n + 1 else refctr n), nlookup := nlookup n + 1\<rparr>) f)
       (node_at f a)"

text \<open>
  \<^verbatim>\<open>find_node\<close>: the node of a name (or, without a name, the node itself), made if there is none.
  The outer option is the search for a number, the inner one an abort; the node is \<open>None\<close> if
  memory runs out.
\<close>

definition new_node :: "u64 \<Rightarrow> u8 list \<Rightarrow> fuse \<Rightarrow> (nat option \<times> fuse) option option" where
  "new_node dir name f =
     (case alloc_node f of
        (None, f1) \<Rightarrow> Some (Some (None, f1))
      | (Some a, f1) \<Rightarrow>
          (case next_id f1 of
             None \<Rightarrow> None
           | Some f2 \<Rightarrow>
               let f3 = set_node a (zero_node\<lparr>nodeid := ctr f2, ngeneration := generation f2\<rparr>) f2 in
               Some (case (if remember f3 \<noteq> 0 then inc_nlookup a f3 else Some f3) of
                  None \<Rightarrow> None
                | Some f4 \<Rightarrow>
                    (case hash_name a dir name f4 of
                       None \<Rightarrow> None
                     | Some (False, f5) \<Rightarrow> Some (None, free_node a f5)
                     | Some (True, f5) \<Rightarrow> map_option (Pair (Some a)) (inc_nlookup a (hash_id a f5))))))"

definition find_node :: "u64 \<Rightarrow> u8 list option \<Rightarrow> fuse \<Rightarrow> (nat option \<times> fuse) option option" where
  "find_node dir name f =
     (case (case name of None \<Rightarrow> map_option Some (get_node f dir) | Some nm \<Rightarrow> Some (lookup_node f dir nm)) of
        None \<Rightarrow> Some None
      | Some (Some a) \<Rightarrow>
          Some (case node_at f a of
             None \<Rightarrow> None
           | Some n \<Rightarrow>
               map_option (Pair (Some a))
                 (inc_nlookup a (if lru_enabled f \<and> nlookup n = 1 then remove_node_lru a f else f)))
      | Some None \<Rightarrow> (case name of None \<Rightarrow> Some None | Some nm \<Rightarrow> new_node dir nm f))"

text \<open>\<^verbatim>\<open>lookup_path_in_cache\<close>: the elements of the path, empty ones left out by \<^verbatim>\<open>strtok_r\<close>.\<close>

fun split_path :: "u8 list \<Rightarrow> u8 list \<Rightarrow> u8 list list" where
  "split_path el [] = (if el = [] then [] else [el])"
| "split_path el (c # cs) = (if c = 47 then (if el = [] then [] else [el]) @ split_path [] cs else split_path (el @ [c]) cs)"

fun lookup_elements :: "fuse \<Rightarrow> u64 \<Rightarrow> u8 list list \<Rightarrow> u64 option" where
  "lookup_elements f ino [] = Some ino"
| "lookup_elements f ino (el # els) =
     (case lookup_node f ino el of
        None \<Rightarrow> None
      | Some a \<Rightarrow> (case node_at f a of None \<Rightarrow> None | Some n \<Rightarrow> lookup_elements f (nodeid n) els))"

definition CACHE_ENOENT :: int where "CACHE_ENOENT = 2"
definition CACHE_ENOMEM :: int where "CACHE_ENOMEM = 12"

definition lookup_path_in_cache :: "fuse \<Rightarrow> u8 list \<Rightarrow> (int + u64) \<times> fuse" where
  "lookup_path_in_cache f path =
     (case alloc (fmem f) of (ok, mem) \<Rightarrow>
        (if \<not> ok then Inl (- CACHE_ENOMEM)
         else case lookup_elements f ROOT_ID (split_path [] path) of
                None \<Rightarrow> Inl (- CACHE_ENOENT) | Some ino \<Rightarrow> Inr ino,
         f\<lparr>fmem := mem\<rparr>))"

definition set_forget_time :: "nat \<Rightarrow> fuse \<Rightarrow> fuse option" where
  "set_forget_time a f =
     map_option (\<lambda>n. set_node a (n\<lparr>forget_time := clock f\<rparr>) (f\<lparr>lru_table := remove1 a (lru_table f) @ [a]\<rparr>)) (node_at f a)"

text \<open>
  \<^verbatim>\<open>forget_node\<close> once it need not wait: it waits while the last lookups are to be forgotten and
  the node is locked.
\<close>

definition forget_must_wait :: "fuse \<Rightarrow> u64 \<Rightarrow> nat \<Rightarrow> bool" where
  "forget_must_wait f ino n \<longleftrightarrow>
     ino \<noteq> ROOT_ID \<and>
     (case get_node f ino of
        None \<Rightarrow> False
      | Some a \<Rightarrow> (case node_at f a of None \<Rightarrow> False | Some nd \<Rightarrow> nlookup nd = n \<and> treelock nd \<noteq> 0))"

definition forget_node :: "u64 \<Rightarrow> nat \<Rightarrow> fuse \<Rightarrow> fuse option" where
  "forget_node ino n f =
     (if ino = ROOT_ID then Some f
      else case get_node f ino of
        None \<Rightarrow> None
      | Some a \<Rightarrow>
          (case node_at f a of
             None \<Rightarrow> None
           | Some nd \<Rightarrow>
               if nlookup nd < n then None
               else
                 let f1 = set_node a (nd\<lparr>nlookup := nlookup nd - n\<rparr>) f in
                 if nlookup nd - n = 0 then unref_node a f1
                 else if lru_enabled f1 \<and> nlookup nd - n = 1 then set_forget_time a f1
                 else Some f1))"

definition unlink_node :: "nat \<Rightarrow> fuse \<Rightarrow> fuse option" where
  "unlink_node a f =
     (case node_at f a of
        None \<Rightarrow> None
      | Some n \<Rightarrow>
          if remember f \<noteq> 0 then
            if nlookup n \<le> 1 then None else unhash_name a (set_node a (n\<lparr>nlookup := nlookup n - 1\<rparr>) f)
          else unhash_name a f)"

definition remove_node :: "u64 \<Rightarrow> u8 list \<Rightarrow> fuse \<Rightarrow> fuse option" where
  "remove_node dir name f = (case lookup_node f dir name of None \<Rightarrow> Some f | Some a \<Rightarrow> unlink_node a f)"

definition EBUSY :: int where "EBUSY = 16"

definition rename_node ::
  "u64 \<Rightarrow> u8 list \<Rightarrow> u64 \<Rightarrow> u8 list \<Rightarrow> bool \<Rightarrow> fuse \<Rightarrow> (int \<times> fuse) option" where
  "rename_node olddir oldname newdir newname hide f =
     (case lookup_node f olddir oldname of
        None \<Rightarrow> Some (0, f)
      | Some a \<Rightarrow>
          if lookup_node f newdir newname \<noteq> None \<and> hide then Some (- EBUSY, f)
          else
            (case (case lookup_node f newdir newname of None \<Rightarrow> Some f | Some b \<Rightarrow> unlink_node b f) of
               None \<Rightarrow> None
             | Some f1 \<Rightarrow>
                 (case unhash_name a f1 of
                    None \<Rightarrow> None
                  | Some f2 \<Rightarrow>
                      (case hash_name a newdir newname f2 of
                         None \<Rightarrow> None
                       | Some (False, f3) \<Rightarrow> Some (- CACHE_ENOMEM, f3)
                       | Some (True, f3) \<Rightarrow>
                           if hide then map_option (\<lambda>n. (0, set_node a (n\<lparr>is_hidden := True\<rparr>) f3)) (node_at f3 a)
                           else Some (0, f3)))))"

definition rehash_opt :: "nat option \<Rightarrow> u64 \<Rightarrow> u8 list \<Rightarrow> fuse \<Rightarrow> (bool \<times> fuse) option" where
  "rehash_opt a dir name f = (case a of None \<Rightarrow> Some (True, f) | Some a \<Rightarrow> hash_name a dir name f)"

definition unhash_opt :: "nat option \<Rightarrow> fuse \<Rightarrow> fuse option" where
  "unhash_opt a f = (case a of None \<Rightarrow> Some f | Some a \<Rightarrow> unhash_name a f)"

definition exchange_node :: "u64 \<Rightarrow> u8 list \<Rightarrow> u64 \<Rightarrow> u8 list \<Rightarrow> fuse \<Rightarrow> (int \<times> fuse) option" where
  "exchange_node olddir oldname newdir newname f =
     (let oldnode = lookup_node f olddir oldname; newnode = lookup_node f newdir newname in
      case unhash_opt oldnode f of
        None \<Rightarrow> None
      | Some f1 \<Rightarrow>
      (case unhash_opt newnode f1 of
        None \<Rightarrow> None
      | Some f2 \<Rightarrow>
      (case rehash_opt oldnode newdir newname f2 of
        None \<Rightarrow> None
      | Some (False, f3) \<Rightarrow> Some (- CACHE_ENOMEM, f3)
      | Some (True, f3) \<Rightarrow>
      (case rehash_opt newnode olddir oldname f3 of
        None \<Rightarrow> None
      | Some (False, f4) \<Rightarrow> Some (- CACHE_ENOMEM, f4)
      | Some (True, f4) \<Rightarrow> Some (0, f4)))))"

text \<open>\<^verbatim>\<open>fuse_clean_cache\<close>: forgets the nodes that were released longer ago than \<^verbatim>\<open>remember\<close> seconds.\<close>

fun clean_loop :: "nat list \<Rightarrow> fuse \<Rightarrow> fuse option" where
  "clean_loop [] f = Some f"
| "clean_loop (a # as) f =
     (case node_at f a of
        None \<Rightarrow> None
      | Some n \<Rightarrow>
          if clock f - forget_time n \<le> remember f then Some f
          else if nlookup n \<noteq> 1 then None
          else if refctr n > 1 then clean_loop as f
          else
            (case unhash_name a (set_node a (n\<lparr>nlookup := 0\<rparr>) f) of
               None \<Rightarrow> None
             | Some f1 \<Rightarrow> (case unref_node a f1 of None \<Rightarrow> None | Some f2 \<Rightarrow> clean_loop as f2)))"

definition fuse_clean_cache :: "fuse \<Rightarrow> fuse option" where
  "fuse_clean_cache f = clean_loop (lru_table f) f"

text \<open>The state \<^verbatim>\<open>fuse_new\<close> sets up: two empty tables and the root.\<close>

definition node_table_init :: "nat node_table" where
  "node_table_init = \<lparr>array = replicate NODE_TABLE_MIN_SIZE [], tuse = 0, tsize = NODE_TABLE_MIN_SIZE, tsplit = 0\<rparr>"

definition fuse_new :: "int \<Rightarrow> int \<Rightarrow> schedule \<Rightarrow> fuse" where
  "fuse_new rem now mem =
     hash_id 0 \<lparr>nodes = [Some (zero_node\<lparr>nname := Some [47], nodeid := ROOT_ID, refctr := 1, nlookup := 1\<rparr>)],
       name_table = node_table_init, id_table = node_table_init, lru_table = [], ctr = 0, generation = 0,
       remember = rem, clock = now, fmem = mem\<rparr>"

end
