(* ===== verification/NodeInv.thy ===== *)
theory NodeInv
  imports NodeTable
begin

text \<open>
  The invariant of the node table and that every operation keeps it: both indexes hold exactly the
  nodes they should, numbers and names are unique, and a reference count is the number of children
  plus one if the kernel knows the node.
\<close>

section \<open>Nodes and addresses\<close>

lemma node_at_set_node:
  "node_at f a = Some m \<Longrightarrow> node_at (set_node a n f) = (node_at f)(a \<mapsto> n)"
  by (auto simp: node_at_def set_node_def fun_eq_iff split: if_splits)

lemma node_at_free_node [simp]: "node_at (free_node a f) = (node_at f)(a := None)"
  by (auto simp: node_at_def free_node_def fun_eq_iff nth_list_update)

lemma node_at_other [simp]:
  "node_at (f\<lparr>name_table := t\<rparr>) = node_at f" "node_at (f\<lparr>id_table := t\<rparr>) = node_at f"
  "node_at (f\<lparr>lru_table := l\<rparr>) = node_at f" "node_at (f\<lparr>fmem := m\<rparr>) = node_at f"
  "node_at (f\<lparr>ctr := c\<rparr>) = node_at f" "node_at (f\<lparr>generation := g\<rparr>) = node_at f"
  by (simp_all add: node_at_def fun_eq_iff)

lemma set_node_fields [simp]:
  "name_table (set_node a n f) = name_table f" "id_table (set_node a n f) = id_table f"
  "lru_table (set_node a n f) = lru_table f" "fmem (set_node a n f) = fmem f" "ctr (set_node a n f) = ctr f"
  "generation (set_node a n f) = generation f" "remember (set_node a n f) = remember f" "clock (set_node a n f) = clock f"
  "name_table (free_node a f) = name_table f" "id_table (free_node a f) = id_table f"
  "lru_table (free_node a f) = lru_table f" "fmem (free_node a f) = fmem f" "ctr (free_node a f) = ctr f"
  "generation (free_node a f) = generation f" "remember (free_node a f) = remember f" "clock (free_node a f) = clock f"
  by (simp_all add: set_node_def free_node_def)

text \<open>What the indexes depend on: the number, the parent and the name of each node.\<close>

type_synonym keys = "nat \<rightharpoonup> u64 \<times> nat option \<times> u8 list option"

definition keys :: "fuse \<Rightarrow> keys" where
  "keys f a = map_option (\<lambda>n. (nodeid n, parent n, nname n)) (node_at f a)"

lemma keys_other [simp]:
  "keys (f\<lparr>name_table := t\<rparr>) = keys f" "keys (f\<lparr>id_table := t\<rparr>) = keys f"
  "keys (f\<lparr>lru_table := l\<rparr>) = keys f" "keys (f\<lparr>fmem := m\<rparr>) = keys f"
  "keys (f\<lparr>ctr := c\<rparr>) = keys f" "keys (f\<lparr>generation := g\<rparr>) = keys f"
  by (simp_all add: keys_def fun_eq_iff)

lemma keys_set_node:
  "node_at f a = Some m \<Longrightarrow> keys (set_node a n f) = (keys f)(a \<mapsto> (nodeid n, parent n, nname n))"
  by (simp add: keys_def fun_eq_iff node_at_set_node)

lemma keys_set_same:
  "node_at f a = Some m \<Longrightarrow> nodeid n = nodeid m \<Longrightarrow> parent n = parent m \<Longrightarrow> nname n = nname m \<Longrightarrow>
   keys (set_node a n f) = keys f"
  by (auto simp: keys_def fun_eq_iff node_at_set_node)

lemma keys_free_node [simp]: "keys (free_node a f) = (keys f)(a := None)"
  by (simp add: keys_def fun_eq_iff)

lemma keys_node: "node_at f a = Some n \<Longrightarrow> keys f a = Some (nodeid n, parent n, nname n)"
  by (simp add: keys_def)

lemma keys_NoneD: "keys f a = None \<longleftrightarrow> node_at f a = None"
  by (simp add: keys_def)

lemma finite_keys: "finite (dom (keys f))"
proof -
  have "dom (keys f) \<subseteq> {..<length (nodes f)}" by (auto simp: keys_def node_at_def split: if_splits)
  then show ?thesis by (rule finite_subset) simp
qed

definition id_key :: "keys \<Rightarrow> nat \<Rightarrow> nat" where
  "id_key K a = (case K a of None \<Rightarrow> 0 | Some (i, _, _) \<Rightarrow> id_hash i)"

definition name_key :: "keys \<Rightarrow> nat \<Rightarrow> nat" where
  "name_key K a =
     (case K a of Some (_, Some p, Some nm) \<Rightarrow> (case K p of None \<Rightarrow> 0 | Some (i, _, _) \<Rightarrow> name_hash i nm) | _ \<Rightarrow> 0)"

lemma id_full_keys: "id_full f = id_key (keys f)"
  by (auto simp: fun_eq_iff id_full_def id_key_def keys_def split: option.splits)

lemma name_full_keys: "name_full f = name_key (keys f)"
  by (auto simp: fun_eq_iff name_full_def name_key_def keys_def split: option.splits)

section \<open>The invariant\<close>

text \<open>
  While a name is removed, the parent may be deleted: \<open>Z\<close> are the nodes whose names are
  already out of the table although their fields still say otherwise, and \<open>x\<close> is a node that has
  one reference more than it should. Between operations there are none of either.
\<close>

definition eff :: "nat set \<Rightarrow> fuse \<Rightarrow> keys" where
  "eff Z f a = (if a \<in> Z then map_option (\<lambda>(i, _). (i, None, None)) (keys f a) else keys f a)"

definition kids :: "keys \<Rightarrow> nat \<Rightarrow> nat set" where
  "kids K a = {c. \<exists>i nm. K c = Some (i, Some a, nm)}"

definition named :: "keys \<Rightarrow> nat set" where
  "named K = {c. \<exists>i p nm. K c = Some (i, Some p, nm)}"

lemma eff_empty [simp]: "eff {} f = keys f"
  by (simp add: fun_eq_iff eff_def)

lemma eff_insert: "keys f a = Some (i, k) \<Longrightarrow> eff (insert a Z) f = (eff Z f)(a \<mapsto> (i, None, None))"
  by (auto simp: fun_eq_iff eff_def)

lemma eff_cong: "keys g = keys f \<Longrightarrow> eff Z g = eff Z f"
  by (simp add: fun_eq_iff eff_def)

lemma dom_eff [simp]: "dom (eff Z f) = dom (keys f)"
  by (auto simp: eff_def dom_def)

lemma finite_kids [simp]: "finite (kids (eff Z f) a)"
proof -
  have "kids (eff Z f) a \<subseteq> dom (eff Z f)" by (auto simp: kids_def simp del: dom_eff)
  then show ?thesis by (rule finite_subset) (simp add: finite_keys)
qed

definition ids_unique :: "keys \<Rightarrow> bool" where
  "ids_unique K \<longleftrightarrow> (\<forall>a b i. map_option fst (K a) = Some i \<longrightarrow> map_option fst (K b) = Some i \<longrightarrow> a = b)"

lemma ids_unique_restrict: "ids_unique K \<Longrightarrow> ids_unique (K(a := None))"
  unfolding ids_unique_def
proof (intro allI impI)
  fix b c i
  assume K: "\<forall>a b i. map_option fst (K a) = Some i \<longrightarrow> map_option fst (K b) = Some i \<longrightarrow> a = b"
    and b: "map_option fst ((K(a := None)) b) = Some i" and c: "map_option fst ((K(a := None)) c) = Some i"
  have "map_option fst (K b) = Some i" "map_option fst (K c) = Some i" using b c by (simp_all split: if_splits)
  with K show "b = c" by blast
qed

lemma ids_uniqueD: "ids_unique K \<Longrightarrow> K a = Some (i, k) \<Longrightarrow> K b = Some (i, l) \<Longrightarrow> a = b"
  by (simp add: ids_unique_def)

text \<open>Named nodes have a parent and a name that no sibling has; only the root has a name and no parent.\<close>

definition tree_ok :: "keys \<Rightarrow> bool" where
  "tree_ok K \<longleftrightarrow>
     (\<forall>a i p nm. K a = Some (i, Some p, nm) \<longrightarrow> K p \<noteq> None \<and> nm \<noteq> None) \<and>
     (\<forall>a i nm. K a = Some (i, None, nm) \<longrightarrow> nm = None \<or> i = ROOT_ID) \<and>
     (\<forall>a b i j p nm. K a = Some (i, Some p, nm) \<longrightarrow> K b = Some (j, Some p, nm) \<longrightarrow> a = b)"

lemma tree_okI:
  assumes "\<And>a i p nm. K a = Some (i, Some p, nm) \<Longrightarrow> K p \<noteq> None \<and> nm \<noteq> None"
    and "\<And>a i nm. K a = Some (i, None, nm) \<Longrightarrow> nm = None \<or> i = ROOT_ID"
    and "\<And>a b i j p nm. K a = Some (i, Some p, nm) \<Longrightarrow> K b = Some (j, Some p, nm) \<Longrightarrow> a = b"
  shows "tree_ok K"
  unfolding tree_ok_def using assms by blast

lemma tree_okD:
  assumes "tree_ok K"
  shows "K a = Some (i, Some p, nm) \<Longrightarrow> K p \<noteq> None \<and> nm \<noteq> None"
    and "K a = Some (i, None, nm) \<Longrightarrow> nm = None \<or> i = ROOT_ID"
    and "K a = Some (i, Some p, nm) \<Longrightarrow> K b = Some (j, Some p, nm) \<Longrightarrow> a = b"
  using assms unfolding tree_ok_def by blast+

lemma tree_ok_detach:
  assumes "tree_ok K" and "K a = Some (i, k)"
  shows "tree_ok (K(a \<mapsto> (i, None, None)))"
proof (rule tree_okI)
  let ?K = "K(a \<mapsto> (i, None, None))"
  show "?K p \<noteq> None \<and> nm \<noteq> None" if "?K b = Some (j, Some p, nm)" for b j p nm
    using that tree_okD(1) [OF assms(1), of b j p nm] by (auto split: if_splits)
  show "nm = None \<or> j = ROOT_ID" if "?K b = Some (j, None, nm)" for b j nm
    using that tree_okD(2) [OF assms(1), of b j nm] by (auto split: if_splits)
  show "b = c" if "?K b = Some (j, Some p, nm)" "?K c = Some (l, Some p, nm)" for b c j l p nm
    using that tree_okD(3) [OF assms(1), of b j p nm c l] by (auto split: if_splits)
qed

lemma tree_ok_delete:
  assumes "tree_ok K" and "kids K a = {}"
  shows "tree_ok (K(a := None))"
proof (rule tree_okI)
  let ?K = "K(a := None)"
  show "?K p \<noteq> None \<and> nm \<noteq> None" if "?K b = Some (j, Some p, nm)" for b j p nm
    using that tree_okD(1) [OF assms(1), of b j p nm] assms(2) by (auto simp: kids_def split: if_splits)
  show "nm = None \<or> j = ROOT_ID" if "?K b = Some (j, None, nm)" for b j nm
    using that tree_okD(2) [OF assms(1), of b j nm] by (auto split: if_splits)
  show "b = c" if "?K b = Some (j, Some p, nm)" "?K c = Some (l, Some p, nm)" for b c j l p nm
    using that tree_okD(3) [OF assms(1), of b j p nm c l] by (auto split: if_splits)
qed

definition ids_ok :: "fuse \<Rightarrow> bool" where
  "ids_ok f \<longleftrightarrow> wf_table 0 (id_key (keys f)) (id_table f) \<and> entries (id_table f) = dom (keys f) \<and> ids_unique (keys f)"

definition names_ok :: "nat set \<Rightarrow> fuse \<Rightarrow> bool" where
  "names_ok Z f \<longleftrightarrow> finite Z \<and> wf_table (card Z) (name_key (eff Z f)) (name_table f) \<and>
     entries (name_table f) = named (eff Z f) \<and> tree_ok (eff Z f)"

text \<open>The references of a node: its children, the kernel, and the one too many.\<close>

definition count_ok :: "nat option \<Rightarrow> keys \<Rightarrow> nat \<Rightarrow> node \<Rightarrow> bool" where
  "count_ok x K a n \<longleftrightarrow>
     refctr n = int (card (kids K a)) + (if nlookup n > 0 then 1 else 0) + (if x = Some a then 1 else 0)"

text \<open>Nodes outside \<open>D\<close> are referenced.\<close>

definition refs_ok :: "nat set \<Rightarrow> nat option \<Rightarrow> keys \<Rightarrow> fuse \<Rightarrow> bool" where
  "refs_ok D x K f \<longleftrightarrow>
     (\<forall>a n. node_at f a = Some n \<longrightarrow> count_ok x K a n \<and> (a \<in> D \<or> 0 < refctr n)) \<and>
     (\<forall>a. x = Some a \<longrightarrow> node_at f a \<noteq> None)"

text \<open>A tree lock is held on behalf of a request: on a node the kernel knows, and on its ancestors.\<close>

definition is_locked :: "fuse \<Rightarrow> nat \<Rightarrow> bool" where
  "is_locked f a \<longleftrightarrow> (\<exists>n. node_at f a = Some n \<and> treelock n \<noteq> 0)"

definition locks_ok :: "keys \<Rightarrow> fuse \<Rightarrow> bool" where
  "locks_ok K f \<longleftrightarrow> (\<forall>a n. node_at f a = Some n \<longrightarrow> treelock n \<noteq> 0 \<longrightarrow>
     nlookup n > 0 \<or> (\<exists>c\<in>kids K a. is_locked f c))"

definition root_ok :: "fuse \<Rightarrow> bool" where
  "root_ok f \<longleftrightarrow> (\<exists>r n. node_at f r = Some n \<and> nodeid n = ROOT_ID \<and> nlookup n > 0 \<and> parent n = None)"

text \<open>Of the nodes whose names are being removed, the kernel knows some; the others are being deleted.\<close>

definition pending_ok :: "nat set \<Rightarrow> fuse \<Rightarrow> bool" where
  "pending_ok Z f \<longleftrightarrow> (\<forall>z\<in>Z. \<exists>n. node_at f z = Some n \<and> (nlookup n > 0 \<or> refctr n = 0))"

definition inv :: "nat set \<Rightarrow> nat option \<Rightarrow> fuse \<Rightarrow> bool" where
  "inv Z x f \<longleftrightarrow> ids_ok f \<and> names_ok Z f \<and> refs_ok Z x (eff Z f) f \<and> locks_ok (eff Z f) f \<and> root_ok f \<and> pending_ok Z f"

text \<open>The parts of the invariant look at different fields.\<close>

lemma eff_other [simp]:
  "eff Z (f\<lparr>name_table := t\<rparr>) = eff Z f" "eff Z (f\<lparr>id_table := t\<rparr>) = eff Z f"
  "eff Z (f\<lparr>lru_table := l\<rparr>) = eff Z f" "eff Z (f\<lparr>fmem := m\<rparr>) = eff Z f"
  by (simp_all add: fun_eq_iff eff_def)

lemma ok_other [simp]:
  "ids_ok (f\<lparr>name_table := t\<rparr>) = ids_ok f" "ids_ok (f\<lparr>lru_table := l\<rparr>) = ids_ok f" "ids_ok (f\<lparr>fmem := m\<rparr>) = ids_ok f"
  "names_ok Z (f\<lparr>id_table := t\<rparr>) = names_ok Z f" "names_ok Z (f\<lparr>lru_table := l\<rparr>) = names_ok Z f"
  "names_ok Z (f\<lparr>fmem := m\<rparr>) = names_ok Z f"
  "refs_ok D x K (f\<lparr>name_table := t\<rparr>) = refs_ok D x K f" "refs_ok D x K (f\<lparr>id_table := t\<rparr>) = refs_ok D x K f"
  "refs_ok D x K (f\<lparr>lru_table := l\<rparr>) = refs_ok D x K f" "refs_ok D x K (f\<lparr>fmem := m\<rparr>) = refs_ok D x K f"
  "locks_ok K (f\<lparr>name_table := t\<rparr>) = locks_ok K f" "locks_ok K (f\<lparr>id_table := t\<rparr>) = locks_ok K f"
  "locks_ok K (f\<lparr>lru_table := l\<rparr>) = locks_ok K f" "locks_ok K (f\<lparr>fmem := m\<rparr>) = locks_ok K f"
  "root_ok (f\<lparr>name_table := t\<rparr>) = root_ok f" "root_ok (f\<lparr>id_table := t\<rparr>) = root_ok f"
  "root_ok (f\<lparr>lru_table := l\<rparr>) = root_ok f" "root_ok (f\<lparr>fmem := m\<rparr>) = root_ok f"
  "pending_ok Z (f\<lparr>name_table := t\<rparr>) = pending_ok Z f" "pending_ok Z (f\<lparr>id_table := t\<rparr>) = pending_ok Z f"
  "pending_ok Z (f\<lparr>lru_table := l\<rparr>) = pending_ok Z f" "pending_ok Z (f\<lparr>fmem := m\<rparr>) = pending_ok Z f"
  by (simp_all add: ids_ok_def names_ok_def refs_ok_def locks_ok_def root_ok_def is_locked_def pending_ok_def)

section \<open>Looking nodes up\<close>

text \<open>\<open>Y\<close> are nodes that are not yet in the index of numbers.\<close>

definition ids_but :: "nat set \<Rightarrow> fuse \<Rightarrow> bool" where
  "ids_but Y f \<longleftrightarrow> wf_table 0 (id_key (keys f)) (id_table f) \<and> entries (id_table f) = dom (keys f) - Y \<and>
     ids_unique (keys f |` (- Y))"

lemma ids_ok_but: "ids_ok f \<longleftrightarrow> ids_but {} f"
proof -
  have "keys f |` (- {}) = keys f" by (simp add: fun_eq_iff restrict_map_def)
  then show ?thesis by (simp add: ids_ok_def ids_but_def)
qed

lemma get_node_but:
  assumes "ids_but Y f"
  shows "get_node f ino = Some a \<longleftrightarrow> a \<notin> Y \<and> (\<exists>k. keys f a = Some (ino, k))"
proof -
  have has: "has_id f ino a \<longleftrightarrow> (\<exists>k. keys f a = Some (ino, k))" for a
    by (auto simp: has_id_def keys_def split: option.splits)
  have wf: "wf_table 0 (id_key (keys f)) (id_table f)" and ents: "entries (id_table f) = dom (keys f) - Y"
    and uniq: "ids_unique (keys f |` (- Y))" using assms by (simp_all add: ids_but_def)
  have "get_node f ino = Some a \<longleftrightarrow> a \<in> entries (id_table f) \<and> has_id f ino a"
    unfolding get_node_def get_node_nocheck_def
  proof (rule table.find_chain [OF wf])
    show "e = e'" if "e \<in> entries (id_table f)" "e' \<in> entries (id_table f)" "has_id f ino e" "has_id f ino e'" for e e'
    proof -
      from that obtain k l where "(keys f |` (- Y)) e = Some (ino, k)" "(keys f |` (- Y)) e' = Some (ino, l)"
        unfolding has ents by (auto simp: restrict_map_def)
      with uniq show ?thesis by (rule ids_uniqueD)
    qed
    show "id_key (keys f) e = id_hash ino" if "has_id f ino e" for e
      using that unfolding has by (auto simp: id_key_def)
  qed
  also have "\<dots> \<longleftrightarrow> a \<notin> Y \<and> (\<exists>k. keys f a = Some (ino, k))"
    using ents unfolding has by auto
  finally show ?thesis .
qed

lemma get_node_iff:
  assumes "ids_ok f"
  shows "get_node f ino = Some a \<longleftrightarrow> (\<exists>k. keys f a = Some (ino, k))"
  using get_node_but [of "{}" f] assms by (simp add: ids_ok_but)

text \<open>The entry of a directory with a name.\<close>

definition entry :: "keys \<Rightarrow> u64 \<Rightarrow> u8 list \<Rightarrow> nat \<Rightarrow> bool" where
  "entry K dir name a \<longleftrightarrow> (\<exists>i p k. K a = Some (i, Some p, Some name) \<and> K p = Some (dir, k))"

lemma lookup_node_iff:
  assumes "ids_ok f" and "names_ok {} f"
  shows "lookup_node f dir name = Some a \<longleftrightarrow> entry (keys f) dir name a"
proof -
  have has: "has_name f dir name a \<longleftrightarrow> entry (keys f) dir name a" for a
    by (auto simp: has_name_def entry_def keys_def split: option.splits)
  have "lookup_node f dir name = Some a \<longleftrightarrow> a \<in> entries (name_table f) \<and> has_name f dir name a"
    unfolding lookup_node_def
  proof (rule table.find_chain [where full = "name_key (keys f)"])
    show "wf_table 0 (name_key (keys f)) (name_table f)" using assms(2) by (simp add: names_ok_def)
    show "e = e'" if h: "has_name f dir name e" "has_name f dir name e'" for e e'
    proof -
      from h obtain i p k j q l where e: "keys f e = Some (i, Some p, Some name)" "keys f p = Some (dir, k)"
        "keys f e' = Some (j, Some q, Some name)" "keys f q = Some (dir, l)" unfolding has entry_def by blast
      then have "p = q" using assms(1) ids_uniqueD unfolding ids_ok_def by blast
      moreover have "tree_ok (keys f)" using assms(2) by (simp add: names_ok_def)
      ultimately show ?thesis using e tree_okD(3) by blast
    qed
    show "name_key (keys f) e = name_hash dir name" if "has_name f dir name e" for e
      using that unfolding has by (auto simp: entry_def name_key_def)
  qed
  also have "\<dots> \<longleftrightarrow> entry (keys f) dir name a"
    using assms(2) unfolding has by (auto simp: names_ok_def named_def entry_def)
  finally show ?thesis .
qed

section \<open>Changes of nodes\<close>

text \<open>A change of a node that keeps its number, parent and name.\<close>

lemma set_node_ok:
  assumes "node_at f a = Some n" and "nodeid m = nodeid n" and "parent m = parent n" and "nname m = nname n"
  shows "ids_ok (set_node a m f) = ids_ok f" and "names_ok Z (set_node a m f) = names_ok Z f"
    and "eff Z (set_node a m f) = eff Z f"
  using keys_set_same [OF assms] eff_cong [OF keys_set_same [OF assms]] by (simp_all add: ids_ok_def names_ok_def)

lemma root_ok_set:
  assumes "root_ok f" and "node_at f a = Some n" and "nodeid m = nodeid n" and "parent m = parent n"
    and "nlookup n > 0 \<longrightarrow> nlookup m > 0 \<or> nodeid n \<noteq> ROOT_ID"
  shows "root_ok (set_node a m f)"
proof -
  obtain r l where r: "node_at f r = Some l" "nodeid l = ROOT_ID" "nlookup l > 0" "parent l = None"
    using assms(1) by (auto simp: root_ok_def)
  show ?thesis
  proof (cases "r = a")
    case True
    with r assms(2-5) show ?thesis unfolding root_ok_def
      by (intro exI [of _ a] exI [of _ m]) (simp add: node_at_set_node)
  next
    case False
    with r assms(2) show ?thesis unfolding root_ok_def
      by (intro exI [of _ r] exI [of _ l]) (simp add: node_at_set_node)
  qed
qed

lemma locks_ok_set:
  assumes "locks_ok K f" and "node_at f a = Some n" and "treelock m = treelock n"
    and "treelock n \<noteq> 0 \<longrightarrow> nlookup n > 0 \<longrightarrow> nlookup m > 0"
  shows "locks_ok K (set_node a m f)"
proof -
  have "is_locked (set_node a m f) b = is_locked f b" for b
    using assms(2,3) by (auto simp: is_locked_def node_at_set_node)
  then have "nlookup n' > 0 \<or> (\<exists>c\<in>kids K b. is_locked (set_node a m f) c)"
    if "node_at (set_node a m f) b = Some n'" "treelock n' \<noteq> 0" for b n'
    using that assms unfolding locks_ok_def by (cases "b = a") (fastforce simp: node_at_set_node)+
  then show ?thesis unfolding locks_ok_def by blast
qed

lemma refs_ok_set:
  assumes "refs_ok D x K f" and "node_at f a = Some n" and "count_ok x' K a m" and "a \<in> D' \<or> 0 < refctr m"
    and "\<forall>b. b \<noteq> a \<longrightarrow> (x' = Some b \<longleftrightarrow> x = Some b)" and "D \<subseteq> insert a D'"
  shows "refs_ok D' x' K (set_node a m f)"
proof -
  let ?f = "set_node a m f"
  have "count_ok x' K b n' \<and> (b \<in> D' \<or> 0 < refctr n')" if "node_at ?f b = Some n'" for b n'
  proof (cases "b = a")
    case False
    then have "node_at f b = Some n'" using that assms(2) by (simp add: node_at_set_node)
    then have "count_ok x K b n'" "b \<in> D \<or> 0 < refctr n'" using assms(1) by (auto simp: refs_ok_def)
    with False assms(5,6) show ?thesis by (auto simp: count_ok_def)
  qed (use that assms in \<open>simp add: node_at_set_node\<close>)
  moreover have "node_at ?f b \<noteq> None" if "x' = Some b" for b
    using that assms(1,2,5) by (cases "b = a") (auto simp: node_at_set_node refs_ok_def)
  ultimately show ?thesis unfolding refs_ok_def by blast
qed

lemma pending_ok_set:
  assumes "pending_ok Z f" and "node_at f a = Some n" and "a \<in> Z \<longrightarrow> nlookup m > 0 \<or> refctr m = 0"
  shows "pending_ok Z (set_node a m f)"
  using assms by (auto simp: pending_ok_def node_at_set_node)

lemma pending_ok_insert: "pending_ok Z f \<Longrightarrow> node_at f a = Some n \<Longrightarrow> nlookup n > 0 \<or> refctr n = 0 \<Longrightarrow> pending_ok (insert a Z) f"
  by (auto simp: pending_ok_def)

text \<open>Losing a reference that is not the last.\<close>

lemma inv_dec:
  assumes "inv Z (Some x) f" and "node_at f x = Some n" and "refctr n \<noteq> 1"
  shows "inv Z None (set_node x (n\<lparr>refctr := refctr n - 1\<rparr>) f)"
proof -
  have parts: "ids_ok f" "names_ok Z f" "refs_ok Z (Some x) (eff Z f) f" "locks_ok (eff Z f) f" "root_ok f" "pending_ok Z f"
    using assms(1) by (simp_all add: inv_def)
  have r: "count_ok (Some x) (eff Z f) x n" using parts(3) assms(2) by (auto simp: refs_ok_def)
  then have pos: "1 < refctr n" using assms(3) by (auto simp: count_ok_def card_gt_0_iff split: if_splits)
  have "x \<in> Z \<longrightarrow> nlookup n > 0" using parts(6) assms(2) pos by (auto simp: pending_ok_def)
  moreover have "refs_ok Z None (eff Z f) (set_node x (n\<lparr>refctr := refctr n - 1\<rparr>) f)"
    by (rule refs_ok_set [OF parts(3) assms(2)]) (use r pos in \<open>auto simp: count_ok_def\<close>)
  ultimately show ?thesis
    unfolding inv_def
    using parts(1,2) root_ok_set [OF parts(5) assms(2)] locks_ok_set [OF parts(4) assms(2)] pending_ok_set [OF parts(6) assms(2)]
    by (auto simp: set_node_ok [OF assms(2)])
qed

section \<open>Deleting a node\<close>

text \<open>Losing the last reference: nothing refers to the node any more.\<close>

lemma inv_last:
  assumes "inv Z (Some x) f" and "node_at f x = Some n" and "refctr n = 1"
  shows "x \<notin> Z" and "kids (eff Z f) x = {}" and "nlookup n = 0" and "treelock n = 0" and "nodeid n \<noteq> ROOT_ID"
proof -
  have r: "refctr n = int (card (kids (eff Z f) x)) + (if nlookup n > 0 then 1 else 0) + 1"
    using assms(1,2) by (auto simp: inv_def refs_ok_def count_ok_def)
  then show k: "kids (eff Z f) x = {}" and l: "nlookup n = 0" using assms(3) by (auto split: if_splits)
  show "x \<notin> Z" using assms l by (auto simp: inv_def pending_ok_def)
  show "treelock n = 0" using assms(1,2) k l unfolding inv_def locks_ok_def by fastforce
  show "nodeid n \<noteq> ROOT_ID"
  proof
    assume i: "nodeid n = ROOT_ID"
    obtain r m where m: "node_at f r = Some m" "nodeid m = ROOT_ID" "nlookup m > 0"
      using assms(1) by (auto simp: inv_def root_ok_def)
    then have "r = x" using assms(1,2) i unfolding inv_def ids_ok_def by (metis keys_node ids_uniqueD)
    with m l assms(2) show False by simp
  qed
qed

text \<open>Detaching a node from its parent, which then has a reference too many.\<close>

lemma kids_detach: "kids (K(a \<mapsto> (i, None, None))) b = kids K b - {a}"
  by (auto simp: kids_def)

lemma kids_self: "K a = Some (i, p, nm) \<Longrightarrow> a \<in> kids K b \<longleftrightarrow> p = Some b"
  by (auto simp: kids_def)

lemma card_kids_detach:
  assumes "finite (kids K b)" and "K a = Some (i, p, nm)"
  shows "card (kids K b) = card (kids K b - {a}) + (if p = Some b then 1 else 0)"
proof (cases "a \<in> kids K b")
  case True
  then have "Suc (card (kids K b - {a})) = card (kids K b)" using assms(1) by (intro card.remove [symmetric]) simp_all
  with True kids_self [of K a i p nm b, OF assms(2)] show ?thesis by simp
qed (simp add: kids_self [of K a i p nm b, OF assms(2)])

lemma refs_ok_detach:
  assumes "refs_ok D x (eff Z f) f" and "x = None \<or> x = Some a \<and> a \<in> D'" and "eff Z f a = Some (i, y, nm)" and "tree_ok (eff Z f)"
    and "D \<subseteq> D'" and "x = Some a \<longrightarrow> y \<noteq> Some a"
  shows "\<forall>b n. node_at f b = Some n \<longrightarrow> b \<noteq> a \<or> x = None \<longrightarrow>
      count_ok y ((eff Z f)(a \<mapsto> (i, None, None))) b n \<and> (b \<in> D' \<or> 0 < refctr n)"
    and "\<forall>b. y = Some b \<longrightarrow> node_at f b \<noteq> None"
proof -
  have "count_ok y ((eff Z f)(a \<mapsto> (i, None, None))) b n" if "node_at f b = Some n" "b \<noteq> a \<or> x = None" for b n
  proof -
    have "refctr n = int (card (kids (eff Z f) b)) + (if nlookup n > 0 then 1 else 0)"
      using assms(1,2) that by (auto simp: refs_ok_def count_ok_def)
    then show ?thesis
      using card_kids_detach [of "eff Z f" b a i y nm, OF finite_kids assms(3)]
      by (simp add: count_ok_def kids_detach)
  qed
  then show "\<forall>b n. node_at f b = Some n \<longrightarrow> b \<noteq> a \<or> x = None \<longrightarrow>
      count_ok y ((eff Z f)(a \<mapsto> (i, None, None))) b n \<and> (b \<in> D' \<or> 0 < refctr n)"
    using assms(1,5) unfolding refs_ok_def by blast
  show "\<forall>b. y = Some b \<longrightarrow> node_at f b \<noteq> None"
  proof (intro allI impI)
    fix b assume "y = Some b"
    then have "eff Z f b \<noteq> None" using tree_okD(1) [OF assms(4)] assms(3) by blast
    then have "b \<in> dom (keys f)" using dom_eff by blast
    then show "node_at f b \<noteq> None" by (auto simp: keys_def)
  qed
qed

lemma locks_ok_detach:
  assumes "locks_ok K f" and "\<not> is_locked f a \<or> (\<forall>i p nm. K a = Some (i, Some p, nm) \<longrightarrow> (\<exists>n. node_at f p = Some n \<and> nlookup n > 0))"
  shows "locks_ok (K(a \<mapsto> (i, None, None))) f"
  unfolding locks_ok_def kids_detach
proof (intro allI impI)
  fix b n assume b: "node_at f b = Some n" "treelock n \<noteq> 0"
  with assms(1) have "nlookup n > 0 \<or> (\<exists>c\<in>kids K b. is_locked f c)" unfolding locks_ok_def by blast
  moreover have "nlookup n > 0" if "a \<in> kids K b" "is_locked f a"
    using that assms(2) b(1) by (auto simp: kids_def)
  ultimately show "nlookup n > 0 \<or> (\<exists>c\<in>kids K b - {a}. is_locked f c)" by blast
qed

lemma name_key_eff:
  assumes "a \<notin> Z"
  shows "name_key (eff Z f) a = name_key (keys f) a"
proof -
  have "map_option fst (eff Z f p) = map_option fst (keys f p)" for p by (auto simp: eff_def option.map_comp o_def case_prod_unfold)
  then have "(case eff Z f p of None \<Rightarrow> 0 | Some (i, _, _) \<Rightarrow> name_hash i nm) =
      (case keys f p of None \<Rightarrow> 0 | Some (i, _, _) \<Rightarrow> name_hash i nm)" for p nm
    by (auto simp: eff_def split: option.splits)
  then show ?thesis using assms by (simp add: name_key_def eff_def split: option.splits prod.splits)
qed

lemma name_key_delete:
  assumes "e \<in> named K" and "kids K a = {}" and "K a = Some (i, None, nm)"
  shows "name_key (K(a := None)) e = name_key K e"
proof -
  obtain j q nm' where q: "K e = Some (j, Some q, nm')" using assms(1) by (auto simp: named_def)
  then have "e \<noteq> a" "q \<noteq> a" using assms(2,3) by (auto simp: kids_def)
  then show ?thesis by (cases nm') (simp_all add: name_key_def q)
qed

lemma unlink_name_ok:
  assumes "names_ok Z f" and "a \<notin> Z" and "node_at f a = Some n" and "parent n = Some p"
  shows "\<exists>t. unlink_name a f = Some (p, f\<lparr>name_table := t\<rparr>) \<and> names_ok (insert a Z) (f\<lparr>name_table := t\<rparr>)"
proof -
  have key: "keys f a = Some (nodeid n, Some p, nname n)" using keys_node [OF assms(3)] assms(4) by simp
  then have ek: "eff Z f a = Some (nodeid n, Some p, nname n)" using assms(2) by (simp add: eff_def)
  have nm: "finite Z" "wf_table (card Z) (name_key (eff Z f)) (name_table f)" "entries (name_table f) = named (eff Z f)"
    "tree_ok (eff Z f)" using assms(1) by (auto simp: names_ok_def)
  have "p \<in> dom (eff Z f)" using tree_okD(1) [OF nm(4), of a] ek by blast
  then have "node_at f p \<noteq> None" by (auto simp: keys_def)
  have "a \<in> named (eff Z f)" using ek by (auto simp: named_def)
  with unlink_entry [OF nm(2), of a] nm(3) obtain t where t: "table_unlink (name_key (eff Z f) a) a (name_table f) = Some t"
    "wf_table (Suc (card Z)) (name_key (eff Z f)) t" "entries t = named (eff Z f) - {a}" by auto
  have "unlink_name a f = Some (p, f\<lparr>name_table := t\<rparr>)"
    using assms(2-4) \<open>node_at f p \<noteq> None\<close> t(1) by (auto simp: unlink_name_def name_full_keys name_key_eff)
  moreover have E: "eff (insert a Z) f = (eff Z f)(a \<mapsto> (nodeid n, None, None))" using eff_insert [OF key] .
  moreover have "entries t = named (eff (insert a Z) f)" using t(3) unfolding E by (auto simp: named_def)
  moreover have "name_key (eff (insert a Z) f) e = name_key (eff Z f) e" if "e \<in> entries t" for e
  proof -
    have "e \<noteq> a" using that t(3) by simp
    moreover have "map_option fst (eff (insert a Z) f q) = map_option fst (eff Z f q)" for q unfolding E using ek by simp
    then have "(case eff (insert a Z) f q of None \<Rightarrow> 0 | Some (i, _, _) \<Rightarrow> name_hash i nm) =
        (case eff Z f q of None \<Rightarrow> 0 | Some (i, _, _) \<Rightarrow> name_hash i nm)" for q nm unfolding E using ek by simp
    ultimately show ?thesis unfolding name_key_def by (simp add: E split: option.splits prod.splits)
  qed
  then have "wf_table (Suc (card Z)) (name_key (eff (insert a Z) f)) t" by (rule wf_table_cong [OF t(2)])
  ultimately show ?thesis
    using nm(1) assms(2) tree_ok_detach [OF nm(4) ek] by (auto simp: names_ok_def)
qed

lemma drop_name_ok:
  assumes "names_ok (insert a Z) f" and "a \<notin> Z" and "node_at f a = Some n"
  shows "\<exists>t mem. drop_name a f = Some (set_node a (n\<lparr>nname := None, parent := None\<rparr>) f\<lparr>name_table := t, fmem := mem\<rparr>) \<and>
      names_ok Z (set_node a (n\<lparr>nname := None, parent := None\<rparr>) f\<lparr>name_table := t, fmem := mem\<rparr>)"
    and "eff Z (set_node a (n\<lparr>nname := None, parent := None\<rparr>) f) = eff (insert a Z) f"
proof -
  let ?f = "set_node a (n\<lparr>nname := None, parent := None\<rparr>) f"
  have K: "keys ?f = (keys f)(a \<mapsto> (nodeid n, None, None))" using keys_set_node [OF assms(3)] by simp
  have key: "keys f a = Some (nodeid n, parent n, nname n)" using keys_node [OF assms(3)] .
  show E: "eff Z ?f = eff (insert a Z) f"
    using eff_insert [OF key, of Z] assms(2) K by (auto simp: fun_eq_iff eff_def)
  have "wf_table (Suc (card Z)) (name_key (eff Z ?f)) (name_table f)" "finite Z"
    using assms(1,2) E by (auto simp: names_ok_def)
  with shrink_entry [OF this(1), of "fmem f"] obtain t mem where
    t: "table_shrink (name_table f) (fmem f) = (t, mem)" "wf_table (card Z) (name_key (eff Z ?f)) t" "entries t = entries (name_table f)"
    by (cases "table_shrink (name_table f) (fmem f)") auto
  have "drop_name a f = Some (?f\<lparr>name_table := t, fmem := mem\<rparr>)"
    using assms(3) t(1) by (simp add: drop_name_def Let_def)
  then show "\<exists>t mem. drop_name a f = Some (?f\<lparr>name_table := t, fmem := mem\<rparr>) \<and> names_ok Z (?f\<lparr>name_table := t, fmem := mem\<rparr>)"
    using t assms(1) E by (auto simp: names_ok_def)
qed

lemma ids_ok_rename:
  assumes "node_at f a = Some n" and "nodeid m = nodeid n"
  shows "ids_ok (set_node a m f) = ids_ok f"
proof -
  let ?f = "set_node a m f"
  have K: "keys ?f = (keys f)(a \<mapsto> (nodeid n, parent m, nname m))" using keys_set_node [OF assms(1)] assms(2) by simp
  have key: "keys f a = Some (nodeid n, parent n, nname n)" using keys_node [OF assms(1)] .
  have "id_key (keys ?f) = id_key (keys f)" unfolding K using key by (simp add: fun_eq_iff id_key_def)
  moreover have "dom (keys ?f) = dom (keys f)" unfolding K using key by auto
  moreover have "map_option fst (keys ?f b) = map_option fst (keys f b)" for b unfolding K using key by simp
  then have "ids_unique (keys ?f) = ids_unique (keys f)" unfolding ids_unique_def by simp
  ultimately show ?thesis by (simp add: ids_ok_def)
qed

lemma unhash_id_ok:
  assumes "ids_ok f" and "node_at f a = Some n"
  shows "\<exists>t mem. unhash_id a f = f\<lparr>id_table := t, fmem := mem\<rparr> \<and> wf_table 0 (id_key (keys f)) t \<and> entries t = dom (keys f) - {a}"
proof -
  have "wf_table 0 (id_key (keys f)) (id_table f)" "a \<in> entries (id_table f)" "entries (id_table f) = dom (keys f)"
    using assms keys_node [OF assms(2)] by (auto simp: ids_ok_def)
  with remove_entry [OF this(1,2), of "fmem f"] obtain t mem where
    "table_remove (id_key (keys f) a) a (id_table f) (fmem f) = Some (t, mem)" "wf_table 0 (id_key (keys f)) t"
    "entries t = dom (keys f) - {a}" by metis
  then show ?thesis by (intro exI [of _ t] exI [of _ mem]) (simp add: unhash_id_def id_full_keys)
qed

lemma drop_node_ok:
  assumes "ids_ok f" and "names_ok Z f" and "refs_ok (insert a Z) None (eff Z f) f" and "locks_ok (eff Z f) f"
    and "root_ok f" and "pending_ok Z f" and "a \<notin> Z" and "node_at f a = Some n" and "parent n = None" and "refctr n = 0"
  shows "inv Z None (drop_node a f)" and "node_at (drop_node a f) = (node_at f)(a := None)"
    and "remember (drop_node a f) = remember f" "clock (drop_node a f) = clock f" "ctr (drop_node a f) = ctr f"
      "generation (drop_node a f) = generation f"
proof -
  let ?f = "if lru_enabled f then remove_node_lru a f else f" and ?K = "(eff Z f)(a := None)"
  have "ids_ok ?f" "node_at ?f a = Some n" "keys ?f = keys f" using assms(1,8) by (simp_all add: remove_node_lru_def)
  with unhash_id_ok [of ?f a n] obtain t mem where t: "unhash_id a ?f = ?f\<lparr>id_table := t, fmem := mem\<rparr>"
    "wf_table 0 (id_key (keys f)) t" "entries t = dom (keys f) - {a}" by auto
  let ?g = "free_node a (?f\<lparr>id_table := t, fmem := mem\<rparr>)"
  have g: "drop_node a f = ?g" using t(1) by (simp add: drop_node_def)
  have at: "node_at ?g = (node_at f)(a := None)" and K: "keys ?g = (keys f)(a := None)" by (simp_all add: remove_node_lru_def)
  have E: "eff Z ?g = ?K" using assms(7) by (auto simp: fun_eq_iff eff_def remove_node_lru_def)
  show "node_at (drop_node a f) = (node_at f)(a := None)" using g at by simp
  show "remember (drop_node a f) = remember f" "clock (drop_node a f) = clock f" "ctr (drop_node a f) = ctr f"
    "generation (drop_node a f) = generation f" unfolding g by (simp_all add: remove_node_lru_def)
  have ek: "eff Z f a = Some (nodeid n, None, nname n)" using keys_node [OF assms(8)] assms(7,9) by (simp add: eff_def)
  have c0: "count_ok None (eff Z f) a n" using assms(3,8) by (auto simp: refs_ok_def)
  then have nokids: "kids (eff Z f) a = {}" and nl: "nlookup n = 0" using assms(10) by (auto simp: count_ok_def split: if_splits)
  have kids: "kids ?K b = kids (eff Z f) b" for b using ek by (auto simp: kids_def)
  have nm: "finite Z" "wf_table (card Z) (name_key (eff Z f)) (name_table f)" "entries (name_table f) = named (eff Z f)"
    "tree_ok (eff Z f)" using assms(2) by (auto simp: names_ok_def)
  have "wf_table 0 (id_key ((keys f)(a := None))) t" by (rule wf_table_cong [OF t(2)]) (auto simp: t(3) id_key_def)
  moreover have "ids_unique ((keys f)(a := None))" using assms(1) ids_unique_restrict by (simp add: ids_ok_def)
  ultimately have ids: "ids_ok ?g" using t(3) K by (auto simp: ids_ok_def)
  have "named ?K = named (eff Z f)" using ek by (auto simp: named_def)
  moreover have "wf_table (card Z) (name_key ?K) (name_table f)"
    by (rule wf_table_cong [OF nm(2)]) (rule name_key_delete [OF _ nokids ek], simp add: nm(3))
  moreover have "tree_ok ?K" using tree_ok_delete [OF nm(4) nokids] .
  ultimately have names: "names_ok Z ?g" using nm(1,3) E by (simp add: names_ok_def remove_node_lru_def)
  have "count_ok None ?K = count_ok None (eff Z f)" by (simp add: fun_eq_iff count_ok_def kids)
  then have refs: "refs_ok Z None (eff Z ?g) ?g" using assms(3) unfolding refs_ok_def at E by auto
  have lk: "is_locked ?g b = is_locked f b" if "b \<noteq> a" for b using that unfolding is_locked_def at by simp
  have "\<not> is_locked f a" using assms(4,8) nokids nl unfolding locks_ok_def is_locked_def by fastforce
  then have locks: "locks_ok (eff Z ?g) ?g"
    using assms(4) lk unfolding locks_ok_def at E kids by (metis fun_upd_apply option.distinct(1))
  have root: "root_ok ?g" using assms(5,8) nl unfolding root_ok_def at by (metis fun_upd_apply less_irrefl option.inject)
  have "pending_ok Z ?g" using assms(6,7) unfolding pending_ok_def at by auto
  then show "inv Z None (drop_node a f)" using ids names refs locks root unfolding g inv_def by blast
qed

text \<open>What may happen to nodes when references go: counts fall, and unknown nodes disappear.\<close>

definition shrunk :: "fuse \<Rightarrow> fuse \<Rightarrow> bool" where
  "shrunk f g \<longleftrightarrow> (\<forall>a m. node_at g a = Some m \<longrightarrow> (\<exists>n. node_at f a = Some n \<and> m = n\<lparr>refctr := refctr m\<rparr>)) \<and>
     (\<forall>a n. node_at f a = Some n \<longrightarrow> node_at g a = None \<longrightarrow> nlookup n = 0) \<and>
     remember g = remember f \<and> clock g = clock f \<and> ctr g = ctr f \<and> generation g = generation f"

lemma shrunk_trans:
  assumes "shrunk f g" and "shrunk g h"
  shows "shrunk f h"
  unfolding shrunk_def
proof (intro conjI allI impI)
  fix a m assume "node_at h a = Some m"
  then obtain k where k: "node_at g a = Some k" "m = k\<lparr>refctr := refctr m\<rparr>" using assms(2) unfolding shrunk_def by blast
  then obtain n where n: "node_at f a = Some n" "k = n\<lparr>refctr := refctr k\<rparr>" using assms(1) unfolding shrunk_def by blast
  have "m = n\<lparr>refctr := refctr m\<rparr>" by (subst k(2), subst n(2)) simp
  with n(1) show "\<exists>n. node_at f a = Some n \<and> m = n\<lparr>refctr := refctr m\<rparr>" by blast
next
  fix a n assume n: "node_at f a = Some n" and h: "node_at h a = None"
  show "nlookup n = 0"
  proof (cases "node_at g a")
    case None
    with n assms(1) show ?thesis unfolding shrunk_def by blast
  next
    case (Some m)
    with h assms(2) have "nlookup m = 0" unfolding shrunk_def by blast
    moreover obtain n' where "node_at f a = Some n'" "m = n'\<lparr>refctr := refctr m\<rparr>" using Some assms(1) unfolding shrunk_def by blast
    ultimately show ?thesis using n by (metis node.select_convs(6) node.surjective node.update_convs(3) option.inject)
  qed
qed (use assms in \<open>simp_all add: shrunk_def\<close>)

lemma shrunk_count: "node_at f a = Some n \<Longrightarrow> shrunk f (set_node a (n\<lparr>refctr := r\<rparr>) f)"
  by (auto simp: shrunk_def node_at_set_node)

text \<open>The end of the removal of a name: of a node that is deleted, and of one that stays.\<close>

lemma drop_name_inv:
  assumes "inv (insert x Z) None g" and "x \<notin> Z" and "node_at g x = Some m"
  shows "\<exists>t mem. let h = set_node x (m\<lparr>nname := None, parent := None\<rparr>) g\<lparr>name_table := t, fmem := mem\<rparr> in
    drop_name x g = Some h \<and> ids_ok h \<and> names_ok Z h \<and> refs_ok (insert x Z) None (eff Z h) h \<and> locks_ok (eff Z h) h \<and>
    root_ok h \<and> pending_ok Z h"
proof -
  let ?m = "m\<lparr>nname := None, parent := None\<rparr>"
  let ?g = "set_node x ?m g"
  have parts: "ids_ok g" "names_ok (insert x Z) g" "refs_ok (insert x Z) None (eff (insert x Z) g) g"
    "locks_ok (eff (insert x Z) g) g" "root_ok g" "pending_ok (insert x Z) g"
    using assms(1) by (simp_all add: inv_def)
  note dn = drop_name_ok [OF parts(2) assms(2,3)]
  have "refs_ok (insert x Z) None (eff Z ?g) ?g"
    unfolding dn(2) by (rule refs_ok_set [OF parts(3) assms(3)]) (use parts(3) assms(3) in \<open>auto simp: refs_ok_def count_ok_def\<close>)
  moreover have "locks_ok (eff Z ?g) ?g"
    unfolding dn(2) by (rule locks_ok_set [OF parts(4) assms(3)]) simp_all
  moreover have "root_ok ?g"
  proof -
    obtain r l where r: "node_at g r = Some l" "nodeid l = ROOT_ID" "nlookup l > 0" "parent l = None"
      using parts(5) by (auto simp: root_ok_def)
    then show ?thesis using assms(3) unfolding root_ok_def node_at_set_node [OF assms(3)] by (cases "r = x") auto
  qed
  moreover have "pending_ok Z ?g" using parts(6) assms(2,3) by (auto simp: pending_ok_def node_at_set_node)
  moreover have "ids_ok ?g" using parts(1) by (simp add: ids_ok_rename [OF assms(3)])
  moreover obtain t mem where "drop_name x g = Some (?g\<lparr>name_table := t, fmem := mem\<rparr>)" "names_ok Z (?g\<lparr>name_table := t, fmem := mem\<rparr>)"
    using dn(1) by blast
  ultimately show ?thesis by (intro exI [of _ t] exI [of _ mem]) (simp add: Let_def)
qed

lemma drop_named_ok:
  assumes "inv (insert x Z) None g" and "x \<notin> Z" and "node_at g x = Some m" and "refctr m = 0"
  shows "\<exists>h. drop_name x g = Some h \<and> inv Z None (drop_node x h) \<and> node_at (drop_node x h) = (node_at g)(x := None) \<and>
    remember (drop_node x h) = remember g \<and> clock (drop_node x h) = clock g \<and> ctr (drop_node x h) = ctr g \<and>
    generation (drop_node x h) = generation g"
proof -
  let ?m = "m\<lparr>nname := None, parent := None\<rparr>"
  obtain h t mem where h: "drop_name x g = Some h" "ids_ok h" "names_ok Z h" "refs_ok (insert x Z) None (eff Z h) h"
    "locks_ok (eff Z h) h" "root_ok h" "pending_ok Z h" "h = set_node x ?m g\<lparr>name_table := t, fmem := mem\<rparr>"
    using drop_name_inv [OF assms(1-3)] by (auto simp: Let_def)
  have at: "node_at h = (node_at g)(x \<mapsto> ?m)" using node_at_set_node [OF assms(3)] h(8) by simp
  note dr = drop_node_ok [OF h(2-7) assms(2), of ?m]
  show ?thesis using h(1,8) dr at assms(4) by (intro exI [of _ h]) simp
qed

lemma shrunk_fields:
  assumes "shrunk f g" and "node_at f a = Some n" and "node_at g a = Some m"
  shows "nodeid m = nodeid n" "parent m = parent n" "nname m = nname n" "nlookup m = nlookup n" "treelock m = treelock n"
proof -
  have "m = n\<lparr>refctr := refctr m\<rparr>" using assms unfolding shrunk_def by fastforce
  then have "m = n\<lparr>refctr := r\<rparr>" if "r = refctr m" for r using that by simp
  then show "nodeid m = nodeid n" "parent m = parent n" "nname m = nname n" "nlookup m = nlookup n" "treelock m = treelock n"
    by (metis node.select_convs node.surjective node.update_convs(3))+
qed

lemma detach_last:
  assumes "inv Z (Some x) f" and "node_at f x = Some n" and "refctr n = 1"
  defines "f1 \<equiv> set_node x (n\<lparr>refctr := 0\<rparr>) f"
  shows "refs_ok (insert x Z) (parent n) (eff (insert x Z) f1) f1" and "locks_ok (eff (insert x Z) f1) f1"
    and "ids_ok f1" and "names_ok Z f1" and "root_ok f1" and "pending_ok (insert x Z) f1"
proof -
  have parts: "ids_ok f" "names_ok Z f" "refs_ok Z (Some x) (eff Z f) f" "locks_ok (eff Z f) f" "root_ok f" "pending_ok Z f"
    using assms(1) by (simp_all add: inv_def)
  note last = inv_last [OF assms(1-3)]
  have key: "keys f x = Some (nodeid n, parent n, nname n)" by (rule keys_node [OF assms(2)])
  have ek: "eff Z f x = Some (nodeid n, parent n, nname n)" using key last(1) by (simp add: eff_def)
  have tree: "tree_ok (eff Z f)" using parts(2) by (simp add: names_ok_def)
  have at: "node_at f1 = (node_at f)(x \<mapsto> n\<lparr>refctr := 0\<rparr>)" unfolding f1_def by (rule node_at_set_node [OF assms(2)])
  have K: "keys f1 = keys f" unfolding f1_def by (rule keys_set_same [OF assms(2)]) simp_all
  have E: "eff (insert x Z) f1 = (eff Z f)(x \<mapsto> (nodeid n, None, None))" using eff_insert [of f1 x] K key eff_cong [OF K] by simp
  show "ids_ok f1" "names_ok Z f1" using parts(1,2) unfolding f1_def by (simp_all add: set_node_ok [OF assms(2)])
  show "root_ok f1" unfolding f1_def by (rule root_ok_set [OF parts(5) assms(2)]) (simp_all add: last)
  have "pending_ok Z f1" unfolding f1_def by (rule pending_ok_set [OF parts(6) assms(2)]) (simp add: last)
  then show "pending_ok (insert x Z) f1" by (rule pending_ok_insert [where n = "n\<lparr>refctr := 0\<rparr>"]) (simp_all add: at)
  have "locks_ok (eff Z f) f1" unfolding f1_def by (rule locks_ok_set [OF parts(4) assms(2)]) simp_all
  then show "locks_ok (eff (insert x Z) f1) f1"
    unfolding E by (rule locks_ok_detach) (simp add: is_locked_def at last)
  have noself: "parent n \<noteq> Some x" using last(2) ek by (auto simp: kids_def)
  note det = refs_ok_detach [OF parts(3) _ ek tree subset_insertI [of Z x] , simplified, OF noself]
  have "count_ok (parent n) ((eff Z f)(x \<mapsto> (nodeid n, None, None))) x (n\<lparr>refctr := 0\<rparr>)"
    using last(2,3) noself by (simp add: count_ok_def kids_detach)
  then show "refs_ok (insert x Z) (parent n) (eff (insert x Z) f1) f1"
    unfolding refs_ok_def E at using det by auto
qed

lemma unref_node_ok:
  "inv Z (Some x) f \<Longrightarrow> \<exists>g. unref_node x f = Some g \<and> inv Z None g \<and> shrunk f g \<and>
    (node_at g x = None \<longleftrightarrow> map_option refctr (node_at f x) = Some 1)"
proof (induction x f arbitrary: Z rule: unref_node.induct)
  case (1 x f)
  note inv = "1.prems"
  obtain n where n: "node_at f x = Some n" using inv by (auto simp: inv_def refs_ok_def)
  have "count_ok (Some x) (eff Z f) x n" using inv n by (auto simp: inv_def refs_ok_def)
  then have pos: "0 < refctr n" by (simp add: count_ok_def)
  show ?case
  proof (cases "refctr n = 1")
    case False
    have "unref_node x f = Some (set_node x (n\<lparr>refctr := refctr n - 1\<rparr>) f)"
      using False pos n by (simp add: unref_node.simps [of x f])
    with inv_dec [OF inv n False] shrunk_count [OF n] n False show ?thesis by (auto simp: node_at_set_node)
  next
    case True
    note last = inv_last [OF inv n True] and det = detach_last [OF inv n True]
    let ?n0 = "n\<lparr>refctr := 0\<rparr>" and ?Z = "insert x Z"
    let ?f1 = "set_node x ?n0 f"
    have at1: "node_at ?f1 = (node_at f)(x \<mapsto> ?n0)" by (rule node_at_set_node [OF n])
    have tree: "tree_ok (eff Z f)" using inv by (simp add: inv_def names_ok_def)
    have ek: "eff Z f x = Some (nodeid n, parent n, nname n)" using keys_node [OF n] last(1) by (simp add: eff_def)
    show ?thesis
    proof (cases "parent n")
      case None
      then have nn: "nname n = None" using tree_okD(2) [OF tree] ek last(5) by auto
      then have un: "unref_node x f = Some (drop_node x ?f1)"
        using True n last(4) by (simp add: unref_node.simps [of x f])
      have "eff ?Z ?f1 = eff Z ?f1" using ek None nn by (auto simp: fun_eq_iff eff_def keys_set_same [OF n])
      then have "refs_ok ?Z None (eff Z ?f1) ?f1" "locks_ok (eff Z ?f1) ?f1" "node_at ?f1 x = Some ?n0" "pending_ok Z ?f1"
        using det(1,2,6) None at1 by (simp_all add: pending_ok_def)
      note dr = drop_node_ok [OF det(3,4) this(1,2) det(5) this(4) last(1) this(3)]
      have "shrunk ?f1 (drop_node x ?f1)" using dr(2-) None at1 last(3) by (auto simp: shrunk_def)
      with shrunk_trans [OF shrunk_count [OF n, of 0]] have "shrunk f (drop_node x ?f1)" by blast
      with un dr(1,2) None n True show ?thesis by auto
    next
      case (Some p)
      then have nm: "nname n \<noteq> None" using tree_okD(1) [OF tree] ek by auto
      then obtain nm' where nm': "nname n = Some nm'" by auto
      from unlink_name_ok [OF det(4) last(1), of ?n0 p] at1 Some obtain t where
        t: "unlink_name x ?f1 = Some (p, ?f1\<lparr>name_table := t\<rparr>)" "names_ok ?Z (?f1\<lparr>name_table := t\<rparr>)" by auto
      let ?f2 = "?f1\<lparr>name_table := t\<rparr>"
      have inv2: "inv ?Z (Some p) ?f2" using det t(2) Some by (simp add: inv_def)
      have "\<exists>g. unref_node p ?f2 = Some g \<and> inv ?Z None g \<and> shrunk ?f2 g \<and>
          (node_at g p = None \<longleftrightarrow> map_option refctr (node_at ?f2 p) = Some 1)"
        by (rule "1.IH" [OF n _ _ _ refl nm' t(1) refl inv2]) (use True last(4) in simp_all)
      then obtain g where g: "unref_node p ?f2 = Some g" "inv ?Z None g" "shrunk ?f2 g" by blast
      have un: "unref_node x f = map_option (drop_node x) (drop_name x g)"
        using True n last(4) nm' t(1) g(1) by (simp add: unref_node.simps [of x f])
      have "shrunk f ?f2" using shrunk_count [OF n, of 0] by (simp add: shrunk_def)
      then have fg: "shrunk f g" using g(3) by (rule shrunk_trans)
      obtain m where gx: "node_at g x = Some m" and m0: "nlookup m > 0 \<or> refctr m = 0"
        using g(2) by (auto simp: inv_def pending_ok_def)
      have fm: "nlookup m = 0" using shrunk_fields(4) [OF fg n gx] last(3) by simp
      obtain h where h: "drop_name x g = Some h" "inv Z None (drop_node x h)" "node_at (drop_node x h) = (node_at g)(x := None)"
        "remember (drop_node x h) = remember g" "clock (drop_node x h) = clock g" "ctr (drop_node x h) = ctr g"
        "generation (drop_node x h) = generation g"
        using drop_named_ok [OF g(2) last(1) gx] m0 fm by auto
      have "shrunk f (drop_node x h)" using fg n last(3) unfolding shrunk_def h(3-) by auto
      with un h(1-3) n True show ?thesis by auto
    qed
  qed
qed

end
