(* ===== verification/NodeOps.thy ===== *)
theory NodeOps
  imports NodeInv
begin

text \<open>
  The operations on the node table (\<^verbatim>\<open>lib/fuse.c\<close>) keep its invariant, and what they do to
  the names and numbers the kernel can look up.
\<close>

unbundle bit_operations_syntax

section \<open>Numbers\<close>

text \<open>The search for a number ends because a free one comes up: it visits all 32-bit values.\<close>

definition id_free :: "fuse \<Rightarrow> u64 \<Rightarrow> bool" where
  "id_free f c \<longleftrightarrow> c \<noteq> 0 \<and> c \<noteq> FUSE_UNKNOWN_INO \<and> get_node_nocheck f c = None"

lemma get_node_nocheck_cong:
  assumes "nodes g = nodes f" and "id_table g = id_table f"
  shows "get_node_nocheck g = get_node_nocheck f"
proof -
  have "has_id g = has_id f" using assms(1) by (simp add: fun_eq_iff has_id_def node_at_def)
  with assms(2) show ?thesis unfolding get_node_nocheck_def by simp
qed

lemma get_node_nocheck_other [simp]:
  "get_node_nocheck (f\<lparr>ctr := c\<rparr>) = get_node_nocheck f" "get_node_nocheck (f\<lparr>generation := g\<rparr>) = get_node_nocheck f"
  "get_node_nocheck (f\<lparr>ctr := c, generation := g\<rparr>) = get_node_nocheck f"
  by (rule get_node_nocheck_cong; simp)+

lemma low_mask: "x AND 0xffffffff = take_bit 32 (x :: u64)"
proof -
  have "(0xffffffff :: u64) = mask 32" by (simp add: mask_eq_exp_minus_1)
  then show ?thesis by (simp only: take_bit_eq_mask)
qed

lemma take_bit_add_left: "take_bit 32 (take_bit 32 a + b) = take_bit 32 (a + b :: u64)"
proof (rule word_uint_eqI)
  have "take_bit 32 (take_bit 32 (uint a) + uint b) = take_bit 32 (uint a + uint b)"
    by (simp add: take_bit_eq_mod mod_simps)
  then show "uint (take_bit 32 (take_bit 32 a + b)) = uint (take_bit 32 (a + b))"
    by (simp add: unsigned_take_bit_eq uint_word_arith_bintrs(1) take_bit_take_bit)
qed

lemma next_id_here:
  assumes "id_free f (take_bit 32 (ctr f + 1))"
  shows "\<exists>c gen. next_id f = Some (f\<lparr>ctr := c, generation := gen\<rparr>) \<and> id_free f c \<and> take_bit 32 c = c"
proof (intro exI conjI)
  show "next_id f = Some (f\<lparr>ctr := take_bit 32 (ctr f + 1), generation := generation f\<rparr>)"
    using assms by (subst next_id.simps) (simp add: Let_def low_mask id_free_def)
  show "take_bit 32 (take_bit 32 (ctr f + 1)) = take_bit 32 (ctr f + 1)" by simp
qed (rule assms)

lemma next_id_skip:
  assumes "\<not> id_free f (take_bit 32 (ctr f + 1))"
  shows "next_id f = next_id (f\<lparr>ctr := take_bit 32 (ctr f + 1),
    generation := (if take_bit 32 (ctr f + 1) = 0 then generation f + 1 else generation f)\<rparr>)"
  using assms unfolding id_free_def by (subst next_id.simps) (simp only: Let_def low_mask get_node_nocheck_other if_True de_Morgan_conj not_not)

lemma next_id_reach:
  "id_free f (take_bit 32 (ctr f + 1 + of_nat k)) \<Longrightarrow>
   \<exists>c gen. next_id f = Some (f\<lparr>ctr := c, generation := gen\<rparr>) \<and> id_free f c \<and> take_bit 32 c = c"
proof (induction k arbitrary: f)
  case 0
  then have "id_free f (take_bit 32 (ctr f + 1))" by simp
  then show ?case by (rule next_id_here)
next
  case (Suc k)
  let ?c = "take_bit 32 (ctr f + 1)"
  let ?f1 = "f\<lparr>ctr := ?c, generation := (if ?c = 0 then generation f + 1 else generation f)\<rparr>"
  show ?case
  proof (cases "id_free f ?c")
    case True
    then show ?thesis by (rule next_id_here)
  next
    case False
    have ctr1: "ctr ?f1 = take_bit 32 (ctr f + 1)" by simp
    have "take_bit 32 (ctr ?f1 + 1 + of_nat k) = take_bit 32 (take_bit 32 (ctr f + 1) + (1 + of_nat k))"
      unfolding ctr1 by (simp only: add.assoc)
    also have "\<dots> = take_bit 32 (ctr f + 1 + (1 + of_nat k))" by (rule take_bit_add_left)
    also have "\<dots> = take_bit 32 (ctr f + 1 + of_nat (Suc k))" by (simp only: of_nat_Suc)
    finally have "id_free ?f1 (take_bit 32 (ctr ?f1 + 1 + of_nat k))" using Suc.prems by (simp only: id_free_def get_node_nocheck_other simp_thms)
    from Suc.IH [OF this] obtain c gen where "next_id ?f1 = Some (?f1\<lparr>ctr := c, generation := gen\<rparr>)" "id_free ?f1 c" "take_bit 32 c = c"
      by blast
    moreover have "next_id f = next_id ?f1" by (rule next_id_skip [OF False])
    moreover have "?f1\<lparr>ctr := c, generation := gen\<rparr> = f\<lparr>ctr := c, generation := gen\<rparr>" for c gen by simp
    moreover have "id_free ?f1 = id_free f" by (simp only: fun_eq_iff id_free_def get_node_nocheck_other simp_thms)
    ultimately show ?thesis by (intro exI [of _ c] exI [of _ gen]) (simp only:)
  qed
qed

lemma small_numbers:
  assumes "n < 2 ^ 32"
  shows "unat (of_nat n :: u64) = n" and "take_bit 32 (of_nat n :: u64) = of_nat n"
proof -
  have "n < 2 ^ LENGTH(64)" using assms by simp
  then show "unat (of_nat n :: u64) = n" by (simp only: unsigned_of_nat take_bit_nat_eq_self of_nat_id)
  show "take_bit 32 (of_nat n :: u64) = of_nat n" using assms by (simp only: take_bit_of_nat take_bit_nat_eq_self)
qed

lemma free_number_exists:
  assumes "finite {c. get_node_nocheck f c \<noteq> None}" and "card {c. get_node_nocheck f c \<noteq> None} < 2 ^ 32 - 2"
  shows "\<exists>c. id_free f c \<and> take_bit 32 c = c"
proof (rule ccontr)
  assume none: "\<not> ?thesis"
  define N where "N = (2 :: nat) ^ 32"
  note small = small_numbers [folded N_def]
  let ?U = "{c. get_node_nocheck f c \<noteq> None}" and ?g = "\<lambda>n::nat. of_nat n :: u64"
  have "inj_on ?g {..<N}" by (rule inj_on_inverseI [where g = unat]) (simp add: small(1))
  then have "card (?g ` {..<N}) = N" by (simp add: card_image)
  moreover have "?g ` {..<N} \<subseteq> insert 0 (insert FUSE_UNKNOWN_INO ?U)"
    using none small(2) by (auto simp: id_free_def)
  then have "card (?g ` {..<N}) \<le> card (insert 0 (insert FUSE_UNKNOWN_INO ?U))"
    using assms(1) by (intro card_mono) auto
  moreover have "card (insert 0 (insert FUSE_UNKNOWN_INO ?U)) \<le> card ?U + 2"
    using assms(1) by (simp add: card_insert_if)
  ultimately show False using assms(2) by (simp add: N_def)
qed

lemma next_id_free:
  assumes "finite {c. get_node_nocheck f c \<noteq> None}" and "card {c. get_node_nocheck f c \<noteq> None} < 2 ^ 32 - 2"
  shows "\<exists>c gen. next_id f = Some (f\<lparr>ctr := c, generation := gen\<rparr>) \<and> id_free f c \<and> take_bit 32 c = c"
proof -
  obtain c where c: "id_free f c" "take_bit 32 c = c" using free_number_exists [OF assms] by blast
  have "ctr f + 1 + of_nat (unat (c - (ctr f + 1))) = c" by simp
  then show ?thesis using next_id_reach [of f "unat (c - (ctr f + 1))"] c by simp
qed

section \<open>The initial state\<close>

lemma wf_node_table_init: "wf_table 0 full node_table_init" and entries_node_table_init: "entries node_table_init = {}"
proof -
  have e: "concat (array node_table_init) = ([] :: nat list)" by (simp add: node_table_init_def)
  then show "entries node_table_init = {}" by (simp add: entries_def)
  have "tsize node_table_init = NODE_TABLE_MIN_SIZE * 2 ^ 0" by (simp add: node_table_init_def)
  then have "\<exists>k. tsize node_table_init = NODE_TABLE_MIN_SIZE * 2 ^ k" by blast
  with e show "wf_table 0 full node_table_init"
    by (auto simp: wf_table_def node_table_init_def)
qed

section \<open>Inserting into the indexes\<close>

lemma hash_id_ok:
  assumes "ids_but {a} f" and "keys f a = Some (i, k)" and "\<And>b l. keys f b = Some (i, l) \<Longrightarrow> b = a"
  shows "\<exists>t mem. hash_id a f = f\<lparr>id_table := t, fmem := mem\<rparr> \<and> ids_ok (hash_id a f)"
proof -
  have wf: "wf_table 0 (id_key (keys f)) (id_table f)" and ents: "entries (id_table f) = dom (keys f) - {a}"
    and uniq: "ids_unique (keys f |` (- {a}))" using assms(1) by (simp_all add: ids_but_def)
  obtain t mem where t: "table_insert (id_key (keys f)) a (id_table f) (fmem f) = (t, mem)" by fastforce
  have "a \<notin> entries (id_table f)" using ents by simp
  from insert_entry [OF wf this, of "fmem f"] t
  have wf': "wf_table 0 (id_key (keys f)) t" and "entries t = dom (keys f)" using ents assms(2) by auto
  moreover have "ids_unique (keys f)" unfolding ids_unique_def
  proof (intro allI impI)
    fix b c j assume b: "map_option fst (keys f b) = Some j" and c: "map_option fst (keys f c) = Some j"
    show "b = c"
    proof (cases "b = a \<or> c = a")
      case True
      with b c assms(2) have "j = i" by auto
      with b c obtain k' l where "keys f b = Some (i, k')" "keys f c = Some (i, l)" by auto
      then have "b = a" "c = a" using assms(3) by blast+
      then show ?thesis by simp
    next
      case False
      then have "(keys f |` (- {a})) b = keys f b" "(keys f |` (- {a})) c = keys f c" by (simp_all add: restrict_map_def)
      with uniq b c show ?thesis unfolding ids_unique_def by metis
    qed
  qed
  ultimately show ?thesis
    using t by (intro exI [of _ t] exI [of _ mem]) (simp add: hash_id_def id_full_keys ids_ok_def)
qed

text \<open>The keys after a node without a name got one.\<close>

lemma tree_ok_attach:
  assumes "tree_ok K" and "K a = Some (i, None, nm0)" and "K p \<noteq> None" and "\<And>b j. K b \<noteq> Some (j, Some p, Some name)"
  shows "tree_ok (K(a \<mapsto> (i, Some p, Some name)))"
proof (rule tree_okI)
  let ?K = "K(a \<mapsto> (i, Some p, Some name))"
  show "?K q \<noteq> None \<and> nm \<noteq> None" if "?K b = Some (j, Some q, nm)" for b j q nm
    using that tree_okD(1) [OF assms(1), of b j q nm] assms(3) by (auto split: if_splits)
  show "nm = None \<or> j = ROOT_ID" if "?K b = Some (j, None, nm)" for b j nm
    using that tree_okD(2) [OF assms(1), of b j nm] by (auto split: if_splits)
  show "b = c" if "?K b = Some (j, Some q, nm)" "?K c = Some (l, Some q, nm)" for b c j l q nm
    using that tree_okD(3) [OF assms(1), of b j q nm c l] assms(4) by (auto split: if_splits)
qed

lemma kids_attach:
  assumes "K a = Some (i, None, nm0)"
  shows "kids (K(a \<mapsto> (i, Some p, nm))) b = (if b = p then insert a (kids K p) else kids K b)" and "a \<notin> kids K b"
  using assms by (auto simp: kids_def)

lemma name_key_attach:
  assumes "K a = Some (i, None, nm0)" and "e \<noteq> a"
  shows "name_key (K(a \<mapsto> (i, Some p, nm))) e = name_key K e"
proof -
  have "map_option fst ((K(a \<mapsto> (i, Some p, nm))) q) = map_option fst (K q)" for q using assms(1) by simp
  then have "(case (K(a \<mapsto> (i, Some p, nm))) q of None \<Rightarrow> 0 | Some (i, _, _) \<Rightarrow> name_hash i s) =
      (case K q of None \<Rightarrow> 0 | Some (i, _, _) \<Rightarrow> name_hash i s)" for q s using assms(1) by auto
  with assms(2) show ?thesis unfolding name_key_def by (simp split: option.splits prod.splits)
qed

definition attached :: "nat \<Rightarrow> nat \<Rightarrow> u8 list \<Rightarrow> fuse \<Rightarrow> fuse \<Rightarrow> bool" where
  "attached a p name f g \<longleftrightarrow> (\<exists>pn n t mem. node_at f p = Some pn \<and> node_at f a = Some n \<and>
     g = set_node a (n\<lparr>nname := Some name, parent := Some p\<rparr>) (set_node p (pn\<lparr>refctr := refctr pn + 1\<rparr>) f)
           \<lparr>name_table := t, fmem := mem\<rparr>)"

lemma attached_facts:
  assumes "attached a p name f g" and "a \<noteq> p" and "node_at f p = Some pn" and "node_at f a = Some n"
  shows "node_at g = (node_at f)(p \<mapsto> pn\<lparr>refctr := refctr pn + 1\<rparr>, a \<mapsto> n\<lparr>nname := Some name, parent := Some p\<rparr>)"
    and "keys g = (keys f)(a \<mapsto> (nodeid n, Some p, Some name))"
    and "id_table g = id_table f" "lru_table g = lru_table f" "remember g = remember f" "clock g = clock f" "ctr g = ctr f"
      "generation g = generation f"
proof -
  let ?pn = "pn\<lparr>refctr := refctr pn + 1\<rparr>" and ?n = "n\<lparr>nname := Some name, parent := Some p\<rparr>"
  obtain t mem where g: "g = set_node a ?n (set_node p ?pn f)\<lparr>name_table := t, fmem := mem\<rparr>"
    using assms(1,3,4) by (auto simp: attached_def)
  have a1: "node_at (set_node p ?pn f) a = Some n" using assms(2-4) by (simp add: node_at_set_node)
  show at: "node_at g = (node_at f)(p \<mapsto> ?pn, a \<mapsto> ?n)"
    using node_at_set_node [OF a1, of ?n] node_at_set_node [OF assms(3), of ?pn] by (simp add: g)
  show "keys g = (keys f)(a \<mapsto> (nodeid n, Some p, Some name))"
    unfolding g using keys_set_node [OF a1, of ?n] keys_set_same [OF assms(3), of ?pn] by simp
qed (use assms(1) in \<open>auto simp: attached_def\<close>)

lemma attached_refs:
  assumes "attached a p name f g" and "a \<noteq> p" and "node_at f p = Some pn" and "node_at f a = Some n" and "parent n = None"
    and "refs_ok D None (keys f) f" and "finite (kids (keys f) p)"
  shows "refs_ok D None (keys g) g"
proof -
  note fa = attached_facts [OF assms(1-4)]
  have k: "keys f a = Some (nodeid n, None, nname n)" using keys_node [OF assms(4)] assms(5) by simp
  note ka = kids_attach [where K = "keys f", OF k]
  have c: "count_ok None (keys f) b m" "b \<in> D \<or> 0 < refctr m" if "node_at f b = Some m" for b m
    using assms(6) that by (auto simp: refs_ok_def)
  have "count_ok None (keys g) b m \<and> (b \<in> D \<or> 0 < refctr m)" if "node_at g b = Some m" for b m
  proof (cases "b = p")
    case True
    then have "m = pn\<lparr>refctr := refctr pn + 1\<rparr>" using that assms(2) unfolding fa(1) by simp
    with True c [OF assms(3)] assms(7) ka show ?thesis unfolding fa(2) by (auto simp: count_ok_def)
  next
    case False
    then have "\<exists>m'. node_at f b = Some m' \<and> refctr m' = refctr m \<and> nlookup m' = nlookup m"
      using that assms(4) unfolding fa(1) by (cases "b = a") auto
    then obtain m' where "node_at f b = Some m'" "refctr m' = refctr m" "nlookup m' = nlookup m" by blast
    with False c [of b m'] ka show ?thesis unfolding fa(2) by (simp add: count_ok_def)
  qed
  then show ?thesis by (simp add: refs_ok_def)
qed

lemma attached_locks:
  assumes "attached a p name f g" and "a \<noteq> p" and "node_at f p = Some pn" and "node_at f a = Some n" and "parent n = None"
    and "locks_ok (keys f) f"
  shows "locks_ok (keys g) g"
proof -
  note fa = attached_facts [OF assms(1-4)]
  have k: "keys f a = Some (nodeid n, None, nname n)" using keys_node [OF assms(4)] assms(5) by simp
  have fields: "\<exists>m'. node_at f b = Some m' \<and> treelock m' = treelock m \<and> nlookup m' = nlookup m" if "node_at g b = Some m" for b m
    using that assms(3,4) unfolding fa(1) by (auto split: if_splits)
  have bk: "\<exists>m'. node_at g b = Some m' \<and> treelock m' = treelock m" if "node_at f b = Some m" for b m
    using that assms(3,4) unfolding fa(1) by (auto split: if_splits)
  have lk: "is_locked g b" if "is_locked f b" for b using that bk unfolding is_locked_def by metis
  show ?thesis unfolding locks_ok_def
  proof (intro allI impI)
    fix b m
    assume m: "node_at g b = Some m" "treelock m \<noteq> 0"
    from fields [OF m(1)] m(2) assms(6) have "nlookup m > 0 \<or> (\<exists>c\<in>kids (keys f) b. is_locked f c)"
      unfolding locks_ok_def by metis
    then show "nlookup m > 0 \<or> (\<exists>c\<in>kids (keys g) b. is_locked g c)"
      using lk unfolding fa(2) kids_attach(1) [where K = "keys f", OF k] by auto
  qed
qed

lemma attached_root:
  assumes "attached a p name f g" and "a \<noteq> p" and "node_at f p = Some pn" and "node_at f a = Some n" and "nodeid n \<noteq> ROOT_ID"
    and "root_ok f"
  shows "root_ok g"
proof -
  obtain r l where r: "node_at f r = Some l" "nodeid l = ROOT_ID" "nlookup l > 0" "parent l = None"
    using assms(6) by (auto simp: root_ok_def)
  then have "r \<noteq> a" using assms(4,5) by auto
  with r assms(3) show ?thesis unfolding root_ok_def attached_facts(1) [OF assms(1-4)]
    by (intro exI [of _ r]) (cases "r = p"; auto)
qed

lemma hash_name_ok:
  assumes "get_node f dir = Some p" and "a \<noteq> p" and "node_at f p = Some pn" and "node_at f a = Some n"
    and "parent n = None" and "names_ok {} f" and "\<And>b j. keys f b \<noteq> Some (j, Some p, Some name)"
  shows "(\<exists>g. hash_name a dir name f = Some (True, g) \<and> attached a p name f g \<and> names_ok {} g) \<or>
    (32 \<le> length name \<and> \<not> fst (alloc (fmem f)) \<and>
     hash_name a dir name f = Some (False, set_node a (n\<lparr>nname := None\<rparr>) (f\<lparr>fmem := snd (alloc (fmem f))\<rparr>)))"
proof (cases "length name < 32 \<or> fst (alloc (fmem f))")
  case False
  with assms(1,4) show ?thesis by (auto simp: hash_name_def split: prod.splits)
next
  case True
  let ?pn = "pn\<lparr>refctr := refctr pn + 1\<rparr>" and ?n = "n\<lparr>nname := Some name, parent := Some p\<rparr>"
  let ?f2 = "set_node a ?n (set_node p ?pn f)"
  obtain mem where mem: "(if length name < 32 then (True, fmem f) else alloc (fmem f)) = (True, mem)"
    using True by (cases "length name < 32"; cases "alloc (fmem f)") auto
  have k: "keys f a = Some (nodeid n, None, nname n)" using keys_node [OF assms(4)] assms(5) by simp
  have "node_at (set_node p ?pn f) a = Some n" using assms(2-4) by (simp add: node_at_set_node)
  then have K2: "keys ?f2 = (keys f)(a \<mapsto> (nodeid n, Some p, Some name))"
    using keys_set_node [of "set_node p ?pn f" a n ?n] keys_set_same [OF assms(3), of ?pn] by simp
  have nm: "wf_table 0 (name_key (keys f)) (name_table f)" "entries (name_table f) = named (keys f)" "tree_ok (keys f)"
    using assms(6) by (auto simp: names_ok_def)
  have notin: "a \<notin> entries (name_table f)" using k nm(2) by (auto simp: named_def)
  have "wf_table 0 (name_key (keys ?f2)) (name_table f)"
    unfolding K2
  proof (rule wf_table_cong [OF nm(1)])
    show "name_key ((keys f)(a \<mapsto> (nodeid n, Some p, Some name))) e = name_key (keys f) e" if "e \<in> entries (name_table f)" for e
      using name_key_attach [where K = "keys f", OF k] that notin by metis
  qed
  from insert_entry [OF this notin, of mem] obtain t mem' where
    t: "table_insert (name_key (keys ?f2)) a (name_table f) mem = (t, mem')" "wf_table 0 (name_key (keys ?f2)) t"
      "entries t = insert a (named (keys f))" using nm(2) by (cases "table_insert (name_key (keys ?f2)) a (name_table f) mem") auto
  let ?g = "?f2\<lparr>name_table := t, fmem := mem'\<rparr>"
  have "hash_name a dir name f = Some (True, ?g)"
    using assms(1-4) mem t(1) by (simp add: hash_name_def Let_def name_full_keys)
  moreover have "attached a p name f ?g" using assms(3,4) by (auto simp: attached_def)
  moreover have "named (keys ?f2) = insert a (named (keys f))" unfolding K2 by (auto simp: named_def)
  moreover have "tree_ok (keys ?f2)" unfolding K2
    by (rule tree_ok_attach [OF nm(3) k]) (use assms(3,7) in \<open>auto simp: keys_def\<close>)
  ultimately show ?thesis using t(2,3) by (auto simp: names_ok_def)
qed

section \<open>Making a node\<close>

lemma inv_cong:
  assumes "node_at g = node_at f" and "name_table g = name_table f" and "id_table g = id_table f"
  shows "inv Z x g = inv Z x f"
proof -
  have K: "keys g = keys f" using assms(1) by (simp add: fun_eq_iff keys_def)
  then have "eff Z g = eff Z f" by (rule eff_cong)
  moreover have "is_locked g = is_locked f" using assms(1) by (simp add: fun_eq_iff is_locked_def)
  ultimately show ?thesis using K assms
    by (simp add: inv_def ids_ok_def names_ok_def refs_ok_def locks_ok_def root_ok_def pending_ok_def)
qed

text \<open>A node that is known to nobody: neither index has it.\<close>

definition fresh :: "node \<Rightarrow> bool" where
  "fresh n \<longleftrightarrow> parent n = None \<and> nname n = None \<and> nodeid n \<noteq> ROOT_ID \<and> treelock n = 0 \<and>
     refctr n = (if nlookup n > 0 then 1 else 0)"

lemma name_key_fresh:
  assumes "K a = None" and "tree_ok K" and "e \<in> named K"
  shows "name_key (K(a \<mapsto> k)) e = name_key K e"
proof -
  obtain i p nm where e: "K e = Some (i, Some p, nm)" using assms(3) by (auto simp: named_def)
  then have "e \<noteq> a" "p \<noteq> a" using assms(1) tree_okD(1) [OF assms(2) e] by auto
  then show ?thesis by (cases nm) (simp_all add: name_key_def e)
qed

lemma tree_ok_fresh:
  assumes "tree_ok K" and "K a = None"
  shows "tree_ok (K(a \<mapsto> (i, None, None)))"
proof (rule tree_okI)
  let ?K = "K(a \<mapsto> (i, None, None))"
  show "?K q \<noteq> None \<and> nm \<noteq> None" if "?K b = Some (j, Some q, nm)" for b j q nm
    using that tree_okD(1) [OF assms(1), of b j q nm] by (auto split: if_splits)
  show "nm = None \<or> j = ROOT_ID" if "?K b = Some (j, None, nm)" for b j nm
    using that tree_okD(2) [OF assms(1), of b j nm] by (auto split: if_splits)
  show "b = c" if "?K b = Some (j, Some q, nm)" "?K c = Some (l, Some q, nm)" for b c j l q nm
    using that tree_okD(3) [OF assms(1), of b j q nm c l] by (auto split: if_splits)
qed

lemma fresh_ok:
  assumes "inv {} None f" and "node_at f a = None" and "fresh n" and "node_at g = (node_at f)(a \<mapsto> n)"
    and "name_table g = name_table f" and "id_table g = id_table f"
  shows "keys g = (keys f)(a \<mapsto> (nodeid n, None, None))" and "ids_but {a} g" and "names_ok {} g"
    and "refs_ok {a} None (keys g) g" and "locks_ok (keys g) g" and "root_ok g"
proof -
  let ?K = "(keys f)(a \<mapsto> (nodeid n, None, None))"
  have parts: "ids_ok f" "names_ok {} f" "refs_ok {} None (keys f) f" "locks_ok (keys f) f" "root_ok f"
    using assms(1) by (simp_all add: inv_def)
  have n: "parent n = None" "nname n = None" "treelock n = 0" "refctr n = (if nlookup n > 0 then 1 else 0)"
    using assms(3) by (simp_all add: fresh_def)
  show K: "keys g = ?K" using assms(4) n by (auto simp: fun_eq_iff keys_def)
  have None: "keys f a = None" using assms(2) by (simp add: keys_def)
  have nm: "wf_table 0 (name_key (keys f)) (name_table f)" "entries (name_table f) = named (keys f)" "tree_ok (keys f)"
    using parts(2) by (auto simp: names_ok_def)
  have "wf_table 0 (name_key ?K) (name_table f)"
    by (rule wf_table_cong [OF nm(1)]) (rule name_key_fresh [OF None nm(3)], simp add: nm(2))
  moreover have "named ?K = named (keys f)" using None by (auto simp: named_def)
  ultimately show "names_ok {} g" using nm(2) tree_ok_fresh [OF nm(3) None] K assms(5) by (simp add: names_ok_def)
  have "wf_table 0 (id_key ?K) (id_table f)"
    by (rule wf_table_cong [of 0 "id_key (keys f)"]) (use parts(1) None in \<open>auto simp: ids_ok_def id_key_def\<close>)
  moreover have "?K |` (- {a}) = keys f" using None by (auto simp: fun_eq_iff restrict_map_def)
  moreover have "dom ?K - {a} = dom (keys f)" using None by auto
  ultimately show "ids_but {a} g" using parts(1) K assms(6) by (simp add: ids_but_def ids_ok_def)
  have kids: "kids ?K b = kids (keys f) b" for b using None by (auto simp: kids_def)
  have nokids: "kids (keys f) a = {}"
  proof (rule ccontr)
    assume "kids (keys f) a \<noteq> {}"
    then obtain c i nm' where "keys f c = Some (i, Some a, nm')" by (auto simp: kids_def)
    from tree_okD(1) [OF nm(3) this] None show False by simp
  qed
  have "count_ok None ?K b m \<and> (b \<in> {a} \<or> 0 < refctr m)" if "node_at g b = Some m" for b m
  proof (cases "b = a")
    case True
    with that n(4) nokids show ?thesis unfolding assms(4) count_ok_def kids by simp
  next
    case False
    with that have "node_at f b = Some m" unfolding assms(4) by simp
    with parts(3) have "count_ok None (keys f) b m" "0 < refctr m" by (simp_all add: refs_ok_def)
    then show ?thesis unfolding count_ok_def kids by simp
  qed
  then show "refs_ok {a} None (keys g) g" unfolding K by (simp add: refs_ok_def)
  have lk: "is_locked g b = is_locked f b" for b using assms(2,4) n(3) by (auto simp: is_locked_def)
  show "locks_ok (keys g) g" unfolding locks_ok_def K kids lk
  proof (intro allI impI)
    fix b m assume m: "node_at g b = Some m" "treelock m \<noteq> 0"
    then have "node_at f b = Some m" using assms(4) n(3) by (auto split: if_splits)
    with m(2) parts(4) show "nlookup m > 0 \<or> (\<exists>c\<in>kids (keys f) b. is_locked f c)" unfolding locks_ok_def by blast
  qed
  show "root_ok g" using parts(5) assms(2) unfolding root_ok_def assms(4) by (metis fun_upd_apply option.distinct(1))
qed

text \<open>\<^verbatim>\<open>inc_nlookup\<close>: the kernel's first lookup is a reference.\<close>

definition known_more :: "node \<Rightarrow> node" where
  "known_more n = n\<lparr>refctr := (if nlookup n = 0 then refctr n + 1 else refctr n), nlookup := nlookup n + 1\<rparr>"

lemma inc_nlookup_known: "node_at f a = Some n \<Longrightarrow> inc_nlookup a f = Some (set_node a (known_more n) f)"
  by (simp add: inc_nlookup_def known_more_def)

lemma inc_nlookup_inv:
  assumes "ids_ok f" and "names_ok {} f" and "refs_ok D None (keys f) f" and "locks_ok (keys f) f" and "root_ok f"
    and "D \<subseteq> {a}" and "node_at f a = Some n"
  shows "inv {} None (set_node a (known_more n) f)" and "keys (set_node a (known_more n) f) = keys f"
proof -
  let ?g = "set_node a (known_more n) f"
  show K: "keys ?g = keys f" by (rule keys_set_same [OF assms(7)]) (simp_all add: known_more_def)
  have c: "count_ok None (keys f) a n" using assms(3,7) by (auto simp: refs_ok_def)
  then have "0 \<le> refctr n" "nlookup n > 0 \<Longrightarrow> 0 < refctr n" by (auto simp: count_ok_def)
  with c have "refs_ok {} None (keys f) ?g"
    by (intro refs_ok_set [OF assms(3,7)]) (use assms(6) in \<open>auto simp: known_more_def count_ok_def\<close>)
  moreover have "locks_ok (keys f) ?g" by (rule locks_ok_set [OF assms(4,7)]) (simp_all add: known_more_def)
  moreover have "root_ok ?g" by (rule root_ok_set [OF assms(5,7)]) (simp_all add: known_more_def)
  moreover have "ids_ok ?g" "names_ok {} ?g"
    using assms(1,2) set_node_ok(1,2) [OF assms(7), of "known_more n"] by (simp_all add: known_more_def)
  ultimately show "inv {} None ?g" using K by (simp add: inv_def pending_ok_def)
qed

lemma used_numbers:
  assumes "ids_but Y f"
  shows "finite {c. get_node_nocheck f c \<noteq> None}" and "card {c. get_node_nocheck f c \<noteq> None} \<le> card (dom (keys f) - Y)"
proof -
  let ?D = "dom (keys f) - Y"
  have sub: "{c. get_node_nocheck f c \<noteq> None} \<subseteq> (\<lambda>a. fst (the (keys f a))) ` ?D"
  proof
    fix c assume "c \<in> {c. get_node_nocheck f c \<noteq> None}"
    then obtain a where "get_node f c = Some a" by (auto simp: get_node_def)
    with get_node_but [OF assms] obtain k where "a \<notin> Y" "keys f a = Some (c, k)" by blast
    then show "c \<in> (\<lambda>a. fst (the (keys f a))) ` ?D" by (intro image_eqI [of _ _ a]) auto
  qed
  have fin: "finite ?D" using finite_keys by simp
  show "finite {c. get_node_nocheck f c \<noteq> None}" by (rule finite_subset [OF sub finite_imageI [OF fin]])
  show "card {c. get_node_nocheck f c \<noteq> None} \<le> card ?D" by (rule surj_card_le [OF fin sub])
qed

text \<open>The new node with its number, before it is in an index.\<close>

lemma alloc_node_cases:
  obtains "alloc_node f = (None, f\<lparr>fmem := snd (alloc (fmem f))\<rparr>)" "\<not> fst (alloc (fmem f))"
  | f1 where "alloc_node f = (Some (length (nodes f)), f1)" "fst (alloc (fmem f))"
    "node_at f1 = (node_at f)(length (nodes f) \<mapsto> zero_node)" "name_table f1 = name_table f" "id_table f1 = id_table f"
    "remember f1 = remember f" "lru_table f1 = lru_table f" "clock f1 = clock f" "fmem f1 = snd (alloc (fmem f))"
proof (cases "fst (alloc (fmem f))")
  case False
  then show ?thesis using that(1) by (cases "alloc (fmem f)") (simp add: alloc_node_def)
next
  case True
  let ?f1 = "f\<lparr>nodes := nodes f @ [Some zero_node], fmem := snd (alloc (fmem f))\<rparr>"
  show ?thesis
  proof (rule that(2) [of ?f1])
    show "node_at ?f1 = (node_at f)(length (nodes f) \<mapsto> zero_node)"
      by (auto simp: fun_eq_iff node_at_def nth_append)
  qed (use True in \<open>cases "alloc (fmem f)"; simp add: alloc_node_def\<close>)+
qed

lemma numbered_node:
  assumes "inv {} None f" and "card (dom (keys f)) < 2 ^ 32 - 2" and "node_at f a = None"
    and "node_at f1 = (node_at f)(a \<mapsto> zero_node)" and "name_table f1 = name_table f" and "id_table f1 = id_table f"
  shows "\<exists>c gen. next_id f1 = Some (f1\<lparr>ctr := c, generation := gen\<rparr>) \<and> c \<noteq> 0 \<and> c \<noteq> ROOT_ID \<and> (\<forall>b k. keys f b \<noteq> Some (c, k))"
proof -
  have "fresh zero_node" by (simp add: fresh_def zero_node_def ROOT_ID_def)
  from fresh_ok [OF assms(1,3) this assms(4-6)] have K: "keys f1 = (keys f)(a \<mapsto> (nodeid zero_node, None, None))" and ids: "ids_but {a} f1"
    by auto
  have None: "keys f a = None" using assms(3) by (simp add: keys_def)
  then have D: "dom (keys f1) - {a} = dom (keys f)" unfolding K by auto
  note used = used_numbers [OF ids]
  have "card {c. get_node_nocheck f1 c \<noteq> None} < 2 ^ 32 - 2" using used(2) assms(2) unfolding D by (rule le_less_trans)
  from next_id_free [OF used(1) this] obtain c gen where c: "next_id f1 = Some (f1\<lparr>ctr := c, generation := gen\<rparr>)" "id_free f1 c"
    by blast
  have other: "keys f b \<noteq> Some (c, k)" for b k
  proof
    assume b: "keys f b = Some (c, k)"
    then have "b \<noteq> a" using None by auto
    then have "get_node f1 c = Some b" using b unfolding get_node_but [OF ids] K by simp
    with c(2) show False by (simp add: id_free_def get_node_def)
  qed
  obtain r l where "node_at f r = Some l" "nodeid l = ROOT_ID" using assms(1) by (auto simp: inv_def root_ok_def)
  then have "c \<noteq> ROOT_ID" using other [of r] keys_node by metis
  with c other show ?thesis by (auto simp: id_free_def)
qed

lemma ids_but_rename:
  assumes "ids_but {a} f" and "keys f a = Some (i, k)" and "keys g = (keys f)(a \<mapsto> (i, l))" and "id_table g = id_table f"
  shows "ids_but {a} g"
proof -
  have "id_key (keys g) = id_key (keys f)" using assms(2) unfolding assms(3) by (simp add: fun_eq_iff id_key_def)
  moreover have "keys g |` (- {a}) = keys f |` (- {a})" unfolding assms(3) by (simp add: fun_eq_iff restrict_map_def)
  moreover have "dom (keys g) - {a} = dom (keys f) - {a}" unfolding assms(3) by auto
  ultimately show ?thesis using assms(1,4) by (simp add: ids_but_def)
qed

text \<open>From a node with a number to one that both indexes have.\<close>

lemma index_node:
  assumes "inv {} None f" and "node_at f a = None" and "fresh n" and "node_at g = (node_at f)(a \<mapsto> n)"
    and "name_table g = name_table f" and "id_table g = id_table f"
    and "get_node f dir = Some p" and "lookup_node f dir name = None" and "\<And>b k. keys f b \<noteq> Some (nodeid n, k)"
  shows "(\<exists>h. hash_name a dir name g = Some (True, h) \<and>
      (\<exists>g' n'. inc_nlookup a (hash_id a h) = Some g' \<and> inv {} None g' \<and>
        keys g' = (keys f)(a \<mapsto> (nodeid n, Some p, Some name)) \<and> node_at g' a = Some n' \<and> nlookup n' = nlookup n + 1 \<and> treelock n' = 0 \<and>
        remember g' = remember g \<and>
        (\<forall>b. b \<noteq> a \<longrightarrow> map_option nlookup (node_at g' b) = map_option nlookup (node_at f b)) \<and>
        (\<forall>b. b \<noteq> a \<longrightarrow> map_option treelock (node_at g' b) = map_option treelock (node_at f b)))) \<or>
    (32 \<le> length name \<and> \<not> fst (alloc (fmem g)) \<and>
      (\<exists>h. hash_name a dir name g = Some (False, h) \<and> inv {} None (free_node a h) \<and> node_at (free_node a h) = node_at f))"
proof -
  note fr = fresh_ok [OF assms(1-6)]
  have fields: "parent n = None" "nname n = None" "nodeid n \<noteq> ROOT_ID" using assms(3) by (auto simp: fresh_def)
  have None: "keys f a = None" using assms(2) by (simp add: keys_def)
  have ids: "ids_ok f" and names: "names_ok {} f" using assms(1) by (simp_all add: inv_def)
  obtain pk where pk: "keys f p = Some (dir, pk)" using assms(7) get_node_iff [OF ids] by blast
  then have pa: "a \<noteq> p" using None by auto
  obtain pn where pn: "node_at g p = Some pn" using pk pa unfolding assms(4) by (auto simp: keys_def)
  have gp: "get_node g dir = Some p" using get_node_but [OF fr(2)] pk pa fr(1) by auto
  have an: "node_at g a = Some n" unfolding assms(4) by simp
  have free: "keys g b \<noteq> Some (j, Some p, Some name)" for b j
  proof
    assume "keys g b = Some (j, Some p, Some name)"
    then have "entry (keys f) dir name b" using pk unfolding fr(1) by (auto simp: entry_def split: if_splits)
    then have "lookup_node f dir name = Some b" using lookup_node_iff [OF ids names] by simp
    with assms(8) show False by simp
  qed
  consider h where "hash_name a dir name g = Some (True, h)" "attached a p name g h" "names_ok {} h"
    | "32 \<le> length name" "\<not> fst (alloc (fmem g))"
      "hash_name a dir name g = Some (False, set_node a (n\<lparr>nname := None\<rparr>) (g\<lparr>fmem := snd (alloc (fmem g))\<rparr>))"
    using hash_name_ok [OF gp pa pn an fields(1) fr(3) free] by blast
  then show ?thesis
  proof cases
    case 1
    note fa = attached_facts [OF 1(2) pa pn an]
    have Kh: "keys h = (keys f)(a \<mapsto> (nodeid n, Some p, Some name))" unfolding fa(2) fr(1) by simp
    have refs: "refs_ok {a} None (keys h) h"
      by (rule attached_refs [OF 1(2) pa pn an fields(1) fr(4)]) (use finite_kids [of "{}" g p] in simp)
    have locks: "locks_ok (keys h) h" by (rule attached_locks [OF 1(2) pa pn an fields(1) fr(5)])
    have root: "root_ok h" by (rule attached_root [OF 1(2) pa pn an fields(3) fr(6)])
    have ka: "keys h a = Some (nodeid n, Some p, Some name)" unfolding Kh by simp
    have but: "ids_but {a} h" by (rule ids_but_rename [OF fr(2) _ fa(2,3)]) (simp add: fr(1))
    have one: "\<And>b l. keys h b = Some (nodeid n, l) \<Longrightarrow> b = a"
      using assms(9) unfolding Kh by (metis fun_upd_apply)
    obtain t mem where hid: "hash_id a h = h\<lparr>id_table := t, fmem := mem\<rparr>" "ids_ok (hash_id a h)"
      using hash_id_ok [OF but ka] one by blast
    let ?h = "hash_id a h" and ?n = "n\<lparr>nname := Some name, parent := Some p\<rparr>"
    have h': "keys ?h = keys h" "names_ok {} ?h" "refs_ok {a} None (keys ?h) ?h" "locks_ok (keys ?h) ?h" "root_ok ?h"
      "node_at ?h = node_at h" using 1(3) refs locks root unfolding hid(1) by simp_all
    have hn: "node_at ?h a = Some ?n" unfolding h'(6) fa(1) by simp
    note inc = inc_nlookup_inv [OF hid(2) h'(2-5) subset_refl hn]
    let ?g = "set_node a (known_more ?n) ?h"
    have at: "node_at ?g = (node_at h)(a \<mapsto> known_more ?n)" using node_at_set_node [OF hn] h'(6) by simp
    have "map_option nlookup (node_at ?g b) = map_option nlookup (node_at f b)"
      and "map_option treelock (node_at ?g b) = map_option treelock (node_at f b)" if "b \<noteq> a" for b
      using that pn pa unfolding at fa(1) assms(4) by auto
    moreover have "keys ?g = (keys f)(a \<mapsto> (nodeid n, Some p, Some name))" using inc(2) h'(1) Kh by metis
    moreover have "node_at ?g a = Some (known_more ?n)" "nlookup (known_more ?n) = nlookup n + 1" "treelock (known_more ?n) = 0"
      using assms(3) unfolding at by (simp_all add: known_more_def fresh_def)
    moreover have "remember ?g = remember g" using fa(5) hid(1) by simp
    ultimately show ?thesis
      using 1(1) inc_nlookup_known [OF hn] inc(1) by (intro disjI1 exI [of _ h] conjI exI [of _ ?g] exI [of _ "known_more ?n"]) blast+
  next
    case 2
    let ?h = "free_node a (set_node a (n\<lparr>nname := None\<rparr>) (g\<lparr>fmem := snd (alloc (fmem g))\<rparr>))"
    have at: "node_at ?h = node_at f"
      using node_at_set_node [of "g\<lparr>fmem := snd (alloc (fmem g))\<rparr>" a n] an assms(2,4) by (simp add: fun_eq_iff)
    then have "inv {} None ?h" using assms(1,5,6) inv_cong [OF at, of "{}" None] by simp
    with 2 at show ?thesis by auto
  qed
qed

lemma new_node_ok:
  assumes "inv {} None f" and "card (dom (keys f)) < 2 ^ 32 - 2" and "get_node f dir = Some p" and "lookup_node f dir name = None"
  shows "(\<exists>a g n i. new_node dir name f = Some (Some (Some a, g)) \<and> inv {} None g \<and> keys f a = None \<and>
      keys g = (keys f)(a \<mapsto> (i, Some p, Some name)) \<and> node_at g a = Some n \<and>
      nlookup n = (if remember f \<noteq> 0 then 2 else 1) \<and> treelock n = 0 \<and> remember g = remember f \<and>
      (\<forall>b. b \<noteq> a \<longrightarrow> map_option nlookup (node_at g b) = map_option nlookup (node_at f b)) \<and>
      (\<forall>b. b \<noteq> a \<longrightarrow> map_option treelock (node_at g b) = map_option treelock (node_at f b))) \<or>
    (\<exists>g. new_node dir name f = Some (Some (None, g)) \<and> inv {} None g \<and> node_at g = node_at f \<and>
      (\<not> fst (alloc (fmem f)) \<or> 32 \<le> length name \<and> \<not> fst (alloc (snd (alloc (fmem f))))))"
proof (cases rule: alloc_node_cases [of f])
  case 1
  let ?g = "f\<lparr>fmem := snd (alloc (fmem f))\<rparr>"
  have "new_node dir name f = Some (Some (None, ?g))" using 1(1) by (simp add: new_node_def)
  moreover have "inv {} None ?g" using assms(1) inv_cong [of ?g f "{}" None] by simp
  ultimately show ?thesis using 1(2) by auto
next
  case (2 f1)
  let ?a = "length (nodes f)"
  have None: "node_at f ?a = None" by (simp add: node_at_def)
  obtain c gen where c: "next_id f1 = Some (f1\<lparr>ctr := c, generation := gen\<rparr>)" "c \<noteq> 0" "c \<noteq> ROOT_ID" "\<And>b k. keys f b \<noteq> Some (c, k)"
    using numbered_node [OF assms(1,2) None 2(3-5)] by blast
  let ?n3 = "zero_node\<lparr>nodeid := c, ngeneration := gen\<rparr>"
  let ?f2 = "f1\<lparr>ctr := c, generation := gen\<rparr>"
  let ?f3 = "set_node ?a ?n3 ?f2"
  let ?n4 = "if remember f \<noteq> 0 then known_more ?n3 else ?n3"
  have a2: "node_at ?f2 ?a = Some zero_node" using 2(3) by simp
  have at3: "node_at ?f3 = (node_at f)(?a \<mapsto> ?n3)" using node_at_set_node [OF a2] 2(3) by simp
  then have a3: "node_at ?f3 ?a = Some ?n3" by simp
  obtain f4 where f4: "(if remember ?f3 \<noteq> 0 then inc_nlookup ?a ?f3 else Some ?f3) = Some f4"
    "node_at f4 = (node_at f)(?a \<mapsto> ?n4)" "name_table f4 = name_table f" "id_table f4 = id_table f" "fmem f4 = fmem f1" "remember f4 = remember f"
  proof (cases "remember f = 0")
    case True
    show ?thesis by (rule that [of ?f3]) (use True at3 2 in simp_all)
  next
    case False
    have "node_at (set_node ?a (known_more ?n3) ?f3) = (node_at f)(?a \<mapsto> known_more ?n3)"
      using node_at_set_node [OF a3] at3 by simp
    then show ?thesis
      by (intro that [of "set_node ?a (known_more ?n3) ?f3"]) (use False 2 inc_nlookup_known [OF a3] in simp_all)
  qed
  have fr: "fresh ?n4" and nl: "nlookup ?n4 + 1 = (if remember f \<noteq> 0 then 2 else 1)" and id: "nodeid ?n4 = c"
    using c(3) by (simp_all add: fresh_def zero_node_def known_more_def)
  have new: "new_node dir name f = Some (case hash_name ?a dir name f4 of
      None \<Rightarrow> None | Some (False, f5) \<Rightarrow> Some (None, free_node ?a f5)
    | Some (True, f5) \<Rightarrow> map_option (Pair (Some ?a)) (inc_nlookup ?a (hash_id ?a f5)))"
    using 2(1) c(1) f4(1) by (simp add: new_node_def Let_def)
  have mem: "fmem f4 = snd (alloc (fmem f))" using f4(5) 2(9) by simp
  have ka: "keys f ?a = None" using None by (simp add: keys_def)
  have num: "\<And>b k. keys f b \<noteq> Some (nodeid ?n4, k)" using c(4) id by simp
  from index_node [OF assms(1) None fr f4(2-4) assms(3,4) num, unfolded f4(6)]
  consider h g' n' where "hash_name ?a dir name f4 = Some (True, h)" "inc_nlookup ?a (hash_id ?a h) = Some g'" "inv {} None g'"
      "keys g' = (keys f)(?a \<mapsto> (nodeid ?n4, Some p, Some name))" "node_at g' ?a = Some n'" "nlookup n' = nlookup ?n4 + 1" "treelock n' = 0" "remember g' = remember f"
      "\<forall>b. b \<noteq> ?a \<longrightarrow> map_option nlookup (node_at g' b) = map_option nlookup (node_at f b)"
      "\<forall>b. b \<noteq> ?a \<longrightarrow> map_option treelock (node_at g' b) = map_option treelock (node_at f b)"
    | h where "32 \<le> length name" "\<not> fst (alloc (fmem f4))" "hash_name ?a dir name f4 = Some (False, h)"
      "inv {} None (free_node ?a h)" "node_at (free_node ?a h) = node_at f"
    by blast
  then show ?thesis
  proof cases
    case 1
    then have "new_node dir name f = Some (Some (Some ?a, g'))" unfolding new by simp
    moreover have "nlookup n' = (if remember f \<noteq> 0 then 2 else 1)" using 1(6) nl by simp
    ultimately show ?thesis using 1(3-5,7-10) ka by blast
  next
    case 2
    then have "new_node dir name f = Some (Some (None, free_node ?a h))" unfolding new by simp
    with 2 mem show ?thesis by auto
  qed
qed

end
