(* ===== verification/NodeProps.thy ===== *)
theory NodeProps
  imports NodeOps
begin

text \<open>
  The properties of the node table (\<^verbatim>\<open>lib/fuse.c\<close>): what looking up, forgetting, removing and
  renaming do, and that the invariant holds throughout.
\<close>

section \<open>Looking up after a change\<close>

lemma option_eq: "(\<And>b. x = Some b \<longleftrightarrow> y = Some b) \<Longrightarrow> x = y"
  by (cases x; cases y) auto

lemma inv_parts:
  assumes "inv {} None f"
  shows "ids_ok f" "names_ok {} f" "refs_ok {} None (keys f) f" "locks_ok (keys f) f" "root_ok f" "tree_ok (keys f)"
  using assms by (simp_all add: inv_def names_ok_def)

lemma lookup_node_inv: "inv {} None f \<Longrightarrow> lookup_node f dir name = Some a \<longleftrightarrow> entry (keys f) dir name a"
  by (simp add: inv_def lookup_node_iff)

lemma get_node_inv: "inv {} None f \<Longrightarrow> get_node f ino = Some a \<longleftrightarrow> (\<exists>k. keys f a = Some (ino, k))"
  by (simp add: inv_def get_node_iff)

lemma entry_ids: "entry K d nm b \<longleftrightarrow> (\<exists>i p. K b = Some (i, Some p, Some nm) \<and> (\<exists>l. K p = Some (d, l)))"
  unfolding entry_def by blast

lemma lookup_attached:
  assumes "inv {} None f" and "inv {} None g" and "keys g = (keys f)(a \<mapsto> (i, Some p, Some name))"
    and "keys f a = None \<or> (\<exists>nm. keys f a = Some (i, None, nm))" and "keys f p = Some (dir, k)"
  shows "lookup_node g d nm = (if d = dir \<and> nm = name then Some a else lookup_node f d nm)"
proof (rule option_eq)
  fix b
  let ?K = "keys f" and ?K' = "(keys f)(a \<mapsto> (i, Some p, Some name))"
  note tree = inv_parts(6) [OF assms(1)] and tree' = inv_parts(6) [OF assms(2), unfolded assms(3)]
  have fst: "map_option fst (?K' q) = map_option fst (?K q)" if "?K q \<noteq> None" for q using that assms(4) by auto
  have pd: "?K' p = Some (dir, if p = a then (Some p, Some name) else k)" using assms(4,5) by auto
  have old: "entry ?K' d nm b \<longleftrightarrow> entry ?K d nm b" if ne: "b \<noteq> a"
  proof
    assume "entry ?K' d nm b"
    then obtain j q l where q: "?K b = Some (j, Some q, Some nm)" "?K' q = Some (d, l)" using ne unfolding entry_def by auto
    then have "?K q \<noteq> None" using tree_okD(1) [OF tree] by blast
    from fst [OF this] q(2) have "map_option fst (?K q) = Some d" by simp
    then obtain l' where "?K q = Some (d, l')" by auto
    with q(1) show "entry ?K d nm b" by (auto simp: entry_def)
  next
    assume "entry ?K d nm b"
    then obtain j q l where q: "?K b = Some (j, Some q, Some nm)" "?K q = Some (d, l)" by (auto simp: entry_def)
    with fst [of q] have "map_option fst (?K' q) = Some d" by simp
    then obtain l' where "?K' q = Some (d, l')" by (auto simp del: fun_upd_apply)
    with q(1) ne show "entry ?K' d nm b" by (auto simp: entry_def)
  qed
  have new: "entry ?K' d nm a \<longleftrightarrow> d = dir \<and> nm = name" using pd by (auto simp: entry_def)
  have a0: "\<not> entry ?K d nm a" using assms(4) by (auto simp: entry_def)
  have uniq: "b = a" if "entry ?K' d nm b" "entry ?K' d nm a"
    using that lookup_node_inv [OF assms(2), of d nm] unfolding assms(3) by (metis option.inject)
  show "lookup_node g d nm = Some b \<longleftrightarrow> (if d = dir \<and> nm = name then Some a else lookup_node f d nm) = Some b"
    using old new a0 uniq unfolding lookup_node_inv [OF assms(2)] assms(3) by (auto simp: lookup_node_inv [OF assms(1)])
qed

lemma lookup_detached:
  assumes "inv {} None f" and "inv {} None g" and "keys g = (keys f)(a \<mapsto> (i, None, None))" and "keys f a = Some (i, k)"
  shows "lookup_node g d nm = (if lookup_node f d nm = Some a then None else lookup_node f d nm)"
proof (rule option_eq)
  fix b
  let ?K = "keys f" and ?K' = "(keys f)(a \<mapsto> (i, None, None))"
  have ids: "(\<exists>l. ?K' q = Some (d, l)) \<longleftrightarrow> (\<exists>l. ?K q = Some (d, l))" for q using assms(4) by auto
  have "entry ?K' d nm b \<longleftrightarrow> b \<noteq> a \<and> entry ?K d nm b" unfolding entry_ids ids by (cases "b = a") simp_all
  then show "lookup_node g d nm = Some b \<longleftrightarrow> (if lookup_node f d nm = Some a then None else lookup_node f d nm) = Some b"
    unfolding lookup_node_inv [OF assms(2)] assms(3) by (auto simp: lookup_node_inv [OF assms(1), symmetric])
qed

section \<open>The initial state\<close>

definition new_root :: node where
  "new_root = zero_node\<lparr>nname := Some [47], nodeid := ROOT_ID, refctr := 1, nlookup := 1\<rparr>"

lemma fuse_new_ok:
  "inv {} None (fuse_new rem now mem)" "node_at (fuse_new rem now mem) = [0 \<mapsto> new_root]"
  "keys (fuse_new rem now mem) = [0 \<mapsto> (ROOT_ID, None, Some [47])]" "remember (fuse_new rem now mem) = rem"
proof -
  define f0 where "f0 = \<lparr>nodes = [Some new_root], name_table = node_table_init, id_table = node_table_init, lru_table = [],
    ctr = 0, generation = 0, remember = rem, clock = now, fmem = mem\<rparr>"
  have new: "fuse_new rem now mem = hash_id 0 f0" by (simp add: fuse_new_def f0_def new_root_def)
  have at: "node_at f0 = [0 \<mapsto> new_root]" by (auto simp: fun_eq_iff node_at_def f0_def)
  then have K: "keys f0 = [0 \<mapsto> (ROOT_ID, None, Some [47])]" by (auto simp: fun_eq_iff keys_def new_root_def zero_node_def)
  have tabs: "name_table f0 = node_table_init" "id_table f0 = node_table_init" by (simp_all add: f0_def)
  have kids: "kids (keys f0) a = {}" for a by (auto simp: kids_def K split: if_splits)
  have "ids_but {0} f0"
    using wf_node_table_init entries_node_table_init by (simp add: ids_but_def K tabs ids_unique_def restrict_map_def)
  moreover have "keys f0 0 = Some (ROOT_ID, None, Some [47])" by (simp add: K)
  moreover have "b = 0" if "keys f0 b = Some (ROOT_ID, l)" for b l using that by (simp add: K split: if_splits)
  ultimately obtain t mem' where h: "hash_id 0 f0 = f0\<lparr>id_table := t, fmem := mem'\<rparr>" "ids_ok (hash_id 0 f0)"
    using hash_id_ok by blast
  have "names_ok {} f0" unfolding names_ok_def
    using wf_node_table_init entries_node_table_init by (auto simp: K named_def tabs tree_ok_def split: if_splits)
  moreover have "refs_ok {} None (keys f0) f0" by (auto simp: refs_ok_def at count_ok_def kids new_root_def)
  moreover have "locks_ok (keys f0) f0" "root_ok f0"
    by (auto simp: locks_ok_def root_ok_def at new_root_def zero_node_def)
  ultimately have inv: "inv {} None (hash_id 0 f0)" using h by (simp add: inv_def pending_ok_def)
  show "inv {} None (fuse_new rem now mem)" "node_at (fuse_new rem now mem) = [0 \<mapsto> new_root]"
    "keys (fuse_new rem now mem) = [0 \<mapsto> (ROOT_ID, None, Some [47])]" "remember (fuse_new rem now mem) = rem"
    using inv at K unfolding new h(1) by simp_all (simp add: f0_def)
qed

text \<open>
  The state that \<^verbatim>\<open>fuse_new\<close> sets up satisfies the invariant, for every setting of
  \<^verbatim>\<open>remember\<close>, clock and memory: both tables are well-formed, and the root is the only number known.
\<close>

theorem fuse_new_inv:
  "inv {} None (fuse_new rem now mem) \<and>
   (\<forall>ino. get_node (fuse_new rem now mem) ino = (if ino = ROOT_ID then Some 0 else None)) \<and>
   (\<forall>dir name. lookup_node (fuse_new rem now mem) dir name = None)"
proof -
  note ok = fuse_new_ok [of rem now mem]
  have "get_node (fuse_new rem now mem) ino = (if ino = ROOT_ID then Some 0 else None)" for ino
    by (rule option_eq) (use ok(3) in \<open>auto simp: get_node_inv [OF ok(1)]\<close>)
  moreover have "lookup_node (fuse_new rem now mem) dir name = None" for dir name
    by (rule option_eq) (use ok(3) in \<open>auto simp: lookup_node_inv [OF ok(1)] entry_def split: if_splits\<close>)
  ultimately show ?thesis using ok(1) by blast
qed

text \<open>The kernel knows the node with a number: it has looked it up and not forgotten it.\<close>

definition known :: "fuse \<Rightarrow> nat \<Rightarrow> bool" where
  "known f a \<longleftrightarrow> (\<exists>n. node_at f a = Some n \<and> nlookup n > 0)"

lemma named_not_root:
  assumes "inv {} None f" and "keys f a = Some (i, Some p, nm)"
  shows "i \<noteq> ROOT_ID"
proof
  assume "i = ROOT_ID"
  obtain r l where r: "node_at f r = Some l" "nodeid l = ROOT_ID" "parent l = None"
    using inv_parts(5) [OF assms(1)] by (auto simp: root_ok_def)
  have "ids_unique (keys f)" using inv_parts(1) [OF assms(1)] by (simp add: ids_ok_def)
  from ids_uniqueD [OF this assms(2)] keys_node [OF r(1)] r(2) \<open>i = ROOT_ID\<close> have "a = r" by simp
  with assms(2) keys_node [OF r(1)] r(3) show False by simp
qed

lemma table_insert_small: "tuse t + 1 < tsize t div 2 \<Longrightarrow> snd (table_insert full n t mem) = mem"
  by (simp add: table_insert_def Let_def)

lemma fmem_fuse_new: "fmem (fuse_new rem now mem) = mem"
proof -
  have "fmem (hash_id a f) = snd (table_insert (id_full f) a (id_table f) (fmem f))" for a f
    by (simp add: hash_id_def split: prod.splits)
  moreover have "tuse node_table_init + 1 < tsize node_table_init div 2"
    unfolding node_table_init_def by (simp add: NODE_TABLE_MIN_SIZE_def)
  ultimately show ?thesis unfolding fuse_new_def by (simp add: table_insert_small)
qed

lemma no_names_yet: "lookup_node (fuse_new rem now mem) dir name = None"
  by (rule option_eq) (auto simp: lookup_node_inv [OF fuse_new_ok(1)] fuse_new_ok(3) entry_def split: if_splits)

lemma root_number: "get_node (fuse_new rem now mem) ROOT_ID = Some 0"
  by (simp add: get_node_inv [OF fuse_new_ok(1)] fuse_new_ok(3))

text \<open>For the witnesses: a file system with the root and a file called \<open>a\<close>.\<close>

definition demo_fuse :: fuse where
  "demo_fuse = (case new_node ROOT_ID [97] (fuse_new 0 0 []) of Some (Some (_, g)) \<Rightarrow> g | _ \<Rightarrow> fuse_new 0 0 [])"

lemma demo_fuse_ok:
  obtains a i n where "inv {} None demo_fuse" "keys demo_fuse = [0 \<mapsto> (ROOT_ID, None, Some [47]), a \<mapsto> (i, Some 0, Some [97])]"
    "a \<noteq> 0" "node_at demo_fuse a = Some n" "nlookup n = 1" "treelock n = 0" "known demo_fuse 0"
    "get_node demo_fuse ROOT_ID = Some 0" "get_node demo_fuse i = Some a" "lookup_node demo_fuse ROOT_ID [97] = Some a"
    "i \<noteq> ROOT_ID" "lookup_node demo_fuse ROOT_ID [98] = None" "remember demo_fuse = 0"
proof -
  let ?f = "fuse_new 0 0 []"
  note ok = fuse_new_ok [of 0 0 "[]"]
  from new_node_ok [OF ok(1) _ root_number no_names_yet] obtain a g n i where
    g: "new_node ROOT_ID [97] ?f = Some (Some (Some a, g))" "inv {} None g" "keys ?f a = None"
      "keys g = (keys ?f)(a \<mapsto> (i, Some 0, Some [97]))" "node_at g a = Some n" "nlookup n = 1" "treelock n = 0" "remember g = 0"
      "\<And>b. b \<noteq> a \<Longrightarrow> map_option nlookup (node_at g b) = map_option nlookup (node_at ?f b)"
    using ok(3,4) fmem_fuse_new [of 0 0 "[]"] by fastforce
  have d: "demo_fuse = g" using g(1) by (simp add: demo_fuse_def)
  have a0: "a \<noteq> 0" using g(3) ok(3) by (auto split: if_splits)
  have "map_option nlookup (node_at g 0) = Some 1" using g(9) [of 0] a0 ok(2) by (simp add: new_root_def)
  then have "known g 0" by (auto simp: known_def)
  moreover have "i \<noteq> ROOT_ID" using named_not_root [OF g(2), of a i 0] g(4) by simp
  moreover have "get_node g ROOT_ID = Some 0" "get_node g i = Some a" "lookup_node g ROOT_ID [97] = Some a"
    using a0 g(4) ok(3) by (auto simp: get_node_inv [OF g(2)] lookup_node_inv [OF g(2)] entry_def)
  moreover have "lookup_node g ROOT_ID [98] = None"
    by (rule option_eq) (use g(4) ok(3) in \<open>auto simp: lookup_node_inv [OF g(2)] entry_def split: if_splits\<close>)
  ultimately show thesis using that [of a i n] g a0 ok(3) unfolding d by auto
qed

section \<open>find_node\<close>

text \<open>The lock of a node.\<close>

definition lck :: "fuse \<Rightarrow> nat \<Rightarrow> int" where
  "lck f a = (case node_at f a of None \<Rightarrow> 0 | Some n \<Rightarrow> treelock n)"

lemma lck_map: "lck f a = (case map_option treelock (node_at f a) of None \<Rightarrow> 0 | Some t \<Rightarrow> t)"
  by (simp add: lck_def split: option.splits)

lemma find_node_ok:
  assumes "inv {} None f" and "get_node f dir = Some p" and "card (dom (keys f)) < 2 ^ 32 - 2"
  shows "\<exists>r g. find_node dir (Some name) f = Some (Some (r, g)) \<and> inv {} None g \<and>
    (\<forall>d nm. lookup_node g d nm = (if d = dir \<and> nm = name then r else lookup_node f d nm)) \<and>
    (lookup_node f dir name \<noteq> None \<longrightarrow> r = lookup_node f dir name) \<and>
    (r = None \<longrightarrow> \<not> fst (alloc (fmem f)) \<or> 32 \<le> length name \<and> \<not> fst (alloc (snd (alloc (fmem f))))) \<and>
    (\<forall>a. map_option nlookup (node_at g a) =
      (if r = Some a then Some (case node_at f a of None \<Rightarrow> (if remember f \<noteq> 0 then 2 else 1) | Some n \<Rightarrow> nlookup n + 1)
       else map_option nlookup (node_at f a))) \<and>
    (keys g = keys f \<or> (\<exists>a i. r = Some a \<and> keys f a = None \<and> keys g = (keys f)(a \<mapsto> (i, Some p, Some name)))) \<and>
    lck g = lck f"
proof (cases "lookup_node f dir name")
  case (Some a)
  then obtain n where n: "node_at f a = Some n"
    using lookup_node_inv [OF assms(1)] by (auto simp: entry_def keys_def)
  define h where "h = (if lru_enabled f \<and> nlookup n = 1 then remove_node_lru a f else f)"
  have at: "node_at h = node_at f" and K: "keys h = keys f" by (simp_all add: h_def remove_node_lru_def)
  have inv': "inv {} None h" using assms(1) inv_cong [OF at] by (simp add: h_def remove_node_lru_def)
  note parts = inv_parts [OF inv'] and n' = n [folded at]
  let ?g = "set_node a (known_more n) h"
  have g: "inv {} None ?g" "keys ?g = keys f"
    using inc_nlookup_inv [OF parts(1-5) empty_subsetI n'] K by simp_all
  moreover have "lookup_node ?g d nm = lookup_node f d nm" for d nm
    by (rule option_eq) (simp add: lookup_node_inv [OF assms(1)] lookup_node_inv [OF g(1)] g(2))
  moreover have "find_node dir (Some name) f = Some (Some (Some a, ?g))"
    using Some n inc_nlookup_known [OF n'] by (simp add: find_node_def h_def)
  moreover have "lck ?g = lck f"
    using n node_at_set_node [OF n'] at by (simp add: fun_eq_iff lck_def known_more_def)
  ultimately show ?thesis
    using Some n node_at_set_node [OF n'] at by (intro exI [of _ "Some a"] exI [of _ ?g]) (simp add: known_more_def)
next
  case None
  have find: "find_node dir (Some name) f = new_node dir name f" using None by (simp add: find_node_def)
  obtain k where k: "keys f p = Some (dir, k)" using get_node_inv [OF assms(1)] assms(2) by blast
  from new_node_ok [OF assms(1,3,2) None]
  consider a g n i where "new_node dir name f = Some (Some (Some a, g))" "inv {} None g" "keys f a = None"
      "keys g = (keys f)(a \<mapsto> (i, Some p, Some name))" "node_at g a = Some n" "nlookup n = (if remember f \<noteq> 0 then 2 else 1)"
      "\<And>b. b \<noteq> a \<Longrightarrow> map_option nlookup (node_at g b) = map_option nlookup (node_at f b)" "treelock n = 0"
      "\<And>b. b \<noteq> a \<Longrightarrow> map_option treelock (node_at g b) = map_option treelock (node_at f b)"
    | g where "new_node dir name f = Some (Some (None, g))" "inv {} None g" "node_at g = node_at f"
      "\<not> fst (alloc (fmem f)) \<or> 32 \<le> length name \<and> \<not> fst (alloc (snd (alloc (fmem f))))"
    by blast
  then show ?thesis
  proof cases
    case 1
    have "lookup_node g d nm = (if d = dir \<and> nm = name then Some a else lookup_node f d nm)" for d nm
      by (rule lookup_attached [OF assms(1) 1(2,4) _ k]) (simp add: 1(3))
    moreover have new: "node_at f a = None" using 1(3) by (simp add: keys_def)
    moreover have "lck g b = lck f b" for b using new 1(5,8) 1(9) [of b] by (cases "b = a") (simp_all add: lck_map)
    ultimately show ?thesis
      using 1(1-7) None find by (intro exI [of _ "Some a"] exI [of _ g]) (simp add: fun_eq_iff)
  next
    case 2
    have K: "keys g = keys f" using 2(3) by (simp add: fun_eq_iff keys_def)
    have "lookup_node g d nm = lookup_node f d nm" for d nm
      by (rule option_eq) (simp add: lookup_node_inv [OF assms(1)] lookup_node_inv [OF 2(2)] K)
    then show ?thesis using 2 None find K by (intro exI [of _ None] exI [of _ g]) (simp add: lck_def fun_eq_iff)
  qed
qed

text \<open>
  C7: \<^verbatim>\<open>find_node\<close> always returns while fewer than 2 to the power of 32, less 2, nodes exist: the search for a number
  ends, and no assertion fails. It returns the node of the name, makes one with an unused number if
  there is none, and counts the lookup; every other name resolves as before. It fails only if an
  allocation fails, and then nothing changes. The invariant is kept.
\<close>

theorem find_node_correct:
  assumes "inv {} None f" and "get_node f dir = Some p" and "card (dom (keys f)) < 2 ^ 32 - 2"
  shows "\<exists>r g. find_node dir (Some name) f = Some (Some (r, g)) \<and> inv {} None g \<and>
    (\<forall>d nm. lookup_node g d nm = (if d = dir \<and> nm = name then r else lookup_node f d nm)) \<and>
    (lookup_node f dir name \<noteq> None \<longrightarrow> r = lookup_node f dir name) \<and>
    (r = None \<longrightarrow> \<not> fst (alloc (fmem f)) \<or> 32 \<le> length name \<and> \<not> fst (alloc (snd (alloc (fmem f))))) \<and>
    (\<forall>a. map_option nlookup (node_at g a) =
      (if r = Some a then Some (case node_at f a of None \<Rightarrow> (if remember f \<noteq> 0 then 2 else 1) | Some n \<Rightarrow> nlookup n + 1)
       else map_option nlookup (node_at f a)))"
  using find_node_ok [OF assms] by blast

theorem find_node_correct_witness:
  "\<exists>a g. find_node ROOT_ID (Some [97]) (fuse_new 0 0 []) = Some (Some (Some a, g)) \<and> lookup_node g ROOT_ID [97] = Some a"
proof -
  note ok = fuse_new_ok [of 0 0 "[]"]
  from find_node_correct [OF ok(1) root_number, of "[97]"] obtain r g where
    "find_node ROOT_ID (Some [97]) (fuse_new 0 0 []) = Some (Some (r, g))" "lookup_node g ROOT_ID [97] = r" "r \<noteq> None"
    by (auto simp: ok(3) fmem_fuse_new no_names_yet)
  then show ?thesis by auto
qed

section \<open>forget_node\<close>

lemma shrunk_dom:
  assumes "shrunk f g" and "node_at g a = Some m"
  shows "\<exists>n. node_at f a = Some n \<and> nlookup m = nlookup n \<and> keys g a = keys f a"
proof -
  obtain n where n: "node_at f a = Some n" using assms unfolding shrunk_def by blast
  note f = shrunk_fields [OF assms(1) n assms(2)]
  with n assms(2) show ?thesis by (simp add: keys_def)
qed

lemma shrunk_known: "shrunk f g \<Longrightarrow> node_at f a = Some n \<Longrightarrow> nlookup n > 0 \<Longrightarrow> node_at g a \<noteq> None"
  unfolding shrunk_def by (metis less_numeral_extra(3))

text \<open>Fields the invariant does not speak of.\<close>

lemma inv_set_same:
  assumes "inv {} None f" and "node_at f a = Some n" and "nodeid m = nodeid n" "parent m = parent n" "nname m = nname n"
    "nlookup m = nlookup n" "refctr m = refctr n" "treelock m = treelock n"
  shows "inv {} None (set_node a m f)" and "keys (set_node a m f) = keys f"
proof -
  note parts = inv_parts [OF assms(1)] and ok = set_node_ok [OF assms(2-5)]
  show K: "keys (set_node a m f) = keys f" by (rule keys_set_same [OF assms(2-5)])
  have "count_ok None (keys f) a n" "0 < refctr n" using parts(3) assms(2) by (simp_all add: refs_ok_def)
  then have "refs_ok {} None (keys f) (set_node a m f)"
    by (intro refs_ok_set [OF parts(3) assms(2)]) (simp_all add: count_ok_def assms(6,7))
  moreover have "locks_ok (keys f) (set_node a m f)" by (rule locks_ok_set [OF parts(4) assms(2)]) (use assms in simp_all)
  moreover have "root_ok (set_node a m f)" by (rule root_ok_set [OF parts(5) assms(2)]) (use assms in simp_all)
  ultimately show "inv {} None (set_node a m f)" using parts(1,2) ok K by (simp add: inv_def pending_ok_def)
qed

text \<open>
  C23: \<^verbatim>\<open>forget_node\<close> takes back lookups of the kernel. No assertion fails; the node is deleted
  exactly if the kernel has no lookup left and the node has no children, together with those
  ancestors that lose their last reference by it; any other node the kernel knows stays, with its
  number, name and lookup count. The invariant is kept.
\<close>

theorem forget_node_correct:
  assumes "inv {} None f" and "get_node f ino = Some a" and "node_at f a = Some nd" and "0 < n" and "n \<le> nlookup nd"
    and "\<not> forget_must_wait f ino n" and "ino \<noteq> ROOT_ID"
  shows "\<exists>g. forget_node ino n f = Some g \<and> inv {} None g \<and>
    (node_at g a = None \<longleftrightarrow> nlookup nd = n \<and> kids (keys f) a = {}) \<and>
    (\<forall>m. node_at g a = Some m \<longrightarrow> nlookup m = nlookup nd - n) \<and>
    (\<forall>b m. node_at f b = Some m \<longrightarrow> b \<noteq> a \<longrightarrow> nlookup m > 0 \<longrightarrow>
      keys g b = keys f b \<and> map_option nlookup (node_at g b) = Some (nlookup m))"
proof -
  note parts = inv_parts [OF assms(1)]
  let ?nd = "nd\<lparr>nlookup := nlookup nd - n\<rparr>"
  let ?f1 = "set_node a ?nd f"
  have id: "nodeid nd = ino" using assms(2,3) get_node_inv [OF assms(1)] by (auto simp: keys_def)
  have at: "node_at ?f1 = (node_at f)(a \<mapsto> ?nd)" by (rule node_at_set_node [OF assms(3)])
  have K: "keys ?f1 = keys f" by (rule keys_set_same [OF assms(3)]) simp_all
  have c: "count_ok None (keys f) a nd" using parts(3) assms(3) by (auto simp: refs_ok_def)
  have ok: "ids_ok ?f1" "names_ok {} ?f1" using parts(1,2) set_node_ok(1,2) [OF assms(3), of ?nd] by simp_all
  have root: "root_ok ?f1" by (rule root_ok_set [OF parts(5) assms(3)]) (simp_all add: id assms(7))
  have others: "keys ?f1 b = keys f b \<and> map_option nlookup (node_at ?f1 b) = Some (nlookup m)"
    if "node_at f b = Some m" "b \<noteq> a" for b m using that at K by simp
  show ?thesis
  proof (cases "nlookup nd = n")
    case False
    have "refs_ok {} None (keys f) ?f1"
      by (rule refs_ok_set [OF parts(3) assms(3)]) (use c False assms(5) in \<open>auto simp: count_ok_def\<close>)
    moreover have "locks_ok (keys f) ?f1" by (rule locks_ok_set [OF parts(4) assms(3)]) (use False assms(5) in simp_all)
    ultimately have inv1: "inv {} None ?f1" using ok root K by (simp add: inv_def pending_ok_def)
    define g where "g = (if lru_enabled ?f1 \<and> nlookup nd - n = 1 then
      set_node a (?nd\<lparr>forget_time := clock ?f1\<rparr>) (?f1\<lparr>lru_table := remove1 a (lru_table ?f1) @ [a]\<rparr>) else ?f1)"
    have "forget_node ino n f = Some g"
      using assms(2,3,5,7) False at by (auto simp: forget_node_def g_def set_forget_time_def Let_def)
    moreover have "node_at g = (node_at ?f1)(a \<mapsto> (if lru_enabled ?f1 \<and> nlookup nd - n = 1 then ?nd\<lparr>forget_time := clock ?f1\<rparr> else ?nd))"
      using at node_at_set_node [of "?f1\<lparr>lru_table := remove1 a (lru_table ?f1) @ [a]\<rparr>" a ?nd] by (auto simp: g_def fun_eq_iff)
    moreover have "inv {} None g" "keys g = keys f"
    proof -
      let ?h = "?f1\<lparr>lru_table := remove1 a (lru_table ?f1) @ [a]\<rparr>"
      have "inv {} None ?h" using inv1 inv_cong [of ?h ?f1 "{}" None] by simp
      from inv_set_same [OF this, of a ?nd "?nd\<lparr>forget_time := clock ?f1\<rparr>"] inv1 K at
      show "inv {} None g" "keys g = keys f" by (auto simp: g_def)
    qed
    ultimately show ?thesis using False assms(5) at others by auto
  next
    case True
    have "locks_ok (keys f) ?f1"
      by (rule locks_ok_set [OF parts(4) assms(3)])
        (use True assms(2,3,6,7) in \<open>auto simp: forget_must_wait_def\<close>)
    moreover have "refs_ok {} (Some a) (keys f) ?f1"
      by (rule refs_ok_set [OF parts(3) assms(3)]) (use c True assms(4) in \<open>auto simp: count_ok_def\<close>)
    ultimately have "inv {} (Some a) ?f1" using ok root K by (simp add: inv_def pending_ok_def)
    from unref_node_ok [OF this] obtain g where g: "unref_node a ?f1 = Some g" "inv {} None g" "shrunk ?f1 g"
      "node_at g a = None \<longleftrightarrow> refctr nd = 1" using at by auto
    have "forget_node ino n f = Some g" using assms(2,3,5,7) True g(1) by (simp add: forget_node_def Let_def)
    moreover have "refctr nd = 1 \<longleftrightarrow> kids (keys f) a = {}"
      using c True assms(4) finite_kids [of "{}" f a] by (simp add: count_ok_def)
    moreover have "nlookup m = nlookup nd - n" if "node_at g a = Some m" for m
      using shrunk_dom [OF g(3) that] at by auto
    moreover have "keys g b = keys f b \<and> map_option nlookup (node_at g b) = Some (nlookup m)"
      if b: "node_at f b = Some m" "b \<noteq> a" "nlookup m > 0" for b m
    proof -
      have "node_at ?f1 b = Some m" using b at by simp
      then have "node_at g b \<noteq> None" using shrunk_known [OF g(3)] b(3) by blast
      then obtain m' where m': "node_at g b = Some m'" by auto
      from shrunk_dom [OF g(3) m'] \<open>node_at ?f1 b = Some m\<close> m' K show ?thesis by simp
    qed
    ultimately show ?thesis using True g(2,4) by (intro exI [of _ g]) simp
  qed
qed

theorem forget_node_correct_witness:
  "\<exists>a i g. get_node demo_fuse i = Some a \<and> forget_node i 1 demo_fuse = Some g \<and> node_at g a = None"
proof -
  obtain a i n where d: "inv {} None demo_fuse" "keys demo_fuse = [0 \<mapsto> (ROOT_ID, None, Some [47]), a \<mapsto> (i, Some 0, Some [97])]"
    "a \<noteq> 0" "node_at demo_fuse a = Some n" "nlookup n = 1" "treelock n = 0" "get_node demo_fuse i = Some a" "i \<noteq> ROOT_ID"
    by (rule demo_fuse_ok)
  have "kids (keys demo_fuse) a = {}" using d(2,3) by (auto simp: kids_def split: if_splits)
  moreover have "\<not> forget_must_wait demo_fuse i 1" using d(4,6,7) by (simp add: forget_must_wait_def)
  ultimately show ?thesis using forget_node_correct [OF d(1,7,4), of 1] d(5,7,8) by auto
qed

section \<open>Removing and renaming\<close>

text \<open>Taking the name from a node in a directory the kernel knows: only the node and the count of the directory change.\<close>

definition same_lookups :: "fuse \<Rightarrow> fuse \<Rightarrow> bool" where
  "same_lookups f g \<longleftrightarrow> (\<forall>b. map_option nlookup (node_at g b) = map_option nlookup (node_at f b)) \<and> remember g = remember f"

lemma same_lookups_known: "same_lookups f g \<Longrightarrow> known g a = known f a"
proof -
  have *: "known h a \<longleftrightarrow> (\<exists>l>0. map_option nlookup (node_at h a) = Some l)" for h by (auto simp: known_def)
  show "same_lookups f g \<Longrightarrow> known g a = known f a" unfolding * by (simp add: same_lookups_def)
qed

lemma same_lookups_trans: "same_lookups f g \<Longrightarrow> same_lookups g h \<Longrightarrow> same_lookups f h"
  by (simp add: same_lookups_def)

lemma unhash_name_known:
  assumes "inv {} None f" and "node_at f a = Some n" and "parent n = Some p" and "known f a" and "known f p"
  shows "\<exists>g. unhash_name a f = Some g \<and> inv {} None g \<and> keys g = (keys f)(a \<mapsto> (nodeid n, None, None)) \<and> same_lookups f g"
proof -
  note parts = inv_parts [OF assms(1)]
  have key: "keys f a = Some (nodeid n, Some p, nname n)" using keys_node [OF assms(2)] assms(3) by simp
  obtain nm where nm: "nname n = Some nm" using tree_okD(1) [OF parts(6) key] by auto
  obtain pn where pn: "node_at f p = Some pn" "nlookup pn > 0" using assms(5) by (auto simp: known_def)
  have nl: "nlookup n > 0" using assms(2,4) by (simp add: known_def)
  from unlink_name_ok [OF parts(2) _ assms(2,3)] obtain t where
    t: "unlink_name a f = Some (p, f\<lparr>name_table := t\<rparr>)" "names_ok {a} (f\<lparr>name_table := t\<rparr>)" by auto
  let ?f1 = "f\<lparr>name_table := t\<rparr>" and ?K = "(keys f)(a \<mapsto> (nodeid n, None, None))"
  have E: "eff {a} f = ?K" using eff_insert [OF key, of "{}"] by simp
  have refs: "refs_ok {a} (Some p) ?K f"
    using refs_ok_detach [of "{}" None "{}" f a "{a}" "nodeid n" "Some p" "nname n"] parts(3,6) key
    unfolding refs_ok_def by simp
  have locks: "locks_ok ?K f" by (rule locks_ok_detach [OF parts(4)]) (use key pn in auto)
  have inv1: "inv {a} (Some p) ?f1"
    using parts(1,5) t(2) refs locks assms(2) nl by (simp add: inv_def E pending_ok_def)
  have "count_ok (Some p) ?K p pn" using refs pn(1) by (simp add: refs_ok_def)
  then have r: "refctr pn \<noteq> 1" "0 < refctr pn" using pn(2) by (auto simp: count_ok_def)
  let ?f2 = "set_node p (pn\<lparr>refctr := refctr pn - 1\<rparr>) ?f1"
  have p1: "node_at ?f1 p = Some pn" using pn(1) by simp
  have un: "unref_node p ?f1 = Some ?f2" using p1 r by (simp add: unref_node.simps [of p ?f1])
  have inv2: "inv {a} None ?f2" by (rule inv_dec [OF inv1 p1 r(1)])
  have at2: "node_at ?f2 = (node_at f)(p \<mapsto> pn\<lparr>refctr := refctr pn - 1\<rparr>)" using node_at_set_node [OF p1] by simp
  obtain m where m: "node_at ?f2 a = Some m" "nlookup m = nlookup n" "nodeid m = nodeid n"
    using assms(2) pn(1) unfolding at2 by (cases "a = p") auto
  let ?m = "m\<lparr>nname := None, parent := None\<rparr>"
  obtain g t' mem where g: "drop_name a ?f2 = Some g" "ids_ok g" "names_ok {} g" "refs_ok {a} None (keys g) g" "locks_ok (keys g) g"
    "root_ok g" "g = set_node a ?m ?f2\<lparr>name_table := t', fmem := mem\<rparr>"
    using drop_name_inv [OF inv2 _ m(1)] by (auto simp: Let_def)
  have atg: "node_at g = (node_at ?f2)(a \<mapsto> ?m)" using node_at_set_node [OF m(1)] g(7) by simp
  have "count_ok None (keys g) a ?m" using g(4) atg by (auto simp: refs_ok_def)
  then have "0 < refctr ?m" using m(2) nl by (simp add: count_ok_def)
  then have "refs_ok {} None (keys g) g" using g(4) atg unfolding refs_ok_def by fastforce
  then have "inv {} None g" using g by (simp add: inv_def pending_ok_def)
  moreover have "keys g = ?K"
    unfolding g(7) using keys_set_node [OF m(1), of ?m] keys_set_same [OF p1, of "pn\<lparr>refctr := refctr pn - 1\<rparr>"] m(3) by simp
  moreover have "map_option nlookup (node_at g b) = map_option nlookup (node_at f b)" for b
    using assms(2) m(2) pn(1) unfolding atg at2 by auto
  then have "same_lookups f g" by (simp add: same_lookups_def g(7))
  moreover have "unhash_name a f = Some g" using assms(2) nm t(1) un g(1) by (simp add: unhash_name_def)
  ultimately show ?thesis by blast
qed

lemma unlink_node_known:
  assumes "inv {} None f" and "node_at f a = Some n" and "parent n = Some p" and "known f a" and "known f p"
    and "remember f \<noteq> 0 \<longrightarrow> 1 < nlookup n"
  shows "\<exists>g. unlink_node a f = Some g \<and> inv {} None g \<and> keys g = (keys f)(a \<mapsto> (nodeid n, None, None)) \<and>
    (\<forall>b. known g b = known f b)"
proof (cases "remember f = 0")
  case True
  with unhash_name_known [OF assms(1-5)] assms(2) same_lookups_known show ?thesis by (auto simp: unlink_node_def)
next
  case False
  let ?n = "n\<lparr>nlookup := nlookup n - 1\<rparr>"
  let ?f1 = "set_node a ?n f"
  note parts = inv_parts [OF assms(1)]
  have nl: "1 < nlookup n" using False assms(6) by simp
  have at: "node_at ?f1 = (node_at f)(a \<mapsto> ?n)" by (rule node_at_set_node [OF assms(2)])
  have K: "keys ?f1 = keys f" by (rule keys_set_same [OF assms(2)]) simp_all
  have "count_ok None (keys f) a n" "0 < refctr n" using parts(3) assms(2) by (simp_all add: refs_ok_def)
  then have "refs_ok {} None (keys f) ?f1"
    by (intro refs_ok_set [OF parts(3) assms(2)]) (use nl in \<open>simp_all add: count_ok_def\<close>)
  moreover have "locks_ok (keys f) ?f1" by (rule locks_ok_set [OF parts(4) assms(2)]) (use nl in simp_all)
  moreover have "root_ok ?f1" by (rule root_ok_set [OF parts(5) assms(2)]) (use nl in simp_all)
  moreover have "ids_ok ?f1" "names_ok {} ?f1" using parts(1,2) set_node_ok(1,2) [OF assms(2), of ?n] by simp_all
  ultimately have inv1: "inv {} None ?f1" using K by (simp add: inv_def pending_ok_def)
  have kn: "known ?f1 b = known f b" for b using nl assms(2) unfolding known_def at by auto
  from unhash_name_known [OF inv1, of a ?n p] at assms(3-5) kn K same_lookups_known False assms(2) nl
  show ?thesis by (fastforce simp: unlink_node_def)
qed

text \<open>
  C22: Removing a name the kernel may remove (it knows the directory and the node) makes exactly
  this name unknown: every other name resolves as before, the node itself stays until the kernel
  forgets it, no assertion fails, and the invariant is kept. An unknown name is left alone.
\<close>

theorem remove_node_correct:
  assumes "inv {} None f" and "get_node f dir = Some p" and "known f p"
    and "\<forall>a n. lookup_node f dir name = Some a \<longrightarrow> node_at f a = Some n \<longrightarrow> (if remember f \<noteq> 0 then 1 else 0) < nlookup n"
  shows "\<exists>g. remove_node dir name f = Some g \<and> inv {} None g \<and>
    (\<forall>d nm. lookup_node g d nm = (if d = dir \<and> nm = name then None else lookup_node f d nm)) \<and>
    (\<forall>ino. get_node g ino = get_node f ino)"
proof (cases "lookup_node f dir name")
  case None
  then show ?thesis using assms(1) by (auto simp: remove_node_def)
next
  case (Some a)
  obtain n q where n: "node_at f a = Some n" "parent n = Some q" "nname n = Some name" "\<exists>l. keys f q = Some (dir, l)"
    using Some lookup_node_inv [OF assms(1)] by (auto simp: entry_def keys_def)
  have "get_node f dir = Some q" using n(4) get_node_inv [OF assms(1)] by simp
  then have "q = p" using assms(2) by simp
  have "(if remember f \<noteq> 0 then 1 else 0) < nlookup n" by (rule assms(4) [rule_format, OF Some n(1)])
  then have nl: "nlookup n > 0" "remember f \<noteq> 0 \<longrightarrow> 1 < nlookup n" by (auto split: if_splits)
  then have "known f a" using n(1) by (auto simp: known_def)
  from unlink_node_known [OF assms(1) n(1,2) this] \<open>q = p\<close> assms(3) nl(2)
  obtain g where g: "unlink_node a f = Some g" "inv {} None g" "keys g = (keys f)(a \<mapsto> (nodeid n, None, None))" by auto
  have "lookup_node g d nm = (if lookup_node f d nm = Some a then None else lookup_node f d nm)" for d nm
    by (rule lookup_detached [OF assms(1) g(2,3)]) (rule keys_node [OF n(1)])
  moreover have "lookup_node f d nm = Some a \<longleftrightarrow> d = dir \<and> nm = name" for d nm
    using Some n lookup_node_inv [OF assms(1)] by (auto simp: entry_def keys_def)
  moreover have "get_node g ino = get_node f ino" for ino
    by (rule option_eq) (use keys_node [OF n(1)] in \<open>auto simp: get_node_inv [OF g(2)] get_node_inv [OF assms(1)] g(3)\<close>)
  moreover have "remove_node dir name f = Some g" using Some g(1) by (simp add: remove_node_def)
  ultimately show ?thesis using g(2) by (intro exI [of _ g]) simp
qed

theorem remove_node_correct_witness:
  "\<exists>g. remove_node ROOT_ID [97] demo_fuse = Some g \<and> lookup_node g ROOT_ID [97] = None"
proof -
  obtain a n where d: "inv {} None demo_fuse" "node_at demo_fuse a = Some n" "nlookup n = 1" "known demo_fuse 0"
    "get_node demo_fuse ROOT_ID = Some 0" "lookup_node demo_fuse ROOT_ID [97] = Some a" "remember demo_fuse = 0"
    by (rule demo_fuse_ok) metis
  have "\<forall>b m. lookup_node demo_fuse ROOT_ID [97] = Some b \<longrightarrow> node_at demo_fuse b = Some m \<longrightarrow> (if remember demo_fuse \<noteq> 0 then 1 else 0) < nlookup m"
    using d(2,3,6,7) by simp
  from remove_node_correct [OF d(1,5,4) this] show ?thesis by auto
qed

lemma ids_ok_keys:
  assumes "ids_ok f" and "keys f a = Some (i, k)" and "keys g = (keys f)(a \<mapsto> (i, l))" and "id_table g = id_table f"
  shows "ids_ok g"
proof -
  have "id_key (keys g) = id_key (keys f)" using assms(2) unfolding assms(3) by (simp add: fun_eq_iff id_key_def)
  moreover have "map_option fst (keys g b) = map_option fst (keys f b)" for b unfolding assms(3) using assms(2) by simp
  then have "ids_unique (keys g) = ids_unique (keys f)" unfolding ids_unique_def by simp
  moreover have "dom (keys g) = dom (keys f)" unfolding assms(3) using assms(2) by auto
  ultimately show ?thesis using assms(1,4) by (simp add: ids_ok_def)
qed

lemma get_node_keys:
  assumes "inv {} None f" and "inv {} None g" and "keys g = (keys f)(a \<mapsto> (i, l))" and "keys f a = Some (i, k)"
  shows "get_node g ino = get_node f ino"
  by (rule option_eq) (use assms(4) in \<open>auto simp: get_node_inv [OF assms(2)] get_node_inv [OF assms(1)] assms(3)\<close>)

text \<open>Giving a nameless node a name.\<close>

lemma hash_name_inv:
  assumes "inv {} None f" and "node_at f a = Some n" and "parent n = None" and "nname n = None" and "nodeid n \<noteq> ROOT_ID"
    and "get_node f dir = Some q" and "q \<noteq> a" and "lookup_node f dir name = None"
  shows "(\<exists>g. hash_name a dir name f = Some (True, g) \<and> inv {} None g \<and>
      (\<forall>d nm. lookup_node g d nm = (if d = dir \<and> nm = name then Some a else lookup_node f d nm)) \<and> node_at g a \<noteq> None) \<or>
    (\<exists>g. hash_name a dir name f = Some (False, g) \<and> inv {} None g \<and> 32 \<le> length name \<and> keys g = keys f)"
proof -
  note parts = inv_parts [OF assms(1)]
  obtain k where k: "keys f q = Some (dir, k)" using get_node_inv [OF assms(1)] assms(6) by blast
  obtain qn where qn: "node_at f q = Some qn" using k by (auto simp: keys_def)
  have free: "keys f b \<noteq> Some (j, Some q, Some name)" for b j
  proof
    assume "keys f b = Some (j, Some q, Some name)"
    with k have "entry (keys f) dir name b" unfolding entry_def by blast
    with assms(8) lookup_node_inv [OF assms(1)] show False by (metis option.distinct(1))
  qed
  have key: "keys f a = Some (nodeid n, None, None)" using keys_node [OF assms(2)] assms(3,4) by simp
  note aq = assms(7) [symmetric]
  consider g where "hash_name a dir name f = Some (True, g)" "attached a q name f g" "names_ok {} g"
    | "32 \<le> length name" "hash_name a dir name f = Some (False, set_node a (n\<lparr>nname := None\<rparr>) (f\<lparr>fmem := snd (alloc (fmem f))\<rparr>))"
    using hash_name_ok [OF assms(6) aq qn assms(2,3) parts(2) free] by blast
  then show ?thesis
  proof cases
    case 1
    note fa = attached_facts [OF 1(2) aq qn assms(2)]
    have "inv {} None g"
      using ids_ok_keys [OF parts(1) key fa(2,3)] 1(3) attached_refs [OF 1(2) aq qn assms(2,3) parts(3)] finite_kids [of "{}" f q]
        attached_locks [OF 1(2) aq qn assms(2,3) parts(4)] attached_root [OF 1(2) aq qn assms(2,5) parts(5)]
      by (simp add: inv_def pending_ok_def)
    moreover from lookup_attached [OF assms(1) this fa(2) _ k] key
    have "lookup_node g d nm = (if d = dir \<and> nm = name then Some a else lookup_node f d nm)" for d nm by simp
    ultimately show ?thesis using 1(1) fa(1) by auto
  next
    case 2
    let ?f = "f\<lparr>fmem := snd (alloc (fmem f))\<rparr>"
    have "inv {} None ?f" using assms(1) inv_cong [of ?f f "{}" None] by simp
    from inv_set_same [OF this, of a n "n\<lparr>nname := None\<rparr>"] assms(2,4) 2 show ?thesis by auto
  qed
qed

lemma lookup_node_unique:
  assumes "inv {} None f" and "lookup_node f dir name = Some a" and "get_node f dir = Some p"
  obtains n where "node_at f a = Some n" "parent n = Some p" "nname n = Some name"
    "\<forall>d nm. lookup_node f d nm = Some a \<longleftrightarrow> d = dir \<and> nm = name"
proof -
  obtain n q where n: "node_at f a = Some n" "parent n = Some q" "nname n = Some name" "\<exists>l. keys f q = Some (dir, l)"
    using assms(2) lookup_node_inv [OF assms(1)] by (auto simp: entry_def keys_def)
  have "get_node f dir = Some q" using n(4) get_node_inv [OF assms(1)] by simp
  then have "q = p" using assms(3) by simp
  moreover have "lookup_node f d nm = Some a \<longleftrightarrow> d = dir \<and> nm = name" for d nm
    using assms(2) n lookup_node_inv [OF assms(1)] by (auto simp: entry_def keys_def)
  ultimately show thesis using that [of n] n(1-3) by blast
qed

text \<open>The two steps of a rename before the node gets its new name.\<close>

lemma unlink_target:
  assumes "inv {} None f" and "get_node f newdir = Some q" and "known f q"
    and "\<forall>b n. lookup_node f newdir newname = Some b \<longrightarrow> node_at f b = Some n \<longrightarrow> (if remember f \<noteq> 0 then 1 else 0) < nlookup n"
    and "keys f a = Some (i, k)"
  obtains f1 k1 where "(case lookup_node f newdir newname of None \<Rightarrow> Some f | Some b \<Rightarrow> unlink_node b f) = Some f1"
    "inv {} None f1" "\<forall>d nm. lookup_node f1 d nm = (if d = newdir \<and> nm = newname then None else lookup_node f d nm)"
    "\<forall>ino. get_node f1 ino = get_node f ino" "\<forall>b. known f1 b = known f b" "keys f1 a = Some (i, k1)" "k1 = k \<or> k1 = (None, None)"
proof (cases "lookup_node f newdir newname")
  case None
  then show ?thesis using assms(1,5) by (intro that [of f k]) auto
next
  case (Some b)
  obtain n where n: "node_at f b = Some n" "parent n = Some q" "\<forall>d nm. lookup_node f d nm = Some b \<longleftrightarrow> d = newdir \<and> nm = newname"
    by (rule lookup_node_unique [OF assms(1) Some assms(2)]) blast
  have "(if remember f \<noteq> 0 then 1 else 0) < nlookup n" by (rule assms(4) [rule_format, OF Some n(1)])
  then have nl: "nlookup n > 0" "remember f \<noteq> 0 \<longrightarrow> 1 < nlookup n" by (auto split: if_splits)
  then have "known f b" using n(1) by (auto simp: known_def)
  from unlink_node_known [OF assms(1) n(1,2) this assms(3) nl(2)]
  obtain g where g: "unlink_node b f = Some g" "inv {} None g" "keys g = (keys f)(b \<mapsto> (nodeid n, None, None))" "\<forall>c. known g c = known f c"
    by auto
  have kb: "keys f b = Some (nodeid n, parent n, nname n)" by (rule keys_node [OF n(1)])
  have "lookup_node g d nm = (if d = newdir \<and> nm = newname then None else lookup_node f d nm)" for d nm
    using lookup_detached [OF assms(1) g(2,3) kb, of d nm] n(3) by simp
  moreover have "get_node g ino = get_node f ino" for ino by (rule get_node_keys [OF assms(1) g(2,3) kb])
  moreover have "keys g a = Some (i, if a = b then (None, None) else k)" using assms(5) kb g(3) by auto
  ultimately show ?thesis using Some g(1,2,4)
    by (intro that [of g "if a = b then (None, None) else k"]) auto
qed

lemma unhash_moved:
  assumes "inv {} None f" and "keys f a = Some (i, k)" and "k = (Some p, Some nm) \<or> k = (None, None)" and "known f a" and "known f p"
  obtains g n where "unhash_name a f = Some g" "inv {} None g"
    "\<forall>d nm. lookup_node g d nm = (if lookup_node f d nm = Some a then None else lookup_node f d nm)"
    "\<forall>ino. get_node g ino = get_node f ino" "node_at g a = Some n" "nodeid n = i" "parent n = None" "nname n = None"
proof (cases "k = (None, None)")
  case True
  obtain n where n: "node_at f a = Some n" "nodeid n = i" "parent n = None" "nname n = None"
    using assms(2) True by (auto simp: keys_def)
  have "lookup_node f d nm \<noteq> Some a" for d nm
    using assms(2) True by (simp add: lookup_node_inv [OF assms(1)] entry_def)
  then show ?thesis using n assms(1) by (intro that [of f n]) (auto simp: unhash_name_def)
next
  case False
  then obtain n where n: "node_at f a = Some n" "nodeid n = i" "parent n = Some p"
    using assms(2,3) by (auto simp: keys_def)
  from unhash_name_known [OF assms(1) n(1,3) assms(4,5)] n(2)
  obtain g where g: "unhash_name a f = Some g" "inv {} None g" "keys g = (keys f)(a \<mapsto> (i, None, None))" by auto
  obtain m where m: "node_at g a = Some m" "nodeid m = i" "parent m = None" "nname m = None"
    using arg_cong [OF g(3), of "\<lambda>K. K a"] by (auto simp: keys_def)
  show ?thesis
    using lookup_detached [OF assms(1) g(2,3) assms(2)] get_node_keys [OF assms(1) g(2,3) assms(2)]
    by (intro that [OF g(1,2) _ _ m]) blast+
qed

text \<open>Removing names and nodes only takes from the allocations to come.\<close>

lemma alloc_subset: "set (snd (alloc mem)) \<subseteq> set mem" and alloc_fails: "\<not> fst (alloc mem) \<Longrightarrow> False \<in> set mem"
  by (cases mem; auto)+

lemma table_shrink_memory: "set (snd (table_shrink t mem)) \<subseteq> set mem"
  using alloc_subset [of mem]
  by (auto simp: table_shrink_def remerge_def node_table_reduce_def Let_def split: prod.splits if_splits)

lemma drop_name_memory: "drop_name a f = Some g \<Longrightarrow> set (fmem g) \<subseteq> set (fmem f)"
  using table_shrink_memory [of "name_table f" "fmem f"] by (auto simp: drop_name_def Let_def split: option.splits prod.splits)

lemma unhash_id_memory: "set (fmem (unhash_id a f)) \<subseteq> set (fmem f)"
proof (cases "table_unlink (id_full f a) a (id_table f)")
  case (Some t)
  then show ?thesis using table_shrink_memory [of t "fmem f"] by (auto simp: unhash_id_def table_remove_def split: prod.splits)
qed (simp add: unhash_id_def table_remove_def)

lemma drop_node_memory: "set (fmem (drop_node a f)) \<subseteq> set (fmem f)"
  using unhash_id_memory [of a "if lru_enabled f then remove_node_lru a f else f"] by (auto simp: drop_node_def remove_node_lru_def split: if_splits)

lemma unlink_name_memory: "unlink_name a f = Some (p, g) \<Longrightarrow> fmem g = fmem f"
  by (auto simp: unlink_name_def split: option.splits)

lemma unref_node_memory: "unref_node a f = Some g \<Longrightarrow> set (fmem g) \<subseteq> set (fmem f)"
proof (induction a f arbitrary: g rule: unref_node.induct)
  case (1 a f)
  from 1(2) obtain n where n: "node_at f a = Some n" by (auto simp: unref_node.simps [of a f] split: option.splits)
  let ?f1 = "set_node a (n\<lparr>refctr := 0\<rparr>) f"
  consider "g = set_node a (n\<lparr>refctr := refctr n - 1\<rparr>) f" | "g = drop_node a ?f1"
    | nm p f2 f3 f4 where "\<not> refctr n \<le> 0" "\<not> refctr n \<noteq> 1" "\<not> treelock n \<noteq> 0" "nname n = Some nm" "unlink_name a ?f1 = Some (p, f2)"
        "unref_node p f2 = Some f3" "drop_name a f3 = Some f4" "g = drop_node a f4"
    using 1(2) n by (auto simp: unref_node.simps [of a f] Let_def split: option.splits if_splits)
  then show ?case
  proof cases
    case 3
    have "set (fmem f3) \<subseteq> set (fmem f2)" by (rule 1(1) [OF n 3(1-3) refl 3(4,5) refl 3(6)])
    moreover have "fmem f2 = fmem f" using unlink_name_memory [OF 3(5)] by simp
    moreover have "set (fmem f4) \<subseteq> set (fmem f3)" by (rule drop_name_memory [OF 3(7)])
    moreover have "set (fmem g) \<subseteq> set (fmem f4)" unfolding 3(8) by (rule drop_node_memory)
    ultimately show ?thesis by (metis order_trans)
  qed (use drop_node_memory [of a ?f1] in auto)
qed

lemma unhash_name_memory:
  assumes "unhash_name a f = Some g"
  shows "set (fmem g) \<subseteq> set (fmem f)"
proof -
  consider "g = f" | p f1 f2 where "unlink_name a f = Some (p, f1)" "unref_node p f1 = Some f2" "drop_name a f2 = Some g"
    using assms by (auto simp: unhash_name_def split: option.splits)
  then show ?thesis
  proof cases
    case 2
    then show ?thesis using unref_node_memory [OF 2(2)] drop_name_memory [OF 2(3)] unlink_name_memory [OF 2(1)] by (metis order_trans)
  qed simp
qed

lemma unlink_node_memory:
  assumes "unlink_node a f = Some g"
  shows "set (fmem g) \<subseteq> set (fmem f)"
proof -
  obtain n where "unhash_name a f = Some g \<or> unhash_name a (set_node a n f) = Some g"
    using assms by (auto simp: unlink_node_def split: option.splits if_splits)
  then show ?thesis using unhash_name_memory [of a f g] unhash_name_memory [of a "set_node a n f" g] by auto
qed

lemma hash_name_failed: "hash_name a dir name f = Some (False, g) \<Longrightarrow> False \<in> set (fmem f)"
  using alloc_fails [of "fmem f"] by (auto simp: hash_name_def Let_def split: option.splits prod.splits if_splits)

text \<open>
  C21: Renaming (not hiding) within directories the kernel knows, over an existing entry or not,
  where the node is not the new directory itself: the new name then resolves to the node and the
  old one to nothing (unless they are the same); every other name resolves as before. Only if an
  allocation fails and the new name has 32 bytes or more the result may be \<^verbatim>\<open>-ENOMEM\<close>, and then both the
  old and the new name are unknown. No assertion fails and the invariant is kept. With a time for
  which nodes are remembered, an entry that is replaced must have been looked up besides.
\<close>

theorem rename_node_correct:
  assumes "inv {} None f" and "get_node f olddir = Some p" and "known f p" and "get_node f newdir = Some q" and "known f q"
    and "lookup_node f olddir oldname = Some a" and "known f a" and "q \<noteq> a"
    and "\<forall>b n. lookup_node f newdir newname = Some b \<longrightarrow> node_at f b = Some n \<longrightarrow> (if remember f \<noteq> 0 then 1 else 0) < nlookup n"
  shows "\<exists>r g. rename_node olddir oldname newdir newname False f = Some (r, g) \<and> inv {} None g \<and>
    (r = 0 \<or> r = - CACHE_ENOMEM \<and> 32 \<le> length newname \<and> False \<in> set (fmem f)) \<and>
    (\<forall>d nm. lookup_node g d nm =
      (if d = newdir \<and> nm = newname then (if r = 0 then Some a else None)
       else if d = olddir \<and> nm = oldname then None else lookup_node f d nm))"
proof -
  obtain n where n: "node_at f a = Some n" "parent n = Some p" "nname n = Some oldname"
    "\<forall>d nm. lookup_node f d nm = Some a \<longleftrightarrow> d = olddir \<and> nm = oldname"
    by (rule lookup_node_unique [OF assms(1,6,2)]) blast
  have key: "keys f a = Some (nodeid n, Some p, Some oldname)" using keys_node [OF n(1)] n(2,3) by simp
  have notroot: "nodeid n \<noteq> ROOT_ID" by (rule named_not_root [OF assms(1) key])
  obtain f1 k1 where f1: "(case lookup_node f newdir newname of None \<Rightarrow> Some f | Some b \<Rightarrow> unlink_node b f) = Some f1"
    "inv {} None f1" "\<forall>d nm. lookup_node f1 d nm = (if d = newdir \<and> nm = newname then None else lookup_node f d nm)"
    "\<forall>ino. get_node f1 ino = get_node f ino" "\<forall>b. known f1 b = known f b" "keys f1 a = Some (nodeid n, k1)"
    "k1 = (Some p, Some oldname) \<or> k1 = (None, None)"
    by (rule unlink_target [OF assms(1,4,5,9) key]) blast
  obtain f2 n2 where f2: "unhash_name a f1 = Some f2" "inv {} None f2"
    "\<forall>d nm. lookup_node f2 d nm = (if lookup_node f1 d nm = Some a then None else lookup_node f1 d nm)"
    "\<forall>ino. get_node f2 ino = get_node f1 ino" "node_at f2 a = Some n2" "nodeid n2 = nodeid n" "parent n2 = None" "nname n2 = None"
    by (rule unhash_moved [OF f1(2,6,7)]) (use assms(3,7) f1(5) in blast)+
  have look2: "lookup_node f2 d nm =
      (if d = newdir \<and> nm = newname \<or> d = olddir \<and> nm = oldname then None else lookup_node f d nm)" for d nm
    using n(4) unfolding f2(3) [rule_format] f1(3) [rule_format] by auto
  have q2: "get_node f2 newdir = Some q" and l2: "lookup_node f2 newdir newname = None"
    using assms(4) f1(4) f2(4) look2 by simp_all
  have root2: "nodeid n2 \<noteq> ROOT_ID" using f2(6) notroot by simp
  have ren: "rename_node olddir oldname newdir newname False f = (case hash_name a newdir newname f2 of
      None \<Rightarrow> None | Some (False, f3) \<Rightarrow> Some (- CACHE_ENOMEM, f3) | Some (True, f3) \<Rightarrow> Some (0, f3))"
    using assms(6) f1(1) f2(1) by (auto simp: rename_node_def split: option.splits bool.splits)
  from hash_name_inv [OF f2(2,5,7,8) root2 q2 assms(8) l2]
  consider g where "hash_name a newdir newname f2 = Some (True, g)" "inv {} None g"
      "\<forall>d nm. lookup_node g d nm = (if d = newdir \<and> nm = newname then Some a else lookup_node f2 d nm)"
    | g where "hash_name a newdir newname f2 = Some (False, g)" "inv {} None g" "32 \<le> length newname" "keys g = keys f2"
    by blast
  then show ?thesis
  proof cases
    case 1
    then show ?thesis using ren look2 by (intro exI [of _ 0] exI [of _ g]) simp
  next
    case 2
    have "lookup_node g d nm = lookup_node f2 d nm" for d nm
      by (rule option_eq) (simp add: lookup_node_inv [OF 2(2)] lookup_node_inv [OF f2(2)] 2(4))
    moreover have "False \<in> set (fmem f)"
    proof -
      have "set (fmem f1) \<subseteq> set (fmem f)" using f1(1) unlink_node_memory by (auto split: option.splits)
      then show ?thesis using hash_name_failed [OF 2(1)] unhash_name_memory [OF f2(1)] by blast
    qed
    ultimately show ?thesis using 2 ren look2 by (intro exI [of _ "- CACHE_ENOMEM"] exI [of _ g]) (simp add: CACHE_ENOMEM_def)
  qed
qed

theorem rename_node_correct_witness:
  "\<exists>a r g. rename_node ROOT_ID [97] ROOT_ID [98] False demo_fuse = Some (r, g) \<and> lookup_node g ROOT_ID [98] = Some a \<and>
     lookup_node g ROOT_ID [97] = None"
proof -
  obtain a i n where d: "inv {} None demo_fuse" "a \<noteq> 0" "node_at demo_fuse a = Some n" "nlookup n = 1" "known demo_fuse 0"
    "get_node demo_fuse ROOT_ID = Some 0" "lookup_node demo_fuse ROOT_ID [97] = Some a" "lookup_node demo_fuse ROOT_ID [98] = None"
    by (rule demo_fuse_ok) metis
  have "known demo_fuse a" "0 \<noteq> a" using d(2-4) by (simp_all add: known_def)
  from rename_node_correct [OF d(1,6,5,6,5,7) this, of "[98]"] d(8) show ?thesis by (auto simp: CACHE_ENOMEM_def)
qed

end
