(* ===== verification/PathLock.thy ===== *)
theory PathLock
  imports PathBuf NodeProps
begin

text \<open>
  Paths and tree locks of the high-level library (\<^verbatim>\<open>lib/fuse.c\<close>): every request computes the
  path of its node and read-locks the node and its ancestors; a request that removes or renames an
  entry also write-locks the entry. A request that cannot have its locks waits in a queue, which is
  gone through whenever locks are released. The mutex makes each function one step.
\<close>

section \<open>The code\<close>

definition TREELOCK_WRITE :: int where "TREELOCK_WRITE = - 1"
definition TREELOCK_WAIT_OFFSET :: int where "TREELOCK_WAIT_OFFSET = - 2147483648"

definition ENOMEM :: int where "ENOMEM = 12"
definition EAGAIN :: int where "EAGAIN = 11"
definition ESTALE :: int where "ESTALE = 116"

text \<open>
  \<^verbatim>\<open>unlock_path\<close>: the loop goes up from a node to \<^verbatim>\<open>end\<close> or the root; \<open>None\<close> for a node is
  the null pointer. The result \<open>None\<close> is a failed assertion, a null pointer that is followed, or a
  loop that does not end.
\<close>

partial_function (option) unlock_loop :: "nat option \<Rightarrow> nat option \<Rightarrow> fuse \<Rightarrow> fuse option" where
  "unlock_loop pos end_node f =
     (if pos = end_node then Some f
      else case pos of
        None \<Rightarrow> None
      | Some a \<Rightarrow>
          (case node_at f a of
             None \<Rightarrow> None
           | Some n \<Rightarrow>
               if nodeid n = ROOT_ID then Some f
               else if treelock n = 0 \<or> treelock n = TREELOCK_WAIT_OFFSET \<or> treelock n = TREELOCK_WRITE then None
               else unlock_loop (parent n) end_node
                 (set_node a (n\<lparr>treelock := (if treelock n - 1 = TREELOCK_WAIT_OFFSET then 0 else treelock n - 1)\<rparr>) f)))"

definition unlock_wnode :: "nat option \<Rightarrow> fuse \<Rightarrow> fuse option" where
  "unlock_wnode wnode f =
     (case wnode of
        None \<Rightarrow> Some f
      | Some w \<Rightarrow>
          (case node_at f w of
             None \<Rightarrow> None
           | Some n \<Rightarrow> if treelock n = TREELOCK_WRITE then Some (set_node w (n\<lparr>treelock := 0\<rparr>) f) else None))"

definition unlock_path :: "u64 \<Rightarrow> nat option \<Rightarrow> nat option \<Rightarrow> fuse \<Rightarrow> fuse option" where
  "unlock_path ino wnode end_node f =
     (case unlock_wnode wnode f of
        None \<Rightarrow> None
      | Some f1 \<Rightarrow> (case get_node f1 ino of None \<Rightarrow> None | Some a \<Rightarrow> unlock_loop (Some a) end_node f1))"

text \<open>
  The loop of \<^verbatim>\<open>try_get_path\<close>: it stops at the root with the path, or with an error at a node it has
  not locked.
\<close>

partial_function (option) climb_loop :: "bool \<Rightarrow> nat \<Rightarrow> path_buf \<Rightarrow> fuse \<Rightarrow> ((int + path_buf) \<times> nat \<times> fuse) option" where
  "climb_loop need_lock a b f =
     (case node_at f a of
        None \<Rightarrow> None
      | Some n \<Rightarrow>
          if nodeid n = ROOT_ID then Some (Inr b, a, f)
          else
            (case (nname n, parent n) of
               (Some nm, Some p) \<Rightarrow>
                 (case add_name b nm (fmem f) of
                    None \<Rightarrow> None
                  | Some (None, mem) \<Rightarrow> Some (Inl (- ENOMEM), a, f\<lparr>fmem := mem\<rparr>)
                  | Some (Some b', mem) \<Rightarrow>
                      if \<not> need_lock then climb_loop need_lock p b' (f\<lparr>fmem := mem\<rparr>)
                      else if treelock n < 0 then Some (Inl (- EAGAIN), a, f\<lparr>fmem := mem\<rparr>)
                      else climb_loop need_lock p b' (set_node a (n\<lparr>treelock := treelock n + 1\<rparr>) (f\<lparr>fmem := mem\<rparr>)))
             | _ \<Rightarrow> Some (Inl (- ESTALE), a, f)))"

text \<open>The write lock of the entry: \<open>Inl\<close> is \<^verbatim>\<open>-EAGAIN\<close>.\<close>

definition lock_wnode :: "bool \<Rightarrow> u64 \<Rightarrow> u8 list option \<Rightarrow> fuse \<Rightarrow> (int + nat option) \<times> fuse" where
  "lock_wnode wr ino name f =
     (case (wr, name) of
        (True, Some nm) \<Rightarrow>
          (case lookup_node f ino nm of
             None \<Rightarrow> (Inr None, f)
           | Some w \<Rightarrow>
               (case node_at f w of
                  None \<Rightarrow> (Inr None, f)
                | Some n \<Rightarrow>
                    if treelock n \<noteq> 0 then
                      (Inl (- EAGAIN),
                       if treelock n > 0 then set_node w (n\<lparr>treelock := treelock n + TREELOCK_WAIT_OFFSET\<rparr>) f else f)
                    else (Inr (Some w), set_node w (n\<lparr>treelock := TREELOCK_WRITE\<rparr>) f)))
      | _ \<Rightarrow> (Inr None, f))"

definition buf_init :: path_buf where
  "buf_init = \<lparr>pbytes = replicate 256 0, ppos = 255\<rparr>"

definition buf_path :: "path_buf \<Rightarrow> u8 list" where
  "buf_path b = (let s = c_str (drop (ppos b) (pbytes b)) in if s \<noteq> [] then s else [47])"

type_synonym path_result = "int + u8 list \<times> nat option"

definition try_get_path :: "u64 \<Rightarrow> u8 list option \<Rightarrow> bool \<Rightarrow> bool \<Rightarrow> fuse \<Rightarrow> (path_result \<times> fuse) option" where
  "try_get_path ino name wr need_lock f =
     (case alloc (fmem f) of
        (False, mem) \<Rightarrow> Some (Inl (- ENOMEM), f\<lparr>fmem := mem\<rparr>)
      | (True, mem) \<Rightarrow>
          (case (case name of None \<Rightarrow> Some (Some buf_init, mem) | Some nm \<Rightarrow> add_name buf_init nm mem) of
             None \<Rightarrow> None
           | Some (None, mem') \<Rightarrow> Some (Inl (- ENOMEM), f\<lparr>fmem := mem'\<rparr>)
           | Some (Some b, mem') \<Rightarrow>
               (case lock_wnode wr ino name (f\<lparr>fmem := mem'\<rparr>) of
                  (Inl e, f1) \<Rightarrow> Some (Inl e, f1)
                | (Inr wnode, f1) \<Rightarrow>
                    (case get_node f1 ino of
                       None \<Rightarrow> None
                     | Some a \<Rightarrow>
                         (case climb_loop need_lock a b f1 of
                            None \<Rightarrow> None
                          | Some (Inr b', _, f2) \<Rightarrow> Some (Inr (buf_path b', wnode), f2)
                          | Some (Inl e, node, f2) \<Rightarrow>
                              if need_lock then map_option (Pair (Inl e)) (unlock_path ino wnode (Some node) f2)
                              else Some (Inl e, f2))))))"

definition try_get_path2 ::
  "u64 \<Rightarrow> u8 list option \<Rightarrow> bool \<Rightarrow> u64 \<Rightarrow> u8 list option \<Rightarrow> bool \<Rightarrow> fuse \<Rightarrow>
   ((int + (u8 list \<times> nat option) \<times> (u8 list \<times> nat option)) \<times> fuse) option" where
  "try_get_path2 ino1 name1 wr1 ino2 name2 wr2 f =
     (case try_get_path ino1 name1 wr1 True f of
        None \<Rightarrow> None
      | Some (Inl e, f1) \<Rightarrow> Some (Inl e, f1)
      | Some (Inr (path1, wn1), f1) \<Rightarrow>
          (case try_get_path ino2 name2 wr2 True f1 of
             None \<Rightarrow> None
           | Some (Inl e, f2) \<Rightarrow> map_option (Pair (Inl e)) (unlock_path ino1 wn1 None f2)
           | Some (Inr r2, f2) \<Rightarrow> Some (Inr ((path1, wn1), r2), f2)))"

text \<open>
  The queue. An element waits for one path, for two, or only for a node to be unlocked
  (\<^verbatim>\<open>forget_node\<close>, which has no \<^verbatim>\<open>path1\<close>). The outcome of its requests is kept in it,
  and whether its condition variable was signalled.
\<close>

datatype waiting =
    ForUnlock u64
  | ForPath u64 "u8 list option" bool
  | ForPaths u64 "u8 list option" bool u64 "u8 list option" bool

datatype granted =
    Path "u8 list" "nat option"
  | Paths "u8 list" "nat option" "u8 list" "nat option"

record lock_queue_element =
  qid :: nat
  qwait :: waiting
  qerr :: "int + granted"
  qdone :: bool
  qsignal :: bool

definition queue_element_wakeup :: "lock_queue_element \<Rightarrow> fuse \<Rightarrow> (lock_queue_element \<times> fuse) option" where
  "queue_element_wakeup qe f =
     (case qwait qe of
        ForUnlock ino \<Rightarrow>
          (case get_node f ino of
             None \<Rightarrow> None
           | Some a \<Rightarrow>
               (case node_at f a of
                  None \<Rightarrow> None
                | Some n \<Rightarrow> Some (if treelock n = 0 then qe\<lparr>qsignal := True\<rparr> else qe, f)))
      | ForPath ino name wr \<Rightarrow>
          if qdone qe then Some (qe, f)
          else
            (case try_get_path ino name wr True f of
               None \<Rightarrow> None
             | Some (Inl e, g) \<Rightarrow>
                 Some (if e = - EAGAIN then qe else qe\<lparr>qerr := Inl e, qdone := True, qsignal := True\<rparr>, g)
             | Some (Inr (p, w), g) \<Rightarrow> Some (qe\<lparr>qerr := Inr (Path p w), qdone := True, qsignal := True\<rparr>, g))
      | ForPaths ino1 name1 wr1 ino2 name2 wr2 \<Rightarrow>
          if qdone qe then Some (qe, f)
          else
            (case try_get_path2 ino1 name1 wr1 ino2 name2 wr2 f of
               None \<Rightarrow> None
             | Some (Inl e, g) \<Rightarrow>
                 Some (if e = - EAGAIN then qe else qe\<lparr>qerr := Inl e, qdone := True, qsignal := True\<rparr>, g)
             | Some (Inr ((p1, w1), (p2, w2)), g) \<Rightarrow>
                 Some (qe\<lparr>qerr := Inr (Paths p1 w1 p2 w2), qdone := True, qsignal := True\<rparr>, g)))"

fun wake_up_queued :: "lock_queue_element list \<Rightarrow> fuse \<Rightarrow> (lock_queue_element list \<times> fuse) option" where
  "wake_up_queued [] f = Some ([], f)"
| "wake_up_queued (qe # qs) f =
     (case queue_element_wakeup qe f of
        None \<Rightarrow> None
      | Some (qe', g) \<Rightarrow> map_option (\<lambda>(qs', h). (qe' # qs', h)) (wake_up_queued qs g))"

definition queue_path :: "nat \<Rightarrow> waiting \<Rightarrow> lock_queue_element list \<Rightarrow> lock_queue_element list" where
  "queue_path i w qs = qs @ [\<lparr>qid = i, qwait = w, qerr = Inl 0, qdone = False, qsignal = False\<rparr>]"

definition dequeue_path :: "nat \<Rightarrow> lock_queue_element list \<Rightarrow> lock_queue_element list" where
  "dequeue_path i qs = filter (\<lambda>qe. qid qe \<noteq> i) qs"

text \<open>
  \<^verbatim>\<open>get_path_common\<close> and \<^verbatim>\<open>get_path2\<close> up to the point where they return or wait: \<open>None\<close> as
  outcome means that the request is in the queue and returns when it is done.
\<close>

definition get_path_common ::
  "nat \<Rightarrow> u64 \<Rightarrow> u8 list option \<Rightarrow> bool \<Rightarrow> lock_queue_element list \<Rightarrow> fuse \<Rightarrow>
   (path_result option \<times> lock_queue_element list \<times> fuse) option" where
  "get_path_common i ino name wr qs f =
     (case try_get_path ino name wr True f of
        None \<Rightarrow> None
      | Some (r, g) \<Rightarrow>
          if r = Inl (- EAGAIN) then Some (None, queue_path i (ForPath ino name wr) qs, g) else Some (Some r, qs, g))"

text \<open>\<^verbatim>\<open>get_path_nullok\<close>: a file system that needs no paths gets none, and a stale node has none.\<close>

definition get_path_nullok ::
  "bool \<Rightarrow> nat \<Rightarrow> u64 \<Rightarrow> lock_queue_element list \<Rightarrow> fuse \<Rightarrow>
   ((int + u8 list option) option \<times> lock_queue_element list \<times> fuse) option" where
  "get_path_nullok nullpath_ok i ino qs f =
     (if nullpath_ok then Some (Some (Inr None), qs, f)
      else map_option (\<lambda>(r, qs', g).
        (map_option (\<lambda>r. case r of Inl e \<Rightarrow> if e = - ESTALE then Inr None else Inl e | Inr (p, _) \<Rightarrow> Inr (Some p)) r, qs', g))
        (get_path_common i ino None False qs f))"

definition get_path2 ::
  "nat \<Rightarrow> u64 \<Rightarrow> u8 list option \<Rightarrow> bool \<Rightarrow> u64 \<Rightarrow> u8 list option \<Rightarrow> bool \<Rightarrow> lock_queue_element list \<Rightarrow> fuse \<Rightarrow>
   ((int + (u8 list \<times> nat option) \<times> (u8 list \<times> nat option)) option \<times> lock_queue_element list \<times> fuse) option" where
  "get_path2 i ino1 name1 wr1 ino2 name2 wr2 qs f =
     (case try_get_path2 ino1 name1 wr1 ino2 name2 wr2 f of
        None \<Rightarrow> None
      | Some (r, g) \<Rightarrow>
          if r = Inl (- EAGAIN) then Some (None, queue_path i (ForPaths ino1 name1 wr1 ino2 name2 wr2) qs, g)
          else Some (Some r, qs, g))"

definition free_path_wrlock :: "u64 \<Rightarrow> nat option \<Rightarrow> lock_queue_element list \<Rightarrow> fuse \<Rightarrow> (lock_queue_element list \<times> fuse) option" where
  "free_path_wrlock ino wnode qs f =
     (case unlock_path ino wnode None f of
        None \<Rightarrow> None
      | Some g \<Rightarrow> if qs \<noteq> [] then wake_up_queued qs g else Some (qs, g))"

definition free_path :: "u64 \<Rightarrow> u8 list option \<Rightarrow> lock_queue_element list \<Rightarrow> fuse \<Rightarrow> (lock_queue_element list \<times> fuse) option" where
  "free_path ino path qs f = (case path of None \<Rightarrow> Some (qs, f) | Some _ \<Rightarrow> free_path_wrlock ino None qs f)"

definition free_path2 ::
  "u64 \<Rightarrow> u64 \<Rightarrow> nat option \<Rightarrow> nat option \<Rightarrow> lock_queue_element list \<Rightarrow> fuse \<Rightarrow> (lock_queue_element list \<times> fuse) option" where
  "free_path2 ino1 ino2 wnode1 wnode2 qs f =
     (case unlock_path ino1 wnode1 None f of
        None \<Rightarrow> None
      | Some g \<Rightarrow> (case unlock_path ino2 wnode2 None g of None \<Rightarrow> None | Some h \<Rightarrow> wake_up_queued qs h))"

section \<open>Trees and locks\<close>

text \<open>Two states that differ in nothing but locks and memory.\<close>

definition unlocked :: "node \<Rightarrow> node" where
  "unlocked n = n\<lparr>treelock := 0\<rparr>"

definition same_tree :: "fuse \<Rightarrow> fuse \<Rightarrow> bool" where
  "same_tree f g \<longleftrightarrow> (\<forall>a. map_option unlocked (node_at g a) = map_option unlocked (node_at f a)) \<and>
     id_table g = id_table f \<and> name_table g = name_table f \<and> remember g = remember f"

lemma unlocked_idem [simp]: "unlocked (unlocked n) = unlocked n"
  by (simp add: unlocked_def)

lemma same_tree_refl [simp]: "same_tree f f"
  by (simp add: same_tree_def)

lemma same_tree_trans: "same_tree f g \<Longrightarrow> same_tree g h \<Longrightarrow> same_tree f h"
  by (simp add: same_tree_def)

lemma same_tree_mem [simp]: "same_tree f (f\<lparr>fmem := m\<rparr>)" and lck_mem [simp]: "lck (f\<lparr>fmem := m\<rparr>) = lck f"
  by (simp_all add: same_tree_def lck_def fun_eq_iff)

lemma same_tree_node:
  assumes "same_tree f g" and "node_at f a = Some n"
  obtains m where "node_at g a = Some m" "nodeid m = nodeid n" "parent m = parent n" "nname m = nname n" "nlookup m = nlookup n" "refctr m = refctr n"
proof -
  have "map_option unlocked (node_at g a) = Some (unlocked n)" using assms by (auto simp: same_tree_def)
  then obtain m where m: "node_at g a = Some m" "unlocked m = unlocked n" by auto
  from m(2) have "nodeid m = nodeid n \<and> parent m = parent n \<and> nname m = nname n \<and> nlookup m = nlookup n \<and> refctr m = refctr n"
    by (cases m; cases n) (simp add: unlocked_def)
  with m(1) that show thesis by blast
qed

lemma same_tree_keys: "same_tree f g \<Longrightarrow> keys g = keys f"
proof
  fix a assume s: "same_tree f g"
  show "keys g a = keys f a"
  proof (cases "node_at f a")
    case None
    with s have "node_at g a = None" unfolding same_tree_def by (metis map_option_is_None)
    with None show ?thesis by (simp add: keys_def)
  next
    case (Some n)
    from same_tree_node [OF s Some] obtain m where "node_at g a = Some m" "nodeid m = nodeid n" "parent m = parent n" "nname m = nname n" by blast
    with Some show ?thesis by (simp add: keys_def)
  qed
qed

lemma same_tree_get_node: "same_tree f g \<Longrightarrow> get_node g = get_node f"
proof -
  assume s: "same_tree f g"
  have "has_id h ino a \<longleftrightarrow> (\<exists>k. keys h a = Some (ino, k))" for h ino a by (auto simp: has_id_def keys_def split: option.splits)
  then have "has_id g = has_id f" using same_tree_keys [OF s] by (intro ext) simp
  moreover have "id_table g = id_table f" using s by (simp add: same_tree_def)
  ultimately show ?thesis by (intro ext) (simp add: get_node_def get_node_nocheck_def)
qed

lemma same_tree_lookup_node: "same_tree f g \<Longrightarrow> lookup_node g = lookup_node f"
proof -
  assume s: "same_tree f g"
  have "has_name h dir name a \<longleftrightarrow> entry (keys h) dir name a" for h dir name a
    by (auto simp: has_name_def entry_def keys_def split: option.splits)
  then have "has_name g = has_name f" using same_tree_keys [OF s] by (intro ext) simp
  moreover have "name_table g = name_table f" using s by (simp add: same_tree_def)
  ultimately show ?thesis by (intro ext) (simp add: lookup_node_def)
qed

lemma set_treelock:
  assumes "node_at f a = Some n"
  shows "same_tree f (set_node a (n\<lparr>treelock := t\<rparr>) f)" and "lck (set_node a (n\<lparr>treelock := t\<rparr>) f) = (lck f)(a := t)"
  using assms by (auto simp: same_tree_def lck_def fun_eq_iff node_at_set_node unlocked_def)

text \<open>\<open>climb f a as e\<close>: going up from \<open>a\<close> one passes \<open>as\<close>, all with names, and comes to \<open>e\<close>.\<close>

fun climb :: "fuse \<Rightarrow> nat \<Rightarrow> nat list \<Rightarrow> nat \<Rightarrow> bool" where
  "climb f a [] e \<longleftrightarrow> a = e"
| "climb f a (b # bs) e \<longleftrightarrow> a = b \<and> (\<exists>i p nm. keys f a = Some (i, Some p, Some nm) \<and> i \<noteq> ROOT_ID \<and> climb f p bs e)"

definition at_end :: "fuse \<Rightarrow> nat \<Rightarrow> bool" where
  "at_end f e \<longleftrightarrow> (\<exists>i p nm. keys f e = Some (i, p, nm) \<and> (i = ROOT_ID \<or> p = None \<or> nm = None))"

definition at_root :: "fuse \<Rightarrow> nat \<Rightarrow> bool" where
  "at_root f e \<longleftrightarrow> (\<exists>k. keys f e = Some (ROOT_ID, k))"

lemma climb_cong: "same_tree f g \<Longrightarrow> climb g a as e = climb f a as e"
  by (induction as arbitrary: a) (simp_all add: same_tree_keys)

lemma climb_unique: "climb f a as e \<Longrightarrow> climb f a bs e' \<Longrightarrow> at_end f e \<Longrightarrow> at_end f e' \<Longrightarrow> as = bs"
proof (induction as arbitrary: a bs)
  case Nil
  then show ?case by (cases bs) (auto simp: at_end_def)
next
  case (Cons b as)
  then show ?case by (cases bs) (auto simp: at_end_def)
qed

lemma climb_from_member: "climb f a as e \<Longrightarrow> c \<in> set as \<Longrightarrow> \<exists>bs. climb f c (c # bs) e \<and> length bs < length as"
  by (induction as arbitrary: a) fastforce+

lemma climb_distinct: "climb f a as e \<Longrightarrow> at_end f e \<Longrightarrow> distinct as"
proof (induction as arbitrary: a)
  case (Cons b as)
  from Cons.prems obtain p where p: "climb f p as e" "a = b" by auto
  have "b \<notin> set as"
  proof
    assume "b \<in> set as"
    from climb_from_member [OF p(1) this] obtain bs where "climb f b (b # bs) e" "length bs < length as" by blast
    with climb_unique [of f b "b # as" e "b # bs" e] Cons.prems p(2) show False by auto
  qed
  with Cons.IH [OF p(1)] Cons.prems(2) show ?case by simp
qed simp

text \<open>The path along such a chain.\<close>

fun branch_path :: "fuse \<Rightarrow> nat list \<Rightarrow> u8 list" where
  "branch_path f [] = []"
| "branch_path f (a # as) = branch_path f as @ 47 # (case keys f a of Some (_, _, Some nm) \<Rightarrow> nm | _ \<Rightarrow> [])"

lemma branch_path_cong: "same_tree f g \<Longrightarrow> branch_path g as = branch_path f as"
  by (induction as) (simp_all add: same_tree_keys)

text \<open>The loop locks what it passes, up to the node where it fails.\<close>

definition walked :: "fuse \<Rightarrow> nat list \<Rightarrow> nat \<Rightarrow> fuse \<Rightarrow> bool" where
  "walked f as k g \<longleftrightarrow> k \<le> length as \<and> same_tree f g \<and> set (fmem g) \<subseteq> set (fmem f) \<and>
     lck g = (\<lambda>c. lck f c + (if c \<in> set (take k as) then 1 else 0)) \<and> (\<forall>c\<in>set (take k as). 0 \<le> lck f c)"

definition climb_error :: "fuse \<Rightarrow> nat list \<Rightarrow> nat \<Rightarrow> nat \<Rightarrow> int \<Rightarrow> bool" where
  "climb_error f as e k err \<longleftrightarrow>
     (err = - EAGAIN \<and> k < length as \<and> lck f (as ! k) < 0) \<or> (err = - ENOMEM \<and> k < length as \<and> False \<in> set (fmem f)) \<or>
     (err = - ESTALE \<and> k = length as \<and> \<not> at_root f e)"

lemma walked_0: "set mem \<subseteq> set (fmem f) \<Longrightarrow> walked f as 0 (f\<lparr>fmem := mem\<rparr>)"
  by (simp add: walked_def)

lemma walked_Suc:
  assumes "node_at f a = Some n" and "0 \<le> treelock n" and "a \<notin> set as" and "set mem \<subseteq> set (fmem f)"
    and "walked (set_node a (n\<lparr>treelock := treelock n + 1\<rparr>) (f\<lparr>fmem := mem\<rparr>)) as k g"
  shows "walked f (a # as) (Suc k) g"
proof -
  let ?f = "set_node a (n\<lparr>treelock := treelock n + 1\<rparr>) (f\<lparr>fmem := mem\<rparr>)"
  have n: "node_at (f\<lparr>fmem := mem\<rparr>) a = Some n" using assms(1) by simp
  have tla: "lck f a = treelock n" using assms(1) by (simp add: lck_def)
  have "same_tree f ?f" by (rule same_tree_trans [OF same_tree_mem set_treelock(1) [OF n]])
  moreover have "lck ?f = (lck f)(a := treelock n + 1)" using set_treelock(2) [OF n] by simp
  moreover have ne: "c \<noteq> a" if "c \<in> set (take k as)" for c using that assms(3) by (metis in_set_takeD)
  moreover have "\<forall>c\<in>set (take k as). 0 \<le> lck f c"
    using assms(5) ne calculation(2) unfolding walked_def by (metis fun_upd_other)
  ultimately show ?thesis using assms(2,4,5) tla by (auto simp: walked_def fun_eq_iff intro: same_tree_trans)
qed

lemma climb_error_Suc:
  assumes "climb_error (set_node a (n\<lparr>treelock := t\<rparr>) (f\<lparr>fmem := mem\<rparr>)) as e k err" and "node_at f a = Some n" and "a \<notin> set as"
    and "set mem \<subseteq> set (fmem f)"
  shows "climb_error f (a # as) e (Suc k) err"
proof -
  let ?f = "set_node a (n\<lparr>treelock := t\<rparr>) (f\<lparr>fmem := mem\<rparr>)"
  have n: "node_at (f\<lparr>fmem := mem\<rparr>) a = Some n" using assms(2) by simp
  have "same_tree f ?f" by (rule same_tree_trans [OF same_tree_mem set_treelock(1) [OF n]])
  then have "at_root ?f e = at_root f e" by (simp add: at_root_def same_tree_keys)
  moreover have "lck ?f (as ! k) = lck f (as ! k)" if "k < length as"
    using set_treelock(2) [OF n] that assms(3) nth_mem [OF that] by auto
  ultimately show ?thesis using assms(1,4) by (auto simp: climb_error_def)
qed

lemma climb_loop_ok:
  assumes "climb f a as e" and "at_end f e" and "holds b p" and "length (branch_path f as) + length p + 1 \<le> 0xffffffff"
  shows "\<exists>r k g. climb_loop True a b f = Some (r, (as @ [e]) ! k, g) \<and> walked f as k g \<and>
    (case r of Inr b' \<Rightarrow> k = length as \<and> at_root f e \<and> holds b' (branch_path f as @ p) | Inl err \<Rightarrow> climb_error f as e k err)"
  using assms
proof (induction as arbitrary: a b f p)
  case Nil
  then obtain n where n: "node_at f e = Some n" "a = e" "nodeid n = ROOT_ID \<or> parent n = None \<or> nname n = None"
    by (auto simp: at_end_def keys_def)
  have root: "at_root f e \<longleftrightarrow> nodeid n = ROOT_ID" using n(1) by (auto simp: at_root_def keys_def)
  have "walked f [] 0 f" by (simp add: walked_def)
  then show ?case
    using n Nil.prems(3) root by (subst climb_loop.simps) (auto simp: climb_error_def split: option.splits)
next
  case (Cons c as)
  then obtain i q nm where k: "a = c" "keys f c = Some (i, Some q, Some nm)" "i \<noteq> ROOT_ID" "climb f q as e" by auto
  then obtain n where n: "node_at f c = Some n" "nodeid n = i" "parent n = Some q" "nname n = Some nm"
    by (auto simp: keys_def)
  have bp: "branch_path f (c # as) = branch_path f as @ 47 # nm" using k(2) by simp
  have "length p + length nm + 2 \<le> 0xffffffff" using Cons.prems(4) bp by simp
  from add_name_ok [OF Cons.prems(3) this, of "fmem f"] obtain r mem where
    r: "add_name b nm (fmem f) = Some (r, mem)"
      "case r of Some b' \<Rightarrow> holds b' (47 # nm @ p) | None \<Rightarrow> ppos b \<le> length nm \<and> \<not> fst (alloc (fmem f))" by blast
  have sub: "set mem \<subseteq> set (fmem f)" using r(1) alloc_subset [of "fmem f"]
    by (auto simp: add_name_def split: if_splits option.splits prod.splits)
  have ca: "c \<notin> set as" using climb_distinct [OF Cons.prems(1,2)] by simp
  have tlc: "lck f c = treelock n" using n(1) by (simp add: lck_def)
  show ?case
  proof (cases r)
    case None
    have "climb_loop True a b f = Some (Inl (- ENOMEM), c, f\<lparr>fmem := mem\<rparr>)"
      using k(1,3) n r(1) None by (subst climb_loop.simps) simp
    moreover have "climb_error f (c # as) e 0 (- ENOMEM)" using r(2) None alloc_fails by (auto simp: climb_error_def)
    ultimately show ?thesis using walked_0 [OF sub] by (intro exI [of _ "Inl (- ENOMEM)"] exI [of _ 0] exI [of _ "f\<lparr>fmem := mem\<rparr>"]) simp
  next
    case (Some b')
    show ?thesis
    proof (cases "treelock n < 0")
      case True
      have "climb_loop True a b f = Some (Inl (- EAGAIN), c, f\<lparr>fmem := mem\<rparr>)"
        using k(1,3) n r(1) Some True by (subst climb_loop.simps) simp
      moreover have "climb_error f (c # as) e 0 (- EAGAIN)" using True tlc by (simp add: climb_error_def)
      ultimately show ?thesis using walked_0 [OF sub] by (intro exI [of _ "Inl (- EAGAIN)"] exI [of _ 0] exI [of _ "f\<lparr>fmem := mem\<rparr>"]) simp
    next
      case False
      let ?f = "set_node c (n\<lparr>treelock := treelock n + 1\<rparr>) (f\<lparr>fmem := mem\<rparr>)"
      have n': "node_at (f\<lparr>fmem := mem\<rparr>) c = Some n" using n(1) by simp
      have st: "same_tree f ?f" by (rule same_tree_trans [OF same_tree_mem set_treelock(1) [OF n']])
      have loop: "climb_loop True a b f = climb_loop True q b' ?f"
        using k(1,3) n r(1) Some False by (subst climb_loop.simps) simp
      have "climb ?f q as e" "at_end ?f e" "branch_path ?f as = branch_path f as"
        using k(4) climb_cong [OF st] Cons.prems(2) branch_path_cong [OF st] by (simp_all add: at_end_def same_tree_keys [OF st])
      moreover have "holds b' (47 # nm @ p)" using r(2) Some by simp
      moreover have "length (branch_path ?f as) + length (47 # nm @ p) + 1 \<le> 0xffffffff"
        using Cons.prems(4) bp calculation(3) by simp
      ultimately obtain r' k g where g: "climb_loop True q b' ?f = Some (r', (as @ [e]) ! k, g)" "walked ?f as k g"
        "case r' of Inr b'' \<Rightarrow> k = length as \<and> at_root ?f e \<and> holds b'' (branch_path f as @ 47 # nm @ p) | Inl err \<Rightarrow> climb_error ?f as e k err"
        using Cons.IH [of ?f q b' "47 # nm @ p"] by metis
      have "at_root ?f e = at_root f e" by (simp add: at_root_def same_tree_keys [OF st])
      moreover have "walked f (c # as) (Suc k) g" by (rule walked_Suc [OF n(1) _ ca sub g(2)]) (use False in simp)
      moreover have "climb_error f (c # as) e (Suc k) err" if "r' = Inl err" for err
        using climb_error_Suc [OF _ n(1) ca sub] g(3) that by simp
      ultimately show ?thesis
        using loop g(1,3) bp by (intro exI [of _ r'] exI [of _ "Suc k"] exI [of _ g]) (auto split: sum.splits)
    qed
  qed
qed

text \<open>The loop that unlocks.\<close>

definition dec_lock :: "int \<Rightarrow> int" where
  "dec_lock t = (if t - 1 = TREELOCK_WAIT_OFFSET then 0 else t - 1)"

definition read_locked :: "int \<Rightarrow> bool" where
  "read_locked t \<longleftrightarrow> t \<noteq> 0 \<and> t \<noteq> TREELOCK_WAIT_OFFSET \<and> t \<noteq> TREELOCK_WRITE"

lemma climb_member: "climb f a as e \<Longrightarrow> c \<in> set as \<Longrightarrow> \<not> at_end f c"
  by (induction as arbitrary: a) (auto simp: at_end_def)

lemma unlock_loop_ok:
  assumes "climb g a as e" and "at_end g e" and "k \<le> length as" and "\<forall>c\<in>set (take k as). read_locked (lck g c)"
    and "end_node = Some ((as @ [e]) ! k) \<or> end_node = None \<and> k = length as \<and> at_root g e"
  shows "\<exists>h. unlock_loop (Some a) end_node g = Some h \<and> same_tree g h \<and>
    lck h = (\<lambda>c. if c \<in> set (take k as) then dec_lock (lck g c) else lck g c)"
  using assms
proof (induction as arbitrary: a g k)
  case Nil
  then have a: "a = e" "k = 0" by simp_all
  show ?case
  proof (cases "end_node = Some e")
    case True
    then show ?thesis using a by (subst unlock_loop.simps) simp
  next
    case False
    then obtain n where "node_at g e = Some n" "nodeid n = ROOT_ID" using Nil.prems(5) a by (auto simp: at_root_def keys_def)
    then show ?thesis using False a by (subst unlock_loop.simps) simp
  qed
next
  case (Cons c as)
  then obtain i q nm where key: "a = c" "keys g c = Some (i, Some q, Some nm)" "i \<noteq> ROOT_ID" "climb g q as e" by auto
  then obtain n where n: "node_at g c = Some n" "nodeid n = i" "parent n = Some q" by (auto simp: keys_def)
  have lc: "lck g c = treelock n" using n(1) by (simp add: lck_def)
  have dist: "c \<notin> set as" "c \<noteq> e" using climb_distinct [OF Cons.prems(1,2)] climb_member [OF Cons.prems(1), of c] Cons.prems(2) by auto
  show ?case
  proof (cases k)
    case 0
    then show ?thesis using Cons.prems(5) key(1) by (subst unlock_loop.simps) auto
  next
    case (Suc l)
    let ?g = "set_node c (n\<lparr>treelock := dec_lock (treelock n)\<rparr>) g"
    note st = set_treelock(1) [OF n(1), of "dec_lock (treelock n)"] and lk = set_treelock(2) [OF n(1), of "dec_lock (treelock n)"]
    have l: "l \<le> length as" using Cons.prems(3) Suc by simp
    have notin: "c \<notin> set (take l as)" using dist(1) by (metis in_set_takeD)
    have "(as @ [e]) ! l \<in> set (as @ [e])" using l by (intro nth_mem) simp
    then have ne: "end_node \<noteq> Some a" using Cons.prems(5) key(1) Suc dist by auto
    have "read_locked (treelock n)" using Cons.prems(4) Suc lc by simp
    then have step: "unlock_loop (Some a) end_node g = unlock_loop (Some q) end_node ?g"
      using ne key(1,3) n by (subst unlock_loop.simps) (simp add: read_locked_def dec_lock_def)
    have "climb ?g q as e" "at_end ?g e" using key(4) climb_cong [OF st] Cons.prems(2) by (simp_all add: at_end_def same_tree_keys [OF st])
    moreover have "\<forall>d\<in>set (take l as). read_locked (lck ?g d)" using Cons.prems(4) Suc notin unfolding lk by auto
    moreover have "end_node = Some ((as @ [e]) ! l) \<or> end_node = None \<and> l = length as \<and> at_root ?g e"
      using Cons.prems(5) Suc by (auto simp: at_root_def same_tree_keys [OF st])
    ultimately obtain h where h: "unlock_loop (Some q) end_node ?g = Some h" "same_tree ?g h"
      "lck h = (\<lambda>d. if d \<in> set (take l as) then dec_lock (lck ?g d) else lck ?g d)"
      using Cons.IH l by blast
    have "lck h = (\<lambda>d. if d \<in> set (take k (c # as)) then dec_lock (lck g d) else lck g d)"
      using h(3) notin lc unfolding lk Suc by (auto simp: fun_eq_iff)
    with step h(1,2) same_tree_trans [OF st h(2)] show ?thesis by auto
  qed
qed

text \<open>Locking and unlocking the entry.\<close>

definition entry_of :: "bool \<Rightarrow> u64 \<Rightarrow> u8 list option \<Rightarrow> fuse \<Rightarrow> nat option" where
  "entry_of wr ino name f = (case (wr, name) of (True, Some nm) \<Rightarrow> lookup_node f ino nm | _ \<Rightarrow> None)"

definition wait_mark :: "int \<Rightarrow> int" where
  "wait_mark t = (if t > 0 then t + TREELOCK_WAIT_OFFSET else t)"

lemma lookup_node_exists: "lookup_node f ino nm = Some w \<Longrightarrow> node_at f w \<noteq> None"
proof -
  assume "lookup_node f ino nm = Some w"
  then have "has_name f ino nm w" unfolding lookup_node_def find_Some_iff by blast
  then show ?thesis by (cases "node_at f w") (simp_all add: has_name_def)
qed

lemma lock_wnode_ok:
  assumes "lock_wnode wr ino name f = (r, g)"
  shows "same_tree f g" and "fmem g = fmem f"
    and "case r of
      Inl err \<Rightarrow> err = - EAGAIN \<and> (\<exists>w. entry_of wr ino name f = Some w \<and> lck f w \<noteq> 0 \<and> lck g = (lck f)(w := wait_mark (lck f w)))
    | Inr w \<Rightarrow> w = entry_of wr ino name f \<and>
        (case w of None \<Rightarrow> lck g = lck f | Some w \<Rightarrow> lck f w = 0 \<and> node_at g w \<noteq> None \<and> lck g = (lck f)(w := TREELOCK_WRITE))" (is ?P)
proof -
  have eq: "(r, g) = (case entry_of wr ino name f of None \<Rightarrow> (Inr None, f) | Some w \<Rightarrow>
      (case node_at f w of None \<Rightarrow> (Inr None, f) | Some n \<Rightarrow>
         if treelock n \<noteq> 0 then (Inl (- EAGAIN),
           if treelock n > 0 then set_node w (n\<lparr>treelock := treelock n + TREELOCK_WAIT_OFFSET\<rparr>) f else f)
         else (Inr (Some w), set_node w (n\<lparr>treelock := TREELOCK_WRITE\<rparr>) f)))"
    unfolding assms [symmetric] lock_wnode_def entry_of_def by (cases wr; cases name) simp_all
  have goal: "same_tree f g \<and> fmem g = fmem f \<and> ?P"
  proof (cases "entry_of wr ino name f")
    case None
    then show ?thesis using eq by simp
  next
    case (Some w)
    then obtain nm where "lookup_node f ino nm = Some w" by (auto simp: entry_of_def split: bool.splits option.splits)
    then obtain n where n: "node_at f w = Some n" using lookup_node_exists by blast
    have lw: "lck f w = treelock n" using n by (simp add: lck_def)
    note st = set_treelock [OF n]
    show ?thesis
    proof (cases "treelock n = 0")
      case True
      then have "r = Inr (Some w)" "g = set_node w (n\<lparr>treelock := TREELOCK_WRITE\<rparr>) f" using eq Some n by simp_all
      then show ?thesis using Some lw True st [of TREELOCK_WRITE] n by (simp add: node_at_set_node)
    next
      case False
      then have r: "r = Inl (- EAGAIN)"
        "g = (if treelock n > 0 then set_node w (n\<lparr>treelock := treelock n + TREELOCK_WAIT_OFFSET\<rparr>) f else f)" using eq Some n by simp_all
      then show ?thesis
        using Some lw False st [of "treelock n + TREELOCK_WAIT_OFFSET"] by (cases "treelock n > 0") (simp_all add: wait_mark_def fun_upd_idem)
    qed
  qed
  then show "same_tree f g" "fmem g = fmem f" ?P by blast+
qed

lemma unlock_wnode_ok:
  assumes "case w of None \<Rightarrow> True | Some w \<Rightarrow> node_at g w \<noteq> None \<and> lck g w = TREELOCK_WRITE"
  shows "\<exists>h. unlock_wnode w g = Some h \<and> same_tree g h \<and> lck h = (case w of None \<Rightarrow> lck g | Some w \<Rightarrow> (lck g)(w := 0))"
proof (cases w)
  case (Some w')
  then obtain n where n: "node_at g w' = Some n" "treelock n = TREELOCK_WRITE" using assms by (auto simp: lck_def)
  then show ?thesis using Some set_treelock [OF n(1), of 0] by (simp add: unlock_wnode_def)
qed (simp add: unlock_wnode_def)

section \<open>Properties\<close>

text \<open>The path of a request: of the node, followed by a name in it.\<close>

definition full_path :: "fuse \<Rightarrow> nat list \<Rightarrow> u8 list option \<Rightarrow> u8 list" where
  "full_path f as name = branch_path f as @ (case name of None \<Rightarrow> [] | Some nm \<Rightarrow> 47 # nm)"

text \<open>The locks a request takes.\<close>

definition take_locks :: "nat list \<Rightarrow> nat option \<Rightarrow> (nat \<Rightarrow> int) \<Rightarrow> nat \<Rightarrow> int" where
  "take_locks as w l c = (if w = Some c then TREELOCK_WRITE else l c + (if c \<in> set as then 1 else 0))"

lemma holds_buf_init: "holds buf_init []"
  by (simp add: holds_def buf_init_def)

lemma buf_path_holds: "holds b p \<Longrightarrow> 0 \<notin> set p \<Longrightarrow> buf_path b = (if p = [] then [47] else p)"
  by (simp add: buf_path_def holds_def c_str_append_nul c_str_no_nul Let_def c_simps)

lemma first_name:
  assumes "length (case name of None \<Rightarrow> [] | Some nm \<Rightarrow> 47 # nm) + 1 \<le> 0xffffffff"
  shows "\<exists>r mem'. (case name of None \<Rightarrow> Some (Some buf_init, mem) | Some nm \<Rightarrow> add_name buf_init nm mem) = Some (r, mem') \<and>
    set mem' \<subseteq> set mem \<and>
    (case r of Some b \<Rightarrow> holds b (case name of None \<Rightarrow> [] | Some nm \<Rightarrow> 47 # nm) | None \<Rightarrow> False \<in> set mem)"
proof (cases name)
  case (Some nm)
  from add_name_ok [OF holds_buf_init, of nm mem, unfolded append_Nil2] assms Some obtain r mem' where
    r: "add_name buf_init nm mem = Some (r, mem')"
      "case r of Some b' \<Rightarrow> holds b' (47 # nm) | None \<Rightarrow> ppos buf_init \<le> length nm \<and> \<not> fst (alloc mem)"
    by (auto simp: append_Nil2)
  have "set mem' \<subseteq> set mem" using r(1) alloc_subset [of mem]
    by (auto simp: add_name_def split: if_splits option.splits prod.splits)
  with r Some alloc_fails [of mem] show ?thesis by (auto split: option.splits)
qed (simp add: holds_buf_init)

text \<open>Undoing a partial attempt.\<close>

lemma undo_walk:
  assumes "climb f a as e" and "at_end f e" and "walked f as k g" and "get_node f ino = Some a"
    and "\<forall>c. w = Some c \<longrightarrow> c \<notin> set as"
    and "case w of None \<Rightarrow> True | Some w \<Rightarrow> node_at g w \<noteq> None \<and> lck f w = TREELOCK_WRITE"
    and "end_node = Some ((as @ [e]) ! k) \<or> end_node = None \<and> k = length as \<and> at_root f e"
  shows "\<exists>h. unlock_path ino w end_node g = Some h \<and> same_tree f h \<and> lck h = (case w of None \<Rightarrow> lck f | Some w \<Rightarrow> (lck f)(w := 0))"
proof -
  have g: "k \<le> length as" "same_tree f g" "lck g = (\<lambda>c. lck f c + (if c \<in> set (take k as) then 1 else 0))"
    "\<forall>c\<in>set (take k as). 0 \<le> lck f c" using assms(3) by (auto simp: walked_def)
  have wk: "w = Some c \<Longrightarrow> c \<notin> set (take k as)" for c using assms(5,6) by (auto dest: in_set_takeD)
  have "case w of None \<Rightarrow> True | Some w \<Rightarrow> node_at g w \<noteq> None \<and> lck g w = TREELOCK_WRITE"
    using assms(6) wk g(3) by (auto split: option.splits)
  from unlock_wnode_ok [OF this] obtain h1 where
    h1: "unlock_wnode w g = Some h1" "same_tree g h1" "lck h1 = (case w of None \<Rightarrow> lck g | Some w \<Rightarrow> (lck g)(w := 0))" by blast
  note st = same_tree_trans [OF g(2) h1(2)]
  have "get_node h1 ino = Some a" using same_tree_get_node [OF st] assms(4) by simp
  have c1: "climb h1 a as e" "at_end h1 e" "at_root h1 e = at_root f e"
    using climb_cong [OF st] assms(1,2) by (simp_all add: at_end_def at_root_def same_tree_keys [OF st])
  have eq: "lck h1 c = lck f c + 1" "0 \<le> lck f c" if "c \<in> set (take k as)" for c
    using that wk g(3,4) h1(3) by (auto split: option.splits)
  have rl: "\<forall>c\<in>set (take k as). read_locked (lck h1 c)"
  proof
    fix c assume "c \<in> set (take k as)"
    from eq [OF this] show "read_locked (lck h1 c)"
      by (simp add: read_locked_def TREELOCK_WAIT_OFFSET_def TREELOCK_WRITE_def)
  qed
  obtain h where h: "unlock_loop (Some a) end_node h1 = Some h" "same_tree h1 h"
    "lck h = (\<lambda>c. if c \<in> set (take k as) then dec_lock (lck h1 c) else lck h1 c)"
    using unlock_loop_ok [OF c1(1,2) g(1) rl] assms(7) c1(3) by blast
  have "dec_lock (lck h1 c) = lck f c" if "c \<in> set (take k as)" for c
    using eq [OF that] by (simp add: dec_lock_def TREELOCK_WAIT_OFFSET_def)
  then have "lck h = (case w of None \<Rightarrow> lck f | Some w \<Rightarrow> (lck f)(w := 0))"
    using h(3) h1(3) g(3) wk by (auto simp: fun_eq_iff split: option.splits)
  then show ?thesis using h1(1) h(1) \<open>get_node h1 ino = Some a\<close> same_tree_trans [OF st h(2)] by (simp add: unlock_path_def)
qed

text \<open>What an attempt does to the locks.\<close>

definition path_outcome :: "u64 \<Rightarrow> u8 list option \<Rightarrow> bool \<Rightarrow> nat list \<Rightarrow> fuse \<Rightarrow> path_result \<Rightarrow> fuse \<Rightarrow> bool" where
  "path_outcome ino name wr as f r g \<longleftrightarrow>
    (case r of
       Inr (path, w) \<Rightarrow> path = (if full_path f as name = [] then [47] else full_path f as name) \<and> w = entry_of wr ino name f \<and>
         (\<forall>c\<in>set as. 0 \<le> lck f c) \<and> (\<forall>c. w = Some c \<longrightarrow> lck f c = 0) \<and> lck g = take_locks as w (lck f) \<and>
         set (fmem g) \<subseteq> set (fmem f)
     | Inl err \<Rightarrow>
         (err = - ENOMEM \<and> False \<in> set (fmem f) \<and> lck g = lck f) \<or>
         (err = - EAGAIN \<and> (\<exists>c\<in>set as. lck f c < 0) \<and> lck g = lck f) \<or>
         (err = - EAGAIN \<and> (\<exists>w. entry_of wr ino name f = Some w \<and> lck f w \<noteq> 0 \<and> lck g = (lck f)(w := wait_mark (lck f w)))))"

lemma path_outcome_walk:
  assumes "get_node f ino = Some a" and "climb f a as e" and "at_root f e" and "0 \<notin> set (full_path f as name)"
    and "length (full_path f as name) + 1 \<le> 0xffffffff" and "same_tree f f1" and "set (fmem f1) \<subseteq> set (fmem f)"
    and "w = entry_of wr ino name f" and "\<forall>c. w = Some c \<longrightarrow> c \<notin> set as"
    and w: "case w of None \<Rightarrow> lck f1 = lck f | Some w \<Rightarrow> lck f w = 0 \<and> node_at f1 w \<noteq> None \<and> lck f1 = (lck f)(w := TREELOCK_WRITE)"
    and "holds b (case name of None \<Rightarrow> [] | Some nm \<Rightarrow> 47 # nm)"
  shows "\<exists>r g. (case climb_loop True a b f1 of
      None \<Rightarrow> None | Some (Inr b', _, f2) \<Rightarrow> Some (Inr (buf_path b', w), f2)
    | Some (Inl e, node, f2) \<Rightarrow> map_option (Pair (Inl e)) (unlock_path ino w (Some node) f2)) = Some (r, g) \<and>
    same_tree f g \<and> path_outcome ino name wr as f r g"
proof -
  note st1 = assms(6)
  have same: "lck f1 c = lck f c" if "c \<in> set as" for c using that w assms(9) by (auto split: option.splits)
  have f1: "get_node f1 ino = Some a" "climb f1 a as e" "at_root f1 e" "branch_path f1 as = branch_path f as"
    using same_tree_get_node [OF st1] climb_cong [OF st1] branch_path_cong [OF st1] assms(1-3)
    by (simp_all add: at_root_def same_tree_keys [OF st1])
  then have end1: "at_end f1 e" by (auto simp: at_end_def at_root_def)
  have "length (branch_path f1 as) + length (case name of None \<Rightarrow> [] | Some nm \<Rightarrow> 47 # nm) + 1 \<le> 0xffffffff"
    using assms(5) f1(4) by (simp add: full_path_def)
  from climb_loop_ok [OF f1(2) end1 assms(11) this] obtain r' k g where
    g: "climb_loop True a b f1 = Some (r', (as @ [e]) ! k, g)" "walked f1 as k g"
      "case r' of Inr b' \<Rightarrow> k = length as \<and> at_root f1 e \<and> holds b' (full_path f as name) | Inl err \<Rightarrow> climb_error f1 as e k err"
    unfolding f1(4) full_path_def by blast
  show ?thesis
  proof (cases r')
    case (Inr b')
    then have "k = length as" and b': "holds b' (full_path f as name)" using g(3) by simp_all
    then have lg: "lck g = (\<lambda>c. lck f1 c + (if c \<in> set as then 1 else 0))" "\<forall>c\<in>set as. 0 \<le> lck f c"
      using g(2) same by (simp_all add: walked_def)
    have "lck g = take_locks as w (lck f)"
      using lg(1) w assms(9) by (auto simp: fun_eq_iff take_locks_def split: option.splits)
    moreover have "\<forall>c. w = Some c \<longrightarrow> lck f c = 0" using w by auto
    moreover have "set (fmem g) \<subseteq> set (fmem f)" using g(2) assms(7) by (auto simp: walked_def)
    ultimately have "path_outcome ino name wr as f (Inr (buf_path b', w)) g"
      using lg(2) assms(8) buf_path_holds [OF b' assms(4)] by (simp add: path_outcome_def)
    moreover have "same_tree f g" using g(2) st1 by (auto simp: walked_def intro: same_tree_trans)
    ultimately show ?thesis using g(1) Inr by auto
  next
    case (Inl err)
    have "case w of None \<Rightarrow> True | Some w \<Rightarrow> node_at g w \<noteq> None \<and> lck f1 w = TREELOCK_WRITE"
      using w g(2) by (auto simp: walked_def split: option.splits elim: same_tree_node)
    from undo_walk [OF f1(2) end1 g(2) f1(1) assms(9) this] obtain h where
      h: "unlock_path ino w (Some ((as @ [e]) ! k)) g = Some h" "same_tree f1 h"
        "lck h = (case w of None \<Rightarrow> lck f1 | Some w \<Rightarrow> (lck f1)(w := 0))" by blast
    have "lck h = lck f" using h(3) w by (auto simp: fun_eq_iff split: option.splits)
    moreover have "climb_error f1 as e k err" using g(3) Inl by simp
    ultimately have "path_outcome ino name wr as f (Inl err) h"
      using f1(3) same assms(7) by (auto simp: climb_error_def path_outcome_def)
    then show ?thesis using g(1) Inl h(1) same_tree_trans [OF st1 h(2)] by auto
  qed
qed

lemma try_get_path_ok:
  assumes "get_node f ino = Some a" and "climb f a as e" and "at_root f e" and "0 \<notin> set (full_path f as name)"
    and "length (full_path f as name) + 1 \<le> 0xffffffff" and "\<forall>w. entry_of wr ino name f = Some w \<longrightarrow> w \<notin> set as"
  shows "\<exists>r g. try_get_path ino name wr True f = Some (r, g) \<and> same_tree f g \<and> path_outcome ino name wr as f r g"
proof -
  have err: ?thesis if "try_get_path ino name wr True f = Some (Inl (- ENOMEM), f\<lparr>fmem := m\<rparr>)" "False \<in> set (fmem f)" for m
    using that by (intro exI [of _ "Inl (- ENOMEM)"] exI [of _ "f\<lparr>fmem := m\<rparr>"]) (simp add: path_outcome_def)
  let ?nm = "case name of None \<Rightarrow> [] | Some nm \<Rightarrow> 47 # nm"
  obtain ok mem where al: "alloc (fmem f) = (ok, mem)" by fastforce
  have sub: "set mem \<subseteq> set (fmem f)" using alloc_subset [of "fmem f"] al by simp
  have "length ?nm + 1 \<le> 0xffffffff" using assms(5) by (simp add: full_path_def)
  from first_name [OF this, of mem] obtain r mem' where
    r: "(case name of None \<Rightarrow> Some (Some buf_init, mem) | Some nm \<Rightarrow> add_name buf_init nm mem) = Some (r, mem')"
      "set mem' \<subseteq> set mem" "case r of Some b \<Rightarrow> holds b ?nm | None \<Rightarrow> False \<in> set mem" by blast
  let ?f0 = "f\<lparr>fmem := mem'\<rparr>"
  consider "\<not> ok" | "ok" "r = None" | b where "ok" "r = Some b" by (cases r) auto
  then show ?thesis
  proof cases
    case 1
    then show ?thesis using al alloc_fails [of "fmem f"] by (intro err [of mem]) (auto simp: try_get_path_def)
  next
    case 2
    then show ?thesis using al r sub by (intro err [of mem']) (auto simp: try_get_path_def)
  next
    case (3 b)
    obtain rw f1 where lw: "lock_wnode wr ino name ?f0 = (rw, f1)" by fastforce
    note lo = lock_wnode_ok [OF lw]
    have st1: "same_tree f f1" by (rule same_tree_trans [OF same_tree_mem lo(1)])
    have ent: "entry_of wr ino name ?f0 = entry_of wr ino name f"
      using same_tree_lookup_node [OF same_tree_mem [of f mem']] by (cases wr; cases name) (simp_all add: entry_of_def)
    note out = lo(3) [unfolded ent lck_mem]
    show ?thesis
    proof (cases rw)
      case (Inl e')
      then have "try_get_path ino name wr True f = Some (Inl e', f1)" using al 3 r(1) lw by (simp add: try_get_path_def)
      moreover have "path_outcome ino name wr as f (Inl e') f1" using out Inl by (simp add: path_outcome_def)
      ultimately show ?thesis using st1 by blast
    next
      case (Inr w)
      have "try_get_path ino name wr True f = (case climb_loop True a b f1 of
          None \<Rightarrow> None | Some (Inr b', _, f2) \<Rightarrow> Some (Inr (buf_path b', w), f2)
        | Some (Inl e, node, f2) \<Rightarrow> map_option (Pair (Inl e)) (unlock_path ino w (Some node) f2))"
        using al 3 r(1) lw Inr same_tree_get_node [OF st1] assms(1) by (auto simp: try_get_path_def split: option.split sum.split)
      moreover have "w = entry_of wr ino name f" "\<forall>c. w = Some c \<longrightarrow> c \<notin> set as" "set (fmem f1) \<subseteq> set (fmem f)" "holds b ?nm"
        using out Inr assms(6) lo(2) r(2,3) sub 3 by auto
      ultimately show ?thesis
        using path_outcome_walk [OF assms(1-5) st1 _ _ _ _ , of w wr b] out Inr by simp
    qed
  qed
qed

text \<open>
  C24: \<^verbatim>\<open>try_get_path\<close> on a node below the root always returns. If it succeeds, the path is the
  names of the ancestors from the root down, each after a slash (and a slash alone for the root),
  and exactly the node and its ancestors are read-locked once more and the entry write-locked, none
  of which was locked otherwise. If it fails, every lock is as before, except that a read-locked
  entry is marked as waited for; \<^verbatim>\<open>EAGAIN\<close> means that a lock is in the way, \<^verbatim>\<open>ENOMEM\<close> that
  an allocation failed.
\<close>

theorem try_get_path_correct:
  assumes "get_node f ino = Some a" and "climb f a as e" and "at_root f e" and "0 \<notin> set (full_path f as name)"
    and "length (full_path f as name) + 1 \<le> 0xffffffff" and "\<forall>w. entry_of wr ino name f = Some w \<longrightarrow> w \<notin> set as"
  shows "\<exists>r g. try_get_path ino name wr True f = Some (r, g) \<and> same_tree f g \<and>
    (case r of
       Inr (path, w) \<Rightarrow> path = (if full_path f as name = [] then [47] else full_path f as name) \<and> w = entry_of wr ino name f \<and>
         (\<forall>c\<in>set as. 0 \<le> lck f c) \<and> (\<forall>c. w = Some c \<longrightarrow> lck f c = 0) \<and> lck g = take_locks as w (lck f)
     | Inl err \<Rightarrow>
         (err = - ENOMEM \<and> False \<in> set (fmem f) \<and> lck g = lck f) \<or>
         (err = - EAGAIN \<and> (\<exists>c\<in>set as. lck f c < 0) \<and> lck g = lck f) \<or>
         (err = - EAGAIN \<and> (\<exists>w. entry_of wr ino name f = Some w \<and> lck f w \<noteq> 0 \<and> lck g = (lck f)(w := wait_mark (lck f w)))))"
proof -
  obtain r g where "try_get_path ino name wr True f = Some (r, g)" "same_tree f g" "path_outcome ino name wr as f r g"
    using try_get_path_ok [OF assms] by blast
  then show ?thesis by (intro exI [of _ r] exI [of _ g]) (cases r; auto simp: path_outcome_def)
qed

text \<open>Releasing what a request holds.\<close>

lemma unlock_path_ok:
  assumes "get_node g ino = Some a" and "climb g a as e" and "at_root g e" and "\<forall>c. w = Some c \<longrightarrow> c \<notin> set as"
    and "case w of None \<Rightarrow> True | Some w \<Rightarrow> node_at g w \<noteq> None \<and> lck g w = TREELOCK_WRITE"
    and "\<forall>c\<in>set as. read_locked (lck g c)"
  shows "\<exists>h. unlock_path ino w None g = Some h \<and> same_tree g h \<and>
    lck h = (\<lambda>c. if w = Some c then 0 else if c \<in> set as then dec_lock (lck g c) else lck g c)"
proof -
  from unlock_wnode_ok [OF assms(5)] obtain h1 where
    h1: "unlock_wnode w g = Some h1" "same_tree g h1" "lck h1 = (case w of None \<Rightarrow> lck g | Some w \<Rightarrow> (lck g)(w := 0))" by blast
  note st = h1(2)
  have c1: "climb h1 a as e" "at_root h1 e" "get_node h1 ino = Some a"
    using climb_cong [OF st] same_tree_get_node [OF st] assms(1-3) by (simp_all add: at_root_def same_tree_keys [OF st])
  then have end1: "at_end h1 e" by (auto simp: at_end_def at_root_def)
  have same: "lck h1 c = lck g c" if "c \<in> set as" for c using that h1(3) assms(4) by (auto split: option.splits)
  have rl: "\<forall>c\<in>set (take (length as) as). read_locked (lck h1 c)" using assms(6) same by simp
  from unlock_loop_ok [OF c1(1) end1 le_refl rl] c1(2) obtain h where
    h: "unlock_loop (Some a) None h1 = Some h" "same_tree h1 h"
      "lck h = (\<lambda>c. if c \<in> set as then dec_lock (lck h1 c) else lck h1 c)" by auto
  have "lck h = (\<lambda>c. if w = Some c then 0 else if c \<in> set as then dec_lock (lck g c) else lck g c)"
    using h(3) h1(3) same assms(4) by (auto simp: fun_eq_iff split: option.splits)
  with h h1(1) c1(3) same_tree_trans [OF st h(2)] show ?thesis by (simp add: unlock_path_def)
qed

text \<open>
  Getting a path and releasing it again leaves every lock and the tree exactly as they were.
\<close>

theorem get_release_round_trip:
  assumes "get_node f ino = Some a" and "climb f a as e" and "at_root f e" and "0 \<notin> set (full_path f as name)"
    and "length (full_path f as name) + 1 \<le> 0xffffffff" and "\<forall>w. entry_of wr ino name f = Some w \<longrightarrow> w \<notin> set as"
    and "try_get_path ino name wr True f = Some (Inr (path, w), g)"
  shows "\<exists>h. unlock_path ino w None g = Some h \<and> same_tree f h \<and> lck h = lck f"
proof -
  from try_get_path_ok [OF assms(1-6)] assms(7) have st: "same_tree f g" and "path_outcome ino name wr as f (Inr (path, w)) g" by auto
  then have w: "w = entry_of wr ino name f" "\<forall>c\<in>set as. 0 \<le> lck f c" "\<forall>c. w = Some c \<longrightarrow> lck f c = 0" "lck g = take_locks as w (lck f)"
    by (simp_all add: path_outcome_def)
  have was: "\<forall>c. w = Some c \<longrightarrow> c \<notin> set as" using assms(6) w(1) by simp
  have ex: "node_at g c \<noteq> None" if "w = Some c" for c
  proof -
    have "node_at f c \<noteq> None" using that w(1) lookup_node_exists by (auto simp: entry_of_def split: bool.splits option.splits)
    then show ?thesis using st by (auto elim: same_tree_node)
  qed
  have lg: "lck g c = lck f c + 1" if "c \<in> set as" for c using that w(4) was by (auto simp: take_locks_def)
  have rl: "\<forall>c\<in>set as. read_locked (lck g c)"
  proof
    fix c assume "c \<in> set as"
    with lg w(2) show "read_locked (lck g c)" by (auto simp: read_locked_def TREELOCK_WAIT_OFFSET_def TREELOCK_WRITE_def)
  qed
  have wl: "case w of None \<Rightarrow> True | Some w \<Rightarrow> node_at g w \<noteq> None \<and> lck g w = TREELOCK_WRITE"
    using ex w(4) by (auto simp: take_locks_def split: option.splits)
  have "get_node g ino = Some a" "climb g a as e" "at_root g e"
    using same_tree_get_node [OF st] climb_cong [OF st] assms(1-3) by (simp_all add: at_root_def same_tree_keys [OF st])
  from unlock_path_ok [OF this was wl rl] obtain h where h: "unlock_path ino w None g = Some h" "same_tree g h"
    "lck h = (\<lambda>c. if w = Some c then 0 else if c \<in> set as then dec_lock (lck g c) else lck g c)" by blast
  have "lck h c = lck f c" for c
  proof (cases "c \<in> set as")
    case True
    with was lg [OF True] w(2) h(3) show ?thesis by (auto simp: dec_lock_def TREELOCK_WAIT_OFFSET_def)
  qed (use h(3) w(3,4) in \<open>auto simp: take_locks_def\<close>)
  then show ?thesis using h(1) same_tree_trans [OF st h(2)] by (intro exI [of _ h]) (simp add: fun_eq_iff)
qed

text \<open>For the witnesses: the tree with a file, all locks free.\<close>

definition demo_tree :: fuse where
  "demo_tree = demo_fuse\<lparr>nodes := map (map_option unlocked) (nodes demo_fuse), fmem := []\<rparr>"

lemma demo_tree_ok:
  obtains a i where "get_node demo_tree ROOT_ID = Some 0" "get_node demo_tree i = Some a" "lookup_node demo_tree ROOT_ID [97] = Some a"
    "keys demo_tree = [0 \<mapsto> (ROOT_ID, None, Some [47]), a \<mapsto> (i, Some 0, Some [97])]" "a \<noteq> 0" "i \<noteq> ROOT_ID"
    "\<forall>c. lck demo_tree c = 0" "fmem demo_tree = []"
proof -
  obtain a i where d: "keys demo_fuse = [0 \<mapsto> (ROOT_ID, None, Some [47]), a \<mapsto> (i, Some 0, Some [97])]" "a \<noteq> 0" "i \<noteq> ROOT_ID"
    "get_node demo_fuse ROOT_ID = Some 0" "get_node demo_fuse i = Some a" "lookup_node demo_fuse ROOT_ID [97] = Some a"
    by (rule demo_fuse_ok)
  have at: "node_at demo_tree c = map_option unlocked (node_at demo_fuse c)" for c
    by (auto simp: node_at_def demo_tree_def)
  then have st: "same_tree demo_fuse demo_tree"
    by (simp add: same_tree_def option.map_comp o_def) (simp add: demo_tree_def)
  have "lck demo_tree c = 0" for c by (simp add: lck_def at unlocked_def split: option.splits)
  moreover have "fmem demo_tree = []" by (simp add: demo_tree_def)
  ultimately show thesis
    using that [of i a] d same_tree_keys [OF st] same_tree_get_node [OF st] same_tree_lookup_node [OF st] by simp
qed

lemma demo_tree_file:
  obtains a i where "get_node demo_tree i = Some a" "climb demo_tree a [a] 0" "at_root demo_tree 0" "branch_path demo_tree [a] = [47, 97]"
proof -
  obtain a i where "get_node demo_tree i = Some a" "a \<noteq> 0" "i \<noteq> ROOT_ID"
    "keys demo_tree = [0 \<mapsto> (ROOT_ID, None, Some [47]), a \<mapsto> (i, Some 0, Some [97])]"
    by (rule demo_tree_ok)
  then show thesis using that [of i a] by (simp add: at_root_def)
qed

theorem try_get_path_correct_witness:
  "\<exists>i a r g. get_node demo_tree i = Some a \<and> try_get_path i None False True demo_tree = Some (r, g) \<and>
    (\<forall>p w. r = Inr (p, w) \<longrightarrow> p = [47, 97])"
proof -
  obtain a i where d: "get_node demo_tree i = Some a" "climb demo_tree a [a] 0" "at_root demo_tree 0" "branch_path demo_tree [a] = [47, 97]"
    by (rule demo_tree_file)
  have "full_path demo_tree [a] None = [47, 97]" using d(4) by (simp add: full_path_def)
  with try_get_path_correct [OF d(1-3), of None False] obtain r g where
    "try_get_path i None False True demo_tree = Some (r, g)" "\<forall>p w. r = Inr (p, w) \<longrightarrow> p = [47, 97]"
    by (fastforce simp: entry_of_def)
  with d(1) show ?thesis by blast
qed

theorem get_release_round_trip_witness:
  "\<exists>i a. get_node demo_tree i = Some a \<and> (\<forall>path w g. try_get_path i None False True demo_tree = Some (Inr (path, w), g) \<longrightarrow>
    (\<exists>h. unlock_path i w None g = Some h \<and> lck h = lck demo_tree))"
proof -
  obtain a i where d: "get_node demo_tree i = Some a" "climb demo_tree a [a] 0" "at_root demo_tree 0" "branch_path demo_tree [a] = [47, 97]"
    by (rule demo_tree_file)
  have "full_path demo_tree [a] None = [47, 97]" using d(4) by (simp add: full_path_def)
  then have "\<exists>h. unlock_path i w None g = Some h \<and> lck h = lck demo_tree"
    if "try_get_path i None False True demo_tree = Some (Inr (path, w), g)" for path w g
    using get_release_round_trip [OF d(1-3) _ _ _ that] by (auto simp: entry_of_def)
  with d(1) show ?thesis by blast
qed

end
