(* ===== verification/LockMachine.thy ===== *)
theory LockMachine
  imports PathLock
begin

text \<open>
  Concurrent requests as a transition system over the tree locks of \<^verbatim>\<open>lib/fuse.c\<close>: attempts to get
  a path, successful or not, and releases, in any order, on a tree that does not change meanwhile.
  A request that holds locks is its node number, the nodes it has read-locked and the entry it has
  write-locked.
\<close>

type_synonym grant = "u64 \<times> nat list \<times> nat option"

definition readers :: "grant list \<Rightarrow> nat \<Rightarrow> nat" where
  "readers G c = length (filter (\<lambda>(_, as, _). c \<in> set as) G)"

definition writers :: "grant list \<Rightarrow> nat \<Rightarrow> nat" where
  "writers G c = length (filter (\<lambda>(_, _, w). w = Some c) G)"

text \<open>What a request may ask for: a node below the root and a path of less than 4 GiB.\<close>

definition valid_request :: "fuse \<Rightarrow> u64 \<Rightarrow> u8 list option \<Rightarrow> bool \<Rightarrow> nat list \<Rightarrow> bool" where
  "valid_request f ino name wr as \<longleftrightarrow> (\<exists>a e. get_node f ino = Some a \<and> climb f a as e \<and> at_root f e) \<and>
     0 \<notin> set (full_path f as name) \<and> length (full_path f as name) + 1 \<le> 0xffffffff"

text \<open>The bound on the number of requests at a time is that of the counter, a 32-bit \<^verbatim>\<open>int\<close>.\<close>

inductive lock_step :: "grant list \<times> fuse \<Rightarrow> grant list \<times> fuse \<Rightarrow> bool" where
  get: "valid_request f ino name wr as \<Longrightarrow> length G < 2147483646 \<Longrightarrow>
    try_get_path ino name wr True f = Some (Inr (path, w), g) \<Longrightarrow> lock_step (G, f) ((ino, as, w) # G, g)"
| busy: "valid_request f ino name wr as \<Longrightarrow> length G < 2147483646 \<Longrightarrow>
    try_get_path ino name wr True f = Some (Inl err, g) \<Longrightarrow> lock_step (G, f) (G, g)"
| release: "(ino, as, w) \<in> set G \<Longrightarrow> unlock_path ino w None f = Some g \<Longrightarrow> lock_step (G, f) (remove1 (ino, as, w) G, g)"

text \<open>The tree is one that the operations on the node table keep well formed, with no lock taken at the start.\<close>

inductive reachable :: "fuse \<Rightarrow> grant list \<times> fuse \<Rightarrow> bool" for f0 where
  start: "inv {} None f0 \<Longrightarrow> \<forall>c. lck f0 c = 0 \<Longrightarrow> reachable f0 ([], f0)"
| step: "reachable f0 s \<Longrightarrow> lock_step s t \<Longrightarrow> reachable f0 t"

text \<open>The lock of a node says who holds it.\<close>

definition lock_ok :: "grant list \<Rightarrow> int \<Rightarrow> nat \<Rightarrow> bool" where
  "lock_ok G t c \<longleftrightarrow>
     (writers G c = 0 \<and> (t = int (readers G c) \<or> 0 < readers G c \<and> t = int (readers G c) + TREELOCK_WAIT_OFFSET)) \<or>
     (writers G c = 1 \<and> readers G c = 0 \<and> t = TREELOCK_WRITE)"

definition grant_ok :: "fuse \<Rightarrow> grant \<Rightarrow> bool" where
  "grant_ok f g \<longleftrightarrow> (case g of (ino, as, w) \<Rightarrow>
     (\<exists>a e. get_node f ino = Some a \<and> climb f a as e \<and> at_root f e) \<and>
     (\<forall>c. w = Some c \<longrightarrow> c \<notin> set as \<and> node_at f c \<noteq> None))"

definition locks_inv :: "fuse \<Rightarrow> grant list \<times> fuse \<Rightarrow> bool" where
  "locks_inv f0 s \<longleftrightarrow> (case s of (G, f) \<Rightarrow>
     inv {} None f0 \<and> same_tree f0 f \<and> length G < 2147483647 \<and> (\<forall>g\<in>set G. grant_ok f g) \<and> (\<forall>c. lock_ok G (lck f c) c))"

lemma counts_Cons [simp]:
  "readers ((i, as, w) # G) c = (if c \<in> set as then 1 else 0) + readers G c"
  "writers ((i, as, w) # G) c = (if w = Some c then 1 else 0) + writers G c"
  by (auto simp: readers_def writers_def)

lemma counts_remove1:
  assumes "(i, as, w) \<in> set G"
  shows "readers G c = (if c \<in> set as then 1 else 0) + readers (remove1 (i, as, w) G) c"
    and "writers G c = (if w = Some c then 1 else 0) + writers (remove1 (i, as, w) G) c"
proof -
  have "mset G = mset ((i, as, w) # remove1 (i, as, w) G)" using assms by simp
  then have "mset (filter P G) = mset (filter P ((i, as, w) # remove1 (i, as, w) G))" for P by (simp only: mset_filter)
  then have "length (filter P G) = length (filter P ((i, as, w) # remove1 (i, as, w) G))" for P by (metis size_mset)
  then show "readers G c = (if c \<in> set as then 1 else 0) + readers (remove1 (i, as, w) G) c"
    "writers G c = (if w = Some c then 1 else 0) + writers (remove1 (i, as, w) G) c"
    using counts_Cons [of i as w "remove1 (i, as, w) G" c] unfolding readers_def writers_def by simp_all
qed

lemma readers_le: "readers G c \<le> length G"
  by (simp add: readers_def)

lemma same_tree_exists: "same_tree f g \<Longrightarrow> node_at f c \<noteq> None \<Longrightarrow> node_at g c \<noteq> None"
  by (metis keys_NoneD same_tree_keys)

lemma grant_ok_cong: "same_tree f g \<Longrightarrow> grant_ok f x \<Longrightarrow> grant_ok g x"
  unfolding grant_ok_def
  using same_tree_get_node [of f g] climb_cong [of f g] same_tree_keys [of f g] same_tree_exists [of f g]
  by (auto simp: at_root_def)

text \<open>What the lock of a node allows.\<close>

lemma lock_ok_free: "lock_ok G 0 c \<Longrightarrow> length G < 2147483647 \<Longrightarrow> readers G c = 0 \<and> writers G c = 0"
  using readers_le [of G c] by (auto simp: lock_ok_def TREELOCK_WAIT_OFFSET_def TREELOCK_WRITE_def)

lemma lock_ok_readable: "lock_ok G t c \<Longrightarrow> 0 \<le> t \<Longrightarrow> length G < 2147483647 \<Longrightarrow> writers G c = 0 \<and> t = int (readers G c)"
  using readers_le [of G c] by (auto simp: lock_ok_def TREELOCK_WAIT_OFFSET_def TREELOCK_WRITE_def)

lemma lock_ok_read:
  assumes "lock_ok G t c" and "0 < readers G c" and "length G < 2147483647"
  shows "read_locked t" and "writers G c = 0"
    and "dec_lock t = int (readers G c - 1) \<or> 0 < readers G c - 1 \<and> dec_lock t = int (readers G c - 1) + TREELOCK_WAIT_OFFSET"
  using assms readers_le [of G c]
  by (auto simp: lock_ok_def read_locked_def dec_lock_def TREELOCK_WAIT_OFFSET_def TREELOCK_WRITE_def of_nat_diff)

lemma lock_ok_mark: "lock_ok G t c \<Longrightarrow> length G < 2147483647 \<Longrightarrow> lock_ok G (wait_mark t) c"
  using readers_le [of G c] by (auto simp: lock_ok_def wait_mark_def TREELOCK_WAIT_OFFSET_def TREELOCK_WRITE_def)

text \<open>
  An entry of a directory is not on the way from the directory to the root: going up from it one
  comes back to the directory, so the way would be longer than itself.
\<close>

lemma entry_not_ancestor:
  assumes "inv {} None f0" and "same_tree f0 f" and "get_node f ino = Some a" and "climb f a as e" and "at_root f e"
    and "entry_of wr ino name f = Some w"
  shows "w \<notin> set as"
proof
  assume "w \<in> set as"
  from climb_from_member [OF assms(4) this] obtain bs where bs: "climb f w (w # bs) e" "length bs < length as" by blast
  from bs(1) obtain i p nm where p: "keys f w = Some (i, Some p, Some nm)" "climb f p bs e" by auto
  have K: "keys f = keys f0" by (rule same_tree_keys [OF assms(2)])
  obtain name' where "lookup_node f0 ino name' = Some w"
    using assms(6) same_tree_lookup_node [OF assms(2)] by (auto simp: entry_of_def split: bool.splits option.splits)
  then have "entry (keys f) ino name' w" using lookup_node_inv [OF assms(1)] K by simp
  with p(1) obtain k where "keys f p = Some (ino, k)" by (auto simp: entry_def)
  then have "get_node f ino = Some p" using get_node_inv [OF assms(1)] same_tree_get_node [OF assms(2)] K by metis
  with assms(3) p(2) have "climb f a bs e" by simp
  moreover have "at_end f e" using assms(5) by (auto simp: at_root_def at_end_def)
  ultimately have "as = bs" using climb_unique [OF assms(4)] by blast
  with bs(2) show False by simp
qed

lemma request_outcome:
  assumes "inv {} None f0" and "same_tree f0 f" and "valid_request f ino name wr as"
    and "try_get_path ino name wr True f = Some (r, g)"
  shows "same_tree f g" and "path_outcome ino name wr as f r g" and "\<forall>w. entry_of wr ino name f = Some w \<longrightarrow> w \<notin> set as"
proof -
  obtain a e where a: "get_node f ino = Some a" "climb f a as e" "at_root f e" "0 \<notin> set (full_path f as name)"
    "length (full_path f as name) + 1 \<le> 0xffffffff" using assms(3) by (auto simp: valid_request_def)
  show not: "\<forall>w. entry_of wr ino name f = Some w \<longrightarrow> w \<notin> set as" using entry_not_ancestor [OF assms(1,2) a(1-3)] by blast
  show "same_tree f g" "path_outcome ino name wr as f r g" using try_get_path_ok [OF a not] assms(4) by auto
qed

lemma get_inv:
  assumes "locks_inv f0 (G, f)" and "valid_request f ino name wr as" and "length G < 2147483646"
    and "try_get_path ino name wr True f = Some (Inr (path, w), g)"
  shows "locks_inv f0 ((ino, as, w) # G, g)"
proof -
  have I0: "inv {} None f0" "same_tree f0 f" using assms(1) by (simp_all add: locks_inv_def)
  note out = request_outcome [OF I0 assms(2,4)]
  have w: "w = entry_of wr ino name f" "\<forall>c\<in>set as. 0 \<le> lck f c" "\<forall>c. w = Some c \<longrightarrow> lck f c = 0" "lck g = take_locks as w (lck f)"
    using out(2) by (simp_all add: path_outcome_def)
  have was: "\<forall>c. w = Some c \<longrightarrow> c \<notin> set as" using out(3) w(1) by simp
  have ex: "node_at f c \<noteq> None" if "w = Some c" for c
    using that w(1) lookup_node_exists by (auto simp: entry_of_def split: bool.splits option.splits)
  have I: "same_tree f0 f" "\<forall>x\<in>set G. grant_ok f x" "\<And>c. lock_ok G (lck f c) c" using assms(1) by (simp_all add: locks_inv_def)
  have "grant_ok f (ino, as, w)" using assms(2) was ex unfolding grant_ok_def valid_request_def by auto
  then have "\<forall>x\<in>set ((ino, as, w) # G). grant_ok g x" using I(2) grant_ok_cong [OF out(1)] by auto
  moreover have "lock_ok ((ino, as, w) # G) (lck g c) c" for c
  proof (cases "w = Some c")
    case True
    then have "readers G c = 0" "writers G c = 0" using lock_ok_free [of G c] I(3) [of c] w(3) assms(3) by auto
    with True was show ?thesis by (simp add: lock_ok_def w(4) take_locks_def)
  next
    case False
    show ?thesis
    proof (cases "c \<in> set as")
      case True
      then have "writers G c = 0" "lck f c = int (readers G c)" using lock_ok_readable [OF I(3) [of c]] w(2) assms(3) by auto
      with True False show ?thesis by (simp add: lock_ok_def w(4) take_locks_def)
    qed (use I(3) [of c] False in \<open>simp add: lock_ok_def w(4) take_locks_def\<close>)
  qed
  ultimately show ?thesis using assms(3) I0(1) same_tree_trans [OF I(1) out(1)] by (simp add: locks_inv_def)
qed

lemma busy_inv:
  assumes "locks_inv f0 (G, f)" and "valid_request f ino name wr as" and "length G < 2147483646"
    and "try_get_path ino name wr True f = Some (Inl err, g)"
  shows "locks_inv f0 (G, g)"
proof -
  have I0: "inv {} None f0" "same_tree f0 f" using assms(1) by (simp_all add: locks_inv_def)
  note out = request_outcome [OF I0 assms(2,4)]
  have I: "same_tree f0 f" "\<forall>x\<in>set G. grant_ok f x" "\<And>c. lock_ok G (lck f c) c" using assms(1) by (simp_all add: locks_inv_def)
  have "lck g = lck f \<or> (\<exists>w. lck g = (lck f)(w := wait_mark (lck f w)))" using out(2) by (auto simp: path_outcome_def)
  then have "lock_ok G (lck g c) c" for c using I(3) [of c] lock_ok_mark [of G "lck f c" c] assms(3) by auto
  then show ?thesis
    using I I0(1) assms(3) grant_ok_cong [OF out(1)] same_tree_trans [OF I(1) out(1)] by (auto simp: locks_inv_def)
qed

lemma release_ok:
  assumes "locks_inv f0 (G, f)" and "(ino, as, w) \<in> set G"
  shows "\<exists>g. unlock_path ino w None f = Some g \<and> locks_inv f0 (remove1 (ino, as, w) G, g)"
proof -
  let ?G = "remove1 (ino, as, w) G"
  note cr = counts_remove1 [OF assms(2)]
  have I0: "inv {} None f0" using assms(1) by (simp add: locks_inv_def)
  have I: "same_tree f0 f" "\<forall>x\<in>set G. grant_ok f x" "\<And>c. lock_ok G (lck f c) c" "length G < 2147483647"
    using assms(1) by (simp_all add: locks_inv_def)
  from I(2) assms(2) obtain a e where a: "get_node f ino = Some a" "climb f a as e" "at_root f e"
    and was: "\<forall>c. w = Some c \<longrightarrow> c \<notin> set as" and ex: "\<forall>c. w = Some c \<longrightarrow> node_at f c \<noteq> None"
    unfolding grant_ok_def by fastforce
  have wl: "case w of None \<Rightarrow> True | Some w \<Rightarrow> node_at f w \<noteq> None \<and> lck f w = TREELOCK_WRITE"
  proof (cases w)
    case (Some c)
    have "lck f c = TREELOCK_WRITE" using I(3) [of c] cr(2) [of c] Some by (auto simp: lock_ok_def)
    with Some ex show ?thesis by simp
  qed simp
  have rd: "0 < readers G c" if "c \<in> set as" for c using cr(1) [of c] that by simp
  have "\<forall>c\<in>set as. read_locked (lck f c)" using lock_ok_read(1) [OF I(3) rd I(4)] by blast
  from unlock_path_ok [OF a was wl this] obtain g where g: "unlock_path ino w None f = Some g" "same_tree f g"
    "lck g = (\<lambda>c. if w = Some c then 0 else if c \<in> set as then dec_lock (lck f c) else lck f c)" by blast
  have "lock_ok ?G (lck g c) c" for c
  proof (cases "w = Some c")
    case True
    then have "writers ?G c = 0" "readers ?G c = 0" using I(3) [of c] cr [of c] by (auto simp: lock_ok_def)
    with True g(3) show ?thesis by (simp add: lock_ok_def)
  next
    case False
    show ?thesis
    proof (cases "c \<in> set as")
      case True
      then show ?thesis using lock_ok_read(2,3) [OF I(3) rd [OF True] I(4)] cr [of c] False g(3) by (auto simp: lock_ok_def)
    qed (use I(3) [of c] cr [of c] False g(3) in \<open>simp add: lock_ok_def\<close>)
  qed
  moreover have "\<forall>x\<in>set ?G. grant_ok g x" using I(2) grant_ok_cong [OF g(2)] set_remove1_subset by fastforce
  moreover have "length ?G < 2147483647" using I(4) by (auto simp: length_remove1)
  ultimately show ?thesis using g(1) I0 same_tree_trans [OF I(1) g(2)] by (auto simp: locks_inv_def)
qed

lemma reachable_inv: "reachable f0 s \<Longrightarrow> locks_inv f0 s"
proof (induction rule: reachable.induct)
  case start
  then show ?case by (simp add: locks_inv_def lock_ok_def readers_def writers_def)
next
  case (step s t)
  from step.hyps(2) step.IH show ?case
  proof cases
    case (release ino as w G f g)
    with release_ok step.IH show ?thesis by fastforce
  qed (use get_inv busy_inv step.IH in blast)+
qed

text \<open>
  C5: Mutual exclusion. Start from a node table that satisfies its invariant, with no lock taken.
  In every state reachable by any interleaving of attempts and releases, a node that a request has
  write-locked is locked by no other request, neither for reading nor for writing, and is not one of
  the nodes on the way to the root that the request itself has read-locked. The last part is not a
  condition of a step: it follows from the shape of the tree.
\<close>

theorem write_lock_exclusive:
  assumes "reachable f0 (G, f)" and "G = G1 @ (ino, as, Some c) # G2" and "(ino', bs, v) \<in> set (G1 @ G2)"
  shows "c \<notin> set as \<and> c \<notin> set bs \<and> v \<noteq> Some c"
proof -
  have I: "locks_inv f0 (G, f)" by (rule reachable_inv [OF assms(1)])
  then have "lock_ok G (lck f c) c" "grant_ok f (ino, as, Some c)" using assms(2) by (simp_all add: locks_inv_def)
  moreover have split: "readers G c = (if c \<in> set as then 1 else 0) + readers (G1 @ G2) c" "writers G c = 1 + writers (G1 @ G2) c"
    unfolding assms(2) by (simp_all add: readers_def writers_def)
  ultimately have "readers (G1 @ G2) c = 0" "writers (G1 @ G2) c = 0" "c \<notin> set as"
    by (auto simp: lock_ok_def grant_ok_def split: if_splits)
  with assms(3) show ?thesis by (auto simp: readers_def writers_def filter_empty_conv)
qed

text \<open>
  C25: No assertion of \<^verbatim>\<open>unlock_path\<close> fails: in every reachable state each request that holds
  locks can release them, and when all have done so every lock is free again.
\<close>

theorem release_never_aborts:
  assumes "reachable f0 (G, f)"
  shows "(\<forall>(ino, as, w)\<in>set G. \<exists>g. unlock_path ino w None f = Some g) \<and> (G = [] \<longrightarrow> lck f = (\<lambda>_. 0))"
proof
  have I: "locks_inv f0 (G, f)" by (rule reachable_inv [OF assms])
  show "\<forall>(ino, as, w)\<in>set G. \<exists>g. unlock_path ino w None f = Some g" using release_ok [OF I] by blast
  show "G = [] \<longrightarrow> lck f = (\<lambda>_. 0)"
    using I by (auto simp: locks_inv_def lock_ok_def readers_def writers_def fun_eq_iff)
qed

text \<open>Locks do not matter for the rest of the table.\<close>

lemma same_tree_sym: "same_tree f g \<Longrightarrow> same_tree g f"
  by (simp add: same_tree_def)

lemma inv_same_tree:
  assumes "inv {} None f" and "same_tree f g" and "locks_ok (keys g) g"
  shows "inv {} None g"
proof -
  note parts = inv_parts [OF assms(1)] and K = same_tree_keys [OF assms(2)]
  have t: "id_table g = id_table f" "name_table g = name_table f" using assms(2) by (simp_all add: same_tree_def)
  have "refs_ok {} None (keys g) g"
    unfolding refs_ok_def
  proof (intro conjI allI impI)
    fix a m assume "node_at g a = Some m"
    from same_tree_node [OF same_tree_sym [OF assms(2)] this] obtain n where
      n: "node_at f a = Some n" "nlookup n = nlookup m" "refctr n = refctr m" by metis
    have "count_ok None (keys f) a n" "0 < refctr n" using parts(3) n(1) by (simp_all add: refs_ok_def)
    with n K show "count_ok None (keys g) a m" "a \<in> {} \<or> 0 < refctr m" by (simp_all add: count_ok_def)
  qed simp
  moreover have "root_ok g"
  proof -
    obtain r n where "node_at f r = Some n" "nodeid n = ROOT_ID" "nlookup n > 0" "parent n = None" using parts(5) by (auto simp: root_ok_def)
    with same_tree_node [OF assms(2), of r n] show ?thesis unfolding root_ok_def by metis
  qed
  ultimately show ?thesis
    using parts(1,2) assms(3) K t by (simp add: inv_def ids_ok_def names_ok_def pending_ok_def)
qed

lemma unlocked_ok: "lck f = (\<lambda>_. 0) \<Longrightarrow> locks_ok K f"
  by (auto simp: locks_ok_def lck_def fun_eq_iff dest: spec split: option.splits)

text \<open>For the witnesses: a request that removes the file, and one for the root beside it.\<close>

lemma demo_request: "valid_request f ROOT_ID name wr []"
  if "get_node f ROOT_ID = Some 0" "at_root f 0" "0 \<notin> set (case name of None \<Rightarrow> [] | Some nm \<Rightarrow> nm)"
    "length (case name of None \<Rightarrow> [] | Some nm \<Rightarrow> nm) \<le> 100"
  using that by (auto simp: valid_request_def full_path_def split: option.splits)

lemma demo_granted:
  assumes "valid_request f ROOT_ID name wr []" and "fmem f = []" and "\<forall>w. entry_of wr ROOT_ID name f = Some w \<longrightarrow> lck f w = 0"
  shows "\<exists>p g. try_get_path ROOT_ID name wr True f = Some (Inr (p, entry_of wr ROOT_ID name f), g) \<and> same_tree f g \<and> fmem g = []"
proof -
  obtain r g where g: "try_get_path ROOT_ID name wr True f = Some (r, g)" "same_tree f g" "path_outcome ROOT_ID name wr [] f r g"
    using assms(1) try_get_path_ok [of f ROOT_ID _ "[]"] unfolding valid_request_def by (metis empty_iff list.set(1))
  then show ?thesis using assms(2,3) by (cases r) (auto simp: path_outcome_def)
qed

lemma demo_tree_inv: "inv {} None demo_tree"
proof -
  have d: "inv {} None demo_fuse" using demo_fuse_ok by metis
  have at: "node_at demo_tree c = map_option unlocked (node_at demo_fuse c)" for c by (auto simp: node_at_def demo_tree_def)
  then have st: "same_tree demo_fuse demo_tree"
    by (simp add: same_tree_def option.map_comp o_def) (simp add: demo_tree_def)
  have "lck demo_tree = (\<lambda>_. 0)" by (auto simp: lck_def at unlocked_def split: option.splits)
  from inv_same_tree [OF d st unlocked_ok [OF this]] show ?thesis .
qed

lemma demo_reachable:
  "\<exists>a f. reachable demo_tree ([(ROOT_ID, [], None), (ROOT_ID, [], Some a)], f)"
proof -
  obtain a i where d: "get_node demo_tree ROOT_ID = Some 0" "lookup_node demo_tree ROOT_ID [97] = Some a"
    "keys demo_tree = [0 \<mapsto> (ROOT_ID, None, Some [47]), a \<mapsto> (i, Some 0, Some [97])]" "a \<noteq> 0"
    "\<forall>c. lck demo_tree c = 0" "fmem demo_tree = []"
    by (rule demo_tree_ok)
  have root: "at_root demo_tree 0" using d(3,4) by (simp add: at_root_def)
  have v1: "valid_request demo_tree ROOT_ID (Some [97]) True []" by (rule demo_request [OF d(1) root]) simp_all
  from demo_granted [OF v1 d(6)] d(2,5) obtain p g where
    g: "try_get_path ROOT_ID (Some [97]) True True demo_tree = Some (Inr (p, Some a), g)" "same_tree demo_tree g" "fmem g = []"
    by (auto simp: entry_of_def)
  have "get_node g ROOT_ID = Some 0" "at_root g 0"
    using d(1) root same_tree_get_node [OF g(2)] by (simp_all add: at_root_def same_tree_keys [OF g(2)])
  then have v2: "valid_request g ROOT_ID None False []" by (rule demo_request) simp_all
  from demo_granted [OF v2 g(3)] obtain p' h where
    h: "try_get_path ROOT_ID None False True g = Some (Inr (p', None), h)" by (auto simp: entry_of_def)
  have "reachable demo_tree ([], demo_tree)" by (rule reachable.start [OF demo_tree_inv d(5)])
  from reachable.step [OF this lock_step.get [OF v1 _ g(1)]] have "reachable demo_tree ([(ROOT_ID, [], Some a)], g)" by simp
  from reachable.step [OF this lock_step.get [OF v2 _ h]] show ?thesis by auto
qed

theorem write_lock_exclusive_witness:
  "\<exists>a f. reachable demo_tree ([(ROOT_ID, [], None)] @ (ROOT_ID, [], Some a) # [], f) \<and> a \<notin> set ([] :: nat list) \<and> None \<noteq> Some a"
proof -
  obtain a f where "reachable demo_tree ([(ROOT_ID, [], None), (ROOT_ID, [], Some a)], f)" using demo_reachable by blast
  with write_lock_exclusive [of demo_tree _ f "[(ROOT_ID, [], None)]" ROOT_ID "[]" a "[]" ROOT_ID "[]" None] show ?thesis by auto
qed

theorem release_never_aborts_witness:
  "\<exists>a f g. reachable demo_tree ([(ROOT_ID, [], None), (ROOT_ID, [], Some a)], f) \<and> unlock_path ROOT_ID (Some a) None f = Some g"
proof -
  obtain a f where r: "reachable demo_tree ([(ROOT_ID, [], None), (ROOT_ID, [], Some a)], f)" using demo_reachable by blast
  from release_never_aborts [OF r] r show ?thesis by auto
qed

end
