(* ===== verification/DirHandle.thy ===== *)
theory DirHandle
  imports Dirent PathBuf NodeTable "HOL-Library.Monad_Syntax"
begin

text \<open>
  Reading directories in the high-level library (\<^verbatim>\<open>lib/fuse.c\<close>): directory handles, the filler
  function that a file system calls for each entry, and the replies to the kernel. The functions are
  those of \<^verbatim>\<open>fuse_lib_readdir\<close>, that is at flags 0: the branches for \<^verbatim>\<open>FUSE_READDIR_PLUS\<close> are left out. A file system either passes offsets, and entries go directly to
  the reply, or it passes 0, and all entries are collected first. The file system's \<^verbatim>\<open>readdir\<close> and
  the result of looking up the path are parameters. A value of type \<^verbatim>\<open>unsigned\<close> is a natural number
  below \<open>2 ^ 32\<close>. \<open>None\<close> is a loop that does not end.
\<close>

unbundle bit_operations_syntax

section \<open>Data\<close>

record direntry =
  de_name :: "u8 list"
  de_stat :: stat
  de_flags :: u32

record fuse_dh =
  dh_contents :: "u8 list"
  dh_first :: "direntry list"
  dh_len :: nat
  dh_size :: nat
  dh_needlen :: nat
  dh_filled :: bool
  dh_error :: int
  dh_nodeid :: u64

record dir_conf =
  use_ino :: bool
  readdir_ino :: bool

definition DIR_ENOMEM :: int where "DIR_ENOMEM = 12"
definition DIR_EIO :: int where "DIR_EIO = 5"
definition FUSE_FILL_DIR_PLUS :: u32 where "FUSE_FILL_DIR_PLUS = 2"

definition new_dirhandle :: "u64 \<Rightarrow> fuse_dh" where
  "new_dirhandle ino =
     \<lparr>dh_contents = [], dh_first = [], dh_len = 0, dh_size = 0, dh_needlen = 0, dh_filled = False, dh_error = 0, dh_nodeid = ino\<rparr>"

section \<open>The filler\<close>

text \<open>
  The bytes that \<^verbatim>\<open>realloc\<close> adds are zero here; they are never part of a reply before they are
  written. The Boolean is False for the result \<open>- 1\<close>.
\<close>

definition extend_contents :: "nat \<Rightarrow> fuse_dh \<Rightarrow> schedule \<Rightarrow> (bool \<times> fuse_dh \<times> schedule) option" where
  "extend_contents minsize dh m =
     (if minsize > dh_size dh then do {
        newsize \<leftarrow> grow_bufsize (if dh_size dh = 0 then 1024 else dh_size dh) minsize;
        let (ok, m') = alloc m;
        Some (if ok then (True, dh\<lparr>dh_contents := dh_contents dh @ replicate (newsize - dh_size dh) 0, dh_size := newsize\<rparr>, m')
              else (False, dh\<lparr>dh_error := - DIR_ENOMEM\<rparr>, m'))
      } else Some (True, dh, m))"

definition fuse_add_direntry_to_dh :: "u8 list \<Rightarrow> stat \<Rightarrow> u32 \<Rightarrow> fuse_dh \<Rightarrow> schedule \<Rightarrow> bool \<times> fuse_dh \<times> schedule" where
  "fuse_add_direntry_to_dh name st fl dh m =
     (case alloc m of (ok1, m1) \<Rightarrow>
        if \<not> ok1 then (False, dh\<lparr>dh_error := - DIR_ENOMEM\<rparr>, m1)
        else case alloc m1 of (ok2, m2) \<Rightarrow>
          if \<not> ok2 then (False, dh\<lparr>dh_error := - DIR_ENOMEM\<rparr>, m2)
          else (True, dh\<lparr>dh_first := dh_first dh @ [\<lparr>de_name = name, de_stat = st, de_flags = fl\<rparr>]\<rparr>, m2))"

definition lookup_nodeid :: "fuse \<Rightarrow> u64 \<Rightarrow> u8 list \<Rightarrow> u64" where
  "lookup_nodeid f dir name =
     (case lookup_node f dir name of
        None \<Rightarrow> FUSE_UNKNOWN_INO
      | Some a \<Rightarrow> (case node_at f a of None \<Rightarrow> FUSE_UNKNOWN_INO | Some n \<Rightarrow> nodeid n))"

text \<open>The attributes that go into an entry.\<close>

definition entry_stat :: "fuse \<Rightarrow> dir_conf \<Rightarrow> u64 \<Rightarrow> u8 list \<Rightarrow> stat option \<Rightarrow> stat" where
  "entry_stat f conf dir name statp =
     (let st = (case statp of Some s \<Rightarrow> s | None \<Rightarrow> zero_stat\<lparr>st_ino := FUSE_UNKNOWN_INO\<rparr>) in
      if use_ino conf then st
      else st\<lparr>st_ino := (if readdir_ino conf then lookup_nodeid f dir name else FUSE_UNKNOWN_INO)\<rparr>)"

text \<open>The pointer into the buffer at position \<^verbatim>\<open>dh->len\<close>, as the entry writer sees it.\<close>

definition add_entry_at :: "nat \<Rightarrow> fuse_dh \<Rightarrow> u8 list \<Rightarrow> stat \<Rightarrow> int \<Rightarrow> nat \<times> fuse_dh" where
  "add_entry_at room dh name st off =
     (case fuse_add_direntry (Some (drop (dh_len dh) (dh_contents dh))) room name st (word_of_int off) of
        (n, Some bs) \<Rightarrow> (n, dh\<lparr>dh_contents := take (dh_len dh) (dh_contents dh) @ bs\<rparr>)
      | (n, None) \<Rightarrow> (n, dh))"

text \<open>\<^verbatim>\<open>fill_dir\<close>: the first component is the result, False for 0 and True for 1.\<close>

definition fill_dir ::
  "fuse \<Rightarrow> dir_conf \<Rightarrow> u8 list \<Rightarrow> stat option \<Rightarrow> int \<Rightarrow> u32 \<Rightarrow> fuse_dh \<Rightarrow> schedule \<Rightarrow> (bool \<times> fuse_dh \<times> schedule) option" where
  "fill_dir f conf name statp off fl dh m =
     (if fl AND NOT FUSE_FILL_DIR_PLUS \<noteq> 0 then Some (True, dh\<lparr>dh_error := - DIR_EIO\<rparr>, m)
      else
        let st = entry_stat f conf (dh_nodeid dh) name statp in
        if off \<noteq> 0 then
          (if dh_filled dh then Some (True, dh\<lparr>dh_error := - DIR_EIO\<rparr>, m)
           else if dh_first dh \<noteq> [] then Some (True, dh\<lparr>dh_error := - DIR_EIO\<rparr>, m)
           else do {
             (ok, dh1, m1) \<leftarrow> extend_contents (dh_needlen dh) dh m;
             if \<not> ok then Some (True, dh1, m1)
             else
               let (n, dh2) = add_entry_at (dh_needlen dh1 - dh_len dh1) dh1 name st off;
                   newlen = dh_len dh1 + n in
               if newlen > dh_needlen dh2 then Some (True, dh2, m1)
               else Some (False, dh2\<lparr>dh_len := newlen\<rparr>, m1)
           })
        else
          (case fuse_add_direntry_to_dh name st fl (dh\<lparr>dh_filled := True\<rparr>) m of (ok, dh1, m1) \<Rightarrow> Some (\<not> ok, dh1, m1)))"

section \<open>Requests\<close>

record fill_call =
  fc_name :: "u8 list"
  fc_stat :: "stat option"
  fc_off :: int
  fc_flags :: u32

text \<open>
  The file systems considered stop as soon as the filler returns 1, which says that the buffer is full; nothing in the library makes
  them stop.
\<close>

fun run_filler :: "fuse \<Rightarrow> dir_conf \<Rightarrow> fill_call list \<Rightarrow> fuse_dh \<Rightarrow> schedule \<Rightarrow> (fuse_dh \<times> schedule) option" where
  "run_filler f conf [] dh m = Some (dh, m)"
| "run_filler f conf (c # cs) dh m = do {
     (full, dh1, m1) \<leftarrow> fill_dir f conf (fc_name c) (fc_stat c) (fc_off c) (fc_flags c) dh m;
     if full then Some (dh1, m1) else run_filler f conf cs dh1 m1
   }"

text \<open>
  \<open>path_err\<close> is the result of getting the path; \<open>fs off\<close> are the entries that the file system passes
  when it is asked for those from \<open>off\<close> on, and its result.
\<close>

definition readdir_fill ::
  "int \<Rightarrow> (int \<Rightarrow> fill_call list \<times> int) \<Rightarrow> fuse \<Rightarrow> dir_conf \<Rightarrow> nat \<Rightarrow> int \<Rightarrow> fuse_dh \<Rightarrow> schedule \<Rightarrow> (int \<times> fuse_dh \<times> schedule) option" where
  "readdir_fill path_err fs f conf sz off dh m =
     (if path_err \<noteq> 0 then Some (path_err, dh, m)
      else do {
        (dh1, m1) \<leftarrow> run_filler f conf (fst (fs off))
          (dh\<lparr>dh_first := [], dh_len := 0, dh_error := 0, dh_needlen := sz mod 2 ^ 32, dh_filled := False\<rparr>) m;
        let err = (if snd (fs off) = 0 then dh_error dh1 else snd (fs off));
        Some (err, if err \<noteq> 0 then dh1\<lparr>dh_filled := False\<rparr> else dh1, m1)
      })"

fun fill_list :: "direntry list \<Rightarrow> int \<Rightarrow> fuse_dh \<Rightarrow> fuse_dh" where
  "fill_list [] pos dh = dh"
| "fill_list (de # des) pos dh =
     (let (thislen, dh1) = add_entry_at (dh_needlen dh - dh_len dh) dh (de_name de) (de_stat de) (pos + 1);
          newlen = (dh_len dh + thislen mod 2 ^ 32) mod 2 ^ 32 in
      if newlen > dh_needlen dh then dh1 else fill_list des (pos + 1) (dh1\<lparr>dh_len := newlen\<rparr>))"

definition readdir_fill_from_list :: "int \<Rightarrow> fuse_dh \<Rightarrow> schedule \<Rightarrow> (int \<times> fuse_dh \<times> schedule) option" where
  "readdir_fill_from_list off dh m = do {
     (ok, dh1, m1) \<leftarrow> extend_contents (dh_needlen dh) (dh\<lparr>dh_len := 0\<rparr>) m;
     if \<not> ok then Some (dh_error dh1, dh1, m1)
     else
       let skip = min (nat off) (length (dh_first dh1)) in
       Some (0, fill_list (drop skip (dh_first dh1)) (int skip) dh1, m1)
   }"

text \<open>The reply is an error or the bytes of the entries.\<close>

definition fuse_readdir_common ::
  "int \<Rightarrow> (int \<Rightarrow> fill_call list \<times> int) \<Rightarrow> fuse \<Rightarrow> dir_conf \<Rightarrow> nat \<Rightarrow> int \<Rightarrow> fuse_dh \<Rightarrow> schedule \<Rightarrow>
   ((int + u8 list) \<times> fuse_dh \<times> schedule) option" where
  "fuse_readdir_common path_err fs f conf sz off dh m = do {
     let dh0 = (if off = 0 then dh\<lparr>dh_filled := False\<rparr> else dh);
     (err, dh1, m1) \<leftarrow> (if \<not> dh_filled dh0 then readdir_fill path_err fs f conf sz off dh0 m else Some (0, dh0, m));
     if err \<noteq> 0 then Some (Inl err, dh1, m1)
     else do {
       (err2, dh2, m2) \<leftarrow> (if dh_filled dh1 then readdir_fill_from_list off (dh1\<lparr>dh_needlen := sz mod 2 ^ 32\<rparr>) m1 else Some (0, dh1, m1));
       if err2 \<noteq> 0 then Some (Inl err2, dh2, m2)
       else Some (Inr (take (dh_len dh2) (dh_contents dh2)), dh2, m2)
     }
   }"

section \<open>The buffer\<close>

definition buf_ok :: "fuse_dh \<Rightarrow> bool" where
  "buf_ok dh \<longleftrightarrow> length (dh_contents dh) = dh_size dh \<and> dh_size dh \<le> 0xffffffff"

text \<open>While entries go to the buffer.\<close>

definition fill_ok :: "fuse_dh \<Rightarrow> bool" where
  "fill_ok dh \<longleftrightarrow> buf_ok dh \<and> dh_len dh \<le> dh_needlen dh \<and> dh_len dh \<le> dh_size dh \<and> dh_needlen dh \<le> 0xffffffff"

lemma extend_contents_ok:
  assumes "buf_ok dh" and "minsize \<le> 0xffffffff"
  obtains (grown) k n m' where "extend_contents minsize dh m =
      Some (True, dh\<lparr>dh_contents := dh_contents dh @ replicate k 0, dh_size := n\<rparr>, m')"
      "n = dh_size dh + k" "minsize \<le> n" "n \<le> 0xffffffff" "fst (alloc m) \<Longrightarrow> m' = snd (alloc m) \<or> m' = m"
  | (failed) m' where "extend_contents minsize dh m = Some (False, dh\<lparr>dh_error := - DIR_ENOMEM\<rparr>, m')" "\<not> fst (alloc m)"
proof (cases "minsize > dh_size dh")
  case False
  then have "extend_contents minsize dh m = Some (True, dh\<lparr>dh_contents := dh_contents dh @ replicate 0 0, dh_size := dh_size dh\<rparr>, m)"
    by (simp add: extend_contents_def)
  with False assms(1) show thesis using grown [of "dh_size dh" 0 m] unfolding buf_ok_def by simp
next
  case True
  define old where "old = (if dh_size dh = 0 then 1024 else dh_size dh)"
  have "0 < old" "old \<le> 0xffffffff" "dh_size dh \<le> old" using assms(1) by (auto simp: old_def buf_ok_def)
  with grow_bufsize_ok [OF assms(2), of old] obtain n where
    n: "grow_bufsize old minsize = Some n" "minsize \<le> n" "old \<le> n" "n \<le> 0xffffffff" by blast
  show thesis
  proof (cases "alloc m")
    case (Pair ok m')
    show thesis
    proof (cases ok)
      case ok: True
      then show thesis using grown [of n "n - dh_size dh" m'] True n Pair \<open>dh_size dh \<le> old\<close>
        by (simp add: extend_contents_def old_def Let_def)
    next
      case False
      then show thesis using failed [of m'] True n Pair by (simp add: extend_contents_def old_def Let_def)
    qed
  qed
qed

definition entry_size :: "u8 list \<Rightarrow> nat" where
  "entry_size name = FUSE_DIRENT_ALIGN (FUSE_NAME_OFFSET + length name)"

lemma entry_size_pos: "0 < entry_size name"
  using FUSE_DIRENT_ALIGN_ge [of "FUSE_NAME_OFFSET + length name"] by (simp add: entry_size_def FUSE_NAME_OFFSET_def)

lemma length_image: "length (dirent_image name st off) = entry_size name"
  by (simp add: length_dirent_image entry_size_def)

lemma add_entry_at_fits:
  "entry_size name \<le> room \<Longrightarrow> add_entry_at room dh name st off =
    (entry_size name, dh\<lparr>dh_contents := take (dh_len dh) (dh_contents dh) @ dirent_image name st (word_of_int off) @
       drop (dh_len dh + entry_size name) (dh_contents dh)\<rparr>)"
  by (simp add: add_entry_at_def fuse_add_direntry_fits entry_size_def add.commute)

lemma add_entry_at_full: "room < entry_size name \<Longrightarrow> add_entry_at room dh name st off = (entry_size name, dh)"
  by (simp add: add_entry_at_def fuse_add_direntry_full entry_size_def)

lemma length_patched: "a + length ys \<le> length xs \<Longrightarrow> length (take a xs @ ys @ drop (a + length ys) xs) = length xs"
  by simp

lemma add_entry_at_ok:
  assumes "fill_ok dh" and "dh_needlen dh \<le> dh_size dh"
  obtains dh' where "add_entry_at (dh_needlen dh - dh_len dh) dh name st off = (entry_size name, dh')" "fill_ok dh'"
    "dh_size dh' = dh_size dh" "dh_needlen dh' = dh_needlen dh" "dh_len dh' = dh_len dh" "dh_first dh' = dh_first dh"
proof (cases "entry_size name \<le> dh_needlen dh - dh_len dh")
  case True
  let ?c = "take (dh_len dh) (dh_contents dh) @ dirent_image name st (word_of_int off) @ drop (dh_len dh + entry_size name) (dh_contents dh)"
  have "length ?c = dh_size dh"
    using length_patched [of "dh_len dh" "dirent_image name st (word_of_int off)" "dh_contents dh"] assms True
    unfolding fill_ok_def buf_ok_def length_image by linarith
  with assms(1) have "fill_ok (dh\<lparr>dh_contents := ?c\<rparr>)" unfolding fill_ok_def buf_ok_def by simp
  with that [OF add_entry_at_fits [OF True]] show ?thesis by simp
next
  case False
  with that [OF add_entry_at_full assms(1)] show ?thesis by simp
qed

lemma mod_le_nat: "x mod 4294967296 \<le> (4294967295 :: nat)"
  using mod_less_divisor [of "4294967296 :: nat" x] by linarith

lemma fuse_add_direntry_to_dh_ok:
  "fill_ok dh \<Longrightarrow> \<exists>ok dh' m'. fuse_add_direntry_to_dh name st fl dh m = (ok, dh', m') \<and> fill_ok dh' \<and> dh_needlen dh' = dh_needlen dh"
  by (cases "alloc m"; cases "alloc (snd (alloc m))"; cases "fst (alloc m)"; cases "fst (alloc (snd (alloc m)))";
      simp add: fuse_add_direntry_to_dh_def fill_ok_def buf_ok_def; blast)

lemma fill_dir_ok:
  assumes ok: "fill_ok dh"
  shows "\<exists>full dh' m'. fill_dir f conf name statp off fl dh m = Some (full, dh', m') \<and> fill_ok dh' \<and> dh_needlen dh' = dh_needlen dh"
proof -
  let ?st = "entry_stat f conf (dh_nodeid dh) name statp"
  have err: "fill_ok (dh\<lparr>dh_error := e\<rparr>)" for e using ok by (simp add: fill_ok_def buf_ok_def)
  have b: "buf_ok dh" "dh_needlen dh \<le> 0xffffffff" using ok by (simp_all add: fill_ok_def)
  consider (bad) "fl AND NOT FUSE_FILL_DIR_PLUS \<noteq> 0 \<or> off \<noteq> 0 \<and> (dh_filled dh \<or> dh_first dh \<noteq> [])"
    | (list) "fl AND NOT FUSE_FILL_DIR_PLUS = 0" "off = 0"
    | (buf) "fl AND NOT FUSE_FILL_DIR_PLUS = 0" "off \<noteq> 0" "\<not> dh_filled dh" "dh_first dh = []" by blast
  then show ?thesis
  proof cases
    case bad
    then have "fill_dir f conf name statp off fl dh m = Some (True, dh\<lparr>dh_error := - DIR_EIO\<rparr>, m)"
      by (auto simp: fill_dir_def Let_def)
    with err show ?thesis by auto
  next
    case list
    have "fill_ok (dh\<lparr>dh_filled := True\<rparr>)" using ok by (simp add: fill_ok_def buf_ok_def)
    from fuse_add_direntry_to_dh_ok [OF this, of name ?st fl m] obtain k dh1 m1 where
      "fuse_add_direntry_to_dh name ?st fl (dh\<lparr>dh_filled := True\<rparr>) m = (k, dh1, m1)" "fill_ok dh1" "dh_needlen dh1 = dh_needlen dh"
      by auto
    with list show ?thesis by (simp add: fill_dir_def Let_def)
  next
    case buf
    show ?thesis
    proof (cases rule: extend_contents_ok [OF b, of m])
      case (1 k n m')
      let ?dh = "dh\<lparr>dh_contents := dh_contents dh @ replicate k 0, dh_size := n\<rparr>"
      have 2: "fill_ok ?dh" "dh_needlen ?dh \<le> dh_size ?dh" using ok 1 by (simp_all add: fill_ok_def buf_ok_def)
      from add_entry_at_ok [OF this, of name ?st off] obtain dh2 where
        r: "add_entry_at (dh_needlen dh - dh_len dh) ?dh name ?st off = (entry_size name, dh2)" and
        dh2: "fill_ok dh2" "dh_size dh2 = n" "dh_needlen dh2 = dh_needlen dh" "dh_len dh2 = dh_len dh" by auto
      let ?len = "dh_len dh + entry_size name"
      have *: "fill_dir f conf name statp off fl dh m =
          (if ?len > dh_needlen dh then Some (True, dh2, m') else Some (False, dh2\<lparr>dh_len := ?len\<rparr>, m'))"
        using buf 1(1) r dh2(3) by (simp add: fill_dir_def Let_def)
      show ?thesis
      proof (cases "?len > dh_needlen dh")
        case True
        then show ?thesis using * dh2 by auto
      next
        case False
        then have "fill_ok (dh2\<lparr>dh_len := ?len\<rparr>)" using dh2 1(3) by (simp add: fill_ok_def buf_ok_def)
        with False show ?thesis using * dh2(3) by auto
      qed
    next
      case (2 m')
      then have "fill_dir f conf name statp off fl dh m = Some (True, dh\<lparr>dh_error := - DIR_ENOMEM\<rparr>, m')"
        using buf by (simp add: fill_dir_def Let_def)
      with err show ?thesis by auto
    qed
  qed
qed

lemma run_filler_ok:
  "fill_ok dh \<Longrightarrow> \<exists>dh' m'. run_filler f conf cs dh m = Some (dh', m') \<and> fill_ok dh' \<and> dh_needlen dh' = dh_needlen dh"
proof (induction cs arbitrary: dh m)
  case (Cons c cs)
  from fill_dir_ok [OF Cons.prems] obtain full dh1 m1 where
    1: "fill_dir f conf (fc_name c) (fc_stat c) (fc_off c) (fc_flags c) dh m = Some (full, dh1, m1)" "fill_ok dh1" "dh_needlen dh1 = dh_needlen dh"
    by blast
  show ?case using 1 Cons.IH [OF 1(2), of m1] by (cases full) auto
qed simp

lemma fill_list_ok:
  "fill_ok dh \<Longrightarrow> dh_needlen dh \<le> dh_size dh \<Longrightarrow>
   fill_ok (fill_list des pos dh) \<and> dh_needlen (fill_list des pos dh) = dh_needlen dh"
proof (induction des arbitrary: pos dh)
  case (Cons de des)
  from add_entry_at_ok [OF Cons.prems, of "de_name de" "de_stat de" "pos + 1"] obtain dh' where
    r: "add_entry_at (dh_needlen dh - dh_len dh) dh (de_name de) (de_stat de) (pos + 1) = (entry_size (de_name de), dh')" and
    dh': "fill_ok dh'" "dh_size dh' = dh_size dh" "dh_needlen dh' = dh_needlen dh" by auto
  let ?new = "(dh_len dh + entry_size (de_name de) mod 2 ^ 32) mod 2 ^ 32"
  show ?case
  proof (cases "?new > dh_needlen dh")
    case True
    then show ?thesis using r dh' by (simp add: Let_def)
  next
    case False
    let ?dh = "dh'\<lparr>dh_len := ?new\<rparr>"
    have "fill_ok ?dh" "dh_needlen ?dh \<le> dh_size ?dh" "dh_needlen ?dh = dh_needlen dh"
      using dh' Cons.prems(2) False unfolding fill_ok_def buf_ok_def by simp_all
    with Cons.IH [of ?dh "pos + 1"] False r show ?thesis by (simp add: Let_def)
  qed
qed simp

lemma readdir_fill_from_list_ok:
  assumes "buf_ok dh" and "dh_needlen dh \<le> 0xffffffff"
  shows "\<exists>err dh' m'. readdir_fill_from_list off dh m = Some (err, dh', m') \<and> buf_ok dh' \<and>
    (err = 0 \<longrightarrow> fill_ok dh' \<and> dh_needlen dh' = dh_needlen dh)"
proof -
  have b: "buf_ok (dh\<lparr>dh_len := 0\<rparr>)" using assms(1) by (simp add: buf_ok_def)
  show ?thesis
  proof (cases rule: extend_contents_ok [OF b assms(2), of m])
    case (1 k n m')
    let ?dh = "dh\<lparr>dh_len := 0, dh_contents := dh_contents dh @ replicate k 0, dh_size := n\<rparr>"
    have dh: "fill_ok ?dh" "dh_needlen ?dh \<le> dh_size ?dh" using assms 1 by (simp_all add: fill_ok_def buf_ok_def)
    let ?skip = "min (nat off) (length (dh_first dh))"
    let ?r = "fill_list (drop ?skip (dh_first dh)) (int ?skip) ?dh"
    have "readdir_fill_from_list off dh m = Some (0, ?r, m')" using 1(1) by (simp add: readdir_fill_from_list_def Let_def)
    moreover have "fill_ok ?r" "dh_needlen ?r = dh_needlen dh"
      using fill_list_ok [OF dh, of "drop ?skip (dh_first dh)" "int ?skip"] by simp_all
    ultimately show ?thesis by (simp add: fill_ok_def)
  next
    case (2 m')
    then show ?thesis using assms by (auto simp: readdir_fill_from_list_def buf_ok_def DIR_ENOMEM_def)
  qed
qed

lemma readdir_fill_ok:
  assumes "buf_ok dh"
  shows "\<exists>err dh' m'. readdir_fill path_err fs f conf sz off dh m = Some (err, dh', m') \<and> buf_ok dh' \<and>
    (err = 0 \<longrightarrow> fill_ok dh' \<and> dh_needlen dh' = sz mod 2 ^ 32)"
proof (cases "path_err = 0")
  case True
  let ?dh = "dh\<lparr>dh_first := [], dh_len := 0, dh_error := 0, dh_needlen := sz mod 2 ^ 32, dh_filled := False\<rparr>"
  have "sz mod 2 ^ 32 \<le> (0xffffffff :: nat)" by (simp add: mod_le_nat)
  with assms have "fill_ok ?dh" by (simp add: fill_ok_def buf_ok_def)
  from run_filler_ok [OF this, of f conf "fst (fs off)" m] obtain dh1 m1 where
    "run_filler f conf (fst (fs off)) ?dh m = Some (dh1, m1)" "fill_ok dh1" "dh_needlen dh1 = sz mod 2 ^ 32" by auto
  with True show ?thesis by (auto simp: readdir_fill_def Let_def fill_ok_def buf_ok_def)
qed (use assms in \<open>simp add: readdir_fill_def\<close>)

text \<open>
  C35: A request to read a directory always ends, whatever the file system passes to the filler and
  whichever allocations fail, and its reply never has more bytes than the kernel asked for; the
  handle's buffer has the size that is recorded for it.
\<close>

theorem readdir_reply_bounded:
  assumes "buf_ok dh"
  shows "\<exists>r dh' m'. fuse_readdir_common path_err fs f conf sz off dh m = Some (r, dh', m') \<and> buf_ok dh' \<and>
    (\<forall>bs. r = Inr bs \<longrightarrow> length bs \<le> sz)"
proof -
  define dh0 where "dh0 = (if off = 0 then dh\<lparr>dh_filled := False\<rparr> else dh)"
  have dh0: "buf_ok dh0" using assms by (simp add: dh0_def buf_ok_def)
  have mod: "sz mod 2 ^ 32 \<le> sz" "sz mod 2 ^ 32 \<le> 0xffffffff" by (simp_all add: mod_le_nat)
  obtain err dh1 m1 where fill: "(if \<not> dh_filled dh0 then readdir_fill path_err fs f conf sz off dh0 m else Some (0, dh0, m)) =
      Some (err, dh1, m1)" "buf_ok dh1" "err = 0 \<and> \<not> dh_filled dh1 \<longrightarrow> fill_ok dh1 \<and> dh_needlen dh1 = sz mod 2 ^ 32"
    using readdir_fill_ok [OF dh0, of path_err fs f conf sz off m] dh0 by (cases "dh_filled dh0") auto
  show ?thesis
  proof (cases "err = 0 \<and> dh_filled dh1")
    case True
    let ?dh = "dh1\<lparr>dh_needlen := sz mod 2 ^ 32\<rparr>"
    have "buf_ok ?dh" "dh_needlen ?dh \<le> 0xffffffff" using fill(2) mod(2) by (simp_all add: buf_ok_def)
    from readdir_fill_from_list_ok [OF this, of off m1] obtain err2 dh2 m2 where
      "readdir_fill_from_list off ?dh m1 = Some (err2, dh2, m2)" "buf_ok dh2"
      "err2 = 0 \<longrightarrow> fill_ok dh2 \<and> dh_needlen dh2 = sz mod 2 ^ 32" by auto
    with True fill(1) mod(1) show ?thesis
      by (cases "err2 = 0") (auto simp: fuse_readdir_common_def Let_def fill_ok_def simp flip: dh0_def)
  next
    case False
    with fill mod(1) show ?thesis
      by (cases "err = 0") (auto simp: fuse_readdir_common_def Let_def fill_ok_def simp flip: dh0_def)
  qed
qed

theorem readdir_reply_bounded_witness:
  "\<exists>r dh' m'. fuse_readdir_common 0 (\<lambda>_. ([\<lparr>fc_name = [97], fc_stat = None, fc_off = 1, fc_flags = 0\<rparr>], 0)) (fuse_new 0 0 [])
      \<lparr>use_ino = False, readdir_ino = False\<rparr> 64 0 (new_dirhandle 1) [False] = Some (r, dh', m') \<and> buf_ok dh' \<and>
    (\<forall>bs. r = Inr bs \<longrightarrow> length bs \<le> 64)"
  by (rule readdir_reply_bounded) (simp add: buf_ok_def new_dirhandle_def)

section \<open>Listing a directory\<close>

text \<open>The entries of the collected list that fit, and their bytes.\<close>

fun fitting :: "nat \<Rightarrow> direntry list \<Rightarrow> direntry list" where
  "fitting room [] = []"
| "fitting room (de # des) = (if entry_size (de_name de) \<le> room then de # fitting (room - entry_size (de_name de)) des else [])"

fun dir_image :: "direntry list \<Rightarrow> int \<Rightarrow> u8 list" where
  "dir_image [] pos = []"
| "dir_image (de # des) pos = dirent_image (de_name de) (de_stat de) (word_of_int (pos + 1)) @ dir_image des (pos + 1)"

fun dirents_from :: "direntry list \<Rightarrow> int \<Rightarrow> dirent list" where
  "dirents_from [] pos = []"
| "dirents_from (de # des) pos = dirent_of (de_name de) (de_stat de) (word_of_int (pos + 1)) # dirents_from des (pos + 1)"

lemma fitting_prefix: "\<exists>k \<le> length des. fitting room des = take k des"
proof (induction des arbitrary: room)
  case (Cons de des)
  then obtain k where "k \<le> length des" "fitting (room - entry_size (de_name de)) des = take k des" by blast
  then show ?case by (cases "entry_size (de_name de) \<le> room") (auto intro: exI [of _ "Suc k"] exI [of _ 0])
qed simp

lemma dir_image_Nil_iff: "dir_image des pos = [] \<longleftrightarrow> des = []"
  using entry_size_pos by (cases des) (auto simp flip: length_greater_0_conv simp: length_image)

lemma read_dir_image: "\<forall>de \<in> set des. length (de_name de) < 2 ^ 32 \<Longrightarrow> read_dirents (dir_image des pos) = dirents_from des pos"
  by (induction des arbitrary: pos) (simp_all add: read_dirents_image)

lemma dirents_from_append: "dirents_from (xs @ ys) pos = dirents_from xs pos @ dirents_from ys (pos + int (length xs))"
  by (induction xs arbitrary: pos) (simp_all add: algebra_simps)

lemma last_dirents_from: "des \<noteq> [] \<Longrightarrow> fst (snd (last (dirents_from des pos))) = word_of_int (pos + int (length des))"
proof (induction des arbitrary: pos)
  case (Cons de des)
  show ?case
  proof (cases "des = []")
    case True
    then show ?thesis by (simp add: dirent_of_def)
  next
    case False
    then have "dirents_from des (pos + 1) \<noteq> []" by (cases des) auto
    with Cons.IH [OF False, of "pos + 1"] show ?thesis by (simp add: algebra_simps)
  qed
qed simp

lemma fill_list_exact:
  assumes "fill_ok dh" and "dh_needlen dh \<le> dh_size dh" and "dh_needlen dh < 2 ^ 31"
    and "\<forall>de \<in> set des. entry_size (de_name de) < 2 ^ 31"
  shows "take (dh_len (fill_list des pos dh)) (dh_contents (fill_list des pos dh)) =
      take (dh_len dh) (dh_contents dh) @ dir_image (fitting (dh_needlen dh - dh_len dh) des) pos \<and>
    dh_first (fill_list des pos dh) = dh_first dh \<and> dh_filled (fill_list des pos dh) = dh_filled dh"
  using assms
proof (induction des arbitrary: pos dh)
  case (Cons de des)
  let ?n = "entry_size (de_name de)"
  have n: "?n mod 2 ^ 32 = ?n" "(dh_len dh + ?n) mod 2 ^ 32 = dh_len dh + ?n"
    using Cons.prems by (auto simp: fill_ok_def)
  show ?case
  proof (cases "?n \<le> dh_needlen dh - dh_len dh")
    case True
    let ?img = "dirent_image (de_name de) (de_stat de) (word_of_int (pos + 1))"
    let ?dh = "dh\<lparr>dh_contents := take (dh_len dh) (dh_contents dh) @ ?img @ drop (dh_len dh + ?n) (dh_contents dh), dh_len := dh_len dh + ?n\<rparr>"
    have le: "dh_len dh + ?n \<le> dh_needlen dh" using True entry_size_pos [of "de_name de"] Cons.prems(1) by (simp add: fill_ok_def)
    have len: "length (dh_contents dh) = dh_size dh" using Cons.prems(1) by (simp add: fill_ok_def buf_ok_def)
    have "length (dh_contents ?dh) = dh_size dh"
      using length_patched [of "dh_len dh" ?img "dh_contents dh"] le len Cons.prems(2) by (simp add: length_image)
    with le Cons.prems(1,2) have ok: "fill_ok ?dh" by (simp add: fill_ok_def buf_ok_def)
    have tk: "take (dh_len dh + ?n) (dh_contents ?dh) = take (dh_len dh) (dh_contents dh) @ ?img"
      using le len Cons.prems(2) by (simp add: length_image)
    have step: "fill_list (de # des) pos dh = fill_list des (pos + 1) ?dh"
      using True n le by (simp add: add_entry_at_fits Let_def)
    have IH: "take (dh_len (fill_list des (pos + 1) ?dh)) (dh_contents (fill_list des (pos + 1) ?dh)) =
        take (dh_len ?dh) (dh_contents ?dh) @ dir_image (fitting (dh_needlen ?dh - dh_len ?dh) des) (pos + 1) \<and>
      dh_first (fill_list des (pos + 1) ?dh) = dh_first ?dh \<and> dh_filled (fill_list des (pos + 1) ?dh) = dh_filled ?dh"
      by (rule Cons.IH [OF ok]) (use Cons.prems in auto)
    show ?thesis unfolding step using IH tk True by simp
  next
    case False
    then have "fill_list (de # des) pos dh = dh" using n Cons.prems(1) by (simp add: add_entry_at_full Let_def fill_ok_def)
    with False show ?thesis by simp
  qed
qed simp

text \<open>What the filler collects.\<close>

definition collected :: "fuse \<Rightarrow> dir_conf \<Rightarrow> u64 \<Rightarrow> fill_call list \<Rightarrow> direntry list" where
  "collected f conf dir = map (\<lambda>c. \<lparr>de_name = fc_name c, de_stat = entry_stat f conf dir (fc_name c) (fc_stat c), de_flags = fc_flags c\<rparr>)"

lemma run_filler_collects:
  "\<forall>c \<in> set cs. fc_off c = 0 \<and> fc_flags c AND NOT FUSE_FILL_DIR_PLUS = 0 \<Longrightarrow>
   run_filler f conf cs dh [] =
     Some (dh\<lparr>dh_first := dh_first dh @ collected f conf (dh_nodeid dh) cs, dh_filled := dh_filled dh \<or> cs \<noteq> []\<rparr>, [])"
  by (induction cs arbitrary: dh) (simp_all add: fill_dir_def fuse_add_direntry_to_dh_def Let_def collected_def)

lemma readdir_from_list:
  assumes "buf_ok dh" and "dh_filled dh" and "sz < 2 ^ 31"
    and "\<forall>de \<in> set (dh_first dh). entry_size (de_name de) < 2 ^ 31" and "k \<le> length (dh_first dh)"
  obtains dh' where "readdir_fill_from_list (int k) (dh\<lparr>dh_needlen := sz\<rparr>) [] = Some (0, dh', [])"
    "buf_ok dh'" "dh_filled dh'" "dh_first dh' = dh_first dh"
    "take (dh_len dh') (dh_contents dh') = dir_image (fitting sz (drop k (dh_first dh))) (int k)"
proof -
  have b: "buf_ok (dh\<lparr>dh_needlen := sz, dh_len := 0\<rparr>)" "sz \<le> 0xffffffff" using assms by (simp_all add: buf_ok_def)
  show thesis
  proof (cases rule: extend_contents_ok [OF b, of "[]"])
    case (1 j n m')
    let ?dh = "dh\<lparr>dh_needlen := sz, dh_len := 0, dh_contents := dh_contents dh @ replicate j 0, dh_size := n\<rparr>"
    let ?r = "fill_list (drop k (dh_first dh)) (int k) ?dh"
    have dh: "fill_ok ?dh" "dh_needlen ?dh \<le> dh_size ?dh" "dh_needlen ?dh < 2 ^ 31"
      using assms 1 by (simp_all add: fill_ok_def buf_ok_def)
    have m': "m' = []" using 1(5) by simp
    have "readdir_fill_from_list (int k) (dh\<lparr>dh_needlen := sz\<rparr>) [] = Some (0, ?r, [])"
      using 1(1) assms(5) m' by (simp add: readdir_fill_from_list_def Let_def min_absorb1)
    moreover have "\<forall>de \<in> set (drop k (dh_first dh)). entry_size (de_name de) < 2 ^ 31"
      using assms(4) by (auto dest: in_set_dropD)
    note ex = fill_list_exact [OF dh this, of "int k"]
    moreover have "buf_ok ?r" using fill_list_ok [OF dh(1,2), of "drop k (dh_first dh)" "int k"] by (simp add: fill_ok_def)
    ultimately show thesis using assms(2) by (intro that [of ?r]) simp_all
  qed simp
qed

text \<open>
  A client of the handle reads from the start and goes on from the offset of the last entry it got,
  until a reply has no entries. \<open>None\<close> is an error or too many requests.
\<close>

fun list_directory :: "(int \<Rightarrow> fill_call list \<times> int) \<Rightarrow> fuse \<Rightarrow> dir_conf \<Rightarrow> nat \<Rightarrow> nat \<Rightarrow> int \<Rightarrow> fuse_dh \<Rightarrow> dirent list option" where
  "list_directory fs f conf sz 0 off dh = None"
| "list_directory fs f conf sz (Suc n) off dh =
     (case fuse_readdir_common 0 fs f conf sz off dh [] of
        Some (Inr bs, dh', _) \<Rightarrow>
          (if read_dirents bs = [] then Some []
           else map_option ((@) (read_dirents bs)) (list_directory fs f conf sz n (sint (fst (snd (last (read_dirents bs))))) dh'))
      | _ \<Rightarrow> None)"

lemma sint_word_of_nat: "k < 2 ^ 63 \<Longrightarrow> sint (word_of_int (int k) :: u64) = int k"
  by (simp only: sint_sbintrunc') (simp add: signed_take_bit_int_eq_self)

lemma entry_size_name: "entry_size name < 2 ^ 31 \<Longrightarrow> length name < 2 ^ 32"
  using FUSE_DIRENT_ALIGN_ge [of "FUSE_NAME_OFFSET + length name"] by (simp add: entry_size_def)

lemma list_directory_step:
  assumes read: "fuse_readdir_common 0 fs f conf sz (int k) dh [] = Some (Inr (dir_image (fitting sz (drop k des)) (int k)), dh', [])"
    and sz: "sz < 2 ^ 31" and fits: "\<forall>de \<in> set des. entry_size (de_name de) \<le> sz"
    and len: "length des < 2 ^ 63" "k \<le> length des"
    and rest: "\<And>j. 0 < j \<Longrightarrow> k + j \<le> length des \<Longrightarrow>
      list_directory fs f conf sz n (int (k + j)) dh' = Some (dirents_from (drop (k + j) des) (int (k + j)))"
  shows "list_directory fs f conf sz (Suc n) (int k) dh = Some (dirents_from (drop k des) (int k))"
proof -
  let ?des = "drop k des"
  obtain j where j: "j \<le> length ?des" "fitting sz ?des = take j ?des" using fitting_prefix by blast
  have "entry_size (de_name de) < 2 ^ 31" if "de \<in> set des" for de using fits sz that by (meson le_less_trans)
  then have "\<forall>de \<in> set (take j ?des). length (de_name de) < 2 ^ 32"
    using entry_size_name by (meson in_set_dropD in_set_takeD)
  then have ents: "read_dirents (dir_image (take j ?des) (int k)) = dirents_from (take j ?des) (int k)" by (rule read_dir_image)
  show ?thesis
  proof (cases ?des)
    case Nil
    then show ?thesis using read by simp
  next
    case (Cons d ds)
    then have "d \<in> set des" by (metis in_set_dropD list.set_intros(1))
    then have j0: "0 < j" using j(2) Cons fits by (cases j) auto
    then have ne: "take j ?des \<noteq> []" using Cons by simp
    then have ne': "dirents_from (take j ?des) (int k) \<noteq> []" by (cases "take j ?des") auto
    have kj: "k + j \<le> length des" using j(1) len(2) by simp
    have off: "sint (fst (snd (last (dirents_from (take j ?des) (int k))))) = int (k + j)"
      using last_dirents_from [OF ne, of "int k"] sint_word_of_nat [of "k + j"] j(1) kj len(1) by (simp add: min_absorb2)
    have "dirents_from ?des (int k) = dirents_from (take j ?des) (int k) @ dirents_from (drop (k + j) des) (int (k + j))"
      using dirents_from_append [of "take j ?des" "drop j ?des" "int k"] j(1)
      unfolding append_take_drop_id by (simp add: min_absorb2 add.commute)
    with rest [OF j0 kj] show ?thesis using read ents ne' off j(2) by simp
  qed
qed

lemma list_directory_from:
  assumes "buf_ok dh" and "dh_filled dh" and sz: "sz < 2 ^ 31"
    and fits: "\<forall>de \<in> set (dh_first dh). entry_size (de_name de) \<le> sz" and len: "length (dh_first dh) < 2 ^ 63"
    and "k \<le> length (dh_first dh)" and "0 < k" and "length (dh_first dh) - k < n"
  shows "list_directory fs f conf sz n (int k) dh = Some (dirents_from (drop k (dh_first dh)) (int k))"
  using assms
proof (induction n arbitrary: k dh)
  case (Suc n)
  have "\<forall>de \<in> set (dh_first dh). entry_size (de_name de) < 2 ^ 31" using Suc.prems(3,4) by fastforce
  then obtain dh' where dh': "readdir_fill_from_list (int k) (dh\<lparr>dh_needlen := sz\<rparr>) [] = Some (0, dh', [])"
    "buf_ok dh'" "dh_filled dh'" "dh_first dh' = dh_first dh"
    "take (dh_len dh') (dh_contents dh') = dir_image (fitting sz (drop k (dh_first dh))) (int k)"
    by (rule readdir_from_list [OF Suc.prems(1-3) _ Suc.prems(6)])
  show ?case
  proof (rule list_directory_step)
    show "fuse_readdir_common 0 fs f conf sz (int k) dh [] =
        Some (Inr (dir_image (fitting sz (drop k (dh_first dh))) (int k)), dh', [])"
      using Suc.prems(2,3,7) dh'(1,5) by (simp add: fuse_readdir_common_def)
    fix j assume "0 < j" "k + j \<le> length (dh_first dh)"
    with Suc.IH [of dh' "k + j"] Suc.prems dh'(2-4)
    show "list_directory fs f conf sz n (int (k + j)) dh' = Some (dirents_from (drop (k + j) (dh_first dh)) (int (k + j)))" by simp
  qed (use Suc.prems in auto)
qed simp

text \<open>
  C14: Reading a directory lists it completely. When the file system passes its entries without
  offsets, a client that starts at 0 and follows the offsets of the entries gets every entry exactly once, in the order of the file
  system and with the attributes that the library chose, if each entry fits into a reply on its own.
\<close>

theorem list_directory_complete:
  assumes "buf_ok dh" and sz: "sz < 2 ^ 31" and fs: "fs 0 = (cs, 0)" and len: "length cs < 2 ^ 63"
    and cs: "\<forall>c \<in> set cs. fc_off c = 0 \<and> fc_flags c AND NOT FUSE_FILL_DIR_PLUS = 0 \<and> entry_size (fc_name c) \<le> sz"
  shows "list_directory fs f conf sz (Suc (length cs)) 0 dh = Some (dirents_from (collected f conf (dh_nodeid dh) cs) 0)"
proof -
  let ?des = "collected f conf (dh_nodeid dh) cs"
  let ?dh = "dh\<lparr>dh_first := ?des, dh_len := 0, dh_error := 0, dh_needlen := sz, dh_filled := cs \<noteq> []\<rparr>"
  have "run_filler f conf cs (dh\<lparr>dh_first := [], dh_len := 0, dh_error := 0, dh_needlen := sz, dh_filled := False\<rparr>) [] = Some (?dh, [])"
    using cs by (subst run_filler_collects) auto
  then have fill: "readdir_fill 0 fs f conf sz 0 (dh\<lparr>dh_filled := False\<rparr>) [] = Some (0, ?dh, [])"
    using sz fs by (simp add: readdir_fill_def)
  show ?thesis
  proof (cases "cs = []")
    case True
    then show ?thesis using fill by (simp add: fuse_readdir_common_def collected_def)
  next
    case False
    have des: "length ?des = length cs" by (simp add: collected_def)
    have fits: "\<forall>de \<in> set ?des. entry_size (de_name de) \<le> sz" using cs by (auto simp: collected_def)
    then have small: "\<forall>de \<in> set (dh_first ?dh). entry_size (de_name de) < 2 ^ 31" using sz by fastforce
    have b: "buf_ok ?dh" "dh_filled ?dh" using assms(1) False by (simp_all add: buf_ok_def)
    obtain dh' where dh': "readdir_fill_from_list (int 0) (?dh\<lparr>dh_needlen := sz\<rparr>) [] = Some (0, dh', [])"
      "buf_ok dh'" "dh_filled dh'" "dh_first dh' = ?des"
      "take (dh_len dh') (dh_contents dh') = dir_image (fitting sz ?des) 0"
      using readdir_from_list [OF b sz small, of 0] by auto
    have "list_directory fs f conf sz (Suc (length cs)) (int 0) dh = Some (dirents_from (drop 0 ?des) (int 0))"
    proof (rule list_directory_step [OF _ sz fits])
      show "fuse_readdir_common 0 fs f conf sz (int 0) dh [] = Some (Inr (dir_image (fitting sz (drop 0 ?des)) (int 0)), dh', [])"
        using fill False sz dh'(1,5) by (simp add: fuse_readdir_common_def)
      fix j assume "0 < j" "0 + j \<le> length ?des"
      with list_directory_from [OF dh'(2,3) sz, of "0 + j" "length cs" fs f conf] fits len des dh'(4)
      show "list_directory fs f conf sz (length cs) (int (0 + j)) dh' = Some (dirents_from (drop (0 + j) ?des) (int (0 + j)))"
        by simp
    qed (use des len in auto)
    then show ?thesis by simp
  qed
qed

theorem list_directory_complete_witness:
  "list_directory (\<lambda>_. ([\<lparr>fc_name = [46], fc_stat = None, fc_off = 0, fc_flags = 0\<rparr>, \<lparr>fc_name = [97, 98], fc_stat = None, fc_off = 0, fc_flags = 2\<rparr>], 0))
     (fuse_new 0 0 []) \<lparr>use_ino = False, readdir_ino = False\<rparr> 40 3 0 (new_dirhandle 1) =
   Some [(0xffffffff, 1, 0, [46]), (0xffffffff, 2, 0, [97, 98])]"
proof -
  let ?cs = "[\<lparr>fc_name = [46], fc_stat = None, fc_off = 0, fc_flags = 0\<rparr>, \<lparr>fc_name = [97, 98], fc_stat = None, fc_off = 0, fc_flags = 2\<rparr>]"
  have "list_directory (\<lambda>_. (?cs, 0)) (fuse_new 0 0 []) \<lparr>use_ino = False, readdir_ino = False\<rparr> 40 (Suc (length ?cs)) 0 (new_dirhandle 1) =
      Some (dirents_from (collected (fuse_new 0 0 []) \<lparr>use_ino = False, readdir_ino = False\<rparr> (dh_nodeid (new_dirhandle 1)) ?cs) 0)"
    by (rule list_directory_complete)
      (simp_all add: buf_ok_def new_dirhandle_def FUSE_FILL_DIR_PLUS_def entry_size_def FUSE_NAME_OFFSET_def FUSE_DIRENT_ALIGN_def)
  then show ?thesis
    by (simp add: collected_def entry_stat_def dirent_of_def zero_stat_def FUSE_UNKNOWN_INO_def eval_nat_numeral)
qed

end
