(* ===== verification/HighFs.thy ===== *)
theory HighFs
  imports Replies LockMachine DirHandle
begin

text \<open>
  The programs of the high-level library (\<^verbatim>\<open>lib/fuse.c\<close>) and its calls of the file system. A request
  handler is a tree of actions: getting and returning paths, asking the file system, answering the kernel, and
  the sections under \<^verbatim>\<open>f->lock\<close>. What the file system, the kernel and other requests do
  is the argument of the continuation, so that a handler says what it does next whatever comes back.
  \<^verbatim>\<open>fuse_prepare_interrupt\<close> and \<^verbatim>\<open>fuse_finish_interrupt\<close>, which only have the thread signalled, are left out,
  and so is what \<^verbatim>\<open>f->conf.debug\<close> prints.
\<close>

unbundle bit_operations_syntax

section \<open>The file system\<close>

type_synonym path = "u8 list option"
type_synonym tspec = "u64 \<times> u64"

datatype lock_cmd = Do_getlk | Do_setlk | Do_setlkw

text \<open>The operations of \<^verbatim>\<open>struct fuse_operations\<close> with the arguments they get; \<open>None\<close> as a path is a null pointer.\<close>

datatype fs_call =
    Fs_getattr path "fuse_file_info option"
  | Fs_readlink path nat
  | Fs_mknod path u32 u32
  | Fs_mkdir path u32
  | Fs_unlink path
  | Fs_rmdir path
  | Fs_symlink "u8 list" path
  | Fs_rename path path u32
  | Fs_link path path
  | Fs_chmod path u32 "fuse_file_info option"
  | Fs_chown path u32 u32 "fuse_file_info option"
  | Fs_truncate path u64 "fuse_file_info option"
  | Fs_open path fuse_file_info
  | Fs_read path nat u64 fuse_file_info
  | Fs_read_buf path nat u64 fuse_file_info
  | Fs_write path "u8 list" u64 fuse_file_info
  | Fs_write_buf path "u8 list" u64 fuse_file_info
  | Fs_statfs path
  | Fs_flush path fuse_file_info
  | Fs_release path fuse_file_info
  | Fs_fsync path bool fuse_file_info
  | Fs_setxattr path "u8 list" "u8 list" u32
  | Fs_getxattr path "u8 list" nat
  | Fs_listxattr path nat
  | Fs_removexattr path "u8 list"
  | Fs_opendir path fuse_file_info
  | Fs_readdir path u64 fuse_file_info u32
  | Fs_releasedir path fuse_file_info
  | Fs_fsyncdir path bool fuse_file_info
  | Fs_access path u32
  | Fs_create path u32 fuse_file_info
  | Fs_lock path fuse_file_info lock_cmd flock
  | Fs_utimens path tspec tspec "fuse_file_info option"
  | Fs_bmap path u64 u64
  | Fs_ioctl path u32 u64 fuse_file_info u32 "u8 list option"
  | Fs_poll path fuse_file_info "u64 option"
  | Fs_flock path fuse_file_info u32
  | Fs_fallocate path u32 u64 u64 fuse_file_info
  | Fs_copy_file_range path fuse_file_info u64 path fuse_file_info u64 u64 u64
  | Fs_lseek path u64 u32 fuse_file_info

fun call_paths :: "fs_call \<Rightarrow> path list" where
  "call_paths (Fs_getattr p fi) = [p]"
| "call_paths (Fs_readlink p n) = [p]"
| "call_paths (Fs_mknod p m d) = [p]"
| "call_paths (Fs_mkdir p m) = [p]"
| "call_paths (Fs_unlink p) = [p]"
| "call_paths (Fs_rmdir p) = [p]"
| "call_paths (Fs_symlink l p) = [p]"
| "call_paths (Fs_rename p q fl) = [p, q]"
| "call_paths (Fs_link p q) = [p, q]"
| "call_paths (Fs_chmod p m fi) = [p]"
| "call_paths (Fs_chown p u g fi) = [p]"
| "call_paths (Fs_truncate p n fi) = [p]"
| "call_paths (Fs_open p fi) = [p]"
| "call_paths (Fs_read p n off fi) = [p]"
| "call_paths (Fs_read_buf p n off fi) = [p]"
| "call_paths (Fs_write p d off fi) = [p]"
| "call_paths (Fs_write_buf p d off fi) = [p]"
| "call_paths (Fs_statfs p) = [p]"
| "call_paths (Fs_flush p fi) = [p]"
| "call_paths (Fs_release p fi) = [p]"
| "call_paths (Fs_fsync p d fi) = [p]"
| "call_paths (Fs_setxattr p n v fl) = [p]"
| "call_paths (Fs_getxattr p n k) = [p]"
| "call_paths (Fs_listxattr p k) = [p]"
| "call_paths (Fs_removexattr p n) = [p]"
| "call_paths (Fs_opendir p fi) = [p]"
| "call_paths (Fs_readdir p off fi fl) = [p]"
| "call_paths (Fs_releasedir p fi) = [p]"
| "call_paths (Fs_fsyncdir p d fi) = [p]"
| "call_paths (Fs_access p m) = [p]"
| "call_paths (Fs_create p m fi) = [p]"
| "call_paths (Fs_lock p fi c l) = [p]"
| "call_paths (Fs_utimens p a m fi) = [p]"
| "call_paths (Fs_bmap p b i) = [p]"
| "call_paths (Fs_ioctl p c a fi fl d) = [p]"
| "call_paths (Fs_poll p fi ph) = [p]"
| "call_paths (Fs_flock p fi opn) = [p]"
| "call_paths (Fs_fallocate p m off len fi) = [p]"
| "call_paths (Fs_copy_file_range p fi off q gi off' len fl) = [p, q]"
| "call_paths (Fs_lseek p off w fi) = [p]"

text \<open>What an operation returns, and what it has written through its pointers.\<close>

record fs_res =
  ret :: int
  r_stat :: stat
  r_bytes :: "u8 list"
  r_fi :: fuse_file_info
  r_statvfs :: statvfs
  r_flock :: flock
  r_num :: u64

text \<open>The names of the operations the file system has.\<close>

type_synonym fs_ops = "string \<Rightarrow> bool"

definition zero_statvfs :: statvfs where
  "zero_statvfs = \<lparr>f_bsize = 0, f_frsize = 0, f_blocks = 0, f_bfree = 0, f_bavail = 0, f_files = 0, f_ffree = 0, f_namemax = 0\<rparr>"

definition plain_res :: "int \<Rightarrow> fuse_file_info \<Rightarrow> fs_res" where
  "plain_res e fi = \<lparr>ret = e, r_stat = zero_stat, r_bytes = [], r_fi = fi, r_statvfs = zero_statvfs,
     r_flock = \<lparr>l_type = F_UNLCK, l_start = 0, l_len = 0, l_pid = 0\<rparr>, r_num = 0\<rparr>"

definition H_ENOENT :: int where "H_ENOENT = 2"
definition H_EIO :: int where "H_EIO = 5"
definition H_EPERM :: int where "H_EPERM = 1"
definition H_ENOMEM :: int where "H_ENOMEM = 12"
definition H_EBUSY :: int where "H_EBUSY = 16"
definition H_ENOSYS :: int where "H_ENOSYS = 38"
definition H_ESTALE :: int where "H_ESTALE = 116"

section \<open>State\<close>

record stat_info =
  si_mtime :: tspec
  si_size :: u64
  si_updated :: int

text \<open>
  The state of the library apart from the queue of those who wait for paths: the nodes, the counter of hidden names, the
  attributes kept for \<^verbatim>\<open>auto_cache\<close> by node, and the directory handles by address, with the file
  system's own handle.
\<close>

record hl =
  tree :: fuse
  hidectr :: u32
  sinfo :: "nat \<Rightarrow> stat_info"
  dirs :: "(u64 \<times> fuse_dh) option list"

text \<open>What a section under the lock leaves in the variables of the handler.\<close>

record val =
  v_err :: int
  v_num :: u64
  v_gen :: u32
  v_flag :: bool
  v_addr :: nat
  v_name :: "u8 list"
  v_path :: path
  v_lock :: "flock option"

definition no_val :: val where
  "no_val = \<lparr>v_err = 0, v_num = 0, v_gen = 0, v_flag = False, v_addr = 0, v_name = [], v_path = None, v_lock = None\<rparr>"

section \<open>Programs\<close>

text \<open>
  \<open>Ask\<close> calls the file system; the Boolean marks the calls about a hidden file, whose path is not locked. \<open>Answer\<close> sends a
  reply, none for \<^verbatim>\<open>fuse_reply_none\<close>; the Boolean that comes back says that the kernel does not know
  the request any more (\<^verbatim>\<open>-ENOENT\<close>). \<open>Locked\<close> is a section under the lock; \<open>None\<close> of it is an abort. \<open>Build\<close> is a
  section that makes the path of a hidden file with \<^verbatim>\<open>try_get_path\<close>, without locking it.
\<close>

datatype prog =
    Finished
  | Get_path waiting "int + granted \<Rightarrow> prog"
  | Put_path "(u64 \<times> nat option) list" prog
  | Ask bool fs_call "fs_res \<Rightarrow> prog"
  | Answer "reply option" "bool \<Rightarrow> prog"
  | Locked "hl \<Rightarrow> (val \<times> hl) option" "val \<Rightarrow> prog"
  | Build "hl \<Rightarrow> (val \<times> hl) option" "val \<Rightarrow> prog"
  | Forgetting u64 nat prog

fun path1 :: "granted \<Rightarrow> u8 list" where
  "path1 (Path p w) = p"
| "path1 (Paths p w q v) = p"

fun wnode1 :: "granted \<Rightarrow> nat option" where
  "wnode1 (Path p w) = w"
| "wnode1 (Paths p w q v) = w"

fun path2 :: "granted \<Rightarrow> u8 list" where
  "path2 (Path p w) = []"
| "path2 (Paths p w q v) = q"

fun wnode2 :: "granted \<Rightarrow> nat option" where
  "wnode2 (Path p w) = None"
| "wnode2 (Paths p w q v) = v"

section \<open>Calling the file system\<close>

definition ask_or :: "fs_ops \<Rightarrow> string \<Rightarrow> bool \<Rightarrow> fs_call \<Rightarrow> fs_res \<Rightarrow> (fs_res \<Rightarrow> prog) \<Rightarrow> prog" where
  "ask_or fs name hid c missing k = (if fs name then Ask hid c k else k missing)"

abbreviation missing :: "int \<Rightarrow> fs_res" where "missing e \<equiv> plain_res e zero_fi"

definition fuse_fs_getattr :: "fs_ops \<Rightarrow> bool \<Rightarrow> path \<Rightarrow> fuse_file_info option \<Rightarrow> (fs_res \<Rightarrow> prog) \<Rightarrow> prog" where
  "fuse_fs_getattr fs hid p fi = ask_or fs ''getattr'' hid (Fs_getattr p fi) (missing (- H_ENOSYS))"

definition fuse_fs_rename :: "fs_ops \<Rightarrow> bool \<Rightarrow> path \<Rightarrow> path \<Rightarrow> u32 \<Rightarrow> (fs_res \<Rightarrow> prog) \<Rightarrow> prog" where
  "fuse_fs_rename fs hid p q fl = ask_or fs ''rename'' hid (Fs_rename p q fl) (missing (- H_ENOSYS))"

definition fuse_fs_unlink :: "fs_ops \<Rightarrow> bool \<Rightarrow> path \<Rightarrow> (fs_res \<Rightarrow> prog) \<Rightarrow> prog" where
  "fuse_fs_unlink fs hid p = ask_or fs ''unlink'' hid (Fs_unlink p) (missing (- H_ENOSYS))"

definition fuse_fs_rmdir :: "fs_ops \<Rightarrow> path \<Rightarrow> (fs_res \<Rightarrow> prog) \<Rightarrow> prog" where
  "fuse_fs_rmdir fs p = ask_or fs ''rmdir'' False (Fs_rmdir p) (missing (- H_ENOSYS))"

definition fuse_fs_symlink :: "fs_ops \<Rightarrow> u8 list \<Rightarrow> path \<Rightarrow> (fs_res \<Rightarrow> prog) \<Rightarrow> prog" where
  "fuse_fs_symlink fs l p = ask_or fs ''symlink'' False (Fs_symlink l p) (missing (- H_ENOSYS))"

definition fuse_fs_link :: "fs_ops \<Rightarrow> path \<Rightarrow> path \<Rightarrow> (fs_res \<Rightarrow> prog) \<Rightarrow> prog" where
  "fuse_fs_link fs p q = ask_or fs ''link'' False (Fs_link p q) (missing (- H_ENOSYS))"

definition fuse_fs_release :: "fs_ops \<Rightarrow> path \<Rightarrow> fuse_file_info \<Rightarrow> (fs_res \<Rightarrow> prog) \<Rightarrow> prog" where
  "fuse_fs_release fs p fi = ask_or fs ''release'' False (Fs_release p fi) (plain_res 0 fi)"

definition fuse_fs_opendir :: "fs_ops \<Rightarrow> path \<Rightarrow> fuse_file_info \<Rightarrow> (fs_res \<Rightarrow> prog) \<Rightarrow> prog" where
  "fuse_fs_opendir fs p fi = ask_or fs ''opendir'' False (Fs_opendir p fi) (plain_res 0 fi)"

definition fuse_fs_open :: "fs_ops \<Rightarrow> path \<Rightarrow> fuse_file_info \<Rightarrow> (fs_res \<Rightarrow> prog) \<Rightarrow> prog" where
  "fuse_fs_open fs p fi = ask_or fs ''open'' False (Fs_open p fi) (plain_res 0 fi)"

text \<open>An allocation of a handler.\<close>

definition allocate :: "hl \<Rightarrow> (val \<times> hl) option" where
  "allocate s = (case alloc (fmem (tree s)) of (ok, m) \<Rightarrow> Some (no_val\<lparr>v_flag := ok\<rparr>, s\<lparr>tree := (tree s)\<lparr>fmem := m\<rparr>\<rparr>))"

text \<open>The bytes of the result are the contents of the buffer vector; a negative result is the error.\<close>

definition fuse_fs_read_buf :: "fs_ops \<Rightarrow> path \<Rightarrow> nat \<Rightarrow> u64 \<Rightarrow> fuse_file_info \<Rightarrow> (int \<times> u8 list \<Rightarrow> prog) \<Rightarrow> prog" where
  "fuse_fs_read_buf fs p sz off fi k =
     (if fs ''read'' \<or> fs ''read_buf'' then
        if fs ''read_buf'' then Ask False (Fs_read_buf p sz off fi) (\<lambda>r. k (min (ret r) 0, r_bytes r))
        else Locked allocate (\<lambda>v. if \<not> v_flag v then k (- H_ENOMEM, []) else
             Locked allocate (\<lambda>v. if \<not> v_flag v then k (- H_ENOMEM, []) else
             Ask False (Fs_read p sz off fi) (\<lambda>r. k (min (ret r) 0, take (nat (ret r)) (r_bytes r)))))
      else k (- H_ENOSYS, []))"

text \<open>The data of a write are in one memory buffer.\<close>

definition fuse_fs_write_buf :: "fs_ops \<Rightarrow> path \<Rightarrow> u8 list \<Rightarrow> u64 \<Rightarrow> fuse_file_info \<Rightarrow> (fs_res \<Rightarrow> prog) \<Rightarrow> prog" where
  "fuse_fs_write_buf fs p data off fi k =
     (if fs ''write_buf'' \<or> fs ''write'' then
        if fs ''write_buf'' then Ask False (Fs_write_buf p data off fi) k else Ask False (Fs_write p data off fi) k
      else k (missing (- H_ENOSYS)))"

definition fuse_fs_fsync :: "fs_ops \<Rightarrow> path \<Rightarrow> bool \<Rightarrow> fuse_file_info \<Rightarrow> (fs_res \<Rightarrow> prog) \<Rightarrow> prog" where
  "fuse_fs_fsync fs p d fi = ask_or fs ''fsync'' False (Fs_fsync p d fi) (missing (- H_ENOSYS))"

definition fuse_fs_fsyncdir :: "fs_ops \<Rightarrow> path \<Rightarrow> bool \<Rightarrow> fuse_file_info \<Rightarrow> (fs_res \<Rightarrow> prog) \<Rightarrow> prog" where
  "fuse_fs_fsyncdir fs p d fi = ask_or fs ''fsyncdir'' False (Fs_fsyncdir p d fi) (missing (- H_ENOSYS))"

definition fuse_fs_flush :: "fs_ops \<Rightarrow> path \<Rightarrow> fuse_file_info \<Rightarrow> (fs_res \<Rightarrow> prog) \<Rightarrow> prog" where
  "fuse_fs_flush fs p fi = ask_or fs ''flush'' False (Fs_flush p fi) (missing (- H_ENOSYS))"

definition fuse_fs_statfs :: "fs_ops \<Rightarrow> path \<Rightarrow> (fs_res \<Rightarrow> prog) \<Rightarrow> prog" where
  "fuse_fs_statfs fs p = ask_or fs ''statfs'' False (Fs_statfs p)
     ((missing 0)\<lparr>r_statvfs := zero_statvfs\<lparr>f_namemax := 255, f_bsize := 512\<rparr>\<rparr>)"

definition fuse_fs_releasedir :: "fs_ops \<Rightarrow> path \<Rightarrow> fuse_file_info \<Rightarrow> (fs_res \<Rightarrow> prog) \<Rightarrow> prog" where
  "fuse_fs_releasedir fs p fi = ask_or fs ''releasedir'' False (Fs_releasedir p fi) (plain_res 0 fi)"

text \<open>The entries that the file system passes to the filler while it runs are in \<open>DirHandle\<close>; here it is the call.\<close>

definition fuse_fs_readdir :: "fs_ops \<Rightarrow> path \<Rightarrow> u64 \<Rightarrow> fuse_file_info \<Rightarrow> u32 \<Rightarrow> (fs_res \<Rightarrow> prog) \<Rightarrow> prog" where
  "fuse_fs_readdir fs p off fi fl = ask_or fs ''readdir'' False (Fs_readdir p off fi fl) (missing (- H_ENOSYS))"

definition fuse_fs_create :: "fs_ops \<Rightarrow> path \<Rightarrow> u32 \<Rightarrow> fuse_file_info \<Rightarrow> (fs_res \<Rightarrow> prog) \<Rightarrow> prog" where
  "fuse_fs_create fs p mode fi = ask_or fs ''create'' False (Fs_create p mode fi) (plain_res (- H_ENOSYS) fi)"

definition fuse_fs_lock :: "fs_ops \<Rightarrow> path \<Rightarrow> fuse_file_info \<Rightarrow> lock_cmd \<Rightarrow> flock \<Rightarrow> (fs_res \<Rightarrow> prog) \<Rightarrow> prog" where
  "fuse_fs_lock fs p fi cmd l = ask_or fs ''lock'' False (Fs_lock p fi cmd l) ((missing (- H_ENOSYS))\<lparr>r_flock := l\<rparr>)"

definition fuse_fs_flock :: "fs_ops \<Rightarrow> path \<Rightarrow> fuse_file_info \<Rightarrow> u32 \<Rightarrow> (fs_res \<Rightarrow> prog) \<Rightarrow> prog" where
  "fuse_fs_flock fs p fi opn = ask_or fs ''flock'' False (Fs_flock p fi opn) (missing (- H_ENOSYS))"

definition fuse_fs_chown :: "fs_ops \<Rightarrow> path \<Rightarrow> u32 \<Rightarrow> u32 \<Rightarrow> fuse_file_info option \<Rightarrow> (fs_res \<Rightarrow> prog) \<Rightarrow> prog" where
  "fuse_fs_chown fs p u g fi = ask_or fs ''chown'' False (Fs_chown p u g fi) (missing (- H_ENOSYS))"

definition fuse_fs_chmod :: "fs_ops \<Rightarrow> path \<Rightarrow> u32 \<Rightarrow> fuse_file_info option \<Rightarrow> (fs_res \<Rightarrow> prog) \<Rightarrow> prog" where
  "fuse_fs_chmod fs p mode fi = ask_or fs ''chmod'' False (Fs_chmod p mode fi) (missing (- H_ENOSYS))"

definition fuse_fs_truncate :: "fs_ops \<Rightarrow> path \<Rightarrow> u64 \<Rightarrow> fuse_file_info option \<Rightarrow> (fs_res \<Rightarrow> prog) \<Rightarrow> prog" where
  "fuse_fs_truncate fs p sz fi = ask_or fs ''truncate'' False (Fs_truncate p sz fi) (missing (- H_ENOSYS))"

definition fuse_fs_utimens :: "fs_ops \<Rightarrow> path \<Rightarrow> tspec \<Rightarrow> tspec \<Rightarrow> fuse_file_info option \<Rightarrow> (fs_res \<Rightarrow> prog) \<Rightarrow> prog" where
  "fuse_fs_utimens fs p a m fi = ask_or fs ''utimens'' False (Fs_utimens p a m fi) (missing (- H_ENOSYS))"

definition fuse_fs_access :: "fs_ops \<Rightarrow> path \<Rightarrow> u32 \<Rightarrow> (fs_res \<Rightarrow> prog) \<Rightarrow> prog" where
  "fuse_fs_access fs p m = ask_or fs ''access'' False (Fs_access p m) (missing (- H_ENOSYS))"

definition fuse_fs_readlink :: "fs_ops \<Rightarrow> path \<Rightarrow> nat \<Rightarrow> (fs_res \<Rightarrow> prog) \<Rightarrow> prog" where
  "fuse_fs_readlink fs p len = ask_or fs ''readlink'' False (Fs_readlink p len) (missing (- H_ENOSYS))"

definition fuse_fs_mknod :: "fs_ops \<Rightarrow> path \<Rightarrow> u32 \<Rightarrow> u32 \<Rightarrow> (fs_res \<Rightarrow> prog) \<Rightarrow> prog" where
  "fuse_fs_mknod fs p mode rdev = ask_or fs ''mknod'' False (Fs_mknod p mode rdev) (missing (- H_ENOSYS))"

definition fuse_fs_mkdir :: "fs_ops \<Rightarrow> path \<Rightarrow> u32 \<Rightarrow> (fs_res \<Rightarrow> prog) \<Rightarrow> prog" where
  "fuse_fs_mkdir fs p mode = ask_or fs ''mkdir'' False (Fs_mkdir p mode) (missing (- H_ENOSYS))"

definition fuse_fs_setxattr :: "fs_ops \<Rightarrow> path \<Rightarrow> u8 list \<Rightarrow> u8 list \<Rightarrow> u32 \<Rightarrow> (fs_res \<Rightarrow> prog) \<Rightarrow> prog" where
  "fuse_fs_setxattr fs p name value fl = ask_or fs ''setxattr'' False (Fs_setxattr p name value fl) (missing (- H_ENOSYS))"

definition fuse_fs_getxattr :: "fs_ops \<Rightarrow> path \<Rightarrow> u8 list \<Rightarrow> nat \<Rightarrow> (fs_res \<Rightarrow> prog) \<Rightarrow> prog" where
  "fuse_fs_getxattr fs p name sz = ask_or fs ''getxattr'' False (Fs_getxattr p name sz) (missing (- H_ENOSYS))"

definition fuse_fs_listxattr :: "fs_ops \<Rightarrow> path \<Rightarrow> nat \<Rightarrow> (fs_res \<Rightarrow> prog) \<Rightarrow> prog" where
  "fuse_fs_listxattr fs p sz = ask_or fs ''listxattr'' False (Fs_listxattr p sz) (missing (- H_ENOSYS))"

definition fuse_fs_bmap :: "fs_ops \<Rightarrow> path \<Rightarrow> u64 \<Rightarrow> u64 \<Rightarrow> (fs_res \<Rightarrow> prog) \<Rightarrow> prog" where
  "fuse_fs_bmap fs p bs idx = ask_or fs ''bmap'' False (Fs_bmap p bs idx) (missing (- H_ENOSYS))"

definition fuse_fs_removexattr :: "fs_ops \<Rightarrow> path \<Rightarrow> u8 list \<Rightarrow> (fs_res \<Rightarrow> prog) \<Rightarrow> prog" where
  "fuse_fs_removexattr fs p name = ask_or fs ''removexattr'' False (Fs_removexattr p name) (missing (- H_ENOSYS))"

definition fuse_fs_ioctl :: "fs_ops \<Rightarrow> path \<Rightarrow> u32 \<Rightarrow> u64 \<Rightarrow> fuse_file_info \<Rightarrow> u32 \<Rightarrow> u8 list option \<Rightarrow> (fs_res \<Rightarrow> prog) \<Rightarrow> prog" where
  "fuse_fs_ioctl fs p cmd arg fi fl data = ask_or fs ''ioctl'' False (Fs_ioctl p cmd arg fi fl data) (missing (- H_ENOSYS))"

definition fuse_fs_poll :: "fs_ops \<Rightarrow> path \<Rightarrow> fuse_file_info \<Rightarrow> u64 option \<Rightarrow> (fs_res \<Rightarrow> prog) \<Rightarrow> prog" where
  "fuse_fs_poll fs p fi ph = ask_or fs ''poll'' False (Fs_poll p fi ph) (missing (- H_ENOSYS))"

definition fuse_fs_fallocate :: "fs_ops \<Rightarrow> path \<Rightarrow> u32 \<Rightarrow> u64 \<Rightarrow> u64 \<Rightarrow> fuse_file_info \<Rightarrow> (fs_res \<Rightarrow> prog) \<Rightarrow> prog" where
  "fuse_fs_fallocate fs p mode off len fi = ask_or fs ''fallocate'' False (Fs_fallocate p mode off len fi) (missing (- H_ENOSYS))"

definition fuse_fs_copy_file_range ::
  "fs_ops \<Rightarrow> path \<Rightarrow> fuse_file_info \<Rightarrow> u64 \<Rightarrow> path \<Rightarrow> fuse_file_info \<Rightarrow> u64 \<Rightarrow> u64 \<Rightarrow> u64 \<Rightarrow> (fs_res \<Rightarrow> prog) \<Rightarrow> prog" where
  "fuse_fs_copy_file_range fs p fi off q gi off' len fl =
     ask_or fs ''copy_file_range'' False (Fs_copy_file_range p fi off q gi off' len fl) (missing (- H_ENOSYS))"

definition fuse_fs_lseek :: "fs_ops \<Rightarrow> path \<Rightarrow> u64 \<Rightarrow> u32 \<Rightarrow> fuse_file_info \<Rightarrow> (fs_res \<Rightarrow> prog) \<Rightarrow> prog" where
  "fuse_fs_lseek fs p off whence fi = ask_or fs ''lseek'' False (Fs_lseek p off whence fi) (missing (- H_ENOSYS))"

lemmas fuse_fs_defs = fuse_fs_getattr_def fuse_fs_rename_def fuse_fs_unlink_def fuse_fs_rmdir_def fuse_fs_symlink_def fuse_fs_link_def
  fuse_fs_release_def fuse_fs_opendir_def fuse_fs_open_def fuse_fs_read_buf_def fuse_fs_write_buf_def fuse_fs_fsync_def fuse_fs_fsyncdir_def
  fuse_fs_flush_def fuse_fs_statfs_def fuse_fs_releasedir_def fuse_fs_readdir_def fuse_fs_create_def fuse_fs_lock_def fuse_fs_flock_def fuse_fs_chown_def
  fuse_fs_chmod_def fuse_fs_truncate_def fuse_fs_utimens_def fuse_fs_access_def fuse_fs_readlink_def fuse_fs_mknod_def fuse_fs_mkdir_def
  fuse_fs_setxattr_def fuse_fs_getxattr_def fuse_fs_listxattr_def fuse_fs_bmap_def fuse_fs_removexattr_def fuse_fs_ioctl_def fuse_fs_poll_def
  fuse_fs_fallocate_def fuse_fs_copy_file_range_def fuse_fs_lseek_def ask_or_def

end
