(* ===== verification/HighLib.thy ===== *)
theory HighLib
  imports HighFs
begin

text \<open>
  The request handlers of the high-level library (\<^verbatim>\<open>fuse_lib_*\<close> of \<^verbatim>\<open>lib/fuse.c\<close>), as programs over the actions of
  \<open>HighFs\<close>. Reading directories is in \<open>DirHandle\<close>; all other operations of \<^verbatim>\<open>fuse_path_ops\<close> that answer a request are here.
  \<^verbatim>\<open>HAVE_UTIMENSAT\<close> is defined, as it is on Linux. Times of \<^verbatim>\<open>auto_cache\<close> are those of the clock in \<open>tree\<close>.
\<close>

unbundle bit_operations_syntax

section \<open>Configuration\<close>

record fuse_config = dir_conf +
  set_gid :: bool
  cf_gid :: u32
  set_uid :: bool
  cf_uid :: u32
  set_mode :: bool
  cf_umask :: u32
  fmask :: u32
  dmask :: u32
  entry_timeout :: timeout
  negative_timeout :: timeout
  attr_timeout :: timeout
  hard_remove :: bool
  direct_io :: bool
  kernel_cache :: bool
  auto_cache :: bool
  ac_attr_timeout :: int
  nullpath_ok :: bool
  no_rofd_flush :: bool
  parallel_direct_writes :: bool

definition is_dir :: "u32 \<Rightarrow> bool" where "is_dir mode \<longleftrightarrow> mode AND S_IFMT = 0x4000"
definition is_reg :: "u32 \<Rightarrow> bool" where "is_reg mode \<longleftrightarrow> mode AND S_IFMT = 0x8000"

definition set_stat :: "fuse_config \<Rightarrow> u64 \<Rightarrow> stat \<Rightarrow> stat" where
  "set_stat cf ino st0 =
     (let st1 = (if use_ino cf then st0 else st0\<lparr>st_ino := ino\<rparr>);
          perm = (\<lambda>m. (st_mode st1 AND S_IFMT) OR (0x1ff AND NOT m));
          st2 = (if set_mode cf then
                   st1\<lparr>st_mode := (if dmask cf \<noteq> 0 \<and> is_dir (st_mode st1) then perm (dmask cf)
                                   else if fmask cf \<noteq> 0 then perm (fmask cf) else perm (cf_umask cf))\<rparr>
                 else st1);
          st3 = (if set_uid cf then st2\<lparr>st_uid := cf_uid cf\<rparr> else st2) in
      if set_gid cf then st3\<lparr>st_gid := cf_gid cf\<rparr> else st3)"

section \<open>Sections under the lock\<close>

abbreviation in_tree :: "(fuse \<Rightarrow> fuse option) \<Rightarrow> hl \<Rightarrow> (val \<times> hl) option" where
  "in_tree g s \<equiv> map_option (\<lambda>f. (no_val, s\<lparr>tree := f\<rparr>)) (g (tree s))"

definition update_stat :: "nat \<Rightarrow> stat \<Rightarrow> hl \<Rightarrow> (val \<times> hl) option" where
  "update_stat a st s = do {
     n \<leftarrow> node_at (tree s) a;
     let si = sinfo s a;
     let same = (si_mtime si = (st_mtime st, st_mtimensec st) \<and> si_size si = st_size st);
     Some (no_val, s\<lparr>tree := set_node a (n\<lparr>cache_valid := cache_valid n \<and> same\<rparr>) (tree s),
       sinfo := (sinfo s)(a := \<lparr>si_mtime = (st_mtime st, st_mtimensec st), si_size = st_size st, si_updated = clock (tree s)\<rparr>)\<rparr>)
   }"

definition update_ino :: "u64 \<Rightarrow> stat \<Rightarrow> hl \<Rightarrow> (val \<times> hl) option" where
  "update_ino ino st s = do {a \<leftarrow> get_node (tree s) ino; update_stat a st s}"

definition look_up :: "u64 \<Rightarrow> u8 list option \<Rightarrow> hl \<Rightarrow> (val \<times> hl) option" where
  "look_up ino name s = do {
     r \<leftarrow> find_node ino name (tree s);
     (found, g) \<leftarrow> r;
     (case found of
        None \<Rightarrow> Some (no_val\<lparr>v_err := - H_ENOMEM\<rparr>, s\<lparr>tree := g\<rparr>)
      | Some a \<Rightarrow> do {
          n \<leftarrow> node_at g a;
          Some (no_val\<lparr>v_num := nodeid n, v_gen := ngeneration n, v_addr := a\<rparr>, s\<lparr>tree := g\<rparr>)
        })
   }"

text \<open>The node of a request for \<^verbatim>\<open>.\<close>, which is kept while the request runs; the number of the parent for \<^verbatim>\<open>..\<close>.\<close>

definition hold_node :: "u64 \<Rightarrow> hl \<Rightarrow> (val \<times> hl) option" where
  "hold_node ino s =
     (case get_node_nocheck (tree s) ino of
        None \<Rightarrow> Some (no_val\<lparr>v_err := - H_ESTALE\<rparr>, s)
      | Some a \<Rightarrow> do {
          n \<leftarrow> node_at (tree s) a;
          Some (no_val\<lparr>v_addr := a\<rparr>, s\<lparr>tree := set_node a (n\<lparr>refctr := refctr n + 1\<rparr>) (tree s)\<rparr>)
        })"

definition parent_number :: "u64 \<Rightarrow> hl \<Rightarrow> (val \<times> hl) option" where
  "parent_number ino s = do {
     a \<leftarrow> get_node (tree s) ino;
     n \<leftarrow> node_at (tree s) a;
     p \<leftarrow> parent n;
     m \<leftarrow> node_at (tree s) p;
     Some (no_val\<lparr>v_num := nodeid m\<rparr>, s)
   }"

definition count_open :: "u64 \<Rightarrow> hl \<Rightarrow> (val \<times> hl) option" where
  "count_open ino s = do {
     a \<leftarrow> get_node (tree s) ino;
     n \<leftarrow> node_at (tree s) a;
     Some (no_val, s\<lparr>tree := set_node a (n\<lparr>open_count := open_count n + 1\<rparr>) (tree s)\<rparr>)
   }"

text \<open>The section of \<^verbatim>\<open>fuse_do_release\<close>: the flag says that a hidden file is to be removed.\<close>

definition count_release :: "u64 \<Rightarrow> hl \<Rightarrow> (val \<times> hl) option" where
  "count_release ino s = do {
     a \<leftarrow> get_node (tree s) ino;
     n \<leftarrow> node_at (tree s) a;
     if open_count n \<le> 0 then None
     else
       let gone = (is_hidden n \<and> open_count n = 1) in
       Some (no_val\<lparr>v_flag := gone\<rparr>,
         s\<lparr>tree := set_node a (n\<lparr>open_count := open_count n - 1, is_hidden := is_hidden n \<and> \<not> gone\<rparr>) (tree s)\<rparr>)
   }"

definition visible_stat :: "bool \<Rightarrow> stat \<Rightarrow> stat" where
  "visible_stat hidden st = (if hidden \<and> st_nlink st > 0 then st\<lparr>st_nlink := st_nlink st - 1\<rparr> else st)"

text \<open>The section of \<^verbatim>\<open>fuse_lib_getattr\<close>.\<close>

definition getattr_node :: "fuse_config \<Rightarrow> u64 \<Rightarrow> stat \<Rightarrow> hl \<Rightarrow> (val \<times> hl) option" where
  "getattr_node cf ino st s = do {
     a \<leftarrow> get_node (tree s) ino;
     n \<leftarrow> node_at (tree s) a;
     (_, s1) \<leftarrow> (if auto_cache cf then update_stat a (visible_stat (is_hidden n) st) s else Some (no_val, s));
     Some (no_val\<lparr>v_flag := is_hidden n\<rparr>, s1)
   }"

definition is_open :: "u64 \<Rightarrow> u8 list \<Rightarrow> hl \<Rightarrow> (val \<times> hl) option" where
  "is_open dir name s =
     (case lookup_node (tree s) dir name of
        None \<Rightarrow> Some (no_val, s)
      | Some a \<Rightarrow> do {n \<leftarrow> node_at (tree s) a; Some (no_val\<lparr>v_flag := open_count n > 0\<rparr>, s)})"

section \<open>Paths\<close>

definition get_path :: "u64 \<Rightarrow> (int + u8 list \<Rightarrow> prog) \<Rightarrow> prog" where
  "get_path ino k = Get_path (ForPath ino None False) (\<lambda>r. k (map_sum id path1 r))"

definition get_path_name :: "u64 \<Rightarrow> u8 list option \<Rightarrow> (int + u8 list \<Rightarrow> prog) \<Rightarrow> prog" where
  "get_path_name ino name k = Get_path (ForPath ino name False) (\<lambda>r. k (map_sum id path1 r))"

definition get_path_wrlock :: "u64 \<Rightarrow> u8 list \<Rightarrow> (int + u8 list \<times> nat option \<Rightarrow> prog) \<Rightarrow> prog" where
  "get_path_wrlock ino name k = Get_path (ForPath ino (Some name) True) (\<lambda>r. k (map_sum id (\<lambda>g. (path1 g, wnode1 g)) r))"

definition nullok_path :: "fuse_config \<Rightarrow> u64 \<Rightarrow> (int + path \<Rightarrow> prog) \<Rightarrow> prog" where
  "nullok_path cf ino k =
     (if nullpath_ok cf then k (Inr None)
      else Get_path (ForPath ino None False) (\<lambda>r.
        case r of Inl e \<Rightarrow> k (if e = - H_ESTALE then Inr None else Inl e) | Inr g \<Rightarrow> k (Inr (Some (path1 g)))))"

definition put_path :: "u64 \<Rightarrow> path \<Rightarrow> prog \<Rightarrow> prog" where
  "put_path ino p k = (case p of None \<Rightarrow> k | Some _ \<Rightarrow> Put_path [(ino, None)] k)"

text \<open>A path whose error is ignored: the pointer is null then.\<close>

definition path_or_null :: "int + path \<Rightarrow> path" where
  "path_or_null r = (case r of Inl _ \<Rightarrow> None | Inr p \<Rightarrow> p)"

section \<open>Replies and look-ups\<close>

definition reply_err_then :: "int \<Rightarrow> prog \<Rightarrow> prog" where
  "reply_err_then err k = Answer (Some (R_err (- err))) (\<lambda>_. k)"

abbreviation reply_err :: "int \<Rightarrow> prog" where
  "reply_err err \<equiv> reply_err_then err Finished"

definition zero_entry :: entry_param where
  "zero_entry = \<lparr>e_ino = 0, e_generation = 0, e_attr = zero_stat, e_attr_timeout = (0, 0), e_entry_timeout = (0, 0)\<rparr>"

definition reply_entry :: "entry_param \<Rightarrow> int \<Rightarrow> prog" where
  "reply_entry e err =
     (if err = 0 then Answer (Some (R_entry e)) (\<lambda>gone. if gone \<and> e_ino e \<noteq> 0 then Forgetting (e_ino e) 1 Finished else Finished)
      else reply_err err)"

definition hl_lookup :: "fuse_config \<Rightarrow> u64 \<Rightarrow> u8 list option \<Rightarrow> entry_param \<Rightarrow> (int \<Rightarrow> entry_param \<Rightarrow> prog) \<Rightarrow> prog" where
  "hl_lookup cf ino name e k =
     Locked (look_up ino name) (\<lambda>v.
       if v_err v \<noteq> 0 then k (v_err v) e
       else
         let e1 = e\<lparr>e_ino := v_num v, e_generation := ucast (v_gen v), e_entry_timeout := entry_timeout cf, e_attr_timeout := attr_timeout cf\<rparr>;
             rest = k 0 (e1\<lparr>e_attr := set_stat cf (e_ino e1) (e_attr e1)\<rparr>) in
         if auto_cache cf then Locked (update_stat (v_addr v) (e_attr e1)) (\<lambda>_. rest) else rest)"

definition lookup_path ::
  "fuse_config \<Rightarrow> fs_ops \<Rightarrow> u64 \<Rightarrow> u8 list option \<Rightarrow> u8 list \<Rightarrow> fuse_file_info option \<Rightarrow> (int \<Rightarrow> entry_param \<Rightarrow> prog) \<Rightarrow> prog" where
  "lookup_path cf fs ino name p fi k =
     fuse_fs_getattr fs False (Some p) fi (\<lambda>r.
       if ret r = 0 then hl_lookup cf ino name (zero_entry\<lparr>e_attr := r_stat r\<rparr>) k
       else k (ret r) (zero_entry\<lparr>e_attr := r_stat r\<rparr>))"

definition lookup_body :: "fuse_config \<Rightarrow> fs_ops \<Rightarrow> u64 \<Rightarrow> u8 list option \<Rightarrow> (prog \<Rightarrow> prog) \<Rightarrow> prog" where
  "lookup_body cf fs ino name before_reply =
     get_path_name ino name (\<lambda>r. case r of
         Inl err \<Rightarrow> before_reply (reply_entry zero_entry err)
       | Inr p \<Rightarrow> lookup_path cf fs ino name p None (\<lambda>err e.
           let (err1, e1) = (if err = - H_ENOENT \<and> negative_timeout cf \<noteq> (0, 0)
                             then (0, e\<lparr>e_ino := 0, e_entry_timeout := negative_timeout cf\<rparr>) else (err, e)) in
           put_path ino (Some p) (before_reply (reply_entry e1 err1))))"

definition fuse_lib_lookup :: "fuse_config \<Rightarrow> fs_ops \<Rightarrow> u64 \<Rightarrow> u8 list \<Rightarrow> prog" where
  "fuse_lib_lookup cf fs ino name =
     (if name = [46] then
        Locked (hold_node ino) (\<lambda>v.
          if v_err v \<noteq> 0 then reply_entry zero_entry (v_err v)
          else lookup_body cf fs ino None (\<lambda>k. Locked (in_tree (unref_node (v_addr v))) (\<lambda>_. k)))
      else if name = [46, 46] then Locked (parent_number ino) (\<lambda>v. lookup_body cf fs (v_num v) None id)
      else lookup_body cf fs ino (Some name) id)"

definition fuse_lib_forget :: "u64 \<Rightarrow> nat \<Rightarrow> prog" where
  "fuse_lib_forget ino n = Forgetting ino n (Answer None (\<lambda>_. Finished))"

fun fuse_lib_forget_multi :: "(u64 \<times> nat) list \<Rightarrow> prog" where
  "fuse_lib_forget_multi [] = Answer None (\<lambda>_. Finished)"
| "fuse_lib_forget_multi ((ino, n) # fs) = Forgetting ino n (fuse_lib_forget_multi fs)"

section \<open>Attributes\<close>

definition file_path :: "fuse_config \<Rightarrow> u64 \<Rightarrow> fuse_file_info option \<Rightarrow> (int + path \<Rightarrow> prog) \<Rightarrow> prog" where
  "file_path cf ino fi k = (if fi \<noteq> None then nullok_path cf ino k else get_path ino (\<lambda>r. k (map_sum id Some r)))"

definition fuse_lib_getattr :: "fuse_config \<Rightarrow> fs_ops \<Rightarrow> u64 \<Rightarrow> fuse_file_info option \<Rightarrow> prog" where
  "fuse_lib_getattr cf fs ino fi =
     file_path cf ino fi (\<lambda>r. case r of
         Inl err \<Rightarrow> reply_err err
       | Inr p \<Rightarrow> fuse_fs_getattr fs False p fi (\<lambda>r. put_path ino p
           (if ret r \<noteq> 0 then reply_err (ret r)
            else Locked (getattr_node cf ino (r_stat r)) (\<lambda>v.
              Answer (Some (R_attr (set_stat cf ino (visible_stat (v_flag v) (r_stat r))) (attr_timeout cf))) (\<lambda>_. Finished)))))"

abbreviation FUSE_SET_ATTR :: "nat \<Rightarrow> u32 \<Rightarrow> bool" where "FUSE_SET_ATTR i valid \<equiv> bit valid i"

definition UTIME_NOW :: u64 where "UTIME_NOW = 0x3fffffff"
definition UTIME_OMIT :: u64 where "UTIME_OMIT = 0x3ffffffe"

text \<open>The times passed to \<^verbatim>\<open>utimens\<close>: now, given, or not to be changed.\<close>

definition new_time :: "bool \<Rightarrow> bool \<Rightarrow> tspec \<Rightarrow> tspec" where
  "new_time now given t = (if now then (0, UTIME_NOW) else if given then t else (0, UTIME_OMIT))"

text \<open>One change that is made only if it is asked for and nothing has failed before.\<close>

definition change_if :: "bool \<Rightarrow> ((fs_res \<Rightarrow> prog) \<Rightarrow> prog) \<Rightarrow> (int \<Rightarrow> prog) \<Rightarrow> int \<Rightarrow> prog" where
  "change_if wanted call k err = (if err = 0 \<and> wanted then call (\<lambda>r. k (ret r)) else k err)"

definition setattr_reply :: "fuse_config \<Rightarrow> fs_ops \<Rightarrow> u64 \<Rightarrow> fuse_file_info option \<Rightarrow> path \<Rightarrow> int \<Rightarrow> prog" where
  "setattr_reply cf fs ino fi p err =
     (if err \<noteq> 0 then put_path ino p (reply_err err)
      else fuse_fs_getattr fs False p fi (\<lambda>r. put_path ino p
        (if ret r \<noteq> 0 then reply_err (ret r)
         else
           let answer = Answer (Some (R_attr (set_stat cf ino (r_stat r)) (attr_timeout cf))) (\<lambda>_. Finished) in
           if auto_cache cf then Locked (update_ino ino (r_stat r)) (\<lambda>_. answer) else answer)))"

definition fuse_lib_setattr :: "fuse_config \<Rightarrow> fs_ops \<Rightarrow> u64 \<Rightarrow> stat \<Rightarrow> u32 \<Rightarrow> fuse_file_info option \<Rightarrow> prog" where
  "fuse_lib_setattr cf fs ino attr valid fi =
     file_path cf ino fi (\<lambda>r. case r of
         Inl err \<Rightarrow> reply_err err
       | Inr p \<Rightarrow>
           change_if (FUSE_SET_ATTR 0 valid) (fuse_fs_chmod fs p (st_mode attr) fi)
          (change_if (FUSE_SET_ATTR 1 valid \<or> FUSE_SET_ATTR 2 valid)
             (fuse_fs_chown fs p (if FUSE_SET_ATTR 1 valid then st_uid attr else - 1) (if FUSE_SET_ATTR 2 valid then st_gid attr else - 1) fi)
          (change_if (FUSE_SET_ATTR 3 valid) (fuse_fs_truncate fs p (st_size attr) fi)
          (change_if (FUSE_SET_ATTR 4 valid \<or> FUSE_SET_ATTR 5 valid)
             (fuse_fs_utimens fs p (new_time (FUSE_SET_ATTR 7 valid) (FUSE_SET_ATTR 4 valid) (st_atime attr, st_atimensec attr))
                                   (new_time (FUSE_SET_ATTR 8 valid) (FUSE_SET_ATTR 5 valid) (st_mtime attr, st_mtimensec attr)) fi)
          (setattr_reply cf fs ino fi p)))) 0)"

section \<open>Requests with one path and one call\<close>

definition with_path :: "u64 \<Rightarrow> (path \<Rightarrow> (fs_res \<Rightarrow> prog) \<Rightarrow> prog) \<Rightarrow> (fs_res \<Rightarrow> prog) \<Rightarrow> prog" where
  "with_path ino call k =
     get_path ino (\<lambda>r. case r of Inl err \<Rightarrow> reply_err err | Inr p \<Rightarrow> call (Some p) (\<lambda>r. put_path ino (Some p) (k r)))"

definition with_nullok_path :: "fuse_config \<Rightarrow> u64 \<Rightarrow> (path \<Rightarrow> (fs_res \<Rightarrow> prog) \<Rightarrow> prog) \<Rightarrow> (fs_res \<Rightarrow> prog) \<Rightarrow> prog" where
  "with_nullok_path cf ino call k =
     nullok_path cf ino (\<lambda>r. case r of Inl err \<Rightarrow> reply_err err | Inr p \<Rightarrow> call p (\<lambda>r. put_path ino p (k r)))"

definition reply_result :: "(fs_res \<Rightarrow> reply) \<Rightarrow> fs_res \<Rightarrow> prog" where
  "reply_result answer r = (if ret r = 0 then Answer (Some (answer r)) (\<lambda>_. Finished) else reply_err (ret r))"

definition fuse_lib_access :: "fs_ops \<Rightarrow> u64 \<Rightarrow> u32 \<Rightarrow> prog" where
  "fuse_lib_access fs ino m = with_path ino (\<lambda>p. fuse_fs_access fs p m) (\<lambda>r. reply_err (ret r))"

definition PATH_MAX :: nat where "PATH_MAX = 4096"

definition fuse_lib_readlink :: "fs_ops \<Rightarrow> u64 \<Rightarrow> prog" where
  "fuse_lib_readlink fs ino =
     with_path ino (\<lambda>p. fuse_fs_readlink fs p (PATH_MAX + 1)) (reply_result (\<lambda>r. R_readlink (c_str (take PATH_MAX (r_bytes r)))))"

definition fuse_lib_statfs :: "fs_ops \<Rightarrow> u64 \<Rightarrow> prog" where
  "fuse_lib_statfs fs ino =
     (if ino = 0 then fuse_fs_statfs fs (Some [47]) (reply_result (\<lambda>r. R_statfs (r_statvfs r)))
      else with_path ino (fuse_fs_statfs fs) (reply_result (\<lambda>r. R_statfs (r_statvfs r))))"

definition fuse_lib_setxattr :: "fs_ops \<Rightarrow> u64 \<Rightarrow> u8 list \<Rightarrow> u8 list \<Rightarrow> u32 \<Rightarrow> prog" where
  "fuse_lib_setxattr fs ino name value fl = with_path ino (\<lambda>p. fuse_fs_setxattr fs p name value fl) (\<lambda>r. reply_err (ret r))"

definition fuse_lib_removexattr :: "fs_ops \<Rightarrow> u64 \<Rightarrow> u8 list \<Rightarrow> prog" where
  "fuse_lib_removexattr fs ino name = with_path ino (\<lambda>p. fuse_fs_removexattr fs p name) (\<lambda>r. reply_err (ret r))"

text \<open>The common part of \<^verbatim>\<open>fuse_lib_getxattr\<close> and \<^verbatim>\<open>fuse_lib_listxattr\<close>: data, or their size if the buffer has no size.\<close>

definition reply_xattr :: "nat \<Rightarrow> ((fs_res \<Rightarrow> prog) \<Rightarrow> prog) \<Rightarrow> prog" where
  "reply_xattr sz call =
     (if sz \<noteq> 0 then
        Locked allocate (\<lambda>v.
          if \<not> v_flag v then reply_err (- H_ENOMEM)
          else call (\<lambda>r. if ret r > 0 then Answer (Some (R_buf (take (nat (ret r)) (r_bytes r)))) (\<lambda>_. Finished) else reply_err (ret r)))
      else call (\<lambda>r. if ret r \<ge> 0 then Answer (Some (R_xattr (word_of_int (ret r)))) (\<lambda>_. Finished) else reply_err (ret r)))"

definition fuse_lib_getxattr :: "fs_ops \<Rightarrow> u64 \<Rightarrow> u8 list \<Rightarrow> nat \<Rightarrow> prog" where
  "fuse_lib_getxattr fs ino name sz = reply_xattr sz (with_path ino (\<lambda>p. fuse_fs_getxattr fs p name sz))"

definition fuse_lib_listxattr :: "fs_ops \<Rightarrow> u64 \<Rightarrow> nat \<Rightarrow> prog" where
  "fuse_lib_listxattr fs ino sz = reply_xattr sz (with_path ino (\<lambda>p. fuse_fs_listxattr fs p sz))"

definition fuse_lib_bmap :: "fs_ops \<Rightarrow> u64 \<Rightarrow> u64 \<Rightarrow> u64 \<Rightarrow> prog" where
  "fuse_lib_bmap fs ino bs idx = with_path ino (\<lambda>p. fuse_fs_bmap fs p bs idx) (reply_result (\<lambda>r. R_bmap (r_num r)))"

definition fuse_lib_fsync :: "fuse_config \<Rightarrow> fs_ops \<Rightarrow> u64 \<Rightarrow> bool \<Rightarrow> fuse_file_info \<Rightarrow> prog" where
  "fuse_lib_fsync cf fs ino d fi = with_nullok_path cf ino (\<lambda>p. fuse_fs_fsync fs p d fi) (\<lambda>r. reply_err (ret r))"

definition fuse_lib_flock :: "fuse_config \<Rightarrow> fs_ops \<Rightarrow> u64 \<Rightarrow> fuse_file_info \<Rightarrow> u32 \<Rightarrow> prog" where
  "fuse_lib_flock cf fs ino fi opn = with_nullok_path cf ino (\<lambda>p. fuse_fs_flock fs p fi opn) (\<lambda>r. reply_err (ret r))"

definition fuse_lib_poll :: "fuse_config \<Rightarrow> fs_ops \<Rightarrow> u64 \<Rightarrow> fuse_file_info \<Rightarrow> u64 option \<Rightarrow> prog" where
  "fuse_lib_poll cf fs ino fi ph =
     with_nullok_path cf ino (\<lambda>p. fuse_fs_poll fs p fi ph) (reply_result (\<lambda>r. R_poll (ucast (r_num r))))"

definition fuse_lib_fallocate :: "fuse_config \<Rightarrow> fs_ops \<Rightarrow> u64 \<Rightarrow> u32 \<Rightarrow> u64 \<Rightarrow> u64 \<Rightarrow> fuse_file_info \<Rightarrow> prog" where
  "fuse_lib_fallocate cf fs ino mode off len fi =
     with_nullok_path cf ino (\<lambda>p. fuse_fs_fallocate fs p mode off len fi) (\<lambda>r. reply_err (ret r))"

definition fuse_lib_lseek :: "fs_ops \<Rightarrow> u64 \<Rightarrow> u64 \<Rightarrow> u32 \<Rightarrow> fuse_file_info \<Rightarrow> prog" where
  "fuse_lib_lseek fs ino off whence fi =
     with_path ino (\<lambda>p. fuse_fs_lseek fs p off whence fi) (\<lambda>r.
       if ret r \<ge> 0 then Answer (Some (R_lseek (word_of_int (ret r)))) (\<lambda>_. Finished) else reply_err (ret r))"

definition fuse_lib_read :: "fuse_config \<Rightarrow> fs_ops \<Rightarrow> u64 \<Rightarrow> nat \<Rightarrow> u64 \<Rightarrow> fuse_file_info \<Rightarrow> prog" where
  "fuse_lib_read cf fs ino sz off fi =
     nullok_path cf ino (\<lambda>r. case r of
         Inl err \<Rightarrow> reply_err err
       | Inr p \<Rightarrow> fuse_fs_read_buf fs p sz off fi (\<lambda>(res, data). put_path ino p
           (if res = 0 then Answer (Some (R_buf data)) (\<lambda>_. Finished) else reply_err res)))"

definition fuse_lib_write_buf :: "fuse_config \<Rightarrow> fs_ops \<Rightarrow> u64 \<Rightarrow> u8 list \<Rightarrow> u64 \<Rightarrow> fuse_file_info \<Rightarrow> prog" where
  "fuse_lib_write_buf cf fs ino data off fi =
     with_nullok_path cf ino (\<lambda>p. fuse_fs_write_buf fs p data off fi) (\<lambda>r.
       if ret r \<ge> 0 then Answer (Some (R_write (word_of_int (ret r)))) (\<lambda>_. Finished) else reply_err (ret r))"

section \<open>Names\<close>

text \<open>A new name: the operation on the path, and then a look-up of what is there.\<close>

definition make_entry :: "fuse_config \<Rightarrow> fs_ops \<Rightarrow> u64 \<Rightarrow> u8 list \<Rightarrow> (path \<Rightarrow> (fs_res \<Rightarrow> prog) \<Rightarrow> prog) \<Rightarrow> prog" where
  "make_entry cf fs dir name call =
     get_path_name dir (Some name) (\<lambda>r. case r of
         Inl err \<Rightarrow> reply_entry zero_entry err
       | Inr p \<Rightarrow> call (Some p) (\<lambda>r.
           if ret r \<noteq> 0 then put_path dir (Some p) (reply_entry zero_entry (ret r))
           else lookup_path cf fs dir (Some name) p None (\<lambda>err e. put_path dir (Some p) (reply_entry e err))))"

definition fuse_lib_mkdir :: "fuse_config \<Rightarrow> fs_ops \<Rightarrow> u64 \<Rightarrow> u8 list \<Rightarrow> u32 \<Rightarrow> prog" where
  "fuse_lib_mkdir cf fs dir name mode = make_entry cf fs dir name (\<lambda>p. fuse_fs_mkdir fs p mode)"

definition fuse_lib_symlink :: "fuse_config \<Rightarrow> fs_ops \<Rightarrow> u8 list \<Rightarrow> u64 \<Rightarrow> u8 list \<Rightarrow> prog" where
  "fuse_lib_symlink cf fs link dir name = make_entry cf fs dir name (fuse_fs_symlink fs link)"

definition mknod_flags :: u32 where "mknod_flags = 0xc1"

text \<open>The second part of \<^verbatim>\<open>fuse_lib_mknod\<close>, for what is not a regular file or could not be created as one.\<close>

definition mknod_or_leave :: "fuse_config \<Rightarrow> fs_ops \<Rightarrow> u64 \<Rightarrow> u8 list \<Rightarrow> u32 \<Rightarrow> u32 \<Rightarrow> u8 list \<Rightarrow> int \<Rightarrow> entry_param \<Rightarrow> prog" where
  "mknod_or_leave cf fs dir name mode rdev p err e =
     (let leave = (\<lambda>err e. put_path dir (Some p) (reply_entry e err)) in
      if err = - H_ENOSYS then
        fuse_fs_mknod fs (Some p) mode rdev (\<lambda>r.
          if ret r \<noteq> 0 then leave (ret r) e else lookup_path cf fs dir (Some name) p None leave)
      else leave err e)"

definition fuse_lib_mknod :: "fuse_config \<Rightarrow> fs_ops \<Rightarrow> u64 \<Rightarrow> u8 list \<Rightarrow> u32 \<Rightarrow> u32 \<Rightarrow> prog" where
  "fuse_lib_mknod cf fs dir name mode rdev =
     get_path_name dir (Some name) (\<lambda>r. case r of
         Inl err \<Rightarrow> reply_entry zero_entry err
       | Inr p \<Rightarrow>
           if is_reg mode then
             fuse_fs_create fs (Some p) mode (zero_fi\<lparr>fi_flags := mknod_flags\<rparr>) (\<lambda>r.
               if ret r \<noteq> 0 then mknod_or_leave cf fs dir name mode rdev p (ret r) zero_entry
               else lookup_path cf fs dir (Some name) p (Some (r_fi r)) (\<lambda>err e.
                 fuse_fs_release fs (Some p) (r_fi r) (\<lambda>_. mknod_or_leave cf fs dir name mode rdev p err e)))
           else mknod_or_leave cf fs dir name mode rdev p (- H_ENOSYS) zero_entry)"

subsection \<open>Removing and renaming\<close>

definition hex_digit :: "nat \<Rightarrow> u8" where
  "hex_digit d = (if d < 10 then of_nat (48 + d) else of_nat (87 + d))"

definition hex8 :: "u32 \<Rightarrow> u8 list" where
  "hex8 w = map (\<lambda>i. hex_digit (unat (drop_bit (4 * i) w AND 15))) [7, 6, 5, 4, 3, 2, 1, 0]"

text \<open>The bytes of \<^verbatim>\<open>.fuse_hidden\<close> and two numbers of eight digits.\<close>

definition hidden_name_of :: "u64 \<Rightarrow> u32 \<Rightarrow> u8 list" where
  "hidden_name_of ino c = [46, 102, 117, 115, 101, 95, 104, 105, 100, 100, 101, 110] @ hex8 (ucast ino) @ hex8 c"

text \<open>The inner loop of \<^verbatim>\<open>hidden_name\<close>: the next counter whose name is not in use; \<open>None\<close> if there is none.\<close>

partial_function (option) next_hidden :: "fuse \<Rightarrow> u64 \<Rightarrow> u64 \<Rightarrow> u32 \<Rightarrow> u32 option" where
  "next_hidden f dir ino c =
     (let c1 = c + 1 in
      if lookup_node f dir (hidden_name_of ino c1) = None then Some c1 else next_hidden f dir ino c1)"

definition hide_try :: "u64 \<Rightarrow> u8 list \<Rightarrow> hl \<Rightarrow> (val \<times> hl) option" where
  "hide_try dir oldname s =
     (case lookup_node (tree s) dir oldname of
        None \<Rightarrow> Some (no_val, s)
      | Some a \<Rightarrow> do {
          n \<leftarrow> node_at (tree s) a;
          c \<leftarrow> next_hidden (tree s) dir (nodeid n) (hidectr s);
          let newname = hidden_name_of (nodeid n) c;
          (r, g) \<leftarrow> try_get_path dir (Some newname) False False (tree s);
          Some (no_val\<lparr>v_name := newname, v_path := (case r of Inl _ \<Rightarrow> None | Inr (p, _) \<Rightarrow> Some p)\<rparr>, s\<lparr>tree := g, hidectr := c\<rparr>)
        })"

text \<open>The argument is \<^verbatim>\<open>failctr\<close>; the continuation gets the new name and path, if there is one.\<close>

fun hidden_name :: "nat \<Rightarrow> fs_ops \<Rightarrow> u64 \<Rightarrow> u8 list \<Rightarrow> (u8 list \<times> path \<Rightarrow> prog) \<Rightarrow> prog" where
  "hidden_name 0 fs dir oldname k = k ([], None)"
| "hidden_name (Suc n) fs dir oldname k =
     Build (hide_try dir oldname) (\<lambda>v.
       if v_path v = None then k ([], None)
       else fuse_fs_getattr fs True (v_path v) None (\<lambda>r.
         if ret r = - H_ENOENT then k (v_name v, v_path v)
         else if ret r = 0 then hidden_name n fs dir oldname k
         else k ([], None)))"

definition rename_section :: "(fuse \<Rightarrow> (int \<times> fuse) option) \<Rightarrow> hl \<Rightarrow> (val \<times> hl) option" where
  "rename_section ch s = map_option (\<lambda>(err, g). (no_val\<lparr>v_err := err\<rparr>, s\<lparr>tree := g\<rparr>)) (ch (tree s))"

definition hide_node :: "fs_ops \<Rightarrow> u8 list \<Rightarrow> u64 \<Rightarrow> u8 list \<Rightarrow> (int \<Rightarrow> prog) \<Rightarrow> prog" where
  "hide_node fs oldpath dir oldname k =
     hidden_name 10 fs dir oldname (\<lambda>(newname, newpath).
       if newpath = None then k (- H_EBUSY)
       else fuse_fs_rename fs True (Some oldpath) newpath 0 (\<lambda>r.
         if ret r \<noteq> 0 then k (ret r)
         else Locked (rename_section (rename_node dir oldname dir newname True)) (\<lambda>v. k (v_err v))))"

text \<open>
  After hiding: the name that the node which was write-locked has now, to see whether it is open and to remove it; and its path
  without locks. The name and the number of the node are read, and the path is made, without \<^verbatim>\<open>f->lock\<close> in the code; each of these
  is one step here.
\<close>

definition entry_name :: "nat option \<Rightarrow> hl \<Rightarrow> (val \<times> hl) option" where
  "entry_name wnode s = do {
     w \<leftarrow> wnode;
     n \<leftarrow> node_at (tree s) w;
     name \<leftarrow> nname n;
     Some (no_val\<lparr>v_name := name\<rparr>, s)
   }"

definition hidden_path :: "nat option \<Rightarrow> hl \<Rightarrow> (val \<times> hl) option" where
  "hidden_path wnode s = do {
     w \<leftarrow> wnode;
     n \<leftarrow> node_at (tree s) w;
     (r, g) \<leftarrow> try_get_path (nodeid n) None False False (tree s);
     Some (no_val\<lparr>v_path := (case r of Inl _ \<Rightarrow> None | Inr (p, _) \<Rightarrow> Some p)\<rparr>, s\<lparr>tree := g\<rparr>)
   }"

definition fuse_lib_unlink :: "fuse_config \<Rightarrow> fs_ops \<Rightarrow> u64 \<Rightarrow> u8 list \<Rightarrow> prog" where
  "fuse_lib_unlink cf fs dir name =
     get_path_wrlock dir name (\<lambda>r. case r of
         Inl err \<Rightarrow> reply_err err
       | Inr (p, wnode) \<Rightarrow>
           let leave = (\<lambda>err. Put_path [(dir, wnode)] (reply_err err));
               plain = fuse_fs_unlink fs False (Some p) (\<lambda>r.
                 if ret r \<noteq> 0 then leave (ret r) else Locked (in_tree (remove_node dir name)) (\<lambda>_. leave 0));
               hide = hide_node fs p dir name (\<lambda>err.
                 if err \<noteq> 0 then leave err
                 else Locked (entry_name wnode) (\<lambda>v. Locked (is_open dir (v_name v)) (\<lambda>v.
                   if v_flag v then leave 0
                   else Build (hidden_path wnode) (\<lambda>v.
                     if v_path v = None then leave 0
                     else fuse_fs_unlink fs True (v_path v) (\<lambda>r.
                       if ret r \<noteq> 0 then leave (ret r)
                       else Locked (entry_name wnode) (\<lambda>v. Locked (in_tree (remove_node dir (v_name v))) (\<lambda>_. leave 0))))))) in
           if hard_remove cf then plain
           else Locked (is_open dir name) (\<lambda>v. if v_flag v then hide else plain))"

definition fuse_lib_rmdir :: "fs_ops \<Rightarrow> u64 \<Rightarrow> u8 list \<Rightarrow> prog" where
  "fuse_lib_rmdir fs dir name =
     get_path_wrlock dir name (\<lambda>r. case r of
         Inl err \<Rightarrow> reply_err err
       | Inr (p, wnode) \<Rightarrow> fuse_fs_rmdir fs (Some p) (\<lambda>r.
           let leave = Put_path [(dir, wnode)] (reply_err (ret r)) in
           if ret r \<noteq> 0 then leave else Locked (in_tree (remove_node dir name)) (\<lambda>_. leave)))"

definition RENAME_EXCHANGE :: u32 where "RENAME_EXCHANGE = 2"

definition fuse_lib_rename :: "fuse_config \<Rightarrow> fs_ops \<Rightarrow> u64 \<Rightarrow> u8 list \<Rightarrow> u64 \<Rightarrow> u8 list \<Rightarrow> u32 \<Rightarrow> prog" where
  "fuse_lib_rename cf fs olddir oldname newdir newname fl =
     Get_path (ForPaths olddir (Some oldname) True newdir (Some newname) True) (\<lambda>r. case r of
         Inl err \<Rightarrow> reply_err err
       | Inr g \<Rightarrow>
           let leave = (\<lambda>err. Put_path [(olddir, wnode1 g), (newdir, wnode2 g)] (reply_err err));
               exchange = (fl AND RENAME_EXCHANGE \<noteq> 0);
               move = (\<lambda>err.
                 if err \<noteq> 0 then leave err
                 else fuse_fs_rename fs False (Some (path1 g)) (Some (path2 g)) fl (\<lambda>r.
                   if ret r \<noteq> 0 then leave (ret r)
                   else Locked (rename_section
                     (if exchange then exchange_node olddir oldname newdir newname else rename_node olddir oldname newdir newname False))
                     (\<lambda>v. leave (v_err v)))) in
           if hard_remove cf \<or> exchange then move 0
           else Locked (is_open newdir newname) (\<lambda>v. if v_flag v then hide_node fs (path2 g) newdir newname move else move 0))"

definition fuse_lib_link :: "fuse_config \<Rightarrow> fs_ops \<Rightarrow> u64 \<Rightarrow> u64 \<Rightarrow> u8 list \<Rightarrow> prog" where
  "fuse_lib_link cf fs ino newdir newname =
     Get_path (ForPaths ino None False newdir (Some newname) False) (\<lambda>r. case r of
         Inl err \<Rightarrow> reply_entry zero_entry err
       | Inr g \<Rightarrow>
           let leave = (\<lambda>err e. Put_path [(ino, None), (newdir, None)] (reply_entry e err)) in
           fuse_fs_link fs (Some (path1 g)) (Some (path2 g)) (\<lambda>r.
             if ret r \<noteq> 0 then leave (ret r) zero_entry
             else lookup_path cf fs newdir (Some newname) (path2 g) None leave))"

section \<open>Open files\<close>

definition fuse_do_release :: "fuse_config \<Rightarrow> fs_ops \<Rightarrow> u64 \<Rightarrow> path \<Rightarrow> fuse_file_info \<Rightarrow> prog \<Rightarrow> prog" where
  "fuse_do_release cf fs ino p fi k =
     fuse_fs_release fs p fi (\<lambda>_.
       Locked (count_release ino) (\<lambda>v.
         if \<not> v_flag v then k
         else if p \<noteq> None then fuse_fs_unlink fs False p (\<lambda>_. k)
         else if nullpath_ok cf then
           get_path ino (\<lambda>r. case r of Inl _ \<Rightarrow> k | Inr q \<Rightarrow> fuse_fs_unlink fs False (Some q) (\<lambda>_. put_path ino (Some q) k))
         else k))"

text \<open>What the configuration adds to the file information after \<^verbatim>\<open>create\<close> and \<^verbatim>\<open>open\<close>.\<close>

definition conf_fi :: "fuse_config \<Rightarrow> fuse_file_info \<Rightarrow> fuse_file_info" where
  "conf_fi cf fi = fi\<lparr>fi_direct_io := fi_direct_io fi \<or> direct_io cf, fi_keep_cache := fi_keep_cache fi \<or> kernel_cache cf\<rparr>"

definition parallel_fi :: "fuse_config \<Rightarrow> fuse_file_info \<Rightarrow> fuse_file_info" where
  "parallel_fi cf fi = fi\<lparr>fi_parallel_direct_writes := fi_parallel_direct_writes fi \<or> fi_direct_io fi \<and> parallel_direct_writes cf\<rparr>"

definition fuse_lib_create :: "fuse_config \<Rightarrow> fs_ops \<Rightarrow> u64 \<Rightarrow> u8 list \<Rightarrow> u32 \<Rightarrow> fuse_file_info \<Rightarrow> prog" where
  "fuse_lib_create cf fs dir name mode fi =
     get_path_name dir (Some name) (\<lambda>r. case r of
         Inl err \<Rightarrow> reply_err err
       | Inr p \<Rightarrow>
           let leave = put_path dir (Some p) Finished in
           fuse_fs_create fs (Some p) mode fi (\<lambda>r.
             if ret r \<noteq> 0 then reply_err_then (ret r) leave
             else lookup_path cf fs dir (Some name) p (Some (r_fi r)) (\<lambda>err e.
               if err \<noteq> 0 then fuse_fs_release fs (Some p) (r_fi r) (\<lambda>_. reply_err_then err leave)
               else if \<not> is_reg (st_mode (e_attr e)) then
                 fuse_fs_release fs (Some p) (r_fi r) (\<lambda>_. Forgetting (e_ino e) 1 (reply_err_then (- H_EIO) leave))
               else
                 let fi1 = parallel_fi cf (conf_fi cf (r_fi r)) in
                 Locked (count_open (e_ino e)) (\<lambda>_.
                   Answer (Some (R_create e fi1)) (\<lambda>gone.
                     if gone then fuse_do_release cf fs (e_ino e) (Some p) fi1 (Forgetting (e_ino e) 1 leave) else leave)))))"

text \<open>\<^verbatim>\<open>open_auto_cache\<close>: the flag asks for new attributes; the number is that the cache may be kept.\<close>

definition keep_cached :: "nat \<Rightarrow> hl \<Rightarrow> (val \<times> hl) option" where
  "keep_cached a s = do {
     n \<leftarrow> node_at (tree s) a;
     Some (no_val\<lparr>v_num := (if cache_valid n then 1 else 0)\<rparr>, s\<lparr>tree := set_node a (n\<lparr>cache_valid := True\<rparr>) (tree s)\<rparr>)
   }"

definition cache_start :: "fuse_config \<Rightarrow> u64 \<Rightarrow> hl \<Rightarrow> (val \<times> hl) option" where
  "cache_start cf ino s = do {
     a \<leftarrow> get_node (tree s) ino;
     n \<leftarrow> node_at (tree s) a;
     if cache_valid n \<and> clock (tree s) - si_updated (sinfo s a) > ac_attr_timeout cf then Some (no_val\<lparr>v_flag := True, v_addr := a\<rparr>, s)
     else keep_cached a s
   }"

definition cache_finish :: "nat \<Rightarrow> fs_res \<Rightarrow> hl \<Rightarrow> (val \<times> hl) option" where
  "cache_finish a r s =
     (if ret r = 0 then do {(_, s1) \<leftarrow> update_stat a (r_stat r) s; keep_cached a s1}
      else do {n \<leftarrow> node_at (tree s) a; keep_cached a (s\<lparr>tree := set_node a (n\<lparr>cache_valid := False\<rparr>) (tree s)\<rparr>)})"

definition open_auto_cache :: "fuse_config \<Rightarrow> fs_ops \<Rightarrow> u64 \<Rightarrow> u8 list \<Rightarrow> fuse_file_info \<Rightarrow> (fuse_file_info \<Rightarrow> prog) \<Rightarrow> prog" where
  "open_auto_cache cf fs ino p fi k =
     Locked (cache_start cf ino) (\<lambda>v.
       let kept = (\<lambda>v. k (fi\<lparr>fi_keep_cache := fi_keep_cache fi \<or> v_num v \<noteq> 0\<rparr>)) in
       if v_flag v then fuse_fs_getattr fs False (Some p) (Some fi) (\<lambda>r. Locked (cache_finish (v_addr v) r) kept) else kept v)"

definition fuse_lib_open :: "fuse_config \<Rightarrow> fs_ops \<Rightarrow> u64 \<Rightarrow> fuse_file_info \<Rightarrow> prog" where
  "fuse_lib_open cf fs ino fi =
     get_path ino (\<lambda>r. case r of
         Inl err \<Rightarrow> reply_err err
       | Inr p \<Rightarrow>
           let leave = put_path ino (Some p) Finished;
               opened = (\<lambda>fi1.
                 let fi2 = parallel_fi cf (fi1\<lparr>fi_noflush := fi_noflush fi1 \<or> no_rofd_flush cf \<and> fi_flags fi1 AND 3 = 0\<rparr>) in
                 Locked (count_open ino) (\<lambda>_.
                   Answer (Some (R_open fi2)) (\<lambda>gone. if gone then fuse_do_release cf fs ino (Some p) fi2 leave else leave))) in
           fuse_fs_open fs (Some p) fi (\<lambda>r.
             if ret r \<noteq> 0 then reply_err_then (ret r) leave
             else if auto_cache cf then open_auto_cache cf fs ino p (conf_fi cf (r_fi r)) opened
             else opened (conf_fi cf (r_fi r))))"

section \<open>Directories\<close>

definition new_dir :: "u64 \<Rightarrow> hl \<Rightarrow> (val \<times> hl) option" where
  "new_dir ino s = do {
     (v, s1) \<leftarrow> allocate s;
     Some (if v_flag v then (v\<lparr>v_addr := length (dirs s1)\<rparr>, s1\<lparr>dirs := dirs s1 @ [Some (0, new_dirhandle ino)]\<rparr>) else (v, s1))
   }"

definition dir_at :: "nat \<Rightarrow> hl \<Rightarrow> (u64 \<times> fuse_dh) option" where
  "dir_at a s = (if a < length (dirs s) then dirs s ! a else None)"

definition set_dir_fh :: "nat \<Rightarrow> u64 \<Rightarrow> hl \<Rightarrow> (val \<times> hl) option" where
  "set_dir_fh a fh s = do {(_, dh) \<leftarrow> dir_at a s; Some (no_val, s\<lparr>dirs := (dirs s)[a := Some (fh, dh)]\<rparr>)}"

definition free_dir :: "nat \<Rightarrow> hl \<Rightarrow> (val \<times> hl) option" where
  "free_dir a s = do {_ \<leftarrow> dir_at a s; Some (no_val, s\<lparr>dirs := (dirs s)[a := None]\<rparr>)}"

text \<open>\<^verbatim>\<open>get_dirhandle\<close>: the handle of the file system.\<close>

definition get_dirhandle :: "fuse_file_info \<Rightarrow> hl \<Rightarrow> (val \<times> hl) option" where
  "get_dirhandle llfi s = do {(fh, _) \<leftarrow> dir_at (unat (fi_fh llfi)) s; Some (no_val\<lparr>v_num := fh, v_addr := unat (fi_fh llfi)\<rparr>, s)}"

definition fuse_lib_opendir :: "fs_ops \<Rightarrow> u64 \<Rightarrow> fuse_file_info \<Rightarrow> prog" where
  "fuse_lib_opendir fs ino llfi =
     Locked (new_dir ino) (\<lambda>d.
       if \<not> v_flag d then reply_err (- H_ENOMEM)
       else get_path ino (\<lambda>r. case r of
           Inl err \<Rightarrow> reply_err_then err (Locked (free_dir (v_addr d)) (\<lambda>_. Finished))
         | Inr p \<Rightarrow>
             let leave = put_path ino (Some p) Finished;
                 drop_dir = Locked (free_dir (v_addr d)) (\<lambda>_. leave) in
             fuse_fs_opendir fs (Some p) (zero_fi\<lparr>fi_flags := fi_flags llfi\<rparr>) (\<lambda>r.
               Locked (set_dir_fh (v_addr d) (fi_fh (r_fi r))) (\<lambda>_.
                 if ret r \<noteq> 0 then reply_err_then (ret r) drop_dir
                 else Answer (Some (R_open (llfi\<lparr>fi_fh := of_nat (v_addr d), fi_cache_readdir := fi_cache_readdir (r_fi r),
                     fi_keep_cache := fi_keep_cache (r_fi r)\<rparr>)))
                   (\<lambda>gone. if gone then fuse_fs_releasedir fs (Some p) (r_fi r) (\<lambda>_. drop_dir) else leave)))))"

definition fuse_lib_releasedir :: "fuse_config \<Rightarrow> fs_ops \<Rightarrow> u64 \<Rightarrow> fuse_file_info \<Rightarrow> prog" where
  "fuse_lib_releasedir cf fs ino llfi =
     Locked (get_dirhandle llfi) (\<lambda>d.
       nullok_path cf ino (\<lambda>r.
         let p = path_or_null r in
         fuse_fs_releasedir fs p (zero_fi\<lparr>fi_fh := v_num d\<rparr>) (\<lambda>_.
           put_path ino p (Locked (free_dir (v_addr d)) (\<lambda>_. reply_err 0)))))"

definition fuse_lib_fsyncdir :: "fuse_config \<Rightarrow> fs_ops \<Rightarrow> u64 \<Rightarrow> bool \<Rightarrow> fuse_file_info \<Rightarrow> prog" where
  "fuse_lib_fsyncdir cf fs ino d llfi =
     Locked (get_dirhandle llfi) (\<lambda>v.
       with_nullok_path cf ino (\<lambda>p. fuse_fs_fsyncdir fs p d (zero_fi\<lparr>fi_fh := v_num v\<rparr>)) (\<lambda>r. reply_err (ret r)))"

section \<open>Record locks\<close>

definition insert_lock :: "u64 \<Rightarrow> lock \<Rightarrow> hl \<Rightarrow> (val \<times> hl) option" where
  "insert_lock ino l s = do {
     a \<leftarrow> get_node (tree s) ino;
     n \<leftarrow> node_at (tree s) a;
     (err, ls, m) \<leftarrow> locks_insert (nlocks n) l (fmem (tree s));
     Some (no_val\<lparr>v_err := err\<rparr>, s\<lparr>tree := set_node a (n\<lparr>nlocks := ls\<rparr>) ((tree s)\<lparr>fmem := m\<rparr>)\<rparr>)
   }"

definition find_conflict :: "u64 \<Rightarrow> lock \<Rightarrow> hl \<Rightarrow> (val \<times> hl) option" where
  "find_conflict ino l s = do {
     a \<leftarrow> get_node (tree s) ino;
     n \<leftarrow> node_at (tree s) a;
     Some (no_val\<lparr>v_lock := map_option lock_to_flock (locks_conflict (nlocks n) l)\<rparr>, s)
   }"

definition owned_lock :: "flock \<Rightarrow> fuse_file_info \<Rightarrow> lock" where
  "owned_lock l fi = (flock_to_lock l)\<lparr>lowner := fi_lock_owner fi\<rparr>"

definition fuse_flush_common :: "fs_ops \<Rightarrow> u64 \<Rightarrow> path \<Rightarrow> fuse_file_info \<Rightarrow> (int \<Rightarrow> prog) \<Rightarrow> prog" where
  "fuse_flush_common fs ino p fi k =
     fuse_fs_flush fs p fi (\<lambda>r.
       fuse_fs_lock fs p fi Do_setlk \<lparr>l_type = F_UNLCK, l_start = 0, l_len = 0, l_pid = 0\<rparr> (\<lambda>rl.
         if ret rl = - H_ENOSYS then k (ret r)
         else Locked (insert_lock ino (owned_lock (r_flock rl) fi)) (\<lambda>_. k (if ret r = - H_ENOSYS then 0 else ret r))))"

definition fuse_lib_release :: "fuse_config \<Rightarrow> fs_ops \<Rightarrow> u64 \<Rightarrow> fuse_file_info \<Rightarrow> prog" where
  "fuse_lib_release cf fs ino fi =
     nullok_path cf ino (\<lambda>r.
       let p = path_or_null r;
           release = (\<lambda>err. fuse_do_release cf fs ino p fi (put_path ino p (reply_err err))) in
       if fi_flush fi then fuse_flush_common fs ino p fi (\<lambda>err. release (if err = - H_ENOSYS then 0 else err)) else release 0)"

definition fuse_lib_flush :: "fuse_config \<Rightarrow> fs_ops \<Rightarrow> u64 \<Rightarrow> fuse_file_info \<Rightarrow> prog" where
  "fuse_lib_flush cf fs ino fi =
     nullok_path cf ino (\<lambda>r. let p = path_or_null r in fuse_flush_common fs ino p fi (\<lambda>err. put_path ino p (reply_err err)))"

definition fuse_lock_common ::
  "fuse_config \<Rightarrow> fs_ops \<Rightarrow> u64 \<Rightarrow> fuse_file_info \<Rightarrow> flock \<Rightarrow> lock_cmd \<Rightarrow> (int \<Rightarrow> flock \<Rightarrow> prog) \<Rightarrow> prog" where
  "fuse_lock_common cf fs ino fi l cmd k =
     nullok_path cf ino (\<lambda>r. case r of
         Inl err \<Rightarrow> k err l
       | Inr p \<Rightarrow> fuse_fs_lock fs p fi cmd l (\<lambda>r. put_path ino p (k (ret r) (r_flock r))))"

text \<open>The lock as the kernel sends it; its type is one of the three.\<close>

definition flock_of :: "ll_flock \<Rightarrow> flock" where
  "flock_of l = \<lparr>l_type = (if lf_type l = 0 then F_RDLCK else if lf_type l = 1 then F_WRLCK else F_UNLCK),
     l_start = sint (lf_start l), l_len = sint (lf_len l), l_pid = sint (lf_pid l)\<rparr>"

definition ll_of_flock :: "flock \<Rightarrow> ll_flock" where
  "ll_of_flock l = \<lparr>lf_type = (case l_type l of F_RDLCK \<Rightarrow> 0 | F_WRLCK \<Rightarrow> 1 | F_UNLCK \<Rightarrow> 2),
     lf_start = word_of_int (l_start l), lf_len = word_of_int (l_len l), lf_pid = word_of_int (l_pid l)\<rparr>"

definition fuse_lib_getlk :: "fuse_config \<Rightarrow> fs_ops \<Rightarrow> u64 \<Rightarrow> fuse_file_info \<Rightarrow> flock \<Rightarrow> prog" where
  "fuse_lib_getlk cf fs ino fi l =
     Locked (find_conflict ino (owned_lock l fi)) (\<lambda>v.
       let answer = (\<lambda>l. Answer (Some (R_lock (ll_of_flock l))) (\<lambda>_. Finished)) in
       case v_lock v of
         Some c \<Rightarrow> answer c
       | None \<Rightarrow> fuse_lock_common cf fs ino fi l Do_getlk (\<lambda>err l1. if err = 0 then answer l1 else reply_err err))"

definition fuse_lib_setlk :: "fuse_config \<Rightarrow> fs_ops \<Rightarrow> u64 \<Rightarrow> fuse_file_info \<Rightarrow> flock \<Rightarrow> bool \<Rightarrow> prog" where
  "fuse_lib_setlk cf fs ino fi l sleep =
     fuse_lock_common cf fs ino fi l (if sleep then Do_setlkw else Do_setlk) (\<lambda>err l1.
       if err = 0 then Locked (insert_lock ino (owned_lock l1 fi)) (\<lambda>_. reply_err 0) else reply_err err)"

section \<open>Other requests\<close>

definition FUSE_IOCTL_UNRESTRICTED :: u32 where "FUSE_IOCTL_UNRESTRICTED = 2"
definition FUSE_IOCTL_DIR :: u32 where "FUSE_IOCTL_DIR = 16"

text \<open>The output buffer starts with the input; the assertion is that their sizes agree if both are there.\<close>

definition ioctl_buffer :: "nat \<Rightarrow> nat \<Rightarrow> hl \<Rightarrow> (val \<times> hl) option" where
  "ioctl_buffer in_sz out_sz s = do {
     (v, s1) \<leftarrow> (if out_sz \<noteq> 0 then allocate s else Some (no_val\<lparr>v_flag := True\<rparr>, s));
     if v_flag v \<and> in_sz \<noteq> 0 \<and> out_sz \<noteq> 0 \<and> in_sz \<noteq> out_sz then None else Some (v, s1)
   }"

definition fuse_lib_ioctl ::
  "fuse_config \<Rightarrow> fs_ops \<Rightarrow> u64 \<Rightarrow> u32 \<Rightarrow> u64 \<Rightarrow> fuse_file_info \<Rightarrow> u32 \<Rightarrow> u8 list option \<Rightarrow> nat \<Rightarrow> prog" where
  "fuse_lib_ioctl cf fs ino cmd arg llfi fl in_buf out_sz =
     (let in_sz = (case in_buf of None \<Rightarrow> 0 | Some b \<Rightarrow> length b);
          data = (if out_sz \<noteq> 0 then Some (case in_buf of None \<Rightarrow> replicate out_sz 0 | Some b \<Rightarrow> b @ replicate (out_sz - length b) 0) else in_buf);
          go = (\<lambda>fi. Locked (ioctl_buffer in_sz out_sz) (\<lambda>v.
            if \<not> v_flag v then reply_err (- H_ENOMEM)
            else with_nullok_path cf ino (\<lambda>p. fuse_fs_ioctl fs p cmd arg fi fl data) (\<lambda>r.
              if ret r < 0 then reply_err (ret r)
              else Answer (Some (R_ioctl (word_of_int (ret r)) (take out_sz (r_bytes r)))) (\<lambda>_. Finished)))) in
      if fl AND FUSE_IOCTL_UNRESTRICTED \<noteq> 0 then reply_err (- H_EPERM)
      else if fl AND FUSE_IOCTL_DIR \<noteq> 0 then Locked (get_dirhandle llfi) (\<lambda>d. go (zero_fi\<lparr>fi_fh := v_num d\<rparr>))
      else go llfi)"

definition fuse_lib_copy_file_range ::
  "fuse_config \<Rightarrow> fs_ops \<Rightarrow> u64 \<Rightarrow> u64 \<Rightarrow> fuse_file_info \<Rightarrow> u64 \<Rightarrow> u64 \<Rightarrow> fuse_file_info \<Rightarrow> u64 \<Rightarrow> u64 \<Rightarrow> prog" where
  "fuse_lib_copy_file_range cf fs ino1 off1 fi1 ino2 off2 fi2 len fl =
     nullok_path cf ino1 (\<lambda>r1. case r1 of
         Inl err \<Rightarrow> reply_err err
       | Inr p1 \<Rightarrow> nullok_path cf ino2 (\<lambda>r2. case r2 of
             Inl err \<Rightarrow> put_path ino1 p1 (reply_err err)
           | Inr p2 \<Rightarrow> fuse_fs_copy_file_range fs p1 fi1 off1 p2 fi2 off2 len fl (\<lambda>r.
               let leave = put_path ino1 p1 (put_path ino2 p2 Finished) in
               if ret r \<ge> 0 then Answer (Some (R_write (word_of_int (ret r)))) (\<lambda>_. leave) else reply_err_then (ret r) leave)))"

section \<open>The table of handlers\<close>

definition fi_of_fh :: "u64 option \<Rightarrow> fuse_file_info option" where
  "fi_of_fh fh = map_option (\<lambda>fh. zero_fi\<lparr>fi_fh := fh\<rparr>) fh"

fun fuse_path_ops :: "fuse_config \<Rightarrow> fs_ops \<Rightarrow> ll_call \<Rightarrow> prog option" where
  "fuse_path_ops cf fs (Lookup ino name) = Some (fuse_lib_lookup cf fs ino name)"
| "fuse_path_ops cf fs (Forget ino n) = Some (fuse_lib_forget ino (unat n))"
| "fuse_path_ops cf fs (Forget_multi xs) = Some (fuse_lib_forget_multi (map (\<lambda>(ino, n). (ino, unat n)) xs))"
| "fuse_path_ops cf fs (Getattr ino fh) = Some (fuse_lib_getattr cf fs ino (fi_of_fh fh))"
| "fuse_path_ops cf fs (Setattr ino attr valid fh) = Some (fuse_lib_setattr cf fs ino attr valid (fi_of_fh fh))"
| "fuse_path_ops cf fs (Access ino m) = Some (fuse_lib_access fs ino m)"
| "fuse_path_ops cf fs (Readlink ino) = Some (fuse_lib_readlink fs ino)"
| "fuse_path_ops cf fs (Mknod dir name mode rdev um) = Some (fuse_lib_mknod cf fs dir name mode rdev)"
| "fuse_path_ops cf fs (Mkdir dir name mode um) = Some (fuse_lib_mkdir cf fs dir name mode)"
| "fuse_path_ops cf fs (Unlink dir name) = Some (fuse_lib_unlink cf fs dir name)"
| "fuse_path_ops cf fs (Rmdir dir name) = Some (fuse_lib_rmdir fs dir name)"
| "fuse_path_ops cf fs (Symlink link dir name) = Some (fuse_lib_symlink cf fs link dir name)"
| "fuse_path_ops cf fs (Rename olddir oldname newdir newname fl) = Some (fuse_lib_rename cf fs olddir oldname newdir newname fl)"
| "fuse_path_ops cf fs (Link ino newdir newname) = Some (fuse_lib_link cf fs ino newdir newname)"
| "fuse_path_ops cf fs (Create dir name mode fi um) = Some (fuse_lib_create cf fs dir name mode fi)"
| "fuse_path_ops cf fs (Open ino fi) = Some (fuse_lib_open cf fs ino fi)"
| "fuse_path_ops cf fs (Read ino sz off fi) = Some (fuse_lib_read cf fs ino (unat sz) off fi)"
| "fuse_path_ops cf fs (Write ino data off fi) = Some (fuse_lib_write_buf cf fs ino data off fi)"
| "fuse_path_ops cf fs (Flush ino fi) = Some (fuse_lib_flush cf fs ino fi)"
| "fuse_path_ops cf fs (Release ino fi) = Some (fuse_lib_release cf fs ino fi)"
| "fuse_path_ops cf fs (Fsync ino d fi) = Some (fuse_lib_fsync cf fs ino d fi)"
| "fuse_path_ops cf fs (Opendir ino fi) = Some (fuse_lib_opendir fs ino fi)"
| "fuse_path_ops cf fs (Releasedir ino fi) = Some (fuse_lib_releasedir cf fs ino fi)"
| "fuse_path_ops cf fs (Fsyncdir ino d fi) = Some (fuse_lib_fsyncdir cf fs ino d fi)"
| "fuse_path_ops cf fs (Statfs ino) = Some (fuse_lib_statfs fs ino)"
| "fuse_path_ops cf fs (Setxattr ino name value fl) = Some (fuse_lib_setxattr fs ino name value fl)"
| "fuse_path_ops cf fs (Getxattr ino name sz) = Some (fuse_lib_getxattr fs ino name (unat sz))"
| "fuse_path_ops cf fs (Listxattr ino sz) = Some (fuse_lib_listxattr fs ino (unat sz))"
| "fuse_path_ops cf fs (Removexattr ino name) = Some (fuse_lib_removexattr fs ino name)"
| "fuse_path_ops cf fs (Getlk ino fi l) = Some (fuse_lib_getlk cf fs ino fi (flock_of l))"
| "fuse_path_ops cf fs (Setlk ino fi l sleep) = Some (fuse_lib_setlk cf fs ino fi (flock_of l) sleep)"
| "fuse_path_ops cf fs (Flock ino fi opn) = Some (fuse_lib_flock cf fs ino fi opn)"
| "fuse_path_ops cf fs (Bmap ino bs idx) = Some (fuse_lib_bmap fs ino (ucast bs) idx)"
| "fuse_path_ops cf fs (Ioctl ino cmd arg fi fl in_buf out_sz) = Some (fuse_lib_ioctl cf fs ino cmd arg fi fl in_buf (unat out_sz))"
| "fuse_path_ops cf fs (Poll ino fi ph) = Some (fuse_lib_poll cf fs ino fi ph)"
| "fuse_path_ops cf fs (Fallocate ino mode off len fi) = Some (fuse_lib_fallocate cf fs ino mode off len fi)"
| "fuse_path_ops cf fs (Copy_file_range ino1 off1 fi1 ino2 off2 fi2 len fl) =
     Some (fuse_lib_copy_file_range cf fs ino1 off1 fi1 ino2 off2 fi2 len fl)"
| "fuse_path_ops cf fs (Lseek ino off whence fi) = Some (fuse_lib_lseek fs ino off whence fi)"
| "fuse_path_ops cf fs _ = None"

lemmas fuse_lib_defs = fuse_lib_lookup_def fuse_lib_forget_def fuse_lib_getattr_def fuse_lib_setattr_def fuse_lib_access_def fuse_lib_readlink_def
  fuse_lib_mknod_def fuse_lib_mkdir_def fuse_lib_unlink_def fuse_lib_rmdir_def fuse_lib_symlink_def fuse_lib_rename_def fuse_lib_link_def
  fuse_lib_create_def fuse_lib_open_def fuse_lib_read_def fuse_lib_write_buf_def fuse_lib_flush_def fuse_lib_release_def fuse_lib_fsync_def
  fuse_lib_opendir_def fuse_lib_releasedir_def fuse_lib_fsyncdir_def fuse_lib_statfs_def fuse_lib_setxattr_def fuse_lib_getxattr_def
  fuse_lib_listxattr_def fuse_lib_removexattr_def fuse_lib_getlk_def fuse_lib_setlk_def fuse_lib_flock_def fuse_lib_bmap_def fuse_lib_ioctl_def
  fuse_lib_poll_def fuse_lib_fallocate_def fuse_lib_copy_file_range_def fuse_lib_lseek_def

end
