(* ===== verification/HighMachine.thy ===== *)
theory HighMachine
  imports HighLib
begin

text \<open>
  Requests of the high-level library that run at the same time. A thread runs a program of \<open>HighLib\<close>; between any two of
  its actions other threads may run, the file system may answer a call in any way, and the kernel may have
  dropped any request. A thread that cannot have its path at once is in the queue of \<^verbatim>\<open>lib/fuse.c\<close> until another
  one has got the path for it. The events of all threads are recorded in their order.
\<close>

section \<open>Threads\<close>

datatype thread =
    Running prog
  | Waiting waiting "int + granted \<Rightarrow> prog"
  | Waiting_to_forget u64 nat prog

datatype event =
    Got waiting "int + granted"
  | Returned "(u64 \<times> nat option) list"
  | Asked bool fs_call
  | Answered "reply option"
  | Built fuse val

fun try_paths :: "waiting \<Rightarrow> fuse \<Rightarrow> ((int + granted) \<times> fuse) option" where
  "try_paths (ForPath ino name wr) f = map_option (\<lambda>(r, g). (map_sum id (\<lambda>(p, w). Path p w) r, g)) (try_get_path ino name wr True f)"
| "try_paths (ForPaths ino1 name1 wr1 ino2 name2 wr2) f =
     map_option (\<lambda>(r, g). (map_sum id (\<lambda>((p, w), (q, v)). Paths p w q v) r, g)) (try_get_path2 ino1 name1 wr1 ino2 name2 wr2 f)"
| "try_paths (ForUnlock ino) f = None"

fun unlock_all :: "(u64 \<times> nat option) list \<Rightarrow> fuse \<Rightarrow> fuse option" where
  "unlock_all [] f = Some f"
| "unlock_all ((ino, w) # xs) f = do {g \<leftarrow> unlock_path ino w None f; unlock_all xs g}"

type_synonym library = "hl \<times> lock_queue_element list"

definition put_paths :: "(u64 \<times> nat option) list \<Rightarrow> library \<Rightarrow> library option" where
  "put_paths xs x = do {
     f \<leftarrow> unlock_all xs (tree (fst x));
     (q, g) \<leftarrow> wake_up_queued (snd x) f;
     Some ((fst x)\<lparr>tree := g\<rparr>, q)
   }"

definition my_element :: "nat \<Rightarrow> lock_queue_element list \<Rightarrow> lock_queue_element option" where
  "my_element i q = find (\<lambda>qe. qid qe = i) q"

text \<open>
  The steps of the thread \<open>i\<close>, on the state of the library and the queue. A thread that is to forget a node waits while
  the node is locked; when it has been signalled and the node is free it forgets the node and leaves the queue.
\<close>

inductive thread_step :: "nat \<Rightarrow> thread \<times> library \<Rightarrow> event option \<Rightarrow> thread \<times> library \<Rightarrow> bool" where
  get_now: "try_paths w (tree s) = Some (r, g) \<Longrightarrow> r \<noteq> Inl (- EAGAIN) \<Longrightarrow>
    thread_step i (Running (Get_path w k), s, q) (Some (Got w r)) (Running (k r), s\<lparr>tree := g\<rparr>, q)"
| get_later: "try_paths w (tree s) = Some (Inl (- EAGAIN), g) \<Longrightarrow>
    thread_step i (Running (Get_path w k), s, q) None (Waiting w k, s\<lparr>tree := g\<rparr>, queue_path i w q)"
| get_woken: "my_element i q = Some qe \<Longrightarrow> qdone qe \<Longrightarrow>
    thread_step i (Waiting w k, s, q) (Some (Got w (qerr qe))) (Running (k (qerr qe)), s, dequeue_path i q)"
| put: "put_paths xs x = Some x' \<Longrightarrow> thread_step i (Running (Put_path xs p), x) (Some (Returned xs)) (Running p, x')"
| ask: "thread_step i (Running (Ask hid c k), x) (Some (Asked hid c)) (Running (k r), x)"
| answer: "thread_step i (Running (Answer a k), x) (Some (Answered a)) (Running (k gone), x)"
| locked: "sec s = Some (v, s') \<Longrightarrow> thread_step i (Running (Locked sec k), s, q) None (Running (k v), s', q)"
| build: "sec s = Some (v, s') \<Longrightarrow> thread_step i (Running (Build sec k), s, q) (Some (Built (tree s) v)) (Running (k v), s', q)"
| forget_now: "\<not> forget_must_wait (tree s) ino n \<Longrightarrow> forget_node ino n (tree s) = Some g \<Longrightarrow>
    thread_step i (Running (Forgetting ino n p), s, q) None (Running p, s\<lparr>tree := g\<rparr>, q)"
| forget_later: "forget_must_wait (tree s) ino n \<Longrightarrow>
    thread_step i (Running (Forgetting ino n p), s, q) None (Waiting_to_forget ino n p, s, queue_path i (ForUnlock ino) q)"
| forget_woken: "my_element i q = Some qe \<Longrightarrow> qsignal qe \<Longrightarrow> \<not> forget_must_wait (tree s) ino n \<Longrightarrow> forget_node ino n (tree s) = Some g \<Longrightarrow>
    thread_step i (Waiting_to_forget ino n p, s, q) None (Running p, s\<lparr>tree := g\<rparr>, dequeue_path i q)"

type_synonym machine = "thread list \<times> library \<times> (nat \<times> event) list"

definition recorded :: "nat \<Rightarrow> event option \<Rightarrow> (nat \<times> event) list" where
  "recorded i e = (case e of None \<Rightarrow> [] | Some e \<Rightarrow> [(i, e)])"

inductive machine_step :: "fuse_config \<Rightarrow> fs_ops \<Rightarrow> machine \<Rightarrow> machine \<Rightarrow> bool" for cf fs where
  arrive: "fuse_path_ops cf fs c = Some p \<Longrightarrow> machine_step cf fs (ts, x, tr) (ts @ [Running p], x, tr)"
| run: "i < length ts \<Longrightarrow> thread_step i (ts ! i, x) e (t, x') \<Longrightarrow> machine_step cf fs (ts, x, tr) (ts[i := t], x', tr @ recorded i e)"

inductive machine_reaches :: "fuse_config \<Rightarrow> fs_ops \<Rightarrow> hl \<Rightarrow> machine \<Rightarrow> bool" for cf fs s0 where
  start: "machine_reaches cf fs s0 ([], (s0, []), [])"
| step: "machine_reaches cf fs s0 m \<Longrightarrow> machine_step cf fs m m' \<Longrightarrow> machine_reaches cf fs s0 m'"

section \<open>What a request may do\<close>

text \<open>The paths a request holds: the number of the node, the entry that is write-locked, and the path.\<close>

type_synonym held = "(u64 \<times> nat option \<times> u8 list) list"

fun grants :: "waiting \<Rightarrow> granted \<Rightarrow> held" where
  "grants (ForPath ino name wr) (Path p w) = [(ino, w, p)]"
| "grants (ForPaths ino1 name1 wr1 ino2 name2 wr2) (Paths p w q v) = [(ino1, w, p), (ino2, v, q)]"
| "grants _ _ = []"

fun give_back :: "(u64 \<times> nat option) list \<Rightarrow> held \<Rightarrow> held option" where
  "give_back [] H = Some H"
| "give_back (x # xs) H = do {h \<leftarrow> find (\<lambda>(ino, w, p). (ino, w) = x) H; give_back xs (remove1 h H)}"

text \<open>
  The path of a hidden file, as a request may make it in a state \<open>f\<close> of the node table: for the entry it has write-locked, or for a
  free hidden name in a directory one of whose entries it holds.
\<close>

definition unlocked_path :: "fuse \<Rightarrow> u64 \<Rightarrow> u8 list option \<Rightarrow> path" where
  "unlocked_path f ino name = (case try_get_path ino name False False f of Some (Inr (p, _), _) \<Rightarrow> Some p | _ \<Rightarrow> None)"

definition is_hidden_name :: "u8 list \<Rightarrow> bool" where
  "is_hidden_name name \<longleftrightarrow> take 12 name = [46, 102, 117, 115, 101, 95, 104, 105, 100, 100, 101, 110]"

definition may_build :: "held \<Rightarrow> fuse \<Rightarrow> val \<Rightarrow> bool" where
  "may_build H f v \<longleftrightarrow> v_path v = None \<or> (\<exists>(ino, w, p) \<in> set H.
     (is_hidden_name (v_name v) \<and> lookup_node f ino (v_name v) = None \<and> unlocked_path f ino (Some (v_name v)) = v_path v) \<or>
     (case w of None \<Rightarrow> False | Some a \<Rightarrow>
        (case node_at f a of None \<Rightarrow> False | Some n \<Rightarrow> unlocked_path f (nodeid n) None = v_path v)))"

text \<open>
  The root is locked by nobody; the last path of a call about a hidden file is the one that the request has made last, \<open>b\<close>; every
  other path is one that it holds.
\<close>

definition may_ask :: "held \<Rightarrow> path \<Rightarrow> bool \<Rightarrow> fs_call \<Rightarrow> bool" where
  "may_ask H b hid c \<longleftrightarrow> (\<forall>p \<in> set ((if hid then butlast else id) (call_paths c)).
     case p of None \<Rightarrow> True | Some q \<Rightarrow> q = [47] \<or> q \<in> (\<lambda>(ino, w, p). p) ` set H) \<and>
   (hid \<longrightarrow> b \<noteq> None \<and> last (call_paths c) = b)"

text \<open>
  Following the events of a request, with the paths it holds, the path of a hidden file it has made last, and the replies it still owes;
  \<open>None\<close> if it breaks the rules.
\<close>

fun follow :: "event list \<Rightarrow> held \<times> path \<times> nat \<Rightarrow> (held \<times> path \<times> nat) option" where
  "follow [] x = Some x"
| "follow (Got w (Inl e) # es) (H, b, n) = follow es (H, b, n)"
| "follow (Got w (Inr g) # es) (H, b, n) = follow es (grants w g @ H, b, n)"
| "follow (Returned xs # es) (H, b, n) = do {H1 \<leftarrow> give_back xs H; follow es (H1, b, n)}"
| "follow (Asked hid c # es) (H, b, n) = (if may_ask H b hid c then follow es (H, b, n) else None)"
| "follow (Answered a # es) (H, b, n) = (if n = 0 then None else follow es (H, b, n - 1))"
| "follow (Built f v # es) (H, b, n) = (if may_build H f v then follow es (H, v_path v, n) else None)"

definition events_of :: "nat \<Rightarrow> (nat \<times> event) list \<Rightarrow> event list" where
  "events_of i tr = map snd (filter (\<lambda>(j, e). j = i) tr)"

text \<open>A program that keeps the rules, whatever comes back.\<close>

fun fits :: "waiting \<Rightarrow> granted \<Rightarrow> bool" where
  "fits (ForPath ino name wr) (Path p w) = (\<not> wr \<longrightarrow> w = None)"
| "fits (ForPaths ino1 name1 wr1 ino2 name2 wr2) (Paths p w q v) = ((\<not> wr1 \<longrightarrow> w = None) \<and> (\<not> wr2 \<longrightarrow> v = None))"
| "fits _ _ = False"

primrec lawful :: "prog \<Rightarrow> held \<Rightarrow> path \<Rightarrow> nat \<Rightarrow> bool" where
  "lawful Finished H b n = (H = [] \<and> n = 0)"
| "lawful (Get_path w k) H b n = ((\<forall>e. lawful (k (Inl e)) H b n) \<and> (\<forall>g. fits w g \<longrightarrow> lawful (k (Inr g)) (grants w g @ H) b n))"
| "lawful (Put_path xs p) H b n = (\<exists>H1. give_back xs H = Some H1 \<and> lawful p H1 b n)"
| "lawful (Ask hid c k) H b n = (may_ask H b hid c \<and> (\<forall>r. lawful (k r) H b n))"
| "lawful (Answer a k) H b n = (n \<noteq> 0 \<and> (\<forall>gone. lawful (k gone) H b (n - 1)))"
| "lawful (Locked sec k) H b n = (\<forall>v. lawful (k v) H b n)"
| "lawful (Build sec k) H b n = (\<forall>s v s'. sec s = Some (v, s') \<longrightarrow> may_build H (tree s) v \<and> lawful (k v) H (v_path v) n)"
| "lawful (Forgetting ino m p) H b n = lawful p H b n"

section \<open>The handlers keep the rules\<close>

lemma fits_path: "(\<forall>g. fits (ForPath ino name wr) g \<longrightarrow> P g) \<longleftrightarrow> (\<forall>p w. (\<not> wr \<longrightarrow> w = None) \<longrightarrow> P (Path p w))"
proof (intro iffI allI impI)
  fix g assume "\<forall>p w. (\<not> wr \<longrightarrow> w = None) \<longrightarrow> P (Path p w)" and "fits (ForPath ino name wr) g"
  then show "P g" by (cases g) auto
qed auto

lemma fits_paths: "(\<forall>g. fits (ForPaths i1 n1 wr1 i2 n2 wr2) g \<longrightarrow> P g) \<longleftrightarrow>
  (\<forall>p w q v. (\<not> wr1 \<longrightarrow> w = None) \<longrightarrow> (\<not> wr2 \<longrightarrow> v = None) \<longrightarrow> P (Paths p w q v))"
proof (intro iffI allI impI)
  fix g assume "\<forall>p w q v. (\<not> wr1 \<longrightarrow> w = None) \<longrightarrow> (\<not> wr2 \<longrightarrow> v = None) \<longrightarrow> P (Paths p w q v)" and "fits (ForPaths i1 n1 wr1 i2 n2 wr2) g"
  then show "P g" by (cases g) auto
qed auto

lemma may_ask_simps [simp]:
  "may_ask H b False c \<longleftrightarrow> (\<forall>p \<in> set (call_paths c). case p of None \<Rightarrow> True | Some q \<Rightarrow> q = [47] \<or> q \<in> (\<lambda>(ino, w, p). p) ` set H)"
  "may_ask H b True (Fs_getattr p fi) \<longleftrightarrow> b \<noteq> None \<and> p = b" "may_ask H b True (Fs_unlink p) \<longleftrightarrow> b \<noteq> None \<and> p = b"
  "may_ask H b True (Fs_rename (Some oldp) q fl) \<longleftrightarrow> (oldp = [47] \<or> oldp \<in> (\<lambda>(ino, w, p). p) ` set H) \<and> b \<noteq> None \<and> q = b"
  by (auto simp: may_ask_def)

lemmas prog_defs = fuse_fs_defs get_path_def get_path_name_def get_path_wrlock_def nullok_path_def put_path_def path_or_null_def
  reply_err_then_def reply_entry_def hl_lookup_def lookup_path_def lookup_body_def file_path_def change_if_def with_path_def
  with_nullok_path_def reply_result_def reply_xattr_def make_entry_def Let_def fits_path fits_paths

lemma lawful_put_path [simp]: "lawful (put_path ino p k) H b n \<longleftrightarrow> (case p of None \<Rightarrow> lawful k H b n | Some q \<Rightarrow> lawful (Put_path [(ino, None)] k) H b n)"
  by (simp add: put_path_def split: option.split)

lemma lawful_lookup_path:
  assumes "(ino, w, p) \<in> set H" and "\<And>err e. lawful (k err e) H b n"
  shows "lawful (lookup_path cf fs dir name p fi k) H b n"
  using assms by (auto simp: lookup_path_def hl_lookup_def Let_def fuse_fs_defs image_iff Bex_def)

lemma lawful_entry: "lawful (reply_entry e err) [] b (Suc 0)"
  by (simp add: reply_entry_def reply_err_then_def)

lemmas law_defs = fuse_fs_defs get_path_def get_path_name_def get_path_wrlock_def nullok_path_def path_or_null_def
  reply_err_then_def reply_entry_def lookup_body_def file_path_def change_if_def with_path_def fuse_flush_common_def fuse_lock_common_def
  with_nullok_path_def reply_result_def reply_xattr_def make_entry_def Let_def fits_path fits_paths

lemma lawful_lookup: "lawful (fuse_lib_lookup cf fs ino name) [] b 1"
  by (auto simp: fuse_lib_lookup_def law_defs intro!: lawful_lookup_path split: sum.splits if_splits prod.splits option.splits)

lemma lawful_getattr: "lawful (fuse_lib_getattr cf fs ino fi) [] b 1"
  by (auto simp: fuse_lib_getattr_def law_defs intro!: lawful_lookup_path split: sum.splits if_splits prod.splits option.splits)

lemma lawful_change_if:
  assumes "\<And>e. lawful (k e) H b n" and "\<And>k. (\<And>r. lawful (k r) H b n) \<Longrightarrow> lawful (call k) H b n"
  shows "lawful (change_if wanted call k err) H b n"
  using assms by (simp add: change_if_def)

lemma lawful_setattr_reply:
  assumes "p = None \<and> H = [] \<or> (\<exists>q. p = Some q \<and> H = [(ino, None, q)])"
  shows "lawful (setattr_reply cf fs ino fi p err) H b 1"
  using assms by (auto simp: setattr_reply_def fuse_fs_getattr_def ask_or_def Let_def reply_err_then_def)

lemma lawful_setattr_calls:
  assumes "p = None \<and> H = [] \<or> (\<exists>q. p = Some q \<and> H = [(ino, None, q)])" and "\<And>r. lawful (k r) H b n"
  shows "lawful (fuse_fs_chmod fs p mode fi k) H b n" "lawful (fuse_fs_chown fs p u g fi k) H b n"
    "lawful (fuse_fs_truncate fs p sz fi k) H b n" "lawful (fuse_fs_utimens fs p a m fi k) H b n"
  using assms by (auto simp: fuse_fs_chmod_def fuse_fs_chown_def fuse_fs_truncate_def fuse_fs_utimens_def ask_or_def)

lemma lawful_setattr: "lawful (fuse_lib_setattr cf fs ino attr valid fi) [] b 1"
  unfolding fuse_lib_setattr_def file_path_def get_path_def nullok_path_def
  by (auto simp: fits_path reply_err_then_def simp del: One_nat_def split: sum.split
      intro!: lawful_change_if lawful_setattr_calls lawful_setattr_reply)

lemma lawful_access: "lawful (fuse_lib_access fs ino m) [] b 1"
  by (auto simp: fuse_lib_access_def law_defs intro!: lawful_lookup_path split: sum.splits if_splits prod.splits option.splits)

lemma lawful_readlink: "lawful (fuse_lib_readlink fs ino) [] b 1"
  by (auto simp: fuse_lib_readlink_def law_defs intro!: lawful_lookup_path split: sum.splits if_splits prod.splits option.splits)

lemma lawful_mknod_or_leave: "lawful (mknod_or_leave cf fs dir name mode rdev p err e) [(dir, None, p)] b 1"
  by (auto simp: mknod_or_leave_def fuse_fs_mknod_def ask_or_def Let_def reply_entry_def reply_err_then_def intro!: lawful_lookup_path)

lemma lawful_mknod: "lawful (fuse_lib_mknod cf fs dir name mode rdev) [] b 1"
  by (auto simp: fuse_lib_mknod_def get_path_name_def fits_path reply_entry_def reply_err_then_def fuse_fs_create_def fuse_fs_release_def ask_or_def
      simp del: One_nat_def split: sum.split intro!: lawful_mknod_or_leave lawful_lookup_path)

lemma lawful_mkdir: "lawful (fuse_lib_mkdir cf fs dir name mode) [] b 1"
  by (auto simp: fuse_lib_mkdir_def law_defs intro!: lawful_lookup_path split: sum.splits if_splits prod.splits option.splits)

lemma lawful_rmdir: "lawful (fuse_lib_rmdir fs dir name) [] b 1"
  by (auto simp: fuse_lib_rmdir_def law_defs intro!: lawful_lookup_path split: sum.splits if_splits prod.splits option.splits)

lemma lawful_symlink: "lawful (fuse_lib_symlink cf fs link dir name) [] b 1"
  by (auto simp: fuse_lib_symlink_def law_defs intro!: lawful_lookup_path split: sum.splits if_splits prod.splits option.splits)

lemma lawful_link: "lawful (fuse_lib_link cf fs ino newdir newname) [] b 1"
  by (auto simp: fuse_lib_link_def law_defs intro!: lawful_lookup_path split: sum.splits if_splits prod.splits option.splits)

lemma lawful_read: "lawful (fuse_lib_read cf fs ino sz off fi) [] b 1"
  by (auto simp: fuse_lib_read_def law_defs intro!: lawful_lookup_path split: sum.splits if_splits prod.splits option.splits)

lemma lawful_write_buf: "lawful (fuse_lib_write_buf cf fs ino data off fi) [] b 1"
  by (auto simp: fuse_lib_write_buf_def law_defs intro!: lawful_lookup_path split: sum.splits if_splits prod.splits option.splits)

lemma lawful_flush: "lawful (fuse_lib_flush cf fs ino fi) [] b 1"
  by (auto simp: fuse_lib_flush_def law_defs intro!: lawful_lookup_path split: sum.splits if_splits prod.splits option.splits)

lemma lawful_fsync: "lawful (fuse_lib_fsync cf fs ino d fi) [] b 1"
  by (auto simp: fuse_lib_fsync_def law_defs intro!: lawful_lookup_path split: sum.splits if_splits prod.splits option.splits)

lemma lawful_opendir: "lawful (fuse_lib_opendir fs ino fi) [] b 1"
  by (auto simp: fuse_lib_opendir_def law_defs intro!: lawful_lookup_path split: sum.splits if_splits prod.splits option.splits)

lemma lawful_releasedir: "lawful (fuse_lib_releasedir cf fs ino fi) [] b 1"
  by (auto simp: fuse_lib_releasedir_def law_defs intro!: lawful_lookup_path split: sum.splits if_splits prod.splits option.splits)

lemma lawful_fsyncdir: "lawful (fuse_lib_fsyncdir cf fs ino d fi) [] b 1"
  by (auto simp: fuse_lib_fsyncdir_def law_defs intro!: lawful_lookup_path split: sum.splits if_splits prod.splits option.splits)

lemma lawful_statfs: "lawful (fuse_lib_statfs fs ino) [] b 1"
  by (auto simp: fuse_lib_statfs_def law_defs intro!: lawful_lookup_path split: sum.splits if_splits prod.splits option.splits)

lemma lawful_setxattr: "lawful (fuse_lib_setxattr fs ino name value fl) [] b 1"
  by (auto simp: fuse_lib_setxattr_def law_defs intro!: lawful_lookup_path split: sum.splits if_splits prod.splits option.splits)

lemma lawful_getxattr: "lawful (fuse_lib_getxattr fs ino name sz) [] b 1"
  by (auto simp: fuse_lib_getxattr_def law_defs intro!: lawful_lookup_path split: sum.splits if_splits prod.splits option.splits)

lemma lawful_listxattr: "lawful (fuse_lib_listxattr fs ino sz) [] b 1"
  by (auto simp: fuse_lib_listxattr_def law_defs intro!: lawful_lookup_path split: sum.splits if_splits prod.splits option.splits)

lemma lawful_removexattr: "lawful (fuse_lib_removexattr fs ino name) [] b 1"
  by (auto simp: fuse_lib_removexattr_def law_defs intro!: lawful_lookup_path split: sum.splits if_splits prod.splits option.splits)

lemma lawful_getlk: "lawful (fuse_lib_getlk cf fs ino fi l) [] b 1"
  by (auto simp: fuse_lib_getlk_def law_defs intro!: lawful_lookup_path split: sum.splits if_splits prod.splits option.splits)

lemma lawful_setlk: "lawful (fuse_lib_setlk cf fs ino fi l sleep) [] b 1"
  by (auto simp: fuse_lib_setlk_def law_defs intro!: lawful_lookup_path split: sum.splits if_splits prod.splits option.splits)

lemma lawful_flock: "lawful (fuse_lib_flock cf fs ino fi opn) [] b 1"
  by (auto simp: fuse_lib_flock_def law_defs intro!: lawful_lookup_path split: sum.splits if_splits prod.splits option.splits)

lemma lawful_bmap: "lawful (fuse_lib_bmap fs ino bs idx) [] b 1"
  by (auto simp: fuse_lib_bmap_def law_defs intro!: lawful_lookup_path split: sum.splits if_splits prod.splits option.splits)

lemma lawful_ioctl: "lawful (fuse_lib_ioctl cf fs ino cmd arg fi fl in_buf out_sz) [] b 1"
  by (auto simp: fuse_lib_ioctl_def law_defs intro!: lawful_lookup_path split: sum.splits if_splits prod.splits option.splits)

lemma lawful_poll: "lawful (fuse_lib_poll cf fs ino fi ph) [] b 1"
  by (auto simp: fuse_lib_poll_def law_defs intro!: lawful_lookup_path split: sum.splits if_splits prod.splits option.splits)

lemma lawful_fallocate: "lawful (fuse_lib_fallocate cf fs ino mode off len fi) [] b 1"
  by (auto simp: fuse_lib_fallocate_def law_defs intro!: lawful_lookup_path split: sum.splits if_splits prod.splits option.splits)

lemma lawful_copy_file_range: "lawful (fuse_lib_copy_file_range cf fs ino1 off1 fi1 ino2 off2 fi2 len fl) [] b 1"
  by (auto simp: fuse_lib_copy_file_range_def law_defs intro!: lawful_lookup_path split: sum.splits if_splits prod.splits option.splits)

lemma lawful_lseek: "lawful (fuse_lib_lseek fs ino off whence fi) [] b 1"
  by (auto simp: fuse_lib_lseek_def law_defs intro!: lawful_lookup_path split: sum.splits if_splits prod.splits option.splits)

lemma next_hidden_free:
  assumes "next_hidden f dir ino c = Some d"
  shows "lookup_node f dir (hidden_name_of ino d) = None"
  by (rule next_hidden.raw_induct [OF _ assms, where P = "\<lambda>f dir ino c d. lookup_node f dir (hidden_name_of ino d) = None"])
    (auto simp: Let_def split: if_splits)

lemma hide_try_builds:
  assumes "hide_try dir name s = Some (v, s')" and "(dir, w, p) \<in> set H"
  shows "may_build H (tree s) v"
proof (cases "v_path v")
  case (Some q)
  with assms(1) obtain a n c g w' where hidden: "node_at (tree s) a = Some n" "next_hidden (tree s) dir (nodeid n) (hidectr s) = Some c"
    "v_name v = hidden_name_of (nodeid n) c" "try_get_path dir (Some (hidden_name_of (nodeid n) c)) False False (tree s) = Some (Inr (q, w'), g)"
    by (auto simp: hide_try_def no_val_def Let_def split: option.splits sum.splits bind_splits)
  have "is_hidden_name (v_name v)" by (simp add: hidden(3) hidden_name_of_def is_hidden_name_def)
  moreover have "unlocked_path (tree s) dir (Some (v_name v)) = v_path v" using hidden(3,4) Some by (simp add: unlocked_path_def)
  ultimately show ?thesis using next_hidden_free [OF hidden(2)] assms(2) hidden(3) unfolding may_build_def by fastforce
qed (simp add: may_build_def)

lemma hidden_path_builds:
  assumes "hidden_path wnode s = Some (v, s')" and "(dir, wnode, p) \<in> set H"
  shows "may_build H (tree s) v"
proof (cases "v_path v")
  case (Some q)
  with assms(1) obtain a n g w' where hidden: "wnode = Some a" "node_at (tree s) a = Some n"
    "try_get_path (nodeid n) None False False (tree s) = Some (Inr (q, w'), g)"
    by (auto simp: hidden_path_def no_val_def split: option.splits sum.splits bind_splits)
  then have "unlocked_path (tree s) (nodeid n) None = v_path v" using Some by (simp add: unlocked_path_def)
  then show ?thesis using hidden(1,2) assms(2) unfolding may_build_def by fastforce
qed (simp add: may_build_def)

lemmas hidden_path_builds_one = hidden_path_builds [where H = "[(dir, wnode, p)]" for dir wnode p, OF _ list.set_intros(1)]

lemma lawful_hidden_name:
  assumes "(dir, w, p) \<in> set H" and "\<And>name b. lawful (k (name, b)) H b n" and "\<And>b. lawful (k ([], None)) H b n"
  shows "lawful (hidden_name m fs dir name k) H b n"
  using assms(2,3) hide_try_builds [OF _ assms(1)] by (induction m arbitrary: b) (auto simp: fuse_fs_getattr_def ask_or_def)

lemma lawful_hide_node:
  assumes "(dir, w, p) \<in> set H" and "\<And>err b. lawful (k err) H b n"
  shows "lawful (hide_node fs p dir name k) H b n"
  unfolding hide_node_def
  by (rule lawful_hidden_name [OF assms(1)]) (use assms in \<open>auto simp: fuse_fs_rename_def ask_or_def image_iff Bex_def\<close>)

lemma lawful_unlink: "lawful (fuse_lib_unlink cf fs dir name) [] b 1"
  by (auto simp: fuse_lib_unlink_def get_path_wrlock_def fits_path reply_err_then_def Let_def fuse_fs_unlink_def ask_or_def
      intro!: lawful_hide_node elim!: hidden_path_builds_one split: sum.split)

lemma lawful_rename: "lawful (fuse_lib_rename cf fs olddir oldname newdir newname fl) [] b 1"
  by (auto simp: fuse_lib_rename_def fits_paths reply_err_then_def Let_def fuse_fs_rename_def ask_or_def
      intro!: lawful_hide_node split: sum.split)

lemma lawful_do_release:
  assumes "p = None \<or> (\<exists>j w. (j, w, the p) \<in> set H)" and "lawful k H b n"
  shows "lawful (fuse_do_release cf fs ino p fi k) H b n"
  using assms by (auto simp: fuse_do_release_def fuse_fs_release_def fuse_fs_unlink_def ask_or_def get_path_def fits_path image_iff Bex_def
      split: sum.split option.split)

lemma lawful_create: "lawful (fuse_lib_create cf fs dir name mode fi) [] b 1"
  by (auto simp: fuse_lib_create_def get_path_name_def fits_path reply_err_then_def Let_def fuse_fs_create_def fuse_fs_release_def ask_or_def
      intro!: lawful_lookup_path lawful_do_release split: sum.split)

lemma lawful_open: "lawful (fuse_lib_open cf fs ino fi) [] b 1"
  by (auto simp: fuse_lib_open_def get_path_def fits_path reply_err_then_def Let_def fuse_fs_open_def fuse_fs_getattr_def ask_or_def open_auto_cache_def
      intro!: lawful_do_release split: sum.split)

lemma lawful_release: "lawful (fuse_lib_release cf fs ino fi) [] b 1"
  by (auto simp: fuse_lib_release_def nullok_path_def path_or_null_def fits_path reply_err_then_def Let_def fuse_flush_common_def fuse_fs_flush_def
      fuse_fs_lock_def ask_or_def intro!: lawful_do_release split: sum.split)

lemma lawful_forget_multi: "lawful (fuse_lib_forget_multi xs) [] b 1"
  by (induction xs rule: fuse_lib_forget_multi.induct) auto

lemma lawful_handler: "fuse_path_ops cf fs c = Some p \<Longrightarrow> lawful p [] b 1"
  by (cases c)
     (auto intro!: lawful_lookup [unfolded One_nat_def] simp del: One_nat_def simp: lawful_lookup lawful_getattr lawful_setattr lawful_access lawful_readlink lawful_mknod lawful_mkdir lawful_rmdir
      lawful_symlink lawful_link lawful_read lawful_write_buf lawful_flush lawful_fsync lawful_opendir lawful_releasedir lawful_fsyncdir lawful_statfs
      lawful_setxattr lawful_getxattr lawful_listxattr lawful_removexattr lawful_getlk lawful_setlk lawful_flock lawful_bmap lawful_ioctl lawful_poll
      lawful_fallocate lawful_copy_file_range lawful_lseek lawful_unlink lawful_rename lawful_create lawful_open lawful_release lawful_forget_multi fuse_lib_forget_def)

section \<open>Every interleaving keeps the rules\<close>

definition fits_result :: "waiting \<Rightarrow> int + granted \<Rightarrow> bool" where
  "fits_result w r = (case r of Inl e \<Rightarrow> True | Inr g \<Rightarrow> fits w g)"

lemma try_get_path_reads: "try_get_path ino name False True f = Some (Inr (p, w), g) \<Longrightarrow> w = None"
  by (auto simp: try_get_path_def lock_wnode_def split: option.splits prod.splits sum.splits bool.splits)

lemma try_get_path2_parts:
  assumes "try_get_path2 i1 n1 wr1 i2 n2 wr2 f = Some (Inr ((p, w), (p', w')), g)"
  obtains f1 where "try_get_path i1 n1 wr1 True f = Some (Inr (p, w), f1)" "try_get_path i2 n2 wr2 True f1 = Some (Inr (p', w'), g)"
  using assms by (auto simp: try_get_path2_def split: option.splits prod.splits sum.splits)

lemma map_sum_InrE: "map_sum id h x = Inr y \<Longrightarrow> (\<And>z. x = Inr z \<Longrightarrow> y = h z \<Longrightarrow> P) \<Longrightarrow> P"
  by (cases x) auto

lemma try_paths_fits:
  assumes "try_paths w f = Some (r, g)"
  shows "fits_result w r"
proof (cases r)
  case (Inr a)
  show ?thesis
  proof (cases w)
    case (ForPath ino name wr)
    with assms Inr obtain p v where t: "try_get_path ino name wr True f = Some (Inr (p, v), g)" "a = Path p v"
      by (auto elim!: map_sum_InrE)
    with ForPath Inr try_get_path_reads [of ino name f p v g] show ?thesis by (cases wr) (simp_all add: fits_result_def)
  next
    case (ForPaths i1 n1 wr1 i2 n2 wr2)
    with assms Inr obtain p v p' v' where t: "try_get_path2 i1 n1 wr1 i2 n2 wr2 f = Some (Inr ((p, v), (p', v')), g)" "a = Paths p v p' v'"
      by (auto elim!: map_sum_InrE)
    obtain f1 where "try_get_path i1 n1 wr1 True f = Some (Inr (p, v), f1)" "try_get_path i2 n2 wr2 True f1 = Some (Inr (p', v'), g)"
      using t(1) by (rule try_get_path2_parts)
    with ForPaths Inr t(2) try_get_path_reads show ?thesis by (cases wr1; cases wr2) (auto simp: fits_result_def)
  qed (use assms in simp)
qed (simp add: fits_result_def)

text \<open>Waking an element up is one more attempt for it.\<close>

lemma wakeup_tries:
  assumes "\<And>ino. qwait qe \<noteq> ForUnlock ino"
  shows "queue_element_wakeup qe f = (if qdone qe then Some (qe, f) else do {
    (r, g) \<leftarrow> try_paths (qwait qe) f;
    Some (if r = Inl (- EAGAIN) then qe else qe\<lparr>qerr := r, qdone := True, qsignal := True\<rparr>, g)})"
  using assms
  by (cases "qwait qe") (auto simp: queue_element_wakeup_def map_sum_def split: option.splits prod.splits sum.splits)

lemma wakeup_fits:
  assumes "queue_element_wakeup qe f = Some (qe', g)" and "fits_result (qwait qe) (qerr qe)"
  shows "qid qe' = qid qe \<and> qwait qe' = qwait qe \<and> fits_result (qwait qe) (qerr qe')"
proof (cases "\<exists>ino. qwait qe = ForUnlock ino")
  case True
  with assms show ?thesis by (auto simp: queue_element_wakeup_def split: option.splits if_splits)
next
  case False
  with assms wakeup_tries [of qe f] show ?thesis
    by (auto split: if_splits option.splits prod.splits bind_splits dest: try_paths_fits)
qed

lemma wake_all_fits:
  assumes "wake_up_queued q f = Some (q', g)" and "\<forall>qe \<in> set q. fits_result (qwait qe) (qerr qe)"
  shows "map (\<lambda>qe. (qid qe, qwait qe)) q' = map (\<lambda>qe. (qid qe, qwait qe)) q \<and> (\<forall>qe \<in> set q'. fits_result (qwait qe) (qerr qe))"
  using assms
proof (induction q f arbitrary: q' g rule: wake_up_queued.induct)
  case (2 qe qs f)
  then obtain qe' g1 qs' where w: "queue_element_wakeup qe f = Some (qe', g1)" "wake_up_queued qs g1 = Some (qs', g)" "q' = qe' # qs'"
    by (auto split: option.splits prod.splits)
  from "2.IH" [OF w(1) refl w(2)] "2.prems"(2) wakeup_fits [OF w(1)] w(3) show ?case by simp
qed simp

text \<open>The elements of the queue are those of the threads that wait, one for each.\<close>

definition expects :: "thread \<Rightarrow> waiting \<Rightarrow> bool" where
  "expects t w = (case t of Running p \<Rightarrow> False | Waiting v k \<Rightarrow> v = w | Waiting_to_forget ino n p \<Rightarrow> True)"

definition queue_ok :: "thread list \<Rightarrow> lock_queue_element list \<Rightarrow> bool" where
  "queue_ok ts q \<longleftrightarrow> (\<forall>(i, w) \<in> set (map (\<lambda>qe. (qid qe, qwait qe)) q). i < length ts \<and> expects (ts ! i) w) \<and>
     (\<forall>qe \<in> set q. fits_result (qwait qe) (qerr qe))"

fun thread_ok :: "thread \<Rightarrow> held \<Rightarrow> path \<Rightarrow> nat \<Rightarrow> bool" where
  "thread_ok (Running p) H b n = lawful p H b n"
| "thread_ok (Waiting w k) H b n = lawful (Get_path w k) H b n"
| "thread_ok (Waiting_to_forget ino m p) H b n = lawful p H b n"

definition machine_ok :: "machine \<Rightarrow> bool" where
  "machine_ok m \<longleftrightarrow> (case m of (ts, (s, q), tr) \<Rightarrow> queue_ok ts q \<and> (\<forall>(j, e) \<in> set tr. j < length ts) \<and>
     (\<forall>i < length ts. \<exists>H b n. follow (events_of i tr) ([], None, 1) = Some (H, b, n) \<and> thread_ok (ts ! i) H b n))"

lemma follow_append: "follow (es @ es') x = do {y \<leftarrow> follow es x; follow es' y}"
  by (induction es x rule: follow.induct) (auto split: option.splits intro: bind_option_cong)

lemma thread_step_lawful:
  assumes "thread_step i (t, (s, q)) e (t', (s', q'))" and "thread_ok t H b n" and "\<And>qe w k. my_element i q = Some qe \<Longrightarrow> t = Waiting w k \<Longrightarrow> fits_result w (qerr qe)"
  shows "\<exists>H' b' n'. follow (case e of None \<Rightarrow> [] | Some e \<Rightarrow> [e]) (H, b, n) = Some (H', b', n') \<and> thread_ok t' H' b' n'"
  using assms(1)
proof cases
  case (get_now w r g k)
  with assms(2) try_paths_fits [of w "tree s" r g] show ?thesis by (cases r) (auto simp: fits_result_def)
next
  case (get_woken qe w k)
  with assms(2,3) show ?thesis by (cases "qerr qe") (fastforce simp: fits_result_def)+
qed (use assms(2) in \<open>auto\<close>)

lemma queue_ok_others:
  assumes "queue_ok ts q" and "\<And>qe. qe \<in> set q \<Longrightarrow> qid qe \<noteq> i"
  shows "queue_ok (ts[i := t]) q"
  using assms by (fastforce simp: queue_ok_def nth_list_update)

lemma queue_ok_running:
  assumes "queue_ok ts q" and "i < length ts" and "ts ! i = Running p" and "qe \<in> set q"
  shows "qid qe \<noteq> i"
  using assms by (force simp: queue_ok_def expects_def)

lemma queue_ok_dequeue: "queue_ok ts q \<Longrightarrow> queue_ok (ts[i := t]) (dequeue_path i q)"
  by (rule queue_ok_others) (auto simp: queue_ok_def dequeue_path_def)

lemma queue_ok_queue:
  assumes "queue_ok ts q" and "i < length ts" and "ts ! i = Running p" and "expects t w"
  shows "queue_ok (ts[i := t]) (queue_path i w q)"
  using queue_ok_others [OF assms(1) queue_ok_running [OF assms(1-3)], of t] assms(2,4)
  by (auto simp: queue_ok_def queue_path_def fits_result_def)

lemma thread_step_queue:
  assumes step: "thread_step i (t, (s, q)) e (t', (s', q'))" and ok: "queue_ok ts q" and i: "i < length ts" "ts ! i = t"
  shows "queue_ok (ts[i := t']) q'"
proof -
  have same: "queue_ok (ts[i := t']) q" if "t = Running p" for p
  proof (rule queue_ok_others [OF ok])
    fix qe assume "qe \<in> set q"
    then show "qid qe \<noteq> i" using queue_ok_running [OF ok i(1), of p qe] i(2) that by simp
  qed
  from step show ?thesis
  proof cases
    case (get_later w g k)
    with queue_ok_queue [OF ok i(1)] i(2) show ?thesis by (simp add: expects_def)
  next
    case (forget_later ino n p)
    with queue_ok_queue [OF ok i(1)] i(2) show ?thesis by (simp add: expects_def)
  next
    case (put xs p)
    then obtain f g where w: "wake_up_queued q f = Some (q', g)" by (auto simp: put_paths_def split: bind_splits)
    have "\<forall>qe \<in> set q. fits_result (qwait qe) (qerr qe)" using ok by (simp add: queue_ok_def)
    with wake_all_fits [OF w] same [OF put(1)] show ?thesis by (simp add: queue_ok_def)
  qed (use same queue_ok_dequeue [OF ok] in auto)
qed

lemma my_element_fits:
  assumes "queue_ok ts q" and "my_element i q = Some qe" and "ts ! i = Waiting w k"
  shows "fits_result w (qerr qe)"
proof -
  from assms(2) have "qe \<in> set q" "qid qe = i" by (auto simp: my_element_def find_Some_iff)
  with assms(1,3) show ?thesis by (force simp: queue_ok_def expects_def)
qed

lemma events_of_recorded:
  "events_of j (tr @ recorded i e) = events_of j tr @ (if j = i then (case e of None \<Rightarrow> [] | Some e \<Rightarrow> [e]) else [])"
  by (auto simp: events_of_def recorded_def split: option.split)

lemma events_of_new: "\<forall>(j, e) \<in> set tr. j < i \<Longrightarrow> events_of i tr = []"
  by (auto simp: events_of_def filter_empty_conv)

lemma machine_step_ok:
  assumes "machine_step cf fs m m'" and "machine_ok m"
  shows "machine_ok m'"
  using assms(1)
proof cases
  case (arrive c p ts x tr)
  obtain s q where x: "x = (s, q)" by fastforce
  have ok: "queue_ok ts q" "\<forall>(j, e) \<in> set tr. j < length ts"
    "\<forall>i < length ts. \<exists>H b n. follow (events_of i tr) ([], None, 1) = Some (H, b, n) \<and> thread_ok (ts ! i) H b n"
    using assms(2) by (simp_all add: machine_ok_def arrive(1) x)
  have "queue_ok (ts @ [Running p]) q" using ok(1) by (force simp: queue_ok_def nth_append)
  moreover have "\<exists>H b n. follow (events_of i tr) ([], None, 1) = Some (H, b, n) \<and> thread_ok ((ts @ [Running p]) ! i) H b n" if "i < Suc (length ts)" for i
    using that ok(3) events_of_new [OF ok(2)] lawful_handler [OF arrive(3)] by (cases "i = length ts") (auto simp: nth_append)
  ultimately show ?thesis using ok(2) unfolding machine_ok_def arrive(2) x by fastforce
next
  case (run i ts x e t x' tr)
  obtain s q s' q' where x: "x = (s, q)" "x' = (s', q')" by fastforce
  have ok: "queue_ok ts q" "\<forall>(j, e) \<in> set tr. j < length ts"
    "\<forall>i < length ts. \<exists>H b n. follow (events_of i tr) ([], None, 1) = Some (H, b, n) \<and> thread_ok (ts ! i) H b n"
    using assms(2) by (simp_all add: machine_ok_def run(1) x)
  note step = run(4) [unfolded x]
  obtain H b n where H: "follow (events_of i tr) ([], None, 1) = Some (H, b, n)" "thread_ok (ts ! i) H b n" using ok(3) run(3) by blast
  obtain H' b' n' where H': "follow (case e of None \<Rightarrow> [] | Some e \<Rightarrow> [e]) (H, b, n) = Some (H', b', n')" "thread_ok t H' b' n'"
    using thread_step_lawful [OF step H(2)] my_element_fits [OF ok(1), of i] by blast
  have "\<exists>H b n. follow (events_of j (tr @ recorded i e)) ([], None, 1) = Some (H, b, n) \<and> thread_ok (ts[i := t] ! j) H b n" if "j < length ts" for j
    using that ok(3) H(1) H' run(3) by (cases "j = i") (auto simp: events_of_recorded follow_append)
  moreover have "queue_ok (ts[i := t]) q'" by (rule thread_step_queue [OF step ok(1) run(3) refl])
  moreover have "\<forall>(j, e) \<in> set (tr @ recorded i e). j < length ts" using ok(2) run(3) by (auto simp: recorded_def split: option.split)
  ultimately show ?thesis by (simp add: machine_ok_def run(2) x)
qed

lemma machine_reaches_ok: "machine_reaches cf fs s0 m \<Longrightarrow> machine_ok m"
proof (induction rule: machine_reaches.induct)
  case start
  then show ?case by (simp add: machine_ok_def queue_ok_def)
qed (rule machine_step_ok)

text \<open>
  C2: Every request is answered once (the requests for reading a directory, which \<open>DirHandle\<close> has, are not among those that arrive here).
  However the requests interleave, whatever the file system returns and whichever requests the kernel has dropped, a request sends at
  most one reply and gives back only what it has got. It calls the file system only with paths that it holds at that time, the root, or
  none. The one exception is the hidden file that a deleted open file is renamed to: its path is the one that the request has made last, and
  it made it, from the node table at that moment, for a hidden name that was free in a directory of which it holds an entry, or for
  the entry that it has write-locked. When the handler has ended it has sent exactly one reply and holds no path.
\<close>

theorem requests_answered_once:
  assumes "machine_reaches cf fs s0 (ts, x, tr)" and "i < length ts"
  shows "\<exists>H b n. follow (events_of i tr) ([], None, 1) = Some (H, b, n) \<and> (ts ! i = Running Finished \<longrightarrow> H = [] \<and> n = 0)"
proof -
  obtain s q where x: "x = (s, q)" by fastforce
  obtain H b n where "follow (events_of i tr) ([], None, 1) = Some (H, b, n)" "thread_ok (ts ! i) H b n"
    using machine_reaches_ok [OF assms(1)] assms(2) by (auto simp: machine_ok_def x)
  then show ?thesis by fastforce
qed

section \<open>Copying within a file\<close>

text \<open>A library with one file, and a configuration in which paths are needed.\<close>

definition demo_conf :: fuse_config where
  "demo_conf = \<lparr>use_ino = False, readdir_ino = False, set_gid = False, cf_gid = 0, set_uid = False, cf_uid = 0, set_mode = False,
     cf_umask = 0, fmask = 0, dmask = 0, entry_timeout = (1, 0), negative_timeout = (0, 0), attr_timeout = (1, 0), hard_remove = False,
     direct_io = False, kernel_cache = False, auto_cache = False, ac_attr_timeout = 0, nullpath_ok = False, no_rofd_flush = False,
     parallel_direct_writes = False\<rparr>"

definition demo_hl :: hl where
  "demo_hl = \<lparr>tree = demo_tree, hidectr = 0, sinfo = (\<lambda>_. \<lparr>si_mtime = (0, 0), si_size = 0, si_updated = 0\<rparr>), dirs = []\<rparr>"

abbreviation all_ops :: fs_ops where "all_ops \<equiv> \<lambda>_. True"

lemma machine_runs:
  assumes "machine_reaches cf fs s0 (ts, x, tr)" and "i < length ts" and "ts ! i = t" and "thread_step i (t, x) e (t', x')"
  shows "machine_reaches cf fs s0 (ts[i := t'], x', tr @ recorded i e)"
  using assms by (auto intro: machine_reaches.step machine_step.run)

lemma machine_arrives:
  "machine_reaches cf fs s0 (ts, x, tr) \<Longrightarrow> fuse_path_ops cf fs c = Some p \<Longrightarrow> machine_reaches cf fs s0 (ts @ [Running p], x, tr)"
  by (auto intro: machine_reaches.step machine_step.arrive)

theorem requests_answered_once_witness:
  "\<exists>x tr b. machine_reaches demo_conf all_ops demo_hl ([Running Finished], x, tr) \<and> follow (events_of 0 tr) ([], None, 1) = Some ([], b, 0)"
proof -
  let ?x = "(demo_hl, [])" and ?c = "Fs_statfs (Some [47])" and ?k = "reply_result (\<lambda>r. R_statfs (r_statvfs r))"
  have r1: "machine_reaches demo_conf all_ops demo_hl ([Running (Ask False ?c ?k)], ?x, [])"
    using machine_arrives [OF machine_reaches.start, of demo_conf all_ops "Statfs 0" _ demo_hl]
    by (simp add: fuse_lib_statfs_def fuse_fs_statfs_def ask_or_def)
  have ans: "?k (missing 0) = Answer (Some (R_statfs zero_statvfs)) (\<lambda>_. Finished)" by (simp add: reply_result_def plain_res_def)
  have r2: "machine_reaches demo_conf all_ops demo_hl ([Running (?k (missing 0))], ?x, [(0, Asked False ?c)])"
    using machine_runs [OF r1 _ _ thread_step.ask [of 0 False ?c ?k ?x "missing 0"]] by (simp add: recorded_def)
  have "machine_reaches demo_conf all_ops demo_hl ([Running Finished], ?x, [(0, Asked False ?c), (0, Answered (Some (R_statfs zero_statvfs)))])"
    using machine_runs [OF r2 [unfolded ans] _ _ thread_step.answer [of 0 "Some (R_statfs zero_statvfs)" "\<lambda>_. Finished" ?x False]] by (simp add: recorded_def)
  from requests_answered_once [OF this, of 0] this show ?thesis by fastforce
qed

text \<open>Trying to get a name for writing that somebody reads.\<close>

lemma try_write_busy:
  assumes "fmem f = []" and "lookup_node f ino [97] = Some w" and "node_at f w = Some n" and "0 < treelock n"
  shows "\<exists>g. try_get_path ino (Some [97]) True True f = Some (Inl (- EAGAIN), g) \<and> same_tree f g \<and> fmem g = [] \<and>
    lck g = (lck f)(w := treelock n + TREELOCK_WAIT_OFFSET)"
proof -
  obtain b where b: "add_name buf_init [97] [] = Some (Some b, [])"
    by (auto simp: add_name_def buf_init_def)
  have f: "f\<lparr>fmem := []\<rparr> = f" using assms(1) by simp
  have "try_get_path ino (Some [97]) True True f = Some (Inl (- EAGAIN), set_node w (n\<lparr>treelock := treelock n + TREELOCK_WAIT_OFFSET\<rparr>) f)"
    using assms b by (simp add: try_get_path_def lock_wnode_def f)
  with set_treelock [OF assms(3)] assms(1) show ?thesis by (auto simp: set_node_def)
qed

text \<open>
  C38: Two requests can wait for each other for ever. A copy within one file gets the path of the source and then asks for that of
  the destination; if in between another request wants to remove the file, it has marked the file as waited for, so that the
  copy is not let in a second time, and the removal waits until the copy returns its first path. Both are in
  the queue, nobody holds a path that would be returned, and neither can take a step.
\<close>

theorem copy_within_file_deadlocks:
  "\<exists>i k p c d x tr. get_node demo_tree i \<noteq> None \<and>
     fuse_lib_copy_file_range demo_conf all_ops i 0 zero_fi i 0 zero_fi 1 0 = Get_path (ForPath i None False) k \<and>
     k (Inr (Path p None)) = Get_path (ForPath i None False) c \<and>
     fuse_lib_unlink demo_conf all_ops ROOT_ID [97] = Get_path (ForPath ROOT_ID (Some [97]) True) d \<and>
     machine_reaches demo_conf all_ops demo_hl ([Waiting (ForPath i None False) c, Waiting (ForPath ROOT_ID (Some [97]) True) d], x, tr) \<and>
     \<not> (\<exists>j e t x'. j < 2 \<and> thread_step j ([Waiting (ForPath i None False) c, Waiting (ForPath ROOT_ID (Some [97]) True) d] ! j, x) e (t, x'))"
proof -
  obtain a i where t: "get_node demo_tree ROOT_ID = Some 0" "get_node demo_tree i = Some a" "lookup_node demo_tree ROOT_ID [97] = Some a"
    "keys demo_tree = [0 \<mapsto> (ROOT_ID, None, Some [47]), a \<mapsto> (i, Some 0, Some [97])]" "a \<noteq> 0" "i \<noteq> ROOT_ID"
    "\<forall>c. lck demo_tree c = 0" "fmem demo_tree = []" by (rule demo_tree_ok)
  have up: "climb f a [a] 0" "at_root f 0" "full_path f [a] None = [47, 97]" "get_node f i = Some a" if "same_tree demo_tree f" for f
    using t same_tree_keys [OF that] same_tree_get_node [OF that] by (simp_all add: at_root_def full_path_def)
  obtain f1 p1 where f1: "try_get_path i None False True demo_tree = Some (Inr (p1, None), f1)" "same_tree demo_tree f1" "fmem f1 = []" "lck f1 a = 1"
    using try_get_path_ok [OF up(4) [OF same_tree_refl] up(1,2) [OF same_tree_refl], of None False] t(7,8) up(3) [OF same_tree_refl]
    by (fastforce simp: path_outcome_def entry_of_def take_locks_def split: sum.splits)
  obtain n where n: "node_at f1 a = Some n" "treelock n = 1" using f1(4) by (auto simp: lck_def split: option.splits)
  obtain f2 where f2: "try_get_path ROOT_ID (Some [97]) True True f1 = Some (Inl (- EAGAIN), f2)" "same_tree f1 f2" "fmem f2 = []" "lck f2 a < 0"
    using try_write_busy [OF f1(3) _ n(1), of ROOT_ID] n(2) t(3) same_tree_lookup_node [OF f1(2)] by (auto simp: TREELOCK_WAIT_OFFSET_def)
  note st = same_tree_trans [OF f1(2) f2(2)]
  obtain f3 where f3: "try_get_path i None False True f2 = Some (Inl (- EAGAIN), f3)"
    using try_get_path_ok [OF up(4) [OF st] up(1,2) [OF st], of None False] f2(3,4) up(3) [OF st]
    by (fastforce simp: path_outcome_def entry_of_def split: sum.splits)
  let ?copy = "fuse_lib_copy_file_range demo_conf all_ops i 0 zero_fi i 0 zero_fi 1 0"
  let ?rm = "fuse_lib_unlink demo_conf all_ops ROOT_ID [97]"
  let ?w = "ForPath i None False" and ?v = "ForPath ROOT_ID (Some [97]) True"
  obtain k c where k: "?copy = Get_path ?w k" "k (Inr (Path p1 None)) = Get_path ?w c"
    by (simp add: fuse_lib_copy_file_range_def nullok_path_def demo_conf_def)
  obtain d where d: "?rm = Get_path ?v d" by (simp add: fuse_lib_unlink_def get_path_wrlock_def)
  let ?s = "\<lambda>f. demo_hl\<lparr>tree := f\<rparr>"
  have "machine_reaches demo_conf all_ops demo_hl ([] @ [Running ?copy], (demo_hl, []), [])"
    by (rule machine_arrives [OF machine_reaches.start, of _ _ "Copy_file_range i 0 zero_fi i 0 zero_fi 1 0"]) simp
  then have "machine_reaches demo_conf all_ops demo_hl (([] @ [Running ?copy]) @ [Running ?rm], (demo_hl, []), [])"
    by (rule machine_arrives [where c = "Unlink ROOT_ID [97]"]) simp
  then have r0: "machine_reaches demo_conf all_ops demo_hl ([Running (Get_path ?w k), Running (Get_path ?v d)], (demo_hl, []), [])"
    by (simp add: k(1) d)
  obtain tr1 where r1: "machine_reaches demo_conf all_ops demo_hl ([Running (Get_path ?w c), Running (Get_path ?v d)], (?s f1, []), tr1)"
    using machine_runs [OF r0 _ _ thread_step.get_now [of ?w demo_hl "Inr (Path p1 None)" f1 0 k]] f1(1) k(2) by (auto simp: demo_hl_def)
  obtain tr2 where r2: "machine_reaches demo_conf all_ops demo_hl ([Running (Get_path ?w c), Waiting ?v d], (?s f2, queue_path 1 ?v []), tr2)"
    using machine_runs [OF r1 _ _ thread_step.get_later [of ?v "?s f1" f2 1 d]] f2(1) by auto
  obtain tr3 where r3: "machine_reaches demo_conf all_ops demo_hl ([Waiting ?w c, Waiting ?v d], (?s f3, queue_path 0 ?w (queue_path 1 ?v [])), tr3)"
    using machine_runs [OF r2 _ _ thread_step.get_later [of ?w "?s f2" f3 0 c]] f3 by auto
  have "\<not> thread_step j (Waiting w k', (?s f3, queue_path 0 ?w (queue_path 1 ?v []))) e (t, x')" for j w k' e t x'
    by (auto simp: my_element_def queue_path_def find_Some_iff elim!: thread_step.cases split: if_splits)
  then have stuck: "\<not> (\<exists>j e t x'. j < 2 \<and>
      thread_step j ([Waiting ?w c, Waiting ?v d] ! j, ?s f3, queue_path 0 ?w (queue_path 1 ?v [])) e (t, x'))"
    by (metis less_2_cases nth_Cons_0 nth_Cons_Suc One_nat_def)
  have "get_node demo_tree i \<noteq> None" using t(2) by simp
  with k d r3 stuck show ?thesis by blast
qed

end
