(* ===== verification/HighProps.thy ===== *)
theory HighProps
  imports HighMachine
begin

text \<open>
  What a request of the high-level library achieves when no other runs: from the path it gets to the reply it sends, with the
  node table afterwards. \<open>run_alone\<close> runs a program to its end; the file system is a function of what the
  request has done so far. Between requests no node is locked.
\<close>

section \<open>A request alone\<close>

primrec run_alone :: "prog \<Rightarrow> (event list \<Rightarrow> fs_call \<Rightarrow> fs_res) \<Rightarrow> hl \<Rightarrow> event list \<Rightarrow> (event list \<times> hl) option" where
  "run_alone Finished ans s es = Some (es, s)"
| "run_alone (Get_path w k) ans s es =
     (case try_paths w (tree s) of
        None \<Rightarrow> None
      | Some (r, g) \<Rightarrow> if r = Inl (- EAGAIN) then None else run_alone (k r) ans (s\<lparr>tree := g\<rparr>) (es @ [Got w r]))"
| "run_alone (Put_path xs p) ans s es =
     (case unlock_all xs (tree s) of None \<Rightarrow> None | Some g \<Rightarrow> run_alone p ans (s\<lparr>tree := g\<rparr>) (es @ [Returned xs]))"
| "run_alone (Ask hid c k) ans s es = run_alone (k (ans es c)) ans s (es @ [Asked hid c])"
| "run_alone (Answer a k) ans s es = run_alone (k False) ans s (es @ [Answered a])"
| "run_alone (Locked sec k) ans s es = (case sec s of None \<Rightarrow> None | Some (v, s') \<Rightarrow> run_alone (k v) ans s' es)"
| "run_alone (Build sec k) ans s es =
     (case sec s of None \<Rightarrow> None | Some (v, s') \<Rightarrow> run_alone (k v) ans s' (es @ [Built (tree s) v]))"
| "run_alone (Forgetting ino n p) ans s es =
     (if forget_must_wait (tree s) ino n then None
      else case forget_node ino n (tree s) of None \<Rightarrow> None | Some g \<Rightarrow> run_alone p ans (s\<lparr>tree := g\<rparr>) es)"

text \<open>Such a run is one of the machine.\<close>

lemma run_alone_reaches:
  "run_alone p ans s es = Some (es', s') \<Longrightarrow> machine_reaches cf fs s0 ([Running p], (s, []), map (Pair 0) es) \<Longrightarrow>
   machine_reaches cf fs s0 ([Running Finished], (s', []), map (Pair 0) es')"
proof (induction p arbitrary: s es)
  case (Get_path w k)
  then obtain r g where r: "try_paths w (tree s) = Some (r, g)" "r \<noteq> Inl (- EAGAIN)"
    "run_alone (k r) ans (s\<lparr>tree := g\<rparr>) (es @ [Got w r]) = Some (es', s')"
    by (auto split: option.splits prod.splits if_splits)
  show ?case
    by (rule Get_path.IH [OF _ r(3)])
      (use machine_runs [OF Get_path.prems(2) _ _ thread_step.get_now [OF r(1,2)]] in \<open>auto simp: recorded_def\<close>)
next
  case (Put_path xs p)
  then obtain g where g: "unlock_all xs (tree s) = Some g" "run_alone p ans (s\<lparr>tree := g\<rparr>) (es @ [Returned xs]) = Some (es', s')"
    by (auto split: option.splits)
  have "put_paths xs (s, []) = Some (s\<lparr>tree := g\<rparr>, [])" using g(1) by (simp add: put_paths_def)
  from machine_runs [OF Put_path.prems(2) _ _ thread_step.put [OF this]] show ?case
    by (intro Put_path.IH [OF g(2)]) (auto simp: recorded_def)
next
  case (Ask hid c k)
  show ?case
    by (rule Ask.IH [of "k (ans es c)" s "es @ [Asked hid c]"])
      (use Ask.prems machine_runs [OF Ask.prems(2) _ _ thread_step.ask] in \<open>auto simp: recorded_def\<close>)
next
  case (Answer a k)
  show ?case
    by (rule Answer.IH [of "k False" s "es @ [Answered a]"])
      (use Answer.prems machine_runs [OF Answer.prems(2) _ _ thread_step.answer] in \<open>auto simp: recorded_def\<close>)
next
  case (Locked sec k)
  then obtain v t where v: "sec s = Some (v, t)" "run_alone (k v) ans t es = Some (es', s')" by (auto split: option.splits)
  show ?case
    by (rule Locked.IH [OF _ v(2)])
      (use machine_runs [OF Locked.prems(2) _ _ thread_step.locked [of sec, OF v(1)]] in \<open>auto simp: recorded_def\<close>)
next
  case (Build sec k)
  then obtain v t where v: "sec s = Some (v, t)" "run_alone (k v) ans t (es @ [Built (tree s) v]) = Some (es', s')" by (auto split: option.splits)
  show ?case
    by (rule Build.IH [OF _ v(2)])
      (use machine_runs [OF Build.prems(2) _ _ thread_step.build [of sec, OF v(1)]] in \<open>auto simp: recorded_def\<close>)
next
  case (Forgetting ino n p)
  then obtain g where g: "\<not> forget_must_wait (tree s) ino n" "forget_node ino n (tree s) = Some g"
    "run_alone p ans (s\<lparr>tree := g\<rparr>) es = Some (es', s')" by (auto split: option.splits if_splits)
  from machine_runs [OF Forgetting.prems(2) _ _ thread_step.forget_now [OF g(1,2)]] show ?case
    by (intro Forgetting.IH [OF g(3)]) (auto simp: recorded_def)
qed simp

section \<open>The node table between the steps\<close>

text \<open>A file the kernel may ask about: it is known, and its path goes up to the root.\<close>

definition known_file :: "fuse \<Rightarrow> u64 \<Rightarrow> nat \<Rightarrow> nat list \<Rightarrow> u8 list option \<Rightarrow> bool" where
  "known_file f ino a as name \<longleftrightarrow> get_node f ino = Some a \<and> known f a \<and> (\<exists>e. climb f a as e \<and> at_root f e) \<and>
     0 \<notin> set (full_path f as name) \<and> length (full_path f as name) + 1 \<le> 0xffffffff"

definition path_of :: "fuse \<Rightarrow> nat list \<Rightarrow> u8 list option \<Rightarrow> u8 list" where
  "path_of f as name = (if full_path f as name = [] then [47] else full_path f as name)"

text \<open>No node is locked, and memory does not run out.\<close>

definition idle :: "fuse \<Rightarrow> bool" where
  "idle f \<longleftrightarrow> inv {} None f \<and> lck f = (\<lambda>_. 0) \<and> False \<notin> set (fmem f)"

definition locked_by :: "nat list \<Rightarrow> nat \<Rightarrow> int" where
  "locked_by as c = (if c \<in> set as then 1 else 0)"

lemma get_alone:
  assumes "known_file f ino a as name" and "lck f = (\<lambda>_. 0)" and "False \<notin> set (fmem f)"
  shows "\<exists>g. try_get_path ino name False True f = Some (Inr (path_of f as name, None), g) \<and> same_tree f g \<and>
    lck g = locked_by as \<and> False \<notin> set (fmem g)"
proof -
  obtain e where e: "get_node f ino = Some a" "climb f a as e" "at_root f e" "0 \<notin> set (full_path f as name)"
    "length (full_path f as name) + 1 \<le> 0xffffffff" using assms(1) by (auto simp: known_file_def)
  from try_get_path_ok [OF e, of False] obtain r g where
    r: "try_get_path ino name False True f = Some (r, g)" "same_tree f g" "path_outcome ino name False as f r g"
    by (auto simp: entry_of_def)
  then show ?thesis using assms(2,3)
    by (auto simp: path_outcome_def entry_of_def path_of_def take_locks_def locked_by_def fun_eq_iff split: sum.splits)
qed

lemma put_alone:
  assumes "get_node g ino = Some a" and "climb g a as e" and "at_root g e" and "lck g = locked_by as"
  shows "\<exists>h. unlock_path ino None None g = Some h \<and> same_tree g h \<and> lck h = (\<lambda>_. 0)"
proof -
  have "\<forall>c\<in>set as. read_locked (lck g c)"
    by (simp add: assms(4) locked_by_def read_locked_def TREELOCK_WAIT_OFFSET_def TREELOCK_WRITE_def)
  from unlock_path_ok [OF assms(1-3) _ _ this, of None] obtain h where "unlock_path ino None None g = Some h" "same_tree g h"
    "lck h = (\<lambda>c. if None = Some c then 0 else if c \<in> set as then dec_lock (lck g c) else lck g c)" by auto
  then show ?thesis by (auto simp: assms(4) locked_by_def dec_lock_def TREELOCK_WAIT_OFFSET_def fun_eq_iff)
qed

lemma unlock_loop_memory:
  assumes "unlock_loop pos e f = Some g"
  shows "fmem g = fmem f"
  by (rule unlock_loop.raw_induct [OF _ assms, where P = "\<lambda>pos e f g. fmem g = fmem f"]) (fastforce split: if_splits option.splits)

lemma unlock_path_memory: "unlock_path ino None e f = Some g \<Longrightarrow> fmem g = fmem f"
  by (auto simp: unlock_path_def unlock_wnode_def dest: unlock_loop_memory split: option.splits)

lemma same_tree_all:
  assumes "same_tree f g" and "node_at f a = Some n"
  obtains m where "node_at g a = Some m" "unlocked m = unlocked n"
proof -
  have "map_option unlocked (node_at g a) = Some (unlocked n)" using assms by (auto simp: same_tree_def)
  with that show thesis by auto
qed

lemma same_tree_lookups: "same_tree f g \<Longrightarrow> map_option nlookup (node_at g a) = map_option nlookup (node_at f a)"
proof -
  assume "same_tree f g"
  moreover have "map_option nlookup x = map_option nlookup (map_option unlocked x)" for x by (cases x) (simp_all add: unlocked_def)
  ultimately show ?thesis by (metis same_tree_def)
qed

lemma climb_child:
  "climb f a as e \<Longrightarrow> c \<in> set as \<Longrightarrow> c = a \<or> (\<exists>b\<in>set as. c \<in> dom (keys f) \<and> b \<in> kids (keys f) c)"
proof (induction as arbitrary: a)
  case (Cons b bs)
  then obtain i p nm where p: "a = b" "keys f a = Some (i, Some p, Some nm)" "climb f p bs e" by auto
  show ?case
  proof (cases "c = b")
    case False
    then have "c \<in> set bs" using Cons.prems(2) by simp
    moreover from this have "c \<in> dom (keys f)" using p(3) by (induction bs arbitrary: p) auto
    ultimately show ?thesis using Cons.IH [OF p(3)] p by (auto simp: kids_def)
  qed (use p in simp)
qed simp

lemma locked_by_ok:
  assumes "climb f a as e" and "known f a" and "same_tree f g" and "lck g = locked_by as"
  shows "locks_ok (keys g) g"
  unfolding locks_ok_def
proof (intro allI impI)
  fix c n assume n: "node_at g c = Some n" "treelock n \<noteq> 0"
  then have "lck g c \<noteq> 0" by (simp add: lck_def)
  then have c: "c \<in> set as" by (simp add: assms(4) locked_by_def split: if_splits)
  from climb_child [OF assms(1) this] consider "c = a" | b where "b \<in> set as" "b \<in> kids (keys g) c"
    using same_tree_keys [OF assms(3)] by auto
  then show "0 < nlookup n \<or> (\<exists>c\<in>kids (keys g) c. is_locked g c)"
  proof cases
    case 1
    obtain m where "node_at f a = Some m" "nlookup m > 0" using assms(2) by (auto simp: known_def)
    with same_tree_node [OF assms(3), of a m] n(1) 1 show ?thesis by (metis option.inject)
  next
    case 2
    then have "lck g b \<noteq> 0" by (simp add: assms(4) locked_by_def)
    then have "is_locked g b" by (auto simp: is_locked_def lck_def split: option.splits)
    with 2 show ?thesis by blast
  qed
qed

text \<open>A path that was got before and is given back after a change of the table that kept it.\<close>

lemma give_back_alone:
  assumes "inv {} None f" and "inv {} None g" and "known_file f ino a as name" and "lck g = locked_by as"
    and "\<And>c k. keys f c = Some k \<Longrightarrow> keys g c = Some k"
  shows "\<exists>h. unlock_path ino None None g = Some h \<and> same_tree g h \<and> lck h = (\<lambda>_. 0) \<and> inv {} None h"
proof -
  obtain e where e: "get_node f ino = Some a" "climb f a as e" "at_root f e" using assms(3) by (auto simp: known_file_def)
  have up: "climb g b bs e" if "climb f b bs e" for b bs using that by (induction bs arbitrary: b) (auto dest: assms(5))
  have "at_root g e" using e(3) by (auto simp: at_root_def dest: assms(5))
  moreover have "get_node g ino = Some a" using e(1) by (auto simp: get_node_inv [OF assms(1)] get_node_inv [OF assms(2)] dest: assms(5))
  ultimately obtain h where h: "unlock_path ino None None g = Some h" "same_tree g h" "lck h = (\<lambda>_. 0)"
    using put_alone [OF _ up [OF e(2)] _ assms(4)] by blast
  with inv_same_tree [OF assms(2) h(2) unlocked_ok] show ?thesis by blast
qed

section \<open>Looking up a name\<close>

lemma update_stat_ok:
  assumes "inv {} None (tree s)" and "node_at (tree s) a \<noteq> None"
  shows "\<exists>t. update_stat a st s = Some (no_val, t) \<and> inv {} None (tree t) \<and> keys (tree t) = keys (tree s) \<and> lck (tree t) = lck (tree s) \<and>
    (\<forall>b. map_option nlookup (node_at (tree t) b) = map_option nlookup (node_at (tree s) b))"
proof -
  obtain n where n: "node_at (tree s) a = Some n" using assms(2) by blast
  define v where "v \<longleftrightarrow> cache_valid n \<and> si_mtime (sinfo s a) = (st_mtime st, st_mtimensec st) \<and> si_size (sinfo s a) = st_size st"
  let ?g = "set_node a (n\<lparr>cache_valid := v\<rparr>) (tree s)"
  have "\<exists>t. update_stat a st s = Some (no_val, t) \<and> tree t = ?g" using n by (simp add: update_stat_def v_def Let_def)
  moreover have "inv {} None ?g" "keys ?g = keys (tree s)" by (rule inv_set_same [OF assms(1) n]; simp)+
  moreover have "lck ?g = lck (tree s)" using n by (auto simp: lck_def fun_eq_iff node_at_set_node)
  moreover have "\<forall>b. map_option nlookup (node_at ?g b) = map_option nlookup (node_at (tree s) b)" using n by (auto simp: node_at_set_node)
  ultimately show ?thesis by metis
qed

text \<open>The part under the path: the node is found or made, and its attributes are kept.\<close>

lemma hl_lookup_alone:
  assumes "inv {} None (tree s)" and "get_node (tree s) dir = Some p" and "card (dom (keys (tree s))) < 2 ^ 32 - 2" and "False \<notin> set (fmem (tree s))"
  shows "\<exists>a i gen t. run_alone (hl_lookup cf dir (Some name) e k) ans s es =
      run_alone (k 0 (e\<lparr>e_ino := i, e_generation := gen, e_entry_timeout := entry_timeout cf, e_attr_timeout := attr_timeout cf,
        e_attr := set_stat cf i (e_attr e)\<rparr>)) ans t es \<and>
    inv {} None (tree t) \<and> lck (tree t) = lck (tree s) \<and> (\<forall>c x. keys (tree s) c = Some x \<longrightarrow> keys (tree t) c = Some x) \<and>
    get_node (tree t) i = Some a \<and>
    (\<forall>d nm. lookup_node (tree t) d nm = (if d = dir \<and> nm = name then Some a else lookup_node (tree s) d nm)) \<and>
    (\<forall>b. map_option nlookup (node_at (tree t) b) = (if b = a
       then Some (case node_at (tree s) b of None \<Rightarrow> (if remember (tree s) \<noteq> 0 then 2 else 1) | Some n \<Rightarrow> nlookup n + 1)
       else map_option nlookup (node_at (tree s) b)))"
proof -
  have mem: "fst (alloc m) \<and> fst (alloc (snd (alloc m)))" if "False \<notin> set m" for m
    using that alloc_fails alloc_subset by blast
  obtain r g where find: "find_node dir (Some name) (tree s) = Some (Some (r, g))" "inv {} None g"
      "\<forall>d nm. lookup_node g d nm = (if d = dir \<and> nm = name then r else lookup_node (tree s) d nm)"
      "r = None \<longrightarrow> \<not> fst (alloc (fmem (tree s))) \<or> 32 \<le> length name \<and> \<not> fst (alloc (snd (alloc (fmem (tree s)))))"
      "\<forall>b. map_option nlookup (node_at g b) = (if r = Some b
         then Some (case node_at (tree s) b of None \<Rightarrow> (if remember (tree s) \<noteq> 0 then 2 else 1) | Some n \<Rightarrow> nlookup n + 1)
         else map_option nlookup (node_at (tree s) b))"
      "keys g = keys (tree s) \<or> (\<exists>a i. r = Some a \<and> keys (tree s) a = None \<and> keys g = (keys (tree s))(a \<mapsto> (i, Some p, Some name)))"
      "lck g = lck (tree s)"
    using find_node_ok [OF assms(1-3), of name] by (elim exE conjE) (rule that)
  obtain a where r: "r = Some a" using find(4) mem [OF assms(4)] by blast
  have kept: "\<forall>c x. keys (tree s) c = Some x \<longrightarrow> keys g c = Some x" using find(6) by auto
  have "map_option nlookup (node_at g a) \<noteq> None" using find(5) r by simp
  then obtain n where n: "node_at g a = Some n" by auto
  define s1 where "s1 = s\<lparr>tree := g\<rparr>"
  define e1 where "e1 = e\<lparr>e_ino := nodeid n, e_generation := ucast (ngeneration n), e_entry_timeout := entry_timeout cf, e_attr_timeout := attr_timeout cf\<rparr>"
  have look: "look_up dir (Some name) s = Some (no_val\<lparr>v_num := nodeid n, v_gen := ngeneration n, v_addr := a\<rparr>, s1)"
    using find(1) r n by (simp add: look_up_def s1_def)
  obtain t where t: "update_stat a (e_attr e1) s1 = Some (no_val, t)" "inv {} None (tree t)" "keys (tree t) = keys g" "lck (tree t) = lck g"
    "\<forall>b. map_option nlookup (node_at (tree t) b) = map_option nlookup (node_at g b)"
    using update_stat_ok [of s1 a "e_attr e1"] find(2) n by (auto simp: s1_def)
  let ?t = "if auto_cache cf then t else s1"
  have tree: "inv {} None (tree ?t)" "keys (tree ?t) = keys g" "lck (tree ?t) = lck g"
    "\<forall>b. map_option nlookup (node_at (tree ?t) b) = map_option nlookup (node_at g b)"
    using t find(2) by (simp_all add: s1_def)
  have run: "run_alone (hl_lookup cf dir (Some name) e k) ans s es =
      run_alone (k 0 (e1\<lparr>e_attr := set_stat cf (nodeid n) (e_attr e)\<rparr>)) ans ?t es"
    using look t(1) by (simp add: hl_lookup_def no_val_def Let_def e1_def)
  have ga: "get_node (tree ?t) (nodeid n) = Some a" using n tree(2) by (simp add: get_node_inv [OF tree(1)] keys_def)
  have lookup: "\<forall>d nm. lookup_node (tree ?t) d nm = (if d = dir \<and> nm = name then Some a else lookup_node (tree s) d nm)"
  proof (intro allI)
    fix d nm
    have "lookup_node (tree ?t) d nm = lookup_node g d nm"
      by (rule option_eq) (simp only: lookup_node_inv [OF tree(1)] lookup_node_inv [OF find(2)] tree(2))
    then show "lookup_node (tree ?t) d nm = (if d = dir \<and> nm = name then Some a else lookup_node (tree s) d nm)" using find(3) r by simp
  qed
  have "\<forall>b. map_option nlookup (node_at (tree ?t) b) = (if b = a
       then Some (case node_at (tree s) b of None \<Rightarrow> (if remember (tree s) \<noteq> 0 then 2 else 1) | Some n \<Rightarrow> nlookup n + 1)
       else map_option nlookup (node_at (tree s) b))" using tree(4) find(5) r by auto
  with run [unfolded e1_def] tree(1) tree(2,3) find(7) kept ga lookup show ?thesis
    by (intro exI [of _ a] exI [of _ "nodeid n"] exI [of _ "ucast (ngeneration n)"] exI [of _ ?t] conjI) simp_all
qed

text \<open>Getting a path when no other request runs.\<close>

lemma start_alone:
  assumes "idle (tree s)" and "known_file (tree s) ino a as name"
    and "path = path_of (tree s) as name" and "got = Got (ForPath ino name False) (Inr (Path path None))"
    and "P = Get_path (ForPath ino name False) k" and "k (Inr (Path path None)) = Q"
  obtains g where "run_alone P ans s es = run_alone Q ans (s\<lparr>tree := g\<rparr>) (es @ [got])"
    "same_tree (tree s) g" "inv {} None g" "lck g = locked_by as" "False \<notin> set (fmem g)" "keys g = keys (tree s)"
proof -
  have i: "inv {} None (tree s)" "lck (tree s) = (\<lambda>_. 0)" "False \<notin> set (fmem (tree s))" using assms(1) by (simp_all add: idle_def)
  from get_alone [OF assms(2) i(2,3)] obtain g where g: "try_get_path ino name False True (tree s) = Some (Inr (path_of (tree s) as name, None), g)"
    "same_tree (tree s) g" "lck g = locked_by as" "False \<notin> set (fmem g)" by blast
  have "locks_ok (keys g) g" using assms(2) locked_by_ok [OF _ _ g(2,3)] by (auto simp: known_file_def)
  from inv_same_tree [OF i(1) g(2) this] show thesis
    by (rule that [rotated 2]) (use g same_tree_keys [OF g(2)] assms(3-6) in simp_all)
qed

text \<open>
  C8: A lookup request answers with the node of the name. If the file system knows the file, the request asks it for the attributes once,
  with the path of the name, and the reply carries the number under which the node table has the file from then on, the
  attributes and the configured timeouts. The node is counted as looked up once more, every other name and
  count is as before, the tree invariant holds, and no lock is left.
\<close>

theorem lookup_request:
  assumes "idle (tree s)" and "known_file (tree s) dir p as (Some name)" and "card (dom (keys (tree s))) < 2 ^ 32 - 2"
    and "name \<noteq> [46]" and "name \<noteq> [46, 46]" and "fs ''getattr''"
    and "path = path_of (tree s) as (Some name)" and "got = Got (ForPath dir (Some name) False) (Inr (Path path None))"
    and "ret (ans [got] (Fs_getattr (Some path) None)) = 0"
  shows "\<exists>a i gen t. run_alone (fuse_lib_lookup cf fs dir name) ans s [] =
      Some ([got, Asked False (Fs_getattr (Some path) None), Returned [(dir, None)],
        Answered (Some (R_entry \<lparr>e_ino = i, e_generation = gen, e_attr = set_stat cf i (r_stat (ans [got] (Fs_getattr (Some path) None))),
          e_attr_timeout = attr_timeout cf, e_entry_timeout = entry_timeout cf\<rparr>))], t) \<and>
    get_node (tree t) i = Some a \<and>
    (\<forall>d nm. lookup_node (tree t) d nm = (if d = dir \<and> nm = name then Some a else lookup_node (tree s) d nm)) \<and>
    (\<forall>b. map_option nlookup (node_at (tree t) b) = (if b = a
       then Some (case node_at (tree s) b of None \<Rightarrow> (if remember (tree s) \<noteq> 0 then 2 else 1) | Some n \<Rightarrow> nlookup n + 1)
       else map_option nlookup (node_at (tree s) b))) \<and>
    inv {} None (tree t) \<and> lck (tree t) = (\<lambda>_. 0)"
proof -
  let ?r = "ans [got] (Fs_getattr (Some path) None)" and ?e = "zero_entry\<lparr>e_attr := r_stat (ans [got] (Fs_getattr (Some path) None))\<rparr>"
  define k where "k = (\<lambda>err e. let (err1, e1) = (if err = - H_ENOENT \<and> negative_timeout cf \<noteq> (0, 0)
      then (0, e\<lparr>e_ino := 0, e_entry_timeout := negative_timeout cf\<rparr>) else (err, e)) in put_path dir (Some path) (reply_entry e1 err1))"
  have i: "inv {} None (tree s)" using assms(1) by (simp add: idle_def)
  obtain K where K: "fuse_lib_lookup cf fs dir name = Get_path (ForPath dir (Some name) False) K"
    "K (Inr (Path path None)) = lookup_path cf fs dir (Some name) path None k"
    using assms(4,5) by (simp add: fuse_lib_lookup_def lookup_body_def get_path_name_def k_def)
  obtain g where g: "run_alone (fuse_lib_lookup cf fs dir name) ans s [] =
      run_alone (lookup_path cf fs dir (Some name) path None k) ans (s\<lparr>tree := g\<rparr>) ([] @ [got])"
    "same_tree (tree s) g" "inv {} None g" "lck g = locked_by as" "False \<notin> set (fmem g)" "keys g = keys (tree s)"
    by (rule start_alone [OF assms(1,2,7,8) K, of ans "[]"])
  have p: "get_node g dir = Some p" using assms(2) same_tree_get_node [OF g(2)] by (simp add: known_file_def)
  let ?s = "s\<lparr>tree := g\<rparr>" and ?es = "[got, Asked False (Fs_getattr (Some path) None)]"
  obtain a i gen t where t: "run_alone (hl_lookup cf dir (Some name) ?e k) ans ?s ?es =
      run_alone (k 0 (?e\<lparr>e_ino := i, e_generation := gen, e_entry_timeout := entry_timeout cf, e_attr_timeout := attr_timeout cf,
        e_attr := set_stat cf i (e_attr ?e)\<rparr>)) ans t ?es"
    "inv {} None (tree t)" "lck (tree t) = lck g" "\<forall>c x. keys g c = Some x \<longrightarrow> keys (tree t) c = Some x"
    "get_node (tree t) i = Some a"
    "\<forall>d nm. lookup_node (tree t) d nm = (if d = dir \<and> nm = name then Some a else lookup_node g d nm)"
    "\<forall>b. map_option nlookup (node_at (tree t) b) = (if b = a
       then Some (case node_at g b of None \<Rightarrow> (if remember g \<noteq> 0 then 2 else 1) | Some n \<Rightarrow> nlookup n + 1)
       else map_option nlookup (node_at g b))"
    using hl_lookup_alone [of ?s dir p cf name ?e k ans ?es] g(3,5,6) p assms(3) by auto
  obtain h where h: "unlock_path dir None None (tree t) = Some h" "same_tree (tree t) h" "lck h = (\<lambda>_. 0)" "inv {} None h"
    using give_back_alone [OF \<open>inv {} None (tree s)\<close> t(2) assms(2)] t(3,4) g(4,6) by auto
  let ?ok = "R_entry \<lparr>e_ino = i, e_generation = gen, e_attr = set_stat cf i (r_stat ?r), e_attr_timeout = attr_timeout cf, e_entry_timeout = entry_timeout cf\<rparr>"
  have k0: "k 0 e = Put_path [(dir, None)] (reply_entry e 0)" for e by (simp add: k_def H_ENOENT_def put_path_def)
  have look: "run_alone (lookup_path cf fs dir (Some name) path None k) ans ?s ([] @ [got]) = run_alone (hl_lookup cf dir (Some name) ?e k) ans ?s ?es"
    using assms(6,9) by (simp add: lookup_path_def fuse_fs_getattr_def ask_or_def)
  have run: "run_alone (fuse_lib_lookup cf fs dir name) ans s [] =
      Some ([got, Asked False (Fs_getattr (Some path) None), Returned [(dir, None)], Answered (Some ?ok)], t\<lparr>tree := h\<rparr>)"
    unfolding g(1) look t(1) k0 using h(1) by (simp add: reply_entry_def zero_entry_def)
  have counted: "(case x of None \<Rightarrow> c | Some n \<Rightarrow> nlookup n + 1) = (case map_option nlookup x of None \<Rightarrow> c | Some l \<Rightarrow> l + 1)" for x and c :: nat
    by (cases x) simp_all
  have "remember g = remember (tree s)" using g(2) by (simp add: same_tree_def)
  then have counts: "\<forall>b. map_option nlookup (node_at h b) = (if b = a
       then Some (case node_at (tree s) b of None \<Rightarrow> (if remember (tree s) \<noteq> 0 then 2 else 1) | Some n \<Rightarrow> nlookup n + 1)
       else map_option nlookup (node_at (tree s) b))"
    using t(7) by (simp only: counted same_tree_lookups [OF h(2)] same_tree_lookups [OF g(2)] simp_thms)
  have "\<forall>d nm. lookup_node h d nm = (if d = dir \<and> nm = name then Some a else lookup_node (tree s) d nm)" "get_node h i = Some a"
    using t(5,6) by (simp_all only: same_tree_get_node [OF h(2)] same_tree_lookup_node [OF h(2)] same_tree_lookup_node [OF g(2)] simp_thms)
  with run counts h(3,4) show ?thesis
    by (intro exI [of _ a] exI [of _ i] exI [of _ gen] exI [of _ "t\<lparr>tree := h\<rparr>"]) simp
qed

text \<open>Changing fields of a node that neither the tree nor the locks depend on.\<close>

definition other_fields :: "node \<Rightarrow> node \<Rightarrow> bool" where
  "other_fields n m \<longleftrightarrow> nodeid m = nodeid n \<and> parent m = parent n \<and> nname m = nname n \<and> nlookup m = nlookup n \<and> refctr m = refctr n \<and> treelock m = treelock n"

lemma set_other:
  assumes "inv {} None f" and "node_at f a = Some n" and "other_fields n m"
  shows "inv {} None (set_node a m f)" and "keys (set_node a m f) = keys f" and "lck (set_node a m f) = lck f"
    and "node_at (set_node a m f) a = Some m" and "get_node (set_node a m f) = get_node f"
proof -
  show i: "inv {} None (set_node a m f)" and K: "keys (set_node a m f) = keys f"
    by (rule inv_set_same [OF assms(1,2)]; use assms(3) in \<open>simp add: other_fields_def\<close>)+
  show "lck (set_node a m f) = lck f" using assms(2,3) by (auto simp: lck_def fun_eq_iff node_at_set_node other_fields_def)
  show "node_at (set_node a m f) a = Some m" using assms(2) by (simp add: node_at_set_node)
  show "get_node (set_node a m f) = get_node f"
    by (intro ext option_eq) (simp only: get_node_inv [OF i] get_node_inv [OF assms(1)] K)
qed

section \<open>Closing a file\<close>

text \<open>
  C9: Closing a file removes it if it was deleted while it was open. A file that is still open elsewhere is only released; the last close of
  a hidden file also has the file system unlink the path the file has now, after the release and before the path is
  given back. A close that also flushes has the file system flush before; its error, unless it is \<^verbatim>\<open>ENOSYS\<close>, is the answer, and otherwise
  the answer is success. The file is counted as open once less, whatever the file system returned, and no lock is left. This is for a
  request that runs alone while memory does not run out, without \<^verbatim>\<open>nullpath_ok\<close>, and if the close flushes for a file system
  without \<^verbatim>\<open>lock\<close>. (When there is no memory for the path, a hidden file is not unlinked.)
\<close>

theorem release_request:
  assumes "idle (tree s)" and "known_file (tree s) ino a as None" and "node_at (tree s) a = Some n" and "0 < open_count n"
    and "\<not> nullpath_ok cf" and "fi_flush fi \<longrightarrow> fs ''flush'' \<and> \<not> fs ''lock''" and "fs ''release''" and "fs ''unlink''"
    and "path = path_of (tree s) as None" and "got = Got (ForPath ino None False) (Inr (Path path None))"
    and "err = (if fi_flush fi then ret (ans [got] (Fs_flush (Some path) fi)) else 0)"
  shows "\<exists>t m. run_alone (fuse_lib_release cf fs ino fi) ans s [] =
      Some ([got] @ (if fi_flush fi then [Asked False (Fs_flush (Some path) fi)] else []) @ [Asked False (Fs_release (Some path) fi)] @
        (if is_hidden n \<and> open_count n = 1 then [Asked False (Fs_unlink (Some path))] else []) @
        [Returned [(ino, None)], Answered (Some (R_err (if err = - H_ENOSYS then 0 else - err)))], t) \<and>
    node_at (tree t) a = Some m \<and> open_count m = open_count n - 1 \<and> is_hidden m = (is_hidden n \<and> open_count n \<noteq> 1) \<and> idle (tree t)"
proof -
  have i: "inv {} None (tree s)" using assms(1) by (simp add: idle_def)
  let ?err = "if err = - H_ENOSYS then 0 else err"
  let ?rel = "\<lambda>e. fuse_do_release cf fs ino (Some path) fi (put_path ino (Some path) (reply_err e))"
  let ?Q = "if fi_flush fi then Ask False (Fs_flush (Some path) fi) (\<lambda>r. ?rel (if ret r = - H_ENOSYS then 0 else ret r)) else ?rel 0"
  let ?es = "[got] @ (if fi_flush fi then [Asked False (Fs_flush (Some path) fi)] else [])"
  have no_lock: "fi_flush fi \<Longrightarrow> fuse_flush_common fs ino p fi k = Ask False (Fs_flush p fi) (\<lambda>r. k (ret r))" for p k
    using assms(6) by (simp add: fuse_flush_common_def fuse_fs_flush_def fuse_fs_lock_def ask_or_def plain_res_def)
  obtain k where k: "fuse_lib_release cf fs ino fi = Get_path (ForPath ino None False) k" "k (Inr (Path path None)) = ?Q"
    using assms(5) by (simp add: fuse_lib_release_def nullok_path_def path_or_null_def Let_def no_lock)
  obtain g where g: "run_alone (fuse_lib_release cf fs ino fi) ans s [] = run_alone ?Q ans (s\<lparr>tree := g\<rparr>) ([] @ [got])"
    "same_tree (tree s) g" "inv {} None g" "lck g = locked_by as" "False \<notin> set (fmem g)" "keys g = keys (tree s)"
    by (rule start_alone [OF assms(1,2,9,10) k, of ans "[]"])
  have flushed: "run_alone ?Q ans (s\<lparr>tree := g\<rparr>) ([] @ [got]) = run_alone (?rel ?err) ans (s\<lparr>tree := g\<rparr>) ?es"
    by (simp add: assms(11) H_ENOSYS_def)
  obtain x where x: "node_at g a = Some x" "unlocked x = unlocked n" by (rule same_tree_all [OF g(2) assms(3)])
  have fields: "open_count x = open_count n" "is_hidden x = is_hidden n" using x(2) by (cases x; cases n; simp add: unlocked_def)+
  define gone where "gone \<longleftrightarrow> is_hidden n \<and> open_count n = 1"
  define y where "y = x\<lparr>open_count := open_count n - 1, is_hidden := is_hidden n \<and> \<not> gone\<rparr>"
  have o: "other_fields x y" by (simp add: other_fields_def y_def)
  note s' = set_other [OF g(3) x(1) o]
  have ino: "get_node g ino = Some a" using assms(2) same_tree_get_node [OF g(2)] by (simp add: known_file_def)
  have cnt: "count_release ino (s\<lparr>tree := g\<rparr>) = Some (no_val\<lparr>v_flag := gone\<rparr>, s\<lparr>tree := set_node a y g\<rparr>)"
    using ino x(1) fields assms(4) by (simp add: count_release_def gone_def y_def)
  obtain h where h: "unlock_path ino None None (set_node a y g) = Some h" "same_tree (set_node a y g) h" "lck h = (\<lambda>_. 0)" "inv {} None h"
    using give_back_alone [OF i s'(1) assms(2)] s'(2,3) g(4,6) by auto
  obtain m where m: "node_at h a = Some m" "unlocked m = unlocked y" by (rule same_tree_all [OF h(2) s'(4)])
  have "open_count m = open_count n - 1 \<and> is_hidden m = (is_hidden n \<and> open_count n \<noteq> 1)"
    using m(2) by (cases m; cases x) (auto simp: unlocked_def gone_def y_def)
  moreover have "run_alone (?rel ?err) ans (s\<lparr>tree := g\<rparr>) ?es =
      Some (?es @ [Asked False (Fs_release (Some path) fi)] @ (if gone then [Asked False (Fs_unlink (Some path))] else []) @
        [Returned [(ino, None)], Answered (Some (R_err (- ?err)))], s\<lparr>tree := h\<rparr>)"
    using cnt h(1) assms(7,8)
    by (simp add: fuse_do_release_def fuse_fs_release_def fuse_fs_unlink_def ask_or_def put_path_def reply_err_then_def)
  moreover have "fmem h = fmem g" using unlock_path_memory [OF h(1)] by simp
  moreover have "- ?err = (if err = - H_ENOSYS then 0 else - err)" by simp
  ultimately show ?thesis
    using g(5) h(3,4) m(1) unfolding g(1) flushed
    by (intro exI [of _ "s\<lparr>tree := h\<rparr>"] exI [of _ m]) (simp add: gone_def idle_def)
qed

section \<open>Record locks\<close>

lemma getlk_conflict:
  assumes "get_node (tree s) ino = Some a" and "node_at (tree s) a = Some n" and "wf_locks (nlocks n)"
    and "held (nlocks n) ow p = Some ty" and "ow \<noteq> fi_lock_owner fi" and "ty = F_WRLCK \<or> l_type l = F_WRLCK"
    and "lstart (flock_to_lock l) \<le> p" and "p \<le> lend (flock_to_lock l)"
  shows "\<exists>c\<in>set (nlocks n). lowner c \<noteq> fi_lock_owner fi \<and>
    run_alone (fuse_lib_getlk cf fs ino fi l) ans s [] = Some ([Answered (Some (R_lock (ll_of_flock (lock_to_flock c))))], s)"
proof -
  let ?l = "owned_lock l fi"
  have "ltype ?l = l_type l" "lowner ?l = fi_lock_owner fi" "lstart ?l = lstart (flock_to_lock l)" "lend ?l = lend (flock_to_lock l)"
    by (simp_all add: owned_lock_def flock_to_lock_def)
  with locks_conflict_correct [OF assms(3), of ?l] assms(4-8) obtain c where
    c: "locks_conflict (nlocks n) ?l = Some c" "c \<in> set (nlocks n)" "lowner c \<noteq> fi_lock_owner fi" by fastforce
  have "find_conflict ino ?l s = Some (no_val\<lparr>v_lock := Some (lock_to_flock c)\<rparr>, s)"
    using assms(1,2) c(1) by (simp add: find_conflict_def)
  then have "run_alone (fuse_lib_getlk cf fs ino fi l) ans s [] = Some ([Answered (Some (R_lock (ll_of_flock (lock_to_flock c))))], s)"
    by (simp add: fuse_lib_getlk_def)
  with c(2,3) show ?thesis by blast
qed

text \<open>
  C15: A lock that was set is seen by others. When the file system grants a lock, the request is answered with success and
  the table of the file says that the owner holds the lock on exactly the bytes of the range, in the form in which the file system has
  returned it (usually the lock it was asked for); a request of another owner that asks for a conflicting lock on one of these bytes is then
  answered with a lock of somebody else, without asking the file system. This is for requests that run alone while memory does not run
  out, without \<^verbatim>\<open>nullpath_ok\<close>, for a range that ends within the file offsets and a table as \<^verbatim>\<open>locks_insert\<close> leaves it. (When there is no memory for the table, the code answers success although the lock is not in it.)
\<close>

theorem lock_requests:
  assumes "idle (tree s)" and "known_file (tree s) ino a as None" and "node_at (tree s) a = Some n" and "\<not> nullpath_ok cf" and "fs ''lock''"
    and "wf_locks (nlocks n)" and "\<forall>l\<in>set (nlocks n). lock_range l" and "lock_range (owned_lock lk fi)"
    and "path = path_of (tree s) as None" and "got = Got (ForPath ino None False) (Inr (Path path None))"
    and "call = Fs_lock (Some path) fi (if sleep then Do_setlkw else Do_setlk) l"
    and "ret (ans [got] call) = 0" and "r_flock (ans [got] call) = lk"
  shows "\<exists>t m. run_alone (fuse_lib_setlk cf fs ino fi l sleep) ans s [] =
      Some ([got, Asked False call, Returned [(ino, None)], Answered (Some (R_err 0))], t) \<and>
    node_at (tree t) a = Some m \<and> wf_locks (nlocks m) \<and> held (nlocks m) = update_held (owned_lock lk fi) (held (nlocks n)) \<and>
    inv {} None (tree t) \<and> lck (tree t) = (\<lambda>_. 0) \<and>
    (\<forall>fi' l' p. l_type lk \<noteq> F_UNLCK \<longrightarrow> fi_lock_owner fi' \<noteq> fi_lock_owner fi \<longrightarrow> l_type lk = F_WRLCK \<or> l_type l' = F_WRLCK \<longrightarrow>
      lstart (flock_to_lock lk) \<le> p \<longrightarrow> p \<le> lend (flock_to_lock lk) \<longrightarrow>
      lstart (flock_to_lock l') \<le> p \<longrightarrow> p \<le> lend (flock_to_lock l') \<longrightarrow>
      (\<exists>c\<in>set (nlocks m). lowner c \<noteq> fi_lock_owner fi' \<and>
        run_alone (fuse_lib_getlk cf fs ino fi' l') ans t [] = Some ([Answered (Some (R_lock (ll_of_flock (lock_to_flock c))))], t)))"
proof -
  have i: "inv {} None (tree s)" using assms(1) by (simp add: idle_def)
  let ?L = "owned_lock lk fi"
  let ?K = "\<lambda>err lk. if err = 0 then Locked (insert_lock ino (owned_lock lk fi)) (\<lambda>_. reply_err 0) else reply_err err"
  let ?Q = "Ask False call (\<lambda>r. put_path ino (Some path) (?K (ret r) (r_flock r)))"
  obtain k where k: "fuse_lib_setlk cf fs ino fi l sleep = Get_path (ForPath ino None False) k" "k (Inr (Path path None)) = ?Q"
    using assms(4,5,11) by (simp add: fuse_lib_setlk_def fuse_lock_common_def nullok_path_def fuse_fs_lock_def ask_or_def)
  obtain g where g: "run_alone (fuse_lib_setlk cf fs ino fi l sleep) ans s [] = run_alone ?Q ans (s\<lparr>tree := g\<rparr>) ([] @ [got])"
    "same_tree (tree s) g" "inv {} None g" "lck g = locked_by as" "False \<notin> set (fmem g)" "keys g = keys (tree s)"
    by (rule start_alone [OF assms(1,2,9,10) k, of ans "[]"])
  obtain h where h: "unlock_path ino None None g = Some h" "same_tree g h" "lck h = (\<lambda>_. 0)" "inv {} None h"
    using give_back_alone [OF i g(3) assms(2) g(4)] g(6) by auto
  note st = same_tree_trans [OF g(2) h(2)]
  have mem: "False \<notin> set (fmem h)" using unlock_path_memory [OF h(1)] g(5) by simp
  obtain x where x: "node_at h a = Some x" "unlocked x = unlocked n" by (rule same_tree_all [OF st assms(3)])
  have ls: "nlocks x = nlocks n" using x(2) by (cases x; cases n; simp add: unlocked_def)
  have "fst (alloc (fmem h)) \<and> fst (alloc (snd (alloc (fmem h))))" using mem alloc_fails alloc_subset by blast
  from locks_insert_ok [OF assms(6-8) this] obtain ls' mem' where
    ins: "locks_insert (nlocks n) ?L (fmem h) = Some (0, ls', mem')" "wf_locks ls'" "held ls' = update_held ?L (held (nlocks n))" by blast
  define y where "y = x\<lparr>nlocks := ls'\<rparr>"
  have h': "inv {} None (h\<lparr>fmem := mem'\<rparr>)" "node_at (h\<lparr>fmem := mem'\<rparr>) a = Some x" using h(4) x(1) inv_cong [of "h\<lparr>fmem := mem'\<rparr>" h] by simp_all
  note t = set_other [OF h', of y]
  let ?t = "s\<lparr>tree := set_node a y (h\<lparr>fmem := mem'\<rparr>)\<rparr>"
  have ino: "get_node h ino = Some a" using assms(2) same_tree_get_node [OF st] by (simp add: known_file_def)
  have sec: "insert_lock ino ?L (s\<lparr>tree := h\<rparr>) = Some (no_val\<lparr>v_err := 0\<rparr>, ?t)"
    using ino x(1) ls ins(1) by (simp add: insert_lock_def y_def)
  have run: "run_alone (fuse_lib_setlk cf fs ino fi l sleep) ans s [] = Some ([got, Asked False call, Returned [(ino, None)], Answered (Some (R_err 0))], ?t)"
    unfolding g(1) using assms(12,13) h(1) sec by (simp add: put_path_def reply_err_then_def)
  have o: "other_fields x y" by (simp add: other_fields_def y_def)
  have t': "get_node (tree ?t) ino = Some a" "node_at (tree ?t) a = Some y" "wf_locks (nlocks y)"
    using ino t(4,5) [OF o] ins(2) same_tree_get_node [OF same_tree_mem [of h mem']] by (simp_all add: y_def)
  have "lck (tree ?t) = (\<lambda>_. 0)" "inv {} None (tree ?t)" "held (nlocks y) = update_held ?L (held (nlocks n))"
    using t(1,3) [OF o] h(3) ins(3) by (simp_all add: y_def)
  moreover have "\<exists>c\<in>set (nlocks y). lowner c \<noteq> fi_lock_owner fi' \<and>
      run_alone (fuse_lib_getlk cf fs ino fi' l') ans ?t [] = Some ([Answered (Some (R_lock (ll_of_flock (lock_to_flock c))))], ?t)"
    if "l_type lk \<noteq> F_UNLCK" "fi_lock_owner fi' \<noteq> fi_lock_owner fi" "l_type lk = F_WRLCK \<or> l_type l' = F_WRLCK"
      "lstart (flock_to_lock lk) \<le> p" "p \<le> lend (flock_to_lock lk)" "lstart (flock_to_lock l') \<le> p" "p \<le> lend (flock_to_lock l')" for fi' l' p
  proof (rule getlk_conflict [OF t'])
    show "held (nlocks y) (fi_lock_owner fi) p = Some (l_type lk)"
      using that ins(3) by (simp add: y_def update_held_def owned_lock_def flock_to_lock_def)
  qed (use that in auto)
  ultimately show ?thesis using run t'(2,3) by (intro exI [of _ ?t] exI [of _ y]) blast
qed

section \<open>Witnesses\<close>

lemma demo_tree_idle: "idle demo_tree" and demo_tree_root: "known_file demo_tree ROOT_ID 0 [] (Some [97])" and demo_tree_size: "card (dom (keys demo_tree)) = 2"
proof -
  obtain a i n where d: "inv {} None demo_fuse" "keys demo_fuse = [0 \<mapsto> (ROOT_ID, None, Some [47]), a \<mapsto> (i, Some 0, Some [97])]"
    "a \<noteq> 0" "known demo_fuse 0" "get_node demo_fuse ROOT_ID = Some 0" by (rule demo_fuse_ok)
  have at: "node_at demo_tree c = map_option unlocked (node_at demo_fuse c)" for c by (auto simp: node_at_def demo_tree_def)
  then have st: "same_tree demo_fuse demo_tree"
    by (simp add: same_tree_def option.map_comp o_def) (simp add: demo_tree_def)
  have l: "lck demo_tree = (\<lambda>_. 0)" by (auto simp: lck_def at unlocked_def split: option.splits)
  have "fmem demo_tree = []" by (simp add: demo_tree_def)
  with l inv_same_tree [OF d(1) st unlocked_ok [OF l]] show "idle demo_tree" by (simp add: idle_def)
  have "known demo_tree 0" using d(4) by (auto simp: known_def at unlocked_def)
  with d(5) same_tree_get_node [OF st] same_tree_keys [OF st] d(2,3) show "known_file demo_tree ROOT_ID 0 [] (Some [97])"
    by (simp add: known_file_def at_root_def full_path_def)
  show "card (dom (keys demo_tree)) = 2" using same_tree_keys [OF st] d(2,3) by simp
qed

theorem lookup_request_witness:
  "\<exists>a i gen t. run_alone (fuse_lib_lookup demo_conf all_ops ROOT_ID [97]) (\<lambda>_ _. missing 0) demo_hl [] =
      Some ([Got (ForPath ROOT_ID (Some [97]) False) (Inr (Path [47, 97] None)), Asked False (Fs_getattr (Some [47, 97]) None), Returned [(ROOT_ID, None)],
        Answered (Some (R_entry \<lparr>e_ino = i, e_generation = gen, e_attr = set_stat demo_conf i zero_stat,
          e_attr_timeout = (1, 0), e_entry_timeout = (1, 0)\<rparr>))], t) \<and>
    get_node (tree t) i = Some a \<and> lookup_node (tree t) ROOT_ID [97] = Some a"
proof -
  have p: "[47, 97] = path_of (tree demo_hl) [] (Some [97])" by (simp add: path_of_def full_path_def)
  have t: "tree demo_hl = demo_tree" "attr_timeout demo_conf = (1, 0)" "entry_timeout demo_conf = (1, 0)" by (simp_all add: demo_hl_def demo_conf_def)
  have m: "ret (missing 0) = 0" "r_stat (missing 0) = zero_stat" by (simp_all add: plain_res_def)
  have c: "card (dom (keys demo_tree)) < 2 ^ 32 - 2" "[97 :: u8] \<noteq> [46]" "[97 :: u8] \<noteq> [46, 46]" using demo_tree_size by simp_all
  show ?thesis
    using lookup_request [of demo_hl ROOT_ID 0 "[]" "[97]" all_ops, unfolded t, OF demo_tree_idle demo_tree_root c TrueI p [unfolded t] refl,
      of "\<lambda>_ _. missing 0" demo_conf, unfolded m t, OF refl]
    by (elim exE conjE) (intro exI conjI, assumption, assumption, simp)
qed

text \<open>The file of the demonstration tree, hidden and open once, with no locks.\<close>

definition hidden_demo :: "nat \<Rightarrow> hl" where
  "hidden_demo a = (case node_at demo_tree a of None \<Rightarrow> demo_hl
     | Some n \<Rightarrow> demo_hl\<lparr>tree := set_node a (n\<lparr>open_count := 1, is_hidden := True, nlocks := []\<rparr>) demo_tree\<rparr>)"

lemma hidden_demo_ok:
  obtains a i n where "idle (tree (hidden_demo a))" "known_file (tree (hidden_demo a)) i a [a] None" "node_at (tree (hidden_demo a)) a = Some n"
    "open_count n = 1" "is_hidden n" "nlocks n = []" "path_of (tree (hidden_demo a)) [a] None = [47, 97]"
proof -
  obtain a i n where d: "keys demo_fuse = [0 \<mapsto> (ROOT_ID, None, Some [47]), a \<mapsto> (i, Some 0, Some [97])]" "a \<noteq> 0"
    "node_at demo_fuse a = Some n" "nlookup n = 1" "get_node demo_fuse i = Some a" "i \<noteq> ROOT_ID" by (rule demo_fuse_ok)
  have at: "node_at demo_tree c = map_option unlocked (node_at demo_fuse c)" for c by (auto simp: node_at_def demo_tree_def)
  then have st: "same_tree demo_fuse demo_tree"
    by (simp add: same_tree_def option.map_comp o_def) (simp add: demo_tree_def)
  have i: "inv {} None demo_tree" using demo_tree_idle by (simp add: idle_def)
  let ?m = "(unlocked n)\<lparr>open_count := 1, is_hidden := True, nlocks := []\<rparr>"
  have n: "node_at demo_tree a = Some (unlocked n)" using at d(3) by simp
  have o: "other_fields (unlocked n) ?m" by (simp add: other_fields_def)
  note s = set_other [OF i n o]
  have t: "tree (hidden_demo a) = set_node a ?m demo_tree" using n by (simp add: hidden_demo_def)
  have k: "keys (tree (hidden_demo a)) = [0 \<mapsto> (ROOT_ID, None, Some [47]), a \<mapsto> (i, Some 0, Some [97])]"
    using s(2) same_tree_keys [OF st] d(1) t by simp
  show thesis
  proof (rule that)
    show "idle (tree (hidden_demo a))" using s(1,3) demo_tree_idle by (simp add: idle_def t)
    show "known_file (tree (hidden_demo a)) i a [a] None"
      using s(4,5) d(2,4,5,6) k same_tree_get_node [OF st] by (simp add: known_file_def at_root_def full_path_def known_def t unlocked_def)
    show "node_at (tree (hidden_demo a)) a = Some ?m" using s(4) t by simp
    show "path_of (tree (hidden_demo a)) [a] None = [47, 97]" using k by (simp add: path_of_def full_path_def)
  qed simp_all
qed

theorem release_request_witness:
  "\<exists>a i t. run_alone (fuse_lib_release demo_conf (\<lambda>op. op \<noteq> ''lock'') i (zero_fi\<lparr>fi_flush := True\<rparr>)) (\<lambda>_ _. missing (- H_EIO)) (hidden_demo a) [] =
    Some ([Got (ForPath i None False) (Inr (Path [47, 97] None)), Asked False (Fs_flush (Some [47, 97]) (zero_fi\<lparr>fi_flush := True\<rparr>)),
      Asked False (Fs_release (Some [47, 97]) (zero_fi\<lparr>fi_flush := True\<rparr>)), Asked False (Fs_unlink (Some [47, 97])), Returned [(i, None)],
      Answered (Some (R_err H_EIO))], t)"
proof -
  obtain a i n where d: "idle (tree (hidden_demo a))" "known_file (tree (hidden_demo a)) i a [a] None" "node_at (tree (hidden_demo a)) a = Some n"
    "open_count n = 1" "is_hidden n" "nlocks n = []" "path_of (tree (hidden_demo a)) [a] None = [47, 97]" by (rule hidden_demo_ok)
  let ?fi = "zero_fi\<lparr>fi_flush := True\<rparr>" and ?fs = "\<lambda>op. op \<noteq> ''lock''"
  have "\<not> nullpath_ok demo_conf" "fi_flush ?fi \<longrightarrow> ?fs ''flush'' \<and> \<not> ?fs ''lock''" by (simp_all add: demo_conf_def)
  from release_request [OF d(1-3) _ this _ _ d(7) [symmetric] refl refl, of "\<lambda>_ _. missing (- H_EIO)"] d(4,5) show ?thesis
    by (auto simp: plain_res_def H_EIO_def H_ENOSYS_def)
qed

text \<open>A lock for writing, and the question of another owner.\<close>

abbreviation range_lock :: flock where "range_lock \<equiv> \<lparr>l_type = F_WRLCK, l_start = 5, l_len = 3, l_pid = 1\<rparr>"

theorem lock_requests_witness:
  "\<exists>a i t es c. run_alone (fuse_lib_setlk demo_conf all_ops i zero_fi range_lock False)
      (\<lambda>_ _. (missing 0)\<lparr>r_flock := range_lock\<rparr>) (hidden_demo a) [] = Some (es, t) \<and> last es = Answered (Some (R_err 0)) \<and>
    lowner c \<noteq> 7 \<and> run_alone (fuse_lib_getlk demo_conf all_ops i (zero_fi\<lparr>fi_lock_owner := 7\<rparr>) \<lparr>l_type = F_RDLCK, l_start = 0, l_len = 0, l_pid = 2\<rparr>)
      (\<lambda>_ _. (missing 0)\<lparr>r_flock := range_lock\<rparr>) t [] = Some ([Answered (Some (R_lock (ll_of_flock (lock_to_flock c))))], t)"
proof -
  let ?fi = "zero_fi\<lparr>fi_lock_owner := 7\<rparr>" and ?l = "\<lparr>l_type = F_RDLCK, l_start = 0, l_len = 0, l_pid = 2\<rparr>"
  obtain a i n where d: "idle (tree (hidden_demo a))" "known_file (tree (hidden_demo a)) i a [a] None" "node_at (tree (hidden_demo a)) a = Some n"
    "open_count n = 1" "is_hidden n" "nlocks n = []" "path_of (tree (hidden_demo a)) [a] None = [47, 97]" by (rule hidden_demo_ok)
  have cf: "\<not> nullpath_ok demo_conf" "lock_range (owned_lock range_lock zero_fi)"
    by (simp_all add: demo_conf_def lock_range_def owned_lock_def flock_to_lock_def OFFSET_MAX_def)
  have locks: "wf_locks (nlocks n)" "\<forall>l\<in>set (nlocks n). lock_range l" using d(6) by simp_all
  have granted: "ret ((missing 0)\<lparr>r_flock := range_lock\<rparr>) = 0" "r_flock ((missing 0)\<lparr>r_flock := range_lock\<rparr>) = range_lock"
    by (simp_all add: plain_res_def)
  obtain es t and m :: node where run: "run_alone (fuse_lib_setlk demo_conf all_ops i zero_fi range_lock False)
      (\<lambda>_ _. (missing 0)\<lparr>r_flock := range_lock\<rparr>) (hidden_demo a) [] = Some (es, t)" "last es = Answered (Some (R_err 0))"
    and seen: "\<forall>fi' l' p. l_type range_lock \<noteq> F_UNLCK \<longrightarrow> fi_lock_owner fi' \<noteq> fi_lock_owner zero_fi \<longrightarrow>
      l_type range_lock = F_WRLCK \<or> l_type l' = F_WRLCK \<longrightarrow>
      lstart (flock_to_lock range_lock) \<le> p \<longrightarrow> p \<le> lend (flock_to_lock range_lock) \<longrightarrow>
      lstart (flock_to_lock l') \<le> p \<longrightarrow> p \<le> lend (flock_to_lock l') \<longrightarrow>
      (\<exists>c\<in>set (nlocks m). lowner c \<noteq> fi_lock_owner fi' \<and>
        run_alone (fuse_lib_getlk demo_conf all_ops i fi' l') (\<lambda>_ _. (missing 0)\<lparr>r_flock := range_lock\<rparr>) t [] =
          Some ([Answered (Some (R_lock (ll_of_flock (lock_to_flock c))))], t))"
    by (rule exE [OF lock_requests [where fs = all_ops and sleep = False and l = range_lock and lk = range_lock and fi = zero_fi and
      ans = "\<lambda>_ _. (missing 0)\<lparr>r_flock := range_lock\<rparr>", OF d(1-3) cf(1) TrueI locks cf(2) refl refl refl granted]], elim exE conjE)
      (rule that, assumption, simp (no_asm), assumption)
  have "\<exists>c\<in>set (nlocks m). lowner c \<noteq> fi_lock_owner ?fi \<and>
      run_alone (fuse_lib_getlk demo_conf all_ops i ?fi ?l) (\<lambda>_ _. (missing 0)\<lparr>r_flock := range_lock\<rparr>) t [] =
        Some ([Answered (Some (R_lock (ll_of_flock (lock_to_flock c))))], t)"
    by (rule seen [rule_format, of ?fi ?l 6]) (simp_all add: flock_to_lock_def OFFSET_MAX_def zero_fi_def)
  with run show ?thesis by fastforce
qed

end
