(* ===== verification/Subdir.thy ===== *)
theory Subdir
  imports HighFs
begin

text \<open>
  The module \<^verbatim>\<open>lib/modules/subdir.c\<close>: a file system that passes every operation to another one, with a base directory in
  front of the paths. With the option \<^verbatim>\<open>rellinks\<close> it makes the targets of absolute symbolic links
  relative. An operation is a program over the actions of \<open>HighFs\<close> that asks the next file system; the buffer and the
  filler of \<^verbatim>\<open>readdir\<close>, which it passes on, are not arguments here. \<^verbatim>\<open>init\<close> and \<^verbatim>\<open>destroy\<close> are left out.
\<close>

section \<open>Paths below the base\<close>

record subdir =
  base :: "u8 list"
  rellinks :: bool

abbreviation baselen :: "subdir \<Rightarrow> nat" where "baselen d \<equiv> length (base d)"

text \<open>What \<^verbatim>\<open>subdir_new\<close> makes of the option.\<close>

definition subdir_base :: "u8 list \<Rightarrow> u8 list" where
  "subdir_base b = (if b \<noteq> [] \<and> last b \<noteq> 47 then b @ [47] else b)"

text \<open>The new path; the buffer has a length of 32 bits, and writing past it gives \<open>None\<close>.\<close>

definition new_path :: "subdir \<Rightarrow> u8 list \<Rightarrow> u8 list" where
  "new_path d p = (let q = base d @ (if p \<noteq> [] \<and> hd p = 47 then tl p else p) in if q = [] then [46] else q)"

definition subdir_alloc :: "subdir \<Rightarrow> u8 list \<Rightarrow> hl \<Rightarrow> (val \<times> hl) option" where
  "subdir_alloc d p s = do {
     (v, t) \<leftarrow> allocate s;
     if v_flag v \<and> unat (of_nat (baselen d + length p) + 2 :: u32) < length (new_path d p) + 1 then None else Some (v, t)
   }"

definition subdir_addpath :: "subdir \<Rightarrow> path \<Rightarrow> (int + path \<Rightarrow> prog) \<Rightarrow> prog" where
  "subdir_addpath d p k =
     (case p of
        None \<Rightarrow> k (Inr None)
      | Some q \<Rightarrow> Locked (subdir_alloc d q) (\<lambda>v. k (if v_flag v then Inr (Some (new_path d q)) else Inl (- H_ENOMEM))))"

text \<open>The operations differ in what they call; an error leaves what they were to fill in as it is.\<close>

definition with_newpath :: "subdir \<Rightarrow> path \<Rightarrow> fs_res \<Rightarrow> (fs_res \<Rightarrow> prog) \<Rightarrow> (path \<Rightarrow> prog) \<Rightarrow> prog" where
  "with_newpath d p r k f = subdir_addpath d p (\<lambda>e. case e of Inl err \<Rightarrow> k (r\<lparr>ret := err\<rparr>) | Inr q \<Rightarrow> f q)"

section \<open>Relative links\<close>

definition skip_slashes :: "u8 list \<Rightarrow> u8 list" where
  "skip_slashes p = dropWhile (\<lambda>c. c = 47) p"

lemma skip_slashes_ok: "length (skip_slashes p) \<le> length p" "skip_slashes p \<noteq> [] \<Longrightarrow> hd (skip_slashes p) \<noteq> 47"
proof -
  show "length (skip_slashes p) \<le> length p" by (simp add: skip_slashes_def length_dropWhile_le)
  show "skip_slashes p \<noteq> [] \<Longrightarrow> hd (skip_slashes p) \<noteq> 47" unfolding skip_slashes_def by (metis (mono_tags) hd_dropWhile)
qed

function count_names :: "u8 list \<Rightarrow> nat" where
  "count_names p = (if p = [] then 0 else 1 + count_names (skip_slashes (dropWhile (\<lambda>c. c \<noteq> 47) p)))"
  by pat_completeness auto
termination
proof (relation "measure length")
  fix p :: "u8 list" assume "p \<noteq> []"
  then obtain c q where p: "p = c # q" by (cases p) auto
  have "length (skip_slashes (dropWhile (\<lambda>c. c \<noteq> 47) q)) \<le> length q" "length (skip_slashes q) \<le> length q"
    using skip_slashes_ok(1) length_dropWhile_le le_trans by blast+
  then show "(skip_slashes (dropWhile (\<lambda>c. c \<noteq> 47) p), p) \<in> measure length" by (simp add: p skip_slashes_def)
qed simp

definition count_components :: "u8 list \<Rightarrow> nat" where
  "count_components p = count_names (skip_slashes p)"

fun eat_common :: "u8 list \<Rightarrow> u8 list \<Rightarrow> u8 list \<times> u8 list" where
  "eat_common (c # s) (e # t) = (if c = e \<and> c \<noteq> 47 then eat_common s t else (c # s, e # t))"
| "eat_common s t = (s, t)"

text \<open>Whether the loop of \<^verbatim>\<open>strip_common\<close> goes on: both stand at the end of the same name, and one at least goes on.\<close>

definition names_match :: "u8 list \<Rightarrow> u8 list \<Rightarrow> bool" where
  "names_match s t \<longleftrightarrow> (s \<noteq> [] \<and> t \<noteq> [] \<and> hd s = hd t) \<or> (s = [] \<and> t \<noteq> [] \<and> hd t = 47) \<or> (s \<noteq> [] \<and> hd s = 47 \<and> t = [])"

lemma eat_common_ok:
  "eat_common s t = (s', t') \<Longrightarrow> \<exists>w. s = w @ s' \<and> t = w @ t' \<and> 47 \<notin> set w \<and> (s' \<noteq> [] \<longrightarrow> t' \<noteq> [] \<longrightarrow> hd s' = hd t' \<longrightarrow> hd s' = 47)"
proof (induction s t rule: eat_common.induct)
  case (1 c s e t)
  show ?case
  proof (cases "c = e \<and> c \<noteq> 47")
    case True
    with 1 obtain w where "s = w @ s'" "t = w @ t'" "47 \<notin> set w" "s' \<noteq> [] \<longrightarrow> t' \<noteq> [] \<longrightarrow> hd s' = hd t' \<longrightarrow> hd s' = 47" by auto
    with True show ?thesis by (intro exI [of _ "c # w"]) auto
  qed (use 1 in \<open>auto simp: exI [of _ "[]"]\<close>)
qed auto

function strip_common :: "u8 list \<Rightarrow> u8 list \<Rightarrow> u8 list \<times> u8 list" where
  "strip_common s t =
     (let s0 = skip_slashes s; t0 = skip_slashes t; (s1, t1) = eat_common s0 t0 in
      if names_match s1 t1 then strip_common s1 t1 else (s0, t0))"
  by pat_completeness auto
termination
proof (relation "measure (\<lambda>(s, t). length s + length t)")
  fix s t s0 t0 x s1 t1
  assume s0: "s0 = skip_slashes s" "t0 = skip_slashes t" and x: "x = eat_common s0 t0" "(s1, t1) = x" and m: "names_match s1 t1"
  obtain w where w: "s0 = w @ s1" "t0 = w @ t1" "s1 \<noteq> [] \<longrightarrow> t1 \<noteq> [] \<longrightarrow> hd s1 = hd t1 \<longrightarrow> hd s1 = 47"
    using eat_common_ok [of s0 t0 s1 t1] x by auto
  have h: "s0 \<noteq> [] \<Longrightarrow> hd s0 \<noteq> 47" "t0 \<noteq> [] \<Longrightarrow> hd t0 \<noteq> 47" using skip_slashes_ok(2) s0 by blast+
  have le: "length s0 \<le> length s" "length t0 \<le> length t" using skip_slashes_ok(1) s0 by blast+
  have "w \<noteq> []" using m w h by (auto simp: names_match_def)
  then have "length s1 + length t1 < length s0 + length t0" using w(1,2) by simp
  with le show "((s1, t1), s, t) \<in> measure (\<lambda>(s, t). length s + length t)" by simp
qed simp

declare count_names.simps [simp del] strip_common.simps [simp del]

text \<open>Writing into the buffer of the link; outside of it there is no result.\<close>

definition link_write :: "u8 list \<Rightarrow> nat \<Rightarrow> u8 list \<Rightarrow> u8 list option" where
  "link_write buf at bs = (if at + length bs \<le> length buf then Some (put_at buf at bs) else None)"

fun write_dotdots :: "nat \<Rightarrow> nat \<Rightarrow> u8 list \<Rightarrow> u8 list option" where
  "write_dotdots 0 at buf = Some buf"
| "write_dotdots (Suc n) at buf = do {b \<leftarrow> link_write buf at [46, 46, 47]; write_dotdots n (at + 3) b}"

definition transform_symlink :: "subdir \<Rightarrow> u8 list \<Rightarrow> u8 list \<Rightarrow> u8 list option" where
  "transform_symlink d p buf =
     (let link = c_str buf in
      if link = [] \<or> hd link \<noteq> 47 \<or> base d = [] \<or> hd (base d) \<noteq> 47 then Some buf
      else
        let (l, q) = strip_common link p in
        if length link - length l < baselen d then Some buf
        else if count_components q = 0 then Some buf
        else
          let dotdots = count_components q - 1; llen = length l in
          if dotdots * 3 + llen + 2 > length buf then Some buf
          else do {
            b \<leftarrow> (if llen \<noteq> 0 then link_write buf (dotdots * 3) (l @ [0])
                 else if dotdots = 0 then link_write buf 0 [46, 0] else link_write buf (dotdots * 3) [0]);
            write_dotdots dotdots 0 b
          })"

section \<open>The operations\<close>

type_synonym sub_op = "(fs_res \<Rightarrow> prog) \<Rightarrow> prog"

definition subdir_getattr :: "subdir \<Rightarrow> fs_ops \<Rightarrow> path \<Rightarrow> fuse_file_info option \<Rightarrow> sub_op" where
  "subdir_getattr d nxt p fi k = with_newpath d p (missing 0) k (\<lambda>q. fuse_fs_getattr nxt False q fi k)"

definition subdir_access :: "subdir \<Rightarrow> fs_ops \<Rightarrow> path \<Rightarrow> u32 \<Rightarrow> sub_op" where
  "subdir_access d nxt p m k = with_newpath d p (missing 0) k (\<lambda>q. fuse_fs_access nxt q m k)"

definition subdir_opendir :: "subdir \<Rightarrow> fs_ops \<Rightarrow> path \<Rightarrow> fuse_file_info \<Rightarrow> sub_op" where
  "subdir_opendir d nxt p fi k = with_newpath d p (plain_res 0 fi) k (\<lambda>q. fuse_fs_opendir nxt q fi k)"

definition subdir_readdir :: "subdir \<Rightarrow> fs_ops \<Rightarrow> path \<Rightarrow> u64 \<Rightarrow> fuse_file_info \<Rightarrow> u32 \<Rightarrow> sub_op" where
  "subdir_readdir d nxt p off fi fl k = with_newpath d p (missing 0) k (\<lambda>q. fuse_fs_readdir nxt q off fi fl k)"

definition subdir_releasedir :: "subdir \<Rightarrow> fs_ops \<Rightarrow> path \<Rightarrow> fuse_file_info \<Rightarrow> sub_op" where
  "subdir_releasedir d nxt p fi k = with_newpath d p (plain_res 0 fi) k (\<lambda>q. fuse_fs_releasedir nxt q fi k)"

definition subdir_mknod :: "subdir \<Rightarrow> fs_ops \<Rightarrow> path \<Rightarrow> u32 \<Rightarrow> u32 \<Rightarrow> sub_op" where
  "subdir_mknod d nxt p mode rdev k = with_newpath d p (missing 0) k (\<lambda>q. fuse_fs_mknod nxt q mode rdev k)"

definition subdir_mkdir :: "subdir \<Rightarrow> fs_ops \<Rightarrow> path \<Rightarrow> u32 \<Rightarrow> sub_op" where
  "subdir_mkdir d nxt p mode k = with_newpath d p (missing 0) k (\<lambda>q. fuse_fs_mkdir nxt q mode k)"

definition subdir_unlink :: "subdir \<Rightarrow> fs_ops \<Rightarrow> path \<Rightarrow> sub_op" where
  "subdir_unlink d nxt p k = with_newpath d p (missing 0) k (\<lambda>q. fuse_fs_unlink nxt False q k)"

definition subdir_rmdir :: "subdir \<Rightarrow> fs_ops \<Rightarrow> path \<Rightarrow> sub_op" where
  "subdir_rmdir d nxt p k = with_newpath d p (missing 0) k (\<lambda>q. fuse_fs_rmdir nxt q k)"

definition subdir_chmod :: "subdir \<Rightarrow> fs_ops \<Rightarrow> path \<Rightarrow> u32 \<Rightarrow> fuse_file_info option \<Rightarrow> sub_op" where
  "subdir_chmod d nxt p mode fi k = with_newpath d p (missing 0) k (\<lambda>q. fuse_fs_chmod nxt q mode fi k)"

definition subdir_chown :: "subdir \<Rightarrow> fs_ops \<Rightarrow> path \<Rightarrow> u32 \<Rightarrow> u32 \<Rightarrow> fuse_file_info option \<Rightarrow> sub_op" where
  "subdir_chown d nxt p uid gid fi k = with_newpath d p (missing 0) k (\<lambda>q. fuse_fs_chown nxt q uid gid fi k)"

definition subdir_truncate :: "subdir \<Rightarrow> fs_ops \<Rightarrow> path \<Rightarrow> u64 \<Rightarrow> fuse_file_info option \<Rightarrow> sub_op" where
  "subdir_truncate d nxt p sz fi k = with_newpath d p (missing 0) k (\<lambda>q. fuse_fs_truncate nxt q sz fi k)"

definition subdir_utimens :: "subdir \<Rightarrow> fs_ops \<Rightarrow> path \<Rightarrow> tspec \<Rightarrow> tspec \<Rightarrow> fuse_file_info option \<Rightarrow> sub_op" where
  "subdir_utimens d nxt p a m fi k = with_newpath d p (missing 0) k (\<lambda>q. fuse_fs_utimens nxt q a m fi k)"

definition subdir_create :: "subdir \<Rightarrow> fs_ops \<Rightarrow> path \<Rightarrow> u32 \<Rightarrow> fuse_file_info \<Rightarrow> sub_op" where
  "subdir_create d nxt p mode fi k = with_newpath d p (plain_res 0 fi) k (\<lambda>q. fuse_fs_create nxt q mode fi k)"

definition subdir_open :: "subdir \<Rightarrow> fs_ops \<Rightarrow> path \<Rightarrow> fuse_file_info \<Rightarrow> sub_op" where
  "subdir_open d nxt p fi k = with_newpath d p (plain_res 0 fi) k (\<lambda>q. fuse_fs_open nxt q fi k)"

definition subdir_read_buf :: "subdir \<Rightarrow> fs_ops \<Rightarrow> path \<Rightarrow> nat \<Rightarrow> u64 \<Rightarrow> fuse_file_info \<Rightarrow> sub_op" where
  "subdir_read_buf d nxt p sz off fi k = with_newpath d p (plain_res 0 fi) k (\<lambda>q. fuse_fs_read_buf nxt q sz off fi (\<lambda>(err, bs). k ((plain_res err fi)\<lparr>r_bytes := bs\<rparr>)))"

definition subdir_write_buf :: "subdir \<Rightarrow> fs_ops \<Rightarrow> path \<Rightarrow> u8 list \<Rightarrow> u64 \<Rightarrow> fuse_file_info \<Rightarrow> sub_op" where
  "subdir_write_buf d nxt p data off fi k = with_newpath d p (plain_res 0 fi) k (\<lambda>q. fuse_fs_write_buf nxt q data off fi k)"

definition subdir_statfs :: "subdir \<Rightarrow> fs_ops \<Rightarrow> path \<Rightarrow> sub_op" where
  "subdir_statfs d nxt p k = with_newpath d p (missing 0) k (\<lambda>q. fuse_fs_statfs nxt q k)"

definition subdir_flush :: "subdir \<Rightarrow> fs_ops \<Rightarrow> path \<Rightarrow> fuse_file_info \<Rightarrow> sub_op" where
  "subdir_flush d nxt p fi k = with_newpath d p (plain_res 0 fi) k (\<lambda>q. fuse_fs_flush nxt q fi k)"

definition subdir_release :: "subdir \<Rightarrow> fs_ops \<Rightarrow> path \<Rightarrow> fuse_file_info \<Rightarrow> sub_op" where
  "subdir_release d nxt p fi k = with_newpath d p (plain_res 0 fi) k (\<lambda>q. fuse_fs_release nxt q fi k)"

definition subdir_fsync :: "subdir \<Rightarrow> fs_ops \<Rightarrow> path \<Rightarrow> bool \<Rightarrow> fuse_file_info \<Rightarrow> sub_op" where
  "subdir_fsync d nxt p ds fi k = with_newpath d p (plain_res 0 fi) k (\<lambda>q. fuse_fs_fsync nxt q ds fi k)"

definition subdir_fsyncdir :: "subdir \<Rightarrow> fs_ops \<Rightarrow> path \<Rightarrow> bool \<Rightarrow> fuse_file_info \<Rightarrow> sub_op" where
  "subdir_fsyncdir d nxt p ds fi k = with_newpath d p (plain_res 0 fi) k (\<lambda>q. fuse_fs_fsyncdir nxt q ds fi k)"

definition subdir_setxattr :: "subdir \<Rightarrow> fs_ops \<Rightarrow> path \<Rightarrow> u8 list \<Rightarrow> u8 list \<Rightarrow> u32 \<Rightarrow> sub_op" where
  "subdir_setxattr d nxt p name value fl k = with_newpath d p (missing 0) k (\<lambda>q. fuse_fs_setxattr nxt q name value fl k)"

definition subdir_getxattr :: "subdir \<Rightarrow> fs_ops \<Rightarrow> path \<Rightarrow> u8 list \<Rightarrow> nat \<Rightarrow> sub_op" where
  "subdir_getxattr d nxt p name sz k = with_newpath d p (missing 0) k (\<lambda>q. fuse_fs_getxattr nxt q name sz k)"

definition subdir_listxattr :: "subdir \<Rightarrow> fs_ops \<Rightarrow> path \<Rightarrow> nat \<Rightarrow> sub_op" where
  "subdir_listxattr d nxt p sz k = with_newpath d p (missing 0) k (\<lambda>q. fuse_fs_listxattr nxt q sz k)"

definition subdir_removexattr :: "subdir \<Rightarrow> fs_ops \<Rightarrow> path \<Rightarrow> u8 list \<Rightarrow> sub_op" where
  "subdir_removexattr d nxt p name k = with_newpath d p (missing 0) k (\<lambda>q. fuse_fs_removexattr nxt q name k)"

definition subdir_lock :: "subdir \<Rightarrow> fs_ops \<Rightarrow> path \<Rightarrow> fuse_file_info \<Rightarrow> lock_cmd \<Rightarrow> flock \<Rightarrow> sub_op" where
  "subdir_lock d nxt p fi cmd l k = with_newpath d p ((plain_res 0 fi)\<lparr>r_flock := l\<rparr>) k (\<lambda>q. fuse_fs_lock nxt q fi cmd l k)"

definition subdir_flock :: "subdir \<Rightarrow> fs_ops \<Rightarrow> path \<Rightarrow> fuse_file_info \<Rightarrow> u32 \<Rightarrow> sub_op" where
  "subdir_flock d nxt p fi opn k = with_newpath d p (plain_res 0 fi) k (\<lambda>q. fuse_fs_flock nxt q fi opn k)"

definition subdir_bmap :: "subdir \<Rightarrow> fs_ops \<Rightarrow> path \<Rightarrow> u64 \<Rightarrow> u64 \<Rightarrow> sub_op" where
  "subdir_bmap d nxt p bs idx k = with_newpath d p ((missing 0)\<lparr>r_num := idx\<rparr>) k (\<lambda>q. fuse_fs_bmap nxt q bs idx k)"

definition subdir_symlink :: "subdir \<Rightarrow> fs_ops \<Rightarrow> u8 list \<Rightarrow> path \<Rightarrow> sub_op" where
  "subdir_symlink d nxt from p k = with_newpath d p (missing 0) k (\<lambda>q. fuse_fs_symlink nxt from q k)"

definition subdir_rename :: "subdir \<Rightarrow> fs_ops \<Rightarrow> path \<Rightarrow> path \<Rightarrow> u32 \<Rightarrow> sub_op" where
  "subdir_rename d nxt p p' fl k =
     with_newpath d p (missing 0) k (\<lambda>q. with_newpath d p' (missing 0) k (\<lambda>q'. fuse_fs_rename nxt False q q' fl k))"

definition subdir_link :: "subdir \<Rightarrow> fs_ops \<Rightarrow> path \<Rightarrow> path \<Rightarrow> sub_op" where
  "subdir_link d nxt p p' k =
     with_newpath d p (missing 0) k (\<lambda>q. with_newpath d p' (missing 0) k (\<lambda>q'. fuse_fs_link nxt q q' k))"

text \<open>The buffer has the link and the null byte, which the next file system has left room for. A null path is never given to \<^verbatim>\<open>readlink\<close>.\<close>

definition link_buffer :: "nat \<Rightarrow> u8 list \<Rightarrow> u8 list" where
  "link_buffer sz bs = take (sz - 1) bs @ replicate (sz - length (take (sz - 1) bs)) 0"

definition relative_link :: "subdir \<Rightarrow> path \<Rightarrow> nat \<Rightarrow> u8 list \<Rightarrow> hl \<Rightarrow> (val \<times> hl) option" where
  "relative_link d q sz bs s = do {p \<leftarrow> q; b \<leftarrow> transform_symlink d p (link_buffer sz bs); Some (no_val\<lparr>v_name := c_str b\<rparr>, s)}"

definition subdir_readlink :: "subdir \<Rightarrow> fs_ops \<Rightarrow> path \<Rightarrow> nat \<Rightarrow> sub_op" where
  "subdir_readlink d nxt p sz k =
     with_newpath d p (missing 0) k (\<lambda>q. fuse_fs_readlink nxt q sz (\<lambda>r.
       if ret r = 0 \<and> rellinks d then Locked (relative_link d q sz (r_bytes r)) (\<lambda>v. k (r\<lparr>r_bytes := v_name v\<rparr>)) else k r))"

text \<open>The result of \<^verbatim>\<open>lseek\<close> goes through an \<^verbatim>\<open>int\<close>.\<close>

definition subdir_lseek :: "subdir \<Rightarrow> fs_ops \<Rightarrow> path \<Rightarrow> u64 \<Rightarrow> u32 \<Rightarrow> fuse_file_info \<Rightarrow> sub_op" where
  "subdir_lseek d nxt p off whence fi k =
     with_newpath d p (plain_res 0 fi) k (\<lambda>q. fuse_fs_lseek nxt q off whence fi (\<lambda>r. k (r\<lparr>ret := sint (word_of_int (ret r) :: u32)\<rparr>)))"

text \<open>The table; what the module does not have is \<open>None\<close>.\<close>

fun subdir_oper :: "subdir \<Rightarrow> fs_ops \<Rightarrow> fs_call \<Rightarrow> (fs_res \<Rightarrow> prog) \<Rightarrow> prog option" where
  "subdir_oper d nxt (Fs_getattr p fi) k = Some (subdir_getattr d nxt p fi k)"
| "subdir_oper d nxt (Fs_access p m) k = Some (subdir_access d nxt p m k)"
| "subdir_oper d nxt (Fs_opendir p fi) k = Some (subdir_opendir d nxt p fi k)"
| "subdir_oper d nxt (Fs_readdir p off fi fl) k = Some (subdir_readdir d nxt p off fi fl k)"
| "subdir_oper d nxt (Fs_releasedir p fi) k = Some (subdir_releasedir d nxt p fi k)"
| "subdir_oper d nxt (Fs_mknod p mode rdev) k = Some (subdir_mknod d nxt p mode rdev k)"
| "subdir_oper d nxt (Fs_mkdir p mode) k = Some (subdir_mkdir d nxt p mode k)"
| "subdir_oper d nxt (Fs_unlink p) k = Some (subdir_unlink d nxt p k)"
| "subdir_oper d nxt (Fs_rmdir p) k = Some (subdir_rmdir d nxt p k)"
| "subdir_oper d nxt (Fs_chmod p mode fi) k = Some (subdir_chmod d nxt p mode fi k)"
| "subdir_oper d nxt (Fs_chown p uid gid fi) k = Some (subdir_chown d nxt p uid gid fi k)"
| "subdir_oper d nxt (Fs_truncate p sz fi) k = Some (subdir_truncate d nxt p sz fi k)"
| "subdir_oper d nxt (Fs_utimens p a m fi) k = Some (subdir_utimens d nxt p a m fi k)"
| "subdir_oper d nxt (Fs_create p mode fi) k = Some (subdir_create d nxt p mode fi k)"
| "subdir_oper d nxt (Fs_open p fi) k = Some (subdir_open d nxt p fi k)"
| "subdir_oper d nxt (Fs_read_buf p sz off fi) k = Some (subdir_read_buf d nxt p sz off fi k)"
| "subdir_oper d nxt (Fs_write_buf p data off fi) k = Some (subdir_write_buf d nxt p data off fi k)"
| "subdir_oper d nxt (Fs_statfs p) k = Some (subdir_statfs d nxt p k)"
| "subdir_oper d nxt (Fs_flush p fi) k = Some (subdir_flush d nxt p fi k)"
| "subdir_oper d nxt (Fs_release p fi) k = Some (subdir_release d nxt p fi k)"
| "subdir_oper d nxt (Fs_fsync p ds fi) k = Some (subdir_fsync d nxt p ds fi k)"
| "subdir_oper d nxt (Fs_fsyncdir p ds fi) k = Some (subdir_fsyncdir d nxt p ds fi k)"
| "subdir_oper d nxt (Fs_setxattr p name value fl) k = Some (subdir_setxattr d nxt p name value fl k)"
| "subdir_oper d nxt (Fs_getxattr p name sz) k = Some (subdir_getxattr d nxt p name sz k)"
| "subdir_oper d nxt (Fs_listxattr p sz) k = Some (subdir_listxattr d nxt p sz k)"
| "subdir_oper d nxt (Fs_removexattr p name) k = Some (subdir_removexattr d nxt p name k)"
| "subdir_oper d nxt (Fs_lock p fi cmd l) k = Some (subdir_lock d nxt p fi cmd l k)"
| "subdir_oper d nxt (Fs_flock p fi opn) k = Some (subdir_flock d nxt p fi opn k)"
| "subdir_oper d nxt (Fs_bmap p bs idx) k = Some (subdir_bmap d nxt p bs idx k)"
| "subdir_oper d nxt (Fs_symlink l p) k = Some (subdir_symlink d nxt l p k)"
| "subdir_oper d nxt (Fs_rename p p' fl) k = Some (subdir_rename d nxt p p' fl k)"
| "subdir_oper d nxt (Fs_link p p') k = Some (subdir_link d nxt p p' k)"
| "subdir_oper d nxt (Fs_readlink p sz) k = Some (subdir_readlink d nxt p sz k)"
| "subdir_oper d nxt (Fs_lseek p off w fi) k = Some (subdir_lseek d nxt p off w fi k)"
| "subdir_oper d nxt c k = None"

lemmas subdir_defs = subdir_getattr_def subdir_access_def subdir_opendir_def subdir_readdir_def subdir_releasedir_def subdir_mknod_def subdir_mkdir_def subdir_unlink_def subdir_rmdir_def subdir_chmod_def subdir_chown_def subdir_truncate_def subdir_utimens_def subdir_create_def subdir_open_def subdir_read_buf_def subdir_write_buf_def subdir_statfs_def subdir_flush_def subdir_release_def subdir_fsync_def subdir_fsyncdir_def subdir_setxattr_def subdir_getxattr_def subdir_listxattr_def subdir_removexattr_def subdir_lock_def subdir_flock_def subdir_bmap_def subdir_symlink_def subdir_rename_def subdir_link_def subdir_readlink_def subdir_lseek_def

section \<open>Names\<close>

text \<open>The names of a path, as \<^verbatim>\<open>lookup_path_in_cache\<close> separates them.\<close>

abbreviation names :: "u8 list \<Rightarrow> u8 list list" where "names p \<equiv> split_path [] p"

lemma split_path_word: "47 \<notin> set w \<Longrightarrow> split_path el (w @ p) = split_path (el @ w) p"
  by (induction w arbitrary: el) auto

lemma split_path_start: "p = [] \<or> hd p = 47 \<Longrightarrow> split_path el p = (if el = [] then [] else [el]) @ names p"
  by (cases p) auto

lemma names_skip [simp]: "names (skip_slashes p) = names p"
  unfolding skip_slashes_def by (induction p) auto

lemma names_word: "47 \<notin> set w \<Longrightarrow> w \<noteq> [] \<Longrightarrow> p = [] \<or> hd p = 47 \<Longrightarrow> names (w @ p) = w # names p"
  by (simp add: split_path_word split_path_start [of p w])

lemma count_components_names: "count_components p = length (names p)"
proof -
  have cnt: "count_names q = length (names q)" if "q = [] \<or> hd q \<noteq> 47" for q
    using that
  proof (induction q rule: count_names.induct)
    case (1 q)
    show ?case
    proof (cases "q = []")
      case False
      let ?w = "takeWhile (\<lambda>c. c \<noteq> 47) q" and ?r = "dropWhile (\<lambda>c. c \<noteq> 47) q"
      have w: "47 \<notin> set ?w" using set_takeWhileD by fastforce
      have "?w \<noteq> []" using 1(2) False by (cases q) auto
      moreover have "?r = [] \<or> hd ?r = 47" by (metis (mono_tags, lifting) hd_dropWhile)
      ultimately have "names q = ?w # names ?r" using names_word [OF w] by (metis takeWhile_dropWhile_id)
      moreover have "count_names (skip_slashes ?r) = length (names (skip_slashes ?r))"
        using 1(1) [OF False] skip_slashes_ok(2) by blast
      ultimately show ?thesis using False by (subst count_names.simps) simp
    qed (simp add: count_names.simps)
  qed
  have "skip_slashes p = [] \<or> hd (skip_slashes p) \<noteq> 47" using skip_slashes_ok(2) by blast
  from cnt [OF this] show ?thesis by (simp add: count_components_def)
qed

lemma strip_common_ok:
  "strip_common s t = (s', t') \<Longrightarrow>
   \<exists>C. names s = C @ names s' \<and> names t = C @ names t' \<and> (s' = [] \<or> hd s' \<noteq> 47) \<and> (\<exists>w. s = w @ s')"
proof (induction s t arbitrary: s' t' rule: strip_common.induct)
  case (1 s t)
  let ?s = "skip_slashes s" and ?t = "skip_slashes t"
  obtain s1 t1 where e: "eat_common ?s ?t = (s1, t1)" by fastforce
  from eat_common_ok [OF this] obtain w where w: "?s = w @ s1" "?t = w @ t1" "47 \<notin> set w"
    "s1 \<noteq> [] \<longrightarrow> t1 \<noteq> [] \<longrightarrow> hd s1 = hd t1 \<longrightarrow> hd s1 = 47" by blast
  have pre: "\<exists>v. s = v @ ?s" unfolding skip_slashes_def by (metis takeWhile_dropWhile_id)
  show ?case
  proof (cases "names_match s1 t1")
    case True
    then have m: "s1 = [] \<or> hd s1 = 47" "t1 = [] \<or> hd t1 = 47" using w(4) by (auto simp: names_match_def)
    have ne: "w \<noteq> []"
      using True w skip_slashes_ok(2) [of s] skip_slashes_ok(2) [of t] by (auto simp: names_match_def)
    have n: "names s = w # names s1" "names t = w # names t1"
      using names_word [OF w(3) ne m(1)] names_word [OF w(3) ne m(2)] w(1,2) names_skip [of s] names_skip [of t] by simp_all
    have "strip_common s1 t1 = (s', t')" using "1.prems" e True by (subst (asm) strip_common.simps) simp
    with "1.IH" [OF refl refl e [symmetric] refl True] obtain C v where
      "names s1 = C @ names s'" "names t1 = C @ names t'" "s' = [] \<or> hd s' \<noteq> 47" "s1 = v @ s'" by blast
    with n pre w(1) show ?thesis by (intro exI [of _ "w # C"]) auto
  next
    case False
    then have "s' = ?s" "t' = ?t" using "1.prems" e by (subst (asm) strip_common.simps; simp)+
    then show ?thesis using pre skip_slashes_ok(2) [of s] by (intro exI [of _ "[]"]) auto
  qed
qed

section \<open>The transformed link\<close>

abbreviation dotdots :: "nat \<Rightarrow> u8 list" where "dotdots n \<equiv> concat (replicate n [46, 46, 47])"

lemma length_dotdots [simp]: "length (dotdots n) = 3 * n"
  by (induction n) auto

lemma dotdots_no_nul [simp]: "0 \<notin> set (dotdots n)"
  by (induction n) auto

lemma write_dotdots_ok: "at + 3 * n \<le> length buf \<Longrightarrow> write_dotdots n at buf = Some (put_at buf at (dotdots n))"
proof (induction n arbitrary: at buf)
  case (Suc n)
  then have "link_write buf at [46, 46, 47] = Some (put_at buf at [46, 46, 47])" by (simp add: link_write_def)
  moreover have "put_at (put_at buf at [46, 46, 47]) (at + 3) (dotdots n) = put_at buf at (dotdots (Suc n))"
    using Suc.prems put_at_append [of "at" "[46, 46, 47]" "dotdots n" buf] by (simp add: numeral_3_eq_3)
  ultimately show ?case using Suc by simp
qed (simp add: put_at_def)

lemma write_link:
  assumes "3 * n + length l + 1 \<le> length buf" and "0 \<notin> set l"
  shows "\<exists>b. (do {b \<leftarrow> link_write buf (n * 3) (l @ [0]); write_dotdots n 0 b}) = Some b \<and> length b = length buf \<and> 0 \<in> set b \<and> c_str b = dotdots n @ l"
proof -
  let ?b = "put_at buf (n * 3) (l @ [0])"
  have "link_write buf (n * 3) (l @ [0]) = Some ?b" "length ?b = length buf" using assms(1) by (simp_all add: link_write_def)
  moreover have "put_at ?b 0 (dotdots n) = (dotdots n @ l) @ 0 # drop (n * 3 + length l + 1) buf"
    using assms(1) by (simp add: put_at_def mult.commute)
  ultimately show ?thesis using assms write_dotdots_ok [of 0 n ?b] c_str_append_nul [of "dotdots n @ l"] by simp
qed

text \<open>A buffer that is changed holds a relative link; it is as long as before and ends with a null byte.\<close>

lemma transform_symlink_shape:
  assumes "0 \<in> set buf"
  obtains "transform_symlink d p buf = Some buf"
    | b l q n where "transform_symlink d p buf = Some b" "length b = length buf" "0 \<in> set b" "strip_common (c_str buf) p = (l, q)"
      "length (names q) = Suc n" "c_str b = dotdots n @ (if l = [] \<and> n = 0 then [46] else l)" "c_str buf \<noteq> []" "hd (c_str buf) = 47"
      "base d \<noteq> []" "hd (base d) = 47" "baselen d \<le> length (c_str buf) - length l"
proof (cases "transform_symlink d p buf = Some buf")
  case False
  obtain l q where lq: "strip_common (c_str buf) p = (l, q)" by fastforce
  have c: "c_str buf \<noteq> []" "hd (c_str buf) = 47" "base d \<noteq> []" "hd (base d) = 47" "baselen d \<le> length (c_str buf) - length l"
    "count_components q \<noteq> 0" "(count_components q - 1) * 3 + length l + 2 \<le> length buf"
    using False lq by (auto simp: transform_symlink_def Let_def split: if_splits)
  obtain n where n: "length (names q) = Suc n" using c(6) by (metis count_components_names not0_implies_Suc)
  then have cnt: "count_components q = Suc n" by (simp add: count_components_names)
  obtain w where "c_str buf = w @ l" using strip_common_ok [OF lq] by blast
  moreover have "0 \<notin> set (c_str buf)" using set_takeWhileD by (fastforce simp: c_str_def)
  ultimately have l0: "0 \<notin> set l" by auto
  let ?l = "if l = [] \<and> n = 0 then [46] else l"
  have "transform_symlink d p buf = do {b \<leftarrow> link_write buf (n * 3) (?l @ [0]); write_dotdots n 0 b}"
    using c lq cnt by (simp add: transform_symlink_def Let_def)
  moreover have "3 * n + length ?l + 1 \<le> length buf" "0 \<notin> set ?l" using c(7) cnt l0 by auto
  ultimately show thesis using that(2) [OF _ _ _ lq n _ c(1-5)] write_link [of n ?l buf] by metis
qed (rule that)

text \<open>Following a link from a directory, both given by their names.\<close>

definition step_into :: "u8 list list \<Rightarrow> u8 list \<Rightarrow> u8 list list" where
  "step_into dir name = (if name = [46] then dir else if name = [46, 46] then butlast dir else dir @ [name])"

definition follow_link :: "u8 list list \<Rightarrow> u8 list \<Rightarrow> u8 list list" where
  "follow_link dir link = foldl step_into (if link \<noteq> [] \<and> hd link = 47 then [] else dir) (names link)"

lemma names_dotdots: "names (dotdots n @ l) = replicate n [46, 46] @ names l"
  by (induction n) auto

lemma steps_up: "foldl step_into (C @ D) (replicate (length D) [46, 46]) = C"
proof (induction D rule: rev_induct)
  case (snoc x D)
  then show ?case by (simp add: step_into_def butlast_append)
qed simp

lemma steps_down: "[46] \<notin> set C \<Longrightarrow> [46, 46] \<notin> set C \<Longrightarrow> foldl step_into dir C = dir @ C"
  by (induction C arbitrary: dir) (auto simp: step_into_def)

text \<open>
  C27: Relative links lead where the absolute ones did. Whatever the link and the size of its buffer, \<^verbatim>\<open>transform_symlink\<close> writes only inside the
  buffer and leaves a terminated string in it, and following the new link from the directory of the file gives the same names
  as following the old one, if the path of the file itself has no dots.
\<close>

theorem transform_symlink_correct:
  assumes "0 \<in> set buf" and "[46] \<notin> set (names p)" and "[46, 46] \<notin> set (names p)"
  shows "\<exists>b. transform_symlink d p buf = Some b \<and> length b = length buf \<and> 0 \<in> set b \<and>
    follow_link (butlast (names p)) (c_str b) = follow_link (butlast (names p)) (c_str buf)"
  using assms(1)
proof (cases rule: transform_symlink_shape [of _ d p])
  case (2 b l q n)
  obtain C where C: "names (c_str buf) = C @ names l" "names p = C @ names q" "l = [] \<or> hd l \<noteq> 47" using strip_common_ok [OF 2(4)] by blast
  have dots: "[46] \<notin> set C" "[46, 46] \<notin> set C" using assms(2,3) C(2) by auto
  obtain D x where D: "names q = D @ [x]" "length D = n" using 2(5) by (metis length_append_singleton length_Suc_conv_rev nat.inject)
  define r where "r = dotdots n @ (if l = [] \<and> n = 0 then [46] else l)"
  have rel: "\<not> (r \<noteq> [] \<and> hd r = 47)" using C(3) by (cases n) (auto simp: r_def)
  have "foldl step_into dir (names r) = foldl step_into dir (replicate n [46, 46] @ names l)" for dir
    by (simp add: r_def names_dotdots step_into_def)
  then have "follow_link (butlast (names p)) r = foldl step_into (butlast (names p)) (replicate n [46, 46] @ names l)"
    using rel by (auto simp: follow_link_def)
  also have "\<dots> = foldl step_into C (names l)" using steps_up [of C D] D C(2) by (simp add: butlast_append)
  also have "\<dots> = follow_link (butlast (names p)) (c_str buf)"
    using 2(7,8) C(1) steps_down [OF dots, of "[]"] by (simp add: follow_link_def)
  finally show ?thesis using 2 by (auto simp: r_def)
qed (use assms(1) in auto)

theorem transform_symlink_correct_witness:
  "\<exists>b. transform_symlink \<lparr>base = [47, 97, 47], rellinks = True\<rparr> [47, 97, 47, 98, 47, 99] ([47, 97, 47, 120] @ replicate 8 0) = Some b \<and>
    follow_link [[97], [98]] (c_str b) = [[97], [120]]"
proof -
  have "\<exists>b. transform_symlink \<lparr>base = [47, 97, 47], rellinks = True\<rparr> [47, 97, 47, 98, 47, 99] ([47, 97, 47, 120] @ replicate 8 0) = Some b \<and>
      length b = length ([47, 97, 47, 120] @ replicate 8 (0 :: u8)) \<and> 0 \<in> set b \<and>
      follow_link (butlast (names [47, 97, 47, 98, 47, 99])) (c_str b) =
      follow_link (butlast (names [47, 97, 47, 98, 47, 99])) (c_str ([47, 97, 47, 120] @ replicate 8 0))"
    by (rule transform_symlink_correct) simp_all
  moreover have "butlast (names [47, 97, 47, 98, 47, 99]) = [[97], [98]]" by code_simp
  moreover have "follow_link [[97], [98]] (c_str ([47, 97, 47, 120] @ replicate 8 0)) = [[97], [120]]" by code_simp
  ultimately show ?thesis by auto
qed

text \<open>
  The check that a link leads below the base counts bytes, slashes included: a link that leaves the base is taken for one below it
  if it starts with enough slashes. Here the file \<^verbatim>\<open>/f\<close> of the module is \<^verbatim>\<open>/a/f\<close>, and its link \<^verbatim>\<open>///q\<close> becomes \<^verbatim>\<open>../q\<close>.
\<close>

lemma slashes_count_as_base:
  "map_option c_str (transform_symlink \<lparr>base = [47, 97, 47], rellinks = True\<rparr> [47, 97, 47, 102] [47, 47, 47, 113, 0, 0, 0, 0]) = Some [46, 46, 47, 113]"
  by code_simp

section \<open>Staying below the base\<close>

text \<open>A program asks the next file system only what \<open>P\<close> allows, whatever comes back.\<close>

primrec asks :: "(fs_call \<Rightarrow> bool) \<Rightarrow> prog \<Rightarrow> bool" where
  "asks P Finished = True"
| "asks P (Get_path w k) = (\<forall>r. asks P (k r))"
| "asks P (Put_path xs p) = asks P p"
| "asks P (Ask hid c k) = (P c \<and> (\<forall>r. asks P (k r)))"
| "asks P (Answer a k) = (\<forall>b. asks P (k b))"
| "asks P (Locked sec k) = (\<forall>v. asks P (k v))"
| "asks P (Build sec k) = (\<forall>v. asks P (k v))"
| "asks P (Forgetting ino n p) = asks P p"

definition below_base :: "subdir \<Rightarrow> path \<Rightarrow> bool" where
  "below_base d q = (case q of None \<Rightarrow> True | Some r \<Rightarrow> take (baselen d) r = base d)"

lemma new_path_below [simp]: "below_base d (map_option (new_path d) p)"
  by (cases p; cases "base d = []") (auto simp: below_base_def new_path_def Let_def)

lemma asks_newpath:
  assumes "\<And>e. asks P (k (r\<lparr>ret := e\<rparr>))" and "asks P (f (map_option (new_path d) p))"
  shows "asks P (with_newpath d p r k f)"
  using assms by (cases p) (simp_all add: with_newpath_def subdir_addpath_def)

lemma asks_fs:
  "asks P (k m) \<Longrightarrow> P c \<Longrightarrow> (\<And>r. asks P (k r)) \<Longrightarrow> asks P (ask_or fs name hid c m k)"
  by (simp add: ask_or_def)

text \<open>The buffer of the new path is large enough for every path that the kernel can name.\<close>

lemma subdir_alloc_ok:
  assumes "baselen d + length p + 2 < 2 ^ 32"
  shows "subdir_alloc d p s \<noteq> None"
proof -
  have "(of_nat (baselen d + length p) + 2 :: u32) = of_nat (baselen d + length p + 2)" by simp
  then have "unat (of_nat (baselen d + length p) + 2 :: u32) = baselen d + length p + 2"
    using assms by (simp only: unat_of_nat) simp
  moreover have "length (new_path d p) + 1 \<le> baselen d + length p + 2" by (auto simp: new_path_def Let_def)
  ultimately show ?thesis by (auto simp: subdir_alloc_def allocate_def split: prod.splits)
qed

text \<open>The operations the table has no entry for, which the library takes for missing.\<close>

fun not_in_table :: "fs_call \<Rightarrow> bool" where
  "not_in_table (Fs_read p sz off fi) = True"
| "not_in_table (Fs_write p data off fi) = True"
| "not_in_table (Fs_ioctl p cmd arg fi fl data) = True"
| "not_in_table (Fs_poll p fi ph) = True"
| "not_in_table (Fs_fallocate p mode off len fi) = True"
| "not_in_table (Fs_copy_file_range p fi off q gi off' len fl) = True"
| "not_in_table c = False"

text \<open>
  C28: The module stays below its base directory. Whatever operation of the module's table is called (\<^verbatim>\<open>subdir_oper\<close>, \<^verbatim>\<open>readdir\<close>
  included; \<^verbatim>\<open>init\<close> and \<^verbatim>\<open>destroy\<close> get no path), the next file system is asked only with the paths of the call, each moved below the base by
  \<open>new_path\<close> (null pointers stay null), and every path that reaches it starts with the base. The target of a symbolic link
  is no path of the call: \<^verbatim>\<open>subdir_symlink\<close> passes it on as it is. Only the six operations without an entry in the table reach nobody.
\<close>

theorem subdir_confined:
  "case subdir_oper d nxt c (\<lambda>_. Finished) of
     Some P \<Rightarrow> asks (\<lambda>c'. call_paths c' = map (map_option (new_path d)) (call_paths c) \<and>
       (\<forall>q \<in> set (call_paths c'). below_base d q)) P
   | None \<Rightarrow> not_in_table c"
  by (cases c) (auto simp: subdir_defs fuse_fs_defs intro!: asks_newpath)

theorem subdir_confined_witness:
  "asks (\<lambda>c'. call_paths c' = [Some [47, 97, 47, 102]] \<and>
     (\<forall>q \<in> set (call_paths c'). below_base \<lparr>base = [47, 97, 47], rellinks = False\<rparr> q))
   (subdir_readdir \<lparr>base = [47, 97, 47], rellinks = False\<rparr> (\<lambda>_. True) (Some [47, 102]) 0 zero_fi 0 (\<lambda>_. Finished))"
  using subdir_confined [where d = "\<lparr>base = [47, 97, 47], rellinks = False\<rparr>" and nxt = "\<lambda>_. True" and c = "Fs_readdir (Some [47, 102]) 0 zero_fi 0"]
  by (simp add: new_path_def)

end
